(* ===== verification/Prelude.thy ===== *)
theory Prelude
  imports Main "HOL-Library.Word"
begin

text \<open>
  Shared vocabulary of the development: the machine integer types of the code, the
  three-valued outcome of a routine that may return a null pointer or run into undefined
  behaviour, the collections of hints, and the generic lemmas on lists and words that
  the components use.
\<close>

section \<open>Machine integers\<close>

type_synonym u8 = "8 word"
type_synonym u16 = "16 word"
type_synonym u32 = "32 word"
type_synonym u64 = "64 word"

unbundle bit_operations_syntax

section \<open>Outcomes\<close>

text \<open>
  \<open>Value x\<close>: the routine returned a (non-null) result.  \<open>Null\<close>: it returned
  \<^verbatim>\<open>nullptr\<close>.  \<open>Undefined\<close>: it executed \<^verbatim>\<open>UNREACHABLE()\<close>
  (\<^verbatim>\<open>__builtin_unreachable\<close>) or accessed memory outside the object it was given.
\<close>

datatype 'a outcome = Value 'a | Null | Undefined

section \<open>Collections of hints\<close>

named_theorems ring_laws \<open>what the byte source promises to the parsers\<close>
named_theorems codec_simps \<open>one-step equations of decoders and encoders\<close>

section \<open>Lists\<close>

definition last_n :: "nat \<Rightarrow> 'a list \<Rightarrow> 'a list" where
  "last_n n xs = drop (length xs - n) xs"

lemma length_last_n [simp]: "length (last_n n xs) = min n (length xs)"
  by (simp add: last_n_def)

lemma last_n_all [simp]: "length xs \<le> n \<Longrightarrow> last_n n xs = xs"
  by (simp add: last_n_def)

lemma last_n_snoc:
  assumes "length xs \<le> n" and "0 < n"
  shows "last_n n (xs @ [x]) = (if length xs = n then tl xs else xs) @ [x]"
  using assms by (cases xs) (auto simp: last_n_def)

lemma last_n_last_n_append: "last_n n (last_n n xs @ ys) = last_n n (xs @ ys)"
proof (cases "length xs \<le> n")
  case False
  let ?k = "length xs - n"
  have "last_n n (last_n n xs @ ys) = drop (length ys) (drop ?k (xs @ ys))"
    using False by (simp add: last_n_def)
  also have "\<dots> = drop (length ys + ?k) (xs @ ys)"
    by (simp only: drop_drop)
  also have "length ys + ?k = length (xs @ ys) - n"
    using False by simp
  finally show ?thesis
    by (simp add: last_n_def)
qed simp

lemma take_map_upt: "take k (map f [0..<n]) = map f [0..<min k n]"
  by (rule nth_equalityI) simp_all

lemma drop_map_upt: "drop k (map f [0..<n]) = map (\<lambda>i. f (k + i)) [0..<n - k]"
  by (rule nth_equalityI) simp_all

lemma tl_map_upt: "tl (map f [0..<n]) = map (\<lambda>i. f (Suc i)) [0..<n - 1]"
  by (rule nth_equalityI) (simp_all add: nth_tl)

lemma dropWhile_eq_drop_find:
  assumes "i \<le> length xs" and "\<forall>j < i. P (xs ! j)" and "i < length xs \<longrightarrow> \<not> P (xs ! i)"
  shows "dropWhile P xs = drop i xs"
  using assms
proof (induction xs arbitrary: i)
  case Nil
  then show ?case by simp
next
  case (Cons x xs)
  show ?case
  proof (cases i)
    case 0
    with Cons.prems show ?thesis by simp
  next
    case (Suc k)
    have "P x" using Cons.prems(2) Suc by auto
    moreover have "dropWhile P xs = drop k xs"
    proof (rule Cons.IH)
      show "k \<le> length xs" using Cons.prems(1) Suc by simp
      show "\<forall>j<k. P (xs ! j)" using Cons.prems(2) Suc by auto
      show "k < length xs \<longrightarrow> \<not> P (xs ! k)" using Cons.prems(3) Suc by simp
    qed
    ultimately show ?thesis using Suc by simp
  qed
qed

section \<open>Words\<close>

lemma word_xor_eq_0: "a XOR b = 0 \<longleftrightarrow> a = b" for a b :: "'a::len word"
proof
  assume "a XOR b = 0"
  then have "a XOR (a XOR b) = a" by simp
  then show "a = b" by (simp add: xor.assoc [symmetric])
qed simp

lemma unat_u8_less [simp]: "unat (b :: u8) < 256"
  using unsigned_less [of b] by simp

lemma nat_less_bit: "n < 2 ^ k \<Longrightarrow> bit n j \<Longrightarrow> j < k" for n :: nat
  by (metis bit_take_bit_iff take_bit_nat_eq_self)

lemma nat_or_join: "n < 2 ^ k \<Longrightarrow> push_bit k m OR n = m * 2 ^ k + n" for m n :: nat
proof -
  assume n: "n < 2 ^ k"
  have "push_bit k m + n = push_bit k m OR n"
    by (rule disjunctive_add_eq_or, rule bit_eqI)
      (auto simp: bit_simps dest!: nat_less_bit [OF n])
  then show ?thesis by (simp add: push_bit_eq_mult)
qed

lemma unat_join:
  fixes a b :: "'a::len word"
  assumes "unat b < 2 ^ k" and "unat a * 2 ^ k + unat b < 2 ^ LENGTH('a)"
  shows "unat (push_bit k a OR b) = unat a * 2 ^ k + unat b"
proof -
  have "unat (push_bit k a) = push_bit k (unat a)"
    using assms(2) unfolding unsigned_push_bit_eq
    by (simp add: push_bit_eq_mult take_bit_nat_eq_self)
  then show ?thesis
    by (simp only: unsigned_or_eq nat_or_join [OF assms(1)])
qed

lemma unat_ucast_u8 [simp]:
  "unat (ucast (b :: u8) :: u16) = unat b" "unat (ucast b :: u32) = unat b"
  "unat (ucast b :: u64) = unat b"
  by (simp_all add: unsigned_ucast_eq take_bit_nat_eq_self less_le_trans [OF unat_u8_less])

lemma pow32: "(2::nat) ^ 32 = 4294967296"
  by simp

end
