(* ===== verification/Byte_Source.thy ===== *)
theory Byte_Source
  imports Prelude "HOL-Library.While_Combinator"
begin

text \<open>
  The interface between the byte buffer and the framing parsers that are written on top of
  it: what \<^verbatim>\<open>buffer_length\<close>, \<^verbatim>\<open>peek\<close>, \<^verbatim>\<open>skip\<close> and \<^verbatim>\<open>copy_to_buffer\<close> promise about the
  queue of unread bytes.  All parsers begin by throwing away single bytes until a
  predicate holds for the head of the buffer, or too few bytes are left; the loop and its
  reference function on byte lists are studied here once.
\<close>

section \<open>The reference search on lists\<close>

fun search :: "nat \<Rightarrow> ('a list \<Rightarrow> bool) \<Rightarrow> 'a list \<Rightarrow> 'a list" where
  "search k g [] = []"
| "search k g (x # xs) =
     (if length (x # xs) < k \<or> g (x # xs) then x # xs else search k g xs)"

lemma search_short: "length xs < k \<Longrightarrow> search k g xs = xs"
  by (cases xs) auto

lemma search_hit: "g xs \<Longrightarrow> search k g xs = xs"
  by (cases xs) auto

lemma search_stop: "0 < k \<Longrightarrow> length (search k g xs) < k \<or> g (search k g xs)"
  by (induction xs) auto

lemma search_append_miss:
  assumes "\<And>i. i < length junk \<Longrightarrow> \<not> g (drop i (junk @ xs))" and "k \<le> Suc (length xs)"
  shows "search k g (junk @ xs) = search k g xs"
  using assms(1)
proof (induction junk)
  case Nil
  then show ?case by simp
next
  case (Cons b junk)
  have "\<not> g (b # junk @ xs)" using Cons.prems [of 0] by simp
  moreover have "search k g (junk @ xs) = search k g xs"
  proof (rule Cons.IH)
    fix i assume "i < length junk"
    then show "\<not> g (drop i (junk @ xs))" using Cons.prems [of "Suc i"] by simp
  qed
  ultimately show ?case using assms(2) by simp
qed

lemma search_suffix: "\<exists>junk. xs = junk @ search k g xs \<and>
    (\<forall>i < length junk. k \<le> length (drop i xs) \<and> \<not> g (drop i xs))"
proof (induction xs)
  case Nil
  then show ?case by simp
next
  case (Cons x xs)
  show ?case
  proof (cases "length (x # xs) < k \<or> g (x # xs)")
    case True
    then have "x # xs = [] @ search k g (x # xs)" by simp
    then show ?thesis by (metis less_nat_zero_code list.size(3))
  next
    case False
    from Cons.IH obtain junk where junk: "xs = junk @ search k g xs"
      and miss: "\<forall>i < length junk. k \<le> length (drop i xs) \<and> \<not> g (drop i xs)" by blast
    have "\<forall>i < length (x # junk). k \<le> length (drop i (x # xs)) \<and> \<not> g (drop i (x # xs))"
    proof (intro allI impI)
      fix i assume "i < length (x # junk)"
      then show "k \<le> length (drop i (x # xs)) \<and> \<not> g (drop i (x # xs))"
        using miss False by (cases i) (auto simp: not_less)
    qed
    then show ?thesis using junk False by (intro exI [of _ "x # junk"]) simp
  qed
qed

section \<open>The interface\<close>

locale byte_source =
  fixes invar :: "'s \<Rightarrow> bool"
    and bytes :: "'s \<Rightarrow> u8 list"
    and len :: "'s \<Rightarrow> nat"
    and pk :: "'s \<Rightarrow> nat \<Rightarrow> u8"
    and skp :: "'s \<Rightarrow> nat \<Rightarrow> 's"
    and cpy :: "'s \<Rightarrow> nat \<Rightarrow> u8 list"
  assumes len_eq: "invar s \<Longrightarrow> len s = length (bytes s)"
    and len_bound: "invar s \<Longrightarrow> len s < 2 ^ 32 - 1"
    and pk_eq: "invar s \<Longrightarrow> pk s i = (if i < length (bytes s) then bytes s ! i else 0)"
    and skp_bytes: "invar s \<Longrightarrow> bytes (skp s n) = drop n (bytes s)"
    and skp_invar: "invar s \<Longrightarrow> invar (skp s n)"
    and cpy_eq: "invar s \<Longrightarrow> n < 2 ^ 32 \<Longrightarrow> cpy s n = take n (bytes s)"
begin

lemma pk_after_skp:
  "invar s \<Longrightarrow> i + n < length (bytes s) \<Longrightarrow> pk (skp s n) i = pk s (i + n)"
  using less_diff_conv [of i "length (bytes s)" n]
  by (simp add: pk_eq skp_invar skp_bytes add.commute)

lemma len_skp: "invar s \<Longrightarrow> len (skp s n) = len s - n"
  by (simp add: len_eq skp_invar skp_bytes)

text \<open>The synchronisation loop returns, on the suffix that the reference search finds.\<close>

lemma sync_loop:
  assumes "invar s" and "0 < k"
    and f: "\<And>s. invar s \<Longrightarrow> k \<le> length (bytes s) \<Longrightarrow> f s = g (bytes s)"
  shows "\<exists>s'. while_option (\<lambda>s. k \<le> len s \<and> \<not> f s) (\<lambda>s. skp s 1) s = Some s' \<and> invar s' \<and>
    bytes s' = search k g (bytes s)"
  using assms(1)
proof (induction "bytes s" arbitrary: s)
  case Nil
  then have "while_option (\<lambda>s. k \<le> len s \<and> \<not> f s) (\<lambda>s. skp s 1) s = Some s"
    using \<open>0 < k\<close> by (simp add: while_option_unfold len_eq)
  then show ?case using Nil by (metis search.simps(1))
next
  case (Cons x xs)
  show ?case
  proof (cases "k \<le> len s \<and> \<not> f s")
    case False
    then have "while_option (\<lambda>s. k \<le> len s \<and> \<not> f s) (\<lambda>s. skp s 1) s = Some s"
      by (subst while_option_unfold) auto
    moreover have "search k g (bytes s) = bytes s"
    proof (cases "k \<le> len s")
      case True
      then have "g (bytes s)" using False f [of s] Cons.prems by (simp add: len_eq)
      then show ?thesis by (rule search_hit)
    next
      case False
      then show ?thesis using Cons.prems by (intro search_short) (simp add: len_eq)
    qed
    ultimately show ?thesis using Cons.prems by auto
  next
    case True
    have tl: "bytes (skp s 1) = xs"
      using Cons by (metis drop_0 drop_Suc_Cons One_nat_def skp_bytes)
    have "\<exists>s'. while_option (\<lambda>s. k \<le> len s \<and> \<not> f s) (\<lambda>s. skp s 1) (skp s 1) = Some s' \<and>
        invar s' \<and> bytes s' = search k g (bytes (skp s 1))"
      using tl Cons.prems by (intro Cons.hyps(1)) (auto intro: skp_invar)
    moreover have "search k g (bytes s) = search k g xs"
    proof -
      have "\<not> g (bytes s)" "\<not> length (bytes s) < k"
        using True f [of s] Cons.prems by (auto simp: len_eq)
      then show ?thesis unfolding Cons.hyps(2) [symmetric] by simp
    qed
    ultimately show ?thesis
      using True tl by (subst while_option_unfold) simp
  qed
qed

end

end
