(* ===== verification/Framing.thy ===== *)
theory Framing
  imports Prelude
begin

text \<open>
  A stream that arrives in chunks and is cut into messages.  Every stream of the client is read in
  the same way: a chunk is added to a buffer, and a routine is called until it has no message.
  Here are the loop, the frames of a stream with respect to a specification of the routine on
  the unread bytes, and the interface \<open>framing_parser\<close>, for which the delivery of a stream
  of frames is proved however it is cut into chunks.
\<close>

section \<open>Frames\<close>

text \<open>
  \<open>frame spec m e\<close>: the routine takes \<open>e\<close> from the head of the buffer for the message \<open>m\<close>,
  whatever follows, and waits while the rest of \<open>e\<close> has not arrived.
\<close>

definition frame :: "(u8 list \<Rightarrow> 'm outcome \<times> u8 list) \<Rightarrow> 'm \<Rightarrow> u8 list \<Rightarrow> bool" where
  "frame spec m e \<longleftrightarrow> e \<noteq> [] \<and> (\<forall>x. spec (e @ x) = (Value m, x)) \<and>
     (\<forall>b x. b @ x = e \<longrightarrow> x \<noteq> [] \<longrightarrow> spec b = (Null, b))"

lemma frameI:
  assumes "e \<noteq> []" and "\<And>x. spec (e @ x) = (Value m, x)"
    and "\<And>b x. b @ x = e \<Longrightarrow> x \<noteq> [] \<Longrightarrow> spec b = (Null, b)"
  shows "frame spec m e"
  using assms by (simp add: frame_def)

lemma frameD:
  assumes "frame spec m e"
  shows "e \<noteq> []" and "spec (e @ x) = (Value m, x)" and "b @ x = e \<Longrightarrow> x \<noteq> [] \<Longrightarrow> spec b = (Null, b)"
  using assms by (auto simp: frame_def)

lemma proper_prefix: "b @ x = e \<Longrightarrow> x \<noteq> [] \<Longrightarrow> length b < length e"
  by auto

lemma prefix_nth: "b @ x = e \<Longrightarrow> j < length b \<Longrightarrow> b ! j = e ! j"
  by (auto simp: nth_append)

text \<open>A beginning of a stream of frames is some frames and the beginning of the next.\<close>

lemma split_stream:
  assumes "list_all2 (frame spec) ms es" and "b @ x = concat es"
  obtains ms1 ms2 es1 es2 p where "ms = ms1 @ ms2" "es = es1 @ es2" "b = concat es1 @ p"
    "p @ x = concat es2" "list_all2 (frame spec) ms1 es1" "list_all2 (frame spec) ms2 es2"
    "es2 = [] \<or> length p < length (hd es2)"
  using assms
proof (induction arbitrary: b thesis rule: list_all2_induct)
  case Nil
  show ?case by (rule Nil.prems(1) [of "[]" "[]" "[]" "[]" "[]"]) (use Nil.prems(2) in auto)
next
  case (Cons m ms e es)
  show ?case
  proof (cases "length b < length e")
    case True
    show ?thesis
      by (rule Cons.prems(1) [of "[]" "m # ms" "[]" "e # es" b]) (use True Cons in auto)
  next
    case False
    then obtain b' where b': "b = e @ b'" "b' @ x = concat es"
      using Cons.prems(2) by (auto simp: append_eq_append_conv2)
    from Cons.IH [OF _ b'(2)] obtain ms1 ms2 es1 es2 p where "ms = ms1 @ ms2" "es = es1 @ es2"
      "b' = concat es1 @ p" "p @ x = concat es2" "list_all2 (frame spec) ms1 es1"
      "list_all2 (frame spec) ms2 es2" "es2 = [] \<or> length p < length (hd es2)" by blast
    then show ?thesis
      by (intro Cons.prems(1) [of "m # ms1" ms2 "e # es1" es2 p]) (use Cons.hyps b' in auto)
  qed
qed

section \<open>The loop\<close>

partial_function (option) parse_all ::
  "('s \<Rightarrow> ('m outcome \<times> 's) option) \<Rightarrow> 's \<Rightarrow> ('m list \<times> 's) option" where
  "parse_all parse s =
     (case parse s of
        None \<Rightarrow> None
      | Some (r, s) \<Rightarrow>
          (case r of
             Null \<Rightarrow> Some ([], s)
           | Undefined \<Rightarrow> None
           | Value m \<Rightarrow> Option.bind (parse_all parse s) (\<lambda>(ms, s). Some (m # ms, s))))"

fun feed ::
  "('s \<Rightarrow> u8 list \<Rightarrow> 's) \<Rightarrow> ('s \<Rightarrow> ('m outcome \<times> 's) option) \<Rightarrow> 's \<Rightarrow> u8 list list \<Rightarrow>
   ('m list \<times> 's) option" where
  "feed put parse s [] = Some ([], s)"
| "feed put parse s (c # cs) =
     (case parse_all parse (put s c) of
        None \<Rightarrow> None
      | Some (ms, s) \<Rightarrow>
          (case feed put parse s cs of None \<Rightarrow> None | Some (ms', s) \<Rightarrow> Some (ms @ ms', s)))"

section \<open>The interface\<close>

text \<open>
  \<open>capacity\<close>: how many bytes the buffer can hold.  The laws: a chunk that fits is added at the end;
  the routine returns, keeps the buffer well formed, and its result and the bytes it leaves are
  those of \<open>spec\<close>.
\<close>

locale framing_parser =
  fixes good :: "'s \<Rightarrow> bool"
    and unread :: "'s \<Rightarrow> u8 list"
    and capacity :: "'s \<Rightarrow> nat"
    and put :: "'s \<Rightarrow> u8 list \<Rightarrow> 's"
    and parse :: "'s \<Rightarrow> ('m outcome \<times> 's) option"
    and spec :: "u8 list \<Rightarrow> 'm outcome \<times> u8 list"
  assumes put_law: "good s \<Longrightarrow> length (unread s) + length c \<le> capacity s \<Longrightarrow>
      good (put s c) \<and> unread (put s c) = unread s @ c \<and> capacity (put s c) = capacity s"
    and parse_law: "good s \<Longrightarrow> \<exists>r s'. parse s = Some (r, s') \<and> good s' \<and> capacity s' = capacity s \<and>
      (r, unread s') = spec (unread s)"
begin

text \<open>
  The loop returns when a message costs bytes and the routine has no undefined behaviour.
\<close>

lemma parse_all_returns:
  assumes "good s" and "\<And>b. fst (spec b) \<noteq> Undefined"
    and costs: "\<And>b m x. spec b = (Value m, x) \<Longrightarrow> length x < length b"
  shows "\<exists>ms s'. parse_all parse s = Some (ms, s') \<and> good s' \<and> capacity s' = capacity s"
  using assms(1)
proof (induction "length (unread s)" arbitrary: s rule: less_induct)
  case less
  obtain r s1 where s1: "parse s = Some (r, s1)" "good s1" "capacity s1 = capacity s"
    "(r, unread s1) = spec (unread s)" using parse_law [OF less.prems] by blast
  show ?case
  proof (cases r)
    case (Value m)
    then have "length (unread s1) < length (unread s)"
      using costs [of "unread s" m] s1(4) by simp
    from less.hyps [OF this s1(2)] obtain ms s' where
      s': "parse_all parse s1 = Some (ms, s')" "good s'" "capacity s' = capacity s1" by blast
    have "parse_all parse s = Some (m # ms, s')"
      using s1(1) Value s'(1) by (subst parse_all.simps) simp
    then show ?thesis using s'(2,3) s1(3) by simp
  qed (use s1 assms(2) [of "unread s"] in \<open>auto simp: parse_all.simps [of parse s] prod_eq_iff\<close>)
qed

lemma parse_all_frames:
  assumes "list_all2 (frame spec) ms es" and "good s" and "unread s = concat es @ p"
    and "spec p = (Null, p)"
  shows "\<exists>s'. parse_all parse s = Some (ms, s') \<and> good s' \<and> capacity s' = capacity s \<and> unread s' = p"
  using assms
proof (induction arbitrary: s rule: list_all2_induct)
  case Nil
  obtain r s1 where s1: "parse s = Some (r, s1)" "good s1" "capacity s1 = capacity s"
    "(r, unread s1) = spec (unread s)" using parse_law [OF Nil.prems(1)] by blast
  then have "parse_all parse s = Some ([], s1)"
    using Nil.prems(2,3) by (subst parse_all.simps) simp
  then show ?case using s1 Nil.prems(2,3) by simp
next
  case (Cons m ms e es)
  obtain r s1 where s1: "parse s = Some (r, s1)" "good s1" "capacity s1 = capacity s"
    "(r, unread s1) = spec (unread s)" using parse_law [OF Cons.prems(1)] by blast
  have "spec (unread s) = (Value m, concat es @ p)"
    using frameD(2) [OF Cons.hyps(1)] Cons.prems(2) by simp
  then have r: "r = Value m" "unread s1 = concat es @ p" using s1(4) by simp_all
  from Cons.IH [OF s1(2) r(2) Cons.prems(3)] obtain s' where s':
    "parse_all parse s1 = Some (ms, s')" "good s'" "capacity s' = capacity s1" "unread s' = p" by blast
  have "parse_all parse s = Some (m # ms, s')"
    using s1(1) r(1) s'(1) by (subst parse_all.simps) simp
  then show ?case using s' s1(3) by simp
qed

text \<open>A stream of frames is delivered, message by message and in order, however it is cut.\<close>

lemma feed_from:
  assumes "good s" and "list_all2 (frame spec) ms es" and "unread s @ concat cs = concat es"
    and "es = [] \<or> length (unread s) < length (hd es)"
    and "\<forall>c \<in> set cs. \<forall>e \<in> set es. length c + length e \<le> Suc (capacity s)" and "spec [] = (Null, [])"
    and "\<forall>c \<in> set cs. length c \<le> capacity s"
  shows "\<exists>s'. feed put parse s cs = Some (ms, s') \<and> good s' \<and> unread s' = []"
  using assms
proof (induction cs arbitrary: s ms es)
  case Nil
  then have "es = []" by (cases es) auto
  then show ?case using Nil by simp
next
  case (Cons c cs)
  have "length (unread s) + length c \<le> capacity s"
  proof (cases es)
    case Nil
    then show ?thesis using Cons.prems(3,7) by simp
  next
    case (Cons e es')
    then show ?thesis using Cons.prems(4,5) by fastforce
  qed
  then have put: "good (put s c)" "unread (put s c) = unread s @ c" "capacity (put s c) = capacity s"
    using put_law [OF Cons.prems(1)] by simp_all
  have "(unread s @ c) @ concat cs = concat es" using Cons.prems(3) by simp
  then obtain ms1 ms2 es1 es2 p where sp: "ms = ms1 @ ms2" "es = es1 @ es2" "unread s @ c = concat es1 @ p"
    "p @ concat cs = concat es2" "list_all2 (frame spec) ms1 es1" "list_all2 (frame spec) ms2 es2"
    "es2 = [] \<or> length p < length (hd es2)"
    using split_stream [OF Cons.prems(2)] by blast
  have "spec p = (Null, p)"
  proof (cases es2)
    case Nil
    then show ?thesis using sp(4) Cons.prems(6) by simp
  next
    case (Cons e es')
    then obtain m where f: "frame spec m e" using sp(6) by (auto simp: list_all2_Cons2)
    have "\<exists>x. p @ x = e \<and> x \<noteq> []"
      using sp(4,7) Cons by (auto simp: append_eq_append_conv2)
    then show ?thesis using frameD(3) [OF f] by blast
  qed
  from parse_all_frames [OF sp(5) put(1) _ this] obtain s1 where s1:
    "parse_all parse (put s c) = Some (ms1, s1)" "good s1" "capacity s1 = capacity s" "unread s1 = p"
    using put(2,3) sp(3) by auto
  have "\<exists>s'. feed put parse s1 cs = Some (ms2, s') \<and> good s' \<and> unread s' = []"
    by (rule Cons.IH [OF s1(2) sp(6)]) (use s1 sp Cons.prems in auto)
  then show ?case using s1(1) sp(1) by auto
qed

lemma feed_stream:
  assumes "good s" and "unread s = []" and "list_all2 (frame spec) ms es" and "concat cs = concat es"
    and "\<forall>c \<in> set cs. \<forall>e \<in> set es. length c + length e \<le> Suc (capacity s)" and "spec [] = (Null, [])"
    and "\<forall>c \<in> set cs. length c \<le> capacity s"
  shows "\<exists>s'. feed put parse s cs = Some (ms, s') \<and> good s' \<and> unread s' = []"
proof (rule feed_from [OF assms(1,3) _ _ assms(5,6,7)])
  show "unread s @ concat cs = concat es" using assms(2,4) by simp
  show "es = [] \<or> length (unread s) < length (hd es)"
    using assms(2,3) by (cases es) (auto simp: list_all2_Cons2 frame_def)
qed

end

end
