(* ===== verification/Ring_Buffer.thy ===== *)
theory Ring_Buffer
  imports Byte_Source Framing
begin

text \<open>
  The base class of the framing parsers, \<^verbatim>\<open>format::helper::Parser\<close>
  (dependency/format/helper/parser.cpp): a ring of \<^verbatim>\<open>PARSER_BUFFER_SIZE\<close> bytes with
  a read and a write index.  Indices are natural numbers: the class keeps them below the
  capacity, which is 131072, so the \<^verbatim>\<open>uint32_t\<close> sums the code forms before taking the
  remainder never reach \<open>2 ^ 32\<close>; the one place where a wider value is narrowed (the
  \<^verbatim>\<open>static_cast<uint32_t>(length)\<close> of \<^verbatim>\<open>append\<close>) is written out.
\<close>

section \<open>State and operations\<close>

record ring =
  mBuffer :: "u8 list"
  mBufferCapacity :: nat
  mBufferRead :: nat
  mBufferWrite :: nat

definition parser_buffer_size :: nat where
  "parser_buffer_size = 32 * 4096"

definition ring_new :: ring where
  "ring_new = \<lparr>mBuffer = replicate parser_buffer_size 0, mBufferCapacity = parser_buffer_size,
     mBufferRead = 0, mBufferWrite = 0\<rparr>"

definition push_byte :: "ring \<Rightarrow> u8 \<Rightarrow> ring" where
  "push_byte p b =
     (let buf = (mBuffer p)[mBufferWrite p := b];
          w = (mBufferWrite p + 1) mod mBufferCapacity p
      in p\<lparr>mBuffer := buf, mBufferWrite := w,
           mBufferRead := (if w = mBufferRead p then (mBufferRead p + 1) mod mBufferCapacity p
                           else mBufferRead p)\<rparr>)"

definition append :: "ring \<Rightarrow> u8 list \<Rightarrow> bool \<times> ring" where
  "append p data =
     (let length32 = length data mod 2 ^ 32
      in if length32 > mBufferCapacity p then (False, p)
         else (True, foldl push_byte p (take length32 data)))"

definition clear :: "ring \<Rightarrow> ring" where
  "clear p = p\<lparr>mBufferRead := 0, mBufferWrite := 0\<rparr>"

definition buffer_length :: "ring \<Rightarrow> nat" where
  "buffer_length p =
     (if mBufferWrite p \<ge> mBufferRead p then mBufferWrite p - mBufferRead p
      else mBufferCapacity p - mBufferRead p + mBufferWrite p)"

definition available_space :: "ring \<Rightarrow> nat" where
  "available_space p = mBufferCapacity p - buffer_length p - 1"

definition peek :: "ring \<Rightarrow> nat \<Rightarrow> u8" where
  "peek p i =
     (if i \<ge> buffer_length p then 0
      else mBuffer p ! ((mBufferRead p + i) mod mBufferCapacity p))"

definition skip :: "ring \<Rightarrow> nat \<Rightarrow> ring" where
  "skip p n =
     (let available = buffer_length p;
          n' = (if n > available then available else n)
      in p\<lparr>mBufferRead := (mBufferRead p + n') mod mBufferCapacity p\<rparr>)"

text \<open>
  \<open>copy_to_buffer p n\<close> is the prefix of the destination that the loop overwrites;
  the rest of the destination keeps what it held.
\<close>

definition copy_to_buffer :: "ring \<Rightarrow> nat \<Rightarrow> u8 list" where
  "copy_to_buffer p n =
     (let length32 = n mod 2 ^ 32;
          available = buffer_length p;
          n' = (if length32 > available then available else length32)
      in map (\<lambda>i. mBuffer p ! ((mBufferRead p + i) mod mBufferCapacity p)) [0..<n'])"

section \<open>Abstraction and invariant\<close>

definition ring_ok :: "ring \<Rightarrow> bool" where
  "ring_ok p \<longleftrightarrow> 1 < mBufferCapacity p \<and> mBufferCapacity p < 2 ^ 32 \<and>
     length (mBuffer p) = mBufferCapacity p \<and>
     mBufferRead p < mBufferCapacity p \<and> mBufferWrite p < mBufferCapacity p"

definition contents :: "ring \<Rightarrow> u8 list" where
  "contents p =
     map (\<lambda>i. mBuffer p ! ((mBufferRead p + i) mod mBufferCapacity p)) [0..<buffer_length p]"

lemma ring_ok_new: "ring_ok ring_new"
  by (simp add: ring_ok_def ring_new_def parser_buffer_size_def)

lemma contents_new [simp]: "contents ring_new = []"
  by (simp add: contents_def ring_new_def buffer_length_def)

lemma length_contents [simp]: "length (contents p) = buffer_length p"
  by (simp add: contents_def)

lemma buffer_length_bound: "ring_ok p \<Longrightarrow> buffer_length p < mBufferCapacity p"
  by (auto simp: ring_ok_def buffer_length_def)

lemma available_space_eq: "ring_ok p \<Longrightarrow> available_space p + buffer_length p = mBufferCapacity p - 1"
  using buffer_length_bound [of p] by (simp add: available_space_def)

lemma write_eq_read_plus_length:
  "ring_ok p \<Longrightarrow> mBufferWrite p = (mBufferRead p + buffer_length p) mod mBufferCapacity p"
  by (auto simp: ring_ok_def buffer_length_def mod_if)

lemma ring_ok_clear: "ring_ok p \<Longrightarrow> ring_ok (clear p)"
  by (simp add: ring_ok_def clear_def)

lemma contents_clear: "contents (clear p) = []"
  by (simp add: contents_def clear_def buffer_length_def)

section \<open>Laws\<close>

lemma contents_nth: "i < buffer_length p \<Longrightarrow>
    contents p ! i = mBuffer p ! ((mBufferRead p + i) mod mBufferCapacity p)"
  by (simp add: contents_def)

lemma peek_contents: "peek p i = (if i < buffer_length p then contents p ! i else 0)"
  by (simp add: peek_def contents_nth)

lemma add_mod_inject:
  fixes r i j c :: nat
  assumes "i < c" and "j < c" and "(r + i) mod c = (r + j) mod c"
  shows "i = j"
proof -
  have "int c dvd int (r + i) - int (r + j)"
    using assms(3) by (metis mod_eq_dvd_iff of_nat_mod)
  then have "int c dvd int i - int j" by simp
  moreover have "\<bar>int i - int j\<bar> < int c" using assms(1,2) by linarith
  ultimately have "int i - int j = 0" by (metis abs_of_nat dvd_imp_le_int not_less)
  then show ?thesis by simp
qed

lemma buffer_length_unique:
  assumes "ring_ok p" and "n < mBufferCapacity p"
    and "(mBufferRead p + n) mod mBufferCapacity p = mBufferWrite p"
  shows "buffer_length p = n"
  using add_mod_inject [OF buffer_length_bound [OF assms(1)] assms(2), of "mBufferRead p"]
    write_eq_read_plus_length [OF assms(1)] assms(3) by simp

lemma ring_ok_skip: "ring_ok p \<Longrightarrow> ring_ok (skip p n)"
  by (simp add: ring_ok_def skip_def Let_def)

lemma skip_min: "skip p n =
    p\<lparr>mBufferRead := (mBufferRead p + min n (buffer_length p)) mod mBufferCapacity p\<rparr>"
  by (simp add: skip_def min_def)

lemma buffer_length_skip:
  assumes "ring_ok p"
  shows "buffer_length (skip p n) = buffer_length p - n"
proof (rule buffer_length_unique)
  let ?m = "min n (buffer_length p)"
  show "ring_ok (skip p n)" using assms by (rule ring_ok_skip)
  show "buffer_length p - n < mBufferCapacity (skip p n)"
    using buffer_length_bound [OF assms] by (simp add: skip_min)
  have "?m + (buffer_length p - n) = buffer_length p" by simp
  then show "(mBufferRead (skip p n) + (buffer_length p - n)) mod mBufferCapacity (skip p n)
      = mBufferWrite (skip p n)"
    using write_eq_read_plus_length [OF assms] by (simp add: skip_min mod_simps add.assoc)
qed

lemma skip_contents:
  assumes "ring_ok p"
  shows "contents (skip p n) = drop n (contents p)"
proof (rule nth_equalityI)
  show "length (contents (skip p n)) = length (drop n (contents p))"
    using assms by (simp add: buffer_length_skip)
next
  fix i assume "i < length (contents (skip p n))"
  then have i: "i < buffer_length p - n"
    using assms by (simp add: buffer_length_skip)
  then have "contents (skip p n) ! i
      = mBuffer p ! ((mBufferRead (skip p n) + i) mod mBufferCapacity p)"
    using assms by (simp add: contents_nth buffer_length_skip) (simp add: skip_def Let_def)
  also have "\<dots> = mBuffer p ! ((mBufferRead p + (n + i)) mod mBufferCapacity p)"
    using i by (simp add: skip_def Let_def mod_simps add.assoc)
  also have "\<dots> = drop n (contents p) ! i"
    using i by (simp add: contents_nth)
  finally show "contents (skip p n) ! i = drop n (contents p) ! i" .
qed

lemma copy_contents:
  assumes "ring_ok p" and "n < 2 ^ 32"
  shows "copy_to_buffer p n = take n (contents p)"
  using assms by (simp add: copy_to_buffer_def contents_def take_map_upt Let_def min_def)

lemma ring_ok_push: "ring_ok p \<Longrightarrow> ring_ok (push_byte p b)"
  by (simp add: ring_ok_def push_byte_def Let_def)

lemma capacity_push [simp]: "mBufferCapacity (push_byte p b) = mBufferCapacity p"
  by (simp add: push_byte_def Let_def)

lemma capacity_skip [simp]: "mBufferCapacity (skip p n) = mBufferCapacity p"
  by (simp add: skip_def Let_def)

lemma buffer_length_push:
  assumes "ring_ok p"
  shows "buffer_length (push_byte p b) =
    (if buffer_length p = mBufferCapacity p - 1 then buffer_length p else Suc (buffer_length p))"
  using assms
  by (auto simp: ring_ok_def buffer_length_def push_byte_def Let_def mod_Suc split: if_splits)

lemma contents_push:
  assumes ok: "ring_ok p"
  shows "contents (push_byte p b) =
    (if buffer_length p = mBufferCapacity p - 1 then tl (contents p) else contents p) @ [b]"
proof -
  let ?c = "mBufferCapacity p" and ?n = "buffer_length p" and ?r = "mBufferRead p"
  have n: "?n < ?c" and lb: "length (mBuffer p) = ?c" and c: "0 < ?c"
    using ok buffer_length_bound by (auto simp: ring_ok_def)
  have w: "mBufferWrite p = (?r + ?n) mod ?c"
    using ok by (rule write_eq_read_plus_length)
  define d where "d = (if ?n = ?c - 1 then 1 else (0::nat))"
  have cell: "mBuffer (push_byte p b) ! ((?r + j) mod ?c) =
      (if j = ?n then b else mBuffer p ! ((?r + j) mod ?c))" if "j < ?c" for j
    using add_mod_inject [OF that n, of ?r] w lb c
    by (auto simp: push_byte_def Let_def nth_list_update)
  have wr: "mBufferWrite (push_byte p b) = (?r + Suc ?n) mod ?c"
    using w by (simp add: push_byte_def Let_def mod_Suc_eq)
  have rd: "(mBufferRead (push_byte p b) + i) mod ?c = (?r + (i + d)) mod ?c" for i
  proof (cases "?n = ?c - 1")
    case True
    then have "(?r + Suc ?n) mod ?c = ?r"
      using ok n by (simp add: ring_ok_def)
    with True wr show ?thesis
      by (simp add: push_byte_def Let_def d_def mod_simps add.commute)
  next
    case False
    have "(?r + Suc ?n) mod ?c \<noteq> ?r"
    proof
      assume "(?r + Suc ?n) mod ?c = ?r"
      then have "Suc ?n = 0"
        using False n ok by (intro add_mod_inject [of "Suc ?n" ?c 0 ?r]) (auto simp: ring_ok_def)
      then show False by simp
    qed
    with False wr show ?thesis
      by (simp add: push_byte_def Let_def d_def)
  qed
  show ?thesis
  proof (rule nth_equalityI)
    show "length (contents (push_byte p b)) =
        length ((if ?n = ?c - 1 then tl (contents p) else contents p) @ [b])"
      using ok n by (simp add: buffer_length_push) (auto simp: ring_ok_def)
  next
    fix i assume "i < length (contents (push_byte p b))"
    then have i: "i < (if ?n = ?c - 1 then ?n else Suc ?n)"
      and i': "i < buffer_length (push_byte p b)"
      using ok by (simp_all add: buffer_length_push)
    have "contents (push_byte p b) ! i = mBuffer (push_byte p b) ! ((?r + (i + d)) mod ?c)"
      using i' rd [of i] by (simp add: contents_nth)
    also have "\<dots> = (if i + d = ?n then b else mBuffer p ! ((?r + (i + d)) mod ?c))"
      by (rule cell) (use i n in \<open>auto simp: d_def split: if_splits\<close>)
    also have "\<dots> = ((if ?n = ?c - 1 then tl (contents p) else contents p) @ [b]) ! i"
      using i by (auto simp: d_def nth_append contents_nth nth_tl split: if_splits)
    finally show "contents (push_byte p b) ! i =
        ((if ?n = ?c - 1 then tl (contents p) else contents p) @ [b]) ! i" .
  qed
qed

lemma push_last_n:
  assumes "ring_ok p"
  shows "contents (push_byte p b) = last_n (mBufferCapacity p - 1) (contents p @ [b])"
proof -
  have "length (contents p) \<le> mBufferCapacity p - 1" "0 < mBufferCapacity p - 1"
    using assms buffer_length_bound [OF assms] by (auto simp: ring_ok_def)
  from last_n_snoc [OF this] show ?thesis
    using assms by (simp add: contents_push)
qed

lemma foldl_push:
  assumes "ring_ok p"
  shows "ring_ok (foldl push_byte p bs) \<and>
    mBufferCapacity (foldl push_byte p bs) = mBufferCapacity p \<and>
    contents (foldl push_byte p bs) = last_n (mBufferCapacity p - 1) (contents p @ bs)"
proof (induction bs rule: rev_induct)
  case Nil
  show ?case
    using assms buffer_length_bound [OF assms] by simp
next
  case (snoc b bs)
  from snoc.IH show ?case
    using last_n_last_n_append [of "mBufferCapacity p - 1" "contents p @ bs" "[b]"]
    by (simp add: ring_ok_push push_last_n)
qed

lemma ring_ok_append: "ring_ok p \<Longrightarrow> ring_ok (snd (append p data))"
  by (simp add: append_def Let_def foldl_push)

lemma append_within:
  assumes "ring_ok p" and "buffer_length p + length data < mBufferCapacity p"
  shows "fst (append p data) \<and> ring_ok (snd (append p data)) \<and>
    contents (snd (append p data)) = contents p @ data \<and>
    mBufferCapacity (snd (append p data)) = mBufferCapacity p"
proof -
  have "length data mod 2 ^ 32 = length data"
    using assms by (simp add: ring_ok_def)
  then show ?thesis using assms by (simp add: append_def foldl_push)
qed

lemma append_new:
  assumes "length data < 131072"
  shows "ring_ok (snd (append ring_new data)) \<and> contents (snd (append ring_new data)) = data"
proof -
  have "buffer_length ring_new = 0" "mBufferCapacity ring_new = 131072"
    by (simp_all add: ring_new_def buffer_length_def parser_buffer_size_def)
  then show ?thesis using append_within [OF ring_ok_new, of data] assms by simp
qed

text \<open>Adding what fits, and the capacity, which no operation changes.\<close>

lemma ring_put:
  assumes "ring_ok p" and "length (contents p) + length c \<le> mBufferCapacity p - 1"
  shows "ring_ok (snd (append p c)) \<and> contents (snd (append p c)) = contents p @ c \<and>
    mBufferCapacity (snd (append p c)) - 1 = mBufferCapacity p - 1"
proof -
  have "0 < mBufferCapacity p" using assms(1) by (simp add: ring_ok_def)
  then show ?thesis using append_within [OF assms(1), of c] assms(2) by simp
qed

lemma sync_capacity:
  assumes "map_option f (while_option b (\<lambda>p. skip p 1) p) = Some (r, p')"
    and "\<And>s. mBufferCapacity (snd (f s)) = mBufferCapacity s"
  shows "mBufferCapacity p' = mBufferCapacity p"
proof -
  obtain s where s: "while_option b (\<lambda>p. skip p 1) p = Some s" "f s = (r, p')"
    using assms(1) by auto
  have "mBufferCapacity s = mBufferCapacity p"
    by (rule while_option_rule [where P = "\<lambda>s. mBufferCapacity s = mBufferCapacity p", OF _ s(1)]) simp_all
  then show ?thesis using assms(2) [of s] s(2) by simp
qed

section \<open>The interface, and the properties\<close>

interpretation ring: byte_source ring_ok contents buffer_length peek skip copy_to_buffer
proof unfold_locales
  fix s :: ring and n i :: nat
  assume ok: "ring_ok s"
  show "buffer_length s = length (contents s)" by simp
  show "buffer_length s < 2 ^ 32 - 1"
    using buffer_length_bound [OF ok] ok by (simp add: ring_ok_def)
  show "peek s i = (if i < length (contents s) then contents s ! i else 0)"
    by (simp add: peek_contents)
  show "contents (skip s n) = drop n (contents s)" using ok by (rule skip_contents)
  show "ring_ok (skip s n)" using ok by (rule ring_ok_skip)
  show "n < 2 ^ 32 \<Longrightarrow> copy_to_buffer s n = take n (contents s)"
    using ok by (rule copy_contents)
qed

text \<open>Appending to the ring behaves like appending to a queue that holds at most
  \<^verbatim>\<open>capacity - 1\<close> bytes and forgets the oldest ones on overflow.  An input longer than the
  capacity is refused and nothing changes; otherwise the unread bytes afterwards are the
  last \<^verbatim>\<open>capacity - 1\<close> bytes of the old unread bytes followed by the input, and the indices
  stay in range.\<close>

theorem append_contents:
  assumes "ring_ok p" and "length data < 2 ^ 32"
  shows "fst (append p data) = (length data \<le> mBufferCapacity p) \<and>
    ring_ok (snd (append p data)) \<and>
    contents (snd (append p data)) =
      (if length data \<le> mBufferCapacity p
       then last_n (mBufferCapacity p - 1) (contents p @ data)
       else contents p)"
  using assms by (simp add: append_def foldl_push)

definition ring8 :: ring where
  "ring8 = \<lparr>mBuffer = [1, 2, 3, 4, 5, 6, 7, 8], mBufferCapacity = 8, mBufferRead = 6,
     mBufferWrite = 1\<rparr>"

lemma ring8_ok: "ring_ok ring8"
  by (simp add: ring8_def ring_ok_def)

lemma append_contents_witness:
  "contents (snd (append ring8 [10, 11, 12, 13, 14, 15])) = [1, 10, 11, 12, 13, 14, 15] \<and>
   fst (append ring8 (replicate 9 0)) = False"
proof -
  have "contents ring8 = [7, 8, 1]"
    by (simp add: ring8_def contents_def buffer_length_def upt_rec)
  then show ?thesis
    using append_contents [OF ring8_ok, of "[10, 11, 12, 13, 14, 15]"]
      append_contents [OF ring8_ok, of "replicate 9 0"]
    by (simp add: last_n_def ring8_def)
qed

end
