(* ===== verification/Rtcm_Crc.thy ===== *)
theory Rtcm_Crc
  imports Prelude
begin

text \<open>
  The CRC-24Q of the RTCM transport layer as format/rtcm/parser.cpp computes it, with a
  table of 256 entries, and its reference: polynomial division bit by bit on a register of
  24 bits.  The table-driven routine is shown equal to the reference, and the reference
  linear and injective, which gives the detection of every error inside one byte.
\<close>

section \<open>The code\<close>

definition gCrc24Q :: "u32 list" where
  "gCrc24Q =
    [0x00000000, 0x01864CFB, 0x028AD50D, 0x030C99F6, 0x0493E6E1, 0x0515AA1A, 0x061933EC, 0x079F7F17,
     0x08A18139, 0x0927CDC2, 0x0A2B5434, 0x0BAD18CF, 0x0C3267D8, 0x0DB42B23, 0x0EB8B2D5, 0x0F3EFE2E,
     0x10C54E89, 0x11430272, 0x124F9B84, 0x13C9D77F, 0x1456A868, 0x15D0E493, 0x16DC7D65, 0x175A319E,
     0x1864CFB0, 0x19E2834B, 0x1AEE1ABD, 0x1B685646, 0x1CF72951, 0x1D7165AA, 0x1E7DFC5C, 0x1FFBB0A7,
     0x200CD1E9, 0x218A9D12, 0x228604E4, 0x2300481F, 0x249F3708, 0x25197BF3, 0x2615E205, 0x2793AEFE,
     0x28AD50D0, 0x292B1C2B, 0x2A2785DD, 0x2BA1C926, 0x2C3EB631, 0x2DB8FACA, 0x2EB4633C, 0x2F322FC7,
     0x30C99F60, 0x314FD39B, 0x32434A6D, 0x33C50696, 0x345A7981, 0x35DC357A, 0x36D0AC8C, 0x3756E077,
     0x38681E59, 0x39EE52A2, 0x3AE2CB54, 0x3B6487AF, 0x3CFBF8B8, 0x3D7DB443, 0x3E712DB5, 0x3FF7614E,
     0x4019A3D2, 0x419FEF29, 0x429376DF, 0x43153A24, 0x448A4533, 0x450C09C8, 0x4600903E, 0x4786DCC5,
     0x48B822EB, 0x493E6E10, 0x4A32F7E6, 0x4BB4BB1D, 0x4C2BC40A, 0x4DAD88F1, 0x4EA11107, 0x4F275DFC,
     0x50DCED5B, 0x515AA1A0, 0x52563856, 0x53D074AD, 0x544F0BBA, 0x55C94741, 0x56C5DEB7, 0x5743924C,
     0x587D6C62, 0x59FB2099, 0x5AF7B96F, 0x5B71F594, 0x5CEE8A83, 0x5D68C678, 0x5E645F8E, 0x5FE21375,
     0x6015723B, 0x61933EC0, 0x629FA736, 0x6319EBCD, 0x648694DA, 0x6500D821, 0x660C41D7, 0x678A0D2C,
     0x68B4F302, 0x6932BFF9, 0x6A3E260F, 0x6BB86AF4, 0x6C2715E3, 0x6DA15918, 0x6EADC0EE, 0x6F2B8C15,
     0x70D03CB2, 0x71567049, 0x725AE9BF, 0x73DCA544, 0x7443DA53, 0x75C596A8, 0x76C90F5E, 0x774F43A5,
     0x7871BD8B, 0x79F7F170, 0x7AFB6886, 0x7B7D247D, 0x7CE25B6A, 0x7D641791, 0x7E688E67, 0x7FEEC29C,
     0x803347A4, 0x81B50B5F, 0x82B992A9, 0x833FDE52, 0x84A0A145, 0x8526EDBE, 0x862A7448, 0x87AC38B3,
     0x8892C69D, 0x89148A66, 0x8A181390, 0x8B9E5F6B, 0x8C01207C, 0x8D876C87, 0x8E8BF571, 0x8F0DB98A,
     0x90F6092D, 0x917045D6, 0x927CDC20, 0x93FA90DB, 0x9465EFCC, 0x95E3A337, 0x96EF3AC1, 0x9769763A,
     0x98578814, 0x99D1C4EF, 0x9ADD5D19, 0x9B5B11E2, 0x9CC46EF5, 0x9D42220E, 0x9E4EBBF8, 0x9FC8F703,
     0xA03F964D, 0xA1B9DAB6, 0xA2B54340, 0xA3330FBB, 0xA4AC70AC, 0xA52A3C57, 0xA626A5A1, 0xA7A0E95A,
     0xA89E1774, 0xA9185B8F, 0xAA14C279, 0xAB928E82, 0xAC0DF195, 0xAD8BBD6E, 0xAE872498, 0xAF016863,
     0xB0FAD8C4, 0xB17C943F, 0xB2700DC9, 0xB3F64132, 0xB4693E25, 0xB5EF72DE, 0xB6E3EB28, 0xB765A7D3,
     0xB85B59FD, 0xB9DD1506, 0xBAD18CF0, 0xBB57C00B, 0xBCC8BF1C, 0xBD4EF3E7, 0xBE426A11, 0xBFC426EA,
     0xC02AE476, 0xC1ACA88D, 0xC2A0317B, 0xC3267D80, 0xC4B90297, 0xC53F4E6C, 0xC633D79A, 0xC7B59B61,
     0xC88B654F, 0xC90D29B4, 0xCA01B042, 0xCB87FCB9, 0xCC1883AE, 0xCD9ECF55, 0xCE9256A3, 0xCF141A58,
     0xD0EFAAFF, 0xD169E604, 0xD2657FF2, 0xD3E33309, 0xD47C4C1E, 0xD5FA00E5, 0xD6F69913, 0xD770D5E8,
     0xD84E2BC6, 0xD9C8673D, 0xDAC4FECB, 0xDB42B230, 0xDCDDCD27, 0xDD5B81DC, 0xDE57182A, 0xDFD154D1,
     0xE026359F, 0xE1A07964, 0xE2ACE092, 0xE32AAC69, 0xE4B5D37E, 0xE5339F85, 0xE63F0673, 0xE7B94A88,
     0xE887B4A6, 0xE901F85D, 0xEA0D61AB, 0xEB8B2D50, 0xEC145247, 0xED921EBC, 0xEE9E874A, 0xEF18CBB1,
     0xF0E37B16, 0xF16537ED, 0xF269AE1B, 0xF3EFE2E0, 0xF4709DF7, 0xF5F6D10C, 0xF6FA48FA, 0xF77C0401,
     0xF842FA2F, 0xF9C4B6D4, 0xFAC82F22, 0xFB4E63D9, 0xFCD11CCE, 0xFD575035, 0xFE5BC9C3, 0xFFDD8538]"

definition crc24q_byte :: "u32 \<Rightarrow> u8 \<Rightarrow> u32" where
  "crc24q_byte crc d =
     push_bit 8 crc XOR gCrc24Q ! unat (d XOR (ucast (drop_bit 16 crc) :: u8))"

definition crc24q_hash :: "u8 list \<Rightarrow> u32" where
  "crc24q_hash data = foldl crc24q_byte 0 data AND 0x00ffffff"

section \<open>The reference\<close>

type_synonym reg = "24 word"

definition crc_step :: "reg \<Rightarrow> bool \<Rightarrow> reg" where
  "crc_step c b = push_bit 1 c XOR (if bit c 23 \<noteq> b then 0x864CFB else 0)"

definition byte_bits :: "u8 \<Rightarrow> bool list" where
  "byte_bits d = [bit d 7, bit d 6, bit d 5, bit d 4, bit d 3, bit d 2, bit d 1, bit d 0]"

definition crc_byte :: "reg \<Rightarrow> u8 \<Rightarrow> reg" where
  "crc_byte c d = foldl crc_step c (byte_bits d)"

definition crc24 :: "u8 list \<Rightarrow> reg" where
  "crc24 data = foldl crc_step 0 (concat (map byte_bits data))"

lemma crc24_foldl: "foldl crc_step c (concat (map byte_bits data)) = foldl crc_byte c data"
  by (induction data arbitrary: c) (simp_all add: crc_byte_def)

section \<open>Linearity and injectivity\<close>

lemma crc_step_xor: "crc_step (c XOR c') (b \<noteq> b') = crc_step c b XOR crc_step c' b'"
  by (rule bit_word_eqI) (auto simp: crc_step_def bit_xor_iff bit_push_bit_iff)

lemma crc_byte_xor: "crc_byte (c XOR c') (d XOR d') = crc_byte c d XOR crc_byte c' d'"
  by (simp add: crc_byte_def byte_bits_def bit_xor_iff crc_step_xor [symmetric])

lemma crc_byte_0_0 [simp]: "crc_byte 0 0 = 0"
  by (simp add: crc_byte_def byte_bits_def crc_step_def)

lemma crc_step_0: "crc_step c False = 0 \<longleftrightarrow> c = 0"
proof
  assume eq: "crc_step c False = 0"
  have "bit (crc_step c False) 0 = bit c 23"
    by (simp add: crc_step_def bit_0 even_xor_iff)
  then have no: "\<not> bit c 23" by (simp add: eq)
  then have "push_bit 1 c = 0" using eq by (simp add: crc_step_def)
  have "bit c n \<longleftrightarrow> bit (push_bit 1 c) (Suc n)" if "n < 23" for n
    using that by (simp only: bit_push_bit_iff) simp
  then have "\<not> bit c n" if "n < LENGTH(24)" for n
    using that no \<open>push_bit 1 c = 0\<close> by (cases "n = 23") auto
  then show "c = 0" by (intro bit_word_eqI) auto
qed (simp add: crc_step_def)

lemma crc_byte_0: "crc_byte c 0 = 0 \<longleftrightarrow> c = 0"
  by (simp add: crc_byte_def byte_bits_def crc_step_0)

section \<open>The table\<close>

lemma table_length [simp]: "length gCrc24Q = 256"
  by (simp add: gCrc24Q_def)

fun span :: "reg list \<Rightarrow> reg list" where
  "span [] = [0]"
| "span (b # bs) = span bs @ map (\<lambda>x. b XOR x) (span bs)"

lemma length_span [simp]: "length (span bs) = 2 ^ length bs"
  by (induction bs) auto

lemma span_linear:
  assumes "\<And>d d'. f (d XOR d') = f d XOR f d'" and "k \<le> 8" and "i < 2 ^ k"
  shows "span (map (\<lambda>k. f (2 ^ k :: u8)) (rev [0..<k])) ! i = f (word_of_nat i)"
  using assms(2,3)
proof (induction k arbitrary: i)
  case 0
  have "f 0 = f 0 XOR f 0" using assms(1) [of 0 0] by simp
  then have "f 0 = 0" by simp
  with 0 show ?case by simp
next
  case (Suc k)
  show ?case
  proof (cases "i < 2 ^ k")
    case True
    with Suc show ?thesis by (simp add: nth_append)
  next
    case False
    define j where "j = i - 2 ^ k"
    have i: "i = 2 ^ k + j" and j: "j < 2 ^ k" using False Suc.prems by (auto simp: j_def)
    have "word_of_nat i = (2 ^ k :: u8) XOR word_of_nat j"
    proof -
      have "bit (2 ^ k :: u8) n \<Longrightarrow> \<not> bit (word_of_nat j :: u8) n" for n
        using j by (auto simp: bit_exp_iff bit_of_nat_iff bit_iff_odd [of j])
      then have "(2 ^ k :: u8) + word_of_nat j = 2 ^ k XOR word_of_nat j"
        by (intro disjunctive_add_eq_xor bit_word_eqI) (auto simp: bit_and_iff)
      then show ?thesis by (simp add: i)
    qed
    then show ?thesis
      using Suc.IH [OF _ j] Suc.prems(1) j i by (simp add: nth_append assms(1))
  qed
qed

lemma table_span: "map ucast gCrc24Q = span (map (\<lambda>k. crc_byte 0 (2 ^ k)) (rev [0..<8]))"
  by (simp add: gCrc24Q_def upt_rec crc_byte_def byte_bits_def crc_step_def)

lemma table_entry: "i < 256 \<Longrightarrow> ucast (gCrc24Q ! i) = crc_byte 0 (word_of_nat i)"
proof -
  assume i: "i < 256"
  have lin: "crc_byte 0 (d XOR d') = crc_byte 0 d XOR crc_byte 0 d'" for d d'
    using crc_byte_xor [of 0 0 d d'] by simp
  have "ucast (gCrc24Q ! i) = map ucast gCrc24Q ! i" using i by simp
  also have "\<dots> = crc_byte 0 (word_of_nat i)"
    unfolding table_span using i by (intro span_linear lin) auto
  finally show ?thesis .
qed

lemma crc_byte_split:
  "crc_byte c d = push_bit 8 c XOR crc_byte 0 (d XOR ucast (drop_bit 16 c))"
proof -
  let ?t = "ucast (drop_bit 16 c) :: u8"
  have shift: "crc_step (push_bit k c) (bit c j) = push_bit m c"
    if "k + j = 23" and "m = Suc k" for k j m
  proof -
    have "j = 23 - k" "k \<le> 23" using that by auto
    then show ?thesis using that(2) by (simp add: crc_step_def bit_push_bit_iff)
  qed
  have first: "crc_step c (bit c 23) = push_bit 1 c" by (simp add: crc_step_def)
  have steps: "crc_step (push_bit 1 c) (bit c 22) = push_bit 2 c"
    "crc_step (push_bit 2 c) (bit c 21) = push_bit 3 c"
    "crc_step (push_bit 3 c) (bit c 20) = push_bit 4 c"
    "crc_step (push_bit 4 c) (bit c 19) = push_bit 5 c"
    "crc_step (push_bit 5 c) (bit c 18) = push_bit 6 c"
    "crc_step (push_bit 6 c) (bit c 17) = push_bit 7 c"
    "crc_step (push_bit 7 c) (bit c 16) = push_bit 8 c"
    by (rule shift; simp)+
  have "byte_bits ?t = [bit c 23, bit c 22, bit c 21, bit c 20, bit c 19, bit c 18, bit c 17,
      bit c 16]"
    by (simp add: byte_bits_def bit_simps)
  then have "crc_byte c ?t = push_bit 8 c"
    by (simp only: crc_byte_def foldl_Cons foldl_Nil first steps)
  moreover have "crc_byte c d = crc_byte (c XOR 0) (?t XOR (d XOR ?t))"
    by (simp add: xor.left_commute)
  ultimately show ?thesis by (simp only: crc_byte_xor)
qed

lemma crc24q_byte_ref: "ucast (crc24q_byte c d) = crc_byte (ucast c) d"
proof -
  have t: "ucast (drop_bit 16 (ucast c :: reg)) = (ucast (drop_bit 16 c) :: u8)"
    by (rule bit_word_eqI) (simp add: bit_simps)
  have "unat (d XOR ucast (drop_bit 16 c)) < 256" by simp
  from table_entry [OF this]
  have "ucast (gCrc24Q ! unat (d XOR ucast (drop_bit 16 c)))
      = crc_byte 0 (d XOR ucast (drop_bit 16 c))" by (simp del: unsigned_xor_eq)
  moreover have "ucast (push_bit 8 c) = (push_bit 8 (ucast c) :: reg)"
    by (rule bit_word_eqI) (auto simp: bit_simps)
  ultimately show ?thesis
    unfolding crc_byte_split [of "ucast c" d] t crc24q_byte_def unsigned_xor_eq by simp
qed

lemma crc24q_hash_ref: "crc24q_hash data = ucast (crc24 data)"
proof -
  have "ucast (foldl crc24q_byte c data) = foldl crc_byte (ucast c) data" for c
    by (induction data arbitrary: c) (simp_all add: crc24q_byte_ref)
  then have "ucast (foldl crc24q_byte 0 data) = crc24 data"
    by (simp add: crc24_def crc24_foldl)
  then have "ucast (crc24 data) = (ucast (ucast (foldl crc24q_byte 0 data) :: reg) :: u32)"
    by simp
  also have "\<dots> = foldl crc24q_byte 0 data AND mask 24"
    by (rule bit_word_eqI) (auto simp: bit_simps)
  also have "\<dots> = crc24q_hash data"
    by (simp add: crc24q_hash_def mask_eq_exp_minus_1)
  finally show ?thesis by simp
qed

section \<open>Error detection\<close>

lemma crc_foldl_xor:
  "length xs = length ys \<Longrightarrow>
   foldl crc_byte (c XOR c') (map2 (XOR) xs ys) = foldl crc_byte c xs XOR foldl crc_byte c' ys"
  by (induction xs ys arbitrary: c c' rule: list_induct2) (simp_all add: crc_byte_xor)

lemma crc_foldl_inj: "foldl crc_byte c xs = foldl crc_byte c' xs \<longleftrightarrow> c = c'"
proof (induction xs arbitrary: c c')
  case Nil
  then show ?case by simp
next
  case (Cons x xs)
  have "crc_byte c x XOR crc_byte c' x = crc_byte (c XOR c') 0"
    using crc_byte_xor [of c c' x x] by simp
  then have "crc_byte c x = crc_byte c' x \<longleftrightarrow> c = c'"
    by (metis crc_byte_0 word_xor_eq_0)
  then show ?case using Cons by simp
qed

lemma crc_byte_entry_0: "crc_byte 0 d = 0 \<longleftrightarrow> d = 0"
proof -
  let ?c = "push_bit 16 (ucast d) :: reg"
  have "push_bit 8 ?c = 0"
    by (rule bit_word_eqI) (auto simp: bit_simps)
  moreover have "ucast (drop_bit 16 ?c) = d"
    by (rule bit_word_eqI) (auto simp: bit_simps)
  ultimately have "crc_byte ?c 0 = crc_byte 0 d"
    by (subst crc_byte_split) simp
  moreover have "?c = 0 \<longleftrightarrow> d = 0"
    using \<open>ucast (drop_bit 16 ?c) = d\<close> by auto
  ultimately show ?thesis by (metis crc_byte_0)
qed

lemma crc24_byte_error:
  assumes "d \<noteq> e"
  shows "crc24 (xs @ d # ys) \<noteq> crc24 (xs @ e # ys)"
proof -
  let ?c = "foldl crc_byte 0 xs"
  have "crc_byte ?c d XOR crc_byte ?c e = crc_byte 0 (d XOR e)"
    using crc_byte_xor [of ?c ?c d e] by simp
  then have "crc_byte ?c d \<noteq> crc_byte ?c e"
    using assms by (metis crc_byte_entry_0 word_xor_eq_0)
  then show ?thesis
    by (simp only: crc24_def crc24_foldl foldl_append foldl_Cons crc_foldl_inj not_False_eq_True)
qed

end
