(* ===== verification/Rtcm_Fields.thy ===== *)
theory Rtcm_Fields
  imports Rtcm_Crc
begin

text \<open>
  The data fields of RTCM messages (format/rtcm/include/format/rtcm/datafields.hpp and
  datatypes.hpp) and the three ephemeris messages decoded from them
  (format/rtcm/messages/1019.cpp, 1042.cpp, 1046.cpp).  A \<^verbatim>\<open>bitset<N>\<close> is a list of
  \<open>N\<close> bits whose position \<open>p\<close> holds the bit of index \<open>N - 1 - p\<close>, so the list is read in
  transmission order.  A field stored as \<^verbatim>\<open>double\<close> is kept as the exact product it denotes,
  \<open>m * 2 ^ e * c\<close>: the rounding of the floating point product is not modelled.
\<close>

section \<open>Data types and data fields\<close>

datatype sign = UNSIGNED | SIGNED | SignedMagnitude

datatype conversion = NONE | SC2RAD | MINUTE | PICO100

datatype storage = UInt8 | UInt16 | Bool | Double

datatype data_field =
  DataField (K_NUM: nat) (K_STORAGE: storage) (K_LEN: nat) (K_SIGN: sign)
    (K_EXPONENT: int) (K_CONVERSION: conversion)

named_theorems data_field_defs \<open>the table of data fields\<close>

definition DF001 [data_field_defs]: "DF001 = DataField 1 UInt8 2 UNSIGNED 0 NONE"
definition DF002 [data_field_defs]: "DF002 = DataField 2 UInt16 12 UNSIGNED 0 NONE"
definition DF009 [data_field_defs]: "DF009 = DataField 9 UInt8 6 UNSIGNED 0 NONE"
definition DF071 [data_field_defs]: "DF071 = DataField 71 UInt8 8 UNSIGNED 0 NONE"
definition DF076 [data_field_defs]: "DF076 = DataField 76 UInt16 10 UNSIGNED 0 NONE"
definition DF077 [data_field_defs]: "DF077 = DataField 77 UInt8 4 UNSIGNED 0 NONE"
definition DF078 [data_field_defs]: "DF078 = DataField 78 UInt8 2 UNSIGNED 0 NONE"
definition DF079 [data_field_defs]: "DF079 = DataField 79 Double 14 SIGNED (- 43) SC2RAD"
definition DF081 [data_field_defs]: "DF081 = DataField 81 Double 16 UNSIGNED 4 NONE"
definition DF082 [data_field_defs]: "DF082 = DataField 82 Double 8 SIGNED (- 55) NONE"
definition DF083 [data_field_defs]: "DF083 = DataField 83 Double 16 SIGNED (- 43) NONE"
definition DF084 [data_field_defs]: "DF084 = DataField 84 Double 22 SIGNED (- 31) NONE"
definition DF085 [data_field_defs]: "DF085 = DataField 85 UInt16 10 UNSIGNED 0 NONE"
definition DF086 [data_field_defs]: "DF086 = DataField 86 Double 16 SIGNED (- 5) NONE"
definition DF087 [data_field_defs]: "DF087 = DataField 87 Double 16 SIGNED (- 43) SC2RAD"
definition DF088 [data_field_defs]: "DF088 = DataField 88 Double 32 SIGNED (- 31) SC2RAD"
definition DF089 [data_field_defs]: "DF089 = DataField 89 Double 16 SIGNED (- 29) NONE"
definition DF090 [data_field_defs]: "DF090 = DataField 90 Double 32 UNSIGNED (- 33) NONE"
definition DF091 [data_field_defs]: "DF091 = DataField 91 Double 16 SIGNED (- 29) NONE"
definition DF092 [data_field_defs]: "DF092 = DataField 92 Double 32 UNSIGNED (- 19) NONE"
definition DF093 [data_field_defs]: "DF093 = DataField 93 Double 16 UNSIGNED 4 NONE"
definition DF094 [data_field_defs]: "DF094 = DataField 94 Double 16 SIGNED (- 29) NONE"
definition DF095 [data_field_defs]: "DF095 = DataField 95 Double 32 SIGNED (- 31) SC2RAD"
definition DF096 [data_field_defs]: "DF096 = DataField 96 Double 16 SIGNED (- 29) NONE"
definition DF097 [data_field_defs]: "DF097 = DataField 97 Double 32 SIGNED (- 31) SC2RAD"
definition DF098 [data_field_defs]: "DF098 = DataField 98 Double 16 SIGNED (- 5) NONE"
definition DF099 [data_field_defs]: "DF099 = DataField 99 Double 32 SIGNED (- 31) SC2RAD"
definition DF100 [data_field_defs]: "DF100 = DataField 100 Double 24 SIGNED (- 43) SC2RAD"
definition DF101 [data_field_defs]: "DF101 = DataField 101 Double 8 SIGNED (- 31) NONE"
definition DF102 [data_field_defs]: "DF102 = DataField 102 UInt8 6 UNSIGNED 0 NONE"
definition DF103 [data_field_defs]: "DF103 = DataField 103 Bool 1 UNSIGNED 0 NONE"
definition DF137 [data_field_defs]: "DF137 = DataField 137 Bool 1 UNSIGNED 0 NONE"
definition DF252 [data_field_defs]: "DF252 = DataField 252 UInt8 6 UNSIGNED 0 NONE"
definition DF286 [data_field_defs]: "DF286 = DataField 286 UInt8 8 UNSIGNED 0 NONE"
definition DF287 [data_field_defs]: "DF287 = DataField 287 UInt8 2 UNSIGNED 0 NONE"
definition DF288 [data_field_defs]: "DF288 = DataField 288 Bool 1 UNSIGNED 0 NONE"
definition DF289 [data_field_defs]: "DF289 = DataField 289 UInt16 12 UNSIGNED 0 NONE"
definition DF290 [data_field_defs]: "DF290 = DataField 290 UInt16 10 UNSIGNED 0 NONE"
definition DF292 [data_field_defs]: "DF292 = DataField 292 Double 14 SIGNED (- 43) SC2RAD"
definition DF293 [data_field_defs]: "DF293 = DataField 293 Double 14 UNSIGNED 0 MINUTE"
definition DF294 [data_field_defs]: "DF294 = DataField 294 Double 6 SIGNED (- 59) NONE"
definition DF295 [data_field_defs]: "DF295 = DataField 295 Double 21 SIGNED (- 46) NONE"
definition DF296 [data_field_defs]: "DF296 = DataField 296 Double 31 SIGNED (- 34) NONE"
definition DF297 [data_field_defs]: "DF297 = DataField 297 Double 16 SIGNED (- 5) NONE"
definition DF298 [data_field_defs]: "DF298 = DataField 298 Double 16 SIGNED (- 43) SC2RAD"
definition DF299 [data_field_defs]: "DF299 = DataField 299 Double 32 SIGNED (- 31) SC2RAD"
definition DF300 [data_field_defs]: "DF300 = DataField 300 Double 16 SIGNED (- 29) NONE"
definition DF301 [data_field_defs]: "DF301 = DataField 301 Double 32 UNSIGNED (- 33) NONE"
definition DF302 [data_field_defs]: "DF302 = DataField 302 Double 16 SIGNED (- 29) NONE"
definition DF303 [data_field_defs]: "DF303 = DataField 303 Double 32 UNSIGNED (- 19) NONE"
definition DF304 [data_field_defs]: "DF304 = DataField 304 Double 14 UNSIGNED 0 MINUTE"
definition DF305 [data_field_defs]: "DF305 = DataField 305 Double 16 SIGNED (- 29) NONE"
definition DF306 [data_field_defs]: "DF306 = DataField 306 Double 32 SIGNED (- 31) SC2RAD"
definition DF307 [data_field_defs]: "DF307 = DataField 307 Double 16 SIGNED (- 29) NONE"
definition DF308 [data_field_defs]: "DF308 = DataField 308 Double 32 SIGNED (- 31) SC2RAD"
definition DF309 [data_field_defs]: "DF309 = DataField 309 Double 16 SIGNED (- 5) NONE"
definition DF310 [data_field_defs]: "DF310 = DataField 310 Double 32 SIGNED (- 31) SC2RAD"
definition DF311 [data_field_defs]: "DF311 = DataField 311 Double 24 SIGNED (- 43) SC2RAD"
definition DF312 [data_field_defs]: "DF312 = DataField 312 Double 10 SIGNED (- 32) NONE"
definition DF313 [data_field_defs]: "DF313 = DataField 313 Double 10 SIGNED (- 32) NONE"
definition DF316 [data_field_defs]: "DF316 = DataField 316 UInt8 2 UNSIGNED 0 NONE"
definition DF317 [data_field_defs]: "DF317 = DataField 317 Bool 1 UNSIGNED 0 NONE"
definition DF488 [data_field_defs]: "DF488 = DataField 488 UInt8 6 UNSIGNED 0 NONE"
definition DF489 [data_field_defs]: "DF489 = DataField 489 UInt16 13 UNSIGNED 0 NONE"
definition DF490 [data_field_defs]: "DF490 = DataField 490 UInt8 4 UNSIGNED 0 NONE"
definition DF491 [data_field_defs]: "DF491 = DataField 491 Double 14 SIGNED (- 43) SC2RAD"
definition DF492 [data_field_defs]: "DF492 = DataField 492 UInt8 5 UNSIGNED 0 NONE"
definition DF493 [data_field_defs]: "DF493 = DataField 493 Double 17 UNSIGNED 3 NONE"
definition DF494 [data_field_defs]: "DF494 = DataField 494 Double 11 SIGNED (- 66) NONE"
definition DF495 [data_field_defs]: "DF495 = DataField 495 Double 22 SIGNED (- 50) NONE"
definition DF496 [data_field_defs]: "DF496 = DataField 496 Double 24 SIGNED (- 33) NONE"
definition DF497 [data_field_defs]: "DF497 = DataField 497 UInt8 5 UNSIGNED 0 NONE"
definition DF498 [data_field_defs]: "DF498 = DataField 498 Double 18 SIGNED (- 6) NONE"
definition DF499 [data_field_defs]: "DF499 = DataField 499 Double 16 SIGNED (- 43) SC2RAD"
definition DF500 [data_field_defs]: "DF500 = DataField 500 Double 32 SIGNED (- 31) SC2RAD"
definition DF501 [data_field_defs]: "DF501 = DataField 501 Double 18 SIGNED (- 31) NONE"
definition DF502 [data_field_defs]: "DF502 = DataField 502 Double 32 UNSIGNED (- 33) NONE"
definition DF503 [data_field_defs]: "DF503 = DataField 503 Double 18 SIGNED (- 31) NONE"
definition DF504 [data_field_defs]: "DF504 = DataField 504 Double 32 UNSIGNED (- 19) NONE"
definition DF505 [data_field_defs]: "DF505 = DataField 505 Double 17 UNSIGNED 3 NONE"
definition DF506 [data_field_defs]: "DF506 = DataField 506 Double 18 SIGNED (- 31) NONE"
definition DF507 [data_field_defs]: "DF507 = DataField 507 Double 32 SIGNED (- 31) SC2RAD"
definition DF508 [data_field_defs]: "DF508 = DataField 508 Double 18 SIGNED (- 31) NONE"
definition DF509 [data_field_defs]: "DF509 = DataField 509 Double 32 SIGNED (- 31) SC2RAD"
definition DF510 [data_field_defs]: "DF510 = DataField 510 Double 18 SIGNED (- 6) NONE"
definition DF511 [data_field_defs]: "DF511 = DataField 511 Double 32 SIGNED (- 31) SC2RAD"
definition DF512 [data_field_defs]: "DF512 = DataField 512 Double 24 SIGNED (- 43) SC2RAD"
definition DF513 [data_field_defs]: "DF513 = DataField 513 Double 10 SIGNED 0 PICO100"
definition DF514 [data_field_defs]: "DF514 = DataField 514 Double 10 SIGNED 0 PICO100"
definition DF515 [data_field_defs]: "DF515 = DataField 515 UInt8 1 UNSIGNED 0 NONE"

text \<open>\<open>Scaled m e c\<close> is the \<^verbatim>\<open>double\<close> that stands for \<open>m * 2 ^ e\<close> times the factor of \<open>c\<close>.\<close>

datatype df_value = Integer int | Truth bool | Scaled int int conversion

definition as_signed :: "nat \<Rightarrow> u64 \<Rightarrow> int" where
  "as_signed len b =
     (if b AND push_bit (len - 1) 1 \<noteq> 0 then sint (b OR push_bit len (NOT 0)) else sint b)"

definition as_signed_magnitude :: "nat \<Rightarrow> u64 \<Rightarrow> int" where
  "as_signed_magnitude len b =
     (if b AND push_bit (len - 1) 1 \<noteq> 0 then sint (- (b AND (push_bit (len - 1) 1 - 1)))
      else sint b)"

definition multiply_by_factor :: "data_field \<Rightarrow> int \<Rightarrow> df_value" where
  "multiply_by_factor d v =
     (case K_STORAGE d of
        Bool \<Rightarrow> Truth (v \<noteq> 0)
      | Double \<Rightarrow> Scaled v (K_EXPONENT d) (K_CONVERSION d)
      | UInt8 \<Rightarrow> Integer (v mod 2 ^ 8)
      | UInt16 \<Rightarrow> Integer (v mod 2 ^ 16))"

definition convert :: "data_field \<Rightarrow> u64 \<Rightarrow> df_value" where
  "convert d b = multiply_by_factor d
     (case K_SIGN d of
        UNSIGNED \<Rightarrow> uint b
      | SIGNED \<Rightarrow> as_signed (K_LEN d) b
      | SignedMagnitude \<Rightarrow> as_signed_magnitude (K_LEN d) b)"

definition default_value :: "data_field \<Rightarrow> df_value" where
  "default_value d =
     (case K_STORAGE d of Bool \<Rightarrow> Truth False
      | Double \<Rightarrow> Scaled 0 (K_EXPONENT d) (K_CONVERSION d) | _ \<Rightarrow> Integer 0)"

section \<open>Reading fields\<close>

fun bits_val :: "bool list \<Rightarrow> nat" where
  "bits_val [] = 0"
| "bits_val (b # bs) = (if b then 2 ^ length bs else 0) + bits_val bs"

definition fill_bits :: "nat \<Rightarrow> u8 list \<Rightarrow> bool list" where
  "fill_bits n data =
     concat (map (\<lambda>i. map (\<lambda>j. bit (data ! i) (7 - j)) [0..<8]) [0..<n div 8])"

definition getsubbits :: "bool list \<Rightarrow> nat \<Rightarrow> nat \<Rightarrow> u64" where
  "getsubbits bits i l = word_of_nat (bits_val (take l (drop i bits)))"

definition getdatafield :: "bool list \<Rightarrow> nat \<Rightarrow> data_field \<Rightarrow> df_value \<times> nat" where
  "getdatafield bits i d = (convert d (getsubbits bits i (K_LEN d)), i + K_LEN d)"

fun getdatafields ::
  "bool list \<Rightarrow> nat \<Rightarrow> (string \<times> data_field) list \<Rightarrow> (string \<times> df_value) list" where
  "getdatafields bits i [] = []"
| "getdatafields bits i ((name, d) # ds) =
     (let (v, i') = getdatafield bits i d in (name, v) # getdatafields bits i' ds)"

section \<open>The messages\<close>

text \<open>
  A message object: its \<^verbatim>\<open>mType\<close>, its \<^verbatim>\<open>mData\<close> and, for the three decoded types, its
  fields in declaration order.
\<close>

datatype rtcm_message =
    Rtcm1019 nat "u8 list" "(string \<times> df_value) list"
  | Rtcm1042 nat "u8 list" "(string \<times> df_value) list"
  | Rtcm1046 nat "u8 list" "(string \<times> df_value) list"
  | UnsupportedMessage nat "u8 list"
  | ErrorMessage nat "u8 list"

definition fields_1019 :: "(string \<times> data_field) list" where
  "fields_1019 =
    [(''prn'', DF009), (''week'', DF076), (''sv_accuracy'', DF077), (''code_on_l2'', DF078),
     (''idot'', DF079), (''iode'', DF071), (''t_oc'', DF081), (''a_f2'', DF082),
     (''a_f1'', DF083), (''a_f0'', DF084), (''iodc'', DF085), (''c_rs'', DF086),
     (''delta_n'', DF087), (''m_0'', DF088), (''c_uc'', DF089), (''e'', DF090),
     (''c_us'', DF091), (''sqrt_a'', DF092), (''t_oe'', DF093), (''c_ic'', DF094),
     (''omega_0'', DF095), (''c_is'', DF096), (''i_0'', DF097), (''c_rc'', DF098),
     (''omega'', DF099), (''omegadot'', DF100), (''t_gd'', DF101), (''sv_health'', DF102),
     (''l2_p_data_flag'', DF103), (''fit'', DF137)]"

definition fields_1042 :: "(string \<times> data_field) list" where
  "fields_1042 =
    [(''prn'', DF488), (''week_number'', DF489), (''ura_index'', DF490),
     (''idot'', DF491), (''aode'', DF492), (''toc'', DF493), (''af2'', DF494),
     (''af1'', DF495), (''af0'', DF496), (''aodc'', DF497), (''crs'', DF498),
     (''delta_n'', DF499), (''m0'', DF500), (''cuc'', DF501), (''e'', DF502),
     (''cus'', DF503), (''sqrt_a'', DF504), (''toe'', DF505), (''cic'', DF506),
     (''omega0'', DF507), (''cis'', DF508), (''i0'', DF509), (''crc'', DF510),
     (''omega'', DF511), (''omega_dot'', DF512), (''tgd1'', DF513), (''tgd2'', DF514),
     (''sv_health'', DF515)]"

definition fields_1046 :: "(string \<times> data_field) list" where
  "fields_1046 =
    [(''prn'', DF252), (''week_number'', DF289), (''iod_nav'', DF290),
     (''sisa_index'', DF286), (''idot'', DF292), (''toc'', DF293), (''af2'', DF294),
     (''af1'', DF295), (''af0'', DF296), (''crs'', DF297), (''delta_n'', DF298),
     (''m0'', DF299), (''cuc'', DF300), (''e'', DF301), (''cus'', DF302),
     (''sqrt_a'', DF303), (''toe'', DF304), (''cic'', DF305), (''omega0'', DF306),
     (''cis'', DF307), (''i0'', DF308), (''crc'', DF309), (''omega'', DF310),
     (''omega_dot'', DF311), (''bgd_e5a_e1'', DF312), (''bgd_e5b_e1'', DF313),
     (''e5b_signal_health'', DF316), (''e5b_data_validity'', DF317),
     (''e1_b_signal_health'', DF287), (''e1_b_data_validity'', DF288), (''reserved'', DF001)]"

definition parse_1019 :: "u8 list \<Rightarrow> rtcm_message" where
  "parse_1019 data =
     (if length data * 8 < 8 + 16 + 488 + 24 then ErrorMessage 1019 data
      else let bits = fill_bits (8 + 16 + 488 + 24) data;
               (type, i) = getdatafield bits (8 + 16) DF002
           in if type \<noteq> Integer 1019 then ErrorMessage 1019 data
              else Rtcm1019 1019 data (getdatafields bits i fields_1019))"

definition parse_1042 :: "u8 list \<Rightarrow> rtcm_message" where
  "parse_1042 data =
     (if length data * 8 < 8 + 16 + 512 + 24 then ErrorMessage 1042 data
      else let bits = fill_bits (8 + 16 + 512 + 24) data;
               (type, i) = getdatafield bits (8 + 16) DF002
           in if type \<noteq> Integer 1042 then ErrorMessage 1042 data
              else Rtcm1042 1042 data (getdatafields bits i fields_1042))"

definition parse_1046 :: "u8 list \<Rightarrow> rtcm_message" where
  "parse_1046 data =
     (if length data * 8 < 8 + 16 + 504 + 24 then ErrorMessage 1046 data
      else let bits = fill_bits (8 + 16 + 504 + 24) data;
               (type, i) = getdatafield bits (8 + 16) DF002
           in if type \<noteq> Integer 1046 then ErrorMessage 1046 data
              else Rtcm1046 1046 data (getdatafields bits i fields_1046))"

text \<open>
  The copy constructors name only the base class, whose own copy constructor copies only
  \<^verbatim>\<open>mData\<close>: every other member of the clone is default-initialised.
\<close>

definition blank :: "(string \<times> data_field) list \<Rightarrow> (string \<times> df_value) list" where
  "blank ds = map (\<lambda>(name, d). (name, default_value d)) ds"

fun clone :: "rtcm_message \<Rightarrow> rtcm_message" where
  "clone (Rtcm1019 t data fs) = Rtcm1019 0 data (blank fields_1019)"
| "clone (Rtcm1042 t data fs) = Rtcm1042 0 data (blank fields_1042)"
| "clone (Rtcm1046 t data fs) = Rtcm1046 0 data (blank fields_1046)"
| "clone (UnsupportedMessage t data) = UnsupportedMessage 0 data"
| "clone (ErrorMessage t data) = ErrorMessage 0 data"

section \<open>Bits and numbers\<close>

definition bits_of :: "nat \<Rightarrow> nat \<Rightarrow> bool list" where
  "bits_of l n = map (\<lambda>k. bit n (l - 1 - k)) [0..<l]"

lemma length_bits_of [simp]: "length (bits_of l n) = l"
  by (simp add: bits_of_def)

lemma bits_of_0 [simp]: "bits_of 0 n = []"
  by (simp add: bits_of_def)

lemma bits_of_Suc: "bits_of (Suc l) n = bit n l # bits_of l n"
  unfolding bits_of_def by (simp add: upt_conv_Cons map_Suc_upt [symmetric] del: upt_Suc)

lemma bits_val_bits_of [simp]: "bits_val (bits_of l n) = take_bit l n"
proof (induction l)
  case (Suc l)
  have "take_bit (Suc l) n = (if bit n l then 2 ^ l else 0) + take_bit l n"
    by (simp add: take_bit_Suc_from_most)
  then show ?case using Suc by (simp add: bits_of_Suc)
qed (simp add: take_bit_eq_mod)

lemma bits_val_less: "bits_val bs < 2 ^ length bs"
  by (induction bs) auto

lemma fill_bits_concat:
  "fill_bits (8 * k) data = concat (map byte_bits (take k data))" if "k \<le> length data"
proof -
  have "map (\<lambda>j. bit b (7 - j)) [0..<8] = byte_bits b" for b :: u8
    by (simp add: byte_bits_def upt_rec)
  then have "fill_bits (8 * k) data = concat (map byte_bits (map (\<lambda>i. data ! i) [0..<k]))"
    by (simp add: fill_bits_def comp_def)
  also have "map (\<lambda>i. data ! i) [0..<k] = take k data"
    using that by (intro nth_equalityI) auto
  finally show ?thesis .
qed

section \<open>Reading back what was laid out\<close>

text \<open>
  The reference: the raw values of a list of fields, laid out one after the other with the
  width of each field, and the number a field denotes (two's complement for \<open>SIGNED\<close>).
\<close>

definition lay_out :: "(string \<times> data_field) list \<Rightarrow> nat list \<Rightarrow> bool list" where
  "lay_out ds vs = concat (map2 (\<lambda>(_, d) v. bits_of (K_LEN d) v) ds vs)"

definition field_value :: "data_field \<Rightarrow> nat \<Rightarrow> df_value" where
  "field_value d v = multiply_by_factor d
     (case K_SIGN d of
        UNSIGNED \<Rightarrow> int v
      | SIGNED \<Rightarrow> if v < 2 ^ (K_LEN d - 1) then int v else int v - 2 ^ K_LEN d
      | SignedMagnitude \<Rightarrow>
          if v < 2 ^ (K_LEN d - 1) then int v else - (int v - 2 ^ (K_LEN d - 1)))"

definition field_ok :: "data_field \<Rightarrow> bool" where
  "field_ok d \<longleftrightarrow> 0 < K_LEN d \<and> K_LEN d \<le> 32 \<and> K_SIGN d \<noteq> SignedMagnitude \<and>
     (K_STORAGE d = UInt8 \<longrightarrow> K_LEN d \<le> 8 \<and> K_SIGN d = UNSIGNED) \<and>
     (K_STORAGE d = UInt16 \<longrightarrow> K_LEN d \<le> 16 \<and> K_SIGN d = UNSIGNED)"

lemma signed_take_bit_value:
  assumes "v < 2 ^ Suc k"
  shows "signed_take_bit k (int v) = (if v < 2 ^ k then int v else int v - 2 ^ Suc k)"
proof -
  have *: "signed_take_bit k (int v) = (int v + 2 ^ k) mod 2 ^ Suc k - 2 ^ k"
    by (simp add: signed_take_bit_eq_take_bit_shift take_bit_eq_mod)
  have le: "int v < 2 ^ Suc k" using assms by (simp only: of_nat_less_numeral_power_cancel_iff)
  have iff: "v < 2 ^ k \<longleftrightarrow> int v < 2 ^ k" by (simp only: of_nat_less_numeral_power_cancel_iff)
  show ?thesis
  proof (cases "v < 2 ^ k")
    case True
    then have "int v < 2 ^ k" by (simp only: iff)
    then have "(int v + 2 ^ k) mod 2 ^ Suc k = int v + 2 ^ k"
      by (intro mod_pos_pos_trivial) simp_all
    then show ?thesis using * True by simp
  next
    case False
    then have "2 ^ k \<le> int v" by (simp only: iff not_less)
    then have "(int v + 2 ^ k - 2 ^ Suc k) mod 2 ^ Suc k = int v + 2 ^ k - 2 ^ Suc k"
      using le by (intro mod_pos_pos_trivial) simp_all
    then have "(int v + 2 ^ k) mod 2 ^ Suc k = int v + 2 ^ k - 2 ^ Suc k"
      by (simp only: minus_mod_self2)
    then show ?thesis using * False by simp
  qed
qed

lemma and_push_bit_one: "k < LENGTH('a) \<Longrightarrow> b AND push_bit k 1 \<noteq> 0 \<longleftrightarrow> bit b k"
  for b :: "'a::len word"
proof -
  assume k: "k < LENGTH('a)"
  have "bit (b AND push_bit k 1) n \<longleftrightarrow> n = k \<and> bit b k" for n
    using k by (auto simp: bit_simps)
  then show ?thesis
    by (metis bit_0_eq bit_eqI bot_apply bot_bool_def)
qed

lemma as_signed_take_bit:
  assumes "k < 63" and "uint b < 2 ^ Suc k"
  shows "as_signed (Suc k) b = signed_take_bit k (uint b)"
proof -
  have "take_bit (Suc k) (uint b) = uint b"
    using assms(2) by (simp add: take_bit_int_eq_self_iff)
  then have high: "bit b n \<Longrightarrow> n \<le> k" for n
    by (metis bit_take_bit_iff bit_uint_iff bit_imp_le_length less_Suc_eq_le)
  have top: "b AND push_bit k 1 \<noteq> 0 \<longleftrightarrow> bit b k"
    using assms(1) by (intro and_push_bit_one) simp
  have l: "LENGTH(64) = 64" by simp
  show ?thesis
    unfolding as_signed_def diff_Suc_1 top
    by (rule bit_eqI)
      (use assms(1) in \<open>auto simp: bit_sint_iff bit_simps min_def dest: high\<close>,
        (metis high le_antisym less_Suc_eq_le)+)
qed

lemma as_signed_value:
  assumes "0 < l" and "l \<le> 32" and "v < 2 ^ l"
  shows "as_signed l (word_of_nat v) =
    (if v < 2 ^ (l - 1) then int v else int v - 2 ^ l)"
proof -
  obtain k where l: "l = Suc k" using assms(1) by (cases l) auto
  have "(2::nat) ^ l \<le> 2 ^ 32" using assms(2) by (rule power_increasing) simp
  then have "v < 2 ^ 64" using assms(3) by simp
  then have u: "uint (word_of_nat v :: u64) = int v"
    by (simp add: unsigned_of_nat take_bit_eq_mod)
  have "uint (word_of_nat v :: u64) < 2 ^ Suc k"
    unfolding u using assms(3) l by (simp only: of_nat_less_numeral_power_cancel_iff)
  with assms(2) l have "as_signed l (word_of_nat v) = signed_take_bit k (int v)"
    by (simp only: as_signed_take_bit u)
  then show ?thesis using assms(3) l by (simp only: signed_take_bit_value diff_Suc_1)
qed

lemma convert_value:
  assumes "field_ok d" and "v < 2 ^ K_LEN d"
  shows "convert d (word_of_nat v) = field_value d v"
proof -
  have "(2::nat) ^ K_LEN d \<le> 2 ^ 32"
    using assms(1) by (intro power_increasing) (simp_all add: field_ok_def)
  then have "v < 2 ^ 64" using assms(2) by simp
  then have u: "uint (word_of_nat v :: u64) = int v"
    by (simp add: unsigned_of_nat take_bit_eq_mod)
  show ?thesis
    using assms as_signed_value [of "K_LEN d" v]
    by (cases "K_SIGN d") (simp_all add: convert_def field_value_def field_ok_def u)
qed

lemma lay_out_Cons: "lay_out ((n, d) # ds) (v # vs) = bits_of (K_LEN d) v @ lay_out ds vs"
  by (simp add: lay_out_def)

lemma getdatafield_laid:
  assumes "v < 2 ^ K_LEN d" and "field_ok d" and "length pre = i"
  shows "getdatafield (pre @ bits_of (K_LEN d) v @ post) i d = (field_value d v, i + K_LEN d)"
  using assms by (simp add: getdatafield_def getsubbits_def convert_value take_bit_nat_eq_self)

lemma getdatafields_laid:
  assumes "list_all2 (\<lambda>(_, d) v. v < 2 ^ K_LEN d \<and> field_ok d) ds vs"
  shows "getdatafields (pre @ lay_out ds vs @ post) (length pre) ds
    = map2 (\<lambda>(n, d) v. (n, field_value d v)) ds vs"
  using assms
proof (induction ds vs arbitrary: pre rule: list_all2_induct)
  case Nil
  then show ?case by simp
next
  case (Cons nd ds v vs)
  obtain n d where nd: "nd = (n, d)" by (cases nd)
  have "getdatafields ((pre @ bits_of (K_LEN d) v) @ lay_out ds vs @ post)
      (length (pre @ bits_of (K_LEN d) v)) ds = map2 (\<lambda>(n, d) v. (n, field_value d v)) ds vs"
    by (rule Cons.IH)
  moreover have "getdatafield (pre @ bits_of (K_LEN d) v @ lay_out ds vs @ post) (length pre) d
      = (field_value d v, length pre + K_LEN d)"
    using Cons.hyps nd by (intro getdatafield_laid) auto
  ultimately show ?case by (simp add: nd lay_out_Cons)
qed

lemmas ephemeris_fields = fields_1019_def fields_1042_def fields_1046_def

lemma fields_ok:
  "list_all (\<lambda>(_, d). field_ok d) fields_1019" "list_all (\<lambda>(_, d). field_ok d) fields_1042"
  "list_all (\<lambda>(_, d). field_ok d) fields_1046"
  by (simp_all add: ephemeris_fields data_field_defs field_ok_def)

lemma fields_width:
  "sum_list (map (\<lambda>(_, d). K_LEN d) fields_1019) = 476"
  "sum_list (map (\<lambda>(_, d). K_LEN d) fields_1042) = 499"
  "sum_list (map (\<lambda>(_, d). K_LEN d) fields_1046) = 492"
  by (simp_all add: ephemeris_fields data_field_defs)

lemma length_lay_out:
  "length ds = length vs \<Longrightarrow> length (lay_out ds vs) = sum_list (map (\<lambda>(_, d). K_LEN d) ds)"
  by (induction ds vs rule: list_induct2) (auto simp: lay_out_def)

lemma fields_laid:
  assumes data: "concat (map byte_bits data) = hdr @ bits_of 12 n @ lay_out ds vs @ rest"
    and "length hdr = 24" and "n < 2 ^ 12" and "8 * k \<le> 8 * length data"
    and fit: "24 + 12 + sum_list (map (\<lambda>(_, d). K_LEN d) ds) \<le> 8 * k"
    and vs: "list_all2 (\<lambda>(_, d) v. v < 2 ^ K_LEN d) ds vs"
    and ok: "list_all (\<lambda>(_, d). field_ok d) ds"
  shows "getdatafield (fill_bits (8 * k) data) 24 DF002 = (Integer (int n), 36) \<and>
    getdatafields (fill_bits (8 * k) data) 36 ds = map2 (\<lambda>(n, d) v. (n, field_value d v)) ds vs"
proof -
  have len: "length ds = length vs" using vs by (rule list_all2_lengthD)
  have k: "k \<le> length data" using assms(4) by simp
  have bytes: "length (concat (map byte_bits xs)) = 8 * length xs" for xs
    by (induction xs) (auto simp: byte_bits_def)
  have "concat (map byte_bits data) = concat (map byte_bits (take k data @ drop k data))"
    by simp
  then have "concat (map byte_bits data)
      = fill_bits (8 * k) data @ concat (map byte_bits (drop k data))"
    unfolding fill_bits_concat [OF k] by (simp only: map_append concat_append)
  then have "fill_bits (8 * k) data = take (8 * k) (concat (map byte_bits data))"
    using k bytes by (simp add: fill_bits_concat)
  then have bits: "fill_bits (8 * k) data
      = hdr @ bits_of 12 n @ lay_out ds vs @ take (8 * k - (36 + length (lay_out ds vs))) rest"
    using fit len \<open>length hdr = 24\<close> unfolding data by (simp add: length_lay_out)
  have "list_all2 (\<lambda>(_, d) v. v < 2 ^ K_LEN d \<and> field_ok d) ds vs"
    using vs ok by (auto simp: list_all2_conv_all_nth list_all_length split: prod.splits)
  from getdatafields_laid [OF this, of "hdr @ bits_of 12 n"] \<open>length hdr = 24\<close>
  have "getdatafields (fill_bits (8 * k) data) 36 ds
      = map2 (\<lambda>(n, d) v. (n, field_value d v)) ds vs"
    unfolding bits by simp
  moreover have "getdatafield (fill_bits (8 * k) data) 24 DF002 = (Integer (int n), 36)"
    using getdatafield_laid [of n "DF002" hdr 24] \<open>length hdr = 24\<close> \<open>n < 2 ^ 12\<close>
    unfolding bits by (simp add: DF002 field_ok_def field_value_def multiply_by_factor_def)
  ultimately show ?thesis by blast
qed


definition sample_1019 :: "u8 list" where
  "sample_1019 =
    [211, 0, 61, 63, 184, 45, 224, 223, 224, 26, 80, 78, 57, 190, 91, 240, 41, 209, 248,
     194, 242, 52, 53, 146, 237, 207, 69, 6, 182, 187, 46, 219, 32, 208, 249, 71, 140, 40,
     29, 199, 100, 81, 183, 18, 106, 30, 72, 227, 193, 32, 111, 92, 102, 0, 232, 1, 92, 51,
     178, 110, 83, 140, 84, 87, 171, 205, 239]"

definition values_1019 :: "nat list" where
  "values_1019 =
    [32, 734, 0, 3, 8160, 26, 20558, 57, 48731, 3934836, 504, 49906, 13365, 2465058629,
     1718, 3140410144, 53497, 1200367645, 51044, 20919, 308944456, 58305, 544169062, 232,
     22819762, 7230348, 84, 21, 1, 1]"

lemma sample_1019_bits:
  "concat (map byte_bits sample_1019) = concat (map byte_bits [0xD3, 0, 0x3D]) @ bits_of 12 1019 @
    lay_out fields_1019 values_1019 @ bits_of 24 0xABCDEF"
  by (simp add: sample_1019_def values_1019_def byte_bits_def lay_out_def fields_1019_def
      data_field_defs bits_of_def upt_rec bit_Suc_0_iff)


end
