(* ===== verification/Rtcm_Parser.thy ===== *)
theory Rtcm_Parser
  imports Ring_Buffer Rtcm_Fields
begin

text \<open>
  The RTCM transport layer (format/rtcm/parser.cpp): frame search, length and padding checks,
  CRC and dispatch on the message number, first as the code does it on the ring buffer, then
  as a function on the sequence of unread bytes, with the refinement between the two.
\<close>

section \<open>The parser\<close>

datatype crc_result = Ok | InvalidValue

definition rtcm_crc :: "u8 list \<Rightarrow> crc_result" where
  "rtcm_crc data =
     (if length data < 3 then InvalidValue
      else let checksum_index = length data - 3;
               expected = push_bit 16 (ucast (data ! checksum_index) :: u32)
                 OR push_bit 8 (ucast (data ! (checksum_index + 1)))
                 OR push_bit 0 (ucast (data ! (checksum_index + 2)));
               computed = crc24q_hash (take checksum_index data)
           in if computed \<noteq> expected then InvalidValue else Ok)"

definition rtcm_dispatch :: "u8 list \<Rightarrow> rtcm_message" where
  "rtcm_dispatch message =
     (let type = unat (push_bit 4 (ucast (message ! 3) :: u16) OR ucast (drop_bit 4 (message ! 4)))
      in if type = 1019 then parse_1019 message
         else if type = 1042 then parse_1042 message
         else if type = 1046 then parse_1046 message
         else UnsupportedMessage type message)"

text \<open>\<open>payload_length b1 b2\<close>: \<^verbatim>\<open>(peek(1) & 0x03) << 8 | peek(2)\<close>, on \<^verbatim>\<open>int\<close>.\<close>

definition payload_length :: "u8 \<Rightarrow> u8 \<Rightarrow> nat" where
  "payload_length b1 b2 = unat (push_bit 8 (ucast (b1 AND 0x03)) OR ucast b2 :: u32)"

text \<open>What follows the search for \<open>0xD3\<close>.\<close>

definition rtcm_parse_frame :: "ring \<Rightarrow> rtcm_message outcome \<times> ring" where
  "rtcm_parse_frame p =
     (if buffer_length p < 1 then (Null, p)
      else if buffer_length p < 3 then (Null, p)
      else if peek p 1 AND 0xFC \<noteq> 0 then (Null, skip p 1)
      else let message_length = 1 + 2 + payload_length (peek p 1) (peek p 2) + 3
           in if buffer_length p < message_length then (Null, p)
              else let message = copy_to_buffer p message_length
                   in if rtcm_crc message \<noteq> Ok then (Null, skip p 1)
                      else (Value (rtcm_dispatch message), skip p message_length))"

definition rtcm_try_parse :: "ring \<Rightarrow> (rtcm_message outcome \<times> ring) option" where
  "rtcm_try_parse p =
     map_option rtcm_parse_frame
       (while_option (\<lambda>p. 1 \<le> buffer_length p \<and> \<not> peek p 0 = 0xD3) (\<lambda>p. skip p 1) p)"

section \<open>The parser as a function on the unread bytes\<close>

definition rtcm_head :: "u8 list \<Rightarrow> bool" where
  "rtcm_head bs \<longleftrightarrow> (case bs of [] \<Rightarrow> False | b # _ \<Rightarrow> b = 0xD3)"

definition rtcm_frame_spec :: "u8 list \<Rightarrow> rtcm_message outcome \<times> u8 list" where
  "rtcm_frame_spec bs =
     (if length bs < 3 then (Null, bs)
      else if bs ! 1 AND 0xFC \<noteq> 0 then (Null, drop 1 bs)
      else let n = 1 + 2 + payload_length (bs ! 1) (bs ! 2) + 3
           in if length bs < n then (Null, bs)
              else if rtcm_crc (take n bs) \<noteq> Ok then (Null, drop 1 bs)
              else (Value (rtcm_dispatch (take n bs)), drop n bs))"

definition rtcm_spec :: "u8 list \<Rightarrow> rtcm_message outcome \<times> u8 list" where
  "rtcm_spec bs = rtcm_frame_spec (search 1 rtcm_head bs)"

lemma payload_length_value: "payload_length b1 b2 = unat b1 mod 4 * 256 + unat b2"
proof -
  have "b1 AND 0x03 = take_bit 2 b1"
    by (simp add: take_bit_eq_mask mask_eq_exp_minus_1)
  then have "unat (b1 AND 0x03) = unat b1 mod 4"
    by (simp only: unsigned_take_bit_eq) (simp add: take_bit_eq_mod)
  moreover have "unat b1 mod 4 * 256 + unat b2 < 2 ^ 32"
  proof -
    have "unat b1 mod 4 < 4" by simp
    then show ?thesis using unat_u8_less [of b2] unfolding pow32 by linarith
  qed
  ultimately show ?thesis
    unfolding payload_length_def by (subst unat_join) simp_all
qed

lemma payload_length_less: "payload_length b1 b2 < 1024"
  unfolding payload_length_value using unat_u8_less [of b2] by linarith

lemma rtcm_parse_frame_refines:
  assumes "ring_ok s"
  shows "(fst (rtcm_parse_frame s), contents (snd (rtcm_parse_frame s)))
      = rtcm_frame_spec (contents s) \<and> ring_ok (snd (rtcm_parse_frame s))"
proof (cases "buffer_length s < 3")
  case True
  with assms show ?thesis by (simp add: rtcm_parse_frame_def rtcm_frame_spec_def)
next
  case False
  let ?n = "1 + 2 + payload_length (contents s ! 1) (contents s ! 2) + 3"
  have n: "?n < 2 ^ 32"
    using payload_length_less [of "contents s ! 1" "contents s ! 2"] unfolding pow32 by linarith
  have pk: "peek s 1 = contents s ! 1" "peek s 2 = contents s ! 2"
    using False assms by (simp_all add: ring.pk_eq)
  have msg: "copy_to_buffer s ?n = take ?n (contents s)"
    using assms n by (rule ring.cpy_eq)
  show ?thesis
    using False assms
    unfolding rtcm_parse_frame_def rtcm_frame_spec_def pk msg Let_def
    by (simp add: ring.skp_bytes ring.skp_invar)
qed

lemma rtcm_result:
  assumes "ring_ok p" and "rtcm_spec (contents p) = (r, bs)"
  shows "\<exists>p'. rtcm_try_parse p = Some (r, p') \<and> ring_ok p' \<and> contents p' = bs"
proof -
  have head: "(peek s 0 = 0xD3) = rtcm_head (contents s)"
    if "ring_ok s" "1 \<le> length (contents s)" for s
    using that by (cases "contents s") (simp_all add: ring.pk_eq rtcm_head_def)
  obtain s where s: "while_option (\<lambda>p. 1 \<le> buffer_length p \<and> \<not> peek p 0 = 0xD3)
      (\<lambda>p. skip p 1) p = Some s" "ring_ok s" "contents s = search 1 rtcm_head (contents p)"
    using ring.sync_loop [where f = "\<lambda>p. peek p 0 = 0xD3" and g = rtcm_head,
        OF assms(1) zero_less_one head] by blast
  have "(fst (rtcm_parse_frame s), contents (snd (rtcm_parse_frame s))) = (r, bs)
      \<and> ring_ok (snd (rtcm_parse_frame s))"
    using rtcm_parse_frame_refines [OF s(2)] assms(2) s(3) by (simp add: rtcm_spec_def)
  then show ?thesis
    using s by (intro exI [of _ "snd (rtcm_parse_frame s)"])
      (auto simp: rtcm_try_parse_def prod_eq_iff)
qed

section \<open>Frames\<close>

definition crc_bytes :: "reg \<Rightarrow> u8 list" where
  "crc_bytes c = [ucast (drop_bit 16 c), ucast (drop_bit 8 c), ucast c]"

definition well_framed :: "u8 list \<Rightarrow> bool" where
  "well_framed f \<longleftrightarrow> (\<exists>b1 b2 payload.
     f = [0xD3, b1, b2] @ payload @ crc_bytes (crc24 ([0xD3, b1, b2] @ payload)) \<and>
     b1 AND 0xFC = 0 \<and> length payload = payload_length b1 b2)"

lemma crc_bytes_join:
  "(ucast c :: u32) = push_bit 16 (ucast c1) OR push_bit 8 (ucast c2) OR push_bit 0 (ucast c3)
    \<longleftrightarrow> [c1, c2, c3] = crc_bytes c" (is "?l = ?j \<longleftrightarrow> _") for c :: reg and c1 c2 c3 :: u8
proof
  assume eq: "?l = ?j"
  have b: "bit c n \<longleftrightarrow> bit ?j n" if "n < 24" for n
    using arg_cong [OF eq, of "\<lambda>w. bit w n"] that by (simp add: bit_simps)
  have "c1 = ucast (drop_bit 16 c)"
    by (rule bit_word_eqI) (auto simp: bit_simps b dest: bit_imp_le_length)
  moreover have "c2 = ucast (drop_bit 8 c)"
    by (rule bit_word_eqI) (auto simp: bit_simps b dest: bit_imp_le_length)
  moreover have "c3 = ucast c"
    by (rule bit_word_eqI) (auto simp: bit_simps b)
  ultimately show "[c1, c2, c3] = crc_bytes c"
    by (simp add: crc_bytes_def)
next
  assume "[c1, c2, c3] = crc_bytes c"
  then have "c1 = ucast (drop_bit 16 c)" "c2 = ucast (drop_bit 8 c)" "c3 = ucast c"
    by (simp_all add: crc_bytes_def)
  note cs = this
  show "?l = ?j"
  proof (rule bit_word_eqI)
    fix n :: nat assume "n < LENGTH(32)"
    consider "n < 8" | "8 \<le> n" "n < 16" | "16 \<le> n" "n < 24" | "24 \<le> n" by linarith
    then show "bit ?l n \<longleftrightarrow> bit ?j n"
      unfolding cs by cases (auto simp: bit_simps dest: bit_imp_le_length)
  qed
qed

lemma length_crc_bytes [simp]: "length (crc_bytes c) = 3"
  by (simp add: crc_bytes_def)

lemma crc_bytes_inject: "crc_bytes c = crc_bytes c' \<longleftrightarrow> c = c'"
proof
  assume eq: "crc_bytes c = crc_bytes c'"
  have "(ucast c :: u32) = ucast c'"
    using eq unfolding crc_bytes_def [of c] crc_bytes_join [symmetric]
    by (metis crc_bytes_def crc_bytes_join)
  moreover have "ucast (ucast x :: u32) = x" for x :: reg
    by (rule bit_word_eqI) (simp add: bit_simps)
  ultimately show "c = c'" by metis
qed simp

lemma rtcm_crc_Ok:
  "length cs = 3 \<Longrightarrow> rtcm_crc (xs @ cs) = Ok \<longleftrightarrow> cs = crc_bytes (crc24 xs)"
proof -
  assume "length cs = 3"
  then obtain c1 c2 c3 where cs: "cs = [c1, c2, c3]"
    by (auto simp: numeral_3_eq_3 length_Suc_conv)
  show ?thesis
    unfolding cs crc_bytes_join [symmetric]
    by (simp add: rtcm_crc_def crc24q_hash_ref nth_append Let_def)
qed

lemma rtcm_frame_spec_frame:
  assumes "well_framed f"
  shows "rtcm_frame_spec (f @ rest) = (Value (rtcm_dispatch f), rest)"
proof -
  obtain b1 b2 payload where f: "f = [0xD3, b1, b2] @ payload @ crc_bytes (crc24 ([0xD3, b1, b2] @ payload))"
    and b1: "b1 AND 0xFC = 0" and len: "length payload = payload_length b1 b2"
    using assms by (auto simp: well_framed_def)
  have "rtcm_crc f = Ok"
    using rtcm_crc_Ok [of "crc_bytes (crc24 ([0xD3, b1, b2] @ payload))" "[0xD3, b1, b2] @ payload"]
    by (simp add: f crc_bytes_def)
  moreover have "length f = 1 + 2 + payload_length b1 b2 + 3"
    by (simp add: f len crc_bytes_def)
  moreover have "(f @ rest) ! 1 = b1" "(f @ rest) ! 2 = b2" by (simp_all add: f)
  ultimately show ?thesis
    using b1 unfolding rtcm_frame_spec_def Let_def by simp
qed

lemma search_frame:
  assumes "0xD3 \<notin> set junk" and "f \<noteq> []" and "hd f = 0xD3"
  shows "search 1 rtcm_head (junk @ f @ rest) = f @ rest"
proof -
  have "search 1 rtcm_head (junk @ f @ rest) = search 1 rtcm_head (f @ rest)"
  proof (rule search_append_miss)
    fix i assume "i < length junk"
    then have "drop i (junk @ f @ rest) = junk ! i # drop (Suc i) junk @ f @ rest"
      by (simp add: Cons_nth_drop_Suc)
    then show "\<not> rtcm_head (drop i (junk @ f @ rest))"
      using assms(1) nth_mem [OF \<open>i < length junk\<close>] by (auto simp: rtcm_head_def)
  qed simp
  also have "\<dots> = f @ rest"
    using assms(2,3) by (intro search_hit) (cases f; simp add: rtcm_head_def)
  finally show ?thesis .
qed

text \<open>A frame whose payload or checksum has one byte altered.\<close>

lemma rtcm_frame_spec_corrupt:
  assumes f: "well_framed f" and k: "3 \<le> k" "k < length f" and v: "v \<noteq> f ! k"
  shows "rtcm_frame_spec (f[k := v] @ rest) = (Null, drop 1 (f[k := v]) @ rest)"
proof -
  obtain b1 b2 payload where f: "f = [0xD3, b1, b2] @ payload @ crc_bytes (crc24 ([0xD3, b1, b2] @ payload))"
    and b1: "b1 AND 0xFC = 0" and len: "length payload = payload_length b1 b2"
    using f by (auto simp: well_framed_def)
  let ?h = "[0xD3, b1, b2] @ payload" and ?g = "f[k := v]"
  have f': "f = ?h @ crc_bytes (crc24 ?h)" using f by simp
  have n: "length ?g = 1 + 2 + payload_length b1 b2 + 3"
    by (subst length_list_update) (simp add: f len crc_bytes_def)
  have "rtcm_crc ?g \<noteq> Ok"
  proof (cases "k < length ?h")
    case True
    then have g: "?g = ?h[k := v] @ crc_bytes (crc24 ?h)"
      by (subst f') (rule list_update_append1)
    have "?h = take k ?h @ ?h ! k # drop (Suc k) ?h"
      using True by (rule id_take_nth_drop)
    moreover have "?h[k := v] = take k ?h @ v # drop (Suc k) ?h"
      using True by (rule upd_conv_take_nth_drop)
    moreover have "?h ! k \<noteq> v"
      using v True f' by (metis nth_append)
    ultimately have "crc24 (?h[k := v]) \<noteq> crc24 ?h"
      by (metis crc24_byte_error)
    then have "crc_bytes (crc24 (?h[k := v])) \<noteq> crc_bytes (crc24 ?h)"
      by (metis crc_bytes_inject)
    then show ?thesis
      unfolding g by (metis rtcm_crc_Ok length_crc_bytes)
  next
    case False
    let ?c = "crc_bytes (crc24 ?h)"
    have g: "?g = ?h @ ?c[k - length ?h := v]"
      using False by (subst f') (simp only: list_update_append if_False)
    have "f ! k = ?c ! (k - length ?h)"
      using False by (subst f') (simp only: nth_append if_False)
    then have differs: "?c ! (k - length ?h) \<noteq> v" using v by simp
    have "k - length ?h < length ?c"
      using k(2) False arg_cong [OF f', of length] by simp
    then have "?c[k - length ?h := v] ! (k - length ?h) = v" by (rule nth_list_update_eq)
    with differs have "?c[k - length ?h := v] \<noteq> ?c"
      by (intro notI) (simp only: not_True_eq_False)
    moreover have "length (?c[k - length ?h := v]) = 3"
      by (simp only: length_list_update length_crc_bytes)
    ultimately show ?thesis
      unfolding g by (simp only: rtcm_crc_Ok not_False_eq_True)
  qed
  moreover have "f ! 1 = b1" "f ! 2 = b2" by (subst f, simp)+
  then have "(?g @ rest) ! 1 = b1" "(?g @ rest) ! 2 = b2"
    using k by (simp_all add: nth_append)
  ultimately show ?thesis
    using b1 n unfolding rtcm_frame_spec_def Let_def by simp
qed

section \<open>Properties\<close>

definition rtcm_ring :: "u8 \<Rightarrow> ring" where
  "rtcm_ring b = \<lparr>mBuffer = [2, 0x43, b, 0x06, 0xA2, 0x7E, 9, 0, 0, 0, 0, 0, 0, 7, 0xD3, 0],
     mBufferCapacity = 16, mBufferRead = 13, mBufferWrite = 7\<rparr>"

definition rtcm_sample :: "u8 list" where
  "rtcm_sample = [0xD3, 0, 2, 0x43, 0x50, 0x06, 0xA2, 0x7E]"

lemma rtcm_ring_ok: "ring_ok (rtcm_ring b)"
  by (simp add: ring_ok_def rtcm_ring_def)

lemma rtcm_ring_contents:
  "contents (rtcm_ring b) = [7] @ rtcm_sample[4 := b] @ [9]"
  by (simp add: contents_def rtcm_ring_def buffer_length_def upt_rec rtcm_sample_def)

lemma rtcm_sample_framed: "well_framed rtcm_sample"
  unfolding well_framed_def
  by (intro exI [of _ 0] exI [of _ 2] exI [of _ "[0x43, 0x50]"])
    (simp add: rtcm_sample_def payload_length_value crc_bytes_def crc24_def byte_bits_def
      crc_step_def)

text \<open>C5: on a well-formed ring, the frame parser always returns, keeps the ring well formed,
  and its result and the bytes it leaves unread are those of the specification on the
  sequence of unread bytes.\<close>

theorem rtcm_try_parse_refines:
  assumes "ring_ok p"
  shows "\<exists>r p'. rtcm_try_parse p = Some (r, p') \<and> ring_ok p' \<and>
    (r, contents p') = rtcm_spec (contents p)"
  using rtcm_result [OF assms] by (metis surj_pair)

lemma rtcm_try_parse_refines_witness:
  "\<exists>r p'. rtcm_try_parse (rtcm_ring 0x50) = Some (r, p') \<and>
    (r, contents p') = rtcm_spec ([7] @ rtcm_sample @ [9])"
  using rtcm_try_parse_refines [OF rtcm_ring_ok [of "0x50"]]
  by (auto simp: rtcm_ring_contents rtcm_sample_def)

text \<open>Every well-formed frame is delivered.  When the unread bytes are bytes without the
  preamble \<open>0xD3\<close>, then a frame, then anything, the parser returns the message decoded from
  exactly the bytes of that frame and leaves exactly what follows it.\<close>

theorem rtcm_frame_delivered:
  assumes "ring_ok p" and "contents p = junk @ f @ rest" and "0xD3 \<notin> set junk"
    and "well_framed f"
  shows "\<exists>p'. rtcm_try_parse p = Some (Value (rtcm_dispatch f), p') \<and> ring_ok p' \<and>
    contents p' = rest"
proof (rule rtcm_result)
  show "ring_ok p" by fact
  have "f \<noteq> []" "hd f = 0xD3" using assms(4) by (auto simp: well_framed_def)
  then show "rtcm_spec (contents p) = (Value (rtcm_dispatch f), rest)"
    using assms by (simp add: rtcm_spec_def search_frame [OF assms(3), simplified]
        rtcm_frame_spec_frame)
qed

lemma rtcm_frame_delivered_witness:
  "\<exists>p'. rtcm_try_parse (rtcm_ring 0x50) = Some (Value (UnsupportedMessage 1077 rtcm_sample), p') \<and>
     contents p' = [9]"
proof -
  have "rtcm_dispatch rtcm_sample = UnsupportedMessage 1077 rtcm_sample"
    by (simp add: rtcm_dispatch_def rtcm_sample_def)
  moreover have "contents (rtcm_ring 0x50) = [7] @ rtcm_sample @ [9]"
    unfolding rtcm_ring_contents by (simp add: rtcm_sample_def)
  ultimately show ?thesis
    using rtcm_frame_delivered [of "rtcm_ring 0x50" "[7]" rtcm_sample "[9]"] rtcm_ring_ok
      rtcm_sample_framed by auto
qed

text \<open>C24: a frame in which one byte of the payload or of the checksum was altered, in
  whatever way, is never delivered: the parser returns nothing and resumes one byte further.\<close>

theorem rtcm_corrupt_rejected:
  assumes "ring_ok p" and "contents p = junk @ f[k := v] @ rest" and "0xD3 \<notin> set junk"
    and "well_framed f" and "3 \<le> k" and "k < length f" and "v \<noteq> f ! k"
  shows "\<exists>p'. rtcm_try_parse p = Some (Null, p') \<and> ring_ok p' \<and>
    contents p' = drop 1 (f[k := v]) @ rest"
proof (rule rtcm_result)
  show "ring_ok p" by fact
  have "f[k := v] \<noteq> []" "hd (f[k := v]) = 0xD3"
    using assms(4,5) by (auto simp: well_framed_def split: nat.splits)
  then show "rtcm_spec (contents p) = (Null, drop 1 (f[k := v]) @ rest)"
    using rtcm_frame_spec_corrupt [OF assms(4-7)]
    by (simp add: rtcm_spec_def assms(2) search_frame [OF assms(3), simplified])
qed

lemma rtcm_corrupt_rejected_witness:
  "\<exists>p'. rtcm_try_parse (rtcm_ring 0x51) = Some (Null, p') \<and>
     contents p' = [0, 2, 0x43, 0x51, 0x06, 0xA2, 0x7E, 9]"
  using rtcm_corrupt_rejected [OF rtcm_ring_ok rtcm_ring_contents [of "0x51"] _ rtcm_sample_framed]
  by (simp add: rtcm_sample_def) blast

section \<open>A stream in chunks\<close>

lemma rtcm_capacity: "rtcm_try_parse p = Some (r, p') \<Longrightarrow> mBufferCapacity p' = mBufferCapacity p"
  unfolding rtcm_try_parse_def
  by (erule sync_capacity) (simp add: rtcm_parse_frame_def Let_def)

interpretation rtcm: framing_parser ring_ok contents "\<lambda>p. mBufferCapacity p - 1"
  "\<lambda>p c. snd (append p c)" rtcm_try_parse rtcm_spec
proof
  fix p :: ring and c
  assume ok: "ring_ok p"
  show "ring_ok (snd (append p c)) \<and> contents (snd (append p c)) = contents p @ c \<and>
      mBufferCapacity (snd (append p c)) - 1 = mBufferCapacity p - 1"
    if "length (contents p) + length c \<le> mBufferCapacity p - 1"
    using ok that by (rule ring_put)
  show "\<exists>r p'. rtcm_try_parse p = Some (r, p') \<and> ring_ok p' \<and>
      mBufferCapacity p' - 1 = mBufferCapacity p - 1 \<and> (r, contents p') = rtcm_spec (contents p)"
  proof -
    obtain p' where "rtcm_try_parse p = Some (fst (rtcm_spec (contents p)), p')" "ring_ok p'"
      "contents p' = snd (rtcm_spec (contents p))"
      using rtcm_result [OF ok prod.collapse [symmetric]] by blast
    then show ?thesis using rtcm_capacity [of p] by (intro exI [of _ "fst (rtcm_spec (contents p))"] exI [of _ p']) simp
  qed
qed

lemma rtcm_frame: "well_framed f \<Longrightarrow> frame rtcm_spec (rtcm_dispatch f) f"
proof (rule frameI)
  assume f: "well_framed f"
  then obtain b1 b2 payload where fe: "f = [0xD3, b1, b2] @ payload @ crc_bytes (crc24 ([0xD3, b1, b2] @ payload))"
    and b1: "b1 AND 0xFC = 0" and len: "length payload = payload_length b1 b2"
    by (auto simp: well_framed_def)
  show "f \<noteq> []" using fe by simp
  show "rtcm_spec (f @ x) = (Value (rtcm_dispatch f), x)" for x
  proof -
    have "search 1 rtcm_head (f @ x) = f @ x" by (rule search_hit) (simp add: fe rtcm_head_def)
    then show ?thesis using rtcm_frame_spec_frame [OF f] by (simp add: rtcm_spec_def)
  qed
  show "rtcm_spec b = (Null, b)" if "b @ x = f" "x \<noteq> []" for b x
  proof (cases "length b < 3")
    case True
    then have "search 1 rtcm_head b = b"
      using that fe by (cases b) (auto simp: rtcm_head_def)
    then show ?thesis using True by (simp add: rtcm_spec_def rtcm_frame_spec_def)
  next
    case False
    then have "b \<noteq> []" by auto
    then have nth: "b ! 0 = 0xD3" "b ! 1 = b1" "b ! 2 = b2"
      using False prefix_nth [OF that(1), of 0] prefix_nth [OF that(1), of 1]
        prefix_nth [OF that(1), of 2] by (simp_all add: fe)
    have "length b < 1 + 2 + payload_length b1 b2 + 3"
      using proper_prefix [OF that] fe len by (simp add: crc_bytes_def)
    moreover have "search 1 rtcm_head b = b"
      using nth(1) \<open>b \<noteq> []\<close> by (intro search_hit) (cases b; simp add: rtcm_head_def)
    ultimately show ?thesis
      using False nth b1 by (simp add: rtcm_spec_def rtcm_frame_spec_def Let_def)
  qed
qed

end
