(* ===== verification/Ubx_Codec.thy ===== *)
theory Ubx_Codec
  imports Prelude
begin

text \<open>
  Reading and writing UBX payloads (format/ubx/decoder.cpp, format/ubx/encoder.cpp): little
  endian integers of one to eight bytes, raw floating point bit patterns, booleans, strings
  and padding, with a sticky error flag when the data or the space runs out, and the Fletcher
  checksum of format/ubx/parser.cpp.  Signed integers are read as \<open>int\<close>; a \<^verbatim>\<open>float\<close> or
  \<^verbatim>\<open>double\<close> is kept as the bit pattern the code copies.
\<close>

section \<open>The decoder\<close>

text \<open>
  \<open>d_mPayload\<close> is the memory from the read pointer to the end of the object it points into,
  which may be longer than the \<open>d_mPayloadLength\<close> bytes of payload that are left.
\<close>

record ubx_decoder =
  d_mPayload :: "u8 list"
  d_mPayloadLength :: nat
  d_mError :: bool

definition advance :: "nat \<Rightarrow> ubx_decoder \<Rightarrow> ubx_decoder" where
  "advance n d = d\<lparr>d_mPayload := drop n (d_mPayload d), d_mPayloadLength := d_mPayloadLength d - n\<rparr>"

definition dec_x1 :: "ubx_decoder \<Rightarrow> u8 \<times> ubx_decoder" where
  "dec_x1 d =
     (if d_mPayloadLength d < 1 then (0, d\<lparr>d_mError := True\<rparr>)
      else (d_mPayload d ! 0, advance 1 d))"

definition dec_x2 :: "ubx_decoder \<Rightarrow> u16 \<times> ubx_decoder" where
  "dec_x2 d =
     (if d_mPayloadLength d < 2 then (0, d\<lparr>d_mError := True\<rparr>)
      else (push_bit 8 (ucast (d_mPayload d ! 1)) OR ucast (d_mPayload d ! 0), advance 2 d))"

definition dec_x4 :: "ubx_decoder \<Rightarrow> u32 \<times> ubx_decoder" where
  "dec_x4 d =
     (if d_mPayloadLength d < 4 then (0, d\<lparr>d_mError := True\<rparr>)
      else (push_bit 24 (ucast (d_mPayload d ! 3)) OR push_bit 16 (ucast (d_mPayload d ! 2)) OR
            push_bit 8 (ucast (d_mPayload d ! 1)) OR ucast (d_mPayload d ! 0), advance 4 d))"

definition dec_x8 :: "ubx_decoder \<Rightarrow> u64 \<times> ubx_decoder" where
  "dec_x8 d =
     (if d_mPayloadLength d < 8 then (0, d\<lparr>d_mError := True\<rparr>)
      else (push_bit 56 (ucast (d_mPayload d ! 7)) OR push_bit 48 (ucast (d_mPayload d ! 6)) OR
            push_bit 40 (ucast (d_mPayload d ! 5)) OR push_bit 32 (ucast (d_mPayload d ! 4)) OR
            push_bit 24 (ucast (d_mPayload d ! 3)) OR push_bit 16 (ucast (d_mPayload d ! 2)) OR
            push_bit 8 (ucast (d_mPayload d ! 1)) OR ucast (d_mPayload d ! 0), advance 8 d))"

definition dec_u1 :: "ubx_decoder \<Rightarrow> u8 \<times> ubx_decoder" where "dec_u1 d = dec_x1 d"
definition dec_u2 :: "ubx_decoder \<Rightarrow> u16 \<times> ubx_decoder" where "dec_u2 d = dec_x2 d"
definition dec_u4 :: "ubx_decoder \<Rightarrow> u32 \<times> ubx_decoder" where "dec_u4 d = dec_x4 d"
definition dec_u8 :: "ubx_decoder \<Rightarrow> u64 \<times> ubx_decoder" where "dec_u8 d = dec_x8 d"

definition dec_i1 :: "ubx_decoder \<Rightarrow> int \<times> ubx_decoder" where
  "dec_i1 d = (let (v, d) = dec_x1 d in (sint v, d))"

definition dec_i2 :: "ubx_decoder \<Rightarrow> int \<times> ubx_decoder" where
  "dec_i2 d = (let (v, d) = dec_x2 d in (sint v, d))"

definition dec_i4 :: "ubx_decoder \<Rightarrow> int \<times> ubx_decoder" where
  "dec_i4 d = (let (v, d) = dec_x4 d in (sint v, d))"

definition dec_i8 :: "ubx_decoder \<Rightarrow> int \<times> ubx_decoder" where
  "dec_i8 d = (let (v, d) = dec_x8 d in (sint v, d))"

definition dec_r4 :: "ubx_decoder \<Rightarrow> u32 \<times> ubx_decoder" where "dec_r4 d = dec_x4 d"
definition dec_r8 :: "ubx_decoder \<Rightarrow> u64 \<times> ubx_decoder" where "dec_r8 d = dec_x8 d"

definition dec_logical :: "ubx_decoder \<Rightarrow> bool \<times> ubx_decoder" where
  "dec_logical d = (let (v, d) = dec_x1 d in (v \<noteq> 0, d))"

text \<open>
  The string constructor reads up to the first zero byte, wherever that is: \<open>None\<close> when the
  memory holds none, so that the read leaves the object.
\<close>

definition dec_ch :: "nat \<Rightarrow> ubx_decoder \<Rightarrow> (u8 list \<times> ubx_decoder) option" where
  "dec_ch len d =
     (if d_mPayloadLength d < len then Some ([], d\<lparr>d_mError := True\<rparr>)
      else if 0 \<in> set (d_mPayload d)
      then Some (takeWhile (\<lambda>b. b \<noteq> 0) (d_mPayload d), advance len d)
      else None)"

definition dec_skip :: "nat \<Rightarrow> ubx_decoder \<Rightarrow> ubx_decoder" where
  "dec_skip len d =
     (if d_mPayloadLength d < len then advance (d_mPayloadLength d) d else advance len d)"

section \<open>The encoder\<close>

text \<open>
  \<open>e_mem\<close> is the whole buffer the encoder was given, \<open>e_pos\<close> the offset of its write pointer.
\<close>

record ubx_encoder =
  e_mem :: "u8 list"
  e_pos :: nat
  e_mPayloadLength :: nat
  e_mError :: bool

definition ubx_Encoder :: "u8 list \<Rightarrow> ubx_encoder" where
  "ubx_Encoder buffer =
     \<lparr>e_mem = buffer, e_pos = 0, e_mPayloadLength = length buffer, e_mError = False\<rparr>"

definition overwrite :: "u8 list \<Rightarrow> nat \<Rightarrow> u8 list \<Rightarrow> u8 list" where
  "overwrite mem pos bytes = take pos mem @ bytes @ drop (pos + length bytes) mem"

definition store :: "u8 list \<Rightarrow> ubx_encoder \<Rightarrow> ubx_encoder" where
  "store bytes e =
     (if e_mPayloadLength e < length bytes then e\<lparr>e_mError := True\<rparr>
      else e\<lparr>e_mem := overwrite (e_mem e) (e_pos e) bytes, e_pos := e_pos e + length bytes,
             e_mPayloadLength := e_mPayloadLength e - length bytes\<rparr>)"

definition enc_x1 :: "u8 \<Rightarrow> ubx_encoder \<Rightarrow> ubx_encoder" where
  "enc_x1 value = store [value]"

definition enc_x2 :: "u16 \<Rightarrow> ubx_encoder \<Rightarrow> ubx_encoder" where
  "enc_x2 value = store [ucast (value AND 0xFF), ucast (drop_bit 8 (value AND 0xFF00))]"

definition enc_x4 :: "u32 \<Rightarrow> ubx_encoder \<Rightarrow> ubx_encoder" where
  "enc_x4 value = store
     [ucast (value AND 0xFF), ucast (drop_bit 8 value AND 0xFF),
      ucast (drop_bit 16 value AND 0xFF), ucast (drop_bit 24 value AND 0xFF)]"

definition enc_x8 :: "u64 \<Rightarrow> ubx_encoder \<Rightarrow> ubx_encoder" where
  "enc_x8 value = store
     [ucast (value AND 0xFF), ucast (drop_bit 8 value AND 0xFF),
      ucast (drop_bit 16 value AND 0xFF), ucast (drop_bit 24 value AND 0xFF),
      ucast (drop_bit 32 value AND 0xFF), ucast (drop_bit 40 value AND 0xFF),
      ucast (drop_bit 48 value AND 0xFF), ucast (drop_bit 56 value AND 0xFF)]"

definition enc_ubx_u1 :: "u8 \<Rightarrow> ubx_encoder \<Rightarrow> ubx_encoder" where "enc_ubx_u1 = enc_x1"
definition enc_ubx_u2 :: "u16 \<Rightarrow> ubx_encoder \<Rightarrow> ubx_encoder" where "enc_ubx_u2 = enc_x2"
definition enc_ubx_u4 :: "u32 \<Rightarrow> ubx_encoder \<Rightarrow> ubx_encoder" where "enc_ubx_u4 = enc_x4"
definition enc_ubx_u8 :: "u64 \<Rightarrow> ubx_encoder \<Rightarrow> ubx_encoder" where "enc_ubx_u8 = enc_x8"

definition enc_ubx_i1 :: "int \<Rightarrow> ubx_encoder \<Rightarrow> ubx_encoder" where
  "enc_ubx_i1 value = enc_x1 (word_of_int value)"

definition enc_ubx_i2 :: "int \<Rightarrow> ubx_encoder \<Rightarrow> ubx_encoder" where
  "enc_ubx_i2 value = enc_x2 (word_of_int value)"

definition enc_ubx_i4 :: "int \<Rightarrow> ubx_encoder \<Rightarrow> ubx_encoder" where
  "enc_ubx_i4 value = enc_x4 (word_of_int value)"

definition enc_ubx_i8 :: "int \<Rightarrow> ubx_encoder \<Rightarrow> ubx_encoder" where
  "enc_ubx_i8 value = enc_x8 (word_of_int value)"

definition enc_r4 :: "u32 \<Rightarrow> ubx_encoder \<Rightarrow> ubx_encoder" where "enc_r4 = enc_x4"
definition enc_r8 :: "u64 \<Rightarrow> ubx_encoder \<Rightarrow> ubx_encoder" where "enc_r8 = enc_x8"

definition enc_logical :: "bool \<Rightarrow> ubx_encoder \<Rightarrow> ubx_encoder" where
  "enc_logical value = enc_x1 (if value then 1 else 0)"

text \<open>
  \<open>None\<close>: the maximal length is zero, \<^verbatim>\<open>bytes - 1\<close> wraps around and the copy overruns.
\<close>

definition enc_ch :: "u8 list \<Rightarrow> nat \<Rightarrow> ubx_encoder \<Rightarrow> ubx_encoder option" where
  "enc_ch value len e =
     (let bytes = (if length value + 1 > len then len else length value + 1)
      in if e_mPayloadLength e < bytes then Some (e\<lparr>e_mError := True\<rparr>)
         else if bytes = 0 then None
         else Some (store (take (bytes - 1) value @ [0]) e))"

definition enc_pad :: "nat \<Rightarrow> ubx_encoder \<Rightarrow> ubx_encoder" where
  "enc_pad len = store (replicate len 0)"

section \<open>The checksum\<close>

fun checksum_loop :: "u8 list \<Rightarrow> u8 \<Rightarrow> u8 \<Rightarrow> u8 \<times> u8" where
  "checksum_loop [] ck_a ck_b = (ck_a, ck_b)"
| "checksum_loop (b # bs) ck_a ck_b =
     (let ck_a = ck_a + b; ck_b = ck_b + ck_a in checksum_loop bs ck_a ck_b)"

text \<open>The loop counter is a \<^verbatim>\<open>uint16_t\<close> compared with the length taken modulo \<open>2 ^ 16\<close>.\<close>

definition checksum :: "u8 list \<Rightarrow> u16" where
  "checksum payload =
     (let (ck_a, ck_b) = checksum_loop (take (length payload mod 2 ^ 16) payload) 0 0
      in push_bit 8 (ucast ck_b) OR ucast ck_a)"

section \<open>Bytes of a value\<close>

definition le1 :: "u8 \<Rightarrow> u8 list" where "le1 v = [v]"

definition le2 :: "u16 \<Rightarrow> u8 list" where "le2 v = [ucast v, ucast (drop_bit 8 v)]"

definition le4 :: "u32 \<Rightarrow> u8 list" where
  "le4 v = [ucast v, ucast (drop_bit 8 v), ucast (drop_bit 16 v), ucast (drop_bit 24 v)]"

definition le8 :: "u64 \<Rightarrow> u8 list" where
  "le8 v = [ucast v, ucast (drop_bit 8 v), ucast (drop_bit 16 v), ucast (drop_bit 24 v),
     ucast (drop_bit 32 v), ucast (drop_bit 40 v), ucast (drop_bit 48 v), ucast (drop_bit 56 v)]"

lemma length_le [simp]: "length (le1 a) = 1" "length (le2 b) = 2" "length (le4 c) = 4" "length (le8 d) = 8"
  by (simp_all add: le1_def le2_def le4_def le8_def)

lemma byte_mask: "(0xFF :: 'a::len word) = mask 8"
  by (simp add: mask_eq_exp_minus_1)

lemma ucast_and_byte: "(ucast (v AND mask 8) :: u8) = ucast v" for v :: "'a::len word"
  by (rule bit_word_eqI) (auto simp: bit_simps dest: bit_imp_le_length)

lemma enc_x_store:
  "enc_x1 a = store (le1 a)" "enc_x2 b = store (le2 b)" "enc_x4 c = store (le4 c)"
  "enc_x8 d = store (le8 d)"
proof -
  have "drop_bit 8 (b AND 0xFF00) = drop_bit 8 b"
  proof (rule bit_word_eqI)
    fix n assume "n < LENGTH(16)"
    have m: "(0xFF00 :: u16) = push_bit 8 (mask 8)" by (simp add: mask_eq_exp_minus_1)
    show "bit (drop_bit 8 (b AND 0xFF00)) n = bit (drop_bit 8 b) n"
      unfolding m using bit_imp_le_length [of b "8 + n"] by (auto simp: bit_simps)
  qed
  then show "enc_x2 b = store (le2 b)"
    unfolding enc_x2_def le2_def by (simp only: byte_mask ucast_and_byte)
qed (simp_all only: enc_x1_def enc_x4_def enc_x8_def le1_def le4_def le8_def byte_mask
      ucast_and_byte)

lemma chunk: "bit (push_bit k (ucast (ucast (drop_bit k v) :: u8) :: 'a word)) n \<longleftrightarrow>
    k \<le> n \<and> n < k + 8 \<and> bit v n" for v :: "'a::len word"
  by (auto simp: bit_simps dest: bit_imp_le_length)

lemma chunk_0: "bit (ucast (ucast v :: u8) :: 'a word) n \<longleftrightarrow> n < 8 \<and> bit v n" for v :: "'a::len word"
  by (auto simp: bit_simps dest: bit_imp_le_length)

lemma join2: "push_bit 8 (ucast (ucast (drop_bit 8 v) :: u8)) OR ucast (ucast v :: u8) = v"
  for v :: u16
  by (rule bit_word_eqI) (simp only: bit_or_iff chunk chunk_0, auto)

lemma join4:
  "push_bit 24 (ucast (ucast (drop_bit 24 v) :: u8)) OR push_bit 16 (ucast (ucast (drop_bit 16 v) :: u8)) OR
    push_bit 8 (ucast (ucast (drop_bit 8 v) :: u8)) OR ucast (ucast v :: u8) = v" for v :: u32
  by (rule bit_word_eqI) (simp only: bit_or_iff chunk chunk_0, auto)

lemma join8:
  "push_bit 56 (ucast (ucast (drop_bit 56 v) :: u8)) OR push_bit 48 (ucast (ucast (drop_bit 48 v) :: u8)) OR
    push_bit 40 (ucast (ucast (drop_bit 40 v) :: u8)) OR push_bit 32 (ucast (ucast (drop_bit 32 v) :: u8)) OR
    push_bit 24 (ucast (ucast (drop_bit 24 v) :: u8)) OR push_bit 16 (ucast (ucast (drop_bit 16 v) :: u8)) OR
    push_bit 8 (ucast (ucast (drop_bit 8 v) :: u8)) OR ucast (ucast v :: u8) = v" for v :: u64
  by (rule bit_word_eqI) (simp only: bit_or_iff chunk chunk_0, auto)

section \<open>Codecs\<close>

abbreviation reading :: "u8 list \<Rightarrow> nat \<Rightarrow> bool \<Rightarrow> ubx_decoder" where
  "reading m n e \<equiv> \<lparr>d_mPayload = m, d_mPayloadLength = n, d_mError = e\<rparr>"

text \<open>
  A codec: the bytes of a value, and a read operation of the decoder that gives the value back
  from these bytes, whatever follows them, and refuses to read past the payload.
\<close>

locale codec =
  fixes size :: nat
    and bytes :: "'v \<Rightarrow> u8 list"
    and valid :: "'v \<Rightarrow> bool"
    and get :: "ubx_decoder \<Rightarrow> 'v \<times> ubx_decoder"
  assumes size_bytes: "length (bytes v) = size"
    and get_bytes: "valid v \<Longrightarrow> size \<le> n \<Longrightarrow> get (reading (bytes v @ m) n e) = (v, reading m (n - size) e)"
    and get_short: "n < size \<Longrightarrow> snd (get (reading m n e)) = reading m n True"
begin

fun get_list :: "nat \<Rightarrow> ubx_decoder \<Rightarrow> 'v list \<times> ubx_decoder" where
  "get_list 0 d = ([], d)"
| "get_list (Suc k) d = (let (v, d) = get d; (vs, d) = get_list k d in (v # vs, d))"

lemma get_list_bytes:
  "list_all valid vs \<Longrightarrow> size * length vs \<le> n \<Longrightarrow>
    get_list (length vs) (reading (concat (map bytes vs) @ m) n e)
      = (vs, reading m (n - size * length vs) e)"
proof (induction vs arbitrary: n)
  case Nil
  then show ?case by simp
next
  case (Cons v vs)
  then have "get (reading (bytes v @ concat (map bytes vs) @ m) n e)
      = (v, reading (concat (map bytes vs) @ m) (n - size) e)"
    by (intro get_bytes) auto
  moreover have "get_list (length vs) (reading (concat (map bytes vs) @ m) (n - size) e)
      = (vs, reading m (n - size - size * length vs) e)"
    using Cons by (intro Cons.IH) auto
  ultimately show ?case by (simp add: algebra_simps)
qed

end

lemma advance_reading: "advance k (reading m n e) = reading (drop k m) (n - k) e"
  by (simp add: advance_def)

interpretation u1: codec 1 le1 "\<lambda>_. True" dec_u1
  by unfold_locales (simp_all add: dec_u1_def dec_x1_def le1_def advance_reading)

interpretation u2: codec 2 le2 "\<lambda>_. True" dec_u2
  by unfold_locales (simp_all add: dec_u2_def dec_x2_def le2_def advance_reading join2)

interpretation u4: codec 4 le4 "\<lambda>_. True" dec_u4
  by unfold_locales (simp_all add: dec_u4_def dec_x4_def le4_def advance_reading join4)

interpretation u8: codec 8 le8 "\<lambda>_. True" dec_u8
  by unfold_locales (simp_all add: dec_u8_def dec_x8_def le8_def advance_reading join8)

definition in_range :: "nat \<Rightarrow> int \<Rightarrow> bool" where
  "in_range k v \<longleftrightarrow> - (2 ^ k) \<le> v \<and> v < 2 ^ k"

lemma sint_word_of_int:
  "in_range (LENGTH('a::len) - 1) v \<Longrightarrow> sint (word_of_int v :: 'a word) = v"
  by (simp add: in_range_def signed_of_int signed_take_bit_int_eq_self)

definition si1 :: "int \<Rightarrow> u8 list" where "si1 v = le1 (word_of_int v)"
definition si2 :: "int \<Rightarrow> u8 list" where "si2 v = le2 (word_of_int v)"
definition si4 :: "int \<Rightarrow> u8 list" where "si4 v = le4 (word_of_int v)"
definition si8 :: "int \<Rightarrow> u8 list" where "si8 v = le8 (word_of_int v)"
definition bool1 :: "bool \<Rightarrow> u8 list" where "bool1 b = le1 (if b then 1 else 0)"

lemma length_si [simp]: "length (si1 a) = 1" "length (si2 a) = 2" "length (si4 a) = 4" "length (si8 a) = 8"
  "length (bool1 b) = 1"
  by (simp_all add: si1_def si2_def si4_def si8_def bool1_def)

lemma u_x: "dec_u1 = dec_x1" "dec_u2 = dec_x2" "dec_u4 = dec_x4" "dec_u8 = dec_x8"
  by (simp_all add: fun_eq_iff dec_u1_def dec_u2_def dec_u4_def dec_u8_def)

interpretation i1: codec 1 si1 "in_range 7" dec_i1
  using u1.get_bytes u1.get_short unfolding u_x
  by unfold_locales (auto simp: dec_i1_def si1_def sint_word_of_int split_beta)

interpretation i2: codec 2 si2 "in_range 15" dec_i2
  using u2.get_bytes u2.get_short unfolding u_x
  by unfold_locales (auto simp: dec_i2_def si2_def sint_word_of_int split_beta)

interpretation i4: codec 4 si4 "in_range 31" dec_i4
  using u4.get_bytes u4.get_short unfolding u_x
  by unfold_locales (auto simp: dec_i4_def si4_def sint_word_of_int split_beta)

interpretation i8: codec 8 si8 "in_range 63" dec_i8
  using u8.get_bytes u8.get_short unfolding u_x
  by unfold_locales (auto simp: dec_i8_def si8_def sint_word_of_int split_beta)

interpretation logical: codec 1 bool1 "\<lambda>_. True" dec_logical
  using u1.get_bytes u1.get_short unfolding u_x
  by unfold_locales (auto simp: dec_logical_def bool1_def split_beta)

lemmas codec_reads = u1.get_bytes u2.get_bytes u4.get_bytes u8.get_bytes
  i1.get_bytes i2.get_bytes i4.get_bytes i8.get_bytes logical.get_bytes
  u1.get_bytes [unfolded u_x] u2.get_bytes [unfolded u_x] u4.get_bytes [unfolded u_x]
  u8.get_bytes [unfolded u_x]

declare codec_reads [codec_simps]

lemma dec_r_reads [codec_simps]:
  "4 \<le> n \<Longrightarrow> dec_r4 (reading (le4 v @ m) n e) = (v, reading m (n - 4) e)"
  "8 \<le> n \<Longrightarrow> dec_r8 (reading (le8 w @ m) n e) = (w, reading m (n - 8) e)"
  using u4.get_bytes [of n v m e] u8.get_bytes [of n w m e]
  by (simp_all add: dec_r4_def dec_r8_def dec_u4_def dec_u8_def)

section \<open>What the encoder has written\<close>

definition enc_wf :: "ubx_encoder \<Rightarrow> bool" where
  "enc_wf e \<longleftrightarrow> e_pos e + e_mPayloadLength e = length (e_mem e)"

definition encoded :: "ubx_encoder \<Rightarrow> u8 list" where
  "encoded e = take (e_pos e) (e_mem e)"

lemma store_fits:
  assumes "enc_wf e" and "length bs \<le> e_mPayloadLength e"
  shows "enc_wf (store bs e)" "encoded (store bs e) = encoded e @ bs"
    "e_pos (store bs e) = e_pos e + length bs"
    "e_mPayloadLength (store bs e) = e_mPayloadLength e - length bs"
    "e_mError (store bs e) = e_mError e"
  using assms by (auto simp: store_def overwrite_def enc_wf_def encoded_def)

lemma store_store:
  assumes "enc_wf e" and "length as + length bs \<le> e_mPayloadLength e"
  shows "store bs (store as e) = store (as @ bs) e"
  using assms by (simp add: store_def overwrite_def enc_wf_def ac_simps)

end
