(* ===== verification/Ubx_Messages.thy ===== *)
theory Ubx_Messages
  imports Ubx_Codec
begin

text \<open>
  The UBX messages (format/ubx/messages, format/ubx/cfg.cpp): the structures of the
  \<^verbatim>\<open>raw\<close> namespaces as records, the \<^verbatim>\<open>parse\<close> functions, the configuration values and the
  functions that write requests.  \<open>Null\<close> is a null pointer; \<open>Undefined\<close> is an
  \<^verbatim>\<open>UNREACHABLE()\<close> that is reached or a read outside the buffer.  Members of a structure that
  the code leaves uninitialised are absent (\<open>None\<close>).
\<close>

section \<open>UBX-NAV-PVT\<close>

record nav_pvt_valid =
  valid_date :: u8
  valid_time :: u8
  fully_resolved :: u8
  valid_mag :: u8

record nav_pvt_flags =
  gnss_fix_ok :: u8
  diff_soln :: u8
  psm_state :: u8
  head_veh_valid :: u8
  carr_soln :: u8

record nav_pvt_flags2 =
  confirmed_avai :: u8
  confirmed_date :: u8
  confirmed_time :: u8

record nav_pvt_flags3 =
  invalid_llh :: u8
  last_correction_arg :: u8

record nav_pvt =
  i_tow :: u32
  year :: u16
  month :: u8
  day :: u8
  hour :: u8
  min_utc :: u8
  sec :: u8
  pvt_valid :: nav_pvt_valid
  t_acc :: u32
  nano :: int
  fix_type :: u8
  pvt_flags :: nav_pvt_flags
  pvt_flags2 :: nav_pvt_flags2
  num_sv :: u8
  lon :: int
  lat :: int
  height_mm :: int
  h_msl :: int
  h_acc :: u32
  v_acc :: u32
  vel_n :: int
  vel_e :: int
  vel_d :: int
  g_speed :: int
  head_mot :: int
  s_acc :: u32
  head_acc :: u32
  p_dop :: u16
  pvt_flags3 :: nav_pvt_flags3
  head_veh :: int
  mag_dec :: int
  mag_acc :: u16

section \<open>The other structures\<close>

record rxm_rawx =
  rcv_tow :: u64
  rawx_week :: u16
  leap_s :: int
  num_meas :: u8
  leap_sec :: u8
  clk_reset :: u8
  rawx_version :: u8
  rawx_reserved0 :: u16

record rxm_rawx_measurement =
  pr_mes :: u64
  cp_mes :: u64
  do_mes :: u32
  meas_gnss_id :: u8
  meas_sv_id :: u8
  meas_sig_id :: u8
  meas_freq_id :: u8
  locktime :: u16
  cno :: u8
  pr_stdev :: u8
  cp_stdev :: u8
  do_stdev :: u8
  pr_valid :: u8
  cp_valid :: u8
  half_cyc :: u8
  sub_half_cyc :: u8
  meas_reserved0 :: u8

record rxm_rtcm_v2 =
  rtcm_crc_failed :: u8
  rtcm_msg_used :: u8
  rtcm_sub_type :: u16
  ref_station :: u16
  rtcm_msg_type :: u16

record rxm_rtcm =
  rtcm_version :: u8
  rtcm_v2 :: "rxm_rtcm_v2 option"

record rxm_spartn_v1 =
  spartn_crc_failed :: u8
  spartn_msg_used :: u8
  spartn_sub_type :: u16
  padding04 :: u16
  spartn_msg_type :: u16

record rxm_spartn =
  spartn_version :: u8
  spartn_v1 :: "rxm_spartn_v1 option"

record rxm_sfrbx =
  sf_gnss_id :: u8
  sf_sv_id :: u8
  sf_sig_id :: u8
  sf_freq_id :: u8
  num_words :: u8
  chn :: u8
  sf_version :: u8
  sf_reserved0 :: u8

record mon_ver =
  sw_version :: "u8 list"
  hw_version :: "u8 list"
  extensions :: "u8 list list"

record ack =
  cls_id :: u8
  msg_id :: u8

section \<open>Configuration values\<close>

datatype cfg_type = UNKNOWN | L | U1 | U2 | U4 | U8

datatype cfg_value = Cfg_L bool | Cfg_U1 u8 | Cfg_U2 u16 | Cfg_U4 u32 | Cfg_U8 u64

fun cfg_type_of :: "cfg_value \<Rightarrow> cfg_type" where
  "cfg_type_of (Cfg_L v) = L"
| "cfg_type_of (Cfg_U1 v) = U1"
| "cfg_type_of (Cfg_U2 v) = U2"
| "cfg_type_of (Cfg_U4 v) = U4"
| "cfg_type_of (Cfg_U8 v) = U8"

definition size_bits :: "u32 \<Rightarrow> u32" where
  "size_bits key = drop_bit 28 (key AND 0x70000000)"

definition type_from_key :: "u32 \<Rightarrow> cfg_type" where
  "type_from_key key =
     (if size_bits key = 1 then L else if size_bits key = 2 then U1
      else if size_bits key = 3 then U2 else if size_bits key = 4 then U4
      else if size_bits key = 5 then U8 else UNKNOWN)"

fun size_from_type :: "cfg_type \<Rightarrow> nat" where
  "size_from_type L = 1"
| "size_from_type U1 = 1"
| "size_from_type U2 = 2"
| "size_from_type U4 = 4"
| "size_from_type U8 = 8"
| "size_from_type UNKNOWN = 0"

fun parse_from_type :: "cfg_type \<Rightarrow> ubx_decoder \<Rightarrow> (cfg_value \<times> ubx_decoder) option" where
  "parse_from_type L d = (let (v, d) = dec_logical d in Some (Cfg_L v, d))"
| "parse_from_type U1 d = (let (v, d) = dec_u1 d in Some (Cfg_U1 v, d))"
| "parse_from_type U2 d = (let (v, d) = dec_u2 d in Some (Cfg_U2 v, d))"
| "parse_from_type U4 d = (let (v, d) = dec_u4 d in Some (Cfg_U4 v, d))"
| "parse_from_type U8 d = (let (v, d) = dec_u8 d in Some (Cfg_U8 v, d))"
| "parse_from_type UNKNOWN d = None"

definition parse_from_key :: "u32 \<Rightarrow> ubx_decoder \<Rightarrow> (cfg_value \<times> ubx_decoder) option" where
  "parse_from_key key d =
     (if size_bits key = 1 then parse_from_type L d
      else if size_bits key = 2 then parse_from_type U1 d
      else if size_bits key = 3 then parse_from_type U2 d
      else if size_bits key = 4 then parse_from_type U4 d
      else if size_bits key = 5 then parse_from_type U8 d
      else None)"

fun serialize :: "cfg_value \<Rightarrow> ubx_encoder \<Rightarrow> ubx_encoder" where
  "serialize (Cfg_L v) e = enc_logical v e"
| "serialize (Cfg_U1 v) e = enc_ubx_u1 v e"
| "serialize (Cfg_U2 v) e = enc_ubx_u2 v e"
| "serialize (Cfg_U4 v) e = enc_ubx_u4 v e"
| "serialize (Cfg_U8 v) e = enc_ubx_u8 v e"

record cfg_valget =
  valget_version :: u8
  layers :: u8
  position :: u16
  cfg_values :: "u32 \<rightharpoonup> cfg_value"

datatype ubx_message =
    UbxNavPvt nav_pvt "u8 list"
  | UbxMonVer mon_ver "u8 list"
  | UbxCfgValget cfg_valget "u8 list"
  | UbxAckAck ack "u8 list"
  | UbxAckNak ack "u8 list"
  | UbxRxmSfrbx rxm_sfrbx "u32 list" "u8 list"
  | UbxRxmRawx rxm_rawx "rxm_rawx_measurement list" "u8 list"
  | UbxRxmRtcm rxm_rtcm "u8 list"
  | UbxRxmSpartn rxm_spartn "u8 list"
  | UbxUnsupported u8 u8 "u8 list"

section \<open>Parsing\<close>

definition parse_nav_pvt :: "ubx_decoder \<Rightarrow> u8 list \<Rightarrow> ubx_message outcome" where
  "parse_nav_pvt d data =
     (if d_mPayloadLength d < 92 then Null
      else
        let (v_i_tow, d) = dec_u4 d; (v_year, d) = dec_u2 d; (v_month, d) = dec_u1 d;
            (v_day, d) = dec_u1 d; (v_hour, d) = dec_u1 d; (v_min, d) = dec_u1 d;
            (v_sec, d) = dec_u1 d;
            (valid, d) = dec_x1 d;
            (v_t_acc, d) = dec_u4 d; (v_nano, d) = dec_i4 d; (v_fix_type, d) = dec_u1 d;
            (flags, d) = dec_x1 d;
            (flags2, d) = dec_x1 d;
            (v_num_sv, d) = dec_u1 d; (v_lon, d) = dec_i4 d; (v_lat, d) = dec_i4 d;
            (v_height, d) = dec_i4 d; (v_h_msl, d) = dec_i4 d; (v_h_acc, d) = dec_u4 d;
            (v_v_acc, d) = dec_u4 d; (v_vel_n, d) = dec_i4 d; (v_vel_e, d) = dec_i4 d;
            (v_vel_d, d) = dec_i4 d; (v_g_speed, d) = dec_i4 d; (v_head_mot, d) = dec_i4 d;
            (v_s_acc, d) = dec_u4 d; (v_head_acc, d) = dec_u4 d; (v_p_dop, d) = dec_u2 d;
            (flags3, d) = dec_x1 d;
            d = dec_skip 4 d;
            (v_head_veh, d) = dec_i4 d; (v_mag_dec, d) = dec_i2 d; (v_mag_acc, d) = dec_u2 d
        in if d_mError d then Null
           else Value (UbxNavPvt
             \<lparr>i_tow = v_i_tow, year = v_year, month = v_month, day = v_day, hour = v_hour,
              min_utc = v_min, sec = v_sec,
              pvt_valid = \<lparr>valid_date = drop_bit 0 valid AND 0x01, valid_time = drop_bit 1 valid AND 0x01,
                fully_resolved = drop_bit 2 valid AND 0x01, valid_mag = drop_bit 3 valid AND 0x01\<rparr>,
              t_acc = v_t_acc, nano = v_nano, fix_type = v_fix_type,
              pvt_flags = \<lparr>gnss_fix_ok = drop_bit 0 flags AND 0x01, diff_soln = drop_bit 1 flags AND 0x01,
                psm_state = drop_bit 2 flags AND 0x07, head_veh_valid = drop_bit 5 flags AND 0x01,
                carr_soln = drop_bit 6 flags AND 0x03\<rparr>,
              pvt_flags2 = \<lparr>confirmed_avai = drop_bit 5 flags2 AND 0x01,
                confirmed_date = drop_bit 6 flags2 AND 0x01,
                confirmed_time = drop_bit 7 flags2 AND 0x01\<rparr>,
              num_sv = v_num_sv, lon = v_lon, lat = v_lat, height_mm = v_height, h_msl = v_h_msl,
              h_acc = v_h_acc, v_acc = v_v_acc, vel_n = v_vel_n, vel_e = v_vel_e, vel_d = v_vel_d,
              g_speed = v_g_speed, head_mot = v_head_mot, s_acc = v_s_acc, head_acc = v_head_acc,
              p_dop = v_p_dop,
              pvt_flags3 = \<lparr>invalid_llh = drop_bit 0 flags3 AND 0x01,
                last_correction_arg = drop_bit 1 flags3 AND 0x0F\<rparr>,
              head_veh = v_head_veh, mag_dec = v_mag_dec, mag_acc = v_mag_acc\<rparr> data))"

fun parse_extensions :: "nat \<Rightarrow> ubx_decoder \<Rightarrow> (u8 list list \<times> ubx_decoder) option" where
  "parse_extensions 0 d = Some ([], d)"
| "parse_extensions (Suc n) d =
     (case dec_ch 30 d of None \<Rightarrow> None
      | Some (s, d) \<Rightarrow>
          (case parse_extensions n d of None \<Rightarrow> None | Some (ss, d) \<Rightarrow> Some (s # ss, d)))"

definition parse_mon_ver :: "ubx_decoder \<Rightarrow> u8 list \<Rightarrow> ubx_message outcome" where
  "parse_mon_ver d data =
     (if d_mPayloadLength d < 40 then Null
      else let extension_count = (d_mPayloadLength d - 40) div 30
           in case dec_ch 30 d of None \<Rightarrow> Undefined
              | Some (sw, d) \<Rightarrow>
                  (case dec_ch 10 d of None \<Rightarrow> Undefined
                   | Some (hw, d) \<Rightarrow>
                       (case parse_extensions extension_count d of None \<Rightarrow> Undefined
                        | Some (exts, d) \<Rightarrow>
                            if d_mError d then Null
                            else Value (UbxMonVer \<lparr>sw_version = sw, hw_version = hw,
                              extensions = exts\<rparr> data))))"

text \<open>
  \<^verbatim>\<open>while (decoder.remaining() > 4 && !decoder.error())\<close>: every round without an error consumes
  the four bytes of a key.  \<^verbatim>\<open>emplace\<close> keeps the value a key already has.
\<close>

function valget_loop ::
  "ubx_decoder \<Rightarrow> (u32 \<rightharpoonup> cfg_value) \<Rightarrow> ((u32 \<rightharpoonup> cfg_value) \<times> ubx_decoder) option" where
  "valget_loop d vs =
     (if d_mPayloadLength d > 4 \<and> \<not> d_mError d
      then let (key, d1) = dec_u4 d
           in case parse_from_key key d1 of None \<Rightarrow> None
              | Some (value, d2) \<Rightarrow>
                  valget_loop d2 (if vs key = None then vs(key \<mapsto> value) else vs)
      else Some (vs, d))"
  by pat_completeness auto

lemma dec_length_le:
  "d_mPayloadLength (snd (dec_x1 d)) \<le> d_mPayloadLength d"
  "d_mPayloadLength (snd (dec_x2 d)) \<le> d_mPayloadLength d"
  "d_mPayloadLength (snd (dec_x4 d)) \<le> d_mPayloadLength d"
  "d_mPayloadLength (snd (dec_x8 d)) \<le> d_mPayloadLength d"
  by (simp_all add: dec_x1_def dec_x2_def dec_x4_def dec_x8_def advance_def)

lemma parse_from_type_length:
  "parse_from_type t d = Some (v, d') \<Longrightarrow> d_mPayloadLength d' \<le> d_mPayloadLength d"
  using dec_length_le [of d]
  by (cases t) (auto simp: dec_logical_def dec_u1_def dec_u2_def dec_u4_def dec_u8_def
      split_beta Let_def)

lemma parse_from_key_length:
  "parse_from_key key d = Some (v, d') \<Longrightarrow> d_mPayloadLength d' \<le> d_mPayloadLength d"
  by (auto simp: parse_from_key_def dest: parse_from_type_length split: if_splits
      simp del: parse_from_type.simps)

termination valget_loop
  by (relation "measure (\<lambda>(d, _). d_mPayloadLength d)")
    (auto dest!: parse_from_key_length simp: dec_u4_def dec_x4_def advance_def)

declare valget_loop.simps [simp del]

definition parse_cfg_valget :: "ubx_decoder \<Rightarrow> u8 list \<Rightarrow> ubx_message outcome" where
  "parse_cfg_valget d data =
     (if d_mPayloadLength d < 4 then Null
      else let (v_version, d) = dec_u1 d; (v_layers, d) = dec_u1 d; (v_position, d) = dec_u2 d
           in case valget_loop d (\<lambda>_. None) of None \<Rightarrow> Undefined
              | Some (vs, d) \<Rightarrow>
                  if d_mError d then Null
                  else Value (UbxCfgValget \<lparr>valget_version = v_version, layers = v_layers,
                    position = v_position, cfg_values = vs\<rparr> data))"

definition parse_ack_ack :: "ubx_decoder \<Rightarrow> u8 list \<Rightarrow> ubx_message outcome" where
  "parse_ack_ack d data =
     (if d_mPayloadLength d < 2 then Null
      else let (v_cls_id, d) = dec_u1 d; (v_msg_id, d) = dec_u1 d
           in if d_mError d then Null
              else Value (UbxAckAck \<lparr>cls_id = v_cls_id, msg_id = v_msg_id\<rparr> data))"

definition parse_ack_nak :: "ubx_decoder \<Rightarrow> u8 list \<Rightarrow> ubx_message outcome" where
  "parse_ack_nak d data =
     (if d_mPayloadLength d < 2 then Null
      else let (v_cls_id, d) = dec_u1 d; (v_msg_id, d) = dec_u1 d
           in if d_mError d then Null
              else Value (UbxAckNak \<lparr>cls_id = v_cls_id, msg_id = v_msg_id\<rparr> data))"

fun parse_words :: "nat \<Rightarrow> ubx_decoder \<Rightarrow> u32 list \<times> ubx_decoder" where
  "parse_words 0 d = ([], d)"
| "parse_words (Suc n) d = (let (w, d) = dec_u4 d; (ws, d) = parse_words n d in (w # ws, d))"

definition parse_rxm_sfrbx :: "ubx_decoder \<Rightarrow> u8 list \<Rightarrow> ubx_message outcome" where
  "parse_rxm_sfrbx d data =
     (if d_mPayloadLength d < 8 then Null
      else
        let (v_gnss_id, d) = dec_u1 d; (v_sv_id, d) = dec_u1 d; (v_sig_id, d) = dec_u1 d;
            (v_freq_id, d) = dec_u1 d; (v_num_words, d) = dec_u1 d; (v_chn, d) = dec_u1 d;
            (v_version, d) = dec_u1 d; (v_reserved0, d) = dec_u1 d
        in if d_mError d then Null
           else if v_version \<noteq> 0x02 then Null
           else let (ws, d) = parse_words (unat v_num_words) d
                in if d_mError d then Null
                   else Value (UbxRxmSfrbx
                     \<lparr>sf_gnss_id = v_gnss_id, sf_sv_id = v_sv_id, sf_sig_id = v_sig_id,
                      sf_freq_id = v_freq_id, num_words = v_num_words, chn = v_chn,
                      sf_version = v_version, sf_reserved0 = v_reserved0\<rparr> ws data))"

definition parse_measurement :: "ubx_decoder \<Rightarrow> rxm_rawx_measurement \<times> ubx_decoder" where
  "parse_measurement d =
     (let (v_pr_mes, d) = dec_r8 d; (v_cp_mes, d) = dec_r8 d; (v_do_mes, d) = dec_r4 d;
          (v_gnss_id, d) = dec_u1 d; (v_sv_id, d) = dec_u1 d; (v_sig_id, d) = dec_u1 d;
          (v_freq_id, d) = dec_u1 d; (v_locktime, d) = dec_u2 d; (v_cno, d) = dec_u1 d;
          (v_pr_stdev, d) = dec_x1 d; (v_cp_stdev, d) = dec_x1 d; (v_do_stdev, d) = dec_x1 d;
          (trk_stat, d) = dec_x1 d; (v_reserved0, d) = dec_u1 d
      in (\<lparr>pr_mes = v_pr_mes, cp_mes = v_cp_mes, do_mes = v_do_mes, meas_gnss_id = v_gnss_id,
           meas_sv_id = v_sv_id, meas_sig_id = v_sig_id, meas_freq_id = v_freq_id,
           locktime = v_locktime, cno = v_cno, pr_stdev = v_pr_stdev, cp_stdev = v_cp_stdev,
           do_stdev = v_do_stdev, pr_valid = drop_bit 0 trk_stat AND 0x01,
           cp_valid = drop_bit 1 trk_stat AND 0x01, half_cyc = drop_bit 2 trk_stat AND 0x01,
           sub_half_cyc = drop_bit 3 trk_stat AND 0x01, meas_reserved0 = v_reserved0\<rparr>, d))"

text \<open>\<open>None\<close>: a measurement could not be read, the function returned a null pointer.\<close>

fun parse_measurements ::
  "nat \<Rightarrow> ubx_decoder \<Rightarrow> (rxm_rawx_measurement list \<times> ubx_decoder) option" where
  "parse_measurements 0 d = Some ([], d)"
| "parse_measurements (Suc n) d =
     (let (m, d) = parse_measurement d
      in if d_mError d then None
         else case parse_measurements n d of None \<Rightarrow> None | Some (ms, d) \<Rightarrow> Some (m # ms, d))"

definition parse_rxm_rawx :: "ubx_decoder \<Rightarrow> u8 list \<Rightarrow> ubx_message outcome" where
  "parse_rxm_rawx d data =
     (if d_mPayloadLength d < 16 then Null
      else
        let (v_rcv_tow, d) = dec_r8 d; (v_week, d) = dec_u2 d; (v_leap_s, d) = dec_i1 d;
            (v_num_meas, d) = dec_u1 d; (rec_stat, d) = dec_x1 d; (v_version, d) = dec_u1 d;
            (v_reserved0, d) = dec_u2 d
        in if d_mError d then Null
           else case parse_measurements (unat v_num_meas) d of None \<Rightarrow> Null
                | Some (ms, d) \<Rightarrow>
                    if d_mError d then Null
                    else Value (UbxRxmRawx
                      \<lparr>rcv_tow = v_rcv_tow, rawx_week = v_week, leap_s = v_leap_s,
                       num_meas = v_num_meas, leap_sec = drop_bit 0 rec_stat AND 0x01,
                       clk_reset = drop_bit 1 rec_stat AND 0x01, rawx_version = v_version,
                       rawx_reserved0 = v_reserved0\<rparr> ms data))"

definition parse_rxm_rtcm :: "ubx_decoder \<Rightarrow> u8 list \<Rightarrow> ubx_message outcome" where
  "parse_rxm_rtcm d data =
     (if d_mPayloadLength d < 2 then Null
      else
        let (version, d) = dec_u1 d
        in if d_mError d then Null
           else if version = 2
           then let (flags, d) = dec_u1 d; (v_sub_type, d) = dec_u2 d;
                    (v_ref_station, d) = dec_u2 d; (v_msg_type, d) = dec_u2 d
                in if d_mError d then Null
                   else Value (UbxRxmRtcm \<lparr>rtcm_version = version,
                     rtcm_v2 = Some \<lparr>rtcm_crc_failed = drop_bit 0 flags AND 0x01,
                       rtcm_msg_used = drop_bit 1 flags AND 0x03, rtcm_sub_type = v_sub_type,
                       ref_station = v_ref_station, rtcm_msg_type = v_msg_type\<rparr>\<rparr> data)
           else Value (UbxRxmRtcm \<lparr>rtcm_version = version, rtcm_v2 = None\<rparr> data))"

definition parse_rxm_spartn :: "ubx_decoder \<Rightarrow> u8 list \<Rightarrow> ubx_message outcome" where
  "parse_rxm_spartn d data =
     (if d_mPayloadLength d < 2 then Null
      else
        let (version, d) = dec_u1 d
        in if d_mError d then Null
           else if version = 1
           then let (flags, d) = dec_u1 d; (v_sub_type, d) = dec_u2 d;
                    (v_padding04, d) = dec_u2 d; (v_msg_type, d) = dec_u2 d
                in if d_mError d then Null
                   else Value (UbxRxmSpartn \<lparr>spartn_version = version,
                     spartn_v1 = Some \<lparr>spartn_crc_failed = drop_bit 0 flags AND 0x01,
                       spartn_msg_used = drop_bit 1 flags AND 0x03, spartn_sub_type = v_sub_type,
                       padding04 = v_padding04, spartn_msg_type = v_msg_type\<rparr>\<rparr> data)
           else Value (UbxRxmSpartn \<lparr>spartn_version = version, spartn_v1 = None\<rparr> data))"

section \<open>Writing requests\<close>

text \<open>
  The checksum is taken over the memory between two positions of the write pointer; reading
  beyond the buffer (the encoder had no room) is \<open>Undefined\<close>.
\<close>

definition mon_ver_poll :: "ubx_encoder \<Rightarrow> (nat \<times> ubx_encoder) outcome" where
  "mon_ver_poll e =
     (let e = enc_ubx_u1 0xB5 e;
          e = enc_ubx_u1 0x62 e;
          checksum_ptr = e_pos e;
          e = enc_ubx_u1 0x0A e;
          e = enc_ubx_u1 0x04 e;
          e = enc_ubx_u2 0 e
      in if length (e_mem e) < checksum_ptr + 4 then Undefined
         else Value (8, enc_ubx_u2 (checksum (take 4 (drop checksum_ptr (e_mem e)))) e))"

definition cfg_valget_poll ::
  "ubx_encoder \<Rightarrow> u8 \<Rightarrow> u16 \<Rightarrow> u32 list \<Rightarrow> nat \<times> ubx_encoder" where
  "cfg_valget_poll e layer pos keys =
     (let begin0 = e_pos e;
          payload_size = 4 + 4 * (word_of_nat (length keys) :: u16);
          e = enc_ubx_u1 0xB5 e;
          e = enc_ubx_u1 0x62 e;
          checksum_begin = e_pos e;
          e = enc_ubx_u1 0x06 e;
          e = enc_ubx_u1 0x8B e;
          e = enc_ubx_u2 payload_size e;
          e = enc_ubx_u1 0 e;
          e = (if layer AND 0x01 \<noteq> 0 then enc_ubx_u1 0 e
               else if layer AND 0x02 \<noteq> 0 then enc_ubx_u1 1 e
               else if layer AND 0x04 \<noteq> 0 then enc_ubx_u1 2 e
               else enc_ubx_u1 0 e);
          e = enc_ubx_u2 pos e;
          e = foldl (\<lambda>e key. enc_ubx_u4 key e) e keys;
          checksum_end = e_pos e;
          checksum_length = checksum_end - checksum_begin;
          e = enc_ubx_u2 (checksum (take checksum_length (drop checksum_begin (e_mem e)))) e
      in (e_pos e - begin0, e))"

definition cfg_valset_set ::
  "ubx_encoder \<Rightarrow> u8 \<Rightarrow> u32 \<Rightarrow> cfg_value \<Rightarrow> nat \<times> ubx_encoder" where
  "cfg_valset_set e layers0 key value =
     (if cfg_type_of value \<noteq> type_from_key key \<or> cfg_type_of value = UNKNOWN then (0, e)
      else
        let begin0 = e_pos e;
            payload_size = 4 + 4 + (word_of_nat (size_from_type (cfg_type_of value)) :: u16);
            e = enc_ubx_u1 0xB5 e;
            e = enc_ubx_u1 0x62 e;
            checksum_begin = e_pos e;
            e = enc_ubx_u1 0x06 e;
            e = enc_ubx_u1 0x8A e;
            e = enc_ubx_u2 payload_size e;
            e = enc_ubx_u1 0 e;
            e = enc_ubx_u1 layers0 e;
            e = enc_ubx_u2 0 e;
            e = enc_ubx_u4 key e;
            e = serialize value e;
            checksum_end = e_pos e;
            checksum_length = checksum_end - checksum_begin;
            e = enc_ubx_u2 (checksum (take checksum_length (drop checksum_begin (e_mem e)))) e
        in (e_pos e - begin0, e))"

end
