(* ===== verification/Ubx_Layout.thy ===== *)
theory Ubx_Layout
  imports Ubx_Messages
begin

text \<open>
  The layout of UBX payloads as the receiver's interface description fixes it (the offsets and
  bit positions noted in the structures of the \<^verbatim>\<open>raw\<close> namespaces), as functions from a message
  to its bytes, and the proof that the \<^verbatim>\<open>parse\<close> functions invert it.
\<close>

section \<open>Bit fields\<close>

definition fits :: "nat \<Rightarrow> u8 \<Rightarrow> bool" where
  "fits k v \<longleftrightarrow> take_bit k v = v"

lemma fits_bit: "fits k v \<Longrightarrow> bit v n \<Longrightarrow> n < k"
  by (metis bit_take_bit_iff fits_def)

definition pack_valid :: "nav_pvt_valid \<Rightarrow> u8" where
  "pack_valid v = valid_date v OR push_bit 1 (valid_time v) OR push_bit 2 (fully_resolved v) OR
     push_bit 3 (valid_mag v)"

definition valid_ok :: "nav_pvt_valid \<Rightarrow> bool" where
  "valid_ok v \<longleftrightarrow> fits 1 (valid_date v) \<and> fits 1 (valid_time v) \<and> fits 1 (fully_resolved v) \<and>
     fits 1 (valid_mag v)"

definition pack_flags :: "nav_pvt_flags \<Rightarrow> u8" where
  "pack_flags v = gnss_fix_ok v OR push_bit 1 (diff_soln v) OR push_bit 2 (psm_state v) OR
     push_bit 5 (head_veh_valid v) OR push_bit 6 (carr_soln v)"

definition flags_ok :: "nav_pvt_flags \<Rightarrow> bool" where
  "flags_ok v \<longleftrightarrow> fits 1 (gnss_fix_ok v) \<and> fits 1 (diff_soln v) \<and> fits 3 (psm_state v) \<and>
     fits 1 (head_veh_valid v) \<and> fits 2 (carr_soln v)"

definition pack_flags2 :: "nav_pvt_flags2 \<Rightarrow> u8" where
  "pack_flags2 v = push_bit 5 (confirmed_avai v) OR push_bit 6 (confirmed_date v) OR
     push_bit 7 (confirmed_time v)"

definition flags2_ok :: "nav_pvt_flags2 \<Rightarrow> bool" where
  "flags2_ok v \<longleftrightarrow> fits 1 (confirmed_avai v) \<and> fits 1 (confirmed_date v) \<and> fits 1 (confirmed_time v)"

definition pack_flags3 :: "nav_pvt_flags3 \<Rightarrow> u8" where
  "pack_flags3 v = invalid_llh v OR push_bit 1 (last_correction_arg v)"

definition flags3_ok :: "nav_pvt_flags3 \<Rightarrow> bool" where
  "flags3_ok v \<longleftrightarrow> fits 1 (invalid_llh v) \<and> fits 4 (last_correction_arg v)"

lemma small_masks: "(0x01 :: u8) = mask 1" "(0x03 :: u8) = mask 2" "(0x07 :: u8) = mask 3"
  "(0x0F :: u8) = mask 4"
  by (simp_all add: mask_eq_exp_minus_1)

lemma field_eqI:
  fixes w v :: u8
  assumes "\<And>n. n < 8 \<Longrightarrow> (n < j \<and> bit w (k + n)) = bit v n"
  shows "drop_bit k w AND mask j = v"
  using assms by (intro bit_word_eqI) (auto simp: bit_simps)

lemma unpack_valid:
  assumes "valid_ok v"
  shows "\<lparr>valid_date = drop_bit 0 (pack_valid v) AND 0x01, valid_time = drop_bit 1 (pack_valid v) AND 0x01,
    fully_resolved = drop_bit 2 (pack_valid v) AND 0x01, valid_mag = drop_bit 3 (pack_valid v) AND 0x01\<rparr> = v"
proof -
  have "drop_bit 0 (pack_valid v) AND mask 1 = valid_date v"
    "drop_bit 1 (pack_valid v) AND mask 1 = valid_time v"
    "drop_bit 2 (pack_valid v) AND mask 1 = fully_resolved v"
    "drop_bit 3 (pack_valid v) AND mask 1 = valid_mag v"
    by (rule field_eqI; use assms in \<open>auto simp: valid_ok_def pack_valid_def bit_or_iff bit_push_bit_iff
        simp del: push_bit_Suc dest: fits_bit\<close>)+
  then show ?thesis unfolding small_masks by (cases v) simp
qed

lemma unpack_flags:
  assumes "flags_ok v"
  shows "\<lparr>gnss_fix_ok = drop_bit 0 (pack_flags v) AND 0x01, diff_soln = drop_bit 1 (pack_flags v) AND 0x01,
    psm_state = drop_bit 2 (pack_flags v) AND 0x07, head_veh_valid = drop_bit 5 (pack_flags v) AND 0x01,
    carr_soln = drop_bit 6 (pack_flags v) AND 0x03\<rparr> = v"
proof -
  have "drop_bit 0 (pack_flags v) AND mask 1 = gnss_fix_ok v"
    "drop_bit 1 (pack_flags v) AND mask 1 = diff_soln v"
    "drop_bit 2 (pack_flags v) AND mask 3 = psm_state v"
    "drop_bit 5 (pack_flags v) AND mask 1 = head_veh_valid v"
    "drop_bit 6 (pack_flags v) AND mask 2 = carr_soln v"
    by (rule field_eqI; use assms in \<open>auto simp: flags_ok_def pack_flags_def bit_or_iff bit_push_bit_iff
        simp del: push_bit_Suc dest: fits_bit\<close>)+
  then show ?thesis unfolding small_masks by (cases v) simp
qed

lemma unpack_flags2:
  assumes "flags2_ok v"
  shows "\<lparr>confirmed_avai = drop_bit 5 (pack_flags2 v) AND 0x01,
    confirmed_date = drop_bit 6 (pack_flags2 v) AND 0x01,
    confirmed_time = drop_bit 7 (pack_flags2 v) AND 0x01\<rparr> = v"
proof -
  have "drop_bit 5 (pack_flags2 v) AND mask 1 = confirmed_avai v"
    "drop_bit 6 (pack_flags2 v) AND mask 1 = confirmed_date v"
    "drop_bit 7 (pack_flags2 v) AND mask 1 = confirmed_time v"
    by (rule field_eqI; use assms in \<open>auto simp: flags2_ok_def pack_flags2_def bit_or_iff bit_push_bit_iff
        simp del: push_bit_Suc dest: fits_bit\<close>)+
  then show ?thesis unfolding small_masks by (cases v) simp
qed

lemma unpack_flags3:
  assumes "flags3_ok v"
  shows "\<lparr>invalid_llh = drop_bit 0 (pack_flags3 v) AND 0x01,
    last_correction_arg = drop_bit 1 (pack_flags3 v) AND 0x0F\<rparr> = v"
proof -
  have "drop_bit 0 (pack_flags3 v) AND mask 1 = invalid_llh v"
    "drop_bit 1 (pack_flags3 v) AND mask 4 = last_correction_arg v"
    by (rule field_eqI; use assms in \<open>auto simp: flags3_ok_def pack_flags3_def bit_or_iff bit_push_bit_iff
        simp del: push_bit_Suc dest: fits_bit\<close>)+
  then show ?thesis unfolding small_masks by (cases v) simp
qed

lemma unpack_two:
  assumes "fits 1 a" and "fits j b" and "j < 7"
  shows "drop_bit 0 (a OR push_bit 1 b) AND mask 1 = a"
    and "drop_bit 1 (a OR push_bit 1 b) AND mask j = b"
  by (rule field_eqI; use assms in \<open>auto simp: bit_or_iff bit_push_bit_iff
      simp del: push_bit_Suc dest: fits_bit\<close>)+

section \<open>UBX-NAV-PVT\<close>

definition nav_pvt_bytes :: "nav_pvt \<Rightarrow> u8 list" where
  "nav_pvt_bytes p =
     le4 (i_tow p) @ le2 (year p) @ le1 (month p) @ le1 (day p) @ le1 (hour p) @ le1 (min_utc p) @
     le1 (sec p) @ le1 (pack_valid (pvt_valid p)) @ le4 (t_acc p) @ si4 (nano p) @ le1 (fix_type p) @
     le1 (pack_flags (pvt_flags p)) @ le1 (pack_flags2 (pvt_flags2 p)) @ le1 (num_sv p) @
     si4 (lon p) @ si4 (lat p) @ si4 (height_mm p) @ si4 (h_msl p) @ le4 (h_acc p) @ le4 (v_acc p) @
     si4 (vel_n p) @ si4 (vel_e p) @ si4 (vel_d p) @ si4 (g_speed p) @ si4 (head_mot p) @
     le4 (s_acc p) @ le4 (head_acc p) @ le2 (p_dop p) @ le1 (pack_flags3 (pvt_flags3 p)) @
     [0] @ [0, 0, 0, 0] @ si4 (head_veh p) @ si2 (mag_dec p) @ le2 (mag_acc p)"

definition nav_pvt_ok :: "nav_pvt \<Rightarrow> bool" where
  "nav_pvt_ok p \<longleftrightarrow> valid_ok (pvt_valid p) \<and> flags_ok (pvt_flags p) \<and> flags2_ok (pvt_flags2 p) \<and>
     flags3_ok (pvt_flags3 p) \<and>
     list_all (in_range 31) [nano p, lon p, lat p, height_mm p, h_msl p, vel_n p, vel_e p, vel_d p,
       g_speed p, head_mot p, head_veh p] \<and> in_range 15 (mag_dec p)"

lemma length_nav_pvt_bytes: "length (nav_pvt_bytes p) = 92"
  by (simp add: nav_pvt_bytes_def)

lemma dec_skip_reading: "k \<le> n \<Longrightarrow> length s = k \<Longrightarrow> dec_skip k (reading (s @ m) n e) = reading m (n - k) e"
  by (cases "n < k") (auto simp: dec_skip_def advance_reading)

text \<open>
  The two bytes of flags at offset 0x4E are read as one, so the three members after the
  reserved bytes are read one byte too early.
\<close>

definition nav_pvt_misread :: "nav_pvt \<Rightarrow> nav_pvt" where
  "nav_pvt_misread p =
     (let hv = word_of_int (head_veh p) :: u32; md = word_of_int (mag_dec p) :: u16
      in p\<lparr>head_veh := sint (push_bit 8 hv),
           mag_dec := sint (ucast (drop_bit 24 hv) OR push_bit 8 md),
           mag_acc := drop_bit 8 md OR push_bit 8 (mag_acc p)\<rparr>)"

lemma shifted_tail:
  fixes hv :: u32 and md ma :: u16
  shows "0 # le4 hv @ le2 md @ le2 ma = le4 (push_bit 8 hv) @ le2 (ucast (drop_bit 24 hv) OR push_bit 8 md) @
    le2 (drop_bit 8 md OR push_bit 8 ma) @ [ucast (drop_bit 8 ma)]"
  unfolding le4_def le2_def append_Cons append_Nil list.inject
  by (intro conjI refl; rule bit_word_eqI; auto simp: bit_simps dest: bit_imp_le_length)

lemma dec_i_le:
  "4 \<le> n \<Longrightarrow> dec_i4 (reading (le4 v @ m) n e) = (sint v, reading m (n - 4) e)"
  "2 \<le> n \<Longrightarrow> dec_i2 (reading (le2 w @ m) n e) = (sint w, reading m (n - 2) e)"
  by (simp_all add: dec_i4_def dec_i2_def codec_simps)

lemma parse_nav_pvt_bytes:
  assumes "nav_pvt_ok p"
  shows "parse_nav_pvt (reading (nav_pvt_bytes p @ m) 92 False) data
    = Value (UbxNavPvt (nav_pvt_misread p) data)"
proof -
  have skip4: "4 \<le> n \<Longrightarrow> dec_skip 4 (reading (0 # 0 # 0 # 0 # m) n e) = reading m (n - 4) e" for m n e
    using dec_skip_reading [of 4 n "[0, 0, 0, 0]" m e] by simp
  have tail: "0 # si4 hv @ si2 md @ le2 ma @ m
      = le4 (push_bit 8 (word_of_int hv)) @ le2 (ucast (drop_bit 24 (word_of_int hv :: u32)) OR
        push_bit 8 (word_of_int md)) @ le2 (drop_bit 8 (word_of_int md) OR push_bit 8 ma) @
        [ucast (drop_bit 8 ma)] @ m" for hv md ma
    using arg_cong [OF shifted_tail [of "word_of_int hv" "word_of_int md" ma], of "\<lambda>xs. xs @ m"]
    by (simp add: si4_def si2_def)
  show ?thesis
    using assms
    by (simp add: parse_nav_pvt_def nav_pvt_bytes_def nav_pvt_ok_def codec_simps skip4 tail
        unpack_valid [simplified] unpack_flags [simplified] unpack_flags2 [simplified]
        unpack_flags3 [simplified] dec_i_le)
      (simp add: nav_pvt_misread_def Let_def)
qed

section \<open>Acknowledgements\<close>

lemma parse_ack_bytes:
  "parse_ack_ack (reading (le1 (cls_id a) @ le1 (msg_id a) @ m) 2 False) data = Value (UbxAckAck a data)"
  "parse_ack_nak (reading (le1 (cls_id a) @ le1 (msg_id a) @ m) 2 False) data = Value (UbxAckNak a data)"
  by (simp_all add: parse_ack_ack_def parse_ack_nak_def codec_simps)

section \<open>UBX-RXM-SFRBX\<close>

definition sfrbx_bytes :: "rxm_sfrbx \<Rightarrow> u32 list \<Rightarrow> u8 list" where
  "sfrbx_bytes p ws =
     le1 (sf_gnss_id p) @ le1 (sf_sv_id p) @ le1 (sf_sig_id p) @ le1 (sf_freq_id p) @
     le1 (num_words p) @ le1 (chn p) @ le1 (sf_version p) @ le1 (sf_reserved0 p) @
     concat (map le4 ws)"

lemma length_concat_le4 [simp]: "length (concat (map le4 ws)) = 4 * length ws"
  by (induction ws) auto

lemma parse_words_codec: "parse_words n d = u4.get_list n d"
  by (induction n arbitrary: d) (auto simp: split_beta Let_def)

lemma parse_sfrbx_bytes:
  assumes "unat (num_words p) = length ws" and "sf_version p = 2"
  shows "parse_rxm_sfrbx (reading (sfrbx_bytes p ws @ m) (8 + 4 * length ws) False) data
    = Value (UbxRxmSfrbx p ws data)"
  using assms u4.get_list_bytes [of ws "4 * length ws" m False]
  by (simp add: parse_rxm_sfrbx_def sfrbx_bytes_def codec_simps parse_words_codec list_all_iff)

section \<open>UBX-RXM-RAWX\<close>

definition measurement_bytes :: "rxm_rawx_measurement \<Rightarrow> u8 list" where
  "measurement_bytes x =
     le8 (pr_mes x) @ le8 (cp_mes x) @ le4 (do_mes x) @ le1 (meas_gnss_id x) @ le1 (meas_sv_id x) @
     le1 (meas_sig_id x) @ le1 (meas_freq_id x) @ le2 (locktime x) @ le1 (cno x) @
     le1 (pr_stdev x) @ le1 (cp_stdev x) @ le1 (do_stdev x) @
     le1 (pr_valid x OR push_bit 1 (cp_valid x) OR push_bit 2 (half_cyc x) OR
       push_bit 3 (sub_half_cyc x)) @
     le1 (meas_reserved0 x)"

definition measurement_ok :: "rxm_rawx_measurement \<Rightarrow> bool" where
  "measurement_ok x \<longleftrightarrow> fits 1 (pr_valid x) \<and> fits 1 (cp_valid x) \<and> fits 1 (half_cyc x) \<and>
     fits 1 (sub_half_cyc x)"

definition rawx_bytes :: "rxm_rawx \<Rightarrow> rxm_rawx_measurement list \<Rightarrow> u8 list" where
  "rawx_bytes p ms =
     le8 (rcv_tow p) @ le2 (rawx_week p) @ si1 (leap_s p) @ le1 (num_meas p) @
     le1 (leap_sec p OR push_bit 1 (clk_reset p)) @ le1 (rawx_version p) @ le2 (rawx_reserved0 p) @
     concat (map measurement_bytes ms)"

definition rawx_ok :: "rxm_rawx \<Rightarrow> rxm_rawx_measurement list \<Rightarrow> bool" where
  "rawx_ok p ms \<longleftrightarrow> unat (num_meas p) = length ms \<and> in_range 7 (leap_s p) \<and>
     fits 1 (leap_sec p) \<and> fits 1 (clk_reset p) \<and> list_all measurement_ok ms"

lemma length_measurement_bytes [simp]: "length (measurement_bytes x) = 32"
  by (simp add: measurement_bytes_def)

lemma unpack_trk:
  assumes "measurement_ok x"
  shows "drop_bit 0 (pr_valid x OR push_bit 1 (cp_valid x) OR push_bit 2 (half_cyc x) OR
      push_bit 3 (sub_half_cyc x)) AND mask 1 = pr_valid x"
    "drop_bit 1 (pr_valid x OR push_bit 1 (cp_valid x) OR push_bit 2 (half_cyc x) OR
      push_bit 3 (sub_half_cyc x)) AND mask 1 = cp_valid x"
    "drop_bit 2 (pr_valid x OR push_bit 1 (cp_valid x) OR push_bit 2 (half_cyc x) OR
      push_bit 3 (sub_half_cyc x)) AND mask 1 = half_cyc x"
    "drop_bit 3 (pr_valid x OR push_bit 1 (cp_valid x) OR push_bit 2 (half_cyc x) OR
      push_bit 3 (sub_half_cyc x)) AND mask 1 = sub_half_cyc x"
  by (rule field_eqI; use assms in \<open>auto simp: measurement_ok_def bit_or_iff bit_push_bit_iff
      simp del: push_bit_Suc dest: fits_bit\<close>)+

lemma parse_measurement_bytes:
  assumes "measurement_ok x" and "32 \<le> n"
  shows "parse_measurement (reading (measurement_bytes x @ m) n e) = (x, reading m (n - 32) e)"
  using assms(2) unpack_trk [OF assms(1)]
  by (simp add: parse_measurement_def measurement_bytes_def codec_simps)

lemma parse_measurements_bytes:
  "list_all measurement_ok ms \<Longrightarrow> 32 * length ms \<le> n \<Longrightarrow>
    parse_measurements (length ms) (reading (concat (map measurement_bytes ms) @ m) n False)
      = Some (ms, reading m (n - 32 * length ms) False)"
proof (induction ms arbitrary: n)
  case Nil
  then show ?case by simp
next
  case (Cons x ms)
  have "parse_measurement (reading (measurement_bytes x @ concat (map measurement_bytes ms) @ m) n False)
      = (x, reading (concat (map measurement_bytes ms) @ m) (n - 32) False)"
    using Cons.prems by (intro parse_measurement_bytes) auto
  then show ?case using Cons.IH [of "n - 32"] Cons.prems by simp
qed

lemma parse_rawx_bytes:
  assumes "rawx_ok p ms"
  shows "parse_rxm_rawx (reading (rawx_bytes p ms @ m) (16 + 32 * length ms) False) data
    = Value (UbxRxmRawx p ms data)"
proof -
  have "drop_bit 0 (leap_sec p OR push_bit 1 (clk_reset p)) AND mask 1 = leap_sec p"
    "drop_bit 1 (leap_sec p OR push_bit 1 (clk_reset p)) AND mask 1 = clk_reset p"
    using assms by (simp_all only: rawx_ok_def unpack_two [of _ 1])
  then show ?thesis
    using assms parse_measurements_bytes [of ms "32 * length ms" m]
    by (simp add: parse_rxm_rawx_def rawx_bytes_def rawx_ok_def codec_simps)
qed

section \<open>UBX-RXM-RTCM and UBX-RXM-SPARTN\<close>

definition rxm_rtcm_bytes :: "u8 \<Rightarrow> rxm_rtcm_v2 \<Rightarrow> u8 list" where
  "rxm_rtcm_bytes version v =
     le1 version @ le1 (rtcm_crc_failed v OR push_bit 1 (rtcm_msg_used v)) @
     le2 (rtcm_sub_type v) @ le2 (ref_station v) @ le2 (rtcm_msg_type v)"

definition rxm_spartn_bytes :: "u8 \<Rightarrow> rxm_spartn_v1 \<Rightarrow> u8 list" where
  "rxm_spartn_bytes version v =
     le1 version @ le1 (spartn_crc_failed v OR push_bit 1 (spartn_msg_used v)) @
     le2 (spartn_sub_type v) @ le2 (padding04 v) @ le2 (spartn_msg_type v)"

lemma parse_rxm_rtcm_bytes:
  assumes "fits 1 (rtcm_crc_failed v)" and "fits 2 (rtcm_msg_used v)"
  shows "parse_rxm_rtcm (reading (rxm_rtcm_bytes 2 v @ m) 8 False) data
    = Value (UbxRxmRtcm \<lparr>rtcm_version = 2, rtcm_v2 = Some v\<rparr> data)"
  using unpack_two [OF assms] unfolding small_masks [symmetric]
  by (simp add: parse_rxm_rtcm_def rxm_rtcm_bytes_def codec_simps)

lemma parse_rxm_spartn_bytes:
  assumes "fits 1 (spartn_crc_failed v)" and "fits 2 (spartn_msg_used v)"
  shows "parse_rxm_spartn (reading (rxm_spartn_bytes 1 v @ m) 8 False) data
    = Value (UbxRxmSpartn \<lparr>spartn_version = 1, spartn_v1 = Some v\<rparr> data)"
  using unpack_two [OF assms] unfolding small_masks [symmetric]
  by (simp add: parse_rxm_spartn_def rxm_spartn_bytes_def codec_simps)

section \<open>UBX-CFG-VALGET\<close>

fun value_bytes :: "cfg_value \<Rightarrow> u8 list" where
  "value_bytes (Cfg_L v) = bool1 v"
| "value_bytes (Cfg_U1 v) = le1 v"
| "value_bytes (Cfg_U2 v) = le2 v"
| "value_bytes (Cfg_U4 v) = le4 v"
| "value_bytes (Cfg_U8 v) = le8 v"

definition kv_bytes :: "u32 \<times> cfg_value \<Rightarrow> u8 list" where
  "kv_bytes kv = le4 (fst kv) @ value_bytes (snd kv)"

definition kv_ok :: "u32 \<times> cfg_value \<Rightarrow> bool" where
  "kv_ok kv \<longleftrightarrow> type_from_key (fst kv) = cfg_type_of (snd kv)"

lemma length_value_bytes [simp]: "length (value_bytes v) = size_from_type (cfg_type_of v)"
  by (cases v) simp_all

lemma size_from_type_pos: "0 < size_from_type (cfg_type_of v)"
  by (cases v) simp_all

lemma parse_from_type_bytes:
  "size_from_type (cfg_type_of v) \<le> n \<Longrightarrow>
    parse_from_type (cfg_type_of v) (reading (value_bytes v @ m) n e)
      = Some (v, reading m (n - size_from_type (cfg_type_of v)) e)"
  by (cases v) (simp_all add: codec_simps)

lemma parse_from_key_type: "parse_from_key key d = parse_from_type (type_from_key key) d"
  by (simp add: parse_from_key_def type_from_key_def)

lemma valget_loop_bytes:
  assumes "list_all kv_ok kvs" and "r \<le> 4"
  shows "valget_loop (reading (concat (map kv_bytes kvs) @ m) (length (concat (map kv_bytes kvs)) + r) False) vs
    = Some (map_of kvs ++ vs, reading m r False)"
  using assms(1)
proof (induction kvs arbitrary: vs)
  case Nil
  then show ?case using assms(2) by (simp add: valget_loop.simps)
next
  case (Cons kv kvs)
  obtain k v where kv: "kv = (k, v)" by (cases kv)
  let ?rest = "concat (map kv_bytes kvs)" and ?s = "size_from_type (cfg_type_of v)"
  have "4 < 4 + ?s + length ?rest + r" using size_from_type_pos [of v] by simp
  moreover have "dec_u4 (reading (le4 k @ value_bytes v @ ?rest @ m) (4 + ?s + length ?rest + r) False)
      = (k, reading (value_bytes v @ ?rest @ m) (?s + length ?rest + r) False)"
    using u4.get_bytes [of "4 + ?s + length ?rest + r" k "value_bytes v @ ?rest @ m" False] by simp
  moreover have "parse_from_key k (reading (value_bytes v @ ?rest @ m) (?s + length ?rest + r) False)
      = Some (v, reading (?rest @ m) (length ?rest + r) False)"
    using Cons.prems parse_from_type_bytes [of v "?s + length ?rest + r" "?rest @ m" False]
    by (simp add: parse_from_key_type kv kv_ok_def)
  moreover have "map_of (kv # kvs) ++ vs = map_of kvs ++ (if vs k = None then vs(k \<mapsto> v) else vs)"
    by (auto simp: kv map_add_def fun_eq_iff split: option.splits)
  moreover have "kv_bytes (k, v) = le4 k @ value_bytes v" by (simp add: kv_bytes_def)
  ultimately show ?case
    using Cons.IH [of "if vs k = None then vs(k \<mapsto> v) else vs"] Cons.prems
    by (subst valget_loop.simps) (simp add: kv add.assoc split del: if_split)
qed

definition valget_bytes :: "cfg_valget \<Rightarrow> (u32 \<times> cfg_value) list \<Rightarrow> u8 list" where
  "valget_bytes p kvs =
     le1 (valget_version p) @ le1 (layers p) @ le2 (position p) @ concat (map kv_bytes kvs)"

lemma parse_valget_bytes:
  assumes "list_all kv_ok kvs" and "cfg_values p = map_of kvs"
  shows "parse_cfg_valget (reading (valget_bytes p kvs @ m) (length (valget_bytes p kvs)) False) data
    = Value (UbxCfgValget p data)"
  using assms valget_loop_bytes [OF assms(1), of 0 m "\<lambda>_. None"]
  by (simp add: parse_cfg_valget_def valget_bytes_def codec_simps map_add_def)

section \<open>UBX-MON-VER\<close>

definition string_bytes :: "nat \<Rightarrow> u8 list \<Rightarrow> u8 list" where
  "string_bytes l s = s @ replicate (l - length s) 0"

definition string_ok :: "nat \<Rightarrow> u8 list \<Rightarrow> bool" where
  "string_ok l s \<longleftrightarrow> length s < l \<and> 0 \<notin> set s"

lemma length_string_bytes [simp]: "string_ok l s \<Longrightarrow> length (string_bytes l s) = l"
  by (simp add: string_ok_def string_bytes_def)

lemma dec_ch_bytes:
  assumes "string_ok l s" and "l \<le> n"
  shows "dec_ch l (reading (string_bytes l s @ m) n e) = Some (s, reading m (n - l) e)"
proof -
  obtain j where j: "l - length s = Suc j" using assms(1) by (cases "l - length s") (auto simp: string_ok_def)
  have "takeWhile (\<lambda>b. b \<noteq> 0) (string_bytes l s @ m) = s"
    using assms(1) by (simp add: string_bytes_def string_ok_def j takeWhile_append)
  moreover have "0 \<in> set (string_bytes l s @ m)" by (simp add: string_bytes_def j)
  moreover have "drop l (string_bytes l s @ m) = m" using assms(1) by simp
  ultimately show ?thesis using assms(2) by (simp add: dec_ch_def advance_reading)
qed

definition mon_ver_bytes :: "mon_ver \<Rightarrow> u8 list" where
  "mon_ver_bytes p = string_bytes 30 (sw_version p) @ string_bytes 10 (hw_version p) @
     concat (map (string_bytes 30) (extensions p))"

definition mon_ver_ok :: "mon_ver \<Rightarrow> bool" where
  "mon_ver_ok p \<longleftrightarrow> string_ok 30 (sw_version p) \<and> string_ok 10 (hw_version p) \<and>
     list_all (string_ok 30) (extensions p)"

lemma parse_extensions_bytes:
  "list_all (string_ok 30) ss \<Longrightarrow> 30 * length ss \<le> n \<Longrightarrow>
    parse_extensions (length ss) (reading (concat (map (string_bytes 30) ss) @ m) n e)
      = Some (ss, reading m (n - 30 * length ss) e)"
proof (induction ss arbitrary: n)
  case Nil
  then show ?case by simp
next
  case (Cons s ss)
  have "dec_ch 30 (reading (string_bytes 30 s @ concat (map (string_bytes 30) ss) @ m) n e)
      = Some (s, reading (concat (map (string_bytes 30) ss) @ m) (n - 30) e)"
    using Cons.prems by (intro dec_ch_bytes) auto
  then show ?case using Cons.IH [of "n - 30"] Cons.prems by simp
qed

lemma parse_mon_ver_bytes:
  assumes "mon_ver_ok p"
  shows "parse_mon_ver (reading (mon_ver_bytes p @ m) (40 + 30 * length (extensions p)) False) data
    = Value (UbxMonVer p data)"
  using assms dec_ch_bytes [of 30 "sw_version p"] dec_ch_bytes [of 10 "hw_version p"]
    parse_extensions_bytes [of "extensions p" "30 * length (extensions p)" m False]
  by (simp add: parse_mon_ver_def mon_ver_bytes_def mon_ver_ok_def)

end
