(* ===== verification/Ubx_Parser.thy ===== *)
theory Ubx_Parser
  imports Ring_Buffer Ubx_Layout
begin

text \<open>
  The UBX transport layer (format/ubx/parser.cpp): the search for the frame boundary, the
  length, the checksum and the dispatch on class and id, with the stack buffer of 8192 bytes
  the frame is copied into, and its specification on the sequence of unread bytes.
\<close>

section \<open>The parser\<close>

definition ubx_buffer_size :: nat where
  "ubx_buffer_size = 8192"

definition is_frame_boundary :: "ring \<Rightarrow> bool" where
  "is_frame_boundary p \<longleftrightarrow>
     (if buffer_length p < 2 then False
      else if peek p 0 \<noteq> 0xB5 then False
      else if peek p 1 \<noteq> 0x62 then False
      else True)"

definition checksum_message :: "u8 list \<Rightarrow> u16" where
  "checksum_message message = checksum (take (length message - 4) (drop 2 message))"

definition ubx_dispatch :: "u8 \<Rightarrow> u8 \<Rightarrow> ubx_decoder \<Rightarrow> u8 list \<Rightarrow> ubx_message outcome" where
  "ubx_dispatch message_class message_id decoder data =
     (let type = push_bit 8 (ucast message_class :: u16) OR ucast message_id
      in if type = 0x0107 then parse_nav_pvt decoder data
         else if type = 0x0A04 then parse_mon_ver decoder data
         else if type = 0x068B then parse_cfg_valget decoder data
         else if type = 0x0501 then parse_ack_ack decoder data
         else if type = 0x0500 then parse_ack_nak decoder data
         else if type = 0x0213 then parse_rxm_sfrbx decoder data
         else if type = 0x0215 then parse_rxm_rawx decoder data
         else if type = 0x0232 then parse_rxm_rtcm decoder data
         else if type = 0x0233 then parse_rxm_spartn decoder data
         else Value (UbxUnsupported message_class message_id data))"

text \<open>
  What follows the search.  \<open>stale\<close> is what the stack buffer holds before the copy.  A frame
  longer than the buffer overruns it.
\<close>

definition ubx_parse_frame :: "u8 list \<Rightarrow> ring \<Rightarrow> ubx_message outcome \<times> ring" where
  "ubx_parse_frame stale p =
     (if buffer_length p < 8 then (Null, p)
      else
        let buffer = overwrite stale 0 (copy_to_buffer p 6);
            header_decoder = dec_skip 2 (reading buffer 6 False);
            (message_class, header_decoder) = dec_u1 header_decoder;
            (message_id, header_decoder) = dec_u1 header_decoder;
            (length16, header_decoder) = dec_u2 header_decoder;
            len = unat length16
        in if len > 8192 then (Null, skip p 2)
           else if buffer_length p < len + 8 then (Null, p)
           else if len + 8 > ubx_buffer_size then (Undefined, p)
           else
             let buffer = overwrite buffer 0 (copy_to_buffer p (len + 8));
                 message = take (len + 8) buffer;
                 calculated_checksum = checksum_message message;
                 expected_checksum =
                   push_bit 8 (ucast (buffer ! (len + 7)) :: u16) OR ucast (buffer ! (len + 6))
             in if calculated_checksum \<noteq> expected_checksum then (Null, skip p 2)
                else (ubx_dispatch message_class message_id
                        (reading (drop 6 buffer) len False) message, skip p (len + 8)))"

definition ubx_try_parse :: "u8 list \<Rightarrow> ring \<Rightarrow> (ubx_message outcome \<times> ring) option" where
  "ubx_try_parse stale p =
     map_option (ubx_parse_frame stale)
       (while_option (\<lambda>p. 8 \<le> buffer_length p \<and> \<not> is_frame_boundary p) (\<lambda>p. skip p 1) p)"

section \<open>The parser as a function on the unread bytes\<close>

definition ubx_head :: "u8 list \<Rightarrow> bool" where
  "ubx_head bs \<longleftrightarrow> bs ! 0 = 0xB5 \<and> bs ! 1 = 0x62"

definition le16 :: "u8 \<Rightarrow> u8 \<Rightarrow> u16" where
  "le16 lo hi = push_bit 8 (ucast hi) OR ucast lo"

definition ubx_frame_spec :: "u8 list \<Rightarrow> u8 list \<Rightarrow> ubx_message outcome \<times> u8 list" where
  "ubx_frame_spec stale bs =
     (if length bs < 8 then (Null, bs)
      else
        let n = unat (le16 (bs ! 4) (bs ! 5))
        in if n > 8192 then (Null, drop 2 bs)
           else if length bs < n + 8 then (Null, bs)
           else if n + 8 > 8192 then (Undefined, bs)
           else
             let f = take (n + 8) bs
             in if checksum (take (n + 4) (drop 2 f)) \<noteq> le16 (f ! (n + 6)) (f ! (n + 7))
                then (Null, drop 2 bs)
                else (ubx_dispatch (bs ! 2) (bs ! 3)
                        (reading (drop 6 f @ drop (n + 8) stale) n False) f, drop (n + 8) bs))"

definition ubx_spec :: "u8 list \<Rightarrow> u8 list \<Rightarrow> ubx_message outcome \<times> u8 list" where
  "ubx_spec stale bs = ubx_frame_spec stale (search 8 ubx_head bs)"

lemma is_frame_boundary_head:
  "ring_ok s \<Longrightarrow> 8 \<le> length (contents s) \<Longrightarrow> is_frame_boundary s = ubx_head (contents s)"
  by (simp add: is_frame_boundary_def ubx_head_def ring.pk_eq)

lemma ubx_header:
  assumes "b = overwrite stale 0 (take 6 bs)" and "8 \<le> length bs"
  shows "dec_skip 2 (reading b 6 False) = reading (drop 2 b) 4 False"
    "dec_u1 (reading (drop 2 b) 4 False) = (bs ! 2, reading (drop 3 b) 3 False)"
    "dec_u1 (reading (drop 3 b) 3 False) = (bs ! 3, reading (drop 4 b) 2 False)"
    "fst (dec_u2 (reading (drop 4 b) 2 False)) = le16 (bs ! 4) (bs ! 5)"
  using assms
  by (simp_all add: dec_skip_def advance_reading dec_u1_def dec_x1_def dec_u2_def dec_x2_def
      overwrite_def nth_append le16_def eval_nat_numeral)

lemma ubx_parse_frame_refines:
  assumes ok: "ring_ok s" and stale: "length stale = 8192"
  shows "(fst (ubx_parse_frame stale s), contents (snd (ubx_parse_frame stale s)))
      = ubx_frame_spec stale (contents s) \<and> ring_ok (snd (ubx_parse_frame stale s))"
proof (cases "buffer_length s < 8")
  case True
  with ok show ?thesis by (simp add: ubx_parse_frame_def ubx_frame_spec_def)
next
  case False
  let ?c = "contents s" and ?n = "unat (le16 (contents s ! 4) (contents s ! 5))"
  let ?b = "overwrite stale 0 (take 6 (contents s))"
  have n: "?n < 65536" using unsigned_less [of "le16 (?c ! 4) (?c ! 5)"] by simp
  then have n32: "?n + 8 < 2 ^ 32" unfolding pow32 by linarith
  have c6: "copy_to_buffer s 6 = take 6 ?c" using ok by (intro ring.cpy_eq) simp_all
  have cn: "copy_to_buffer s (?n + 8) = take (?n + 8) ?c" using ok n32 by (rule ring.cpy_eq)
  have head: "8 \<le> length ?c" using False by simp
  have buf: "overwrite ?b 0 (take (?n + 8) ?c) = take (?n + 8) ?c @ drop (?n + 8) stale"
    if "?n + 8 \<le> length ?c"
    using that stale head by (simp add: overwrite_def add.commute)
  obtain d where d: "dec_u2 (reading (drop 4 ?b) 2 False) = (le16 (?c ! 4) (?c ! 5), d)"
    using ubx_header(4) [OF refl head, of stale] by (metis prod.collapse)
  have msg: "take (?n + 8) (take (?n + 8) ?c @ drop (?n + 8) stale) = take (?n + 8) ?c"
    "(take (?n + 8) ?c @ drop (?n + 8) stale) ! (?n + 7) = take (?n + 8) ?c ! (?n + 7)"
    "(take (?n + 8) ?c @ drop (?n + 8) stale) ! (?n + 6) = take (?n + 8) ?c ! (?n + 6)"
    "drop 6 (take (?n + 8) ?c @ drop (?n + 8) stale) = drop 6 (take (?n + 8) ?c) @ drop (?n + 8) stale"
    "checksum_message (take (?n + 8) ?c) = checksum (take (?n + 4) (drop 2 (take (?n + 8) ?c)))"
    if "?n + 8 \<le> length ?c"
    using that by (simp_all add: nth_append checksum_message_def add.commute)
  show ?thesis
  proof (cases "?n + 8 \<le> length ?c")
    case True
    show ?thesis
      using False ok
      unfolding ubx_parse_frame_def ubx_frame_spec_def Let_def c6 ubx_header [OF refl head]
        split_beta fst_conv snd_conv d cn buf [OF True] msg [OF True] le16_def [symmetric]
        ubx_buffer_size_def
      by (simp add: ring.skp_bytes ring.skp_invar)
  next
    case False
    then show ?thesis
      using \<open>\<not> buffer_length s < 8\<close> ok
      unfolding ubx_parse_frame_def ubx_frame_spec_def Let_def c6 ubx_header [OF refl head]
        split_beta fst_conv snd_conv d
      by (simp add: ring.skp_bytes ring.skp_invar)
  qed
qed

lemma ubx_result:
  assumes "ring_ok p" and "length stale = 8192" and "ubx_spec stale (contents p) = (r, bs)"
  shows "\<exists>p'. ubx_try_parse stale p = Some (r, p') \<and> ring_ok p' \<and> contents p' = bs"
proof -
  obtain s where s: "while_option (\<lambda>p. 8 \<le> buffer_length p \<and> \<not> is_frame_boundary p)
      (\<lambda>p. skip p 1) p = Some s" "ring_ok s" "contents s = search 8 ubx_head (contents p)"
    using ring.sync_loop [where f = is_frame_boundary and g = ubx_head and k = 8,
        OF assms(1) _ is_frame_boundary_head] by auto
  have "(fst (ubx_parse_frame stale s), contents (snd (ubx_parse_frame stale s))) = (r, bs)
      \<and> ring_ok (snd (ubx_parse_frame stale s))"
    using ubx_parse_frame_refines [OF s(2) assms(2)] assms(3) s(3) by (simp add: ubx_spec_def)
  then show ?thesis
    using s by (intro exI [of _ "snd (ubx_parse_frame stale s)"])
      (auto simp: ubx_try_parse_def prod_eq_iff)
qed

section \<open>Frames and their messages\<close>

definition ubx_body :: "u8 \<Rightarrow> u8 \<Rightarrow> u8 list \<Rightarrow> u8 list" where
  "ubx_body c i payload = [c, i] @ le2 (word_of_nat (length payload)) @ payload"

definition ubx_frame :: "u8 \<Rightarrow> u8 \<Rightarrow> u8 list \<Rightarrow> u8 list" where
  "ubx_frame c i payload = [0xB5, 0x62] @ ubx_body c i payload @ le2 (checksum (ubx_body c i payload))"

lemma le16_le2: "le2 v = [a, b] \<Longrightarrow> le16 a b = v"
  using join2 [of v] by (auto simp: le2_def le16_def)

lemma ubx_frame_spec_frame:
  assumes "length payload \<le> 8184"
  shows "ubx_frame_spec stale (ubx_frame c i payload @ rest)
    = (ubx_dispatch c i (reading (payload @ le2 (checksum (ubx_body c i payload)) @
         drop (length payload + 8) stale) (length payload) False) (ubx_frame c i payload), rest)"
proof -
  let ?n = "length payload" and ?f = "ubx_frame c i payload"
  obtain l0 l1 where l: "le2 (word_of_nat ?n) = [l0, l1]" by (simp add: le2_def)
  obtain k0 k1 where k: "le2 (checksum (ubx_body c i payload)) = [k0, k1]" by (simp add: le2_def)
  have f: "?f = [0xB5, 0x62, c, i, l0, l1] @ payload @ [k0, k1]"
    unfolding ubx_frame_def k by (simp add: ubx_body_def l)
  have n: "unat (le16 l0 l1) = ?n"
    using assms le16_le2 [OF l] by (simp add: unsigned_of_nat take_bit_nat_eq_self)
  have body: "take (?n + 4) (drop 2 ?f) = ubx_body c i payload"
    by (simp add: f ubx_body_def l eval_nat_numeral)
  have ck: "checksum (ubx_body c i payload) = le16 k0 k1" using le16_le2 [OF k] by simp
  have nth: "(?f @ rest) ! 2 = c" "(?f @ rest) ! 3 = i" "(?f @ rest) ! 4 = l0" "(?f @ rest) ! 5 = l1"
    "?f ! (?n + 6) = k0" "?f ! (?n + 7) = k1" "length ?f = ?n + 8"
    "drop 6 ?f = payload @ [k0, k1]"
    by (simp_all add: f nth_append)
  show ?thesis
    using assms unfolding ubx_frame_spec_def Let_def nth n k
    by (simp add: nth body ck)
qed

lemma ubx_search_frame:
  assumes "0xB5 \<notin> set junk"
  shows "search 8 ubx_head (junk @ ubx_frame c i payload @ rest) = ubx_frame c i payload @ rest"
proof -
  have "search 8 ubx_head (junk @ ubx_frame c i payload @ rest)
      = search 8 ubx_head (ubx_frame c i payload @ rest)"
  proof (rule search_append_miss)
    fix j assume "j < length junk"
    then have "drop j (junk @ ubx_frame c i payload @ rest)
        = junk ! j # drop (Suc j) junk @ ubx_frame c i payload @ rest"
      by (simp add: Cons_nth_drop_Suc)
    then show "\<not> ubx_head (drop j (junk @ ubx_frame c i payload @ rest))"
      using assms nth_mem [OF \<open>j < length junk\<close>] by (auto simp: ubx_head_def)
  qed (simp add: ubx_frame_def ubx_body_def)
  also have "\<dots> = ubx_frame c i payload @ rest"
    by (rule search_hit) (simp add: ubx_head_def ubx_frame_def)
  finally show ?thesis .
qed

text \<open>
  \<open>ubx_encodes mk c i payload\<close>: the payload is the documented encoding of a message of class
  \<open>c\<close> and id \<open>i\<close>; with its raw bytes the message is \<open>mk bytes\<close>.  UBX-NAV-PVT is treated apart.
\<close>

inductive ubx_encodes :: "(u8 list \<Rightarrow> ubx_message) \<Rightarrow> u8 \<Rightarrow> u8 \<Rightarrow> u8 list \<Rightarrow> bool" where
  mon_ver: "mon_ver_ok p \<Longrightarrow> ubx_encodes (UbxMonVer p) 0x0A 0x04 (mon_ver_bytes p)"
| cfg_valget: "list_all kv_ok kvs \<Longrightarrow> cfg_values p = map_of kvs \<Longrightarrow>
    ubx_encodes (UbxCfgValget p) 0x06 0x8B (valget_bytes p kvs)"
| ack_ack: "ubx_encodes (UbxAckAck a) 0x05 0x01 (le1 (cls_id a) @ le1 (msg_id a))"
| ack_nak: "ubx_encodes (UbxAckNak a) 0x05 0x00 (le1 (cls_id a) @ le1 (msg_id a))"
| rxm_sfrbx: "unat (num_words q) = length ws \<Longrightarrow> sf_version q = 2 \<Longrightarrow>
    ubx_encodes (UbxRxmSfrbx q ws) 0x02 0x13 (sfrbx_bytes q ws)"
| rxm_rawx: "rawx_ok r ms \<Longrightarrow> ubx_encodes (UbxRxmRawx r ms) 0x02 0x15 (rawx_bytes r ms)"
| rxm_rtcm: "fits 1 (rtcm_crc_failed v) \<Longrightarrow> fits 2 (rtcm_msg_used v) \<Longrightarrow>
    ubx_encodes (UbxRxmRtcm \<lparr>rtcm_version = 2, rtcm_v2 = Some v\<rparr>) 0x02 0x32 (rxm_rtcm_bytes 2 v)"
| rxm_spartn: "fits 1 (spartn_crc_failed w) \<Longrightarrow> fits 2 (spartn_msg_used w) \<Longrightarrow>
    ubx_encodes (UbxRxmSpartn \<lparr>spartn_version = 1, spartn_v1 = Some w\<rparr>) 0x02 0x33 (rxm_spartn_bytes 1 w)"
| unsupported: "(c, i) \<notin> {(0x01, 0x07), (0x0A, 0x04), (0x06, 0x8B), (0x05, 0x01), (0x05, 0x00),
      (0x02, 0x13), (0x02, 0x15), (0x02, 0x32), (0x02, 0x33)} \<Longrightarrow>
    ubx_encodes (UbxUnsupported c i) c i payload"

inductive_cases ubx_encodesE: "ubx_encodes mk c i payload"
inductive_simps ubx_encodes_ack: "ubx_encodes (UbxAckAck a) c i payload"

lemma ubx_type_inject:
  fixes a b c d :: u8
  shows "push_bit 8 (ucast a :: u16) OR ucast b = push_bit 8 (ucast c) OR ucast d \<longleftrightarrow> a = c \<and> b = d"
proof
  assume eq: "push_bit 8 (ucast a :: u16) OR ucast b = push_bit 8 (ucast c) OR ucast d"
  have "bit a n = bit c n" "bit b n = bit d n" if "n < 8" for n
    using arg_cong [OF eq, of "\<lambda>w. bit w (n + 8)"] arg_cong [OF eq, of "\<lambda>w. bit w n"] that
    by (auto simp: bit_simps dest: bit_imp_le_length)
  then show "a = c \<and> b = d" by (auto intro: bit_word_eqI)
qed simp

lemma ubx_types:
  "(push_bit 8 (ucast c :: u16) OR ucast i = 0x0107) = ((c, i) = (0x01, 0x07))"
  "(push_bit 8 (ucast c :: u16) OR ucast i = 0x0A04) = ((c, i) = (0x0A, 0x04))"
  "(push_bit 8 (ucast c :: u16) OR ucast i = 0x068B) = ((c, i) = (0x06, 0x8B))"
  "(push_bit 8 (ucast c :: u16) OR ucast i = 0x0501) = ((c, i) = (0x05, 0x01))"
  "(push_bit 8 (ucast c :: u16) OR ucast i = 0x0500) = ((c, i) = (0x05, 0x00))"
  "(push_bit 8 (ucast c :: u16) OR ucast i = 0x0213) = ((c, i) = (0x02, 0x13))"
  "(push_bit 8 (ucast c :: u16) OR ucast i = 0x0215) = ((c, i) = (0x02, 0x15))"
  "(push_bit 8 (ucast c :: u16) OR ucast i = 0x0232) = ((c, i) = (0x02, 0x32))"
  "(push_bit 8 (ucast c :: u16) OR ucast i = 0x0233) = ((c, i) = (0x02, 0x33))" for c i :: u8
  using ubx_type_inject [of c i 1 7] ubx_type_inject [of c i 10 4]
    ubx_type_inject [of c i 6 139] ubx_type_inject [of c i 5 1] ubx_type_inject [of c i 5 0]
    ubx_type_inject [of c i 2 19] ubx_type_inject [of c i 2 21] ubx_type_inject [of c i 2 50]
    ubx_type_inject [of c i 2 51]
  by simp_all

lemma ubx_dispatch_pairs:
  "ubx_dispatch c i d data =
     (if (c, i) = (0x01, 0x07) then parse_nav_pvt d data
      else if (c, i) = (0x0A, 0x04) then parse_mon_ver d data
      else if (c, i) = (0x06, 0x8B) then parse_cfg_valget d data
      else if (c, i) = (0x05, 0x01) then parse_ack_ack d data
      else if (c, i) = (0x05, 0x00) then parse_ack_nak d data
      else if (c, i) = (0x02, 0x13) then parse_rxm_sfrbx d data
      else if (c, i) = (0x02, 0x15) then parse_rxm_rawx d data
      else if (c, i) = (0x02, 0x32) then parse_rxm_rtcm d data
      else if (c, i) = (0x02, 0x33) then parse_rxm_spartn d data
      else Value (UbxUnsupported c i data))"
  unfolding ubx_dispatch_def Let_def ubx_types ..

lemma length_strings:
  "list_all (string_ok 30) ss \<Longrightarrow> length (concat (map (string_bytes 30) ss)) = 30 * length ss"
  by (induction ss) auto

lemma payload_lengths:
  "mon_ver_ok p \<Longrightarrow> length (mon_ver_bytes p) = 40 + 30 * length (extensions p)"
  "length (sfrbx_bytes q ws) = 8 + 4 * length ws"
  "length (rawx_bytes r ms) = 16 + 32 * length ms"
  "length (rxm_rtcm_bytes a v) = 8" "length (rxm_spartn_bytes b w) = 8"
proof -
  have "length (concat (map measurement_bytes ms)) = 32 * length ms" by (induction ms) auto
  then show "length (rawx_bytes r ms) = 16 + 32 * length ms" by (simp add: rawx_bytes_def)
qed (simp_all add: mon_ver_bytes_def mon_ver_ok_def length_strings sfrbx_bytes_def
      rxm_rtcm_bytes_def rxm_spartn_bytes_def del: length_concat)

lemma ubx_dispatch_encodes:
  assumes "ubx_encodes mk c i payload"
  shows "ubx_dispatch c i (reading (payload @ m) (length payload) False) data = Value (mk data)"
  using assms
proof cases
  case (mon_ver p)
  then show ?thesis
    using parse_mon_ver_bytes [of p m data] by (simp add: ubx_dispatch_pairs payload_lengths)
next
  case (cfg_valget kvs p)
  then show ?thesis using parse_valget_bytes [of kvs p m data] by (simp add: ubx_dispatch_pairs)
next
  case (ack_ack a)
  then show ?thesis using parse_ack_bytes(1) [of a m data, unfolded numeral_2_eq_2]
    by (simp add: ubx_dispatch_pairs)
next
  case (ack_nak a)
  then show ?thesis using parse_ack_bytes(2) [of a m data, unfolded numeral_2_eq_2]
    by (simp add: ubx_dispatch_pairs)
next
  case (rxm_sfrbx q ws)
  then show ?thesis using parse_sfrbx_bytes [of q ws m data]
    by (simp add: ubx_dispatch_pairs payload_lengths)
next
  case (rxm_rawx r ms)
  then show ?thesis using parse_rawx_bytes [of r ms m data]
    by (simp add: ubx_dispatch_pairs payload_lengths)
next
  case (rxm_rtcm v)
  then show ?thesis using parse_rxm_rtcm_bytes [of v m data]
    by (simp add: ubx_dispatch_pairs payload_lengths)
next
  case (rxm_spartn w)
  then show ?thesis using parse_rxm_spartn_bytes [of w m data]
    by (simp add: ubx_dispatch_pairs payload_lengths)
next
  case unsupported
  then show ?thesis unfolding ubx_dispatch_pairs by auto
qed

section \<open>Properties\<close>

definition stale0 :: "u8 list" where
  "stale0 = replicate 8192 0"

lemma length_stale0 [simp]: "length stale0 = 8192"
  by (simp add: stale0_def)

definition ubx_sample_ring :: ring where
  "ubx_sample_ring = snd (append ring_new ([0x24, 0x47] @ ubx_frame 0x05 0x01 [0x06, 0x8A] @ [0x0A]))"

lemma ubx_sample_ring:
  "ring_ok ubx_sample_ring"
  "contents ubx_sample_ring = [0x24, 0x47] @ ubx_frame 0x05 0x01 [0x06, 0x8A] @ [0x0A]"
proof -
  have "length ([0x24, 0x47] @ ubx_frame 0x05 0x01 [0x06, 0x8A] @ [0x0A]) < 131072"
    by (simp add: ubx_frame_def ubx_body_def)
  then show "ring_ok ubx_sample_ring"
    and "contents ubx_sample_ring = [0x24, 0x47] @ ubx_frame 0x05 0x01 [0x06, 0x8A] @ [0x0A]"
    unfolding ubx_sample_ring_def using append_new by blast+
qed

text \<open>On a well-formed ring the UBX parser always returns, keeps the ring well formed, and
  its result (a message, nothing, or a write outside its stack buffer) and the bytes it
  leaves unread are those of the specification on the sequence of unread bytes.\<close>

theorem ubx_try_parse_refines:
  assumes "ring_ok p" and "length stale = 8192"
  shows "\<exists>r p'. ubx_try_parse stale p = Some (r, p') \<and> ring_ok p' \<and>
    (r, contents p') = ubx_spec stale (contents p)"
  using ubx_result [OF assms] by (metis surj_pair)

lemma ubx_try_parse_refines_witness:
  "\<exists>r p'. ubx_try_parse stale0 ubx_sample_ring = Some (r, p') \<and>
    (r, contents p') = ubx_spec stale0 (contents ubx_sample_ring)"
  using ubx_try_parse_refines [OF ubx_sample_ring(1) length_stale0] by blast



text \<open>A UBX-NAV-PVT message with the documented payload of 92 bytes is delivered with every
  field up to the third flags as encoded, and with the last three fields (vehicle heading,
  magnetic declination and its accuracy) read one byte too early: their bytes are shifted by
  one position into each other.\<close>

theorem ubx_nav_pvt_delivered:
  assumes "ring_ok p" and "length stale = 8192"
    and "contents p = junk @ ubx_frame 0x01 0x07 (nav_pvt_bytes q) @ rest" and "0xB5 \<notin> set junk"
    and "nav_pvt_ok q"
  shows "\<exists>p'. ubx_try_parse stale p = Some (Value (UbxNavPvt
      (q\<lparr>head_veh := sint (push_bit 8 (word_of_int (head_veh q) :: u32)),
         mag_dec := sint (ucast (drop_bit 24 (word_of_int (head_veh q) :: u32)) OR
           push_bit 8 (word_of_int (mag_dec q) :: u16)),
         mag_acc := drop_bit 8 (word_of_int (mag_dec q)) OR push_bit 8 (mag_acc q)\<rparr>)
      (ubx_frame 0x01 0x07 (nav_pvt_bytes q))), p') \<and> ring_ok p' \<and> contents p' = rest"
proof (rule ubx_result [OF assms(1,2)])
  have small: "length (nav_pvt_bytes q) \<le> 8184" by (simp add: length_nav_pvt_bytes)
  show "ubx_spec stale (contents p) = (Value (UbxNavPvt
      (q\<lparr>head_veh := sint (push_bit 8 (word_of_int (head_veh q) :: u32)),
         mag_dec := sint (ucast (drop_bit 24 (word_of_int (head_veh q) :: u32)) OR
           push_bit 8 (word_of_int (mag_dec q) :: u16)),
         mag_acc := drop_bit 8 (word_of_int (mag_dec q)) OR push_bit 8 (mag_acc q)\<rparr>)
      (ubx_frame 0x01 0x07 (nav_pvt_bytes q))), rest)"
    unfolding ubx_spec_def assms(3) ubx_search_frame [OF assms(4)] ubx_frame_spec_frame [OF small]
      length_nav_pvt_bytes
    by (simp add: ubx_dispatch_pairs parse_nav_pvt_bytes [OF assms(5)] nav_pvt_misread_def Let_def)
qed

definition nav_pvt_sample :: nav_pvt where
  "nav_pvt_sample =
     \<lparr>i_tow = 200000000, year = 2024, month = 5, day = 17, hour = 12, min_utc = 30, sec = 59,
      pvt_valid = \<lparr>valid_date = 1, valid_time = 1, fully_resolved = 1, valid_mag = 0\<rparr>,
      t_acc = 25, nano = -1234, fix_type = 3,
      pvt_flags = \<lparr>gnss_fix_ok = 1, diff_soln = 1, psm_state = 5, head_veh_valid = 0, carr_soln = 2\<rparr>,
      pvt_flags2 = \<lparr>confirmed_avai = 1, confirmed_date = 0, confirmed_time = 1\<rparr>,
      num_sv = 21, lon = 156212345, lat = 584112345, height_mm = 80000, h_msl = 50000, h_acc = 14,
      v_acc = 20, vel_n = -7, vel_e = 8, vel_d = -9, g_speed = 11, head_mot = 9000000, s_acc = 60,
      head_acc = 180000, p_dop = 130,
      pvt_flags3 = \<lparr>invalid_llh = 0, last_correction_arg = 9\<rparr>,
      head_veh = 1, mag_dec = 2, mag_acc = 3\<rparr>"

lemma nav_pvt_sample_ok: "nav_pvt_ok nav_pvt_sample"
  by (simp add: nav_pvt_sample_def nav_pvt_ok_def valid_ok_def flags_ok_def flags2_ok_def flags3_ok_def
      fits_def in_range_def)

lemma ubx_nav_pvt_delivered_witness:
  "\<exists>p'. ubx_try_parse stale0 (snd (append ring_new (ubx_frame 0x01 0x07 (nav_pvt_bytes nav_pvt_sample))))
     = Some (Value (UbxNavPvt (nav_pvt_sample\<lparr>head_veh := 256, mag_dec := 512, mag_acc := 768\<rparr>)
         (ubx_frame 0x01 0x07 (nav_pvt_bytes nav_pvt_sample))), p')"
proof -
  let ?f = "ubx_frame 0x01 0x07 (nav_pvt_bytes nav_pvt_sample)"
  have "length ?f < 131072"
    by (simp add: ubx_frame_def ubx_body_def length_nav_pvt_bytes)
  from append_new [OF this]
  have "ring_ok (snd (append ring_new ?f))" "contents (snd (append ring_new ?f)) = [] @ ?f @ []"
    by auto
  from ubx_nav_pvt_delivered [OF this(1) length_stale0 this(2) _ nav_pvt_sample_ok]
  show ?thesis by (auto simp: nav_pvt_sample_def)
qed

text \<open>C29: a frame whose length field says 8185 to 8192 is copied, with its eight bytes of
  framing, into the stack buffer of 8192 bytes: as soon as that many bytes are buffered, the
  parser writes outside the buffer.\<close>

theorem ubx_long_frame_overrun:
  assumes "ring_ok p" and "length stale = 8192" and "contents p = junk @ [0xB5, 0x62, c, i] @ le2 len @ rest"
    and "0xB5 \<notin> set junk" and "8185 \<le> unat len" and "unat len \<le> 8192" and "unat len + 2 \<le> length rest"
  shows "\<exists>p'. ubx_try_parse stale p = Some (Undefined, p')"
proof -
  let ?bs = "[0xB5, 0x62, c, i] @ le2 len @ rest"
  have "search 8 ubx_head (junk @ ?bs) = search 8 ubx_head ?bs"
  proof (rule search_append_miss)
    fix j assume "j < length junk"
    then have "drop j (junk @ ?bs) = junk ! j # drop (Suc j) junk @ ?bs"
      by (simp add: Cons_nth_drop_Suc)
    then show "\<not> ubx_head (drop j (junk @ ?bs))"
      using assms(4) nth_mem [OF \<open>j < length junk\<close>] by (auto simp: ubx_head_def)
  qed (use assms(5,7) in simp)
  also have "\<dots> = ?bs" by (rule search_hit) (simp add: ubx_head_def)
  finally have "ubx_spec stale (contents p) = ubx_frame_spec stale ?bs"
    by (simp only: ubx_spec_def assms(3))
  also have "\<dots> = (Undefined, ?bs)"
    using assms(5-7) le16_le2 [of len]
    by (simp add: ubx_frame_spec_def Let_def le2_def)
  finally have "ubx_spec stale (contents p) = (Undefined, ?bs)" .
  then show ?thesis using ubx_result [OF assms(1,2)] by blast
qed

lemma ubx_long_frame_overrun_witness:
  "\<exists>p'. ubx_try_parse stale0 (snd (append ring_new ([0x01] @ [0xB5, 0x62, 0x01, 0x07] @ le2 8185 @
     replicate 8187 0))) = Some (Undefined, p')"
proof -
  let ?d = "[0x01] @ [0xB5, 0x62, 0x01, 0x07] @ le2 8185 @ replicate 8187 0"
  have "length ?d < 131072" by simp
  from append_new [OF this]
  have "ring_ok (snd (append ring_new ?d))" "contents (snd (append ring_new ?d)) = ?d" by auto
  then show ?thesis
    by (intro ubx_long_frame_overrun [where junk = "[0x01]" and c = "0x01" and i = "0x07" and len = 8185
          and rest = "replicate 8187 0"]) simp_all
qed

lemma le2_le16: "le2 (le16 a b) = [a, b]"
  unfolding le2_def le16_def list.inject
  by (intro conjI refl; rule bit_word_eqI; auto simp: bit_simps dest: bit_imp_le_length)

lemma ubx_frame_spec_Value:
  assumes "ubx_frame_spec stale bs = (Value m, rest)" and "ubx_head bs"
  shows "\<exists>c i payload. bs = ubx_frame c i payload @ rest \<and> length payload \<le> 8184"
proof -
  have len8: "8 \<le> length bs"
    using assms(1) by (auto simp: ubx_frame_spec_def not_less split: if_splits)
  then obtain b0 b1 c i l0 l1 t where bs: "bs = [b0, b1, c, i, l0, l1] @ t"
    by (auto simp: eval_nat_numeral Suc_le_length_iff)
  let ?n = "unat (le16 l0 l1)"
  have n: "?n \<le> 8184" "?n + 2 \<le> length t"
    and ck: "checksum (take (?n + 4) (drop 2 (take (?n + 8) bs)))
      = le16 (take (?n + 8) bs ! (?n + 6)) (take (?n + 8) bs ! (?n + 7))"
    and rest: "rest = drop (?n + 8) bs"
    using assms(1) by (auto simp: ubx_frame_spec_def bs Let_def split: if_splits)
  let ?pl = "take ?n t"
  have body: "take (?n + 4) (drop 2 (take (?n + 8) bs)) = ubx_body c i ?pl"
    using n by (simp add: bs ubx_body_def le2_le16 min_def eval_nat_numeral)
  have last: "take (?n + 8) bs ! (?n + 6) = t ! ?n" "take (?n + 8) bs ! (?n + 7) = t ! (?n + 1)"
    using n by (simp_all add: bs nth_append)
  have "t = ?pl @ drop ?n t" by simp
  also have "drop ?n t = [t ! ?n, t ! (?n + 1)] @ drop (?n + 2) t"
    using n by (simp add: Cons_nth_drop_Suc)
  finally have "t = ?pl @ le2 (checksum (ubx_body c i ?pl)) @ drop (?n + 2) t"
    using ck unfolding body last by (simp only: le2_le16)
  moreover have "b0 = 0xB5" "b1 = 0x62" using assms(2) by (simp_all add: ubx_head_def bs)
  ultimately have "bs = ubx_frame c i ?pl @ rest"
    unfolding ubx_frame_def rest using n
    by (simp add: bs ubx_body_def le2_le16 min_def eval_nat_numeral)
  then show ?thesis using n by (intro exI [of _ c] exI [of _ i] exI [of _ ?pl]) simp
qed

text \<open>Nothing but a complete frame with a correct checksum is ever delivered.  Whenever
  the parser returns a message, the unread bytes were some bytes, then a frame (boundary, class,
  id, length, payload of at most 8184 bytes, and the checksum of these), then the bytes left.\<close>

theorem ubx_delivers_only_frames:
  assumes "ring_ok p" and "length stale = 8192" and "ubx_try_parse stale p = Some (Value m, p')"
  shows "\<exists>junk c i payload. contents p = junk @ ubx_frame c i payload @ contents p' \<and>
    length payload \<le> 8184"
proof -
  obtain r bs where "ubx_spec stale (contents p) = (r, bs)" by fastforce
  then have spec: "ubx_spec stale (contents p) = (Value m, contents p')"
    using ubx_result [OF assms(1,2)] assms(3) by fastforce
  obtain junk where junk: "contents p = junk @ search 8 ubx_head (contents p)"
    using search_suffix by blast
  let ?s = "search 8 ubx_head (contents p)"
  have "length ?s < 8 \<or> ubx_head ?s" by (rule search_stop) simp
  moreover have "\<not> length ?s < 8"
    using spec by (auto simp: ubx_spec_def ubx_frame_spec_def)
  ultimately have "ubx_head ?s" by blast
  with spec obtain c i payload where "?s = ubx_frame c i payload @ contents p'" "length payload \<le> 8184"
    using ubx_frame_spec_Value unfolding ubx_spec_def by blast
  then show ?thesis using junk by metis
qed

lemma ubx_delivers_only_frames_witness:
  "\<exists>m p' junk c i payload. ubx_try_parse stale0 ubx_sample_ring = Some (Value m, p') \<and>
     contents ubx_sample_ring = junk @ ubx_frame c i payload @ contents p' \<and> length payload \<le> 8184"
proof -
  have "ubx_encodes (UbxAckAck \<lparr>cls_id = 0x06, msg_id = 0x8A\<rparr>) 0x05 0x01 [0x06, 0x8A]"
    using ubx_encodes.ack_ack [of "\<lparr>cls_id = 0x06, msg_id = 0x8A\<rparr>"] by (simp add: le1_def)
  then have *: "ubx_dispatch 0x05 0x01 (reading ([0x06, 0x8A] @ t) 2 False) d
      = Value (UbxAckAck \<lparr>cls_id = 0x06, msg_id = 0x8A\<rparr> d)" for t d
    using ubx_dispatch_encodes [of "UbxAckAck \<lparr>cls_id = 0x06, msg_id = 0x8A\<rparr>" 5 1 "[0x06, 0x8A]" t d]
    by (simp add: numeral_2_eq_2)
  have "\<exists>m rest. ubx_spec stale0 (contents ubx_sample_ring) = (Value m, rest)"
  proof -
    have "search 8 ubx_head (contents ubx_sample_ring) = ubx_frame 0x05 0x01 [0x06, 0x8A] @ [0x0A]"
      unfolding ubx_sample_ring(2) by (rule ubx_search_frame) simp
    then show ?thesis
      using ubx_frame_spec_frame [of "[0x06, 0x8A]" stale0 5 1 "[0x0A]"] *
      by (simp add: ubx_spec_def numeral_2_eq_2)
  qed
  then obtain m p' where "ubx_try_parse stale0 ubx_sample_ring = Some (Value m, p')"
    using ubx_result [OF ubx_sample_ring(1) length_stale0] by blast
  then show ?thesis
    using ubx_delivers_only_frames [OF ubx_sample_ring(1) length_stale0] by blast
qed

section \<open>Requests\<close>

lemma store_region:
  assumes "enc_wf e" and "length (a @ b) \<le> e_mPayloadLength e"
  shows "take (length b) (drop (e_pos e + length a) (e_mem (store (a @ b) e))) = b"
  using assms by (simp add: store_def overwrite_def enc_wf_def)

lemma e_pos_store:
  "length bs \<le> e_mPayloadLength e \<Longrightarrow> e_pos (store bs e) = e_pos e + length bs"
  by (simp add: store_def)

lemma frame_store:
  assumes "enc_wf e" and "length body + 4 \<le> e_mPayloadLength e"
  shows "store (le2 (checksum (take (length body) (drop (e_pos e + 2)
      (e_mem (store ([0xB5, 0x62] @ body) e)))))) (store ([0xB5, 0x62] @ body) e)
    = store ([0xB5, 0x62] @ body @ le2 (checksum body)) e"
proof -
  have "take (length body) (drop (e_pos e + 2) (e_mem (store ([0xB5, 0x62] @ body) e))) = body"
    using store_region [of e "[0xB5, 0x62]" body] assms by simp
  then show ?thesis
    using assms store_store [of e "[0xB5, 0x62] @ body" "le2 (checksum body)"]
    by (simp only: append_assoc) simp
qed

lemma enc_stores:
  "enc_ubx_u1 a = store (le1 a)" "enc_ubx_u2 b = store (le2 b)" "enc_ubx_u4 c = store (le4 c)"
  by (simp_all add: fun_eq_iff enc_ubx_u1_def enc_ubx_u2_def enc_ubx_u4_def enc_x_store)

lemma serialize_store: "serialize v = store (value_bytes v)"
  by (cases v) (simp_all add: fun_eq_iff enc_stores enc_logical_def enc_ubx_u8_def enc_x_store bool1_def)

lemma store_keys:
  "enc_wf e \<Longrightarrow> length bs + 4 * length keys \<le> e_mPayloadLength e \<Longrightarrow>
    foldl (\<lambda>e key. enc_ubx_u4 key e) (store bs e) keys = store (bs @ concat (map le4 keys)) e"
proof (induction keys arbitrary: bs)
  case Nil
  then show ?case by simp
next
  case (Cons k keys)
  then have "enc_ubx_u4 k (store bs e) = store (bs @ le4 k) e"
    by (simp add: enc_stores store_store)
  then show ?case using Cons.IH [of "bs @ le4 k"] Cons.prems by simp
qed

definition valset_payload :: "u8 \<Rightarrow> u32 \<Rightarrow> cfg_value \<Rightarrow> u8 list" where
  "valset_payload layers0 key value = [0, layers0] @ le2 0 @ le4 key @ value_bytes value"

text \<open>A configuration request is either refused or a correct frame.  When the type of the
  value is not the one the key encodes, nothing is written and 0 is returned; otherwise, given
  room for the frame, what is appended to the output is exactly a UBX-CFG-VALSET frame (class
  06, id 8A) with version, layers, key and value, with the right length and checksum, and the
  number of bytes written is returned.\<close>

theorem valset_writes_frame:
  assumes "enc_wf e" and "length (ubx_frame 0x06 0x8A (valset_payload layers0 key v)) \<le> e_mPayloadLength e"
  shows "cfg_valset_set e layers0 key v =
      (if type_from_key key = cfg_type_of v
       then (length (ubx_frame 0x06 0x8A (valset_payload layers0 key v)),
             store (ubx_frame 0x06 0x8A (valset_payload layers0 key v)) e)
       else (0, e)) \<and>
    encoded (store (ubx_frame 0x06 0x8A (valset_payload layers0 key v)) e)
      = encoded e @ ubx_frame 0x06 0x8A (valset_payload layers0 key v)"
proof -
  let ?pl = "valset_payload layers0 key v" and ?s = "size_from_type (cfg_type_of v)"
  let ?body = "ubx_body 0x06 0x8A ?pl"
  have room: "length ?body + 4 \<le> e_mPayloadLength e"
    using assms(2) by (simp add: ubx_frame_def)
  have known: "cfg_type_of v \<noteq> UNKNOWN" by (cases v) simp_all
  have len: "word_of_nat (length ?pl) = (4 + 4 + word_of_nat ?s :: u16)"
    by (simp add: valset_payload_def)
  have "serialize v (enc_ubx_u4 key (enc_ubx_u2 0 (enc_ubx_u1 layers0 (enc_ubx_u1 0 (enc_ubx_u2
      (4 + 4 + word_of_nat ?s) (enc_ubx_u1 0x8A (enc_ubx_u1 0x06 (enc_ubx_u1 0x62 (enc_ubx_u1 0xB5 e)))))))))
      = store ([0xB5, 0x62] @ ?body) e"
    using assms(1) room len
    by (simp add: enc_stores serialize_store store_store ubx_body_def valset_payload_def le1_def)
  moreover have "e_pos (enc_ubx_u1 0x62 (enc_ubx_u1 0xB5 e)) = e_pos e + 2"
    using room assms(1) by (simp add: enc_stores store_store e_pos_store le1_def)
  moreover have "e_pos (store ([0xB5, 0x62] @ ?body) e) = e_pos e + 2 + length ?body"
    using room by (simp add: e_pos_store)
  ultimately have "cfg_valset_set e layers0 key v =
      (if type_from_key key = cfg_type_of v
       then (length (ubx_frame 0x06 0x8A ?pl), store (ubx_frame 0x06 0x8A ?pl) e) else (0, e))"
    using frame_store [OF assms(1) room] assms(2) known
    by (auto simp: cfg_valset_set_def Let_def enc_stores(2) ubx_frame_def e_pos_store)
  then show ?thesis using store_fits(2) [OF assms] by blast
qed

lemma valset_writes_frame_witness:
  "fst (cfg_valset_set (ubx_Encoder (replicate 64 0)) 1 0x30210001 (Cfg_U2 1000)) = 18 \<and>
   encoded (store (ubx_frame 0x06 0x8A (valset_payload 1 0x30210001 (Cfg_U2 1000)))
     (ubx_Encoder (replicate 64 0)))
     = ubx_frame 0x06 0x8A (valset_payload 1 0x30210001 (Cfg_U2 1000))"
proof -
  let ?e = "ubx_Encoder (replicate 64 0)"
  have "enc_wf ?e" "e_mPayloadLength ?e = 64" "encoded ?e = []"
    by (simp_all add: enc_wf_def ubx_Encoder_def encoded_def)
  moreover have "type_from_key 0x30210001 = U2"
    by (simp add: type_from_key_def size_bits_def)
  moreover have "length (ubx_frame 0x06 0x8A (valset_payload 1 0x30210001 (Cfg_U2 1000))) = 18"
    by (simp add: ubx_frame_def ubx_body_def valset_payload_def)
  ultimately show ?thesis
    using valset_writes_frame [of ?e 1 "0x30210001" "Cfg_U2 1000"] by simp
qed

section \<open>A stream in chunks\<close>

lemma ubx_capacity: "ubx_try_parse stale p = Some (r, p') \<Longrightarrow> mBufferCapacity p' = mBufferCapacity p"
  unfolding ubx_try_parse_def
  by (erule sync_capacity) (simp add: ubx_parse_frame_def Let_def split: prod.split)

interpretation ubx: framing_parser "\<lambda>p. ring_ok p \<and> length stale = 8192" contents
  "\<lambda>p. mBufferCapacity p - 1" "\<lambda>p c. snd (append p c)" "ubx_try_parse stale" "ubx_spec stale"
  for stale
proof
  fix p :: ring and c
  assume ok: "ring_ok p \<and> length stale = 8192"
  show "(ring_ok (snd (append p c)) \<and> length stale = 8192) \<and>
      contents (snd (append p c)) = contents p @ c \<and>
      mBufferCapacity (snd (append p c)) - 1 = mBufferCapacity p - 1"
    if "length (contents p) + length c \<le> mBufferCapacity p - 1"
    using ok ring_put [OF _ that] by blast
  show "\<exists>r p'. ubx_try_parse stale p = Some (r, p') \<and> (ring_ok p' \<and> length stale = 8192) \<and>
      mBufferCapacity p' - 1 = mBufferCapacity p - 1 \<and> (r, contents p') = ubx_spec stale (contents p)"
  proof -
    obtain p' where "ubx_try_parse stale p = Some (fst (ubx_spec stale (contents p)), p')" "ring_ok p'"
      "contents p' = snd (ubx_spec stale (contents p))"
      using ubx_result [OF conjunct1 [OF ok] conjunct2 [OF ok] prod.collapse [symmetric]] by blast
    then show ?thesis using ubx_capacity [of stale p] ok by (intro exI [of _ "fst (ubx_spec stale (contents p))"] exI [of _ p']) simp
  qed
qed

lemma ubx_frame_frame:
  assumes "ubx_encodes mk c i payload" and "length payload \<le> 8184"
  shows "frame (ubx_spec stale) (mk (ubx_frame c i payload)) (ubx_frame c i payload)"
proof (rule frameI)
  let ?f = "ubx_frame c i payload"
  obtain l0 l1 where l: "le2 (word_of_nat (length payload)) = [l0, l1]" by (simp add: le2_def)
  obtain k0 k1 where k: "le2 (checksum (ubx_body c i payload)) = [k0, k1]" by (simp add: le2_def)
  have f: "?f = [0xB5, 0x62, c, i, l0, l1] @ payload @ [k0, k1]"
    unfolding ubx_frame_def k by (simp add: ubx_body_def l)
  have n: "unat (le16 l0 l1) = length payload"
    using assms le16_le2 [OF l] by (simp add: unsigned_of_nat take_bit_nat_eq_self)
  show "?f \<noteq> []" by (simp add: f)
  show "ubx_spec stale (?f @ x) = (Value (mk ?f), x)" for x
    using ubx_search_frame [of "[]" c i payload x] assms
    by (simp add: ubx_spec_def ubx_frame_spec_frame ubx_dispatch_encodes)
  show "ubx_spec stale b = (Null, b)" if "b @ x = ?f" "x \<noteq> []" for b x
  proof (cases "length b < 8")
    case True
    then show ?thesis by (simp add: ubx_spec_def ubx_frame_spec_def search_short)
  next
    case False
    note at = prefix_nth [OF \<open>b @ x = ?f\<close>]
    have "0 < length b" "1 < length b" "4 < length b" "5 < length b" using False by linarith+
    note bs = this [THEN at, unfolded f]
    have nth: "b ! 0 = 0xB5" "b ! 1 = 0x62" "b ! 4 = l0" "b ! 5 = l1"
      unfolding bs by simp_all
    have "length b < length ?f" using proper_prefix [OF that] .
    then have "length b < length payload + 8" by (simp add: f)
    moreover have "search 8 ubx_head b = b" using nth by (intro search_hit) (simp add: ubx_head_def)
    ultimately show ?thesis
      using nth n assms(2) False by (simp add: ubx_spec_def ubx_frame_spec_def Let_def)
  qed
qed

end
