(* ===== verification/Text_Lib.thy ===== *)
theory Text_Lib
  imports Prelude
begin

text \<open>
  The C++ library routines on text that the line parsers use, on byte strings: splitting
  with \<^verbatim>\<open>std::getline\<close>, the numeric conversions \<^verbatim>\<open>std::stoul\<close>,
  \<^verbatim>\<open>std::stoull\<close> and \<^verbatim>\<open>std::stoi\<close> (leading white space and sign, the \<^verbatim>\<open>0x\<close>
  of base 16, the range checks; \<open>None\<close> is a thrown exception), \<^verbatim>\<open>std::string::substr\<close>
  and \<^verbatim>\<open>find_last_of\<close>.  \<^verbatim>\<open>unsigned long\<close> has 64 bits.
\<close>

type_synonym bytes = "u8 list"

definition str :: "string \<Rightarrow> bytes" where
  "str = map of_char"

lemma str_simps [simp]: "str [] = []" "str (c # cs) = of_char c # str cs"
  by (simp_all add: str_def)

section \<open>Splitting\<close>

function split :: "bytes \<Rightarrow> u8 \<Rightarrow> bytes list" where
  "split s delim =
     (if s = [] then []
      else let token = takeWhile (\<lambda>c. c \<noteq> delim) s; rest = dropWhile (\<lambda>c. c \<noteq> delim) s
           in if rest = [] then [token] else token # split (tl rest) delim)"
  by pat_completeness auto

termination
proof (relation "measure (\<lambda>(s, _). length s)", goal_cases)
  case (2 s delim token rest)
  then have "length rest \<le> length s" by (simp add: length_dropWhile_le)
  moreover have "0 < length s" "0 < length rest" using 2 by auto
  ultimately have "length rest - 1 < length s" by linarith
  then show ?case by simp
qed simp

declare split.simps [simp del]

lemma split_Nil [simp]: "split [] d = []"
  by (simp add: split.simps)

lemma split_last: "d \<notin> set t \<Longrightarrow> t \<noteq> [] \<Longrightarrow> split t d = [t]"
proof -
  assume "d \<notin> set t" "t \<noteq> []"
  then have "takeWhile (\<lambda>c. c \<noteq> d) t = t" "dropWhile (\<lambda>c. c \<noteq> d) t = []"
    by (auto simp: takeWhile_eq_all_conv)
  then show ?thesis using \<open>t \<noteq> []\<close> by (subst split.simps) (simp add: Let_def)
qed

lemma split_token: "d \<notin> set t \<Longrightarrow> split (t @ d # rest) d = t # split rest d"
proof -
  assume d: "d \<notin> set t"
  then have "takeWhile (\<lambda>c. c \<noteq> d) (t @ d # rest) = t" "dropWhile (\<lambda>c. c \<noteq> d) (t @ d # rest) = d # rest"
    by (subst takeWhile_append2 dropWhile_append2, auto)+
  then show ?thesis by (subst split.simps) (simp add: Let_def)
qed

text \<open>A separated list whose last token is not empty is split into its tokens.\<close>

fun separated :: "u8 \<Rightarrow> bytes list \<Rightarrow> bytes" where
  "separated d [] = []"
| "separated d [t] = t"
| "separated d (t # ts) = t @ d # separated d ts"

lemma split_separated:
  "\<forall>t \<in> set ts. d \<notin> set t \<Longrightarrow> ts \<noteq> [] \<Longrightarrow> last ts \<noteq> [] \<Longrightarrow> split (separated d ts) d = ts"
  by (induction d ts rule: separated.induct) (simp_all add: split_last split_token)

section \<open>Numbers\<close>

definition is_space :: "u8 \<Rightarrow> bool" where
  "is_space c \<longleftrightarrow> c = 0x20 \<or> (0x09 \<le> c \<and> c \<le> 0x0D)"

definition digit_value :: "u8 \<Rightarrow> nat option" where
  "digit_value c =
     (if 0x30 \<le> c \<and> c \<le> 0x39 then Some (unat c - 0x30)
      else if 0x41 \<le> c \<and> c \<le> 0x5A then Some (unat c - 0x41 + 10)
      else if 0x61 \<le> c \<and> c \<le> 0x7A then Some (unat c - 0x61 + 10)
      else None)"

definition is_digit :: "nat \<Rightarrow> u8 \<Rightarrow> bool" where
  "is_digit base c \<longleftrightarrow> (case digit_value c of None \<Rightarrow> False | Some v \<Rightarrow> v < base)"

definition number_value :: "nat \<Rightarrow> bytes \<Rightarrow> nat" where
  "number_value base ds = foldl (\<lambda>n c. n * base + the (digit_value c)) 0 ds"

text \<open>Sign, base prefix and digits, the common part of the \<^verbatim>\<open>strto\<close> family.\<close>

definition scan_number :: "nat \<Rightarrow> bytes \<Rightarrow> (bool \<times> nat) option" where
  "scan_number base s =
     (let s1 = dropWhile is_space s;
          negative = (s1 \<noteq> [] \<and> hd s1 = 0x2D);
          s2 = (if s1 \<noteq> [] \<and> (hd s1 = 0x2D \<or> hd s1 = 0x2B) then tl s1 else s1);
          s3 = (if base = 16 \<and> 2 < length s2 \<and> s2 ! 0 = 0x30 \<and> (s2 ! 1 = 0x78 \<or> s2 ! 1 = 0x58)
                   \<and> is_digit 16 (s2 ! 2) then drop 2 s2 else s2);
          ds = takeWhile (is_digit base) s3
      in if ds = [] then None else Some (negative, number_value base ds))"

definition stoull :: "nat \<Rightarrow> bytes \<Rightarrow> u64 option" where
  "stoull base s =
     (case scan_number base s of
        None \<Rightarrow> None
      | Some (negative, v) \<Rightarrow>
          if 2 ^ 64 \<le> v then None
          else Some (if negative then - of_nat v else of_nat v))"

definition stoul :: "bytes \<Rightarrow> u64 option" where
  "stoul s = stoull 10 s"

definition stoi :: "bytes \<Rightarrow> int option" where
  "stoi s =
     (case scan_number 10 s of
        None \<Rightarrow> None
      | Some (negative, v) \<Rightarrow>
          let n = (if negative then - int v else int v)
          in if - (2 ^ 31) \<le> n \<and> n < 2 ^ 31 then Some n else None)"

text \<open>Decimal notation, as \<^verbatim>\<open>printf\<close> writes it.\<close>

function decimal :: "nat \<Rightarrow> bytes" where
  "decimal n =
     (if n < 10 then [of_nat (0x30 + n)] else decimal (n div 10) @ [of_nat (0x30 + n mod 10)])"
  by pat_completeness auto

termination by (relation "measure id") auto

declare decimal.simps [simp del]

lemma digit_cases: "n < 10 \<Longrightarrow> n \<in> {0, 1, 2, 3, 4, 5, 6, 7, 8, 9 :: nat}"
  by auto

lemma digit_value_digit [simp]: "n < 10 \<Longrightarrow> digit_value (of_nat (0x30 + n)) = Some n"
  by (drule digit_cases) (elim insertE emptyE; simp add: digit_value_def)

lemma digit_not_special:
  "n < 10 \<Longrightarrow> of_nat (0x30 + n) \<noteq> (0x2D :: u8) \<and> of_nat (0x30 + n) \<noteq> (0x2B :: u8) \<and>
     of_nat (0x30 + n) \<noteq> (0x2C :: u8) \<and> \<not> is_space (of_nat (0x30 + n))"
  by (drule digit_cases) (elim insertE emptyE; simp add: is_space_def)

lemma decimal_nonempty [simp]: "decimal n \<noteq> []"
  by (subst decimal.simps) simp

lemma decimal_set: "c \<in> set (decimal n) \<Longrightarrow> \<exists>k < 10. c = of_nat (0x30 + k)"
proof (induction n rule: decimal.induct)
  case (1 n)
  show ?case
  proof (cases "n < 10")
    case True
    then show ?thesis using 1(2) by (subst (asm) decimal.simps) auto
  next
    case False
    then have "c \<in> set (decimal (n div 10)) \<or> c = of_nat (0x30 + n mod 10)"
      using 1(2) by (subst (asm) decimal.simps) auto
    moreover have "n mod 10 < 10" by simp
    ultimately show ?thesis using 1(1) [OF False] by blast
  qed
qed

lemma number_value_append: "number_value b (xs @ [c]) = number_value b xs * b + the (digit_value c)"
  by (simp add: number_value_def)

lemma number_value_decimal [simp]: "number_value 10 (decimal n) = n"
proof (induction n rule: decimal.induct)
  case (1 n)
  show ?case
  proof (cases "n < 10")
    case True
    then have "digit_value (of_nat (0x30 + n)) = Some n" by (rule digit_value_digit)
    then show ?thesis using True by (subst decimal.simps) (simp add: number_value_def)
  next
    case False
    have "digit_value (of_nat (0x30 + n mod 10)) = Some (n mod 10)" by (rule digit_value_digit) simp
    then show ?thesis using False 1 by (subst decimal.simps) (simp add: number_value_append)
  qed
qed

lemma scan_decimal: "scan_number 10 (decimal n) = Some (False, n)"
proof -
  have digits: "\<forall>c \<in> set (decimal n). is_digit 10 c \<and> \<not> is_space c \<and> c \<noteq> 0x2D \<and> c \<noteq> 0x2B"
  proof
    fix c assume "c \<in> set (decimal n)"
    then obtain k where "k < 10" "c = of_nat (0x30 + k)" using decimal_set by blast
    then show "is_digit 10 c \<and> \<not> is_space c \<and> c \<noteq> 0x2D \<and> c \<noteq> 0x2B"
      using digit_value_digit [of k] digit_not_special [of k] by (simp add: is_digit_def)
  qed
  obtain c cs where c: "decimal n = c # cs" by (cases "decimal n") auto
  have "dropWhile is_space (decimal n) = decimal n" using digits c by simp
  moreover have "takeWhile (is_digit 10) (decimal n) = decimal n"
    unfolding takeWhile_eq_all_conv using digits by blast
  moreover have "hd (decimal n) \<noteq> 0x2D" "hd (decimal n) \<noteq> 0x2B" using digits c by auto
  ultimately show ?thesis unfolding scan_number_def Let_def by (simp del: takeWhile_eq_all_conv)
qed

lemma stoull_decimal: "n < 2 ^ 64 \<Longrightarrow> stoull 10 (decimal n) = Some (of_nat n)"
  by (simp add: stoull_def scan_decimal)

lemma length_decimal: "n < 10 ^ k \<Longrightarrow> 0 < k \<Longrightarrow> length (decimal n) \<le> k"
proof (induction n arbitrary: k rule: decimal.induct)
  case (1 n)
  show ?case
  proof (cases "n < 10")
    case True
    then show ?thesis using 1(3) by (subst decimal.simps) simp
  next
    case False
    then obtain j where k: "k = Suc j" "0 < j"
      using 1(2,3) by (cases k; cases "k - 1") auto
    then have "n div 10 < 10 ^ j" using 1(2) by (simp add: div_less_iff_less_mult mult.commute)
    then show ?thesis using 1(1) [OF False] False k by (subst decimal.simps) simp
  qed
qed

lemma decimal_no_eol: "c = 0x0A \<or> c = 0x0D \<or> c = 0x24 \<or> c = 0x2A \<Longrightarrow> c \<notin> set (decimal n)"
proof
  assume c: "c = 0x0A \<or> c = 0x0D \<or> c = 0x24 \<or> c = 0x2A" "c \<in> set (decimal n)"
  then obtain k where "k < 10" "c = of_nat (0x30 + k)" using decimal_set by blast
  then show False using c(1) by (auto dest!: digit_cases)
qed

lemma comma_not_decimal: "0x2C \<notin> set (decimal n)"
proof
  assume "0x2C \<in> set (decimal n)"
  then obtain k where "k < 10" "0x2C = (of_nat (0x30 + k) :: u8)" using decimal_set by blast
  then show False using digit_not_special [of k] by metis
qed

lemma unat_u32_less: "unat (w :: u32) < 2 ^ 32"
  using unsigned_less [where 'a = nat, of w] by simp

lemma unat_u64_less: "unat (w :: u64) < 2 ^ 64"
  using unsigned_less [where 'a = nat, of w] by simp

lemma ucast_u32_u64 [simp]: "ucast (ucast (w :: u32) :: u64) = w"
  by (rule bit_word_eqI) (simp add: bit_simps)

lemma stoull_u32: "stoul (decimal (unat (w :: u32))) = Some (ucast w)"
proof -
  have "unat w < 2 ^ 64" using unat_u32_less [of w] by simp
  then show ?thesis by (simp add: stoul_def stoull_decimal)
qed

lemma stoull_u64: "stoull 10 (decimal (unat (w :: u64))) = Some w"
  using unat_u64_less [of w] by (simp add: stoull_decimal)

lemma length_decimal_word:
  "length (decimal (unat (w :: u32))) \<le> 10" "length (decimal (unat (v :: u64))) \<le> 20"
  using unat_u32_less [of w] unat_u64_less [of v] by (intro length_decimal; simp)+

section \<open>Substrings and search\<close>

text \<open>\<^verbatim>\<open>substr(pos, count)\<close> throws \<^verbatim>\<open>std::out_of_range\<close> when \<^verbatim>\<open>pos\<close> is past the end.\<close>

definition substr :: "bytes \<Rightarrow> nat \<Rightarrow> nat \<Rightarrow> bytes option" where
  "substr s pos count = (if length s < pos then None else Some (take count (drop pos s)))"

fun find_last_of :: "bytes \<Rightarrow> u8 \<Rightarrow> nat option" where
  "find_last_of [] c = None"
| "find_last_of (x # xs) c =
     (case find_last_of xs c of
        Some i \<Rightarrow> Some (Suc i)
      | None \<Rightarrow> if x = c then Some 0 else None)"

lemma find_last_none: "c \<notin> set s \<Longrightarrow> find_last_of s c = None"
  by (induction s) auto

lemma find_last_append: "c \<notin> set ys \<Longrightarrow> find_last_of (xs @ c # ys) c = Some (length xs)"
  by (induction xs) (simp_all add: find_last_none)

lemma find_last_someD: "find_last_of s c = Some i \<Longrightarrow>
    i < length s \<and> s ! i = c \<and> c \<notin> set (drop (Suc i) s)"
proof (induction s arbitrary: i)
  case (Cons x xs)
  show ?case
  proof (cases "find_last_of xs c")
    case None
    then have "c \<notin> set xs" by (metis find_last_append in_set_conv_decomp_last option.distinct(1))
    with None Cons.prems show ?thesis by (auto split: if_splits)
  next
    case (Some j)
    then show ?thesis using Cons by auto
  qed
qed simp

section \<open>The first index with a property\<close>

lemma find_upt:
  "find P [i..<n] = (if i < n then if P i then Some i else find P [Suc i..<n] else None)"
  by (simp add: upt_conv_Cons)

lemma find_upt_SomeD:
  "find P [i..<n] = Some k \<Longrightarrow> i \<le> k \<and> k < n \<and> P k \<and> (\<forall>j. i \<le> j \<and> j < k \<longrightarrow> \<not> P j)"
proof (induction "n - i" arbitrary: i)
  case (Suc m)
  then have i: "i < n" by simp
  show ?case
  proof (cases "P i")
    case True
    then show ?thesis using Suc(3) i find_upt [of P i n] by auto
  next
    case False
    then have "find P [Suc i..<n] = Some k" using Suc(3) i find_upt [of P i n] by simp
    then have "Suc i \<le> k \<and> k < n \<and> P k \<and> (\<forall>j. Suc i \<le> j \<and> j < k \<longrightarrow> \<not> P j)"
      using Suc(1) [of "Suc i"] Suc(2) by simp
    then show ?thesis using False by (auto simp: Suc_le_eq) (metis le_neq_implies_less)
  qed
qed simp

lemma find_upt_SomeI:
  assumes "i \<le> k" and "k < n" and "P k" and "\<And>j. i \<le> j \<Longrightarrow> j < k \<Longrightarrow> \<not> P j"
  shows "find P [i..<n] = Some k"
  using assms(1,4)
proof (induction rule: inc_induct)
  case base
  then show ?case using assms(2,3) by (subst find_upt) simp
next
  case (step i)
  then have "find P [Suc i..<n] = Some k" by simp
  moreover have "\<not> P i" using step by simp
  ultimately show ?case using step(2) assms(2) by (subst find_upt) simp
qed

lemma find_upt_NoneD: "find P [i..<n] = None \<Longrightarrow> i \<le> j \<Longrightarrow> j < n \<Longrightarrow> \<not> P j"
  by (auto simp: find_None_iff)

end
