(* ===== verification/At_Parser.thy ===== *)
theory At_Parser
  imports Ring_Buffer Text_Lib
begin

text \<open>
  The line splitter for AT modems (dependency/format/at/parser.cpp): \<^verbatim>\<open>process\<close>
  cuts the unread bytes at every CR LF and queues the lines; a run of more than 120 bytes
  without a line end is thrown away.  The main result is that the queued lines do not depend
  on how the byte stream was cut into chunks.
\<close>

section \<open>State and operations\<close>

record at_parser =
  at_ring :: ring
  mLines :: "bytes list"

definition at_Parser :: at_parser where
  "at_Parser = \<lparr>at_ring = ring_new, mLines = []\<rparr>"

definition peek_line :: "at_parser \<Rightarrow> bytes" where
  "peek_line s = (if mLines s = [] then [] else mLines s ! 0)"

definition skip_line :: "at_parser \<Rightarrow> bytes \<times> at_parser" where
  "skip_line s =
     (if mLines s = [] then ([], s) else (mLines s ! 0, s\<lparr>mLines := tl (mLines s)\<rparr>))"

definition has_lines :: "at_parser \<Rightarrow> bool" where
  "has_lines s \<longleftrightarrow> mLines s \<noteq> []"

function at_scan :: "ring \<Rightarrow> nat \<Rightarrow> bytes \<Rightarrow> bool \<times> bytes \<times> ring" where
  "at_scan p index line =
     (if buffer_length p < index + 1 then (False, line, p)
      else if peek p index = 0x0D \<and> peek p (index + 1) = 0x0A then (True, line, skip p (index + 2))
      else if index > 120 then (False, line, skip p index)
      else at_scan p (index + 1) (line @ [peek p index]))"
  by pat_completeness auto

termination by (relation "measure (\<lambda>(p, index, line). 122 - index)") auto

declare at_scan.simps [simp del]

definition process_line :: "ring \<Rightarrow> bool \<times> bytes \<times> ring" where
  "process_line p = at_scan p 0 []"

text \<open>The loop of \<^verbatim>\<open>process\<close>; that it returns is a theorem below.\<close>

partial_function (option) process :: "at_parser \<Rightarrow> at_parser option" where
  "process s =
     (if buffer_length (at_ring s) > 0 then
        (case process_line (at_ring s) of
           (found, line, p) \<Rightarrow>
             if found then process (s\<lparr>at_ring := p, mLines := mLines s @ [line]\<rparr>)
             else Some (s\<lparr>at_ring := p\<rparr>))
      else Some s)"

text \<open>What the modem client does with every chunk it reads from its stream.\<close>

fun at_feed :: "at_parser \<Rightarrow> bytes list \<Rightarrow> at_parser option" where
  "at_feed s [] = Some s"
| "at_feed s (chunk # chunks) =
     (case process (s\<lparr>at_ring := snd (append (at_ring s) chunk)\<rparr>) of
        None \<Rightarrow> None
      | Some s' \<Rightarrow> at_feed s' chunks)"

section \<open>Lines as a function of the unread bytes\<close>

definition crlf_at :: "bytes \<Rightarrow> nat \<Rightarrow> bool" where
  "crlf_at bs i \<longleftrightarrow> Suc i < length bs \<and> bs ! i = 0x0D \<and> bs ! Suc i = 0x0A"

lemma at_scan_crlf:
  assumes "ring_ok p" and "i < length (contents p)"
  shows "(peek p i = 0x0D \<and> peek p (i + 1) = 0x0A) \<longleftrightarrow> crlf_at (contents p) i"
  using assms by (auto simp: crlf_at_def ring.pk_eq)

lemma at_scan_step:
  assumes "ring_ok p" and "i < length (contents p)" and "\<not> crlf_at (contents p) i" and "i \<le> 120"
  shows "at_scan p i (take i (contents p)) = at_scan p (Suc i) (take (Suc i) (contents p))"
proof -
  have "take i (contents p) @ [peek p i] = take (Suc i) (contents p)"
    using assms(1,2) by (simp del: length_contents add: ring.pk_eq take_Suc_conv_app_nth)
  moreover have "\<not> buffer_length p < i + 1" using assms(2) by simp
  moreover have "\<not> (peek p i = 0x0D \<and> peek p (i + 1) = 0x0A)"
    using at_scan_crlf [OF assms(1,2)] assms(3) by blast
  ultimately show ?thesis
    using assms(4) by (subst at_scan.simps) (simp del: de_Morgan_conj)
qed

lemma at_scan_found:
  assumes "ring_ok p" and "crlf_at (contents p) k" and "k \<le> 121"
    and "\<forall>j < k. \<not> crlf_at (contents p) j" and "i \<le> k"
  shows "at_scan p i (take i (contents p)) = (True, take k (contents p), skip p (k + 2))"
  using \<open>i \<le> k\<close>
proof (induction rule: inc_induct)
  case base
  have "k < length (contents p)" using assms(2) by (simp add: crlf_at_def)
  then show ?case
    using at_scan_crlf [OF assms(1), of k] assms(2) by (subst at_scan.simps) simp
next
  case (step i)
  then have "i < length (contents p)" using assms(2) by (auto simp: crlf_at_def)
  then show ?case using step at_scan_step [OF assms(1), of i] assms(3,4) by simp
qed

lemma at_scan_incomplete:
  assumes "ring_ok p" and "\<forall>j. \<not> crlf_at (contents p) j" and "length (contents p) \<le> 121"
    and "i \<le> length (contents p)"
  shows "at_scan p i (take i (contents p)) = (False, contents p, p)"
  using \<open>i \<le> _\<close>
proof (induction rule: inc_induct)
  case base
  then show ?case by (subst at_scan.simps) simp
next
  case (step i)
  then show ?case using at_scan_step [OF assms(1), of i] assms(2,3) by simp
qed

lemma at_scan_too_long:
  assumes "ring_ok p" and "\<forall>j \<le> 121. \<not> crlf_at (contents p) j" and "121 < length (contents p)"
    and "i \<le> 121"
  shows "at_scan p i (take i (contents p)) = (False, take 121 (contents p), skip p 121)"
  using \<open>i \<le> _\<close>
proof (induction rule: inc_induct)
  case base
  have "\<not> (peek p 121 = 0x0D \<and> peek p (121 + 1) = 0x0A)"
    using at_scan_crlf [OF assms(1), of 121] assms(2,3) by simp
  then show ?case using assms(3) by (subst at_scan.simps) (simp del: de_Morgan_conj)
next
  case (step i)
  then show ?case using at_scan_step [OF assms(1), of i] assms(2,3) by simp
qed

lemmas process_line_found =
  at_scan_found [where i = 0, simplified, folded process_line_def]

lemmas process_line_incomplete =
  at_scan_incomplete [where i = 0, simplified, folded process_line_def]

lemmas process_line_too_long =
  at_scan_too_long [where i = 0, simplified, folded process_line_def]

section \<open>The queue of lines\<close>

text \<open>A line that the modem may send: at most 120 bytes, without CR LF.\<close>

definition at_line :: "bytes \<Rightarrow> bool" where
  "at_line l \<longleftrightarrow> length l \<le> 120 \<and> (\<forall>j. \<not> crlf_at l j)"

definition terminated :: "bytes list \<Rightarrow> bytes" where
  "terminated lines = concat (map (\<lambda>l. l @ [0x0D, 0x0A]) lines)"

lemma terminated_simps [simp]:
  "terminated [] = []" "terminated (l # ls) = l @ [0x0D, 0x0A] @ terminated ls"
  by (simp_all add: terminated_def)

lemma crlf_at_prefix: "crlf_at (take n bs) j \<Longrightarrow> crlf_at bs j"
  by (auto simp: crlf_at_def)

lemma crlf_at_line:
  assumes "at_line l"
  shows "crlf_at (l @ [0x0D, 0x0A] @ rest) (length l)"
    and "j < length l \<Longrightarrow> \<not> crlf_at (l @ [0x0D, 0x0A] @ rest) j"
proof -
  show "crlf_at (l @ [0x0D, 0x0A] @ rest) (length l)"
    by (simp add: crlf_at_def nth_append)
  assume j: "j < length l"
  show "\<not> crlf_at (l @ [0x0D, 0x0A] @ rest) j"
  proof (cases "Suc j = length l")
    case True
    then show ?thesis by (simp add: crlf_at_def nth_append)
  next
    case False
    then have "crlf_at (l @ [0x0D, 0x0A] @ rest) j \<longleftrightarrow> crlf_at l j"
      using j by (simp add: crlf_at_def nth_append)
    then show ?thesis using assms by (simp add: at_line_def)
  qed
qed

lemma process_stop: "process_line (at_ring s) = (False, l, at_ring s) \<Longrightarrow> process s = Some s"
  by (subst process.simps) (cases "0 < buffer_length (at_ring s)", simp_all)

lemma process_step:
  "process_line (at_ring s) = (True, l, p) \<Longrightarrow> 0 < buffer_length (at_ring s) \<Longrightarrow>
   process s = process (s\<lparr>at_ring := p, mLines := mLines s @ [l]\<rparr>)"
  by (subst process.simps) simp

text \<open>
  One call of \<^verbatim>\<open>process\<close> on a prefix of a stream of terminated lines queues the lines
  that are complete and keeps the beginning of the next one.
\<close>

lemma process_prefix:
  assumes "ring_ok (at_ring s)" and "contents (at_ring s) @ later = terminated lines @ partial"
    and "\<forall>l \<in> set lines. at_line l" and "at_line partial"
  shows "\<exists>s' done rest. process s = Some s' \<and> ring_ok (at_ring s') \<and>
    mBufferCapacity (at_ring s') = mBufferCapacity (at_ring s) \<and>
    lines = done @ rest \<and> mLines s' = mLines s @ done \<and>
    contents (at_ring s') @ later = terminated rest @ partial \<and> length (contents (at_ring s')) \<le> 121 \<and>
    (later = [] \<longrightarrow> rest = [])"
  using assms(1-3)
proof (induction lines arbitrary: s)
  case Nil
  let ?bs = "contents (at_ring s)"
  have prefix: "?bs = take (length ?bs) partial" using Nil(2) by (metis append_Nil append_eq_conv_conj terminated_simps(1))
  have len: "length ?bs \<le> 121"
  proof -
    have "length ?bs = min (length partial) (length ?bs)"
      using arg_cong [OF prefix, of length] unfolding length_take .
    then show ?thesis using assms(4) by (simp add: at_line_def min_def split: if_splits)
  qed
  have no: "\<forall>j. \<not> crlf_at ?bs j" using prefix assms(4) crlf_at_prefix by (metis at_line_def)
  have "process s = Some s"
    by (rule process_stop) (rule process_line_incomplete [OF Nil(1) no len [unfolded length_contents]])
  then show ?case using Nil len by (intro exI [of _ s] exI [of _ "[]"]) simp
next
  case (Cons l ls)
  let ?bs = "contents (at_ring s)"
  have l: "at_line l" using Cons.prems by simp
  show ?case
  proof (cases "length ?bs < length l + 2")
    case True
    have bs: "?bs = take (length ?bs) (l @ [0x0D])"
    proof -
      have "?bs = take (length ?bs) (terminated (l # ls) @ partial)"
        using Cons.prems(2) by (metis append_eq_conv_conj)
      also have "\<dots> = take (length ?bs) (l @ [0x0D])"
        using True by (auto simp: take_Cons' not_less)
      finally show ?thesis .
    qed
    have no: "\<forall>j. \<not> crlf_at ?bs j"
    proof (intro allI notI)
      fix j assume j: "crlf_at ?bs j"
      then have "crlf_at (l @ [0x0D]) j" using bs crlf_at_prefix by metis
      then show False using l by (auto simp: crlf_at_def at_line_def nth_append split: if_splits)
    qed
    have len: "length ?bs \<le> 121" using True l by (simp add: at_line_def)
    have "later \<noteq> []"
    proof
      assume "later = []"
      then have "length ?bs = length (terminated (l # ls) @ partial)" using Cons.prems(2) by simp
      then show False using True by simp
    qed
    have "process s = Some s"
      by (rule process_stop) (rule process_line_incomplete [OF Cons.prems(1) no len [unfolded length_contents]])
    then show ?thesis using Cons.prems len \<open>later \<noteq> []\<close>
      by (intro exI [of _ s] exI [of _ "[]"] exI [of _ "l # ls"]) simp
  next
    case False
    let ?t = "s\<lparr>at_ring := skip (at_ring s) (length l + 2), mLines := mLines s @ [l]\<rparr>"
    have bs: "?bs = l @ [0x0D, 0x0A] @ drop (length l + 2) ?bs"
    proof -
      have "take (length l + 2) ?bs = take (length l + 2) (?bs @ later)" using False by simp
      also have "\<dots> = l @ [0x0D, 0x0A]" unfolding Cons.prems(2) by simp
      finally show ?thesis by (metis append_take_drop_id append.assoc)
    qed
    have found: "process_line (at_ring s) = (True, l, skip (at_ring s) (length l + 2))"
    proof -
      have "crlf_at ?bs (length l)" "\<forall>j < length l. \<not> crlf_at ?bs j"
        using crlf_at_line [OF l, where rest = "drop (length l + 2) ?bs"] unfolding bs [symmetric] by blast+
      moreover have "length l \<le> 121" using l by (simp add: at_line_def)
      moreover have "take (length l) ?bs = l" using bs by (metis append_eq_conv_conj)
      ultimately show ?thesis
        using process_line_found [of "at_ring s" "length l"] Cons.prems(1) by simp
    qed
    have step: "process s = process ?t"
      by (rule process_step [OF found]) (use False in simp)
    have "contents (at_ring ?t) @ later = terminated ls @ partial"
    proof -
      have "l @ [0x0D, 0x0A] @ drop (length l + 2) ?bs @ later = l @ [0x0D, 0x0A] @ terminated ls @ partial"
        using Cons.prems(2) bs by (metis append.assoc terminated_simps(2))
      then show ?thesis using Cons.prems(1) by (simp add: ring.skp_bytes)
    qed
    then obtain s' fin rest where *: "process ?t = Some s'" "ring_ok (at_ring s')"
      "mBufferCapacity (at_ring s') = mBufferCapacity (at_ring ?t)" "ls = fin @ rest"
      "mLines s' = mLines ?t @ fin" "contents (at_ring s') @ later = terminated rest @ partial"
      "length (contents (at_ring s')) \<le> 121" "later = [] \<longrightarrow> rest = []"
      using Cons.IH [of ?t] Cons.prems by (auto simp: ring.skp_invar)
    then show ?thesis
      unfolding step by (intro exI [of _ s'] exI [of _ "l # fin"] exI [of _ rest]) simp
  qed
qed

section \<open>Chunks\<close>

lemma at_feed_lines:
  assumes "ring_ok (at_ring s)" and "length (contents (at_ring s)) \<le> 121"
    and "contents (at_ring s) @ concat chunks = terminated lines @ partial"
    and "\<forall>l \<in> set lines. at_line l" and "at_line partial"
    and "\<forall>c \<in> set chunks. length c + 122 < mBufferCapacity (at_ring s)"
    and "chunks = [] \<longrightarrow> lines = []"
  shows "\<exists>s'. at_feed s chunks = Some s' \<and> mLines s' = mLines s @ lines \<and>
    contents (at_ring s') = partial"
  using assms(1-4,6,7)
proof (induction chunks arbitrary: s lines)
  case Nil
  then show ?case by simp
next
  case (Cons c cs)
  let ?s = "s\<lparr>at_ring := snd (append (at_ring s) c)\<rparr>"
  have room: "length (contents (at_ring s)) + length c < mBufferCapacity (at_ring s)"
    using Cons.prems(2,5) by simp
  have ok: "ring_ok (at_ring ?s)" using Cons.prems(1) by (simp add: ring_ok_append)
  have app: "contents (at_ring ?s) = contents (at_ring s) @ c"
    "mBufferCapacity (at_ring ?s) = mBufferCapacity (at_ring s)"
    using append_within [OF Cons.prems(1) room [unfolded length_contents]] by simp_all
  have "contents (at_ring ?s) @ concat cs = terminated lines @ partial"
    using Cons.prems(3) app by simp
  from process_prefix [OF ok this Cons.prems(4) assms(5)]
  obtain s' fin rest where *: "process ?s = Some s'" "ring_ok (at_ring s')"
    "mBufferCapacity (at_ring s') = mBufferCapacity (at_ring s)"
    "lines = fin @ rest" "mLines s' = mLines s @ fin"
    "contents (at_ring s') @ concat cs = terminated rest @ partial"
    "length (contents (at_ring s')) \<le> 121" "concat cs = [] \<longrightarrow> rest = []"
    using app by auto
  obtain s'' where "at_feed s' cs = Some s''" "mLines s'' = mLines s' @ rest"
    "contents (at_ring s'') = partial"
    using Cons.IH [OF *(2,7,6)] *(3,4,8) Cons.prems(4,5) by auto
  then show ?case using * by auto
qed

lemma at_scan_any:
  "ring_ok p \<Longrightarrow> \<exists>found l p' n. at_scan p i line = (found, l, p') \<and> ring_ok p' \<and>
     contents p' = drop n (contents p) \<and> (found \<longrightarrow> 2 \<le> n)"
proof (induction p i line rule: at_scan.induct)
  case (1 p i line)
  consider (short) "buffer_length p < i + 1"
    | (found) "\<not> buffer_length p < i + 1" "peek p i = 0x0D \<and> peek p (i + 1) = 0x0A"
    | (long) "\<not> buffer_length p < i + 1" "\<not> (peek p i = 0x0D \<and> peek p (i + 1) = 0x0A)" "i > 120"
    | (again) "\<not> buffer_length p < i + 1" "\<not> (peek p i = 0x0D \<and> peek p (i + 1) = 0x0A)" "\<not> i > 120"
    by blast
  then show ?case
  proof cases
    case short
    then have "at_scan p i line = (False, line, p)" by (subst at_scan.simps) simp
    then show ?thesis using 1(2) by (metis drop0)
  next
    case found
    then have "at_scan p i line = (True, line, skip p (i + 2))" by (subst at_scan.simps) simp
    then show ?thesis using 1(2) ring.skp_bytes ring.skp_invar by (metis le_add2)
  next
    case long
    then have "at_scan p i line = (False, line, skip p i)"
      by (subst at_scan.simps) (simp del: de_Morgan_conj)
    then show ?thesis using 1(2) ring.skp_bytes ring.skp_invar by metis
  next
    case again
    then have "at_scan p i line = at_scan p (i + 1) (line @ [peek p i])"
      by (subst at_scan.simps) (simp del: de_Morgan_conj)
    then show ?thesis using 1(1) [OF again 1(2)] by simp
  qed
qed

lemma process_total:
  "ring_ok (at_ring s) \<Longrightarrow> \<exists>s' n. process s = Some s' \<and> ring_ok (at_ring s') \<and>
     contents (at_ring s') = drop n (contents (at_ring s)) \<and>
     (\<exists>new. mLines s' = mLines s @ new)"
proof (induction "buffer_length (at_ring s)" arbitrary: s rule: less_induct)
  case less
  obtain found l p' n where line: "process_line (at_ring s) = (found, l, p')" "ring_ok p'"
    "contents p' = drop n (contents (at_ring s))" "found \<longrightarrow> 2 \<le> n"
    using at_scan_any [OF less.prems, of 0 "[]"] by (auto simp: process_line_def)
  show ?case
  proof (cases "buffer_length (at_ring s) > 0 \<and> found")
    case True
    let ?t = "s\<lparr>at_ring := p', mLines := mLines s @ [l]\<rparr>"
    have "process s = process ?t" using True line by (intro process_step) simp_all
    moreover have "buffer_length p' < buffer_length (at_ring s)"
      using True line by (metis One_nat_def Suc_1 diff_less length_contents length_drop
          less_le_trans less_numeral_extra(1) zero_less_Suc)
    ultimately show ?thesis
      using less.hyps [of ?t] line(2,3) by (auto simp: drop_drop)
  next
    case False
    then have "process s = Some (if buffer_length (at_ring s) > 0 then s\<lparr>at_ring := p'\<rparr> else s)"
      using line(1) by (subst process.simps) auto
    moreover have "contents (at_ring s) = []" if "\<not> buffer_length (at_ring s) > 0"
      using that by (metis length_contents length_greater_0_conv)
    ultimately show ?thesis using line(2,3) less.prems by (cases "buffer_length (at_ring s) > 0") auto
  qed
qed

text \<open>C30: the queued AT lines do not depend on chunking.  Feed a freshly constructed parser with a
  byte stream made of lines of at most 120 bytes, each ended by CR LF, and the start of another line,
  cut into chunks in any way (each chunk smaller than the buffer by 122 bytes), and call
  \<^verbatim>\<open>process\<close> after every chunk.  Every call returns, the queue then holds exactly the
  lines in order, and the unread bytes are exactly the unfinished line.\<close>

theorem at_lines_delivered:
  assumes "concat chunks = terminated lines @ partial" and "chunks \<noteq> []"
    and "\<forall>l \<in> set lines. at_line l" and "at_line partial"
    and "\<forall>c \<in> set chunks. length c + 122 < parser_buffer_size"
  shows "\<exists>s. at_feed at_Parser chunks = Some s \<and> mLines s = lines \<and> contents (at_ring s) = partial"
proof -
  have "mBufferCapacity ring_new = parser_buffer_size" by (simp add: ring_new_def)
  then show ?thesis
    using at_feed_lines [of at_Parser chunks lines partial] assms
    by (simp add: at_Parser_def ring_ok_new)
qed

theorem at_lines_delivered_witness:
  "\<exists>s. at_feed at_Parser [str ''+CREG'', [0x3A, 0x0D], [0x0A, 0x4F, 0x4B, 0x0D, 0x0A, 0x2B]] = Some s \<and>
     mLines s = [str ''+CREG:'', str ''OK''] \<and> contents (at_ring s) = [0x2B]"
proof -
  have "at_line (str ''+CREG:'')" "at_line (str ''OK'')" "at_line [0x2B]"
    by (auto simp: at_line_def crlf_at_def nth_Cons' split: if_splits)
  then show ?thesis
    by (intro at_lines_delivered) (simp_all add: parser_buffer_size_def)
qed

text \<open>\<^verbatim>\<open>process\<close> always returns, whatever bytes are in the buffer: its loop ends, the
  ring stays consistent, it only removes bytes from the front of the unread bytes, and it only
  adds lines at the end of the queue.\<close>

theorem at_process_returns:
  assumes "ring_ok (at_ring s)"
  shows "\<exists>s' n. process s = Some s' \<and> ring_ok (at_ring s') \<and>
     contents (at_ring s') = drop n (contents (at_ring s)) \<and> (\<exists>new. mLines s' = mLines s @ new)"
  using assms by (rule process_total)

theorem at_process_returns_witness:
  "\<exists>s' n. process at_Parser = Some s' \<and> contents (at_ring s') = drop n []"
  using at_process_returns [of at_Parser] by (auto simp: at_Parser_def ring_ok_new)

end
