(* ===== verification/Ctrl_Parser.thy ===== *)
theory Ctrl_Parser
  imports At_Parser
begin

text \<open>
  The control channel of the modem (dependency/format/ctrl): lines that start with \<open>/\<close>
  and end with CR LF or LF, at most 128 bytes long, which report the serving cell
  (\<^verbatim>\<open>/CID\<close>) or the identity of the subscriber (\<^verbatim>\<open>/IDENTITY,IMSI\<close>).  A caught
  exception of a numeric conversion is \<open>None\<close>.
\<close>

section \<open>Messages and operations\<close>

record CellId =
  cid_payload :: bytes
  mMcc :: u32
  mMnc :: u32
  mTac :: u32
  mCell :: u64
  mIsNr :: bool

record IdentityImsi =
  imsi_payload :: bytes
  mImsi :: u64

datatype ctrl_message = Cid CellId | Imsi IdentityImsi

definition parse_cid :: "bytes \<Rightarrow> bytes list \<Rightarrow> ctrl_message outcome" where
  "parse_cid message tokens =
     (if length tokens \<noteq> 6 then Null
      else case stoul (tokens ! 2) of None \<Rightarrow> Null
      | Some mcc \<Rightarrow> (case stoul (tokens ! 3) of None \<Rightarrow> Null
      | Some mnc \<Rightarrow> (case stoul (tokens ! 4) of None \<Rightarrow> Null
      | Some tac \<Rightarrow> (case stoull 10 (tokens ! 5) of None \<Rightarrow> Null
      | Some cell \<Rightarrow>
          Value (Cid \<lparr>cid_payload = message, mMcc = ucast mcc, mMnc = ucast mnc,
            mTac = ucast tac, mCell = cell, mIsNr = (tokens ! 1 = str ''N'')\<rparr>)))))"

definition parse_identity :: "bytes \<Rightarrow> bytes list \<Rightarrow> ctrl_message outcome" where
  "parse_identity message tokens =
     (if length tokens < 2 then Null
      else if tokens ! 1 = str ''IMSI'' then
        (if length tokens \<noteq> 3 then Null
         else case stoull 10 (tokens ! 2) of None \<Rightarrow> Null
         | Some imsi \<Rightarrow> Value (Imsi \<lparr>imsi_payload = message, mImsi = imsi\<rparr>))
      else Null)"

definition ctrl_dispatch :: "bytes \<Rightarrow> ctrl_message outcome" where
  "ctrl_dispatch payload =
     (let tokens = split payload 0x2C
      in if length tokens < 1 then Null
         else if tokens ! 0 = str ''/CID'' then parse_cid payload tokens
         else if tokens ! 0 = str ''/IDENTITY'' then parse_identity payload tokens
         else Null)"

text \<open>The search for the line end, from \<^verbatim>\<open>length\<close> on.\<close>

datatype line_scan = NotEnough | TooLong nat | Ending nat nat

function ctrl_scan :: "ring \<Rightarrow> nat \<Rightarrow> line_scan" where
  "ctrl_scan p len =
     (if buffer_length p < len + 1 then NotEnough
      else if peek p len = 0x0D \<and> peek p (len + 1) = 0x0A then Ending len 2
      else if peek p len = 0x0A then Ending len 1
      else if len + 1 > 128 then TooLong (len + 1)
      else ctrl_scan p (len + 1))"
  by pat_completeness auto

termination by (relation "measure (\<lambda>(p, n). 128 - n)") auto

declare ctrl_scan.simps [simp del]

definition ctrl_parse_line :: "ring \<Rightarrow> ctrl_message outcome \<times> ring" where
  "ctrl_parse_line p =
     (if buffer_length p < 1 then (Null, p)
      else case ctrl_scan p 1 of
        NotEnough \<Rightarrow> (Null, p)
      | TooLong n \<Rightarrow> (Null, skip p n)
      | Ending len suffix \<Rightarrow>
          (ctrl_dispatch (copy_to_buffer p len), skip p (len + suffix)))"

definition ctrl_try_parse :: "ring \<Rightarrow> (ctrl_message outcome \<times> ring) option" where
  "ctrl_try_parse p =
     map_option ctrl_parse_line
       (while_option (\<lambda>p. 1 \<le> buffer_length p \<and> \<not> peek p 0 = 0x2F) (\<lambda>p. skip p 1) p)"

section \<open>The parser as a function on the unread bytes\<close>

definition head_is :: "u8 \<Rightarrow> bytes \<Rightarrow> bool" where
  "head_is c bs \<longleftrightarrow> (case bs of [] \<Rightarrow> False | b # _ \<Rightarrow> b = c)"

definition ends_at :: "bytes \<Rightarrow> nat \<Rightarrow> bool" where
  "ends_at bs k \<longleftrightarrow> bs ! k = 0x0A \<or> crlf_at bs k"

definition ctrl_line_spec :: "bytes \<Rightarrow> ctrl_message outcome \<times> bytes" where
  "ctrl_line_spec bs =
     (case find (ends_at bs) [1..<min 129 (length bs)] of
        Some k \<Rightarrow> (ctrl_dispatch (take k bs), drop (k + (if bs ! k = 0x0A then 1 else 2)) bs)
      | None \<Rightarrow> if length bs < 129 then (Null, bs) else (Null, drop 129 bs))"

definition ctrl_spec :: "bytes \<Rightarrow> ctrl_message outcome \<times> bytes" where
  "ctrl_spec bs = ctrl_line_spec (search 1 (head_is 0x2F) bs)"

lemma ctrl_scan_spec:
  assumes "ring_ok p" and "i \<le> 128"
  shows "ctrl_scan p i =
    (case find (ends_at (contents p)) [i..<min 129 (length (contents p))] of
       Some k \<Rightarrow> Ending k (if contents p ! k = 0x0A then 1 else 2)
     | None \<Rightarrow> if length (contents p) < 129 then NotEnough else TooLong 129)"
  using assms
proof (induction p i rule: ctrl_scan.induct)
  case (1 p i)
  let ?bs = "contents p"
  show ?case
  proof (cases "buffer_length p < i + 1")
    case True
    then show ?thesis using 1(3) by (subst ctrl_scan.simps) (simp add: find_upt [of _ i])
  next
    case False
    then have i: "i < min 129 (length ?bs)" using 1(3) by simp
    have pk: "peek p i = ?bs ! i" using False 1(2) by (simp add: ring.pk_eq)
    have crlf: "(peek p i = 0x0D \<and> peek p (i + 1) = 0x0A) = crlf_at ?bs i"
      using at_scan_crlf [OF 1(2)] i by simp
    note step = ctrl_scan.simps [of p i, unfolded crlf, unfolded pk]
    consider (crlf) "crlf_at ?bs i" | (lf) "\<not> crlf_at ?bs i" "?bs ! i = 0x0A"
      | (none) "\<not> ends_at ?bs i" by (auto simp: ends_at_def)
    then show ?thesis
    proof cases
      case crlf
      then have "?bs ! i \<noteq> 0x0A" by (simp add: crlf_at_def)
      then show ?thesis using crlf False i unfolding step by (simp add: find_upt [of _ i] ends_at_def)
    next
      case lf
      then show ?thesis using False i unfolding step by (simp add: find_upt [of _ i] ends_at_def)
    next
      case none
      then have n: "\<not> crlf_at ?bs i" "?bs ! i \<noteq> 0x0A" by (auto simp: ends_at_def)
      have f: "find (ends_at ?bs) [i..<min 129 (length ?bs)] =
          find (ends_at ?bs) [i + 1..<min 129 (length ?bs)]"
        using none i by (simp add: find_upt [of _ i])
      show ?thesis
      proof (cases "i = 128")
        case True
        then show ?thesis using n False i unfolding step f by (simp add: find_upt)
      next
        case ne: False
        then have "\<not> 128 < i + 1" "i + 1 \<le> 128" using 1(3) by auto
        then have "ctrl_scan p i = ctrl_scan p (i + 1)"
          using n False unfolding step by simp
        then show ?thesis
          using 1(1) [OF False _ _ \<open>\<not> 128 < i + 1\<close> 1(2) \<open>i + 1 \<le> 128\<close>] n pk crlf f by simp
      qed
    qed
  qed
qed

lemma ctrl_parse_line_refines:
  assumes "ring_ok s"
  shows "(fst (ctrl_parse_line s), contents (snd (ctrl_parse_line s))) = ctrl_line_spec (contents s) \<and>
    ring_ok (snd (ctrl_parse_line s))"
proof (cases "buffer_length s < 1")
  case True
  then have "contents s = []" by (metis length_contents less_one list.size(3) length_0_conv)
  then show ?thesis using True assms(1) by (simp add: ctrl_parse_line_def ctrl_line_spec_def)
next
  case False
  note scan = ctrl_scan_spec [OF assms, of 1, simplified]
  show ?thesis
  proof (cases "find (ends_at (contents s)) [1..<min 129 (length (contents s))]")
    case None
    then show ?thesis
      using False assms(1) scan
      by (simp add: ctrl_parse_line_def ctrl_line_spec_def ring.skp_bytes ring.skp_invar)
  next
    case (Some k)
    then have "k < 2 ^ 32" using find_upt_SomeD [OF Some] by simp
    then have "copy_to_buffer s k = take k (contents s)" by (rule ring.cpy_eq [OF assms])
    then show ?thesis
      using Some False assms(1) scan
      by (simp add: ctrl_parse_line_def ctrl_line_spec_def ring.skp_bytes ring.skp_invar)
  qed
qed

lemma ctrl_result:
  assumes "ring_ok p" and "ctrl_spec (contents p) = (r, bs)"
  shows "\<exists>p'. ctrl_try_parse p = Some (r, p') \<and> ring_ok p' \<and> contents p' = bs"
proof -
  have head: "(peek s 0 = 0x2F) = head_is 0x2F (contents s)"
    if "ring_ok s" "1 \<le> length (contents s)" for s
    using that by (cases "contents s") (simp_all add: ring.pk_eq head_is_def)
  obtain s where s: "while_option (\<lambda>p. 1 \<le> buffer_length p \<and> \<not> peek p 0 = 0x2F)
      (\<lambda>p. skip p 1) p = Some s" "ring_ok s" "contents s = search 1 (head_is 0x2F) (contents p)"
    using ring.sync_loop [where f = "\<lambda>p. peek p 0 = 0x2F" and g = "head_is 0x2F",
        OF assms(1) zero_less_one head] by blast
  have "(fst (ctrl_parse_line s), contents (snd (ctrl_parse_line s))) = (r, bs)
      \<and> ring_ok (snd (ctrl_parse_line s))"
    using ctrl_parse_line_refines [OF s(2)] assms(2) s(3) by (simp add: ctrl_spec_def)
  then show ?thesis
    using s by (intro exI [of _ "snd (ctrl_parse_line s)"])
      (auto simp: ctrl_try_parse_def prod_eq_iff)
qed

text \<open>The control parser refines a function on the unread bytes.  Every call returns and its
  result and the remaining bytes are those of \<open>ctrl_spec\<close>: bytes before the first \<open>/\<close> are
  dropped; then the first CR LF or LF at an offset of 1 to 128 ends the line, which is dispatched and
  removed; a longer run loses its first 129 bytes, an unfinished line stays in the buffer.\<close>

theorem ctrl_try_parse_refines:
  assumes "ring_ok p"
  shows "\<exists>r p'. ctrl_try_parse p = Some (r, p') \<and> ring_ok p' \<and> (r, contents p') = ctrl_spec (contents p)"
  using ctrl_result [OF assms, of "fst (ctrl_spec (contents p))" "snd (ctrl_spec (contents p))"]
  by auto

theorem ctrl_try_parse_refines_witness:
  "\<exists>r p'. ctrl_try_parse ring_new = Some (r, p') \<and> (r, contents p') = ctrl_spec []"
  using ctrl_try_parse_refines [OF ring_ok_new] by auto

lemma search_to_head:
  assumes "c \<notin> set junk" and "xs \<noteq> []" and "hd xs = c"
  shows "search 1 (head_is c) (junk @ xs) = xs"
proof -
  have "search 1 (head_is c) (junk @ xs) = search 1 (head_is c) xs"
  proof (rule search_append_miss)
    fix i assume i: "i < length junk"
    then have "drop i (junk @ xs) = junk ! i # drop (Suc i) junk @ xs"
      by (simp add: Cons_nth_drop_Suc [symmetric])
    then show "\<not> head_is c (drop i (junk @ xs))"
      using assms(1) nth_mem [OF i] by (auto simp: head_is_def)
  qed simp
  also have "\<dots> = xs" using assms(2,3) by (intro search_hit) (cases xs; simp add: head_is_def)
  finally show ?thesis .
qed

section \<open>Reports\<close>

text \<open>The lines that the peer writes, with numbers in decimal notation.\<close>

fun ctrl_text :: "ctrl_message \<Rightarrow> bytes" where
  "ctrl_text (Cid c) = separated 0x2C [str ''/CID'', str (if mIsNr c then ''N'' else ''L''),
     decimal (unat (mMcc c)), decimal (unat (mMnc c)), decimal (unat (mTac c)),
     decimal (unat (mCell c))]"
| "ctrl_text (Imsi i) = separated 0x2C [str ''/IDENTITY'', str ''IMSI'', decimal (unat (mImsi i))]"

fun ctrl_payload :: "ctrl_message \<Rightarrow> bytes" where
  "ctrl_payload (Cid c) = cid_payload c"
| "ctrl_payload (Imsi i) = imsi_payload i"

lemma split_ctrl_text:
  "split (ctrl_text (Cid c)) 0x2C = [str ''/CID'', str (if mIsNr c then ''N'' else ''L''),
     decimal (unat (mMcc c)), decimal (unat (mMnc c)), decimal (unat (mTac c)),
     decimal (unat (mCell c))]"
  "split (ctrl_text (Imsi i)) 0x2C = [str ''/IDENTITY'', str ''IMSI'', decimal (unat (mImsi i))]"
  unfolding ctrl_text.simps by (rule split_separated; auto simp: comma_not_decimal)+

lemma dispatch_ctrl_text:
  "ctrl_payload m = ctrl_text m \<Longrightarrow> ctrl_dispatch (ctrl_text m) = Value m"
proof (cases m)
  case (Cid c)
  then show "ctrl_payload m = ctrl_text m \<Longrightarrow> ?thesis"
    by (simp add: ctrl_dispatch_def split_ctrl_text parse_cid_def stoull_u32 stoull_u64
        del: ctrl_text.simps)
next
  case (Imsi i)
  then show "ctrl_payload m = ctrl_text m \<Longrightarrow> ?thesis"
    by (simp add: ctrl_dispatch_def split_ctrl_text parse_identity_def stoull_u64
        del: ctrl_text.simps)
qed

lemma length_ctrl_text: "length (ctrl_text m) \<le> 128"
proof (cases m)
  case (Cid c)
  then show ?thesis
    using length_decimal_word(1) [of "mMcc c"] length_decimal_word(1) [of "mMnc c"]
      length_decimal_word(1) [of "mTac c"] length_decimal_word(2) [of "mCell c"] by auto
next
  case (Imsi i)
  then show ?thesis using length_decimal_word(2) [of "mImsi i"] by auto
qed

lemma ctrl_text_no_eol: "0x0A \<notin> set (ctrl_text m) \<and> 0x0D \<notin> set (ctrl_text m)"
  by (cases m) (auto simp: decimal_no_eol)

lemma ctrl_text_head: "\<exists>t. ctrl_text m = 0x2F # t"
  by (cases m) auto

lemma ctrl_line_end:
  assumes "eol = [0x0D, 0x0A] \<or> eol = [0x0A]" and "line \<noteq> []" and "length line \<le> 128"
    and "0x0A \<notin> set line" and "0x0D \<notin> set line"
  shows "ctrl_line_spec (line @ eol @ rest) = (ctrl_dispatch line, rest)"
proof -
  let ?bs = "line @ eol @ rest"
  have "find (ends_at ?bs) [1..<min 129 (length ?bs)] = Some (length line)"
  proof (rule find_upt_SomeI)
    show "1 \<le> length line" using assms(2) by (cases line) auto
    show "length line < min 129 (length ?bs)" using assms(1,3) by auto
    show "ends_at ?bs (length line)" using assms(1) by (auto simp: ends_at_def crlf_at_def nth_append)
    fix j assume "j < length line"
    then have "?bs ! j \<in> set line" by (simp add: nth_append)
    then show "\<not> ends_at ?bs j" using assms(4,5) by (auto simp: ends_at_def crlf_at_def)
  qed
  then show ?thesis using assms(1) by (auto simp: ctrl_line_spec_def nth_append)
qed


definition sample_cid :: ctrl_message where
  "sample_cid = Cid \<lparr>cid_payload = str ''/CID,N,262,2,27013,4294967295999'',
     mMcc = 262, mMnc = 2, mTac = 27013, mCell = 4294967295999, mIsNr = True\<rparr>"

lemma sample_cid_text: "ctrl_text sample_cid = str ''/CID,N,262,2,27013,4294967295999''"
  by (simp add: sample_cid_def decimal.simps)


section \<open>A stream in chunks\<close>

lemma ctrl_capacity: "ctrl_try_parse p = Some (r, p') \<Longrightarrow> mBufferCapacity p' = mBufferCapacity p"
  unfolding ctrl_try_parse_def
  by (erule sync_capacity) (simp add: ctrl_parse_line_def split: line_scan.split)

interpretation ctrl: framing_parser ring_ok contents "\<lambda>p. mBufferCapacity p - 1"
  "\<lambda>p c. snd (append p c)" ctrl_try_parse ctrl_spec
proof
  fix p :: ring and c
  assume ok: "ring_ok p"
  show "ring_ok (snd (append p c)) \<and> contents (snd (append p c)) = contents p @ c \<and>
      mBufferCapacity (snd (append p c)) - 1 = mBufferCapacity p - 1"
    if "length (contents p) + length c \<le> mBufferCapacity p - 1"
    using ok that by (rule ring_put)
  show "\<exists>r p'. ctrl_try_parse p = Some (r, p') \<and> ring_ok p' \<and>
      mBufferCapacity p' - 1 = mBufferCapacity p - 1 \<and> (r, contents p') = ctrl_spec (contents p)"
  proof -
    obtain p' where "ctrl_try_parse p = Some (fst (ctrl_spec (contents p)), p')" "ring_ok p'"
      "contents p' = snd (ctrl_spec (contents p))"
      using ctrl_result [OF ok prod.collapse [symmetric]] by blast
    then show ?thesis using ctrl_capacity [of p] by (intro exI [of _ "fst (ctrl_spec (contents p))"] exI [of _ p']) simp
  qed
qed

lemma length_ctrl_report: "length (ctrl_text m) < 128"
proof (cases m)
  case (Cid c)
  then show ?thesis
    using length_decimal_word(1) [of "mMcc c"] length_decimal_word(1) [of "mMnc c"]
      length_decimal_word(1) [of "mTac c"] length_decimal_word(2) [of "mCell c"] by auto
next
  case (Imsi i)
  then show ?thesis using length_decimal_word(2) [of "mImsi i"] by auto
qed

lemma ctrl_frame:
  assumes "eol = [0x0D, 0x0A] \<or> eol = [0x0A]" and "ctrl_payload m = ctrl_text m"
  shows "frame ctrl_spec m (ctrl_text m @ eol)"
proof (rule frameI)
  obtain t where t: "ctrl_text m = 0x2F # t" using ctrl_text_head by blast
  have plain: "0x0A \<notin> set (ctrl_text m)" "0x0D \<notin> set (ctrl_text m)" using ctrl_text_no_eol by auto
  show "ctrl_text m @ eol \<noteq> []" by (simp add: t)
  show "ctrl_spec ((ctrl_text m @ eol) @ x) = (Value m, x)" for x
  proof -
    have "ctrl_spec ((ctrl_text m @ eol) @ x) = ctrl_line_spec (ctrl_text m @ eol @ x)"
      by (simp add: ctrl_spec_def t head_is_def)
    also have "\<dots> = (ctrl_dispatch (ctrl_text m), x)"
      by (rule ctrl_line_end [OF assms(1) _ length_ctrl_text plain]) (simp add: t)
    finally show ?thesis by (simp only: dispatch_ctrl_text [OF assms(2)])
  qed
  show "ctrl_spec b = (Null, b)" if b: "b @ x = ctrl_text m @ eol" "x \<noteq> []" for b x
  proof -
    have at: "b ! j = (ctrl_text m @ eol) ! j" if "j < length b" for j
      using prefix_nth [OF b(1) that] .
    have lb: "length b < length (ctrl_text m) + length eol" using proper_prefix [OF b] by simp
    have "find (ends_at b) [1..<min 129 (length b)] = None"
    proof (clarsimp simp: find_None_iff)
      fix j assume j: "Suc 0 \<le> j" "j < 129" "j < length b" "ends_at b j"
      have "b ! j \<noteq> 0x0A"
      proof (cases "j < length (ctrl_text m)")
        case True
        then show ?thesis
          using at [OF j(3)] plain(1) nth_mem [OF True] by (auto simp: nth_append simp del: nth_mem)
      next
        case False
        then show ?thesis using at [OF j(3)] lb j(3) assms(1) by (auto simp: nth_append)
      qed
      moreover have "\<not> crlf_at b j"
      proof
        assume c: "crlf_at b j"
        then have "Suc j < length (ctrl_text m) + 1" using lb assms(1) by (auto simp: crlf_at_def)
        then have "b ! j \<in> set (ctrl_text m)" using at [OF j(3)] by (simp add: nth_append)
        then show False using c plain(2) by (simp add: crlf_at_def)
      qed
      ultimately show False using j(4) by (simp add: ends_at_def)
    qed
    moreover have "length b < 129" using lb length_ctrl_report [of m] assms(1) by auto
    moreover have "search 1 (head_is 0x2F) b = b"
      using at [of 0] by (cases b) (simp_all add: t head_is_def)
    ultimately show ?thesis by (simp add: ctrl_spec_def ctrl_line_spec_def)
  qed
qed

end
