(* ===== verification/Time_Lib.thy ===== *)
theory Time_Lib
  imports Complex_Main "HOL-Library.Signed_Division"
begin

text \<open>
  The time library (dependency/time): time stamps with a normalised fraction, the calendar of
  UTC, and the time scales TAI, GPS, Galileo, BeiDou and GLONASS as offsets from UTC.
  \<^verbatim>\<open>int64_t\<close> is \<open>int\<close>: the values are seconds and days of the years 1970 to 2099 and
  stay far below \<open>2 ^ 63\<close>; \<open>sdiv\<close> and \<open>smod\<close> are the truncating division and remainder
  of C++.  A \<^verbatim>\<open>double\<close> is the exact rational number it stands for, without rounding; a NaN,
  which the code rejects by an assertion, has no counterpart.  The conversions that print a date and
  the sidereal time are not modelled.
\<close>

section \<open>Time stamps\<close>

definition DAYS_PER_WEEK :: int where "DAYS_PER_WEEK = 7"
definition DAYS_PER_YEAR :: int where "DAYS_PER_YEAR = 365"
definition MINUTE_IN_SECONDS :: int where "MINUTE_IN_SECONDS = 60"
definition HOUR_IN_SECONDS :: int where "HOUR_IN_SECONDS = MINUTE_IN_SECONDS * 60"
definition DAY_IN_SECONDS :: int where "DAY_IN_SECONDS = HOUR_IN_SECONDS * 24"
definition WEEK_IN_SECONDS :: int where "WEEK_IN_SECONDS = DAY_IN_SECONDS * DAYS_PER_WEEK"
definition YEAR_IN_SECONDS :: int where "YEAR_IN_SECONDS = DAY_IN_SECONDS * 365"

lemmas seconds_defs = DAYS_PER_WEEK_def DAYS_PER_YEAR_def MINUTE_IN_SECONDS_def
  HOUR_IN_SECONDS_def DAY_IN_SECONDS_def WEEK_IN_SECONDS_def YEAR_IN_SECONDS_def

datatype timestamp = Timestamp (ts_seconds: int) (ts_fraction: rat)

text \<open>\<^verbatim>\<open>static_cast<int64_t>\<close> of a \<^verbatim>\<open>double\<close>: towards zero.\<close>

definition trunc :: "rat \<Rightarrow> int" where
  "trunc q = (if 0 \<le> q then \<lfloor>q\<rfloor> else \<lceil>q\<rceil>)"

function borrow :: "int \<Rightarrow> rat \<Rightarrow> int \<times> rat" where
  "borrow s f =
     (if f < 0 then let underflow = trunc (- f) + 1 in borrow (s - underflow) (f + of_int underflow)
      else (s, f))"
  by pat_completeness auto

termination
proof (relation "measure (\<lambda>(s, f). if f < 0 then 1 else 0)", goal_cases)
  case (2 s f u)
  have "- f < of_int (\<lfloor>- f\<rfloor> + 1)" by linarith
  then have "\<not> f + of_int u < 0" using 2 by (simp add: trunc_def)
  then show ?case using 2 by simp
qed simp

function carry :: "int \<Rightarrow> rat \<Rightarrow> int \<times> rat" where
  "carry s f =
     (if f \<ge> 1 then let overflow = trunc f in carry (s + overflow) (f - of_int overflow)
      else (s, f))"
  by pat_completeness auto

termination
proof (relation "measure (\<lambda>(s, f). if f \<ge> 1 then 1 else 0)", goal_cases)
  case (2 s f u)
  have "f < of_int (\<lfloor>f\<rfloor> + 1)" by linarith
  then have "\<not> f - of_int u \<ge> 1" using 2 by (simp add: trunc_def)
  then show ?case using 2 by simp
qed simp

declare borrow.simps [simp del] carry.simps [simp del]

definition normalize :: "timestamp \<Rightarrow> timestamp" where
  "normalize t =
     (case borrow (ts_seconds t) (ts_fraction t) of (s, f) \<Rightarrow>
        case carry s f of (s', f') \<Rightarrow> Timestamp s' f')"

definition timestamp_of :: "int \<Rightarrow> rat \<Rightarrow> timestamp" where
  "timestamp_of s f = normalize (Timestamp s f)"

definition ts_add_int :: "int \<Rightarrow> timestamp \<Rightarrow> timestamp" where
  "ts_add_int n t = Timestamp (ts_seconds t + n) (ts_fraction t)"

definition ts_sub_int :: "int \<Rightarrow> timestamp \<Rightarrow> timestamp" where
  "ts_sub_int n t = Timestamp (ts_seconds t - n) (ts_fraction t)"

definition ts_add :: "rat \<Rightarrow> timestamp \<Rightarrow> timestamp" where
  "ts_add q t = normalize (Timestamp (ts_seconds t) (ts_fraction t + q))"

definition ts_sub :: "rat \<Rightarrow> timestamp \<Rightarrow> timestamp" where
  "ts_sub q t = normalize (Timestamp (ts_seconds t) (ts_fraction t - q))"

definition timestamp_of_double :: "rat \<Rightarrow> timestamp" where
  "timestamp_of_double q = ts_add q (Timestamp 0 0)"

definition ts_plus :: "timestamp \<Rightarrow> timestamp \<Rightarrow> timestamp" where
  "ts_plus a b = timestamp_of (ts_seconds a + ts_seconds b) (ts_fraction a + ts_fraction b)"

definition ts_minus :: "timestamp \<Rightarrow> timestamp \<Rightarrow> timestamp" where
  "ts_minus a b = timestamp_of (ts_seconds a - ts_seconds b) (ts_fraction a - ts_fraction b)"

definition ts_plus_double :: "timestamp \<Rightarrow> rat \<Rightarrow> timestamp" where
  "ts_plus_double t q =
     (let i = trunc q in timestamp_of (ts_seconds t + i) (ts_fraction t + (q - of_int i)))"

definition full_seconds :: "timestamp \<Rightarrow> rat" where
  "full_seconds t = of_int (ts_seconds t) + ts_fraction t"

definition ts_eq :: "timestamp \<Rightarrow> timestamp \<Rightarrow> bool" where
  "ts_eq a b \<longleftrightarrow> ts_seconds a = ts_seconds b \<and> \<bar>ts_fraction a - ts_fraction b\<bar> < 1 / 10 ^ 9"

text \<open>The order of \<^verbatim>\<open>operator<\<close>: lexicographic.\<close>

definition timestamp_before :: "timestamp \<Rightarrow> timestamp \<Rightarrow> bool" where
  "timestamp_before a b \<longleftrightarrow> ts_seconds a < ts_seconds b \<or>
     ts_seconds a = ts_seconds b \<and> ts_fraction a < ts_fraction b"

instantiation timestamp :: linorder
begin

definition less_timestamp :: "timestamp \<Rightarrow> timestamp \<Rightarrow> bool" where
  "less_timestamp = timestamp_before"

definition less_eq_timestamp :: "timestamp \<Rightarrow> timestamp \<Rightarrow> bool" where
  "less_eq_timestamp a b \<longleftrightarrow> a < b \<or> a = (b :: timestamp)"

instance
proof
  fix x y z :: timestamp
  show "x < y \<longleftrightarrow> x \<le> y \<and> \<not> y \<le> x" "x \<le> x" "x \<le> y \<Longrightarrow> y \<le> z \<Longrightarrow> x \<le> z"
    "x \<le> y \<Longrightarrow> y \<le> x \<Longrightarrow> x = y"
    by (auto simp: less_timestamp_def timestamp_before_def less_eq_timestamp_def)
  show "x \<le> y \<or> y \<le> x"
    by (cases x; cases y) (auto simp: less_timestamp_def timestamp_before_def less_eq_timestamp_def)
qed

end

section \<open>Normalised time stamps\<close>

definition normal :: "timestamp \<Rightarrow> bool" where
  "normal t \<longleftrightarrow> 0 \<le> ts_fraction t \<and> ts_fraction t < 1"

lemma normal_Timestamp [simp]: "normal (Timestamp s f) \<longleftrightarrow> 0 \<le> f \<and> f < 1"
  by (simp add: normal_def)

lemma full_seconds_Timestamp [simp]: "full_seconds (Timestamp s f) = of_int s + f"
  by (simp add: full_seconds_def)

lemma borrow_eq: "borrow s f = (if f < 0 then (s - (\<lfloor>- f\<rfloor> + 1), f + of_int (\<lfloor>- f\<rfloor> + 1)) else (s, f))"
proof (cases "f < 0")
  case True
  have "\<not> f + of_int (\<lfloor>- f\<rfloor> + 1) < 0" by linarith
  then show ?thesis
    using True by (subst borrow.simps) (simp add: trunc_def borrow.simps [of _ "f + _"])
qed (simp add: borrow.simps)

lemma carry_eq: "0 \<le> f \<Longrightarrow> carry s f = (s + \<lfloor>f\<rfloor>, f - of_int \<lfloor>f\<rfloor>)"
proof (cases "f \<ge> 1")
  case True
  have "\<not> f - of_int \<lfloor>f\<rfloor> \<ge> 1" by linarith
  then show ?thesis
    using True by (subst carry.simps) (simp add: trunc_def carry.simps [of _ "f - _"] Let_def)
next
  case False
  assume "0 \<le> f"
  then have "\<lfloor>f\<rfloor> = 0" using False by (simp add: floor_eq_iff)
  then show ?thesis using False by (simp add: carry.simps)
qed

text \<open>Both loops of \<^verbatim>\<open>normalize\<close> end, and together they compute the integral and the
  fractional part.\<close>

lemma normalize_eq: "normalize (Timestamp s f) = Timestamp (s + \<lfloor>f\<rfloor>) (f - of_int \<lfloor>f\<rfloor>)"
proof (cases "f < 0")
  case True
  let ?u = "\<lfloor>- f\<rfloor> + 1"
  have "0 \<le> f + of_int ?u" by linarith
  moreover have "\<lfloor>f + of_int ?u\<rfloor> = \<lfloor>f\<rfloor> + ?u" by simp
  ultimately show ?thesis
    using True by (simp add: normalize_def borrow_eq carry_eq)
next
  case False
  then show ?thesis by (simp add: normalize_def borrow_eq carry_eq)
qed

lemma normal_normalize [simp]: "normal (normalize t)"
proof (cases t)
  case (Timestamp s f)
  have "of_int \<lfloor>f\<rfloor> \<le> f" "f < of_int \<lfloor>f\<rfloor> + 1" by linarith+
  then show ?thesis by (simp add: Timestamp normalize_eq normal_def)
qed

lemma full_seconds_normalize [simp]: "full_seconds (normalize t) = full_seconds t"
  by (cases t) (simp add: normalize_eq full_seconds_def)

lemma normal_unique: "normal a \<Longrightarrow> normal b \<Longrightarrow> full_seconds a = full_seconds b \<Longrightarrow> a = b"
proof -
  assume n: "normal a" "normal b" and eq: "full_seconds a = full_seconds b"
  have "\<lfloor>full_seconds a\<rfloor> = ts_seconds a" "\<lfloor>full_seconds b\<rfloor> = ts_seconds b"
    using n by (simp_all add: full_seconds_def normal_def floor_eq_iff)
  then have "ts_seconds a = ts_seconds b" using eq by simp
  then show ?thesis using eq by (intro timestamp.expand) (simp add: full_seconds_def)
qed

lemma normal_less: "normal a \<Longrightarrow> normal b \<Longrightarrow> a < b \<longleftrightarrow> full_seconds a < full_seconds b"
proof -
  assume n: "normal a" "normal b"
  consider "ts_seconds a < ts_seconds b" | "ts_seconds a = ts_seconds b" | "ts_seconds b < ts_seconds a"
    by linarith
  then show ?thesis
  proof cases
    case 1
    then have "of_int (ts_seconds a) + 1 \<le> (of_int (ts_seconds b) :: rat)"
      by (metis of_int_1 of_int_add of_int_le_iff zless_imp_add1_zle)
    then show ?thesis using 1 n by (simp add: less_timestamp_def timestamp_before_def full_seconds_def normal_def)
  next
    case 2
    then show ?thesis by (simp add: less_timestamp_def timestamp_before_def full_seconds_def)
  next
    case 3
    then have "of_int (ts_seconds b) + 1 \<le> (of_int (ts_seconds a) :: rat)"
      by (metis of_int_1 of_int_add of_int_le_iff zless_imp_add1_zle)
    then show ?thesis using 3 n by (simp add: less_timestamp_def timestamp_before_def full_seconds_def normal_def)
  qed
qed

lemma normal_ops [simp]:
  "normal (timestamp_of s f)" "normal (ts_add q t)" "normal (ts_sub q t)" "normal (ts_plus a b)"
  "normal (ts_minus a b)" "normal (ts_plus_double t q)" "normal (timestamp_of_double q)"
  "normal t \<Longrightarrow> normal (ts_add_int n t)" "normal t \<Longrightarrow> normal (ts_sub_int n t)"
  by (simp_all add: timestamp_of_def ts_add_def ts_sub_def ts_plus_def ts_minus_def
      ts_plus_double_def timestamp_of_double_def Let_def)
    (simp_all add: ts_add_int_def ts_sub_int_def normal_def)

lemma full_seconds_ops [simp]:
  "full_seconds (timestamp_of s f) = of_int s + f" "full_seconds (ts_add q t) = full_seconds t + q"
  "full_seconds (ts_sub q t) = full_seconds t - q"
  "full_seconds (ts_plus a b) = full_seconds a + full_seconds b"
  "full_seconds (ts_minus a b) = full_seconds a - full_seconds b"
  "full_seconds (ts_plus_double t q) = full_seconds t + q"
  "full_seconds (timestamp_of_double q) = q"
  "full_seconds (ts_add_int n t) = full_seconds t + of_int n"
  "full_seconds (ts_sub_int n t) = full_seconds t - of_int n"
  by (simp_all add: timestamp_of_def ts_add_def ts_sub_def ts_plus_def ts_minus_def
      ts_plus_double_def timestamp_of_double_def Let_def ts_add_int_def ts_sub_int_def)
    (simp_all add: full_seconds_def)

end
