(* ===== verification/Calendar.thy ===== *)
theory Calendar
  imports Time_Lib
begin

text \<open>
  The calendar of UTC (dependency/time/utc.cpp): from a date to the seconds since 1970-01-01 and
  back.  \<open>None\<close> is a failed assertion of \<^verbatim>\<open>utc_from_date\<close>.
\<close>

section \<open>Operations\<close>

definition UTC_DAY_OF_YEAR :: "int list" where
  "UTC_DAY_OF_YEAR = [1, 32, 60, 91, 121, 152, 182, 213, 244, 274, 305, 335]"

definition UTC_START_YEAR :: int where "UTC_START_YEAR = 1970"
definition UTC_END_YEAR :: int where "UTC_END_YEAR = 2099"
definition UTC_DAYS_PER_4YEAR :: int where "UTC_DAYS_PER_4YEAR = DAYS_PER_YEAR * 4 + 1"

definition UTC_MONTH_DAYS :: "int list" where
  "UTC_MONTH_DAYS =
    [31, 28, 31, 30, 31, 30, 31, 31, 30, 31, 30, 31,
     31, 28, 31, 30, 31, 30, 31, 31, 30, 31, 30, 31,
     31, 29, 31, 30, 31, 30, 31, 31, 30, 31, 30, 31,
     31, 28, 31, 30, 31, 30, 31, 31, 30, 31, 30, 31]"

record TimePoint =
  tp_year :: int
  tp_month :: int
  tp_day :: int
  tp_hour :: int
  tp_minutes :: int
  tp_seconds :: rat

function years_loop :: "int \<Rightarrow> int \<Rightarrow> int \<Rightarrow> int" where
  "years_loop i year days =
     (if i < year then
        years_loop (i + 1) year
          (if i smod 4 = 0 then days + (DAYS_PER_YEAR + 1) else days + DAYS_PER_YEAR)
      else days)"
  by pat_completeness auto

termination by (relation "measure (\<lambda>(i, year, _). nat (year - i))") auto

declare years_loop.simps [simp del]

definition days_of_date :: "int \<Rightarrow> int \<Rightarrow> int \<Rightarrow> int \<Rightarrow> int" where
  "days_of_date start year month day =
     years_loop start year 0 + (UTC_DAY_OF_YEAR ! nat (month - 1) - 1) + day + -1
     + (if year smod 4 = 0 \<and> month \<ge> 3 then 1 else 0)"

definition utc_from_date ::
  "int \<Rightarrow> int \<Rightarrow> int \<Rightarrow> int \<Rightarrow> int \<Rightarrow> rat \<Rightarrow> timestamp option" where
  "utc_from_date year month day hour minutes seconds =
     (if \<not> (UTC_START_YEAR \<le> year \<and> year < UTC_END_YEAR) \<or> \<not> (0 < month \<and> month \<le> 12)
        \<or> \<not> (0 < day \<and> day \<le> 31) then None
      else
        let days = days_of_date UTC_START_YEAR year month day;
            seconds_i = trunc seconds
        in Some (timestamp_of
             (days * DAY_IN_SECONDS + hour * HOUR_IN_SECONDS + minutes * MINUTE_IN_SECONDS + seconds_i)
             (seconds - of_int seconds_i)))"

fun month_loop :: "int list \<Rightarrow> nat \<Rightarrow> int \<Rightarrow> nat \<times> int" where
  "month_loop [] month day = (month, day)"
| "month_loop (m # ms) month day =
     (if day < m then (month, day) else month_loop ms (month + 1) (day - m))"

text \<open>The part that \<^verbatim>\<open>Utc\<close> and \<^verbatim>\<open>Gps\<close> have in common; they differ in the first year.\<close>

definition timepoint_since :: "int \<Rightarrow> timestamp \<Rightarrow> TimePoint" where
  "timepoint_since start t =
     (let time = normalize t;
          days = ts_seconds time sdiv DAY_IN_SECONDS;
          (month, day) = month_loop UTC_MONTH_DAYS 0 (days smod UTC_DAYS_PER_4YEAR);
          year = start + 4 * (days sdiv UTC_DAYS_PER_4YEAR) + int (month div 12);
          tod = ts_seconds time - days * DAY_IN_SECONDS;
          hour = tod sdiv HOUR_IN_SECONDS;
          toh = tod - hour * HOUR_IN_SECONDS;
          minutes = toh sdiv MINUTE_IN_SECONDS;
          tom = toh - minutes * MINUTE_IN_SECONDS
      in \<lparr>tp_year = year, tp_month = int (month mod 12) + 1, tp_day = day + 1, tp_hour = hour,
          tp_minutes = minutes, tp_seconds = of_int tom + ts_fraction time\<rparr>)"

definition date_from_utc :: "timestamp \<Rightarrow> TimePoint" where
  "date_from_utc time = timepoint_since UTC_START_YEAR time"

section \<open>The calendar\<close>

definition leap_year :: "int \<Rightarrow> bool" where
  "leap_year y \<longleftrightarrow> 4 dvd y \<and> (100 dvd y \<longrightarrow> 400 dvd y)"

definition days_in_month :: "int \<Rightarrow> int \<Rightarrow> int" where
  "days_in_month y m =
     (if m = 2 then if leap_year y then 29 else 28 else if m \<in> {4, 6, 9, 11} then 30 else 31)"

definition valid_date :: "TimePoint \<Rightarrow> bool" where
  "valid_date d \<longleftrightarrow> 1970 \<le> tp_year d \<and> tp_year d < 2099 \<and> 1 \<le> tp_month d \<and> tp_month d \<le> 12 \<and>
     1 \<le> tp_day d \<and> tp_day d \<le> days_in_month (tp_year d) (tp_month d) \<and>
     0 \<le> tp_hour d \<and> tp_hour d < 24 \<and> 0 \<le> tp_minutes d \<and> tp_minutes d < 60 \<and>
     0 \<le> tp_seconds d \<and> tp_seconds d < 60"

definition utc_of_timepoint :: "TimePoint \<Rightarrow> timestamp option" where
  "utc_of_timepoint d =
     utc_from_date (tp_year d) (tp_month d) (tp_day d) (tp_hour d) (tp_minutes d) (tp_seconds d)"

lemma nonneg_sdiv [simp]: "0 \<le> a \<Longrightarrow> 0 < b \<Longrightarrow> a sdiv b = a div b" for a b :: int
  by (cases "a = 0") (simp_all add: signed_divide_int_def)

lemma nonneg_smod [simp]: "0 \<le> a \<Longrightarrow> 0 < b \<Longrightarrow> a smod b = a mod b" for a b :: int
  by (cases "a = 0") (simp_all add: signed_modulo_int_def)

lemma years_loop_eq:
  "0 \<le> i \<Longrightarrow> i \<le> year \<Longrightarrow>
   years_loop i year days = days + 365 * (year - i) + ((year + 3) div 4 - (i + 3) div 4)"
proof (induction i year days rule: years_loop.induct)
  case (1 i year days)
  show ?case
  proof (cases "i < year")
    case True
    have "(i + 1 + 3) div 4 = (i + 3) div 4 + (if i mod 4 = 0 then 1 else 0)" by presburger
    then show ?thesis using 1 True by (subst years_loop.simps) (simp add: DAYS_PER_YEAR_def)
  next
    case False
    then show ?thesis using 1(3) by (subst years_loop.simps) simp
  qed
qed

lemma month_loop_prefix:
  "day = sum_list (take k ms) + d \<Longrightarrow> k < length ms \<Longrightarrow> 0 \<le> d \<Longrightarrow> d < ms ! k \<Longrightarrow>
   \<forall>m \<in> set ms. 0 \<le> m \<Longrightarrow> month_loop ms n day = (n + k, d)"
proof (induction ms arbitrary: n k day)
  case (Cons m ms)
  show ?case
  proof (cases k)
    case 0
    then show ?thesis using Cons.prems by simp
  next
    case (Suc j)
    have "0 \<le> sum_list (take j ms)"
      using Cons.prems(5) by (intro sum_list_nonneg) (auto dest: in_set_takeD)
    then have "\<not> day < m" using Cons.prems Suc by simp
    then show ?thesis using Cons.IH [of "day - m" j "n + 1"] Cons.prems Suc by simp
  qed
qed simp

lemma month_table:
  "\<forall>k < 48. sum_list (take k UTC_MONTH_DAYS) =
     365 * int (k div 12) + (if k div 12 = 3 then 1 else 0) + UTC_DAY_OF_YEAR ! (k mod 12) - 1
     + (if k div 12 = 2 \<and> 2 \<le> k mod 12 then 1 else 0)"
proof -
  have "list_all (\<lambda>k. sum_list (take k UTC_MONTH_DAYS) =
     365 * int (k div 12) + (if k div 12 = 3 then 1 else 0) + UTC_DAY_OF_YEAR ! (k mod 12) - 1
     + (if k div 12 = 2 \<and> 2 \<le> k mod 12 then 1 else 0)) [0..<48]"
    by code_simp
  then show ?thesis by (simp add: list_all_iff)
qed

lemma month_lengths:
  "\<forall>k < 48. UTC_MONTH_DAYS ! k =
     (if k mod 12 = 1 then if k div 12 = 2 then 29 else 28
      else if k mod 12 \<in> {3, 5, 8, 10} then 30 else 31)"
proof -
  have "list_all (\<lambda>k. UTC_MONTH_DAYS ! k =
     (if k mod 12 = 1 then if k div 12 = 2 then 29 else 28
      else if k mod 12 \<in> {3, 5, 8, 10} then 30 else 31)) [0..<48]"
    by code_simp
  then show ?thesis by (simp add: list_all_iff)
qed

lemma UTC_MONTH_DAYS_nonneg: "\<forall>m \<in> set UTC_MONTH_DAYS. 0 \<le> m"
  by (simp add: UTC_MONTH_DAYS_def)

lemma length_UTC_MONTH_DAYS: "length UTC_MONTH_DAYS = 48"
  by (simp add: UTC_MONTH_DAYS_def)

lemma leap_year_range: "1970 \<le> y \<Longrightarrow> y < 2099 \<Longrightarrow> leap_year y \<longleftrightarrow> y mod 4 = 0"
proof -
  assume y: "1970 \<le> y" "y < 2099"
  have "100 dvd y \<Longrightarrow> 400 dvd y"
  proof -
    assume "100 dvd y"
    then obtain k where "y = 100 * k" by (rule dvdE)
    then have "k = 20" using y by arith
    then show "400 dvd y" using \<open>y = 100 * k\<close> by simp
  qed
  then show ?thesis by (auto simp: leap_year_def dvd_eq_mod_eq_0)
qed

text \<open>The day number of a date: whole four-year periods, whole months, days.\<close>

lemma days_of_date_eq:
  assumes "1970 \<le> y" and "y < 2099" and "1 \<le> m" and "m \<le> 12"
  defines "k \<equiv> 12 * nat ((y - 1970) mod 4) + nat (m - 1)"
  shows "days_of_date 1970 y m d =
      1461 * ((y - 1970) div 4) + (sum_list (take k UTC_MONTH_DAYS) + (d - 1))"
    and "k < 48" and "int (k div 12) = (y - 1970) mod 4" and "int (k mod 12) = m - 1"
    and "UTC_MONTH_DAYS ! k = days_in_month y m"
proof -
  define r where "r = (y - 1970) mod 4"
  define q where "q = (y - 1970) div 4"
  have r: "0 \<le> r" "r < 4" and y: "y = 1970 + 4 * q + r" by (simp_all add: r_def q_def)
  have kd: "k div 12 = nat r" "k mod 12 = nat (m - 1)"
    using assms(3,4) by (auto simp: k_def r_def)
  show "k < 48" using r assms(3,4) by (simp add: k_def r_def [symmetric])
  show "int (k div 12) = (y - 1970) mod 4" "int (k mod 12) = m - 1"
    using kd r assms(3) by (simp_all add: r_def)
  have leap: "y mod 4 = 0 \<longleftrightarrow> r = 2"
  proof -
    have "y = (1970 + r) + q * 4" using y by simp
    moreover have "r = 0 \<or> r = 1 \<or> r = 2 \<or> r = 3" using r by linarith
    ultimately show ?thesis by auto
  qed
  show "UTC_MONTH_DAYS ! k = days_in_month y m"
  proof -
    have "UTC_MONTH_DAYS ! k = (if nat (m - 1) = 1 then if nat r = 2 then 29 else 28
        else if nat (m - 1) \<in> {3, 5, 8, 10} then 30 else 31)"
      using month_lengths \<open>k < 48\<close> unfolding kd [symmetric] by blast
    moreover have "nat (m - 1) = 1 \<longleftrightarrow> m = 2" "nat r = 2 \<longleftrightarrow> leap_year y"
      "nat (m - 1) \<in> {3, 5, 8, 10} \<longleftrightarrow> m \<in> {4, 6, 9, 11}"
      using r(1) assms(3) leap leap_year_range [OF assms(1,2)] by auto
    ultimately show ?thesis by (simp only: days_in_month_def)
  qed
  have "years_loop 1970 y 0 = 365 * (y - 1970) + ((y + 3) div 4 - 493)"
    using assms(1) by (simp add: years_loop_eq)
  moreover have "(y + 3) div 4 = q + 493 + (if r = 3 then 1 else 0)"
  proof -
    have "y + 3 = (1973 + r) + q * 4" using y by simp
    moreover have "r = 0 \<or> r = 1 \<or> r = 2 \<or> r = 3" using r by linarith
    ultimately show ?thesis by auto
  qed
  moreover have "365 * (y - 1970) = 1460 * q + 365 * r"
    unfolding y by (simp add: algebra_simps)
  ultimately have years: "years_loop 1970 y 0 = 1461 * q + 365 * r + (if r = 3 then 1 else 0)"
    by linarith
  have "sum_list (take k UTC_MONTH_DAYS) =
     365 * int (k div 12) + (if k div 12 = 3 then 1 else 0) + UTC_DAY_OF_YEAR ! (k mod 12) - 1
     + (if k div 12 = 2 \<and> 2 \<le> k mod 12 then 1 else 0)"
    using month_table \<open>k < 48\<close> by blast
  also have "\<dots> = 365 * r + (if r = 3 then 1 else 0) + UTC_DAY_OF_YEAR ! nat (m - 1) - 1
      + (if r = 2 \<and> 3 \<le> m then 1 else 0)"
  proof -
    have "int (nat r) = r" "nat r = 3 \<longleftrightarrow> r = 3" "nat r = 2 \<longleftrightarrow> r = 2" "2 \<le> nat (m - 1) \<longleftrightarrow> 3 \<le> m"
      using r(1) by auto
    then show ?thesis unfolding kd by (simp only:)
  qed
  finally have months: "sum_list (take k UTC_MONTH_DAYS) = 365 * r + (if r = 3 then 1 else 0)
      + UTC_DAY_OF_YEAR ! nat (m - 1) - 1 + (if r = 2 \<and> 3 \<le> m then 1 else 0)" .
  show "days_of_date 1970 y m d =
      1461 * ((y - 1970) div 4) + (sum_list (take k UTC_MONTH_DAYS) + (d - 1))"
    unfolding days_of_date_def years months q_def [symmetric]
    using leap assms(1) by simp
qed

lemma day_within_period:
  assumes "k < 48" and "0 \<le> d" and "d < UTC_MONTH_DAYS ! k"
  shows "0 \<le> sum_list (take k UTC_MONTH_DAYS) + d" "sum_list (take k UTC_MONTH_DAYS) + d < 1461"
proof -
  have "list_all (\<lambda>k. 0 \<le> sum_list (take k UTC_MONTH_DAYS) \<and>
      sum_list (take k UTC_MONTH_DAYS) + UTC_MONTH_DAYS ! k \<le> 1461) [0..<48]"
    by code_simp
  then have "0 \<le> sum_list (take k UTC_MONTH_DAYS) \<and>
      sum_list (take k UTC_MONTH_DAYS) + UTC_MONTH_DAYS ! k \<le> 1461"
    using assms(1) by (simp add: list_all_iff)
  then show "0 \<le> sum_list (take k UTC_MONTH_DAYS) + d" "sum_list (take k UTC_MONTH_DAYS) + d < 1461"
    using assms(2,3) by linarith+
qed

text \<open>The time of day in seconds.\<close>

lemma time_of_day_parts:
  fixes h m s D t :: int
  assumes "0 \<le> h" "h < 24" "0 \<le> m" "m < 60" "0 \<le> s" "s < 60"
    and t: "t = D * 86400 + (h * 3600 + m * 60 + s)"
  shows "t div 86400 = D" "(t - D * 86400) div 3600 = h" "(t - D * 86400 - h * 3600) div 60 = m"
    "t - D * 86400 - h * 3600 - m * 60 = s"
proof -
  let ?x = "h * 3600 + m * 60 + s" and ?y = "m * 60 + s"
  have "0 \<le> ?x" "?x < 86400" "0 \<le> ?y" "?y < 3600" using assms by linarith+
  then have "(?x + D * 86400) div 86400 = D" "(?y + h * 3600) div 3600 = h" "(s + m * 60) div 60 = m"
    using assms by simp_all
  moreover have "t = ?x + D * 86400" "t - D * 86400 = ?y + h * 3600"
    "t - D * 86400 - h * 3600 = s + m * 60" using t by simp_all
  ultimately show "t div 86400 = D" "(t - D * 86400) div 3600 = h" "(t - D * 86400 - h * 3600) div 60 = m"
    "t - D * 86400 - h * 3600 - m * 60 = s" by simp_all
qed

lemma utc_of_timepoint_eq:
  assumes "valid_date d"
  shows "utc_of_timepoint d = Some (Timestamp
    (days_of_date 1970 (tp_year d) (tp_month d) (tp_day d) * 86400 +
      (tp_hour d * 3600 + tp_minutes d * 60 + \<lfloor>tp_seconds d\<rfloor>))
    (tp_seconds d - of_int \<lfloor>tp_seconds d\<rfloor>))"
proof -
  have "tp_day d \<le> 31"
    using assms by (auto simp: valid_date_def days_in_month_def split: if_splits)
  moreover have "\<lfloor>tp_seconds d - of_int \<lfloor>tp_seconds d\<rfloor>\<rfloor> = 0" by simp
  ultimately show ?thesis
    using assms by (simp add: utc_of_timepoint_def utc_from_date_def valid_date_def Let_def
        UTC_START_YEAR_def UTC_END_YEAR_def trunc_def timestamp_of_def normalize_eq seconds_defs)
qed

lemma utc_of_timepoint_normal: "valid_date d \<Longrightarrow> normal (the (utc_of_timepoint d))"
  by (simp add: utc_of_timepoint_eq normal_def) linarith

text \<open>C35: the calendar is right.  For every valid date and time of the years 1970 to 2098
  (Gregorian leap years, months of the right length), \<^verbatim>\<open>utc_from_date\<close> succeeds with a
  normalised time stamp, and \<^verbatim>\<open>date_from_utc\<close> gives the same date and time back.\<close>

theorem date_roundtrip:
  assumes "valid_date d"
  shows "\<exists>t. utc_of_timepoint d = Some t \<and> normal t \<and> date_from_utc t = d"
proof -
  define y m where "y = tp_year d" and "m = tp_month d"
  define k where "k = 12 * nat ((y - 1970) mod 4) + nat (m - 1)"
  define s where "s = \<lfloor>tp_seconds d\<rfloor>"
  define D where "D = days_of_date 1970 y m (tp_day d)"
  define t where "t = Timestamp (D * 86400 + (tp_hour d * 3600 + tp_minutes d * 60 + s))
    (tp_seconds d - of_int s)"
  note v = assms [unfolded valid_date_def, folded y_def m_def]
  note date = days_of_date_eq [of y m, folded k_def]
  have s: "0 \<le> s" "s < 60" using v by (simp_all add: s_def floor_less_iff)
  have day: "0 \<le> tp_day d - 1" "tp_day d - 1 < UTC_MONTH_DAYS ! k" using v date(5) by auto
  have D: "D = 1461 * ((y - 1970) div 4) + (sum_list (take k UTC_MONTH_DAYS) + (tp_day d - 1))"
    "k < 48" using v date(1) [of "tp_day d"] date(2) by (auto simp: D_def)
  note within = day_within_period [OF D(2) day]
  have "0 \<le> (y - 1970) div 4" using v by (simp add: pos_imp_zdiv_nonneg_iff)
  then have D0: "0 \<le> D" using D(1) within(1) by linarith
  have D4: "D mod 1461 = sum_list (take k UTC_MONTH_DAYS) + (tp_day d - 1)" "D div 1461 = (y - 1970) div 4"
    using D(1) within by simp_all
  have loop: "month_loop UTC_MONTH_DAYS 0 (D mod 1461) = (k, tp_day d - 1)"
    using month_loop_prefix [OF D4(1) _ day UTC_MONTH_DAYS_nonneg] D(2) length_UTC_MONTH_DAYS by simp
  have frac: "\<lfloor>tp_seconds d - of_int s\<rfloor> = 0" by (simp add: s_def)
  have norm: "normalize t = t" using frac by (simp add: t_def normalize_eq)
  have year: "1970 + 4 * ((y - 1970) div 4) + int (k div 12) = y"
    using date(3) v by simp
  have month: "int (k mod 12) + 1 = m" using date(4) v by simp
  let ?h = "tp_hour d" and ?min = "tp_minutes d" and ?S = "ts_seconds t"
  have S: "?S = D * 86400 + (?h * 3600 + ?min * 60 + s)" by (simp add: t_def)
  have v': "0 \<le> ?h" "?h < 24" "0 \<le> ?min" "?min < 60" using v by blast+
  note parts = time_of_day_parts [OF v' s S]
  have "0 \<le> ?S" "0 \<le> ?S - D * 86400" "0 \<le> ?S - D * 86400 - ?h * 3600"
    using S D0 v' s by linarith+
  then have sdivs: "?S sdiv 86400 = D" "(?S - D * 86400) sdiv 3600 = ?h"
    "(?S - D * 86400 - ?h * 3600) sdiv 60 = ?min" "D smod 1461 = D mod 1461"
    "D sdiv 1461 = (y - 1970) div 4"
    using parts(1-3) D0 D4(2) by simp_all
  have secs: "of_int s + ts_fraction t = tp_seconds d" by (simp add: t_def)
  have units: "DAY_IN_SECONDS = 86400" "HOUR_IN_SECONDS = 3600" "MINUTE_IN_SECONDS = 60"
    "UTC_DAYS_PER_4YEAR = 1461" by (simp_all add: seconds_defs UTC_DAYS_PER_4YEAR_def)
  have "date_from_utc t = d"
    unfolding date_from_utc_def timepoint_since_def norm Let_def units sdivs loop split_conv
      UTC_START_YEAR_def parts(4) secs year month
    by (simp add: y_def m_def)
  moreover have "utc_of_timepoint d = Some t"
    using utc_of_timepoint_eq [OF assms] by (simp add: t_def D_def y_def m_def s_def)
  moreover have "normal t" using norm normal_normalize [of t] by simp
  ultimately show ?thesis by blast
qed

theorem date_roundtrip_witness:
  "\<exists>t. utc_of_timepoint \<lparr>tp_year = 2024, tp_month = 2, tp_day = 29, tp_hour = 23,
     tp_minutes = 59, tp_seconds = 59 + 1 / 2\<rparr> = Some t \<and> normal t \<and>
     date_from_utc t = \<lparr>tp_year = 2024, tp_month = 2, tp_day = 29, tp_hour = 23,
     tp_minutes = 59, tp_seconds = 59 + 1 / 2\<rparr>"
  by (rule date_roundtrip) (simp add: valid_date_def days_in_month_def leap_year_def)

end
