(* ===== verification/Time_Scales.thy ===== *)
theory Time_Scales
  imports Calendar
begin

text \<open>
  The time scales of dependency/time (TAI, GPS, Galileo, BeiDou, GLONASS): each class holds a time
  stamp of its own scale and is converted through UTC.  The locale \<open>time_scale\<close> states what
  a scale promises; it is interpreted on the conversion functions of all five scales.
\<close>

section \<open>Conversion functions\<close>

definition leap_seconds_count :: int where "leap_seconds_count = 37"

definition utc_2_tai :: "timestamp \<Rightarrow> timestamp" where
  "utc_2_tai t = ts_sub_int leap_seconds_count t"

definition tai_2_utc :: "timestamp \<Rightarrow> timestamp" where
  "tai_2_utc t = ts_add_int leap_seconds_count t"

definition leap_seconds_utc_gps :: int where "leap_seconds_utc_gps = 18"

definition utc_2_gps :: "timestamp \<Rightarrow> timestamp" where
  "utc_2_gps t =
     ts_sub_int (10 * YEAR_IN_SECONDS) (ts_sub_int (2 * DAY_IN_SECONDS)
       (ts_sub_int (5 * DAY_IN_SECONDS) (ts_add_int leap_seconds_utc_gps t)))"

definition gps_2_utc :: "timestamp \<Rightarrow> timestamp" where
  "gps_2_utc t = (let temp = utc_2_gps t; diff = ts_minus t temp in ts_plus t diff)"

definition leap_seconds_utc_gst :: int where
  "leap_seconds_utc_gst = 13 + (leap_seconds_count - 32)"

definition utc_2_gst :: "timestamp \<Rightarrow> timestamp" where
  "utc_2_gst t =
     ts_sub_int (29 * YEAR_IN_SECONDS) (ts_sub_int (7 * DAY_IN_SECONDS)
       (ts_sub_int (233 * DAY_IN_SECONDS) (ts_add_int leap_seconds_utc_gst t)))"

definition gst_2_utc :: "timestamp \<Rightarrow> timestamp" where
  "gst_2_utc t = (let temp = utc_2_gst t; diff = ts_minus t temp in ts_plus t diff)"

definition leap_seconds_utc_bdt :: int where "leap_seconds_utc_bdt = leap_seconds_count - 33"

definition utc_2_bdt :: "timestamp \<Rightarrow> timestamp" where
  "utc_2_bdt t =
     ts_sub_int (36 * YEAR_IN_SECONDS) (ts_sub_int (9 * DAY_IN_SECONDS)
       (ts_add_int leap_seconds_utc_bdt t))"

definition bdt_2_utc :: "timestamp \<Rightarrow> timestamp" where
  "bdt_2_utc t = (let temp = utc_2_bdt t; diff = ts_minus t temp in ts_plus t diff)"

definition utc_2_glo :: "timestamp \<Rightarrow> timestamp" where
  "utc_2_glo t =
     ts_sub_int (26 * YEAR_IN_SECONDS) (ts_sub_int (6 * DAY_IN_SECONDS)
       (ts_add_int (3 * HOUR_IN_SECONDS) t))"

definition glo_2_utc :: "timestamp \<Rightarrow> timestamp" where
  "glo_2_utc t = (let temp = utc_2_glo t; diff = ts_minus t temp in ts_plus t diff)"

datatype scale = UTC | TAI | GPS | GST | BDT | GLO

text \<open>The constructors of the classes: every conversion goes through UTC.\<close>

fun from_utc :: "scale \<Rightarrow> timestamp \<Rightarrow> timestamp" where
  "from_utc UTC t = t"
| "from_utc TAI t = utc_2_tai t"
| "from_utc GPS t = utc_2_gps t"
| "from_utc GST t = utc_2_gst t"
| "from_utc BDT t = utc_2_bdt t"
| "from_utc GLO t = utc_2_glo t"

fun utc_timestamp :: "scale \<Rightarrow> timestamp \<Rightarrow> timestamp" where
  "utc_timestamp UTC t = t"
| "utc_timestamp TAI t = tai_2_utc t"
| "utc_timestamp GPS t = gps_2_utc t"
| "utc_timestamp GST t = gst_2_utc t"
| "utc_timestamp BDT t = bdt_2_utc t"
| "utc_timestamp GLO t = glo_2_utc t"

definition convert_scale :: "scale \<Rightarrow> scale \<Rightarrow> timestamp \<Rightarrow> timestamp" where
  "convert_scale a b t = from_utc b (utc_timestamp a t)"

section \<open>Days and weeks\<close>

definition scale_days :: "timestamp \<Rightarrow> int" where
  "scale_days t = ts_seconds t sdiv DAY_IN_SECONDS"

definition scale_week :: "timestamp \<Rightarrow> int" where
  "scale_week t = ts_seconds t sdiv WEEK_IN_SECONDS"

definition time_of_day :: "timestamp \<Rightarrow> timestamp" where
  "time_of_day t = ts_minus t (Timestamp (scale_days t * DAY_IN_SECONDS) 0)"

definition time_of_week :: "timestamp \<Rightarrow> timestamp" where
  "time_of_week t = ts_minus t (Timestamp (scale_week t * WEEK_IN_SECONDS) 0)"

definition from_day_tod :: "int \<Rightarrow> rat \<Rightarrow> timestamp" where
  "from_day_tod day tod = ts_add tod (ts_add_int (DAY_IN_SECONDS * day) (Timestamp 0 0))"

definition utc_from_day_tod :: "int \<Rightarrow> rat \<Rightarrow> timestamp" where
  "utc_from_day_tod day tod = timestamp_of_double (of_int (day * DAY_IN_SECONDS) + tod)"

definition from_week_tow :: "int \<Rightarrow> int \<Rightarrow> rat \<Rightarrow> timestamp" where
  "from_week_tow week tow fractions =
     ts_add fractions (ts_add_int tow (ts_add_int (WEEK_IN_SECONDS * week) (Timestamp 0 0)))"

definition gps_from_week_tow :: "int \<Rightarrow> rat \<Rightarrow> timestamp" where
  "gps_from_week_tow week tow =
     (let tow_int = trunc tow in from_week_tow week tow_int (tow - of_int tow_int))"

section \<open>GPS dates and GLONASS days\<close>

definition GPS_START_YEAR :: int where "GPS_START_YEAR = 1980"

definition gps_to_timepoint :: "timestamp \<Rightarrow> TimePoint" where
  "gps_to_timepoint t = timepoint_since GPS_START_YEAR t"

definition days_from_ymd :: "int \<Rightarrow> int \<Rightarrow> int \<Rightarrow> int" where
  "days_from_ymd year month day =
     (let year' = (if year < GPS_START_YEAR then GPS_START_YEAR else year);
          month' = (if month \<le> 0 then 1 else if month > 12 then 12 else month)
      in days_of_date GPS_START_YEAR year' month' day)"

definition from_ymdhms :: "int \<Rightarrow> int \<Rightarrow> int \<Rightarrow> int \<Rightarrow> int \<Rightarrow> rat \<Rightarrow> timestamp" where
  "from_ymdhms year month day hour minute seconds =
     (let int_seconds = trunc seconds;
          fractions = seconds - of_int int_seconds;
          days = days_from_ymd year month day - 5;
          week = days sdiv 7;
          weekday = days smod 7;
          tod = hour * HOUR_IN_SECONDS + minute * MINUTE_IN_SECONDS + int_seconds;
          tow = weekday * DAY_IN_SECONDS + tod
      in from_week_tow week tow fractions)"

function mod_seconds :: "int \<Rightarrow> int" where
  "mod_seconds s =
     (if s > WEEK_IN_SECONDS * 1024 then mod_seconds (s - WEEK_IN_SECONDS * 1024) else s)"
  by pat_completeness auto

termination by (relation "measure nat") (auto simp: seconds_defs)

definition mod_timestamp :: "timestamp \<Rightarrow> timestamp" where
  "mod_timestamp t = Timestamp (mod_seconds (ts_seconds t)) (ts_fraction t)"

definition FOUR_YEAR_PERIOD :: int where "FOUR_YEAR_PERIOD = 1461"

function raise_day :: "int \<Rightarrow> int" where
  "raise_day day = (if day < 0 then raise_day (day + FOUR_YEAR_PERIOD) else day)"
  by pat_completeness auto

termination by (relation "measure (\<lambda>d. nat (- d))") (auto simp: FOUR_YEAR_PERIOD_def)

function lower_day :: "int \<Rightarrow> int" where
  "lower_day day = (if day \<ge> FOUR_YEAR_PERIOD then lower_day (day - FOUR_YEAR_PERIOD) else day)"
  by pat_completeness auto

termination by (relation "measure nat") (auto simp: FOUR_YEAR_PERIOD_def)

declare mod_seconds.simps [simp del] raise_day.simps [simp del] lower_day.simps [simp del]

definition from_period_day_tod :: "int \<Rightarrow> rat \<Rightarrow> timestamp \<Rightarrow> timestamp" where
  "from_period_day_tod day tod reference =
     (let day' = lower_day (raise_day day);
          ref_days = scale_days reference;
          ref_day_in_period = ref_days smod FOUR_YEAR_PERIOD;
          period_start = ref_days - ref_day_in_period;
          absolute_days = period_start + day'
      in ts_add tod (ts_add_int (DAY_IN_SECONDS * absolute_days) (Timestamp 0 0)))"

definition day_of_week :: "timestamp \<Rightarrow> int" where
  "day_of_week t = (scale_days t + 1) smod DAYS_PER_WEEK"

section \<open>What a scale promises\<close>

locale time_scale =
  fixes of_utc to_utc :: "timestamp \<Rightarrow> timestamp" and offset :: int
  assumes of_utc: "normal t \<Longrightarrow> of_utc t = ts_add_int offset t"
    and to_utc: "normal t \<Longrightarrow> to_utc t = ts_sub_int offset t"
begin

lemma normal_of [simp]: "normal t \<Longrightarrow> normal (of_utc t)"
  by (simp add: of_utc)

lemma normal_to [simp]: "normal t \<Longrightarrow> normal (to_utc t)"
  by (simp add: to_utc)

lemma to_of: "normal t \<Longrightarrow> to_utc (of_utc t) = t"
  by (rule normal_unique) (simp_all add: of_utc to_utc)

lemma of_to: "normal t \<Longrightarrow> of_utc (to_utc t) = t"
  by (rule normal_unique) (simp_all add: of_utc to_utc)

lemma less_of: "normal a \<Longrightarrow> normal b \<Longrightarrow> of_utc a < of_utc b \<longleftrightarrow> a < b"
  by (simp add: normal_less of_utc)

end

text \<open>Two scales: the conversion between them is again a scale, as seen from the first.\<close>

locale two_scales = A: time_scale of_a to_a offset_a + B: time_scale of_b to_b offset_b
  for of_a to_a offset_a of_b to_b offset_b

sublocale two_scales \<subseteq> conv: time_scale "\<lambda>t. of_b (to_a t)" "\<lambda>t. of_a (to_b t)" "offset_b - offset_a"
proof
  fix t assume t: "normal t"
  show "of_b (to_a t) = ts_add_int (offset_b - offset_a) t"
    using t by (intro normal_unique) (simp_all add: A.to_utc B.of_utc)
  show "of_a (to_b t) = ts_sub_int (offset_b - offset_a) t"
    using t by (intro normal_unique) (simp_all add: A.of_utc B.to_utc)
qed

section \<open>The scales of the program\<close>

lemma back_by_difference:
  assumes "normal t" and "\<And>t. f t = ts_add_int n t"
  shows "(let temp = f t; diff = ts_minus t temp in ts_plus t diff) = ts_sub_int n t"
  using assms(1) by (intro normal_unique) (simp_all add: Let_def assms(2))

lemma utc_2_scale_shift:
  "utc_2_gps t = ts_add_int (18 - 3657 * 86400) t"
  "utc_2_gst t = ts_add_int (18 - 10825 * 86400) t"
  "utc_2_bdt t = ts_add_int (4 - 13149 * 86400) t"
  "utc_2_glo t = ts_add_int (10800 - 9496 * 86400) t"
  by (simp_all add: utc_2_gps_def utc_2_gst_def utc_2_bdt_def utc_2_glo_def ts_add_int_def
      ts_sub_int_def seconds_defs leap_seconds_utc_gps_def leap_seconds_utc_gst_def
      leap_seconds_utc_bdt_def leap_seconds_count_def)

interpretation tai: time_scale utc_2_tai tai_2_utc "- 37"
  by unfold_locales (simp_all add: utc_2_tai_def tai_2_utc_def ts_add_int_def ts_sub_int_def
      leap_seconds_count_def)

interpretation gps: time_scale utc_2_gps gps_2_utc "18 - 3657 * 86400"
  by unfold_locales (simp only: utc_2_scale_shift,
    simp only: gps_2_utc_def back_by_difference [OF _ utc_2_scale_shift(1)])

interpretation gst: time_scale utc_2_gst gst_2_utc "18 - 10825 * 86400"
  by unfold_locales (simp only: utc_2_scale_shift,
    simp only: gst_2_utc_def back_by_difference [OF _ utc_2_scale_shift(2)])

interpretation bdt: time_scale utc_2_bdt bdt_2_utc "4 - 13149 * 86400"
  by unfold_locales (simp only: utc_2_scale_shift,
    simp only: bdt_2_utc_def back_by_difference [OF _ utc_2_scale_shift(3)])

interpretation glo: time_scale utc_2_glo glo_2_utc "10800 - 9496 * 86400"
  by unfold_locales (simp only: utc_2_scale_shift,
    simp only: glo_2_utc_def back_by_difference [OF _ utc_2_scale_shift(4)])

fun scale_offset :: "scale \<Rightarrow> int" where
  "scale_offset UTC = 0"
| "scale_offset TAI = - 37"
| "scale_offset GPS = 18 - 3657 * 86400"
| "scale_offset GST = 18 - 10825 * 86400"
| "scale_offset BDT = 4 - 13149 * 86400"
| "scale_offset GLO = 10800 - 9496 * 86400"

lemma time_scale_all: "time_scale (from_utc s) (utc_timestamp s) (scale_offset s)"
proof (cases s)
  case UTC
  then show ?thesis by unfold_locales (simp_all add: ts_add_int_def ts_sub_int_def)
qed (use tai.time_scale_axioms gps.time_scale_axioms gst.time_scale_axioms bdt.time_scale_axioms
      glo.time_scale_axioms in \<open>auto simp: time_scale_def\<close>)

interpretation sc: time_scale "from_utc s" "utc_timestamp s" "scale_offset s"
  by (rule time_scale_all)

interpretation conv: two_scales "from_utc a" "utc_timestamp a" "scale_offset a"
  "from_utc b" "utc_timestamp b" "scale_offset b"
  by unfold_locales

lemma scale_to_of: "normal t \<Longrightarrow> utc_timestamp s (from_utc s t) = t"
  by (rule sc.to_of)

text \<open>C37: the time scales are consistent.  Converting a normalised time stamp between any two of
  the six scales and back gives the same time stamp, converting through a third scale changes
  nothing, and a conversion preserves the order of \<^verbatim>\<open>operator<\<close>.\<close>

theorem scale_conversions:
  assumes "normal t" and "normal u"
  shows "convert_scale b a (convert_scale a b t) = t \<and>
    convert_scale b c (convert_scale a b t) = convert_scale a c t \<and>
    (convert_scale a b t < convert_scale a b u \<longleftrightarrow> t < u) \<and> normal (convert_scale a b t)"
proof (intro conjI)
  show "convert_scale b a (convert_scale a b t) = t"
    unfolding convert_scale_def by (rule conv.conv.to_of [OF assms(1)])
  show "convert_scale b c (convert_scale a b t) = convert_scale a c t"
    using assms(1) by (simp add: convert_scale_def scale_to_of)
  show "convert_scale a b t < convert_scale a b u \<longleftrightarrow> t < u"
    unfolding convert_scale_def by (rule conv.conv.less_of [OF assms])
  show "normal (convert_scale a b t)"
    unfolding convert_scale_def by (rule conv.conv.normal_of [OF assms(1)])
qed

theorem scale_conversions_witness:
  "convert_scale GPS GST (convert_scale GST GPS (Timestamp 1000 (1 / 4))) = Timestamp 1000 (1 / 4)"
  using scale_conversions [of "Timestamp 1000 (1 / 4)" "Timestamp 0 0"] by (simp add: normal_def)

section \<open>Epochs\<close>

definition midnight :: "int \<Rightarrow> int \<Rightarrow> int \<Rightarrow> timestamp option" where
  "midnight y m d = utc_from_date y m d 0 0 0"

lemma midnight_eq:
  "1970 \<le> y \<Longrightarrow> y < 2099 \<Longrightarrow> 1 \<le> m \<Longrightarrow> m \<le> 12 \<Longrightarrow> 1 \<le> d \<Longrightarrow> d \<le> 31 \<Longrightarrow>
   midnight y m d = Some (Timestamp (days_of_date 1970 y m d * 86400) 0)"
  by (simp add: midnight_def utc_from_date_def UTC_START_YEAR_def UTC_END_YEAR_def trunc_def
      timestamp_of_def normalize_eq seconds_defs Let_def)

text \<open>The constants of the scales are right.  The zero of each scale is the documented date:
  midnight UTC of 1980-01-06 is GPS time 0, of 1999-08-22 Galileo time 0 and of 2006-01-01
  BeiDou time 0, each plus the leap seconds the code uses (18, 18 and 4), and midnight UTC of
  1996-01-01 is GLONASS time 0 plus three hours.  TAI is put 37 seconds behind UTC.\<close>

theorem scale_epochs:
  "map_option (convert_scale UTC GPS) (midnight 1980 1 6) = Some (Timestamp 18 0) \<and>
   map_option (convert_scale UTC GST) (midnight 1999 8 22) = Some (Timestamp 18 0) \<and>
   map_option (convert_scale UTC BDT) (midnight 2006 1 1) = Some (Timestamp 4 0) \<and>
   map_option (convert_scale UTC GLO) (midnight 1996 1 1) = Some (Timestamp (3 * 3600) 0) \<and>
   map_option (convert_scale UTC TAI) (midnight 1970 1 1) = Some (Timestamp (- 37) 0)"
  by (simp add: midnight_eq days_of_date_def years_loop_eq UTC_DAY_OF_YEAR_def convert_scale_def
      utc_2_scale_shift tai.of_utc normal_def ts_add_int_def)

section \<open>Weeks\<close>

text \<open>Week and time of week survive.  For a non-negative week, a time of week within the
  week and a fraction of a second, \<^verbatim>\<open>from_week_tow\<close> gives a normalised time stamp whose
  \<^verbatim>\<open>week\<close> is that week and whose \<^verbatim>\<open>time_of_week\<close> is that time of week.\<close>

theorem week_roundtrip:
  assumes "0 \<le> w" and "0 \<le> tow" and "tow < WEEK_IN_SECONDS" and "0 \<le> f" and "f < 1"
  shows "normal (from_week_tow w tow f) \<and> scale_week (from_week_tow w tow f) = w \<and>
    time_of_week (from_week_tow w tow f) = Timestamp tow f"
proof -
  have t: "from_week_tow w tow f = Timestamp (604800 * w + tow) f"
    using assms(4,5) by (intro normal_unique)
      (simp_all add: from_week_tow_def seconds_defs)
  have w: "scale_week (from_week_tow w tow f) = w"
    using assms(1-3) by (simp add: t scale_week_def seconds_defs)
  moreover have "time_of_week (from_week_tow w tow f) = Timestamp tow f"
    using assms(4,5) unfolding time_of_week_def w unfolding t
    by (intro normal_unique) (simp_all add: seconds_defs)
  moreover have "normal (from_week_tow w tow f)" by (simp add: from_week_tow_def)
  ultimately show ?thesis by blast
qed

theorem week_roundtrip_witness:
  "scale_week (from_week_tow 2300 604799 (1 / 2)) = 2300"
  using week_roundtrip [of 2300 604799 "1 / 2"] by (simp add: seconds_defs)

section \<open>GPS dates\<close>

lemma years_1980: "1980 \<le> y \<Longrightarrow> days_of_date 1980 y m d = days_of_date 1970 y m d - 3652"
  by (simp add: days_of_date_def years_loop_eq)

lemma days_of_date_mono_1980:
  assumes "valid_date d" and "1980 \<le> tp_year d" and "tp_year d = 1980 \<and> tp_month d = 1 \<longrightarrow> 6 \<le> tp_day d"
  shows "3657 \<le> days_of_date 1970 (tp_year d) (tp_month d) (tp_day d)"
proof -
  let ?m = "tp_month d"
  have m: "1 \<le> ?m" "?m \<le> 12" and day: "1 \<le> tp_day d" using assms(1) by (auto simp: valid_date_def)
  have table: "list_all (\<lambda>k. 1 \<le> UTC_DAY_OF_YEAR ! k \<and> (k \<noteq> 0 \<longrightarrow> 6 \<le> UTC_DAY_OF_YEAR ! k)) [0..<12]"
    by code_simp
  have doy: "1 \<le> UTC_DAY_OF_YEAR ! nat (?m - 1)" "?m \<noteq> 1 \<longrightarrow> 6 \<le> UTC_DAY_OF_YEAR ! nat (?m - 1)"
    using table m by (auto simp: list_all_iff)
  have "(1980 + 3) div 4 \<le> (tp_year d + 3) div 4" using assms(2) by (intro zdiv_mono1) simp_all
  then have "365 * (tp_year d - 1970) + 2 \<le> years_loop 1970 (tp_year d) 0"
    "tp_year d \<noteq> 1980 \<longrightarrow> 3652 + 6 \<le> years_loop 1970 (tp_year d) 0"
    using assms(2) by (auto simp: years_loop_eq)
  then show ?thesis using doy day assms(2,3) by (auto simp: days_of_date_def)
qed

text \<open>The two calendars agree.  For every valid date from 1980-01-06 on,
  \<^verbatim>\<open>Gps::from_ymdhms\<close>, which counts years, weeks and days from 1980 on its own, gives the
  seconds that \<^verbatim>\<open>utc_from_date\<close> counts for the same date from 1970, less the 3657 days
  between the two epochs (a GPS date has no leap seconds).\<close>

theorem gps_date_agrees:
  assumes "valid_date d" and "1980 \<le> tp_year d" and "tp_year d = 1980 \<and> tp_month d = 1 \<longrightarrow> 6 \<le> tp_day d"
  shows "map_option (ts_sub_int (3657 * DAY_IN_SECONDS)) (utc_of_timepoint d) =
    Some (from_ymdhms (tp_year d) (tp_month d) (tp_day d) (tp_hour d) (tp_minutes d) (tp_seconds d))"
proof -
  let ?D = "days_of_date 1970 (tp_year d) (tp_month d) (tp_day d)"
  let ?G = "?D - 3657"
  have days: "days_from_ymd (tp_year d) (tp_month d) (tp_day d) - 5 = ?G"
    using assms(1,2) by (simp add: days_from_ymd_def GPS_START_YEAR_def valid_date_def years_1980)
  have G: "0 \<le> ?G" using days_of_date_mono_1980 [OF assms] by simp
  have sec: "trunc (tp_seconds d) = \<lfloor>tp_seconds d\<rfloor>" using assms(1) by (simp add: trunc_def valid_date_def)
  have parts: "604800 * (G div 7) + (G mod 7) * 86400 = 86400 * G" for G :: int
  proof -
    have "604800 * q + r * 86400 = 86400 * (q * 7 + r)" for q r :: int by simp
    from this [of "G div 7" "G mod 7"] show ?thesis by (simp only: div_mult_mod_eq)
  qed
  have week: "(604800 :: rat) * of_int (?G div 7) + of_int (?G mod 7) * 86400 = 86400 * of_int ?G"
    using arg_cong [OF parts [of ?G], of "of_int :: int \<Rightarrow> rat"]
    by (simp only: of_int_add of_int_mult of_int_numeral)
  have "ts_sub_int (3657 * DAY_IN_SECONDS) (the (utc_of_timepoint d)) =
      from_ymdhms (tp_year d) (tp_month d) (tp_day d) (tp_hour d) (tp_minutes d) (tp_seconds d)"
  proof (rule normal_unique)
    show "normal (ts_sub_int (3657 * DAY_IN_SECONDS) (the (utc_of_timepoint d)))"
      using utc_of_timepoint_normal [OF assms(1)] by simp
    show "normal (from_ymdhms (tp_year d) (tp_month d) (tp_day d) (tp_hour d) (tp_minutes d) (tp_seconds d))"
      by (simp add: from_ymdhms_def from_week_tow_def Let_def)
    show "full_seconds (ts_sub_int (3657 * DAY_IN_SECONDS) (the (utc_of_timepoint d))) =
      full_seconds (from_ymdhms (tp_year d) (tp_month d) (tp_day d) (tp_hour d) (tp_minutes d) (tp_seconds d))"
      unfolding from_ymdhms_def Let_def days sec
      using week G utc_of_timepoint_eq [OF assms(1)]
      by (simp add: from_week_tow_def seconds_defs algebra_simps)
  qed
  then show ?thesis using utc_of_timepoint_eq [OF assms(1)] by simp
qed

theorem gps_date_agrees_witness:
  "map_option (ts_sub_int (3657 * DAY_IN_SECONDS)) (utc_of_timepoint \<lparr>tp_year = 2024, tp_month = 3,
     tp_day = 1, tp_hour = 12, tp_minutes = 30, tp_seconds = 15 + 1 / 4\<rparr>) =
   Some (from_ymdhms 2024 3 1 12 30 (15 + 1 / 4))"
  using gps_date_agrees [of "\<lparr>tp_year = 2024, tp_month = 3, tp_day = 1, tp_hour = 12,
     tp_minutes = 30, tp_seconds = 15 + 1 / 4\<rparr>"]
  by (simp add: valid_date_def days_in_month_def leap_year_def)

text \<open>The date that \<^verbatim>\<open>Gps::to_timepoint\<close> prints is not the date of the time stamp.
  The routine is the UTC calendar with another first year, so for every time stamp it gives the
  date that the same number of seconds after 1970-01-01 has, with the year increased by ten: five
  days are missing (the GPS epoch is January 6th) and the leap days fall in 1982, 1986 and so on.
  The epoch itself becomes January 1st.\<close>

theorem gps_to_timepoint_shifted:
  "gps_to_timepoint t = (date_from_utc t)\<lparr>tp_year := tp_year (date_from_utc t) + 10\<rparr> \<and>
   gps_to_timepoint (from_ymdhms 1980 1 6 0 0 0) =
     \<lparr>tp_year = 1980, tp_month = 1, tp_day = 1, tp_hour = 0, tp_minutes = 0, tp_seconds = 0\<rparr>"
proof (intro conjI)
  show "gps_to_timepoint t = (date_from_utc t)\<lparr>tp_year := tp_year (date_from_utc t) + 10\<rparr>"
    by (simp add: gps_to_timepoint_def date_from_utc_def timepoint_since_def Let_def split_beta
        GPS_START_YEAR_def UTC_START_YEAR_def)
  have zero: "from_ymdhms 1980 1 6 0 0 0 = Timestamp 0 0"
    by (intro normal_unique) (simp_all add: from_ymdhms_def from_week_tow_def days_from_ymd_def
        days_of_date_def years_loop_eq GPS_START_YEAR_def UTC_DAY_OF_YEAR_def trunc_def Let_def)
  show "gps_to_timepoint (from_ymdhms 1980 1 6 0 0 0) =
     \<lparr>tp_year = 1980, tp_month = 1, tp_day = 1, tp_hour = 0, tp_minutes = 0, tp_seconds = 0\<rparr>"
    unfolding zero by (simp add: gps_to_timepoint_def timepoint_since_def normalize_eq Let_def
        UTC_MONTH_DAYS_def GPS_START_YEAR_def seconds_defs UTC_DAYS_PER_4YEAR_def)
qed

section \<open>GLONASS days\<close>

lemma raise_day_props: "0 \<le> raise_day d \<and> raise_day d mod 1461 = d mod 1461"
proof (induction d rule: raise_day.induct)
  case (1 d)
  then show ?case
    by (subst (1 2) raise_day.simps) (auto simp: FOUR_YEAR_PERIOD_def)
qed

lemma lower_day_props:
  "0 \<le> d \<Longrightarrow> 0 \<le> lower_day d \<and> lower_day d < 1461 \<and> lower_day d mod 1461 = d mod 1461"
proof (induction d rule: lower_day.induct)
  case (1 d)
  then show ?case
    by (subst (1 2 3) lower_day.simps) (auto simp: FOUR_YEAR_PERIOD_def)
qed

text \<open>The day within the four-year period is resolved against the reference.  For a
  reference time after the GLONASS epoch, any integer as the day and a time of day within the day,
  \<^verbatim>\<open>from_period_day_tod\<close> gives a normalised time stamp in the four-year period of the
  reference, on the day of that period which is congruent to the given day modulo 1461, at the
  given time of day.\<close>

theorem glonass_day_resolved:
  assumes "0 \<le> ts_seconds reference" and "0 \<le> tod" and "tod < 86400"
    and "r = from_period_day_tod day tod reference"
  shows "normal r \<and> scale_days r div 1461 = scale_days reference div 1461 \<and>
    scale_days r mod 1461 = day mod 1461 \<and> full_seconds (time_of_day r) = tod"
proof -
  define n where "n = lower_day (raise_day day)"
  define P where "P = scale_days reference div 1461"
  have n: "0 \<le> n" "n < 1461" "n mod 1461 = day mod 1461"
    using raise_day_props [of day] lower_day_props [of "raise_day day"] by (auto simp: n_def)
  have ref: "0 \<le> scale_days reference"
    using assms(1) by (simp add: scale_days_def seconds_defs pos_imp_zdiv_nonneg_iff)
  then have start: "scale_days reference - scale_days reference smod 1461 = 1461 * P"
    by (simp add: P_def minus_mod_eq_mult_div)
  have r: "r = ts_add tod (Timestamp (86400 * (1461 * P + n)) 0)"
    unfolding assms(4) from_period_day_tod_def Let_def n_def [symmetric] FOUR_YEAR_PERIOD_def start
    by (simp add: ts_add_int_def seconds_defs)
  have r': "r = Timestamp (86400 * (1461 * P + n) + \<lfloor>tod\<rfloor>) (tod - of_int \<lfloor>tod\<rfloor>)"
    by (simp add: r ts_add_def normalize_eq)
  have tod: "0 \<le> \<lfloor>tod\<rfloor>" "\<lfloor>tod\<rfloor> < 86400" using assms(2,3) by (simp_all add: floor_less_iff)
  have "0 \<le> P" using ref by (simp add: P_def pos_imp_zdiv_nonneg_iff)
  moreover have "(\<lfloor>tod\<rfloor> + x * 86400) div 86400 = x" for x using tod by simp
  from this [of "1461 * P + n"] have "(86400 * (1461 * P + n) + \<lfloor>tod\<rfloor>) div 86400 = 1461 * P + n"
    by (simp only: mult.commute add.commute)
  ultimately have days: "scale_days r = 1461 * P + n"
    using tod n(1) by (simp add: r' scale_days_def seconds_defs)
  have "full_seconds (time_of_day r) = tod"
    unfolding time_of_day_def days by (simp add: r seconds_defs)
  moreover have "normal r" by (simp add: r)
  ultimately show ?thesis using days n by (simp add: P_def)
qed

theorem glonass_day_resolved_witness:
  "scale_days (from_period_day_tod (- 1) 10 (Timestamp (86400 * 10000) 0)) mod 1461 = 1460"
  using glonass_day_resolved [OF _ _ _ refl, of "Timestamp (86400 * 10000) 0" 10 "- 1"] by simp

end
