(* ===== verification/Nmea_Messages.thy ===== *)
theory Nmea_Messages
  imports Text_Lib Time_Scales "HOL-Library.Monad_Syntax"
begin

text \<open>
  The NMEA sentences that the client decodes (dependency/format/nmea/messages): GGA, VTG, GST
  and Quectel's EPE, each from the comma separated tokens of its payload.  A \<^verbatim>\<open>double\<close> is a
  rational number, an infinity or a NaN, without rounding; \<^verbatim>\<open>std::stod\<close> is written out
  for this type (decimal and hexadecimal notation, \<^verbatim>\<open>inf\<close>, \<^verbatim>\<open>nan\<close>, the range errors),
  \<open>None\<close> being a thrown exception.  The system clock, from which \<^verbatim>\<open>parse_utc\<close> takes the day,
  is a parameter.
\<close>

section \<open>Numbers\<close>

datatype dbl = Finite rat | Infinite bool | NaN

fun dbl_plus :: "dbl \<Rightarrow> dbl \<Rightarrow> dbl" where
  "dbl_plus (Finite a) (Finite b) = Finite (a + b)"
| "dbl_plus NaN _ = NaN"
| "dbl_plus _ NaN = NaN"
| "dbl_plus (Infinite a) (Infinite b) = (if a = b then Infinite a else NaN)"
| "dbl_plus (Infinite a) (Finite _) = Infinite a"
| "dbl_plus (Finite _) (Infinite b) = Infinite b"

fun dbl_divide :: "dbl \<Rightarrow> rat \<Rightarrow> dbl" where
  "dbl_divide (Finite a) q = Finite (a / q)"
| "dbl_divide (Infinite a) q = Infinite (a \<noteq> (q < 0))"
| "dbl_divide NaN q = NaN"

fun dbl_uminus :: "dbl \<Rightarrow> dbl" where
  "dbl_uminus (Finite a) = Finite (- a)"
| "dbl_uminus (Infinite a) = Infinite (\<not> a)"
| "dbl_uminus NaN = NaN"

definition to_lower :: "u8 \<Rightarrow> u8" where
  "to_lower c = (if 0x41 \<le> c \<and> c \<le> 0x5A then c + 0x20 else c)"

definition scan_sign :: "bytes \<Rightarrow> bool \<times> bytes" where
  "scan_sign s =
     (s \<noteq> [] \<and> hd s = 0x2D,
      if s \<noteq> [] \<and> (hd s = 0x2D \<or> hd s = 0x2B) then tl s else s)"

definition scale_by :: "rat \<Rightarrow> int \<Rightarrow> rat \<Rightarrow> rat" where
  "scale_by b e q = (if 0 \<le> e then q * b ^ nat e else q / b ^ nat (- e))"

text \<open>Digits with an optional point and exponent.\<close>

definition scan_float :: "nat \<Rightarrow> u8 \<Rightarrow> rat \<Rightarrow> bytes \<Rightarrow> rat option" where
  "scan_float base marker exp_base s =
     (let ip = takeWhile (is_digit base) s;
          r = dropWhile (is_digit base) s;
          point = (r \<noteq> [] \<and> hd r = 0x2E);
          fp = (if point then takeWhile (is_digit base) (tl r) else []);
          r2 = (if point then dropWhile (is_digit base) (tl r) else r);
          (neg, r3) = (if r2 \<noteq> [] \<and> to_lower (hd r2) = marker then scan_sign (tl r2) else (False, []));
          ds = takeWhile (is_digit 10) r3;
          e = (if neg then - int (number_value 10 ds) else int (number_value 10 ds))
      in if ip @ fp = [] then None
         else Some (scale_by exp_base e
                (of_nat (number_value base (ip @ fp)) / of_nat base ^ length fp)))"

definition in_double_range :: "rat \<Rightarrow> bool" where
  "in_double_range v \<longleftrightarrow> v = 0 \<or> (1 / 2 ^ 1022 \<le> \<bar>v\<bar> \<and> \<bar>v\<bar> < 2 ^ 1024 - 2 ^ 970)"

definition stod :: "bytes \<Rightarrow> dbl option" where
  "stod s =
     (let (neg, t) = scan_sign (dropWhile is_space s);
          hex = (if 2 \<le> length t \<and> t ! 0 = 0x30 \<and> to_lower (t ! 1) = 0x78
                 then scan_float 16 0x70 2 (drop 2 t) else None)
      in if map to_lower (take 3 t) = str ''inf'' then Some (Infinite neg)
         else if map to_lower (take 3 t) = str ''nan'' then Some NaN
         else case (case hex of Some v \<Rightarrow> Some v | None \<Rightarrow> scan_float 10 0x65 10 t) of
                None \<Rightarrow> None
              | Some v \<Rightarrow> if in_double_range v then Some (Finite (if neg then - v else v)) else None)"

section \<open>Messages\<close>

record nmea_base =
  mPrefix :: bytes
  mPayload :: bytes
  mChecksum :: bytes

datatype GgaFixQuality = Invalid | GpsFix | DgpsFix | PpsFix | RtkFixed | RtkFloat | DeadReckoning

record GgaMessage =
  gga_base :: nmea_base
  mTimeOfDay :: timestamp
  mLatitude :: dbl
  mLongitude :: dbl
  mFixQuality :: GgaFixQuality
  mSatellitesInView :: int
  mHdop :: dbl
  mMsl :: dbl
  mGeoidSeparation :: dbl
  mAgeOfDifferentialCorrections :: dbl

datatype ModeIndicator = ModeUnknown | Autonomous | Differential

record VtgMessage =
  vtg_base :: nmea_base
  mTrueCourseOverGround :: dbl
  mMagneticCourseOverGround :: dbl
  mSpeedOverGroundKnots :: dbl
  mSpeedOverGroundKmh :: dbl
  mModeIndicator :: ModeIndicator

record GstMessage =
  gst_base :: nmea_base
  mRmsValue :: dbl
  mSemiMajorError :: dbl
  mSemiMinorError :: dbl
  mOrientationOfSemiMajorError :: dbl
  mLatitudeError :: dbl
  mLongitudeError :: dbl
  mAltitudeError :: dbl

record EpeMessage =
  epe_base :: nmea_base
  mMsgVer :: dbl
  mNorth :: dbl
  mEast :: dbl
  mDown :: dbl
  m2D :: dbl
  m3D :: dbl

datatype nmea_message =
    Gga GgaMessage | Vtg VtgMessage | Gst GstMessage | Epe EpeMessage
  | NmeaUnsupported nmea_base | NmeaError nmea_base

section \<open>Tokens\<close>

definition parse_double :: "bytes \<Rightarrow> dbl option" where
  "parse_double token = stod token"

definition parse_double_opt :: "bytes \<Rightarrow> dbl option" where
  "parse_double_opt token = (case stod token of Some v \<Rightarrow> Some v | None \<Rightarrow> Some (Finite 0))"

text \<open>\<^verbatim>\<open>Tai{Utc::from_day_tod(Utc::now().days(), tod)}\<close>.\<close>

definition parse_utc :: "timestamp \<Rightarrow> bytes \<Rightarrow> timestamp option" where
  "parse_utc now utc =
     (let tokens = split utc 0x2E
      in if length tokens \<noteq> 2 then None
         else do {
           hours \<leftarrow> substr (tokens ! 0) 0 2 \<bind> stoi;
           minutes \<leftarrow> substr (tokens ! 0) 2 2 \<bind> stoi;
           seconds \<leftarrow> substr (tokens ! 0) 4 2 \<bind> stoi;
           milliseconds \<leftarrow> stoi (tokens ! 1);
           let tod = of_int (hours * HOUR_IN_SECONDS + minutes * MINUTE_IN_SECONDS + seconds)
                     + of_int milliseconds / 1000;
           Some (convert_scale UTC TAI (utc_from_day_tod (scale_days now) tod))
         })"

definition parse_angle :: "nat \<Rightarrow> bytes \<Rightarrow> bytes \<Rightarrow> bytes \<Rightarrow> bytes \<Rightarrow> dbl option" where
  "parse_angle digits negative positive txt indicator =
     do {
       degrees \<leftarrow> substr txt 0 digits \<bind> stod;
       minutes \<leftarrow> substr txt digits (length txt) \<bind> stod;
       let v = dbl_plus degrees (dbl_divide minutes 60);
       if indicator = negative then Some (dbl_uminus v)
       else if indicator = positive then Some v
       else None
     }"

definition parse_latitude :: "bytes \<Rightarrow> bytes \<Rightarrow> dbl option" where
  "parse_latitude latitude indicator = parse_angle 2 (str ''S'') (str ''N'') latitude indicator"

definition parse_longitude :: "bytes \<Rightarrow> bytes \<Rightarrow> dbl option" where
  "parse_longitude longitude indicator = parse_angle 3 (str ''W'') (str ''E'') longitude indicator"

definition parse_fix_quality :: "bytes \<Rightarrow> GgaFixQuality option" where
  "parse_fix_quality s =
     (case stoi s of None \<Rightarrow> None
      | Some v \<Rightarrow>
          if v = 0 then Some Invalid else if v = 1 then Some GpsFix else if v = 2 then Some DgpsFix
          else if v = 3 then Some PpsFix else if v = 4 then Some RtkFixed
          else if v = 5 then Some RtkFloat else if v = 6 then Some DeadReckoning else None)"

definition parse_satellites_in_view :: "bytes \<Rightarrow> int option" where
  "parse_satellites_in_view s = stoi s"

definition parse_hdop :: "bytes \<Rightarrow> dbl option" where
  "parse_hdop s = stod s"

definition parse_altitude :: "bytes \<Rightarrow> bytes \<Rightarrow> dbl option" where
  "parse_altitude altitude units =
     (case stod altitude of None \<Rightarrow> None | Some v \<Rightarrow> if units = str ''M'' then Some v else None)"

definition parse_age_of_differential_corrections :: "bytes \<Rightarrow> dbl option" where
  "parse_age_of_differential_corrections s = stod s"

definition parse_mode_indicator :: "bytes \<Rightarrow> ModeIndicator option" where
  "parse_mode_indicator token =
     (if length token \<noteq> 1 then None
      else if token ! 0 = 0x41 then Some Autonomous
      else if token ! 0 = 0x44 then Some Differential
      else Some ModeUnknown)"

section \<open>Messages from payloads\<close>

definition gga_parse :: "timestamp \<Rightarrow> nmea_base \<Rightarrow> GgaMessage option" where
  "gga_parse now b =
     (let tokens = split (mPayload b) 0x2C
      in if length tokens < 12 then None
         else do {
           time \<leftarrow> parse_utc now (tokens ! 0);
           lat \<leftarrow> parse_latitude (tokens ! 1) (tokens ! 2);
           lng \<leftarrow> parse_longitude (tokens ! 3) (tokens ! 4);
           quality \<leftarrow> parse_fix_quality (tokens ! 5);
           satellites \<leftarrow> parse_satellites_in_view (tokens ! 6);
           hdop \<leftarrow> parse_hdop (tokens ! 7);
           msl \<leftarrow> parse_altitude (tokens ! 8) (tokens ! 9);
           geoid \<leftarrow> parse_altitude (tokens ! 10) (tokens ! 11);
           let age = (if length tokens > 12
             then (case parse_age_of_differential_corrections (tokens ! 12) of
                     None \<Rightarrow> Finite 0 | Some v \<Rightarrow> v)
             else Finite 0);
           Some \<lparr>gga_base = b, mTimeOfDay = time, mLatitude = lat, mLongitude = lng,
             mFixQuality = quality, mSatellitesInView = satellites, mHdop = hdop, mMsl = msl,
             mGeoidSeparation = geoid, mAgeOfDifferentialCorrections = age\<rparr>
         })"

definition gga_altitude :: "GgaMessage \<Rightarrow> dbl" where
  "gga_altitude m = dbl_plus (mMsl m) (mGeoidSeparation m)"

definition vtg_parse :: "nmea_base \<Rightarrow> VtgMessage option" where
  "vtg_parse b =
     (let tokens = split (mPayload b) 0x2C
      in if length tokens < 9 then None
         else do {
           true_course \<leftarrow> parse_double_opt (tokens ! 0);
           magnetic \<leftarrow> parse_double_opt (tokens ! 2);
           knots \<leftarrow> parse_double (tokens ! 4);
           kmh \<leftarrow> parse_double (tokens ! 6);
           mode \<leftarrow> parse_mode_indicator (tokens ! 8);
           if tokens ! 7 \<noteq> str ''K'' then None
           else Some \<lparr>vtg_base = b, mTrueCourseOverGround = true_course,
             mMagneticCourseOverGround = magnetic, mSpeedOverGroundKnots = knots,
             mSpeedOverGroundKmh = kmh, mModeIndicator = mode\<rparr>
         })"

definition gst_parse :: "nmea_base \<Rightarrow> GstMessage option" where
  "gst_parse b =
     (let tokens = split (mPayload b) 0x2C
      in if length tokens < 8 then None
         else do {
           rms \<leftarrow> parse_double_opt (tokens ! 1);
           semi_major \<leftarrow> parse_double (tokens ! 2);
           semi_minor \<leftarrow> parse_double (tokens ! 3);
           orientation \<leftarrow> parse_double_opt (tokens ! 4);
           lat \<leftarrow> parse_double (tokens ! 5);
           lng \<leftarrow> parse_double (tokens ! 6);
           alt \<leftarrow> parse_double (tokens ! 7);
           Some \<lparr>gst_base = b, mRmsValue = rms, mSemiMajorError = semi_major,
             mSemiMinorError = semi_minor, mOrientationOfSemiMajorError = orientation,
             mLatitudeError = lat, mLongitudeError = lng, mAltitudeError = alt\<rparr>
         })"

definition epe_parse :: "nmea_base \<Rightarrow> EpeMessage option" where
  "epe_parse b =
     (let tokens = split (mPayload b) 0x2C
      in if length tokens < 6 then None
         else do {
           version \<leftarrow> parse_double_opt (tokens ! 0);
           north \<leftarrow> parse_double_opt (tokens ! 1);
           east \<leftarrow> parse_double_opt (tokens ! 2);
           down \<leftarrow> parse_double_opt (tokens ! 3);
           e2d \<leftarrow> parse_double_opt (tokens ! 4);
           e3d \<leftarrow> parse_double_opt (tokens ! 5);
           Some \<lparr>epe_base = b, mMsgVer = version, mNorth = north, mEast = east, mDown = down,
             m2D = e2d, m3D = e3d\<rparr>
         })"

section \<open>Angles\<close>

text \<open>A fixed number of decimal digits, with leading zeros.\<close>

fun digits :: "nat \<Rightarrow> nat \<Rightarrow> bytes" where
  "digits 0 n = []"
| "digits (Suc k) n = digits k (n div 10) @ [of_nat (0x30 + n mod 10)]"

lemma digits_numeral:
  "digits (numeral k) n = digits (pred_numeral k) (n div 10) @ [of_nat (0x30 + n mod 10)]"
  by (simp only: numeral_eq_Suc digits.simps)

lemma length_digits [simp]: "length (digits k n) = k"
  by (induction k n rule: digits.induct) simp_all

lemma digits_set: "c \<in> set (digits k n) \<Longrightarrow> \<exists>d < 10. c = of_nat (0x30 + d)"
proof (induction k n rule: digits.induct)
  case (2 k n)
  then consider "c \<in> set (digits k (n div 10))" | "c = of_nat (0x30 + n mod 10)" by auto
  then show ?case
  proof cases
    case 2
    moreover have "n mod 10 < 10" by simp
    ultimately show ?thesis by blast
  qed (use 2(1) in blast)
qed simp

lemma number_value_digits: "n < 10 ^ k \<Longrightarrow> number_value 10 (digits k n) = n"
proof (induction k n rule: digits.induct)
  case (2 k n)
  then have "n div 10 < 10 ^ k" by (simp add: div_less_iff_less_mult mult.commute)
  moreover have "digit_value (of_nat (0x30 + n mod 10)) = Some (n mod 10)"
    by (rule digit_value_digit) simp
  ultimately show ?case using 2 by (simp add: number_value_append)
qed (simp add: number_value_def)

lemma number_value_cat:
  "number_value 10 (xs @ ys) = number_value 10 xs * 10 ^ length ys + number_value 10 ys"
proof (induction ys rule: rev_induct)
  case (snoc y ys)
  then show ?case
    by (simp add: append_assoc [symmetric] number_value_append del: append_assoc)
qed (simp add: number_value_def)

text \<open>Every character of a decimal number is a digit and nothing else.\<close>

lemma digit_facts:
  "d < 10 \<Longrightarrow> is_digit 10 (of_nat (0x30 + d)) \<and> \<not> is_space (of_nat (0x30 + d)) \<and>
     of_nat (0x30 + d) \<noteq> (0x2D :: u8) \<and> of_nat (0x30 + d) \<noteq> (0x2B :: u8) \<and>
     of_nat (0x30 + d) \<noteq> (0x2E :: u8) \<and> to_lower (of_nat (0x30 + d)) = of_nat (0x30 + d) \<and>
     of_nat (0x30 + d) \<noteq> (0x69 :: u8) \<and> of_nat (0x30 + d) \<noteq> (0x6E :: u8) \<and>
     of_nat (0x30 + d) \<noteq> (0x78 :: u8)"
  by (drule digit_cases)
    (elim insertE emptyE; simp add: is_digit_def digit_value_def is_space_def to_lower_def)

lemma digits_facts:
  assumes "c \<in> set (digits k n)"
  shows "is_digit 10 c" "\<not> is_space c" "c \<noteq> 0x2D" "c \<noteq> 0x2B" "c \<noteq> 0x2E" "to_lower c = c"
    "c \<noteq> 0x69" "c \<noteq> 0x6E" "c \<noteq> 0x78"
  using digits_set [OF assms] digit_facts by auto

lemma scan_float_fixed:
  assumes "\<forall>c \<in> set xs. is_digit 10 c" and "\<forall>c \<in> set ys. is_digit 10 c" and "xs \<noteq> []"
  shows "scan_float 10 0x65 10 (xs @ 0x2E # ys) = Some (of_nat (number_value 10 (xs @ ys)) / 10 ^ length ys)"
    and "scan_float 10 0x65 10 xs = Some (of_nat (number_value 10 xs))"
proof -
  have dot: "\<not> is_digit 10 0x2E" by (simp add: is_digit_def digit_value_def)
  have xs: "takeWhile (is_digit 10) xs = xs" "dropWhile (is_digit 10) xs = []"
    "takeWhile (is_digit 10) ys = ys" "dropWhile (is_digit 10) ys = []"
    using assms by (simp_all add: takeWhile_eq_all_conv)
  have "takeWhile (is_digit 10) (xs @ 0x2E # ys) = xs" "dropWhile (is_digit 10) (xs @ 0x2E # ys) = 0x2E # ys"
    using assms(1) dot by (simp_all add: takeWhile_append dropWhile_append)
  then show "scan_float 10 0x65 10 (xs @ 0x2E # ys) =
      Some (of_nat (number_value 10 (xs @ ys)) / 10 ^ length ys)"
    using assms(3) dot by (simp add: scan_float_def scale_by_def Let_def xs number_value_def [of 10 "[]"])
  show "scan_float 10 0x65 10 xs = Some (of_nat (number_value 10 xs))"
    using assms(3) dot by (simp add: scan_float_def scale_by_def Let_def xs number_value_def [of 10 "[]"])
qed

text \<open>Reading back a number written with two or three integral digits.\<close>

lemma stod_scan:
  assumes "\<forall>c \<in> set xs. is_digit 10 c \<and> \<not> is_space c \<and> c \<noteq> 0x2D \<and> c \<noteq> 0x2B \<and> to_lower c = c \<and>
      c \<noteq> 0x69 \<and> c \<noteq> 0x6E \<and> c \<noteq> 0x78"
    and "2 \<le> length xs" and "scan_float 10 0x65 10 (xs @ ys) = Some v" and "in_double_range v"
  shows "stod (xs @ ys) = Some (Finite v)"
proof -
  obtain a b cs where xs: "xs = a # b # cs" using assms(2) by (metis Suc_le_length_iff numeral_2_eq_2)
  have "scan_sign (dropWhile is_space (xs @ ys)) = (False, xs @ ys)"
    using assms(1) xs by (simp add: scan_sign_def)
  moreover have "to_lower b \<noteq> 0x78" "to_lower a \<noteq> 0x69" "to_lower a \<noteq> 0x6E" using assms(1) xs by auto
  ultimately show ?thesis
    using assms(3,4) xs by (simp add: stod_def Let_def)
qed

lemma stod_digits:
  assumes "n < 10 ^ k" and "2 \<le> k" and "k \<le> 20"
  shows "stod (digits k n) = Some (Finite (of_nat n))"
proof -
  have ne: "digits k n \<noteq> []" using assms(2) by (metis length_digits list.size(3) not_numeral_le_zero)
  have "scan_float 10 0x65 10 (digits k n) = Some (of_nat (number_value 10 (digits k n)))"
    by (rule scan_float_fixed(2) [where ys = "[]"]) (use ne digits_facts(1) in auto)
  then have "scan_float 10 0x65 10 (digits k n @ []) = Some (of_nat n)"
    by (simp only: number_value_digits [OF assms(1)] append_Nil2)
  moreover have "in_double_range (of_nat n)"
  proof (cases "n = 0")
    case False
    have "(of_nat n :: rat) < 10 ^ 20"
      using assms(1,3) by (metis less_le_trans of_nat_less_iff of_nat_numeral of_nat_power
          one_le_numeral power_increasing)
    moreover have "(1 :: rat) \<le> of_nat n" using False by simp
    ultimately show ?thesis by (auto simp: in_double_range_def)
  qed (simp add: in_double_range_def)
  ultimately show ?thesis
    using stod_scan [of "digits k n" "[]"] digits_facts assms(2) by auto
qed

lemma stod_fixed:
  assumes "m < 100" and "f < 10 ^ k" and "k \<le> 20"
  shows "stod (digits 2 m @ 0x2E # digits k f) = Some (Finite (of_nat m + of_nat f / 10 ^ k))"
proof -
  let ?v = "of_nat m + of_nat f / 10 ^ k :: rat"
  have ne: "digits 2 m \<noteq> []" by (metis length_digits list.size(3) zero_neq_numeral)
  have "number_value 10 (digits 2 m @ digits k f) = m * 10 ^ k + f"
    using assms by (simp add: number_value_cat number_value_digits)
  then have "scan_float 10 0x65 10 (digits 2 m @ 0x2E # digits k f) = Some (of_nat (m * 10 ^ k + f) / 10 ^ k)"
    using scan_float_fixed(1) [of "digits 2 m" "digits k f"] digits_facts(1) ne by auto
  moreover have v: "of_nat (m * 10 ^ k + f) / 10 ^ k = ?v" by (simp add: add_divide_distrib)
  moreover have "in_double_range ?v"
  proof (cases "?v = 0")
    case False
    have "m * 10 ^ k + f \<noteq> 0" using False by auto
    then have one: "(1 :: rat) \<le> of_nat (m * 10 ^ k + f)" by (metis less_one not_less of_nat_1 of_nat_le_iff)
    have "(10 :: rat) ^ k \<le> 10 ^ 20" using assms(3) by (intro power_increasing) simp_all
    then have low: "1 / 10 ^ 20 \<le> ?v"
      unfolding v [symmetric] using one by (intro frac_le) simp_all
    have "of_nat f / 10 ^ k < (1 :: rat)"
      using assms(2) by (metis divide_less_eq_1_pos of_nat_less_iff of_nat_numeral of_nat_power
          zero_less_numeral zero_less_power)
    moreover have "of_nat m < (100 :: rat)" using assms(1) by simp
    ultimately have "?v < 100 + 1" by (intro add_strict_mono)
    moreover have "0 < ?v" using low by (rule less_le_trans [rotated]) simp
    moreover have "1 / 2 ^ 1022 \<le> (1 / 10 ^ 20 :: rat)" by simp
    ultimately show ?thesis using low unfolding in_double_range_def by simp
  qed (simp add: in_double_range_def)
  ultimately show ?thesis
    using stod_scan [of "digits 2 m" "0x2E # digits k f"] digits_facts by auto
qed

text \<open>Positions are read exactly.  A latitude written as two digits of degrees, two digits of
  minutes, a point and up to 20 decimals, with the letter N or S, is the number of degrees plus the
  minutes divided by sixty, negated for S; a longitude with three digits of degrees and E or W
  likewise; another letter is refused.\<close>

theorem nmea_angles_exact:
  assumes "m < 100" and "f < 10 ^ k" and "k \<le> 20"
  defines "minutes \<equiv> (of_nat m + of_nat f / 10 ^ k) / 60 :: rat"
  shows "(d < 100 \<longrightarrow> parse_latitude (digits 2 d @ digits 2 m @ 0x2E # digits k f) c =
      (if c = str ''S'' then Some (Finite (- (of_nat d + minutes)))
       else if c = str ''N'' then Some (Finite (of_nat d + minutes)) else None)) \<and>
    (d < 1000 \<longrightarrow> parse_longitude (digits 3 d @ digits 2 m @ 0x2E # digits k f) c =
      (if c = str ''W'' then Some (Finite (- (of_nat d + minutes)))
       else if c = str ''E'' then Some (Finite (of_nat d + minutes)) else None))"
  using stod_digits [of d 2] stod_digits [of d 3] stod_fixed [OF assms(1-3)]
  by (simp add: parse_latitude_def parse_longitude_def parse_angle_def substr_def minutes_def)

theorem nmea_angles_exact_witness:
  "parse_latitude (str ''5924.9000'') (str ''S'') = Some (Finite (- (59 + 24.9 / 60)))"
proof -
  have "digits 2 59 @ digits 2 24 @ 0x2E # digits 4 9000 = str ''5924.9000''"
    by (simp add: digits_numeral)
  then show ?thesis using nmea_angles_exact [of 24 9000 4 59 "str ''S''"] by simp
qed

end

