(* ===== verification/Nmea_Parser.thy ===== *)
theory Nmea_Parser
  imports Ctrl_Parser Nmea_Messages
begin

text \<open>
  The framing of NMEA sentences (dependency/format/nmea/parser.cpp): synchronisation on
  \<open>$\<close>, the search for the line end, the checksum and the dispatch on the prefix.
  \<^verbatim>\<open>char\<close> is signed, as on the platforms the client is built for, so a byte from
  \<open>0x80\<close> on enters the checksum sign extended to 64 bits.
\<close>

section \<open>Operations\<close>

datatype checksum_result = ChecksumOk | InvalidStringNostar | InvalidStringLength | ChecksumInvalidValue

definition xor_chars :: "bytes \<Rightarrow> u64" where
  "xor_chars s = foldl (\<lambda>acc c. acc XOR scast c) 0 s"

definition nmea_checksum :: "bool \<Rightarrow> bytes \<Rightarrow> checksum_result" where
  "nmea_checksum lf_only buffer =
     (case find_last_of buffer 0x2A of
        None \<Rightarrow> InvalidStringNostar
      | Some fmt_end \<Rightarrow>
          if fmt_end + 3 + (if lf_only then 1 else 2) \<noteq> length buffer then InvalidStringLength
          else
            let count = (if fmt_end = 0 then length buffer else fmt_end - 1);
                fmt_string = take count (drop 1 buffer);
                expected = substr buffer (fmt_end + 1) (fmt_end + 3) \<bind> stoull 16
            in case expected of
                 None \<Rightarrow> ChecksumInvalidValue
               | Some v \<Rightarrow> if v = xor_chars fmt_string then ChecksumOk else ChecksumInvalidValue)"

definition parse_prefix :: "bytes \<Rightarrow> bytes" where
  "parse_prefix data =
     (let prefix = takeWhile (\<lambda>c. \<not> (c = 0x2C \<or> c = 0x2A)) data
      in if length prefix \<noteq> 6 \<and> length prefix \<noteq> 8 then [] else drop 1 prefix)"

definition or_error :: "nmea_base \<Rightarrow> nmea_message option \<Rightarrow> nmea_message" where
  "or_error b m = (case m of Some v \<Rightarrow> v | None \<Rightarrow> NmeaError b)"

definition nmea_decode :: "timestamp \<Rightarrow> nmea_base \<Rightarrow> nmea_message" where
  "nmea_decode now b =
     (let prefix = mPrefix b
      in if prefix \<in> {str ''GPGGA'', str ''GLGGA'', str ''GAGGA'', str ''GNGGA''}
         then or_error b (map_option Gga (gga_parse now b))
         else if prefix \<in> {str ''GPVTG'', str ''GLVTG'', str ''GAVTG'', str ''GNVTG''}
         then or_error b (map_option Vtg (vtg_parse b))
         else if prefix \<in> {str ''GPGST'', str ''GLGST'', str ''GAGST'', str ''GNGST''}
         then or_error b (map_option Gst (gst_parse b))
         else if prefix = str ''PQTMEPE'' then or_error b (map_option Epe (epe_parse b))
         else NmeaUnsupported b)"

text \<open>
  From the complete line to the message.  The line has passed the checksum, so it has at least
  five bytes and \<^verbatim>\<open>length_with_clrf - 5\<close> does not wrap; neither \<^verbatim>\<open>substr\<close> throws.
\<close>

definition nmea_dispatch :: "timestamp \<Rightarrow> bytes \<Rightarrow> nmea_message outcome" where
  "nmea_dispatch now payload =
     (let prefix = parse_prefix payload;
          data_start = length prefix + 1 + 1;
          data_end = length payload - 5
      in if prefix = [] then Null
         else if data_start \<ge> data_end then Null
         else case (substr payload data_start (data_end - data_start),
                    substr payload (data_end + 1) (data_end + 3)) of
             (Some data, Some checksum) \<Rightarrow>
               Value (nmea_decode now \<lparr>mPrefix = prefix, mPayload = data, mChecksum = checksum\<rparr>)
           | _ \<Rightarrow> Undefined)"

datatype nmea_scan_result = Incomplete | NewStart nat | LineEnd nat

function nmea_scan :: "bool \<Rightarrow> ring \<Rightarrow> nat \<Rightarrow> nmea_scan_result" where
  "nmea_scan lf_only p len =
     (if buffer_length p < len + (if lf_only then 1 else 2) then Incomplete
      else if (if lf_only then peek p len = 0x0A
               else peek p len = 0x0D \<and> peek p (len + 1) = 0x0A) then LineEnd len
      else if peek p len = 0x24 then NewStart len
      else nmea_scan lf_only p (len + 1))"
  by pat_completeness auto

termination by (relation "measure (\<lambda>(_, p, n). buffer_length p - n)") (auto split: if_splits)

declare nmea_scan.simps [simp del]

definition nmea_parse_line :: "timestamp \<Rightarrow> bool \<Rightarrow> ring \<Rightarrow> nmea_message outcome \<times> ring" where
  "nmea_parse_line now lf_only p =
     (if buffer_length p < 1 then (Null, p)
      else case nmea_scan lf_only p 1 of
        Incomplete \<Rightarrow> (Null, p)
      | NewStart n \<Rightarrow> (Null, skip p n)
      | LineEnd n \<Rightarrow>
          let total = n + (if lf_only then 1 else 2);
              payload = copy_to_buffer p total
          in if nmea_checksum lf_only payload \<noteq> ChecksumOk then (Null, skip p 1)
             else (nmea_dispatch now payload, skip p total))"

definition nmea_try_parse ::
  "timestamp \<Rightarrow> bool \<Rightarrow> ring \<Rightarrow> (nmea_message outcome \<times> ring) option" where
  "nmea_try_parse now lf_only p =
     map_option (nmea_parse_line now lf_only)
       (while_option (\<lambda>p. 1 \<le> buffer_length p \<and> \<not> peek p 0 = 0x24) (\<lambda>p. skip p 1) p)"

section \<open>The parser as a function on the unread bytes\<close>

text \<open>The first offset at which the line ends or another sentence starts.\<close>

definition eol_at :: "bool \<Rightarrow> bytes \<Rightarrow> nat \<Rightarrow> bool" where
  "eol_at lf_only bs k \<longleftrightarrow> (if lf_only then bs ! k = 0x0A else crlf_at bs k)"

definition eol_length :: "bool \<Rightarrow> nat" where
  "eol_length lf_only = (if lf_only then 1 else 2)"

definition nmea_line_spec :: "timestamp \<Rightarrow> bool \<Rightarrow> bytes \<Rightarrow> nmea_message outcome \<times> bytes" where
  "nmea_line_spec now lf_only bs =
     (case find (\<lambda>k. eol_at lf_only bs k \<or> bs ! k = 0x24) [1..<length bs + 1 - eol_length lf_only] of
        None \<Rightarrow> (Null, bs)
      | Some k \<Rightarrow>
          if \<not> eol_at lf_only bs k then (Null, drop k bs)
          else let n = k + eol_length lf_only
               in if nmea_checksum lf_only (take n bs) \<noteq> ChecksumOk then (Null, drop 1 bs)
                  else (nmea_dispatch now (take n bs), drop n bs))"

definition nmea_spec :: "timestamp \<Rightarrow> bool \<Rightarrow> bytes \<Rightarrow> nmea_message outcome \<times> bytes" where
  "nmea_spec now lf_only bs = nmea_line_spec now lf_only (search 1 (head_is 0x24) bs)"

lemma nmea_scan_spec:
  assumes "ring_ok p"
  shows "nmea_scan lf_only p i =
    (case find (\<lambda>k. eol_at lf_only (contents p) k \<or> contents p ! k = 0x24)
            [i..<length (contents p) + 1 - eol_length lf_only] of
       None \<Rightarrow> Incomplete
     | Some k \<Rightarrow> if eol_at lf_only (contents p) k then LineEnd k else NewStart k)"
  using assms
proof (induction lf_only p i rule: nmea_scan.induct)
  case (1 lf p i)
  let ?bs = "contents p" and ?n = "length (contents p) + 1 - eol_length lf"
  let ?P = "\<lambda>k. eol_at lf ?bs k \<or> ?bs ! k = 0x24"
  show ?case
  proof (cases "buffer_length p < i + (if lf then 1 else 2)")
    case True
    then have "\<not> i < ?n" by (auto simp: eol_length_def)
    then show ?thesis using True by (subst nmea_scan.simps) (simp add: find_upt [of _ i])
  next
    case False
    then have i: "i < ?n" "i < length ?bs" by (auto simp: eol_length_def split: if_splits)
    have pk: "peek p i = ?bs ! i" using i(2) 1(2) by (simp add: ring.pk_eq)
    have eol: "(if lf then peek p i = 0x0A else peek p i = 0x0D \<and> peek p (i + 1) = 0x0A) = eol_at lf ?bs i"
      using at_scan_crlf [OF 1(2) i(2)] pk by (simp add: eol_at_def)
    note step = nmea_scan.simps [of lf p i, unfolded eol, unfolded pk]
    show ?thesis
    proof (cases "?P i")
      case True
      then show ?thesis using False i(1) unfolding step
        by (cases "eol_at lf ?bs i") (simp_all add: find_upt [of _ i])
    next
      case miss: False
      have "find ?P [i..<?n] = find ?P [i + 1..<?n]" using miss i(1) by (simp add: find_upt [of _ i])
      moreover have "nmea_scan lf p i = nmea_scan lf p (i + 1)" using miss False unfolding step by simp
      ultimately show ?thesis using 1(1) [OF False] eol pk miss 1(2) by simp
    qed
  qed
qed

lemma nmea_parse_line_refines:
  assumes "ring_ok s"
  shows "(fst (nmea_parse_line now lf s), contents (snd (nmea_parse_line now lf s)))
      = nmea_line_spec now lf (contents s) \<and> ring_ok (snd (nmea_parse_line now lf s))"
proof (cases "buffer_length s < 1")
  case True
  then have "contents s = []" by (metis length_contents less_one length_0_conv)
  then show ?thesis
    using True assms by (simp add: nmea_parse_line_def nmea_line_spec_def eol_length_def)
next
  case False
  let ?bs = "contents s"
  note scan = nmea_scan_spec [OF assms, of lf 1]
  show ?thesis
  proof (cases "find (\<lambda>k. eol_at lf ?bs k \<or> ?bs ! k = 0x24) [1..<length ?bs + 1 - eol_length lf]")
    case None
    then show ?thesis using False assms scan by (simp add: nmea_parse_line_def nmea_line_spec_def)
  next
    case (Some k)
    then have "k + eol_length lf \<le> length ?bs"
    using find_upt_SomeD [OF Some] by (simp add: less_diff_conv)
    moreover have "length ?bs < 2 ^ 32" using ring.len_bound [OF assms] by simp
    ultimately have copy: "copy_to_buffer s (k + eol_length lf) = take (k + eol_length lf) ?bs"
      by (intro ring.cpy_eq [OF assms]) simp
    show ?thesis
    proof (cases "eol_at lf ?bs k")
      case True
      then show ?thesis
        using Some False assms scan copy unfolding nmea_parse_line_def nmea_line_spec_def Let_def
        by (simp add: ring.skp_bytes ring.skp_invar eol_length_def [symmetric])
    next
      case eol: False
      then show ?thesis
        using Some False assms scan
        by (simp add: nmea_parse_line_def nmea_line_spec_def ring.skp_bytes ring.skp_invar)
    qed
  qed
qed

lemma nmea_result:
  assumes "ring_ok p" and "nmea_spec now lf (contents p) = (r, bs)"
  shows "\<exists>p'. nmea_try_parse now lf p = Some (r, p') \<and> ring_ok p' \<and> contents p' = bs"
proof -
  have head: "(peek s 0 = 0x24) = head_is 0x24 (contents s)"
    if "ring_ok s" "1 \<le> length (contents s)" for s
    using that by (cases "contents s") (simp_all add: ring.pk_eq head_is_def)
  obtain s where s: "while_option (\<lambda>p. 1 \<le> buffer_length p \<and> \<not> peek p 0 = 0x24)
      (\<lambda>p. skip p 1) p = Some s" "ring_ok s" "contents s = search 1 (head_is 0x24) (contents p)"
    using ring.sync_loop [where f = "\<lambda>p. peek p 0 = 0x24" and g = "head_is 0x24",
        OF assms(1) zero_less_one head] by blast
  have "(fst (nmea_parse_line now lf s), contents (snd (nmea_parse_line now lf s))) = (r, bs)
      \<and> ring_ok (snd (nmea_parse_line now lf s))"
    using nmea_parse_line_refines [OF s(2)] assms(2) s(3) by (simp add: nmea_spec_def)
  then show ?thesis
    using s by (intro exI [of _ "snd (nmea_parse_line now lf s)"])
      (auto simp: nmea_try_parse_def prod_eq_iff)
qed

text \<open>The sentence parser refines a function on the unread bytes.  Every call returns, keeps the
  ring consistent, and its result and the remaining bytes are those of \<open>nmea_spec\<close>: bytes before
  the first \<open>$\<close> are dropped; the first line end or \<open>$\<close> after it is looked for in the unread
  bytes; a new \<open>$\<close> drops what precedes it, a wrong checksum drops the \<open>$\<close>, a line with a
  right checksum is removed and dispatched, an unfinished line stays.\<close>

theorem nmea_try_parse_refines:
  assumes "ring_ok p"
  shows "\<exists>r p'. nmea_try_parse now lf p = Some (r, p') \<and> ring_ok p' \<and>
    (r, contents p') = nmea_spec now lf (contents p)"
  using nmea_result [OF assms, of now lf "fst (nmea_spec now lf (contents p))"
      "snd (nmea_spec now lf (contents p))"] by auto

theorem nmea_try_parse_refines_witness:
  "\<exists>r p'. nmea_try_parse (Timestamp 0 0) False ring_new = Some (r, p') \<and>
     (r, contents p') = nmea_spec (Timestamp 0 0) False []"
  using nmea_try_parse_refines [OF ring_ok_new, of "Timestamp 0 0" False] by auto

section \<open>Checksums\<close>

text \<open>The documented checksum: the exclusive or of the bytes between \<open>$\<close> and \<open>*\<close>, as two
  hexadecimal digits.\<close>

definition xor8 :: "bytes \<Rightarrow> u8" where
  "xor8 s = foldl (XOR) 0 s"

definition hex_digit :: "nat \<Rightarrow> u8" where
  "hex_digit n = (if n < 10 then of_nat (0x30 + n) else of_nat (0x37 + n))"

definition hex2 :: "u8 \<Rightarrow> bytes" where
  "hex2 v = [hex_digit (unat v div 16), hex_digit (unat v mod 16)]"

lemma hex_digit_facts:
  assumes "n < 16"
  shows "digit_value (hex_digit n) = Some n" "\<not> is_space (hex_digit n)" "hex_digit n \<noteq> 0x2D"
    "hex_digit n \<noteq> 0x2B" "hex_digit n \<noteq> 0x78" "hex_digit n \<noteq> 0x58" "hex_digit n \<noteq> 0x2A"
    "hex_digit n \<noteq> 0x24" "hex_digit n \<noteq> 0x0A" "hex_digit n \<noteq> 0x0D"
proof -
  have "n \<in> {0, 1, 2, 3, 4, 5, 6, 7, 8, 9, 10, 11, 12, 13, 14, 15}" using assms by simp presburger
  then show "digit_value (hex_digit n) = Some n" "\<not> is_space (hex_digit n)" "hex_digit n \<noteq> 0x2D"
    "hex_digit n \<noteq> 0x2B" "hex_digit n \<noteq> 0x78" "hex_digit n \<noteq> 0x58" "hex_digit n \<noteq> 0x2A"
    "hex_digit n \<noteq> 0x24" "hex_digit n \<noteq> 0x0A" "hex_digit n \<noteq> 0x0D"
    by (elim insertE emptyE; simp add: hex_digit_def digit_value_def is_space_def)+
qed

lemma stoull_hex2:
  assumes "rest \<noteq> []" and "\<not> is_digit 16 (hd rest)"
  shows "stoull 16 (hex2 v @ rest) = Some (ucast v)"
proof -
  let ?a = "unat v div 16" and ?b = "unat v mod 16"
  have "unat v < 16 * 16" by simp
  then have ab: "?a < 16" "?b < 16" by (rule less_mult_imp_div_less) simp
  note A = hex_digit_facts [OF ab(1)] and B = hex_digit_facts [OF ab(2)]
  obtain r rs where rest: "rest = r # rs" using assms(1) by (cases rest) auto
  have "is_digit 16 (hex_digit ?a)" "is_digit 16 (hex_digit ?b)" "\<not> is_digit 16 r"
    using A B ab assms(2) rest by (simp_all add: is_digit_def)
  then have "scan_number 16 (hex2 v @ rest) = Some (False, ?a * 16 + ?b)"
    using A B by (simp add: scan_number_def hex2_def rest number_value_def)
  moreover have "?a * 16 + ?b = unat v" by (rule div_mult_mod_eq)
  moreover have "unat v < 2 ^ 64" by (rule less_trans [OF unat_u8_less]) simp
  ultimately show ?thesis by (simp add: stoull_def)
qed

lemma xor_chars_append: "foldl (\<lambda>acc c. acc XOR scast c) a s = a XOR xor_chars s" for a :: u64
proof (induction s arbitrary: a rule: rev_induct)
  case (snoc x xs)
  show ?case
    by (simp only: foldl_append foldl.simps snoc.IH [of a] xor_chars_def [of "xs @ [x]"]
        xor_chars_def [of xs, symmetric] xor.assoc)
qed (simp add: xor_chars_def)

lemma xor_cancel: "(a XOR x) XOR b = (a XOR y) XOR b \<longleftrightarrow> x = y" for a b x y :: "'a::len word"
proof -
  have "((a XOR x) XOR b) XOR ((a XOR y) XOR b) = x XOR y"
    by (simp add: xor.assoc xor.left_commute xor.commute)
  then show ?thesis by (metis word_xor_eq_0)
qed

lemma xor_chars_split: "xor_chars (xs @ x # ys) = (xor_chars xs XOR scast x) XOR xor_chars ys"
  unfolding xor_chars_def [of "xs @ x # ys"] foldl_append foldl.simps xor_chars_def [of xs, symmetric]
  by (rule xor_chars_append)

lemma ucast_scast_u8: "ucast (scast (a :: u8) :: u64) = a"
  by (rule bit_word_eqI) (simp add: bit_simps)

lemma ascii_bit7: "c < 0x80 \<Longrightarrow> \<not> bit (c :: u8) 7"
proof -
  assume "c < 0x80"
  then have "unat c < 128" by (simp add: word_less_nat_alt)
  then have "\<not> bit (unat c) 7" by (simp add: bit_iff_odd)
  then show ?thesis by (simp add: bit_unsigned_iff)
qed
lemma scast_ascii: "c < 0x80 \<Longrightarrow> scast (c :: u8) = (ucast c :: u64)"
proof (rule bit_word_eqI)
  fix n assume c: "c < 0x80" and n: "n < LENGTH(64)"
  have "bit c n \<Longrightarrow> n < 8" using bit_imp_le_length [of c n] by simp
  moreover have "bit c n \<Longrightarrow> n \<noteq> 7" using ascii_bit7 [OF c] by auto
  ultimately have "bit c (min 7 n) \<longleftrightarrow> bit c n"
    using ascii_bit7 [OF c] by (cases "n < 7") (auto simp: min_def)
  then show "bit (scast c :: u64) n \<longleftrightarrow> bit (ucast c :: u64) n"
    using n by (simp add: bit_simps)
qed
lemma ucast_xor8: "ucast (foldl (XOR) a s) = foldl (\<lambda>acc c. acc XOR ucast c) (ucast a :: u64) (s :: u8 list)"
  by (induction s arbitrary: a) (simp_all add: unsigned_xor_eq)
lemma xor_chars_ascii: "\<forall>c \<in> set s. c < 0x80 \<Longrightarrow> xor_chars s = ucast (xor8 s)"
proof -
  assume "\<forall>c \<in> set s. c < 0x80"
  then have "foldl (\<lambda>acc c. acc XOR scast c) a s = foldl (\<lambda>acc c. acc XOR ucast c) a s" for a :: u64
    by (induction s arbitrary: a) (simp_all add: scast_ascii)
  then show ?thesis by (simp add: xor_chars_def xor8_def ucast_xor8)
qed

lemma scast_u8_inject: "scast a = (scast b :: u64) \<Longrightarrow> a = (b :: u8)"
  by (drule arg_cong [of _ _ "ucast :: u64 \<Rightarrow> u8"]) (simp add: ucast_scast_u8)

text \<open>The checksum detects every altered byte.  When a line passes the checksum and one
  byte before the last \<open>*\<close> other than the first is replaced by any other byte, the checksum
  routine reports a wrong value.\<close>

theorem nmea_altered_rejected:
  assumes "nmea_checksum lf s = ChecksumOk" and "find_last_of s 0x2A = Some star"
    and "0 < i" and "i < star" and "c \<noteq> s ! i"
  shows "nmea_checksum lf (s[i := c]) = ChecksumInvalidValue"
proof -
  obtain xs ys where s: "s = xs @ 0x2A # ys" "0x2A \<notin> set ys" "length xs = star"
    using find_last_someD [OF assms(2)] id_take_nth_drop [of star s] by (metis length_take less_imp_le min.absorb2)
  have i: "i < length xs" using assms(4) s by simp
  have upd: "s[i := c] = xs[i := c] @ 0x2A # ys" using i s by (simp add: list_update_append)
  have star: "find_last_of (s[i := c]) 0x2A = Some star"
    unfolding upd using find_last_append [OF s(2), of "xs[i := c]"] s(3) by simp
  have len: "star + 3 + (if lf then 1 else 2) = length s"
    using assms(1,2) by (auto simp: nmea_checksum_def split: if_splits)
  have tail: "substr (s[i := c]) (star + 1) (star + 3) = substr s (star + 1) (star + 3)"
    using i s by (simp add: upd substr_def)
  obtain v where v: "substr s (star + 1) (star + 3) \<bind> stoull 16 = Some v"
    "v = xor_chars (take (star - 1) (drop 1 s))"
    using assms(1,2,4) len by (auto simp: nmea_checksum_def split: option.splits if_splits)
  let ?m = "take (star - 1) (drop 1 s)" and ?j = "i - 1"
  have j: "?j < length ?m" "?m ! ?j = s ! i" using assms(3) i s by (auto simp: nth_append)
  have m: "take (star - 1) (drop 1 (s[i := c])) = ?m[?j := c]"
    using assms(3) by (simp add: drop_update_swap take_update_swap)
  have "xor_chars (?m[?j := c]) \<noteq> xor_chars ?m"
  proof
    assume "xor_chars (?m[?j := c]) = xor_chars ?m"
    moreover have "?m[?j := c] = take ?j ?m @ c # drop (Suc ?j) ?m" using j by (simp add: upd_conv_take_nth_drop)
    moreover have "?m = take ?j ?m @ s ! i # drop (Suc ?j) ?m" using j id_take_nth_drop by metis
    ultimately have "scast c = (scast (s ! i) :: u64)" by (metis xor_chars_split xor_cancel)
    then show False using assms(5) scast_u8_inject by metis
  qed
  then show ?thesis
    using v star len m tail assms(4) unfolding nmea_checksum_def
    by (auto simp: Let_def)
qed

theorem nmea_altered_rejected_witness:
  "nmea_checksum False ((str ''$GPGSX,7*40'' @ [0x0D, 0x0A])[7 := 0x38]) = ChecksumInvalidValue"
proof (rule nmea_altered_rejected [where star = 8])
  show "nmea_checksum False (str ''$GPGSX,7*40'' @ [0x0D, 0x0A]) = ChecksumOk"
    by (simp add: nmea_checksum_def substr_def xor_chars_def stoull_def scan_number_def is_digit_def
        digit_value_def is_space_def number_value_def)
  have "find_last_of (str ''$GPGSX,7'' @ 0x2A # str ''40'' @ [0x0D, 0x0A]) 0x2A =
      Some (length (str ''$GPGSX,7''))" by (rule find_last_append) simp
  then show "find_last_of (str ''$GPGSX,7*40'' @ [0x0D, 0x0A]) 0x2A = Some 8" by simp
qed simp_all

section \<open>Sentences\<close>

definition nmea_body :: "bytes \<Rightarrow> bytes \<Rightarrow> bytes" where
  "nmea_body prefix data = prefix @ 0x2C # data"

definition nmea_sentence :: "bytes \<Rightarrow> bytes \<Rightarrow> bytes" where
  "nmea_sentence prefix data =
     0x24 # nmea_body prefix data @ 0x2A # hex2 (xor8 (nmea_body prefix data))"

definition nmea_eol :: "bool \<Rightarrow> bytes" where
  "nmea_eol lf_only = (if lf_only then [0x0A] else [0x0D, 0x0A])"

text \<open>What a sentence may be made of: ASCII without \<open>$\<close> and line feed, a prefix of five or
  seven characters without comma and star.\<close>

definition nmea_plain :: "bytes \<Rightarrow> bytes \<Rightarrow> bool" where
  "nmea_plain prefix data \<longleftrightarrow>
     (length prefix = 5 \<or> length prefix = 7) \<and> 0x2C \<notin> set prefix \<and> 0x2A \<notin> set prefix \<and>
     (\<forall>c \<in> set (prefix @ data). c < 0x80 \<and> c \<noteq> 0x24 \<and> c \<noteq> 0x0A)"

lemma substr_append: "pos = length xs \<Longrightarrow> length ys \<le> n \<Longrightarrow> substr (xs @ ys) pos n = Some ys"
  by (simp add: substr_def)

lemma substr_middle: "pos = length xs \<Longrightarrow> n = length ys \<Longrightarrow> substr (xs @ ys @ zs) pos n = Some ys"
  by (simp add: substr_def)

lemma hex2_chars: "c \<in> set (hex2 v) \<Longrightarrow> c \<noteq> 0x2A \<and> c \<noteq> 0x24 \<and> c \<noteq> 0x0A \<and> c \<noteq> 0x0D"
proof -
  assume c: "c \<in> set (hex2 v)"
  have "unat v < 16 * 16" by simp
  then have "unat v div 16 < 16" "unat v mod 16 < 16" by (rule less_mult_imp_div_less) simp
  then show ?thesis using c hex_digit_facts by (auto simp: hex2_def)
qed

lemma nmea_sentence_checksum:
  assumes "nmea_plain prefix data"
  shows "nmea_checksum lf (nmea_sentence prefix data @ nmea_eol lf) = ChecksumOk"
proof -
  let ?body = "nmea_body prefix data" and ?line = "nmea_sentence prefix data @ nmea_eol lf"
  let ?h = "hex2 (xor8 ?body)"
  have line: "?line = (0x24 # ?body) @ 0x2A # ?h @ nmea_eol lf" by (simp add: nmea_sentence_def)
  have "0x2A \<notin> set (?h @ nmea_eol lf)" using hex2_chars by (auto simp: nmea_eol_def)
  then have star: "find_last_of ?line 0x2A = Some (Suc (length ?body))"
    unfolding line by (subst find_last_append) simp_all
  have len: "Suc (length ?body) + 3 + (if lf then 1 else 2) = length ?line"
    by (simp add: nmea_sentence_def nmea_eol_def hex2_def)
  have "take (length ?body) (drop 1 ?line) = ?body" by (simp add: line)
  moreover have "xor_chars ?body = ucast (xor8 ?body)"
    using assms by (intro xor_chars_ascii) (auto simp: nmea_plain_def nmea_body_def)
  moreover have "substr ?line (Suc (length ?body) + 1) (Suc (length ?body) + 3) = Some (?h @ nmea_eol lf)"
  proof -
    have "?line = ((0x24 # ?body) @ [0x2A]) @ ?h @ nmea_eol lf" by (simp add: line)
    moreover have "length (?h @ nmea_eol lf) \<le> Suc (length ?body) + 3"
      by (simp add: hex2_def nmea_eol_def nmea_body_def)
    ultimately show ?thesis
      using substr_append [of "Suc (length ?body) + 1" "(0x24 # ?body) @ [0x2A]" "?h @ nmea_eol lf"
          "Suc (length ?body) + 3"] by (simp only: length_append length_Cons) simp
  qed
  moreover have "stoull 16 (?h @ nmea_eol lf) = Some (ucast (xor8 ?body))"
    by (rule stoull_hex2) (simp_all add: nmea_eol_def is_digit_def digit_value_def)
  ultimately show ?thesis
    using star len unfolding nmea_checksum_def by (simp add: Let_def)
qed

lemma nmea_sentence_prefix:
  assumes "nmea_plain prefix data"
  shows "parse_prefix (nmea_sentence prefix data @ rest) = prefix"
proof -
  let ?P = "\<lambda>c :: u8. \<not> (c = 0x2C \<or> c = 0x2A)"
  have "takeWhile ?P ((0x24 # prefix) @ 0x2C # data @ 0x2A # hex2 (xor8 (nmea_body prefix data)) @ rest)
      = 0x24 # prefix"
    using assms by (subst takeWhile_append2) (auto simp: nmea_plain_def)
  moreover have "nmea_sentence prefix data @ rest =
      (0x24 # prefix) @ 0x2C # data @ 0x2A # hex2 (xor8 (nmea_body prefix data)) @ rest"
    by (simp add: nmea_sentence_def nmea_body_def)
  ultimately show ?thesis using assms by (auto simp: parse_prefix_def nmea_plain_def)
qed

lemma nmea_line_sentence:
  assumes "nmea_plain prefix data"
  shows "nmea_line_spec now lf (nmea_sentence prefix data @ nmea_eol lf @ rest) =
    (nmea_dispatch now (nmea_sentence prefix data @ nmea_eol lf), rest)"
proof -
  let ?line = "nmea_sentence prefix data" and ?n = "length (nmea_sentence prefix data)"
  let ?bs = "?line @ nmea_eol lf @ rest"
  have eol_len: "length (nmea_eol lf) = eol_length lf" by (simp add: nmea_eol_def eol_length_def)
  have chars: "c \<noteq> 0x0A" "c \<noteq> 0x24" if "c \<in> set (tl ?line)" for c
    using that assms hex2_chars by (auto simp: nmea_sentence_def nmea_body_def nmea_plain_def)
  have nth: "?bs ! j \<in> set (tl ?line)" if "1 \<le> j" "j < ?n" for j
    using that by (auto simp: nth_append nmea_sentence_def nth_Cons split: nat.split)
  have find: "find (\<lambda>k. eol_at lf ?bs k \<or> ?bs ! k = 0x24) [1..<length ?bs + 1 - eol_length lf] = Some ?n"
  proof (rule find_upt_SomeI)
    show "1 \<le> ?n" by (simp add: nmea_sentence_def)
    show "?n < length ?bs + 1 - eol_length lf" using eol_len by simp
    show "eol_at lf ?bs ?n \<or> ?bs ! ?n = 0x24"
      by (auto simp: eol_at_def crlf_at_def nmea_eol_def nth_append)
    fix j assume j: "1 \<le> j" "j < ?n"
    show "\<not> (eol_at lf ?bs j \<or> ?bs ! j = 0x24)"
    proof (cases "Suc j < ?n")
      case True
      then show ?thesis
        using chars [OF nth [OF j]] chars(1) [OF nth [of "Suc j"]] by (auto simp: eol_at_def crlf_at_def)
    next
      case False
      then have "?bs ! Suc j = hd (nmea_eol lf)" using j
        by (simp add: nth_append nmea_eol_def not_less Suc_leI le_antisym)
      then show ?thesis
        using chars [OF nth [OF j]] by (auto simp: eol_at_def crlf_at_def nmea_eol_def)
    qed
  qed
  have "eol_at lf ?bs ?n" by (simp add: eol_at_def crlf_at_def nmea_eol_def nth_append)
  then show ?thesis
    using find nmea_sentence_checksum [OF assms, of lf]
    by (simp add: nmea_line_spec_def eol_len [symmetric] Let_def)
qed

lemma nmea_sentence_result:
  assumes "ring_ok p" and "contents p = junk @ nmea_sentence prefix data @ nmea_eol lf @ rest"
    and "0x24 \<notin> set junk" and "nmea_plain prefix data"
  shows "\<exists>p'. nmea_try_parse now lf p =
      Some (nmea_dispatch now (nmea_sentence prefix data @ nmea_eol lf), p') \<and>
    ring_ok p' \<and> contents p' = rest"
proof (rule nmea_result [OF assms(1)])
  have "search 1 (head_is 0x24) (contents p) = nmea_sentence prefix data @ nmea_eol lf @ rest"
    unfolding assms(2) using assms(3)
    by (intro search_to_head) (simp_all add: nmea_sentence_def)
  then show "nmea_spec now lf (contents p) =
      (nmea_dispatch now (nmea_sentence prefix data @ nmea_eol lf), rest)"
    by (simp add: nmea_spec_def nmea_line_sentence [OF assms(4)])
qed

text \<open>C31: every sentence that ends with CR LF is delivered.  When the unread bytes are bytes
  without \<open>$\<close>, a sentence of printable ASCII with the documented checksum, and anything else, the
  next call delivers the message decoded from exactly that prefix and those data and consumes
  exactly the sentence.  The checksum field of the message keeps the line end.\<close>

theorem nmea_sentence_delivered:
  assumes "ring_ok p" and "contents p = junk @ nmea_sentence prefix data @ [0x0D, 0x0A] @ rest"
    and "0x24 \<notin> set junk" and "nmea_plain prefix data" and "data \<noteq> []"
  shows "\<exists>p'. nmea_try_parse now False p = Some (Value (nmea_decode now
      \<lparr>mPrefix = prefix, mPayload = data,
       mChecksum = hex2 (xor8 (nmea_body prefix data)) @ [0x0D, 0x0A]\<rparr>), p') \<and>
    ring_ok p' \<and> contents p' = rest"
proof -
  let ?h = "hex2 (xor8 (nmea_body prefix data))"
  let ?line = "nmea_sentence prefix data @ [0x0D, 0x0A]"
  have line: "?line = (0x24 # prefix @ [0x2C]) @ data @ 0x2A # ?h @ [0x0D, 0x0A]"
    by (simp add: nmea_sentence_def nmea_body_def)
  have len: "length ?line - 5 = length prefix + 2 + length data" by (simp add: line hex2_def)
  have "substr ?line (length prefix + 2) (length data) = Some data"
    unfolding line by (simp add: substr_def)
  moreover have "substr ?line (length prefix + 2 + length data + 1) (length prefix + 2 + length data + 3)
      = Some (?h @ [0x0D, 0x0A])"
    unfolding line by (simp add: substr_def hex2_def)
  moreover have "prefix \<noteq> []" using assms(4) by (auto simp: nmea_plain_def)
  ultimately have "nmea_dispatch now ?line = Value (nmea_decode now
      \<lparr>mPrefix = prefix, mPayload = data, mChecksum = ?h @ [0x0D, 0x0A]\<rparr>)"
    using assms(5) len unfolding nmea_dispatch_def nmea_sentence_prefix [OF assms(4)] Let_def
    by simp
  then show ?thesis
    using nmea_sentence_result [OF assms(1) _ assms(3,4), of False rest now] assms(2)
    by (simp add: nmea_eol_def)
qed

theorem nmea_sentence_delivered_witness:
  "\<exists>p'. nmea_try_parse (Timestamp 0 0) False
      (snd (append ring_new (str ''x'' @ nmea_sentence (str ''GPABC'') (str ''1'') @ [0x0D, 0x0A] @ str ''$'')))
    = Some (Value (nmea_decode (Timestamp 0 0) \<lparr>mPrefix = str ''GPABC'', mPayload = str ''1'',
        mChecksum = hex2 (xor8 (nmea_body (str ''GPABC'') (str ''1''))) @ [0x0D, 0x0A]\<rparr>), p') \<and>
      ring_ok p' \<and> contents p' = str ''$''"
proof (rule nmea_sentence_delivered)
  let ?data = "str ''x'' @ nmea_sentence (str ''GPABC'') (str ''1'') @ [0x0D, 0x0A] @ str ''$''"
  have "ring_ok (snd (append ring_new ?data)) \<and> contents (snd (append ring_new ?data)) = ?data"
    by (rule append_new) (simp add: nmea_sentence_def nmea_body_def hex2_def)
  then show "ring_ok (snd (append ring_new ?data))" "contents (snd (append ring_new ?data)) = ?data"
    by blast+
qed (simp_all add: nmea_plain_def)

text \<open>With line feeds alone as line ends the last data byte is lost.  In the
  \<^verbatim>\<open>lf_only\<close> mode a sentence with at least two data bytes passes the checksum, but the message is
  decoded from the data without their last byte (the code subtracts the length of a CR LF ending), and
  the checksum field begins with the star.\<close>

theorem nmea_lf_truncates:
  assumes "ring_ok p" and "contents p = junk @ nmea_sentence prefix data @ [0x0A] @ rest"
    and "0x24 \<notin> set junk" and "nmea_plain prefix data" and "2 \<le> length data"
  shows "\<exists>p'. nmea_try_parse now True p = Some (Value (nmea_decode now
      \<lparr>mPrefix = prefix, mPayload = butlast data,
       mChecksum = 0x2A # hex2 (xor8 (nmea_body prefix data)) @ [0x0A]\<rparr>), p') \<and>
    ring_ok p' \<and> contents p' = rest"
proof -
  let ?h = "hex2 (xor8 (nmea_body prefix data))"
  let ?line = "nmea_sentence prefix data @ [0x0A]"
  obtain init z where data: "data = init @ [z]" using assms(5) by (cases data rule: rev_cases) auto
  have line: "?line = (0x24 # prefix @ [0x2C]) @ butlast data @ z # 0x2A # ?h @ [0x0A]"
    by (simp add: nmea_sentence_def nmea_body_def data)
  have len: "length ?line - 5 = length prefix + 2 + length (butlast data)"
    by (simp add: nmea_sentence_def nmea_body_def hex2_def data)
  have "substr ?line (length prefix + 2) (length (butlast data)) = Some (butlast data)"
    unfolding line by (rule substr_middle) simp_all
  moreover have "substr ?line (length prefix + 2 + length (butlast data) + 1)
      (length prefix + 2 + length (butlast data) + 3) = Some (0x2A # ?h @ [0x0A])"
  proof -
    have "?line = ((0x24 # prefix @ [0x2C]) @ butlast data @ [z]) @ 0x2A # ?h @ [0x0A]"
      unfolding line by simp
    then show ?thesis by (simp only:) (rule substr_append; simp add: hex2_def)
  qed
  moreover have "prefix \<noteq> []" using assms(4) by (auto simp: nmea_plain_def)
  ultimately have "nmea_dispatch now ?line = Value (nmea_decode now
      \<lparr>mPrefix = prefix, mPayload = butlast data, mChecksum = 0x2A # ?h @ [0x0A]\<rparr>)"
    using assms(5) len unfolding nmea_dispatch_def nmea_sentence_prefix [OF assms(4)] Let_def
    by simp
  then show ?thesis
    using nmea_sentence_result [OF assms(1) _ assms(3,4), of True rest now] assms(2)
    by (simp add: nmea_eol_def)
qed

theorem nmea_lf_truncates_witness:
  "\<exists>p'. nmea_try_parse (Timestamp 0 0) True
      (snd (append ring_new (nmea_sentence (str ''GPABC'') (str ''12'') @ [0x0A])))
    = Some (Value (nmea_decode (Timestamp 0 0) \<lparr>mPrefix = str ''GPABC'', mPayload = str ''1'',
        mChecksum = 0x2A # hex2 (xor8 (nmea_body (str ''GPABC'') (str ''12''))) @ [0x0A]\<rparr>), p')"
proof -
  let ?data = "nmea_sentence (str ''GPABC'') (str ''12'') @ [0x0A]"
  have "ring_ok (snd (append ring_new ?data)) \<and> contents (snd (append ring_new ?data)) = ?data"
    by (rule append_new) (simp add: nmea_sentence_def nmea_body_def hex2_def)
  then show ?thesis
    using nmea_lf_truncates [of "snd (append ring_new ?data)" "[]" "str ''GPABC''" "str ''12''" "[]"
        "Timestamp 0 0"] by (auto simp: nmea_plain_def)
qed

section \<open>A stream in chunks\<close>

lemma nmea_capacity: "nmea_try_parse now lf p = Some (r, p') \<Longrightarrow> mBufferCapacity p' = mBufferCapacity p"
  unfolding nmea_try_parse_def
  by (erule sync_capacity) (simp add: nmea_parse_line_def Let_def split: nmea_scan_result.split)

interpretation nmea: framing_parser ring_ok contents "\<lambda>p. mBufferCapacity p - 1"
  "\<lambda>p c. snd (append p c)" "nmea_try_parse now lf" "nmea_spec now lf"
  for now lf
proof
  fix p :: ring and c
  assume ok: "ring_ok p"
  show "ring_ok (snd (append p c)) \<and> contents (snd (append p c)) = contents p @ c \<and>
      mBufferCapacity (snd (append p c)) - 1 = mBufferCapacity p - 1"
    if "length (contents p) + length c \<le> mBufferCapacity p - 1"
    using ok that by (rule ring_put)
  show "\<exists>r p'. nmea_try_parse now lf p = Some (r, p') \<and> ring_ok p' \<and>
      mBufferCapacity p' - 1 = mBufferCapacity p - 1 \<and> (r, contents p') = nmea_spec now lf (contents p)"
  proof -
    obtain p' where "nmea_try_parse now lf p = Some (fst (nmea_spec now lf (contents p)), p')" "ring_ok p'"
      "contents p' = snd (nmea_spec now lf (contents p))"
      using nmea_result [OF ok prod.collapse [symmetric]] by blast
    then show ?thesis using nmea_capacity [of now lf p] by (intro exI [of _ "fst (nmea_spec now lf (contents p))"] exI [of _ p']) simp
  qed
qed

definition nmea_message_of :: "timestamp \<Rightarrow> bytes \<Rightarrow> bytes \<Rightarrow> nmea_message" where
  "nmea_message_of now prefix data = nmea_decode now \<lparr>mPrefix = prefix, mPayload = data,
     mChecksum = hex2 (xor8 (nmea_body prefix data)) @ [0x0D, 0x0A]\<rparr>"

lemma nmea_dispatch_sentence:
  assumes "nmea_plain prefix data" and "data \<noteq> []"
  shows "nmea_dispatch now (nmea_sentence prefix data @ [0x0D, 0x0A]) =
    Value (nmea_message_of now prefix data)"
proof -
  let ?h = "hex2 (xor8 (nmea_body prefix data))"
  let ?line = "nmea_sentence prefix data @ [0x0D, 0x0A]"
  have line: "?line = (0x24 # prefix @ [0x2C]) @ data @ 0x2A # ?h @ [0x0D, 0x0A]"
    by (simp add: nmea_sentence_def nmea_body_def)
  have len: "length ?line - 5 = length prefix + 2 + length data" by (simp add: line hex2_def)
  have "substr ?line (length prefix + 2) (length data) = Some data"
    unfolding line by (simp add: substr_def)
  moreover have "substr ?line (length prefix + 2 + length data + 1) (length prefix + 2 + length data + 3)
      = Some (?h @ [0x0D, 0x0A])"
    unfolding line by (simp add: substr_def hex2_def)
  moreover have "prefix \<noteq> []" using assms(1) by (auto simp: nmea_plain_def)
  ultimately show ?thesis
    using assms(2) len
    unfolding nmea_dispatch_def nmea_sentence_prefix [OF assms(1)] Let_def nmea_message_of_def
    by simp
qed

lemma nmea_frame:
  assumes "nmea_plain prefix data" and "data \<noteq> []"
  shows "frame (nmea_spec now False) (nmea_message_of now prefix data)
    (nmea_sentence prefix data @ [0x0D, 0x0A])"
proof (rule frameI)
  let ?line = "nmea_sentence prefix data"
  show "?line @ [0x0D, 0x0A] \<noteq> []" by simp
  show "nmea_spec now False ((?line @ [0x0D, 0x0A]) @ x) = (Value (nmea_message_of now prefix data), x)" for x
    using nmea_line_sentence [OF assms(1), of now False x] nmea_dispatch_sentence [OF assms, of now]
      search_to_head [of "0x24" "[]" "?line @ [0x0D, 0x0A] @ x"]
    by (simp add: nmea_spec_def nmea_eol_def nmea_sentence_def)
  show "nmea_spec now False b = (Null, b)" if b: "b @ x = ?line @ [0x0D, 0x0A]" "x \<noteq> []" for b x
  proof -
    have at: "b ! j = (?line @ [0x0D, 0x0A]) ! j" if "j < length b" for j
      using prefix_nth [OF b(1) that] .
    have lb: "length b < length ?line + 2" using proper_prefix [OF b] by simp
    have chars: "c \<noteq> 0x0A" "c \<noteq> 0x24" if "c \<in> set (tl ?line)" for c
      using that assms hex2_chars by (auto simp: nmea_sentence_def nmea_body_def nmea_plain_def)
    have nth: "b ! j \<in> set (tl ?line)" if "1 \<le> j" "j < length b" "j < length ?line" for j
      using that at [OF that(2)] by (auto simp: nth_append nmea_sentence_def nth_Cons split: nat.split)
    have "find (\<lambda>k. eol_at False b k \<or> b ! k = 0x24) [1..<length b + 1 - eol_length False] = None"
    proof (unfold find_None_iff, rule notI)
      assume "\<exists>k. k \<in> set [1..<length b + 1 - eol_length False] \<and> (eol_at False b k \<or> b ! k = 0x24)"
      then obtain j where j: "1 \<le> j" "j < length b - 1" "eol_at False b j \<or> b ! j = 0x24"
        by (auto simp: eol_length_def)
      then have "j < length ?line" "Suc j < length b" using lb by auto
      moreover from this have "b ! j \<noteq> 0x24" using chars(2) [OF nth [of j]] j(1) by simp
      moreover have "b ! Suc j \<noteq> 0x0A"
      proof (cases "Suc j < length ?line")
        case True
        then show ?thesis using chars(1) [OF nth [of "Suc j"]] \<open>Suc j < length b\<close> by simp
      next
        case False
        then show ?thesis using at [OF \<open>Suc j < length b\<close>] \<open>j < length ?line\<close> by (simp add: nth_append)
      qed
      ultimately show False using j(3) by (auto simp: eol_at_def crlf_at_def)
    qed
    moreover have "search 1 (head_is 0x24) b = b"
      using at [of 0] by (cases b) (simp_all add: nmea_sentence_def head_is_def)
    ultimately show ?thesis by (simp add: nmea_spec_def nmea_line_spec_def)
  qed
qed

end
