(* ===== verification/Uper.thy ===== *)
theory Uper
  imports Framing
begin

text \<open>
  What the SUPL session and the LPP stream parser rely on in \<^verbatim>\<open>uper_decode_complete\<close>, the entry
  point of the generated decoder, and the messages of a stream as this decoder sees them.
\<close>

text \<open>The result of the decoder, with the number of bytes consumed.\<close>

datatype 'm decoded = RC_OK 'm nat | RC_WMORE | RC_FAIL nat

text \<open>
  The documented behaviour: a value is decoded from the bytes it consumes, at least one,
  whatever follows them; a failure consumes nothing (the codec is not restartable)
  and is found before the bytes that follow.
\<close>

definition pdu_decoder :: "(u8 list \<Rightarrow> 'm decoded) \<Rightarrow> bool" where
  "pdu_decoder d \<longleftrightarrow> (\<forall>b x. case d b of
       RC_OK m n \<Rightarrow> 0 < n \<and> n \<le> length b \<and> d (b @ x) = RC_OK m n
     | RC_WMORE \<Rightarrow> True
     | RC_FAIL n \<Rightarrow> n = 0 \<and> d (b @ x) = RC_FAIL 0)"

lemma decoder_OK:
  assumes "pdu_decoder d" and "d b = RC_OK m n"
  shows "0 < n" and "n \<le> length b" and "d (b @ x) = RC_OK m n"
  using assms(1) [unfolded pdu_decoder_def, rule_format, of b x] assms(2) by simp_all

lemma decoder_FAIL:
  assumes "pdu_decoder d" and "d b = RC_FAIL n"
  shows "n = 0" and "d (b @ x) = RC_FAIL 0"
  using assms(1) [unfolded pdu_decoder_def, rule_format, of b x] assms(2) by simp_all

text \<open>\<open>e\<close> is an encoding of \<open>m\<close>.\<close>

definition encodes :: "(u8 list \<Rightarrow> 'm decoded) \<Rightarrow> 'm \<Rightarrow> u8 list \<Rightarrow> bool" where
  "encodes d m e \<longleftrightarrow> d e = RC_OK m (length e)"

text \<open>
  Taking a message from the unread bytes, when at least \<open>least\<close> of them are there.
\<close>

definition uper_spec :: "nat \<Rightarrow> (u8 list \<Rightarrow> 'm decoded) \<Rightarrow> u8 list \<Rightarrow> 'm outcome \<times> u8 list" where
  "uper_spec least d b =
     (if length b < least then (Null, b)
      else case d b of
        RC_OK m n \<Rightarrow> (Value m, drop n b) | RC_WMORE \<Rightarrow> (Null, b) | RC_FAIL n \<Rightarrow> (Null, drop n b))"

lemma uper_spec_value:
  assumes "pdu_decoder d" and "uper_spec least d b = (Value m, x)"
  shows "length x < length b"
proof -
  obtain n where n: "d b = RC_OK m n" "x = drop n b"
    using assms(2) by (auto simp: uper_spec_def split: if_splits decoded.splits)
  then show ?thesis using decoder_OK(1,2) [OF assms(1) n(1)] by simp
qed

lemma uper_spec_defined: "fst (uper_spec least d b) \<noteq> Undefined"
  by (simp add: uper_spec_def split: decoded.split)

lemma uper_spec_nil: "pdu_decoder d \<Longrightarrow> uper_spec least d [] = (Null, [])"
  using decoder_OK(1,2) [of d "[]"] by (cases "d []") (simp_all add: uper_spec_def)

lemma uper_frame:
  assumes d: "pdu_decoder d" and e: "encodes d m e" and "least \<le> length e"
  shows "frame (uper_spec least d) m e"
proof (rule frameI)
  have de: "d e = RC_OK m (length e)" using e by (simp add: encodes_def)
  then show "e \<noteq> []" using decoder_OK(1) [OF d] by auto
  show "uper_spec least d (e @ x) = (Value m, x)" for x
    using decoder_OK(3) [OF d de] assms(3) by (simp add: uper_spec_def)
  show "uper_spec least d b = (Null, b)" if "b @ x = e" "x \<noteq> []" for b x
  proof (cases "d b")
    case (RC_OK m' n)
    then have "d e = RC_OK m' n" "n \<le> length b" using decoder_OK [OF d RC_OK] that(1) by blast+
    then have "length e \<le> length b" using de by simp
    then show ?thesis using that by auto
  next
    case (RC_FAIL n)
    then have "d e = RC_FAIL 0" using decoder_FAIL [OF d RC_FAIL] that(1) by blast
    then show ?thesis using de by simp
  qed (simp add: uper_spec_def)
qed

text \<open>A failure is final.\<close>

lemma uper_failure:
  assumes "pdu_decoder d" and "d b = RC_FAIL n"
  shows "uper_spec least d (b @ x) = (Null, b @ x)"
  using decoder_FAIL(2) [OF assms] by (simp add: uper_spec_def)

end
