(* ===== verification/Lpp_Uper.thy ===== *)
theory Lpp_Uper
  imports Ring_Buffer Uper
begin

text \<open>
  The parser of a stream of LPP messages (dependency/format/lpp/uper_parser.cpp), over the ring of
  the framing parsers and the generated decoder, which is a parameter.
\<close>

definition uper_try_parse :: "(u8 list \<Rightarrow> 'm decoded) \<Rightarrow> ring \<Rightarrow> 'm outcome \<times> ring" where
  "uper_try_parse decode p =
     (if buffer_length p < 6 then (Null, p)
      else
        let buffer = copy_to_buffer p (buffer_length p)
        in case decode buffer of
             RC_FAIL consumed \<Rightarrow> (Null, skip p consumed)
           | RC_WMORE \<Rightarrow> (Null, p)
           | RC_OK message consumed \<Rightarrow> (Value message, skip p consumed))"

text \<open>The same for assistance data without the envelope of a message.\<close>

definition uper_try_parse_provide_assistance_data ::
  "(u8 list \<Rightarrow> 'm decoded) \<Rightarrow> ring \<Rightarrow> 'm outcome \<times> ring" where
  "uper_try_parse_provide_assistance_data decode p =
     (if buffer_length p < 6 then (Null, p)
      else
        let buffer = copy_to_buffer p (buffer_length p)
        in case decode buffer of
             RC_FAIL consumed \<Rightarrow> (Null, skip p consumed)
           | RC_WMORE \<Rightarrow> (Null, p)
           | RC_OK message consumed \<Rightarrow> (Value message, skip p consumed))"

lemma uper_pad_same: "uper_try_parse_provide_assistance_data = uper_try_parse"
  by (intro ext) (simp add: uper_try_parse_def uper_try_parse_provide_assistance_data_def)

lemma uper_result:
  assumes "ring_ok p"
  shows "ring_ok (snd (uper_try_parse d p)) \<and>
    mBufferCapacity (snd (uper_try_parse d p)) = mBufferCapacity p \<and>
    (fst (uper_try_parse d p), contents (snd (uper_try_parse d p))) = uper_spec 6 d (contents p)"
proof -
  have "buffer_length p < 2 ^ 32" using ring.len_bound [OF assms] by linarith
  then have "copy_to_buffer p (buffer_length p) = contents p"
    using ring.cpy_eq [OF assms] by simp
  then show ?thesis
    using assms
    by (auto simp: uper_try_parse_def uper_spec_def ring.skp_bytes ring.skp_invar split: decoded.split)
qed

interpretation lpp_uper: framing_parser ring_ok contents "\<lambda>p. mBufferCapacity p - 1"
  "\<lambda>p c. snd (append p c)" "\<lambda>p. Some (uper_try_parse d p)" "uper_spec 6 d"
  for d :: "u8 list \<Rightarrow> 'm decoded"
proof
  fix p :: ring and c
  assume ok: "ring_ok p"
  show "ring_ok (snd (append p c)) \<and> contents (snd (append p c)) = contents p @ c \<and>
      mBufferCapacity (snd (append p c)) - 1 = mBufferCapacity p - 1"
    if "length (contents p) + length c \<le> mBufferCapacity p - 1"
    using ok that by (rule ring_put)
  show "\<exists>r s'. Some (uper_try_parse d p) = Some (r, s') \<and> ring_ok s' \<and>
      mBufferCapacity s' - 1 = mBufferCapacity p - 1 \<and> (r, contents s') = uper_spec 6 d (contents p)"
    using uper_result [OF ok, of d] by (metis prod.collapse)
qed

end
