(* ===== verification/Client_Input.thy ===== *)
theory Client_Input
  imports Rtcm_Parser Ubx_Parser Nmea_Parser Lpp_Uper "HOL-Library.Monad_Syntax"
begin

text \<open>
  How the client reads its inputs (\<^verbatim>\<open>process_input\<close> of examples/client/main.cpp): a chunk of bytes is
  appended to the buffer of every parser that the input was configured with, each parser is called
  until it has no message, and the messages are pushed on the streams.  \<open>now\<close> is the clock
  that the NMEA decoder asks, \<open>stale\<close> what the stack holds when the UBX parser is called,
  \<open>decode\<close> and \<open>decode_pad\<close> are the generated decoders.  Printing is left out.
\<close>

section \<open>Contexts and formats\<close>

definition INPUT_FORMAT_UBX :: u64 where "INPUT_FORMAT_UBX = 1"
definition INPUT_FORMAT_NMEA :: u64 where "INPUT_FORMAT_NMEA = 2"
definition INPUT_FORMAT_RTCM :: u64 where "INPUT_FORMAT_RTCM = 4"
definition INPUT_FORMAT_CTRL :: u64 where "INPUT_FORMAT_CTRL = 8"
definition INPUT_FORMAT_LPP_UPER :: u64 where "INPUT_FORMAT_LPP_UPER = 16"
definition INPUT_FORMAT_LPP_UPER_PAD :: u64 where "INPUT_FORMAT_LPP_UPER_PAD = 32"

lemmas input_format_defs = INPUT_FORMAT_UBX_def INPUT_FORMAT_NMEA_def INPUT_FORMAT_RTCM_def
  INPUT_FORMAT_CTRL_def INPUT_FORMAT_LPP_UPER_def INPUT_FORMAT_LPP_UPER_PAD_def

text \<open>\<open>None\<close> is a null pointer; the parser for NMEA has its mode of line ends.\<close>

record input_context =
  ctx_nmea :: "ring option"
  ctx_rtcm :: "ring option"
  ctx_ubx :: "ring option"
  ctx_ctrl :: "ring option"
  ctx_lpp_uper :: "ring option"
  ctx_lpp_uper_pad :: "ring option"
  ctx_raw :: bool
  nmea_lf_only :: bool
  discard_errors :: bool
  discard_unknowns :: bool

datatype 'm stream_message =
    NmeaMessage nmea_message | RtcmMessage rtcm_message | UbxMessage ubx_message
  | CtrlMessage ctrl_message | LppMessage 'm | RawMessage "u8 list"

fun nmea_discarded :: "input_context \<Rightarrow> nmea_message \<Rightarrow> bool" where
  "nmea_discarded c (NmeaError _) = discard_errors c"
| "nmea_discarded c (NmeaUnsupported _) = discard_unknowns c"
| "nmea_discarded c _ = False"

fun rtcm_discarded :: "input_context \<Rightarrow> rtcm_message \<Rightarrow> bool" where
  "rtcm_discarded c (ErrorMessage _ _) = discard_errors c"
| "rtcm_discarded c (UnsupportedMessage _ _) = discard_unknowns c"
| "rtcm_discarded c _ = False"

fun ubx_discarded :: "input_context \<Rightarrow> ubx_message \<Rightarrow> bool" where
  "ubx_discarded c (UbxUnsupported _ _ _) = discard_unknowns c"
| "ubx_discarded c _ = False"

section \<open>One chunk\<close>

text \<open>
  The block of \<^verbatim>\<open>process_input\<close> for one parser: the messages it pushes and the parser afterwards.
  \<open>None\<close>: the parser has written beyond a buffer.
\<close>

definition input_stage ::
  "bool \<Rightarrow> (ring \<Rightarrow> ('a outcome \<times> ring) option) \<Rightarrow> ('a \<Rightarrow> bool) \<Rightarrow> ('a \<Rightarrow> 'm stream_message) \<Rightarrow>
   u8 list \<Rightarrow> ring option \<Rightarrow> ('m stream_message list \<times> ring option) option" where
  "input_stage enabled parse discarded wrap buffer parser =
     (case parser of None \<Rightarrow> Some ([], None)
      | Some p \<Rightarrow>
          if \<not> enabled then Some ([], Some p)
          else map_option (\<lambda>(ms, p). (map wrap (filter (\<lambda>m. \<not> discarded m) ms), Some p))
                 (parse_all parse (snd (append p buffer))))"

definition process_input ::
  "timestamp \<Rightarrow> u8 list \<Rightarrow> (u8 list \<Rightarrow> 'm decoded) \<Rightarrow> (u8 list \<Rightarrow> 'a decoded) \<Rightarrow> u64 \<Rightarrow> u8 list \<Rightarrow>
   input_context \<Rightarrow> ('m stream_message list \<times> input_context) option" where
  "process_input now stale decode decode_pad formats buffer c =
     do {
       (o1, nmea) \<leftarrow> input_stage (formats AND INPUT_FORMAT_NMEA \<noteq> 0) (nmea_try_parse now (nmea_lf_only c))
         (nmea_discarded c) NmeaMessage buffer (ctx_nmea c);
       (o2, rtcm) \<leftarrow> input_stage (formats AND INPUT_FORMAT_RTCM \<noteq> 0) rtcm_try_parse
         (rtcm_discarded c) RtcmMessage buffer (ctx_rtcm c);
       (o3, ubx) \<leftarrow> input_stage (formats AND INPUT_FORMAT_UBX \<noteq> 0) (ubx_try_parse stale)
         (ubx_discarded c) UbxMessage buffer (ctx_ubx c);
       (o4, ctrl) \<leftarrow> input_stage (formats AND INPUT_FORMAT_CTRL \<noteq> 0) ctrl_try_parse
         (\<lambda>_. False) CtrlMessage buffer (ctx_ctrl c);
       (o5, uper) \<leftarrow> input_stage (formats AND INPUT_FORMAT_LPP_UPER \<noteq> 0)
         (\<lambda>p. Some (uper_try_parse decode p)) (\<lambda>_. False) LppMessage buffer (ctx_lpp_uper c);
       (_ :: 'm stream_message list, pad) \<leftarrow> input_stage (formats AND INPUT_FORMAT_LPP_UPER_PAD \<noteq> 0)
         (\<lambda>p. Some (uper_try_parse_provide_assistance_data decode_pad p)) (\<lambda>_. True) (\<lambda>_. RawMessage buffer)
         buffer (ctx_lpp_uper_pad c);
       Some (o1 @ o2 @ o3 @ o4 @ o5 @ (if ctx_raw c then [RawMessage buffer] else []),
         c\<lparr>ctx_nmea := nmea, ctx_rtcm := rtcm, ctx_ubx := ubx, ctx_ctrl := ctrl,
           ctx_lpp_uper := uper, ctx_lpp_uper_pad := pad\<rparr>)
     }"

text \<open>The chunks that the input delivers, one after the other.\<close>

fun process_inputs ::
  "timestamp \<Rightarrow> u8 list \<Rightarrow> (u8 list \<Rightarrow> 'm decoded) \<Rightarrow> (u8 list \<Rightarrow> 'a decoded) \<Rightarrow> u64 \<Rightarrow> u8 list list \<Rightarrow>
   input_context \<Rightarrow> ('m stream_message list \<times> input_context) option" where
  "process_inputs now stale decode decode_pad formats [] c = Some ([], c)"
| "process_inputs now stale decode decode_pad formats (buffer # buffers) c =
     do {
       (o1, c) \<leftarrow> process_input now stale decode decode_pad formats buffer c;
       (o2, c) \<leftarrow> process_inputs now stale decode decode_pad formats buffers c;
       Some (o1 @ o2, c)
     }"

section \<open>Inputs of one format\<close>

datatype input_kind = Nmea | Rtcm | Ubx | Ctrl | Lpp

fun kind_format :: "input_kind \<Rightarrow> u64" where
  "kind_format Nmea = INPUT_FORMAT_NMEA"
| "kind_format Rtcm = INPUT_FORMAT_RTCM"
| "kind_format Ubx = INPUT_FORMAT_UBX"
| "kind_format Ctrl = INPUT_FORMAT_CTRL"
| "kind_format Lpp = INPUT_FORMAT_LPP_UPER"

text \<open>The context of an input that is configured with one format.\<close>

definition single_input :: "input_kind \<Rightarrow> bool \<Rightarrow> bool \<Rightarrow> ring \<Rightarrow> input_context" where
  "single_input k errors unknowns p =
     \<lparr>ctx_nmea = (if k = Nmea then Some p else None), ctx_rtcm = (if k = Rtcm then Some p else None),
      ctx_ubx = (if k = Ubx then Some p else None), ctx_ctrl = (if k = Ctrl then Some p else None),
      ctx_lpp_uper = (if k = Lpp then Some p else None), ctx_lpp_uper_pad = None, ctx_raw = False,
      nmea_lf_only = False, discard_errors = errors, discard_unknowns = unknowns\<rparr>"

text \<open>The messages of a format and their bytes on the wire.\<close>

inductive stream_frame :: "timestamp \<Rightarrow> (u8 list \<Rightarrow> 'm decoded) \<Rightarrow> input_kind \<Rightarrow>
   'm stream_message \<Rightarrow> u8 list \<Rightarrow> bool" for now decode where
  nmea: "nmea_plain prefix data \<Longrightarrow> data \<noteq> [] \<Longrightarrow>
    stream_frame now decode Nmea (NmeaMessage (nmea_message_of now prefix data))
      (nmea_sentence prefix data @ [0x0D, 0x0A])"
| rtcm: "well_framed f \<Longrightarrow> stream_frame now decode Rtcm (RtcmMessage (rtcm_dispatch f)) f"
| ubx: "ubx_encodes mk c i payload \<Longrightarrow> length payload \<le> 8184 \<Longrightarrow>
    stream_frame now decode Ubx (UbxMessage (mk (ubx_frame c i payload))) (ubx_frame c i payload)"
| ctrl: "eol = [0x0D, 0x0A] \<or> eol = [0x0A] \<Longrightarrow> ctrl_payload m = ctrl_text m \<Longrightarrow>
    stream_frame now decode Ctrl (CtrlMessage m) (ctrl_text m @ eol)"
| lpp: "encodes decode m e \<Longrightarrow> 6 \<le> length e \<Longrightarrow> stream_frame now decode Lpp (LppMessage m) e"

inductive_cases stream_frameE: "stream_frame now decode k m e"

fun discarded :: "bool \<Rightarrow> bool \<Rightarrow> 'm stream_message \<Rightarrow> bool" where
  "discarded errors unknowns (NmeaMessage (NmeaError _)) = errors"
| "discarded errors unknowns (NmeaMessage (NmeaUnsupported _)) = unknowns"
| "discarded errors unknowns (RtcmMessage (ErrorMessage _ _)) = errors"
| "discarded errors unknowns (RtcmMessage (UnsupportedMessage _ _)) = unknowns"
| "discarded errors unknowns (UbxMessage (UbxUnsupported _ _ _)) = unknowns"
| "discarded errors unknowns _ = False"

text \<open>An input of one format is its parser, fed with the chunks.\<close>

abbreviation put :: "ring \<Rightarrow> u8 list \<Rightarrow> ring" where
  "put \<equiv> \<lambda>p c. snd (append p c)"

definition input_run :: "input_kind \<Rightarrow> bool \<Rightarrow> bool \<Rightarrow> ('a \<Rightarrow> 'm stream_message) \<Rightarrow>
   ('a list \<times> ring) option \<Rightarrow> ('m stream_message list \<times> input_context) option" where
  "input_run k errors unknowns wrap = map_option (\<lambda>(ms, p).
     (filter (\<lambda>m. \<not> discarded errors unknowns m) (map wrap ms), single_input k errors unknowns p))"

lemma discarded_nmea: "nmea_discarded (single_input k e u p) = (\<lambda>m. discarded e u (NmeaMessage m))"
proof
  show "nmea_discarded (single_input k e u p) m = discarded e u (NmeaMessage m)" for m
    by (cases m) (simp_all add: single_input_def)
qed

lemma discarded_rtcm: "rtcm_discarded (single_input k e u p) = (\<lambda>m. discarded e u (RtcmMessage m))"
proof
  show "rtcm_discarded (single_input k e u p) m = discarded e u (RtcmMessage m)" for m
    by (cases m) (simp_all add: single_input_def)
qed

lemma discarded_ubx: "ubx_discarded (single_input k e u p) = (\<lambda>m. discarded e u (UbxMessage m))"
proof
  show "ubx_discarded (single_input k e u p) m = discarded e u (UbxMessage m)" for m
    by (cases m) (simp_all add: single_input_def)
qed

lemmas discarded_wrapped = discarded_nmea discarded_rtcm discarded_ubx

lemma bind_map: "map_option f x \<bind> g = (case x of None \<Rightarrow> None | Some y \<Rightarrow> g (f y))"
  by (cases x) simp_all

lemma process_input_single:
  fixes d :: "u8 list \<Rightarrow> 'm decoded"
  shows
  "process_input now stale d d' (kind_format Nmea) b (single_input Nmea e u p) =
     input_run Nmea e u NmeaMessage (parse_all (nmea_try_parse now False) (put p b))"
  "process_input now stale d d' (kind_format Rtcm) b (single_input Rtcm e u p) =
     input_run Rtcm e u RtcmMessage (parse_all rtcm_try_parse (put p b))"
  "process_input now stale d d' (kind_format Ubx) b (single_input Ubx e u p) =
     input_run Ubx e u UbxMessage (parse_all (ubx_try_parse stale) (put p b))"
  "process_input now stale d d' (kind_format Ctrl) b (single_input Ctrl e u p) =
     input_run Ctrl e u CtrlMessage (parse_all ctrl_try_parse (put p b))"
  "process_input now stale d d' (kind_format Lpp) b (single_input Lpp e u p) =
     input_run Lpp e u LppMessage (parse_all (\<lambda>p. Some (uper_try_parse d p)) (put p b))"
  unfolding process_input_def input_stage_def input_run_def discarded_wrapped [where 'a = 'm]
  by (simp_all add: single_input_def input_format_defs filter_map comp_def bind_map map_option_case
      split: option.split)

lemma input_run_nil: "input_run k e u wrap (Some ([], p)) = Some ([], single_input k e u p)"
  by (simp add: input_run_def)

lemma process_inputs_single:
  assumes "\<And>p b. process_input now stale d d' (kind_format k) b (single_input k e u p) =
    input_run k e u wrap (parse_all parse (put p b))"
  shows "process_inputs now stale d d' (kind_format k) cs (single_input k e u p) =
    input_run k e u wrap (feed put parse p cs)"
proof (induction cs arbitrary: p)
  case (Cons c cs)
  show ?case
  proof (cases "parse_all parse (put p c)")
    case None
    then show ?thesis by (simp add: assms input_run_def)
  next
    case (Some r)
    then obtain ms q where "parse_all parse (put p c) = Some (ms, q)" by (cases r) simp
    then show ?thesis
      using Cons.IH [of q]
      by (cases "feed put parse q cs") (auto simp: assms input_run_def)
  qed
qed (simp add: input_run_nil)

lemmas inputs_single = process_input_single [THEN process_inputs_single]

section \<open>Streams of messages are delivered\<close>

lemma frames_of_kind:
  assumes "list_all2 (stream_frame now decode k) ms es"
    and "\<And>m e. stream_frame now decode k m e \<Longrightarrow> \<exists>a. m = wrap a \<and> frame spec a e"
  shows "\<exists>as. ms = map wrap as \<and> list_all2 (frame spec) as es"
  using assms(1)
proof (induction rule: list_all2_induct)
  case (Cons m ms e es)
  then obtain a as where "m = wrap a" "frame spec a e" "ms = map wrap as" "list_all2 (frame spec) as es"
    using assms(2) [of m e] by blast
  then show ?case by (intro exI [of _ "a # as"]) simp
qed simp

lemma empty_specs:
  "nmea_spec now False [] = (Null, [])" "rtcm_spec [] = (Null, [])" "ubx_spec stale [] = (Null, [])"
  "ctrl_spec [] = (Null, [])"
  by (simp_all add: nmea_spec_def nmea_line_spec_def rtcm_spec_def rtcm_frame_spec_def ubx_spec_def
      ubx_frame_spec_def ctrl_spec_def ctrl_line_spec_def eol_length_def)

lemma capacity_new: "mBufferCapacity ring_new - 1 = 131071"
  by (simp add: ring_new_def parser_buffer_size_def)

text \<open>The step that the five formats share.\<close>

lemma kind_delivered:
  assumes "framing_parser good contents (\<lambda>p. mBufferCapacity p - 1) put parse spec"
    and "good ring_new" and "\<And>p. good p \<Longrightarrow> ring_ok p" and "spec [] = (Null, [])"
    and "\<And>m e. stream_frame now decode k m e \<Longrightarrow> \<exists>a. m = wrap a \<and> frame spec a e"
    and single: "\<And>cs p. process_inputs now stale decode decode_pad (kind_format k) cs
      (single_input k errors unknowns p) = input_run k errors unknowns wrap (feed put parse p cs)"
    and "list_all2 (stream_frame now decode k) ms es" and "concat cs = concat es"
    and "\<forall>c \<in> set cs. length c < 131072 \<and> (\<forall>e \<in> set es. length c + length e \<le> 131072)"
  shows "\<exists>p. process_inputs now stale decode decode_pad (kind_format k) cs
      (single_input k errors unknowns ring_new) =
      Some (filter (\<lambda>m. \<not> discarded errors unknowns m) ms, single_input k errors unknowns p) \<and>
    ring_ok p \<and> contents p = []"
proof -
  obtain as where as: "ms = map wrap as" "list_all2 (frame spec) as es"
    using frames_of_kind [OF assms(7,5)] by blast
  have "\<forall>c \<in> set cs. \<forall>e \<in> set es. length c + length e \<le> Suc (mBufferCapacity ring_new - 1)"
    and "\<forall>c \<in> set cs. length c \<le> mBufferCapacity ring_new - 1"
    using assms(9) unfolding capacity_new by fastforce+
  then obtain p where "feed put parse ring_new cs = Some (as, p)" "good p" "contents p = []"
    using framing_parser.feed_stream [OF assms(1,2) contents_new as(2) assms(8) _ assms(4)] by blast
  then show ?thesis
    using as(1) assms(3) by (intro exI [of _ p]) (simp add: single input_run_def)
qed


lemma sample_decoder: "pdu_decoder (\<lambda>b. if length b < 6 then RC_WMORE else RC_OK (take 6 b) 6)"
  by (simp add: pdu_decoder_def)


text \<open>C27: a corrupt RTCM frame holds up the frames behind it.  The parser answers a frame
  that fails its checksum with a null pointer, which ends the loop of \<^verbatim>\<open>process_input\<close>: of a chunk that
  begins with such a frame nothing is pushed, whatever follows it, and all of the chunk but its first
  byte stays in the buffer until the next chunk arrives.\<close>

theorem corrupt_frame_holds_up:
  assumes "well_framed f" and "3 \<le> i" and "i < length f" and "v \<noteq> f ! i"
    and "length f + length rest < 131072"
  shows "\<exists>p. process_input now stale decode decode_pad INPUT_FORMAT_RTCM (f[i := v] @ rest)
      (single_input Rtcm errors unknowns ring_new) = Some ([], single_input Rtcm errors unknowns p) \<and>
    ring_ok p \<and> contents p = drop 1 (f[i := v]) @ rest"
proof -
  have "length (f[i := v] @ rest) < 131072" using assms(5) by simp
  note q = append_new [OF this]
  have "f \<noteq> []" "hd f = 0xD3" using assms(1) by (auto simp: well_framed_def)
  then have "search 1 rtcm_head (f[i := v] @ rest) = f[i := v] @ rest"
    using assms(2) by (intro search_hit) (cases f; cases i; simp add: rtcm_head_def)
  then have "rtcm_spec (f[i := v] @ rest) = (Null, drop 1 (f[i := v]) @ rest)"
    using rtcm_frame_spec_corrupt [OF assms(1-4)] by (simp add: rtcm_spec_def)
  then obtain p where p: "rtcm_try_parse (put ring_new (f[i := v] @ rest)) = Some (Null, p)" "ring_ok p"
    "contents p = drop 1 (f[i := v]) @ rest"
    using rtcm_result [OF conjunct1 [OF q], unfolded conjunct2 [OF q]] by blast
  then have "parse_all rtcm_try_parse (put ring_new (f[i := v] @ rest)) = Some ([], p)"
    by (simp add: parse_all.simps)
  then show ?thesis
    using p(2,3) process_input_single(2) [of now stale decode decode_pad "f[i := v] @ rest" errors unknowns ring_new]
    by (intro exI [of _ p]) (simp add: input_run_def)
qed

theorem corrupt_frame_holds_up_witness:
  "\<exists>p. process_input (Timestamp 0 0) stale0 (\<lambda>_. RC_WMORE :: unit decoded) (\<lambda>_. RC_WMORE :: unit decoded)
      INPUT_FORMAT_RTCM (rtcm_sample[4 := 0x51] @ rtcm_sample) (single_input Rtcm False False ring_new) =
      Some ([], single_input Rtcm False False p) \<and> ring_ok p \<and>
      contents p = drop 1 (rtcm_sample[4 := 0x51]) @ rtcm_sample"
  by (rule corrupt_frame_holds_up [OF rtcm_sample_framed]) (simp_all add: rtcm_sample_def)

end
