(* ===== verification/Rtcm_Encoder.thy ===== *)
theory Rtcm_Encoder
  imports Rtcm_Parser
begin

text \<open>
  The writing side of RTCM: the bit encoder (generator/rtcm/encoder.cpp), the messages whose
  fields are integers or fixed-point coordinates, and the framing of LPP data in messages of
  number 355 (generator/rtcm/generator.cpp).  The bits written are studied through an
  abstract bit writer, and the frames are shown to be what the parser accepts.
\<close>

section \<open>The encoder\<close>

record encoder =
  enc_mBuffer :: "u8 list"
  enc_mBitIndex :: nat

definition Encoder :: encoder where
  "Encoder = \<lparr>enc_mBuffer = [], enc_mBitIndex = 0\<rparr>"

definition append_bit :: "u8 \<Rightarrow> encoder \<Rightarrow> encoder" where
  "append_bit b e =
     (let buf = (if enc_mBitIndex e = 0 then enc_mBuffer e @ [0] else enc_mBuffer e);
          index = length buf - 1
      in e\<lparr>enc_mBuffer := buf[index := buf ! index OR push_bit (7 - enc_mBitIndex e) b],
           enc_mBitIndex := (enc_mBitIndex e + 1) mod 8\<rparr>)"

fun enc_u64_loop :: "nat \<Rightarrow> nat \<Rightarrow> u64 \<Rightarrow> encoder \<Rightarrow> encoder" where
  "enc_u64_loop 0 bits value e = e"
| "enc_u64_loop (Suc n) bits value e =
     (let i = bits - Suc n
      in enc_u64_loop n bits value (append_bit (ucast (drop_bit (bits - i - 1) value AND 1)) e))"

definition enc_u64 :: "nat \<Rightarrow> u64 \<Rightarrow> encoder \<Rightarrow> encoder" where
  "enc_u64 bits value e = enc_u64_loop bits bits value e"

definition enc_u8 :: "nat \<Rightarrow> u8 \<Rightarrow> encoder \<Rightarrow> encoder" where
  "enc_u8 bits value = enc_u64 bits (ucast value)"

definition enc_u16 :: "nat \<Rightarrow> u16 \<Rightarrow> encoder \<Rightarrow> encoder" where
  "enc_u16 bits value = enc_u64 bits (ucast value)"

definition enc_u32 :: "nat \<Rightarrow> u32 \<Rightarrow> encoder \<Rightarrow> encoder" where
  "enc_u32 bits value = enc_u64 bits (ucast value)"

text \<open>Signed values are given by their two's complement representation.\<close>

definition enc_i64 :: "nat \<Rightarrow> u64 \<Rightarrow> encoder \<Rightarrow> encoder" where
  "enc_i64 bits value =
     enc_u64 bits (if value <s 0 then value OR push_bit (bits - 1) 1
                   else value AND NOT (push_bit (bits - 1) 1))"

definition enc_i8 :: "nat \<Rightarrow> u8 \<Rightarrow> encoder \<Rightarrow> encoder" where
  "enc_i8 bits value = enc_i64 bits (scast value)"

definition enc_i16 :: "nat \<Rightarrow> u16 \<Rightarrow> encoder \<Rightarrow> encoder" where
  "enc_i16 bits value = enc_i64 bits (scast value)"

definition enc_i32 :: "nat \<Rightarrow> u32 \<Rightarrow> encoder \<Rightarrow> encoder" where
  "enc_i32 bits value = enc_i64 bits (scast value)"

definition enc_b :: "bool \<Rightarrow> encoder \<Rightarrow> encoder" where
  "enc_b value = enc_u8 1 (if value then 1 else 0)"

definition enc_reserve :: "nat \<Rightarrow> encoder \<Rightarrow> encoder" where
  "enc_reserve bits = enc_u64 bits 0"

definition enc_copy :: "u8 list \<Rightarrow> encoder \<Rightarrow> encoder" where
  "enc_copy buffer e = e\<lparr>enc_mBuffer := enc_mBuffer e @ buffer, enc_mBitIndex := 0\<rparr>"

definition enc_checksum :: "encoder \<Rightarrow> encoder" where
  "enc_checksum e = enc_u32 24 (crc24q_hash (enc_mBuffer e)) e"

definition enc_byte_count :: "encoder \<Rightarrow> nat" where
  "enc_byte_count e = length (enc_mBuffer e)"

section \<open>What has been written\<close>

definition enc_ok :: "encoder \<Rightarrow> bool" where
  "enc_ok e \<longleftrightarrow> enc_mBitIndex e < 8 \<and>
     (enc_mBitIndex e \<noteq> 0 \<longrightarrow> enc_mBuffer e \<noteq> [] \<and>
       (\<forall>n < 8 - enc_mBitIndex e. \<not> bit (last (enc_mBuffer e)) n))"

definition enc_bits :: "encoder \<Rightarrow> bool list" where
  "enc_bits e =
     (let bs = concat (map byte_bits (enc_mBuffer e))
      in if enc_mBitIndex e = 0 then bs else take (length bs - (8 - enc_mBitIndex e)) bs)"

lemma byte_bits_bits_of: "byte_bits b = bits_of 8 (unat b)"
  by (simp add: byte_bits_def bits_of_def upt_rec bit_simps)

lemma length_byte_bits [simp]: "length (byte_bits b) = 8"
  by (simp add: byte_bits_def)

lemma length_concat_bytes [simp]: "length (concat (map byte_bits bs)) = 8 * length bs"
  by (induction bs) auto

lemma byte_bits_inject: "byte_bits a = byte_bits b \<longleftrightarrow> a = b"
proof
  assume eq: "byte_bits a = byte_bits b"
  show "a = b"
  proof (rule bit_word_eqI)
    fix n assume "n < LENGTH(8)"
    then have "n = 0 \<or> n = 1 \<or> n = 2 \<or> n = 3 \<or> n = 4 \<or> n = 5 \<or> n = 6 \<or> n = 7" by auto
    then show "bit a n = bit b n" using eq by (auto simp: byte_bits_def)
  qed
qed simp

lemma concat_bytes_inject:
  "concat (map byte_bits xs) = concat (map byte_bits ys) \<longleftrightarrow> xs = ys"
proof (induction xs arbitrary: ys)
  case Nil
  then show ?case by (cases ys) (auto simp: byte_bits_def)
next
  case (Cons x xs)
  then show ?case by (cases ys) (auto simp: byte_bits_inject, simp add: byte_bits_def)
qed

lemma take_byte_bits_or:
  assumes "k < 8" and "\<forall>n < 8 - k. \<not> bit b n" and "v = 0 \<or> v = 1"
  shows "take (Suc k) (byte_bits (b OR push_bit (7 - k) v)) = take k (byte_bits b) @ [v = 1]"
proof -
  have "k = 0 \<or> k = 1 \<or> k = 2 \<or> k = 3 \<or> k = 4 \<or> k = 5 \<or> k = 6 \<or> k = 7"
    using assms(1) by auto
  then show ?thesis
    using assms(2,3) by (elim disjE) (auto simp: byte_bits_def bit_simps)
qed

lemma low_bits_or:
  fixes b v :: u8
  shows "\<forall>n < 8 - k. \<not> bit b n \<Longrightarrow> n < 7 - k \<Longrightarrow> \<not> bit (b OR push_bit (7 - k) v) n"
  by (auto simp: bit_or_iff bit_push_bit_iff)

lemma enc_bits_snoc:
  "k \<noteq> 0 \<Longrightarrow> k < 8 \<Longrightarrow> enc_bits \<lparr>enc_mBuffer = bs @ [b], enc_mBitIndex = k\<rparr>
    = concat (map byte_bits bs) @ take k (byte_bits b)"
  by (simp add: enc_bits_def Let_def)

lemma append_bit_law:
  assumes ok: "enc_ok e" and v: "v = 0 \<or> v = 1"
  shows "enc_ok (append_bit v e) \<and> enc_bits (append_bit v e) = enc_bits e @ [v = 1]"
proof -
  obtain k where k: "enc_mBitIndex e = k" "k < 8" using ok by (simp add: enc_ok_def)
  obtain bs b where buf: "(if k = 0 then enc_mBuffer e @ [0] else enc_mBuffer e) = bs @ [b]"
    using ok k by (metis append_butlast_last_id append_is_Nil_conv enc_ok_def list.distinct(1))
  have low: "\<forall>n < 8 - k. \<not> bit b n"
    using ok k buf by (cases "k = 0") (auto simp: enc_ok_def)
  let ?b = "b OR push_bit (7 - k) v"
  have app: "append_bit v e = \<lparr>enc_mBuffer = bs @ [?b], enc_mBitIndex = (k + 1) mod 8\<rparr>"
    unfolding append_bit_def Let_def k(1) buf by (cases e) (simp add: nth_append)
  have old: "enc_bits e = concat (map byte_bits bs) @ take k (byte_bits b)"
    using buf k enc_bits_snoc [of k bs b] by (cases e) (cases "k = 0", auto simp: enc_bits_def)
  have new: "enc_bits (append_bit v e) = concat (map byte_bits bs) @ take (Suc k) (byte_bits ?b)"
  proof (cases "k = 7")
    case True
    then show ?thesis by (simp add: app enc_bits_def)
  next
    case False
    then show ?thesis unfolding app using k enc_bits_snoc [of "Suc k" bs ?b] by simp
  qed
  have "enc_ok (append_bit v e)"
    unfolding app using low_bits_or [OF low] k by (auto simp: enc_ok_def mod_Suc)
  then show ?thesis
    using old new take_byte_bits_or [OF k(2) low v] by simp
qed

section \<open>The bit writer\<close>

text \<open>
  What the rest of the writing side relies on: an operation that appends one bit to the
  sequence of bits written so far.
\<close>

locale bit_writer =
  fixes invar :: "'e \<Rightarrow> bool"
    and written :: "'e \<Rightarrow> bool list"
    and put :: "u8 \<Rightarrow> 'e \<Rightarrow> 'e"
  assumes put_written: "invar e \<Longrightarrow> b = 0 \<or> b = 1 \<Longrightarrow> written (put b e) = written e @ [b = 1]"
    and put_invar: "invar e \<Longrightarrow> b = 0 \<or> b = 1 \<Longrightarrow> invar (put b e)"
begin

lemma put_list:
  "invar e \<Longrightarrow> invar (foldl (\<lambda>e b. put (of_bool b) e) e bs) \<and>
    written (foldl (\<lambda>e b. put (of_bool b) e) e bs) = written e @ bs"
proof (induction bs arbitrary: e)
  case Nil
  then show ?case by simp
next
  case (Cons b bs)
  have "invar (put (of_bool b) e)" "written (put (of_bool b) e) = written e @ [b]"
    using Cons.prems put_invar [of e "of_bool b"] put_written [of e "of_bool b"] by auto
  then show ?case using Cons.IH [of "put (of_bool b) e"] by simp
qed

end

interpretation enc: bit_writer enc_ok enc_bits append_bit
  by unfold_locales (use append_bit_law in blast)+

lemma enc_u64_loop_foldl:
  "n \<le> bits \<Longrightarrow> enc_u64_loop n bits value e
    = foldl (\<lambda>e b. append_bit (of_bool b) e) e (map (\<lambda>k. bit value (n - 1 - k)) [0..<n])"
proof (induction n arbitrary: e)
  case 0
  then show ?case by simp
next
  case (Suc n)
  have "ucast (drop_bit n value AND 1) = (of_bool (bit value n) :: u8)"
    by (simp add: and_one_eq bit_iff_odd_drop_bit mod_2_eq_odd)
  moreover have "bits - (bits - Suc n) - 1 = n" using Suc.prems by simp
  moreover have "map (\<lambda>k. bit value (Suc n - 1 - k)) [0..<Suc n]
      = bit value n # map (\<lambda>k. bit value (n - 1 - k)) [0..<n]"
    by (simp add: upt_conv_Cons map_Suc_upt [symmetric] del: upt_Suc)
  ultimately show ?case using Suc by (simp add: Let_def)
qed

lemma enc_u64_law:
  assumes "enc_ok e"
  shows "enc_ok (enc_u64 n v e) \<and> enc_bits (enc_u64 n v e) = enc_bits e @ bits_of n (unat v)"
proof -
  have "map (\<lambda>k. bit v (n - 1 - k)) [0..<n] = bits_of n (unat v)"
    by (simp add: bits_of_def bit_unsigned_iff)
  then show ?thesis
    using enc.put_list [OF assms] by (simp add: enc_u64_def enc_u64_loop_foldl)
qed

lemma enc_ok_Encoder [simp]: "enc_ok Encoder" and enc_bits_Encoder [simp]: "enc_bits Encoder = []"
  by (simp_all add: enc_ok_def enc_bits_def Encoder_def)

lemma enc_bytes:
  "enc_ok e \<Longrightarrow> length (enc_bits e) mod 8 = 0 \<Longrightarrow> enc_mBitIndex e = 0"
proof (rule ccontr)
  assume ok: "enc_ok e" and len: "length (enc_bits e) mod 8 = 0" and k: "enc_mBitIndex e \<noteq> 0"
  define m where "m = length (enc_mBuffer e) - 1"
  have "length (enc_mBuffer e) = Suc m" using ok k by (simp add: enc_ok_def m_def)
  then have "length (enc_bits e) = 8 * m + enc_mBitIndex e"
    using ok k by (simp add: enc_bits_def enc_ok_def)
  then have "length (enc_bits e) mod 8 = enc_mBitIndex e" using ok by (simp add: enc_ok_def)
  then show False using len k by simp
qed

lemma enc_buffer_unique:
  assumes "enc_ok e" and "enc_bits e = concat (map byte_bits bs)"
  shows "enc_mBuffer e = bs \<and> enc_mBitIndex e = 0"
proof -
  have "enc_mBitIndex e = 0" using assms by (intro enc_bytes) auto
  then show ?thesis using assms(2) by (simp add: enc_bits_def concat_bytes_inject)
qed

section \<open>Frames\<close>

text \<open>The transport frame every message generator ends with.\<close>

definition frame_message :: "u8 list \<Rightarrow> u8 list" where
  "frame_message payload =
     (let length16 = word_of_nat (length payload) :: u16;
          frame_encoder = enc_u8 8 0xD3 Encoder;
          frame_encoder = enc_u8 6 0 frame_encoder;
          frame_encoder = enc_u16 10 length16 frame_encoder;
          frame_encoder = enc_copy payload frame_encoder;
          frame_encoder = enc_checksum frame_encoder
      in enc_mBuffer frame_encoder)"

lemma bits_of_append: "bits_of (a + b) n = bits_of a (drop_bit b n) @ bits_of b n"
  by (induction a) (simp_all add: bits_of_Suc bit_drop_bit_eq add.commute)

lemma bits_of_take_bit: "bits_of b (take_bit b n) = bits_of b n"
  by (simp add: bits_of_def bit_take_bit_iff)

lemma bits_of_byte: "bits_of 8 n = byte_bits (word_of_nat n)"
  by (simp add: byte_bits_bits_of unsigned_of_nat bits_of_take_bit)

lemma enc_small_laws:
  assumes "enc_ok e"
  shows "enc_ok (enc_u8 n a e) \<and> enc_bits (enc_u8 n a e) = enc_bits e @ bits_of n (unat a)"
    and "enc_ok (enc_u16 n b e) \<and> enc_bits (enc_u16 n b e) = enc_bits e @ bits_of n (unat b)"
    and "enc_ok (enc_u32 n c e) \<and> enc_bits (enc_u32 n c e) = enc_bits e @ bits_of n (unat c)"
  using enc_u64_law [OF assms]
  by (simp_all add: enc_u8_def enc_u16_def enc_u32_def unsigned_ucast_eq take_bit_nat_eq_self
      less_le_trans [OF unsigned_less])

lemma enc_copy_law:
  assumes "enc_ok e" and "enc_mBitIndex e = 0"
  shows "enc_ok (enc_copy bs e) \<and> enc_bits (enc_copy bs e) = enc_bits e @ concat (map byte_bits bs)"
  using assms by (simp add: enc_ok_def enc_bits_def enc_copy_def)

lemma crc_bits: "bits_of 24 (unat (ucast (c :: reg) :: u32)) = concat (map byte_bits (crc_bytes c))"
proof -
  have "bits_of 24 n = bits_of 8 (drop_bit 16 n) @ bits_of 8 (drop_bit 8 n) @ bits_of 8 n" for n
    using bits_of_append [of 8 16 n] bits_of_append [of 8 8 n] by simp
  moreover have "byte_bits (word_of_nat (drop_bit k (unat (ucast c :: u32))))
      = byte_bits (ucast (drop_bit k c))" for k
    by (rule arg_cong [of _ _ byte_bits], rule bit_word_eqI)
      (auto simp: bit_simps bit_of_nat_iff dest: bit_imp_le_length)
  moreover have "ucast (ucast c :: u32) = (ucast c :: u8)"
    by (rule bit_word_eqI) (auto simp: bit_simps)
  ultimately show ?thesis
    by (simp add: bits_of_byte crc_bytes_def)
qed

lemma frame_header:
  "enc_u16 10 (word_of_nat n) (enc_u8 6 0 (enc_u8 8 0xD3 Encoder))
    = \<lparr>enc_mBuffer = [0xD3, word_of_nat (n mod 1024 div 256), word_of_nat n], enc_mBitIndex = 0\<rparr>"
proof -
  let ?e = "enc_u16 10 (word_of_nat n) (enc_u8 6 0 (enc_u8 8 0xD3 Encoder))"
  have ok: "enc_ok ?e"
    by (simp add: enc_small_laws)
  have "bits_of 10 (take_bit 16 n) = bits_of 10 n"
    using bits_of_take_bit [of 10 "take_bit 16 n"] bits_of_take_bit [of 10 n] by simp
  then have "enc_bits ?e = bits_of 8 0xD3 @ bits_of 6 0 @ bits_of 10 n"
    by (simp add: enc_small_laws unsigned_of_nat)
  also have "bits_of 6 0 @ bits_of 10 n = bits_of 16 (take_bit 10 n)"
  proof -
    have "drop_bit 10 (take_bit 10 n) = 0" by (simp add: drop_bit_eq_div take_bit_eq_mod)
    then show ?thesis
      using bits_of_append [of 6 10 "take_bit 10 n"] bits_of_take_bit [of 10 n] by simp
  qed
  also have "bits_of 16 (take_bit 10 n) = bits_of 8 (drop_bit 8 (take_bit 10 n)) @ bits_of 8 (take_bit 10 n)"
    using bits_of_append [of 8 8 "take_bit 10 n"] by simp
  also have "bits_of 8 (take_bit 10 n) = bits_of 8 n"
    using bits_of_take_bit [of 8 "take_bit 10 n"] bits_of_take_bit [of 8 n] by simp
  finally have "enc_bits ?e
      = concat (map byte_bits [0xD3, word_of_nat (n mod 1024 div 256), word_of_nat n])"
    by (simp add: bits_of_byte drop_bit_eq_div take_bit_eq_mod)
  from enc_buffer_unique [OF ok this] show ?thesis by (cases ?e) simp
qed

lemma frame_message_eq:
  fixes payload
  defines "h \<equiv> [0xD3, word_of_nat (length payload mod 1024 div 256), word_of_nat (length payload)]
    @ payload"
  shows "frame_message payload = h @ crc_bytes (crc24 h)"
proof -
  let ?e = "\<lparr>enc_mBuffer = h, enc_mBitIndex = 0\<rparr>"
  have e: "enc_copy payload (enc_u16 10 (word_of_nat (length payload))
      (enc_u8 6 0 (enc_u8 8 0xD3 Encoder))) = ?e"
    by (simp add: frame_header enc_copy_def h_def)
  have ok: "enc_ok ?e" and bits: "enc_bits ?e = concat (map byte_bits h)"
    by (simp_all add: enc_ok_def enc_bits_def)
  have "enc_ok (enc_checksum ?e)"
      and "enc_bits (enc_checksum ?e) = concat (map byte_bits (h @ crc_bytes (crc24 h)))"
    using enc_small_laws(3) [OF ok] by (simp_all add: enc_checksum_def bits crc24q_hash_ref crc_bits)
  from enc_buffer_unique [OF this] show ?thesis
    by (simp add: frame_message_def e)
qed

lemma frame_message_well_framed:
  assumes "length payload \<le> 1023"
  shows "well_framed (frame_message payload)"
proof -
  have hi: "length payload mod 1024 div 256 < 4" by (simp add: less_mult_imp_div_less)
  then have "unat (word_of_nat (length payload mod 1024 div 256) :: u8) = length payload div 256"
    using assms by (simp add: unat_of_nat)
  moreover have "(word_of_nat m :: u8) AND 0xFC = 0" if "m < 4" for m
  proof -
    have "m = 0 \<or> m = 1 \<or> m = 2 \<or> m = 3" using that by auto
    then show ?thesis by auto
  qed
  ultimately show ?thesis
    unfolding well_framed_def frame_message_eq using hi assms
    by (intro exI [of _ "word_of_nat (length payload mod 1024 div 256)"]
        exI [of _ "word_of_nat (length payload)"] exI [of _ payload])
      (simp add: payload_length_value unat_of_nat)
qed

section \<open>The message number of a generated frame\<close>

lemma bits_of_inject: "a < 2 ^ n \<Longrightarrow> b < 2 ^ n \<Longrightarrow> bits_of n a = bits_of n b \<longleftrightarrow> a = b"
  by (metis bits_val_bits_of take_bit_nat_eq_self)

definition message_type :: "u8 \<Rightarrow> u8 \<Rightarrow> nat" where
  "message_type b0 b1 = unat (push_bit 4 (ucast b0 :: u16) OR ucast (drop_bit 4 b1))"

lemma nibble_bounds: "unat b1 div 16 < 16" "unat b0 * 16 + unat b1 div 16 < 4096" for b0 b1 :: u8
proof -
  have "unat b0 < 256" "unat b1 < 256" by simp_all
  then show "unat b1 div 16 < 16" by (simp only: less_mult_imp_div_less)
  with \<open>unat b0 < 256\<close> show "unat b0 * 16 + unat b1 div 16 < 4096" by linarith
qed

lemma message_type_value: "message_type b0 b1 = unat b0 * 16 + unat b1 div 16"
proof -
  have d: "unat (drop_bit 4 b1) = unat b1 div 16"
    by (simp add: drop_bit_eq_div unat_div)
  show ?thesis
    unfolding message_type_def using nibble_bounds(1) [of b1] nibble_bounds(2) [of b0 b1]
    by (subst unat_join) (simp_all add: d)
qed

lemma message_type_bits: "bits_of 12 (message_type b0 b1) = byte_bits b0 @ take 4 (byte_bits b1)"
proof -
  have "bits_of 12 (message_type b0 b1) = bits_of 8 (unat b0) @ bits_of 4 (unat b1 div 16)"
    using bits_of_append [of 8 4 "message_type b0 b1"] bits_of_take_bit [of 4 "message_type b0 b1"]
      nibble_bounds(1) [of b1]
    by (simp add: message_type_value drop_bit_eq_div take_bit_eq_mod)
  moreover have "take 4 (byte_bits b1) = bits_of 4 (unat b1 div 16)"
    using bits_of_append [of 4 4 "unat b1"] by (simp add: byte_bits_bits_of drop_bit_eq_div)
  ultimately show ?thesis by (simp add: byte_bits_bits_of)
qed

lemma enc_bits_prefix: "\<exists>pad. concat (map byte_bits (enc_mBuffer e)) = enc_bits e @ pad"
proof -
  let ?bs = "concat (map byte_bits (enc_mBuffer e))"
  have "?bs = enc_bits e @ drop (length (enc_bits e)) ?bs"
    by (simp add: enc_bits_def Let_def)
  then show ?thesis by blast
qed

lemma message_type_head:
  assumes "enc_bits e = bits_of 12 n @ rest" and "4 \<le> length rest" and "n < 2 ^ 12"
  shows "\<exists>b0 b1 bs. enc_mBuffer e = b0 # b1 # bs \<and> message_type b0 b1 = n"
proof -
  obtain pad where pad: "concat (map byte_bits (enc_mBuffer e)) = bits_of 12 n @ rest @ pad"
    using enc_bits_prefix [of e] assms(1) by auto
  have "8 * length (enc_mBuffer e) = 12 + length rest + length pad"
    using arg_cong [OF pad, of length] by (simp only: length_concat_bytes length_append length_bits_of)
  then have "2 \<le> length (enc_mBuffer e)"
    using assms(2) by linarith
  then obtain b0 b1 bs where bs: "enc_mBuffer e = b0 # b1 # bs"
    by (cases "enc_mBuffer e"; cases "tl (enc_mBuffer e)") auto
  have "take 12 (concat (map byte_bits (enc_mBuffer e))) = byte_bits b0 @ take 4 (byte_bits b1)"
    by (simp add: bs)
  then have "bits_of 12 n = bits_of 12 (message_type b0 b1)"
    by (simp add: pad message_type_bits)
  moreover have "message_type b0 b1 < 2 ^ 12"
    using nibble_bounds(2) by (simp add: message_type_value)
  ultimately show ?thesis using bs assms(3) bits_of_inject [of n 12 "message_type b0 b1"] by auto
qed

lemma rtcm_dispatch_frame:
  assumes "payload = b0 # b1 # bs" and "message_type b0 b1 \<notin> {1019, 1042, 1046}"
  shows "rtcm_dispatch (frame_message payload)
    = UnsupportedMessage (message_type b0 b1) (frame_message payload)"
  using assms unfolding rtcm_dispatch_def message_type_def
  by (simp add: frame_message_eq)

section \<open>Framing of LPP data\<close>

definition LRF_MESSAGE_ID :: int where
  "LRF_MESSAGE_ID = 355"

definition generate_framing_message :: "int \<Rightarrow> bool \<Rightarrow> u8 list \<Rightarrow> int \<times> u8 list" where
  "generate_framing_message message_id multiple_message_bit lpp_data =
     (let message_id = (if message_id < 0 \<or> message_id > 4095 then LRF_MESSAGE_ID else message_id);
          encoder = enc_u16 12 (word_of_int message_id) Encoder;
          encoder = enc_u8 4 0 encoder;
          encoder = enc_u8 1 (if multiple_message_bit then 1 else 0) encoder;
          encoder = enc_u8 7 0 encoder;
          encoder = enc_copy lpp_data encoder
      in (LRF_MESSAGE_ID, frame_message (enc_mBuffer encoder)))"

function generate_framing :: "int \<Rightarrow> u8 list \<Rightarrow> (int \<times> u8 list) list" where
  "generate_framing message_id lpp_data =
     (if length lpp_data = 0 then []
      else let len = min (length lpp_data) 1020;
               multiple_message_bit = length lpp_data > len
           in generate_framing_message message_id multiple_message_bit (take len lpp_data)
              # generate_framing message_id (drop len lpp_data))"
  by auto
termination
  by (relation "measure (\<lambda>(_, d). length d)") auto

declare generate_framing.simps [simp del]

definition framing_id :: "int \<Rightarrow> nat" where
  "framing_id m = nat (if m < 0 \<or> m > 4095 then LRF_MESSAGE_ID else m)"

lemma framing_payload:
  assumes "length d \<le> 1020"
  obtains b0 b1 b2 where
    "snd (generate_framing_message m mm d) = frame_message ([b0, b1, b2] @ d)"
    "message_type b0 b1 = framing_id m" "bit b2 7 \<longleftrightarrow> mm"
proof -
  define e where "e = enc_u8 7 0 (enc_u8 1 (if mm then 1 else 0) (enc_u8 4 0
    (enc_u16 12 (word_of_nat (framing_id m)) Encoder)))"
  have id: "framing_id m < 2 ^ 12"
    by (auto simp: framing_id_def LRF_MESSAGE_ID_def)
  then have u: "unat (word_of_nat (framing_id m) :: u16) = framing_id m"
    by (simp add: unsigned_of_nat take_bit_nat_eq_self)
  have ok: "enc_ok e" by (simp add: e_def enc_small_laws)
  have bits: "enc_bits e = bits_of 12 (framing_id m) @
      bits_of 4 0 @ bits_of 1 (if mm then 1 else 0) @ bits_of 7 0"
    using id by (simp add: e_def enc_small_laws unsigned_of_nat take_bit_nat_eq_self)
  then have idx: "enc_mBitIndex e = 0" using ok by (intro enc_bytes) simp_all
  have "8 * length (enc_mBuffer e) = length (enc_bits e)"
    using idx by (simp add: enc_bits_def)
  then have "length (enc_mBuffer e) = 3" by (simp add: bits)
  moreover obtain b0 b1 bs where b: "enc_mBuffer e = b0 # b1 # bs" "message_type b0 b1 = framing_id m"
    using message_type_head [OF bits _ id] by auto
  ultimately obtain b2 where b2: "enc_mBuffer e = [b0, b1, b2]"
    by (cases bs) auto
  have last: "byte_bits b2 = drop 16 (enc_bits e)"
    using idx by (simp add: enc_bits_def b2)
  have "byte_bits b2 ! 0 = mm"
    unfolding last by (cases mm) (simp_all add: bits bits_of_Suc numeral_eq_Suc bit_0)
  then have "bit b2 7 \<longleftrightarrow> mm" by (simp add: byte_bits_def)
  moreover have "snd (generate_framing_message m mm d) = frame_message ([b0, b1, b2] @ d)"
    unfolding generate_framing_message_def
    using b2 by (auto simp: e_def Let_def framing_id_def enc_copy_def LRF_MESSAGE_ID_def)
  ultimately show ?thesis using b(2) that by blast
qed

text \<open>Calling \<^verbatim>\<open>try_parse\<close> \<open>n\<close> times, each call expected to return a message.\<close>

fun rtcm_calls :: "nat \<Rightarrow> ring \<Rightarrow> (rtcm_message list \<times> ring) option" where
  "rtcm_calls 0 p = Some ([], p)"
| "rtcm_calls (Suc n) p =
     (case rtcm_try_parse p of
        Some (Value m, p') \<Rightarrow> map_option (\<lambda>(ms, p''). (m # ms, p'')) (rtcm_calls n p')
      | _ \<Rightarrow> None)"

lemma rtcm_delivered:
  assumes "ring_ok p" and "contents p = f @ rest" and "well_framed f"
  shows "\<exists>p'. rtcm_try_parse p = Some (Value (rtcm_dispatch f), p') \<and> ring_ok p' \<and>
    contents p' = rest"
proof (rule rtcm_result)
  show "ring_ok p" by fact
  have "f \<noteq> []" "hd f = 0xD3" using assms(3) by (auto simp: well_framed_def)
  then show "rtcm_spec (contents p) = (Value (rtcm_dispatch f), rest)"
    using assms search_frame [of "[]" f rest]
    by (simp add: rtcm_spec_def rtcm_frame_spec_frame)
qed

lemma rtcm_calls_frames:
  assumes "ring_ok p" and "contents p = concat fs @ rest" and "list_all well_framed fs"
  shows "\<exists>p'. rtcm_calls (length fs) p = Some (map rtcm_dispatch fs, p') \<and> ring_ok p' \<and>
    contents p' = rest"
  using assms
proof (induction fs arbitrary: p)
  case Nil
  then show ?case by simp
next
  case (Cons f fs)
  then obtain q where q: "rtcm_try_parse p = Some (Value (rtcm_dispatch f), q)" "ring_ok q"
      "contents q = concat fs @ rest"
    using rtcm_delivered [of p f "concat fs @ rest"] by auto
  then show ?case using Cons.IH [OF q(2,3)] Cons.prems(3) by auto
qed

text \<open>The LPP bytes inside a delivered framing message: after the transport header and the
  three bytes of number, subtype and flags, before the checksum.\<close>

fun framed_data :: "rtcm_message \<Rightarrow> u8 list" where
  "framed_data (UnsupportedMessage t f) = drop 6 (take (length f - 3) f)"
| "framed_data m = []"

lemma framed_data_frame:
  "framed_data (UnsupportedMessage t (frame_message ([b0, b1, b2] @ d))) = d"
proof -
  obtain h c where f: "frame_message ([b0, b1, b2] @ d) = (h @ [b0, b1, b2] @ d) @ c"
      and len: "length h = 3" "length c = 3"
    using that [OF frame_message_eq] frame_message_eq [of "[b0, b1, b2] @ d"]
    by (metis append.assoc append_Cons append_Nil length_crc_bytes length_Cons list.size(3)
        numeral_3_eq_3)
  have cut: "take (length (x @ c) - 3) (x @ c) = x" for x :: "u8 list"
    using len by simp
  have "framed_data (UnsupportedMessage t (frame_message ([b0, b1, b2] @ d)))
      = drop 6 ((h @ [b0, b1, b2]) @ d)"
    unfolding framed_data.simps f cut by (simp only: append.assoc)
  also have "6 = length (h @ [b0, b1, b2])" using len by simp
  finally show ?thesis by simp
qed

lemma framing_frames:
  assumes "framing_id m \<notin> {1019, 1042, 1046}"
  shows "list_all well_framed (map snd (generate_framing m d)) \<and>
    concat (map (framed_data \<circ> rtcm_dispatch) (map snd (generate_framing m d))) = d \<and>
    list_all (\<lambda>f. \<exists>bytes. rtcm_dispatch f = UnsupportedMessage (framing_id m) bytes)
      (map snd (generate_framing m d))"
proof (induction "length d" arbitrary: d rule: less_induct)
  case less
  show ?case
  proof (cases "length d = 0")
    case True
    then show ?thesis by (simp add: generate_framing.simps)
  next
    case False
    let ?l = "min (length d) 1020"
    obtain b0 b1 b2 where f:
        "snd (generate_framing_message m (length d > ?l) (take ?l d))
          = frame_message ([b0, b1, b2] @ take ?l d)" (is "_ = ?f")
        "message_type b0 b1 = framing_id m"
      by (rule framing_payload [of "take ?l d" m "length d > ?l"]) (simp, blast)
    have framed: "well_framed ?f" by (rule frame_message_well_framed) simp
    have disp: "rtcm_dispatch ?f = UnsupportedMessage (framing_id m) ?f"
      using assms f(2) rtcm_dispatch_frame [of "[b0, b1, b2] @ take ?l d" b0 b1] by simp
    have data: "framed_data (rtcm_dispatch ?f) = take ?l d"
      unfolding disp by (rule framed_data_frame)
    have gen: "generate_framing m d = generate_framing_message m (length d > ?l) (take ?l d)
        # generate_framing m (drop ?l d)"
      using False by (subst generate_framing.simps) (simp add: Let_def)
    have "length (drop ?l d) < length d" using False by simp
    from less.hyps [OF this] show ?thesis
      unfolding gen using f(1) framed data disp by simp
  qed
qed

text \<open>C3: LPP data framed by \<^verbatim>\<open>generate_framing\<close> and fed to this repository's own RTCM parser
  comes back unchanged.  When the unread bytes are the generated frames one after the other,
  as many calls of \<^verbatim>\<open>try_parse\<close> as there are frames each deliver an (undecoded) message with
  the requested number, the data inside these messages is the framed data, and what follows
  the frames is left unread.  The requested number must not be one the parser decodes.\<close>

theorem generate_framing_roundtrip:
  assumes "ring_ok p" and "framing_id m \<notin> {1019, 1042, 1046}"
    and "contents p = concat (map snd (generate_framing m d)) @ rest"
  shows "\<exists>ms p'. rtcm_calls (length (generate_framing m d)) p = Some (ms, p') \<and> ring_ok p' \<and>
    contents p' = rest \<and> concat (map framed_data ms) = d \<and>
    (\<forall>msg \<in> set ms. \<exists>f. msg = UnsupportedMessage (framing_id m) f)"
proof -
  let ?fs = "map snd (generate_framing m d)"
  obtain p' where p': "rtcm_calls (length ?fs) p = Some (map rtcm_dispatch ?fs, p')"
      "ring_ok p'" "contents p' = rest"
    using rtcm_calls_frames [OF assms(1) assms(3)] framing_frames [OF assms(2)] by blast
  then show ?thesis
    using framing_frames [OF assms(2), of d]
    by (intro exI [of _ "map rtcm_dispatch ?fs"] exI [of _ p'])
      (auto simp: list_all_iff comp_def)
qed

lemma generate_framing_roundtrip_witness:
  "\<exists>ms p'. rtcm_calls 1 (snd (append ring_new (snd (generate_framing_message 355 False [1, 2, 3]) @ [9])))
      = Some (ms, p') \<and> contents p' = [9] \<and> concat (map framed_data ms) = [1, 2, 3] \<and>
    (\<forall>msg \<in> set ms. \<exists>f. msg = UnsupportedMessage 355 f)"
proof -
  have g: "generate_framing 355 [1, 2, 3] = [generate_framing_message 355 False [1, 2, 3]]"
    by (simp add: generate_framing.simps)
  obtain b0 b1 b2 where f: "snd (generate_framing_message 355 False [1, 2, 3])
      = frame_message ([b0, b1, b2] @ [1, 2, 3])"
    by (rule framing_payload [of "[1, 2, 3]" 355 False]) (simp, blast)
  let ?p = "snd (append ring_new (snd (generate_framing_message 355 False [1, 2, 3]) @ [9]))"
  have "length (snd (generate_framing_message 355 False [1, 2, 3]) @ [9]) < 131072"
    unfolding f frame_message_eq by simp
  from append_new [OF this]
  have "ring_ok ?p" "contents ?p = concat (map snd (generate_framing 355 [1, 2, 3])) @ [9]"
    by (simp_all add: g)
  moreover have "framing_id 355 = 355" by (simp add: framing_id_def)
  ultimately show ?thesis
    using generate_framing_roundtrip [of ?p 355 "[1, 2, 3]" "[9]"] unfolding g by auto
qed

end
