(* ===== verification/Scheduler.thy ===== *)
theory Scheduler
  imports Prelude
begin

text \<open>
  The event loop of the client (dependency/scheduler/scheduler.cpp): a pool of 256 slots for file
  descriptors, handles made of a slot index and a generation, deferred callbacks, and the loops
  around \<^verbatim>\<open>epoll_pwait\<close>.  The system calls are outside: the calls of
  \<^verbatim>\<open>epoll_ctl\<close> are recorded in \<open>epoll_calls\<close> (the latest first), their results and those
  of \<^verbatim>\<open>epoll_pwait\<close> are arguments.  Callbacks are values of a type \<open>'cb\<close> (or \<open>'d\<close> for
  deferred ones), and \<open>run\<close> says what calling one does to the scheduler and to the
  objects of the program, which are the field \<open>program\<close>.
\<close>

section \<open>Interests and handles\<close>

definition EventInterest_None :: u32 where "EventInterest_None = 0"
definition EventInterest_Read :: u32 where "EventInterest_Read = 1"
definition EventInterest_Write :: u32 where "EventInterest_Write = 2"
definition EventInterest_Error :: u32 where "EventInterest_Error = 4"
definition EventInterest_Hangup :: u32 where "EventInterest_Hangup = 8"

lemmas interest_defs =
  EventInterest_None_def EventInterest_Read_def EventInterest_Write_def EventInterest_Error_def
  EventInterest_Hangup_def

text \<open>The constants of sys/epoll.h.\<close>

definition EPOLLIN :: u32 where "EPOLLIN = 0x1"
definition EPOLLOUT :: u32 where "EPOLLOUT = 0x4"
definition EPOLLERR :: u32 where "EPOLLERR = 0x8"
definition EPOLLHUP :: u32 where "EPOLLHUP = 0x10"
definition EPOLLRDHUP :: u32 where "EPOLLRDHUP = 0x2000"

lemmas epoll_defs = EPOLLIN_def EPOLLOUT_def EPOLLERR_def EPOLLHUP_def EPOLLRDHUP_def

definition has_interest :: "u32 \<Rightarrow> u32 \<Rightarrow> bool" where
  "has_interest a b \<longleftrightarrow> a AND b \<noteq> 0"

definition interests_to_epoll :: "u32 \<Rightarrow> u32" where
  "interests_to_epoll i =
     (let e = 0;
          e = (if has_interest i EventInterest_Read then e OR EPOLLIN else e);
          e = (if has_interest i EventInterest_Write then e OR EPOLLOUT else e);
          e = (if has_interest i EventInterest_Error then e OR EPOLLERR else e);
          e = (if has_interest i EventInterest_Hangup then e OR (EPOLLHUP OR EPOLLRDHUP) else e)
      in e)"

definition epoll_to_interests :: "u32 \<Rightarrow> u32" where
  "epoll_to_interests e =
     (let i = EventInterest_None;
          i = (if e AND EPOLLIN \<noteq> 0 then i OR EventInterest_Read else i);
          i = (if e AND EPOLLOUT \<noteq> 0 then i OR EventInterest_Write else i);
          i = (if e AND EPOLLERR \<noteq> 0 then i OR EventInterest_Error else i);
          i = (if e AND (EPOLLHUP OR EPOLLRDHUP) \<noteq> 0 then i OR EventInterest_Hangup else i)
      in i)"

datatype ScheduledEvent = ScheduledEvent (ev_index: u16) (ev_generation: u16)

definition ev_valid :: "ScheduledEvent \<Rightarrow> bool" where
  "ev_valid ev \<longleftrightarrow> ev_index ev \<noteq> 0xFFFF"

definition ev_invalid :: ScheduledEvent where
  "ev_invalid = ScheduledEvent 0xFFFF 0"

definition encode_handle :: "ScheduledEvent \<Rightarrow> u64" where
  "encode_handle h = push_bit 16 (ucast (ev_generation h)) OR ucast (ev_index h)"

definition decode_handle :: "u64 \<Rightarrow> ScheduledEvent" where
  "decode_handle v = ScheduledEvent (ucast v) (ucast (drop_bit 16 v))"

section \<open>State\<close>

record 'cb event_slot =
  slot_callback :: "'cb option"
  slot_name :: string
  slot_fd :: int
  slot_generation :: u16
  slot_in_use :: bool
  slot_pending_free :: bool

definition EventSlot :: "'cb event_slot" where
  "EventSlot = \<lparr>slot_callback = None, slot_name = [], slot_fd = -1, slot_generation = 0,
     slot_in_use = False, slot_pending_free = False\<rparr>"

datatype epoll_call = CtlAdd int u32 u64 | CtlMod int u32 u64 | CtlDel int

record ('cb, 'd, 'm) scheduler =
  mEpollFd :: int
  mInterruptFd :: int
  mEpollCount :: int
  mMaxEventsPerWait :: int
  mInterrupted :: bool
  mEventPool :: "'cb event_slot list"
  mDeferredCallbacks :: "'d list"
  epoll_calls :: "epoll_call list"
  program :: 'm

definition MAX_EVENT_SLOTS :: nat where "MAX_EVENT_SLOTS = 256"

text \<open>The constructor, given the two descriptors that the kernel returned.\<close>

definition Scheduler_new :: "int \<Rightarrow> int \<Rightarrow> 'm \<Rightarrow> ('cb, 'd, 'm) scheduler" where
  "Scheduler_new epoll_fd interrupt_fd m =
     \<lparr>mEpollFd = epoll_fd, mInterruptFd = interrupt_fd, mEpollCount = 0, mMaxEventsPerWait = 1,
      mInterrupted = False, mEventPool = replicate MAX_EVENT_SLOTS EventSlot,
      mDeferredCallbacks = [], epoll_calls = [], program = m\<rparr>"

section \<open>Slots\<close>

definition get_slot :: "('cb, 'd, 'm) scheduler \<Rightarrow> ScheduledEvent \<Rightarrow> nat option" where
  "get_slot s handle =
     (if \<not> ev_valid handle then None
      else if unat (ev_index handle) \<ge> MAX_EVENT_SLOTS then None
      else let slot = mEventPool s ! unat (ev_index handle)
           in if \<not> slot_in_use slot \<or> slot_generation slot \<noteq> ev_generation handle then None
              else Some (unat (ev_index handle)))"

definition is_stale :: "('cb, 'd, 'm) scheduler \<Rightarrow> ScheduledEvent \<Rightarrow> bool" where
  "is_stale s handle =
     (if \<not> ev_valid handle then False
      else if unat (ev_index handle) \<ge> MAX_EVENT_SLOTS then True
      else let slot = mEventPool s ! unat (ev_index handle)
           in slot_pending_free slot \<or> slot_generation slot \<noteq> ev_generation handle)"

fun free_slot :: "'cb event_slot list \<Rightarrow> nat \<Rightarrow> nat option" where
  "free_slot [] i = None"
| "free_slot (slot # pool) i =
     (if \<not> slot_in_use slot \<and> \<not> slot_pending_free slot then Some i else free_slot pool (i + 1))"

definition next_generation :: "u16 \<Rightarrow> u16" where
  "next_generation g = (if g + 1 = 0 then 1 else g + 1)"

definition set_slot :: "nat \<Rightarrow> 'cb event_slot \<Rightarrow> ('cb, 'd, 'm) scheduler \<Rightarrow> ('cb, 'd, 'm) scheduler" where
  "set_slot i slot s = s\<lparr>mEventPool := (mEventPool s)[i := slot]\<rparr>"

definition epoll_ctl :: "epoll_call \<Rightarrow> ('cb, 'd, 'm) scheduler \<Rightarrow> ('cb, 'd, 'm) scheduler" where
  "epoll_ctl c s = s\<lparr>epoll_calls := c # epoll_calls s\<rparr>"

text \<open>\<open>ok\<close>: \<^verbatim>\<open>epoll_ctl\<close> did not return -1.\<close>

definition register_fd ::
  "bool \<Rightarrow> int \<Rightarrow> u32 \<Rightarrow> 'cb option \<Rightarrow> string \<Rightarrow> ('cb, 'd, 'm) scheduler \<Rightarrow>
   ScheduledEvent \<times> ('cb, 'd, 'm) scheduler" where
  "register_fd ok fd interests callback nm s =
     (if mEpollFd s = -1 \<or> mInterruptFd s = -1 then (ev_invalid, s)
      else case free_slot (mEventPool s) 0 of
        None \<Rightarrow> (ev_invalid, s)
      | Some i \<Rightarrow>
          let slot = (mEventPool s ! i)\<lparr>slot_callback := callback, slot_name := nm, slot_fd := fd,
                slot_in_use := True,
                slot_generation := next_generation (slot_generation (mEventPool s ! i))\<rparr>;
              handle = ScheduledEvent (of_nat i) (slot_generation slot);
              s = epoll_ctl (CtlAdd fd (interests_to_epoll interests) (encode_handle handle)) s
          in if \<not> ok
             then (ev_invalid, set_slot i (slot\<lparr>slot_in_use := False, slot_callback := None,
                     slot_name := [], slot_fd := -1\<rparr>) s)
             else (handle, (set_slot i slot s)\<lparr>mEpollCount := mEpollCount s + 1\<rparr>))"

definition update_interests ::
  "ScheduledEvent \<Rightarrow> u32 \<Rightarrow> ('cb, 'd, 'm) scheduler \<Rightarrow> ('cb, 'd, 'm) scheduler" where
  "update_interests ev interests s =
     (if mEpollFd s = -1 \<or> mInterruptFd s = -1 then s
      else case get_slot s ev of None \<Rightarrow> s
      | Some i \<Rightarrow> epoll_ctl (CtlMod (slot_fd (mEventPool s ! i)) (interests_to_epoll interests)
                   (encode_handle ev)) s)"

definition update_callback ::
  "ScheduledEvent \<Rightarrow> 'cb option \<Rightarrow> ('cb, 'd, 'm) scheduler \<Rightarrow> ('cb, 'd, 'm) scheduler" where
  "update_callback ev callback s =
     (case get_slot s ev of None \<Rightarrow> s
      | Some i \<Rightarrow> set_slot i ((mEventPool s ! i)\<lparr>slot_callback := callback\<rparr>) s)"

definition unregister :: "ScheduledEvent \<Rightarrow> ('cb, 'd, 'm) scheduler \<Rightarrow> ('cb, 'd, 'm) scheduler" where
  "unregister ev s =
     (if mEpollFd s = -1 \<or> mInterruptFd s = -1 then s
      else case get_slot s ev of None \<Rightarrow> s
      | Some i \<Rightarrow>
          let slot = mEventPool s ! i;
              s = epoll_ctl (CtlDel (slot_fd slot)) s;
              s = set_slot i (slot\<lparr>slot_in_use := False, slot_pending_free := True\<rparr>) s
          in s\<lparr>mEpollCount := mEpollCount s - 1\<rparr>)"

definition sched_defer :: "'d \<Rightarrow> ('cb, 'd, 'm) scheduler \<Rightarrow> ('cb, 'd, 'm) scheduler" where
  "sched_defer callback s = s\<lparr>mDeferredCallbacks := mDeferredCallbacks s @ [callback]\<rparr>"

definition interrupt :: "('cb, 'd, 'm) scheduler \<Rightarrow> ('cb, 'd, 'm) scheduler" where
  "interrupt s = (if mInterruptFd s = -1 then s else s\<lparr>mInterrupted := True\<rparr>)"

section \<open>Running callbacks\<close>

text \<open>\<^verbatim>\<open>event.data.fd\<close> are the low 32 bits of the union \<^verbatim>\<open>event.data\<close>.\<close>

definition process_event ::
  "('cb \<Rightarrow> u32 \<Rightarrow> ('cb, 'd, 'm) scheduler \<Rightarrow> ('cb, 'd, 'm) scheduler) \<Rightarrow> u32 \<times> u64 \<Rightarrow>
   ('cb, 'd, 'm) scheduler \<Rightarrow> ('cb, 'd, 'm) scheduler" where
  "process_event run event s =
     (if sint (ucast (snd event) :: u32) = mInterruptFd s then s\<lparr>mInterrupted := True\<rparr>
      else case get_slot s (decode_handle (snd event)) of
        None \<Rightarrow> s
      | Some i \<Rightarrow>
          (case slot_callback (mEventPool s ! i) of
             None \<Rightarrow> s
           | Some cb \<Rightarrow> run cb (epoll_to_interests (fst event)) s))"

definition reap :: "'cb event_slot \<Rightarrow> 'cb event_slot" where
  "reap slot =
     (if slot_pending_free slot
      then slot\<lparr>slot_pending_free := False, slot_callback := None, slot_name := [], slot_fd := -1\<rparr>
      else slot)"

definition reap_slots :: "('cb, 'd, 'm) scheduler \<Rightarrow> ('cb, 'd, 'm) scheduler" where
  "reap_slots s = s\<lparr>mEventPool := map reap (mEventPool s)\<rparr>"

definition process_deferred ::
  "('d \<Rightarrow> ('cb, 'd, 'm) scheduler \<Rightarrow> ('cb, 'd, 'm) scheduler) \<Rightarrow>
   ('cb, 'd, 'm) scheduler \<Rightarrow> ('cb, 'd, 'm) scheduler" where
  "process_deferred run s =
     (let s = reap_slots s;
          callbacks = mDeferredCallbacks s;
          s = s\<lparr>mDeferredCallbacks := []\<rparr>
      in fold run callbacks s)"

section \<open>The loops\<close>

datatype ExecuteResult = Interrupted | Timeout | ConditionMet | NoWork | Error

text \<open>What \<^verbatim>\<open>epoll_pwait\<close> returns: ready events, \<^verbatim>\<open>EINTR\<close>, another error.\<close>

datatype wait_result = Ready "(u32 \<times> u64) list" | Eintr | Failed

definition process_ready ::
  "('cb \<Rightarrow> u32 \<Rightarrow> ('cb, 'd, 'm) scheduler \<Rightarrow> ('cb, 'd, 'm) scheduler) \<Rightarrow>
   ('d \<Rightarrow> ('cb, 'd, 'm) scheduler \<Rightarrow> ('cb, 'd, 'm) scheduler) \<Rightarrow> (u32 \<times> u64) list \<Rightarrow>
   ('cb, 'd, 'm) scheduler \<Rightarrow> ('cb, 'd, 'm) scheduler" where
  "process_ready run rund events s =
     process_deferred rund
       (fold (process_event run) (take (nat (min (int (length events)) (mMaxEventsPerWait s))) events) s)"

text \<open>
  The loops as functions of the results of \<^verbatim>\<open>epoll_pwait\<close>: \<open>None\<close> when the loop is still
  waiting after the last of them.
\<close>

fun execute_loop ::
  "('cb \<Rightarrow> u32 \<Rightarrow> ('cb, 'd, 'm) scheduler \<Rightarrow> ('cb, 'd, 'm) scheduler) \<Rightarrow>
   ('d \<Rightarrow> ('cb, 'd, 'm) scheduler \<Rightarrow> ('cb, 'd, 'm) scheduler) \<Rightarrow> wait_result list \<Rightarrow>
   ('cb, 'd, 'm) scheduler \<Rightarrow> ExecuteResult option \<times> ('cb, 'd, 'm) scheduler" where
  "execute_loop run rund waits s =
     (if mEpollCount s = 0 then (Some NoWork, s)
      else if mInterrupted s then (Some Interrupted, s)
      else case waits of
        [] \<Rightarrow> (None, s)
      | Eintr # waits \<Rightarrow> execute_loop run rund waits s
      | Failed # waits \<Rightarrow> (Some Error, s)
      | Ready events # waits \<Rightarrow> execute_loop run rund waits (process_ready run rund events s))"

declare execute_loop.simps [simp del]

definition execute where
  "execute run rund waits s =
     (if mEpollFd s = -1 \<or> mInterruptFd s = -1 then (Some Error, s)
      else execute_loop run rund waits (process_deferred rund s))"

fun execute_while_loop ::
  "(('cb, 'd, 'm) scheduler \<Rightarrow> bool) \<Rightarrow>
   ('cb \<Rightarrow> u32 \<Rightarrow> ('cb, 'd, 'm) scheduler \<Rightarrow> ('cb, 'd, 'm) scheduler) \<Rightarrow>
   ('d \<Rightarrow> ('cb, 'd, 'm) scheduler \<Rightarrow> ('cb, 'd, 'm) scheduler) \<Rightarrow> wait_result list \<Rightarrow>
   ('cb, 'd, 'm) scheduler \<Rightarrow> ExecuteResult option \<times> ('cb, 'd, 'm) scheduler" where
  "execute_while_loop condition run rund waits s =
     (if mInterrupted s then (Some Interrupted, s)
      else if \<not> condition s then (Some ConditionMet, s)
      else case waits of
        [] \<Rightarrow> (None, s)
      | Eintr # waits \<Rightarrow> execute_while_loop condition run rund waits s
      | Failed # waits \<Rightarrow> (Some Error, s)
      | Ready events # waits \<Rightarrow>
          execute_while_loop condition run rund waits (process_ready run rund events s))"

declare execute_while_loop.simps [simp del]

definition execute_while where
  "execute_while condition run rund waits s =
     (if mEpollFd s = -1 \<or> mInterruptFd s = -1 then (Some Error, s)
      else execute_while_loop condition run rund waits (process_deferred rund s))"

fun execute_once_loop ::
  "('cb \<Rightarrow> u32 \<Rightarrow> ('cb, 'd, 'm) scheduler \<Rightarrow> ('cb, 'd, 'm) scheduler) \<Rightarrow>
   ('d \<Rightarrow> ('cb, 'd, 'm) scheduler \<Rightarrow> ('cb, 'd, 'm) scheduler) \<Rightarrow> wait_result list \<Rightarrow>
   ('cb, 'd, 'm) scheduler \<Rightarrow> ExecuteResult option \<times> ('cb, 'd, 'm) scheduler" where
  "execute_once_loop run rund waits s =
     (if mInterrupted s then (Some Interrupted, s)
      else case waits of
        [] \<Rightarrow> (None, s)
      | Eintr # waits \<Rightarrow> execute_once_loop run rund waits s
      | Failed # waits \<Rightarrow> (Some Error, s)
      | Ready events # waits \<Rightarrow>
          (Some (if events \<noteq> [] then ConditionMet else NoWork), process_ready run rund events s))"

declare execute_once_loop.simps [simp del]

definition execute_once where
  "execute_once run rund waits s =
     (if mEpollFd s = -1 \<or> mInterruptFd s = -1 then (Some Error, s)
      else execute_once_loop run rund waits (process_deferred rund s))"

section \<open>Steps\<close>

text \<open>
  Everything a run of the program does to a scheduler: calls of its operations, the internal
  actions (an interrupt event, taking the deferred callbacks, freeing the slots) and changes
  of the program's own objects.  \<open>steps n r s t\<close>: from \<open>s\<close> to \<open>t\<close> with \<open>n\<close> registrations and
  \<open>r\<close> rounds of \<^verbatim>\<open>process_deferred\<close>.
\<close>

inductive steps ::
  "nat \<Rightarrow> nat \<Rightarrow> ('cb, 'd, 'm) scheduler \<Rightarrow> ('cb, 'd, 'm) scheduler \<Rightarrow> bool" where
  none: "steps 0 0 s s"
| reg: "steps n r s t \<Longrightarrow> steps (Suc n) r s (snd (register_fd ok fd i cb nm t))"
| unreg: "steps n r s t \<Longrightarrow> steps n r s (unregister ev t)"
| interests: "steps n r s t \<Longrightarrow> steps n r s (update_interests ev i t)"
| callback: "steps n r s t \<Longrightarrow> steps n r s (update_callback ev cb t)"
| deferring: "steps n r s t \<Longrightarrow> steps n r s (t\<lparr>mDeferredCallbacks := ds\<rparr>)"
| interrupting: "steps n r s t \<Longrightarrow> steps n r s (t\<lparr>mInterrupted := b\<rparr>)"
| reaping: "steps n r s t \<Longrightarrow> steps n (Suc r) s (reap_slots t)"
| other: "steps n r s t \<Longrightarrow> steps n r s (t\<lparr>program := m\<rparr>)"

lemma steps_trans:
  assumes "steps n r t u" and "steps n' r' s t"
  shows "steps (n' + n) (r' + r) s u"
  using assms
proof (induction rule: steps.induct)
  case (none s)
  then show ?case by simp
next
  case (reg n r s t ok fd i cb nm)
  then show ?case using steps.reg by simp
next
  case (reaping n r s t)
  then show ?case using steps.reaping by simp
qed (auto intro: steps.intros)

definition reaches :: "('cb, 'd, 'm) scheduler \<Rightarrow> ('cb, 'd, 'm) scheduler \<Rightarrow> bool" where
  "reaches s t \<longleftrightarrow> (\<exists>n r. steps n r s t)"

lemma reaches_refl [simp, intro]: "reaches s s"
  by (auto simp: reaches_def intro: steps.none)

lemma reaches_trans [trans]: "reaches s t \<Longrightarrow> reaches t u \<Longrightarrow> reaches s u"
  unfolding reaches_def using steps_trans by blast

section \<open>The invariant\<close>

definition slot_ok :: "'cb event_slot \<Rightarrow> bool" where
  "slot_ok slot \<longleftrightarrow>
     \<not> (slot_in_use slot \<and> slot_pending_free slot) \<and> (slot_in_use slot \<longrightarrow> slot_generation slot \<noteq> 0)"

definition in_use_count :: "'cb event_slot list \<Rightarrow> nat" where
  "in_use_count pool = length (filter slot_in_use pool)"

definition sched_ok :: "('cb, 'd, 'm) scheduler \<Rightarrow> bool" where
  "sched_ok s \<longleftrightarrow> length (mEventPool s) = MAX_EVENT_SLOTS \<and> list_all slot_ok (mEventPool s) \<and>
     mEpollCount s = int (in_use_count (mEventPool s))"

lemma in_use_count_update:
  assumes "i < length pool"
  shows "int (in_use_count (pool[i := slot])) =
    int (in_use_count pool) - (if slot_in_use (pool ! i) then 1 else 0)
      + (if slot_in_use slot then 1 else 0)"
  using assms
proof (induction pool arbitrary: i)
  case Nil
  then show ?case by simp
next
  case (Cons a pool)
  show ?case
  proof (cases i)
    case 0
    then show ?thesis by (simp add: in_use_count_def)
  next
    case (Suc j)
    then show ?thesis using Cons.IH [of j] Cons.prems by (auto simp: in_use_count_def split: if_splits)
  qed
qed

lemma free_slot_Some:
  "free_slot pool k = Some i \<Longrightarrow> k \<le> i \<and> i < k + length pool \<and>
     \<not> slot_in_use (pool ! (i - k)) \<and> \<not> slot_pending_free (pool ! (i - k))"
proof (induction pool k rule: free_slot.induct)
  case (2 slot pool i')
  then show ?case
    by (cases "i = i'") (auto simp: nth_Cons' split: if_splits)
qed simp

lemma free_slotD:
  assumes "free_slot pool 0 = Some i"
  shows "i < length pool" "\<not> slot_in_use (pool ! i)" "\<not> slot_pending_free (pool ! i)"
  using free_slot_Some [OF assms] by simp_all

lemma get_slot_Some:
  "get_slot s ev = Some i \<longleftrightarrow> ev_valid ev \<and> i = unat (ev_index ev) \<and> i < MAX_EVENT_SLOTS \<and>
     slot_in_use (mEventPool s ! i) \<and> slot_generation (mEventPool s ! i) = ev_generation ev"
  by (auto simp: get_slot_def Let_def not_le)

lemma next_generation_nonzero [simp]: "next_generation g \<noteq> 0"
  by (simp add: next_generation_def)

lemma list_all_update: "list_all P xs \<Longrightarrow> P x \<Longrightarrow> list_all P (xs[i := x])"
  unfolding list_all_length by (metis length_list_update nth_list_update_eq nth_list_update_neq)

text \<open>What one operation does to one slot.\<close>

lemma register_fd_slots:
  assumes "i < length (mEventPool s)"
  obtains "mEventPool (snd (register_fd ok fd ints cb nm s)) ! i = mEventPool s ! i"
  | slot where "mEventPool (snd (register_fd ok fd ints cb nm s)) ! i = slot"
      "\<not> slot_in_use (mEventPool s ! i)" "\<not> slot_pending_free (mEventPool s ! i)"
      "slot_generation slot = next_generation (slot_generation (mEventPool s ! i))"
      "\<not> slot_pending_free slot"
proof (cases "mEpollFd s = -1 \<or> mInterruptFd s = -1 \<or> free_slot (mEventPool s) 0 = None")
  case True
  then show thesis by (intro that(1)) (auto simp: register_fd_def)
next
  case False
  then obtain j where j: "free_slot (mEventPool s) 0 = Some j" by auto
  show thesis
  proof (cases "i = j")
    case True
    with False assms j show thesis
      by (intro that(2) [OF refl])
        (auto simp: register_fd_def set_slot_def epoll_ctl_def Let_def dest: free_slotD)
  next
    case diff: False
    with False j show thesis
      by (intro that(1)) (auto simp: register_fd_def set_slot_def epoll_ctl_def Let_def)
  qed
qed

lemma length_pool [simp]:
  "length (mEventPool (snd (register_fd ok fd ints cb nm s))) = length (mEventPool s)"
  "length (mEventPool (unregister ev s)) = length (mEventPool s)"
  "length (mEventPool (update_interests ev ints s)) = length (mEventPool s)"
  "length (mEventPool (update_callback ev cbo s)) = length (mEventPool s)"
  "length (mEventPool (reap_slots s)) = length (mEventPool s)"
  by (simp_all add: register_fd_def unregister_def update_interests_def update_callback_def
      reap_slots_def set_slot_def epoll_ctl_def Let_def split: option.split)

lemma unregister_slot:
  "i < length (mEventPool s) \<Longrightarrow> mEventPool (unregister ev s) ! i =
     (if mEpollFd s \<noteq> -1 \<and> mInterruptFd s \<noteq> -1 \<and> get_slot s ev = Some i
      then (mEventPool s ! i)\<lparr>slot_in_use := False, slot_pending_free := True\<rparr>
      else mEventPool s ! i)"
  by (auto simp: unregister_def set_slot_def epoll_ctl_def Let_def nth_list_update split: option.split)

lemma update_callback_slot:
  "i < length (mEventPool s) \<Longrightarrow> mEventPool (update_callback ev cb s) ! i =
     (if get_slot s ev = Some i then (mEventPool s ! i)\<lparr>slot_callback := cb\<rparr> else mEventPool s ! i)"
  by (auto simp: update_callback_def set_slot_def nth_list_update split: option.split)

lemma update_interests_pool [simp]: "mEventPool (update_interests ev ints s) = mEventPool s"
  by (simp add: update_interests_def epoll_ctl_def split: option.split)

section \<open>The invariant holds throughout\<close>

lemma sched_ok_new: "sched_ok (Scheduler_new e i m)"
  by (simp add: sched_ok_def Scheduler_new_def slot_ok_def EventSlot_def in_use_count_def list_all_length)

lemma sched_ok_set_slot:
  assumes "sched_ok s" and "i < MAX_EVENT_SLOTS" and "slot_ok slot"
    and "k = int (in_use_count (mEventPool s)) - (if slot_in_use (mEventPool s ! i) then 1 else 0)
        + (if slot_in_use slot then 1 else 0)"
  shows "sched_ok ((set_slot i slot s)\<lparr>mEpollCount := k\<rparr>)"
  using assms by (simp add: sched_ok_def set_slot_def list_all_update in_use_count_update)

lemma sched_ok_epoll_ctl [simp]: "sched_ok (epoll_ctl c s) = sched_ok s"
  by (simp add: sched_ok_def epoll_ctl_def)

lemma sched_ok_epoll_calls [simp]: "sched_ok (s\<lparr>epoll_calls := x\<rparr>) = sched_ok s"
  by (simp add: sched_ok_def)

lemma sched_ok_slot: "sched_ok s \<Longrightarrow> i < MAX_EVENT_SLOTS \<Longrightarrow> slot_ok (mEventPool s ! i)"
  by (simp add: sched_ok_def list_all_length)

lemma sched_ok_count: "sched_ok s \<Longrightarrow> mEpollCount s = int (in_use_count (mEventPool s))"
  by (simp add: sched_ok_def)

lemma sched_ok_register: "sched_ok s \<Longrightarrow> sched_ok (snd (register_fd ok fd ints cb nm s))"
proof -
  assume s: "sched_ok s"
  show ?thesis
  proof (cases "mEpollFd s = -1 \<or> mInterruptFd s = -1 \<or> free_slot (mEventPool s) 0 = None")
    case True
    then show ?thesis using s by (auto simp: register_fd_def)
  next
    case False
    then obtain i where i: "free_slot (mEventPool s) 0 = Some i" by auto
    note f = free_slotD [OF i]
    have "i < MAX_EVENT_SLOTS" using f s by (simp add: sched_ok_def)
    let ?c = "\<lambda>h. CtlAdd fd (interests_to_epoll ints) (encode_handle h)"
    have good: "sched_ok ((set_slot i slot (epoll_ctl c s))\<lparr>mEpollCount := mEpollCount s + 1\<rparr>)"
      if "slot_ok slot" "slot_in_use slot" for slot c
      using that s f \<open>i < MAX_EVENT_SLOTS\<close>
      by (intro sched_ok_set_slot) (simp_all add: sched_ok_count epoll_ctl_def)
    have bad: "sched_ok (set_slot i slot (epoll_ctl c s))"
      if "slot_ok slot" "\<not> slot_in_use slot" for slot c
    proof -
      have "sched_ok ((set_slot i slot (epoll_ctl c s))\<lparr>mEpollCount := mEpollCount s\<rparr>)"
        using that s f \<open>i < MAX_EVENT_SLOTS\<close>
        by (intro sched_ok_set_slot) (simp_all add: sched_ok_count epoll_ctl_def)
      moreover have "(set_slot i slot (epoll_ctl c s))\<lparr>mEpollCount := mEpollCount s\<rparr> =
          set_slot i slot (epoll_ctl c s)" by (simp add: set_slot_def epoll_ctl_def)
      ultimately show ?thesis by simp
    qed
    have e: "mEpollCount (epoll_ctl c s) = mEpollCount s" for c by (simp add: epoll_ctl_def)
    show ?thesis
      using False i f by (auto simp: register_fd_def Let_def slot_ok_def e intro!: good bad)
  qed
qed

lemma sched_ok_unregister: "sched_ok s \<Longrightarrow> sched_ok (unregister ev s)"
proof -
  assume s: "sched_ok s"
  show ?thesis
  proof (cases "mEpollFd s = -1 \<or> mInterruptFd s = -1 \<or> get_slot s ev = None")
    case True
    then show ?thesis using s by (auto simp: unregister_def)
  next
    case False
    then obtain i where i: "get_slot s ev = Some i" by auto
    then have "i < MAX_EVENT_SLOTS" "slot_in_use (mEventPool s ! i)" by (auto simp: get_slot_Some)
    then have "sched_ok ((set_slot i ((mEventPool s ! i)\<lparr>slot_in_use := False, slot_pending_free := True\<rparr>)
        (epoll_ctl (CtlDel (slot_fd (mEventPool s ! i))) s))\<lparr>mEpollCount := mEpollCount s - 1\<rparr>)"
      using s by (intro sched_ok_set_slot) (simp_all add: slot_ok_def sched_ok_count epoll_ctl_def)
    then show ?thesis
      using False i by (simp add: unregister_def Let_def set_slot_def epoll_ctl_def)
  qed
qed

lemma sched_ok_update_callback: "sched_ok s \<Longrightarrow> sched_ok (update_callback ev cb s)"
proof (cases "get_slot s ev")
  case (Some i)
  assume s: "sched_ok s"
  have i: "i < MAX_EVENT_SLOTS" "slot_in_use (mEventPool s ! i)" using Some by (auto simp: get_slot_Some)
  then have "sched_ok ((set_slot i ((mEventPool s ! i)\<lparr>slot_callback := cb\<rparr>) s)\<lparr>mEpollCount := mEpollCount s\<rparr>)"
    using s sched_ok_slot [OF s i(1)]
    by (intro sched_ok_set_slot) (simp_all add: slot_ok_def sched_ok_count)
  then show ?thesis by (simp add: update_callback_def Some set_slot_def)
qed (simp add: update_callback_def)

lemma sched_ok_reap: "sched_ok s \<Longrightarrow> sched_ok (reap_slots s)"
  by (auto simp: sched_ok_def reap_slots_def list_all_iff slot_ok_def reap_def in_use_count_def filter_map
      comp_def if_distrib cong: filter_cong if_cong)

lemma sched_ok_steps: "steps n r s t \<Longrightarrow> sched_ok s \<Longrightarrow> sched_ok t"
proof (induction rule: steps.induct)
  case (interests n r s t ev i)
  then show ?case
    by (auto simp: update_interests_def epoll_ctl_def sched_ok_def split: option.split)
qed (simp_all add: sched_ok_register sched_ok_unregister sched_ok_update_callback sched_ok_reap
      sched_ok_def [of "t\<lparr>mDeferredCallbacks := ds\<rparr>" for t ds]
      sched_ok_def [of "t\<lparr>mInterrupted := b\<rparr>" for t b] sched_ok_def [of "t\<lparr>program := m\<rparr>" for t m]
      flip: sched_ok_def)

lemma sched_ok_reaches: "reaches s t \<Longrightarrow> sched_ok s \<Longrightarrow> sched_ok t"
  using sched_ok_steps by (auto simp: reaches_def)

section \<open>What the loops do\<close>

text \<open>
  The interface to the objects that own callbacks: each callback, called on any scheduler, does
  nothing but operations of the scheduler and changes of the program.
\<close>

locale event_callbacks =
  fixes run :: "'cb \<Rightarrow> u32 \<Rightarrow> ('cb, 'd, 'm) scheduler \<Rightarrow> ('cb, 'd, 'm) scheduler"
    and rund :: "'d \<Rightarrow> ('cb, 'd, 'm) scheduler \<Rightarrow> ('cb, 'd, 'm) scheduler"
  assumes run_reaches: "reaches s (run cb i s)"
    and rund_reaches: "reaches s (rund d s)"
begin

lemma process_event_reaches: "reaches s (process_event run e s)"
proof -
  have "reaches s (s\<lparr>mInterrupted := True\<rparr>)"
    unfolding reaches_def by (blast intro: steps.interrupting steps.none)
  then show ?thesis
    by (auto simp: process_event_def run_reaches split: option.split)
qed

lemma fold_reaches: "(\<And>x s. reaches s (f x s)) \<Longrightarrow> reaches s (fold f xs s)"
  by (induction xs arbitrary: s) (auto intro: reaches_trans)

lemma process_deferred_reaches: "reaches s (process_deferred rund s)"
proof -
  have "reaches s (reap_slots s)"
    unfolding reaches_def by (blast intro: steps.reaping steps.none)
  also have "reaches (reap_slots s) ((reap_slots s)\<lparr>mDeferredCallbacks := []\<rparr>)"
    unfolding reaches_def by (blast intro: steps.deferring steps.none)
  also have "reaches \<dots> (process_deferred rund s)"
    by (simp add: process_deferred_def Let_def fold_reaches rund_reaches)
  finally show ?thesis .
qed

lemma process_ready_reaches: "reaches s (process_ready run rund events s)"
  unfolding process_ready_def
  by (rule reaches_trans [OF fold_reaches process_deferred_reaches]) (rule process_event_reaches)

lemma execute_loop_reaches: "reaches s (snd (execute_loop run rund waits s))"
proof (induction waits arbitrary: s)
  case Nil
  show ?case by (subst execute_loop.simps) simp
next
  case (Cons w waits)
  show ?case
    by (subst execute_loop.simps)
      (auto simp: Cons.IH intro: reaches_trans [OF process_ready_reaches Cons.IH] split: wait_result.split)
qed

lemma execute_while_loop_reaches: "reaches s (snd (execute_while_loop c run rund waits s))"
proof (induction waits arbitrary: s)
  case Nil
  show ?case by (subst execute_while_loop.simps) simp
next
  case (Cons w waits)
  show ?case
    by (subst execute_while_loop.simps)
      (auto simp: Cons.IH intro: reaches_trans [OF process_ready_reaches Cons.IH] split: wait_result.split)
qed

lemma execute_once_loop_reaches: "reaches s (snd (execute_once_loop run rund waits s))"
proof (induction waits arbitrary: s)
  case Nil
  show ?case by (subst execute_once_loop.simps) simp
next
  case (Cons w waits)
  show ?case
    by (subst execute_once_loop.simps)
      (auto simp: Cons.IH process_ready_reaches split: wait_result.split)
qed

lemma execute_reaches:
  "reaches s (snd (execute run rund waits s))"
  "reaches s (snd (execute_while c run rund waits s))"
  "reaches s (snd (execute_once run rund waits s))"
  by (auto simp: execute_def execute_while_def execute_once_def
      intro: reaches_trans [OF process_deferred_reaches]
        execute_loop_reaches execute_while_loop_reaches execute_once_loop_reaches)

lemma execute_ok:
  assumes "sched_ok s"
  shows "sched_ok (snd (execute run rund waits s))"
    and "sched_ok (snd (execute_while c run rund waits s))"
    and "sched_ok (snd (execute_once run rund waits s))"
  using assms sched_ok_reaches execute_reaches by blast+

text \<open>\<open>execute\<close> gives up for lack of work only when no slot is in use.\<close>

lemma execute_loop_NoWork:
  "fst (execute_loop run rund waits s) = Some NoWork \<Longrightarrow> sched_ok s \<Longrightarrow>
     in_use_count (mEventPool (snd (execute_loop run rund waits s))) = 0"
proof (induction waits arbitrary: s)
  case Nil
  then show ?case
    by (subst (asm) execute_loop.simps, subst execute_loop.simps)
      (auto simp: sched_ok_count split: if_splits)
next
  case (Cons w waits)
  note ok = sched_ok_reaches [OF process_ready_reaches]
  show ?case
  proof (cases "mEpollCount s = 0 \<or> mInterrupted s")
    case True
    then show ?thesis using Cons.prems
      by (subst (asm) execute_loop.simps, subst execute_loop.simps)
        (auto simp: sched_ok_count split: if_splits)
  next
    case False
    then have e: "execute_loop run rund (w # waits) s = (case w of
        Eintr \<Rightarrow> execute_loop run rund waits s | Failed \<Rightarrow> (Some Error, s)
      | Ready events \<Rightarrow> execute_loop run rund waits (process_ready run rund events s))"
      by (subst execute_loop.simps) (simp split: wait_result.split)
    show ?thesis
      by (cases w) (use e Cons.prems in \<open>auto intro!: Cons.IH ok\<close>)
  qed
qed

end

text \<open>
  What the callbacks keep, the event loop keeps, when freeing slots, taking the deferred callbacks and
  an interrupt keep it as well.
\<close>

locale loop_invariant =
  fixes run :: "'cb \<Rightarrow> u32 \<Rightarrow> ('cb, 'd, 'm) scheduler \<Rightarrow> ('cb, 'd, 'm) scheduler"
    and rund :: "'d \<Rightarrow> ('cb, 'd, 'm) scheduler \<Rightarrow> ('cb, 'd, 'm) scheduler"
    and inv :: "('cb, 'd, 'm) scheduler \<Rightarrow> bool"
  assumes run_inv: "inv s \<Longrightarrow> inv (run cb i s)"
    and rund_inv: "inv s \<Longrightarrow> inv (rund d s)"
    and interrupted_inv: "inv s \<Longrightarrow> inv (s\<lparr>mInterrupted := True\<rparr>)"
    and reaped_inv: "inv s \<Longrightarrow> inv ((reap_slots s)\<lparr>mDeferredCallbacks := []\<rparr>)"
begin

lemma process_event_inv: "inv s \<Longrightarrow> inv (process_event run e s)"
  by (auto simp: process_event_def run_inv interrupted_inv split: option.split)

lemma fold_inv: "(\<And>x s. inv s \<Longrightarrow> inv (f x s)) \<Longrightarrow> inv s \<Longrightarrow> inv (fold f xs s)"
  by (induction xs arbitrary: s) auto

lemma process_deferred_inv: "inv s \<Longrightarrow> inv (process_deferred rund s)"
  by (simp add: process_deferred_def Let_def fold_inv rund_inv reaped_inv)

lemma process_ready_inv: "inv s \<Longrightarrow> inv (process_ready run rund events s)"
  unfolding process_ready_def by (intro process_deferred_inv fold_inv process_event_inv)

lemma loops_inv:
  assumes "inv s"
  shows "inv (snd (execute_loop run rund waits s))" and "inv (snd (execute_while_loop c run rund waits s))"
    and "inv (snd (execute_once_loop run rund waits s))"
proof -
  show "inv (snd (execute_loop run rund waits s))" using assms
    by (induction waits arbitrary: s) (subst execute_loop.simps, auto simp: process_ready_inv split: wait_result.split)+
  show "inv (snd (execute_while_loop c run rund waits s))" using assms
    by (induction waits arbitrary: s) (subst execute_while_loop.simps, auto simp: process_ready_inv split: wait_result.split)+
  show "inv (snd (execute_once_loop run rund waits s))" using assms
    by (induction waits arbitrary: s) (subst execute_once_loop.simps, auto simp: process_ready_inv split: wait_result.split)+
qed

lemma execute_inv:
  assumes "inv s"
  shows "inv (snd (execute run rund waits s))" and "inv (snd (execute_while c run rund waits s))"
    and "inv (snd (execute_once run rund waits s))"
  using assms by (simp_all add: execute_def execute_while_def execute_once_def loops_inv process_deferred_inv)

end

section \<open>Handles\<close>

lemma decode_encode_handle [simp]: "decode_handle (encode_handle h) = h"
proof (cases h)
  case (ScheduledEvent i g)
  show ?thesis
    unfolding ScheduledEvent decode_handle_def encode_handle_def
    by (auto intro!: bit_word_eqI simp: bit_simps impossible_bit)
qed

lemma interests_roundtrip:
  assumes "i AND 0xF = i"
  shows "epoll_to_interests (interests_to_epoll i) = i"
proof -
  have "unat i < 16"
  proof -
    have "i AND 0xF \<le> 0xF" by (rule word_and_le1)
    then have "i \<le> 0xF" using assms by simp
    then show ?thesis by (simp add: word_le_nat_alt)
  qed
  then have "unat i \<in> set [0..<16]" by simp
  moreover have "i = of_nat (unat i)" by simp
  ultimately obtain n where "i = of_nat n" "n \<in> set [0..<16]" by blast
  then show ?thesis
    by (auto simp: upt_rec interests_to_epoll_def epoll_to_interests_def interest_defs epoll_defs
        has_interest_def Let_def)
qed

section \<open>Stale handles\<close>

text \<open>The generations of a slot run through \<open>1, \<dots>, 65535\<close> and start again.\<close>

lemma next_generation_power:
  assumes "g \<noteq> 0"
  shows "unat ((next_generation ^^ k) g) = (unat g - 1 + k) mod 65535 + 1"
proof (induction k)
  case 0
  have "0 < unat g" "unat g < 65536"
    using assms unsigned_less [of g] by (simp_all add: unat_gt_0)
  then show ?case by simp
next
  case (Suc k)
  let ?h = "(next_generation ^^ k) g" and ?m = "unat g - 1 + k"
  have h: "unat ?h = ?m mod 65535 + 1" by (rule Suc)
  show ?case
  proof (cases "?m mod 65535 = 65534")
    case True
    then have "?h = 65535" using h by (simp add: word_unat_eq_iff)
    then have "next_generation ?h = 1" by (simp add: next_generation_def)
    moreover have "Suc ?m mod 65535 = 0" using True by (simp add: mod_Suc)
    ultimately show ?thesis by simp
  next
    case False
    then have "?m mod 65535 + 1 < 65535" using mod_less_divisor [of 65535 ?m] by linarith
    then have lt: "unat ?h + 1 < 65536" using h by simp
    then have "unat (?h + 1) = unat ?h + 1" by (simp add: unat_word_ariths)
    moreover from this have "?h + 1 \<noteq> 0" by (metis add_is_0 one_neq_zero unat_0)
    ultimately have "unat (next_generation ?h) = unat ?h + 1"
      by (simp add: next_generation_def)
    moreover have "Suc ?m mod 65535 = Suc (?m mod 65535)" using False by (simp add: mod_Suc)
    ultimately show ?thesis using h by simp
  qed
qed

lemma next_generation_fresh:
  assumes "g \<noteq> 0" and "0 < k" and "k < 65535"
  shows "(next_generation ^^ k) g \<noteq> g"
proof
  assume eq: "(next_generation ^^ k) g = g"
  have "(unat g - 1 + k) mod 65535 + 1 = unat g"
    by (simp only: next_generation_power [OF assms(1), symmetric] eq)
  moreover have "0 < unat g" "unat g < 65536"
    using assms(1) unsigned_less [of g] by (simp_all add: unat_gt_0)
  ultimately have "(unat g - 1 + k) mod 65535 = unat g - 1" "unat g - 1 < 65535" by linarith+
  then obtain a where a: "(a + k) mod 65535 = a" "a < 65535" by blast
  show False
  proof (cases "a + k < 65535")
    case True
    then show False using a assms(2) by simp
  next
    case False
    then have "(a + k) mod 65535 = a + k - 65535" using a assms(3) by (simp add: le_mod_geq)
    then show False using a assms(3) False by linarith
  qed
qed

definition gone :: "u16 \<Rightarrow> nat \<Rightarrow> 'cb event_slot \<Rightarrow> bool" where
  "gone g n slot \<longleftrightarrow> (\<exists>k \<le> n. slot_generation slot = (next_generation ^^ k) g \<and>
     (k = 0 \<longrightarrow> \<not> slot_in_use slot))"

lemma steps_length: "steps n r s t \<Longrightarrow> length (mEventPool t) = length (mEventPool s)"
  by (induction rule: steps.induct) simp_all

lemma gone_steps:
  assumes "steps n r s t" and "gone g 0 (mEventPool s ! i)" and "i < length (mEventPool s)"
  shows "gone g n (mEventPool t ! i)"
  using assms
proof (induction rule: steps.induct)
  case (reg n r s t ok fd ints cb nm)
  have l: "i < length (mEventPool t)" using reg steps_length by metis
  have g: "gone g n (mEventPool t ! i)" using reg by simp
  show ?case
    using l
  proof (cases rule: register_fd_slots [of i t ok fd ints cb nm])
    case 1
    then show ?thesis using g by (auto simp: gone_def intro: le_SucI)
  next
    case (2 slot)
    from g obtain k where k: "k \<le> n" "slot_generation (mEventPool t ! i) = (next_generation ^^ k) g"
      by (auto simp: gone_def)
    then show ?thesis using 2 by (auto simp: gone_def intro!: exI [of _ "Suc k"])
  qed
next
  case (unreg n r s t ev)
  then have "i < length (mEventPool t)" by (simp add: steps_length)
  then show ?case using unreg by (auto simp: unregister_slot gone_def)
next
  case (callback n r s t ev cb)
  then have "i < length (mEventPool t)" by (simp add: steps_length)
  then show ?case using callback by (auto simp: update_callback_slot gone_def)
next
  case (reaping n r s t)
  then have "i < length (mEventPool t)" by (simp add: steps_length)
  then show ?case using reaping by (auto simp: reap_slots_def reap_def gone_def)
qed simp_all

lemma unregistered_slot:
  assumes "sched_ok s" and "get_slot s h = Some i" and "mEpollFd s \<noteq> -1" and "mInterruptFd s \<noteq> -1"
  shows "i < length (mEventPool s)" and "ev_generation h \<noteq> 0"
    and "mEventPool (unregister h s) ! i =
      (mEventPool s ! i)\<lparr>slot_in_use := False, slot_pending_free := True\<rparr>"
proof -
  have i: "i < MAX_EVENT_SLOTS" "slot_in_use (mEventPool s ! i)"
      "slot_generation (mEventPool s ! i) = ev_generation h"
    using assms(2) by (auto simp: get_slot_Some)
  show l: "i < length (mEventPool s)" using assms(1) i by (simp add: sched_ok_def)
  show "ev_generation h \<noteq> 0" using sched_ok_slot [OF assms(1) i(1)] i by (auto simp: slot_ok_def)
  show "mEventPool (unregister h s) ! i =
      (mEventPool s ! i)\<lparr>slot_in_use := False, slot_pending_free := True\<rparr>"
    using assms l by (simp add: unregister_slot)
qed

lemma stale_get_slot:
  assumes "sched_ok s" and "get_slot s h = Some i" and "mEpollFd s \<noteq> -1" and "mInterruptFd s \<noteq> -1"
    and "steps n r (unregister h s) t" and "n < 65535"
  shows "get_slot t h = None"
proof (rule ccontr)
  note u = unregistered_slot [OF assms(1-4)]
  assume "get_slot t h \<noteq> None"
  then obtain j where j: "get_slot t h = Some j" by blast
  then have "j = i" using assms(2) by (simp add: get_slot_Some)
  then have live: "slot_in_use (mEventPool t ! i)" "slot_generation (mEventPool t ! i) = ev_generation h"
    using j by (auto simp: get_slot_Some)
  have "slot_generation (mEventPool s ! i) = ev_generation h" using assms(2) by (auto simp: get_slot_Some)
  then have "gone (ev_generation h) 0 (mEventPool (unregister h s) ! i)"
    using u(3) by (simp add: gone_def)
  from gone_steps [OF assms(5) this] u(1)
  obtain k where "k \<le> n" "ev_generation h = (next_generation ^^ k) (ev_generation h)" "k \<noteq> 0"
    using live by (auto simp: gone_def)
  then show False using next_generation_fresh [OF u(2), of k] assms(6) by simp
qed

text \<open>C33: once a handle has been unregistered, an event that carries it runs no callback, however
  the scheduler is used in between: as long as fewer than 65535 registrations follow, the handle
  names no slot, and processing the event changes nothing (or only sets the interrupt flag,
  should its low 32 bits be the interrupt descriptor).\<close>

theorem stale_event_ignored:
  assumes "sched_ok s" and "get_slot s h = Some i" and "mEpollFd s \<noteq> -1" and "mInterruptFd s \<noteq> -1"
    and "steps n r (unregister h s) t" and "n < 65535"
  shows "get_slot t h = None \<and>
    (process_event run (e, encode_handle h) t = t \<or>
     process_event run (e, encode_handle h) t = t\<lparr>mInterrupted := True\<rparr>)"
  using stale_get_slot [OF assms] by (simp add: process_event_def)

lemma first_registration:
  fixes m :: 'm and cb :: 'cb
  defines "s \<equiv> snd (register_fd True 5 EventInterest_Read (Some cb) [] (Scheduler_new 3 4 m
    :: ('cb, 'd, 'm) scheduler))"
  shows "sched_ok s" and "get_slot s (ScheduledEvent 0 1) = Some 0" and "mEpollFd s \<noteq> -1"
    and "mInterruptFd s \<noteq> -1" and "mInterruptFd s = 4" and "program s = m"
    and "slot_callback (mEventPool s ! 0) = Some cb"
proof -
  have f: "free_slot (replicate MAX_EVENT_SLOTS (EventSlot :: 'cb event_slot)) 0 = Some 0"
    by (simp add: MAX_EVENT_SLOTS_def numeral_eq_Suc EventSlot_def)
  note f' = f [unfolded EventSlot_def MAX_EVENT_SLOTS_def]
  show "sched_ok s" by (simp add: s_def sched_ok_register sched_ok_new)
  show "get_slot s (ScheduledEvent 0 1) = Some 0"
 using f' by (simp add: s_def register_fd_def Scheduler_new_def set_slot_def epoll_ctl_def Let_def
        get_slot_Some ev_valid_def MAX_EVENT_SLOTS_def next_generation_def EventSlot_def)
  show "mEpollFd s \<noteq> -1" "mInterruptFd s \<noteq> -1" "mInterruptFd s = 4" "program s = m"
    using f by (simp_all add: s_def register_fd_def Scheduler_new_def set_slot_def epoll_ctl_def Let_def)
  show "slot_callback (mEventPool s ! 0) = Some cb"
    using f' by (simp add: s_def register_fd_def Scheduler_new_def set_slot_def epoll_ctl_def Let_def
        MAX_EVENT_SLOTS_def EventSlot_def)
qed

theorem stale_event_ignored_witness:
  "let s = snd (register_fd True 5 EventInterest_Read (Some ()) [] (Scheduler_new 3 4 ()
       :: (unit, unit, unit) scheduler));
       t = snd (register_fd True 6 EventInterest_Read (Some ()) [] (unregister (ScheduledEvent 0 1) s))
   in get_slot t (ScheduledEvent 0 1) = None"
  unfolding Let_def
  by (rule conjunct1 [OF stale_event_ignored [OF first_registration(1-4) steps.reg [OF steps.none]]]) simp

section \<open>Slots are not reused too early\<close>

lemma pending_steps:
  assumes "steps n r s t" and "r = 0" and "slot_pending_free (mEventPool s ! i)"
    and "\<not> slot_in_use (mEventPool s ! i)" and "i < length (mEventPool s)"
  shows "mEventPool t ! i = mEventPool s ! i"
  using assms
proof (induction rule: steps.induct)
  case (reg n r s t ok fd ints cb nm)
  then have "i < length (mEventPool t)" by (simp add: steps_length)
  then show ?case
    by (cases rule: register_fd_slots [of i t ok fd ints cb nm]) (use reg in auto)
next
  case (unreg n r s t ev)
  then have "i < length (mEventPool t)" by (simp add: steps_length)
  then show ?case using unreg by (auto simp: unregister_slot get_slot_Some)
next
  case (callback n r s t ev cb)
  then have "i < length (mEventPool t)" by (simp add: steps_length)
  then show ?case using callback by (auto simp: update_callback_slot get_slot_Some)
qed simp_all

text \<open>A callback survives its own removal.  After \<^verbatim>\<open>unregister\<close> the slot (with the
  callback, which may be the one that is running) stays exactly as it is, whatever is registered,
  unregistered or updated, until \<^verbatim>\<open>process_deferred\<close> runs the next time.\<close>

theorem unregistered_slot_kept:
  assumes "sched_ok s" and "get_slot s h = Some i" and "mEpollFd s \<noteq> -1" and "mInterruptFd s \<noteq> -1"
    and "steps n 0 (unregister h s) t"
  shows "mEventPool t ! i =
    (mEventPool s ! i)\<lparr>slot_in_use := False, slot_pending_free := True\<rparr>"
proof -
  note u = unregistered_slot [OF assms(1-4)]
  have "mEventPool t ! i = mEventPool (unregister h s) ! i"
    using u by (intro pending_steps [OF assms(5)]) simp_all
  then show ?thesis using u by simp
qed

theorem unregistered_slot_kept_witness:
  "let s = snd (register_fd True 5 EventInterest_Read (Some ()) [] (Scheduler_new 3 4 ()
       :: (unit, unit, unit) scheduler));
       t = snd (register_fd True 6 EventInterest_Read (Some ()) [] (unregister (ScheduledEvent 0 1) s))
   in mEventPool t ! 0 = (mEventPool s ! 0)\<lparr>slot_in_use := False, slot_pending_free := True\<rparr>"
  unfolding Let_def
  by (rule unregistered_slot_kept [OF first_registration(1-4) steps.reg [OF steps.none]])

end
