(* ===== verification/Timers.thy ===== *)
theory Timers
  imports Scheduler
begin

text \<open>
  The timers on top of the event loop (dependency/scheduler/timeout.cpp, periodic.cpp): one-shot
  timeouts, timeouts that can be restarted, and periodic tasks.  The tasks are numbered; the
  program state of the scheduler maps a number to its task.  What a user's callback does is a
  list of commands, so that the event loop with all its callbacks is a closed model.  A timer
  descriptor is the setting that the kernel was given last, in nanoseconds; the current
  scheduler is the one the functions act on.
\<close>

section \<open>Timers\<close>

text \<open>\<open>timer_setting\<close>: the value and the interval of \<^verbatim>\<open>timerfd_settime\<close>, zero for a timer that is disarmed.\<close>

record timer =
  mDuration :: int
  mTimerFd :: int
  timer_setting :: "int \<times> int"

text \<open>
  \<^verbatim>\<open>arm\<close> splits the duration into seconds and nanoseconds; both are zero exactly for a
  duration of zero.
\<close>

definition arm :: "bool \<Rightarrow> timer \<Rightarrow> timer" where
  "arm repeat t =
     (if mTimerFd t < 0 then t
      else t\<lparr>timer_setting :=
        (if mDuration t = 0 then 1 else mDuration t, if repeat then mDuration t else 0)\<rparr>)"

definition disarm :: "timer \<Rightarrow> timer" where
  "disarm t = (if mTimerFd t < 0 then t else t\<lparr>timer_setting := (0, 0)\<rparr>)"

section \<open>Tasks\<close>

datatype timer_event = TimeoutEvent nat | RepeatableEvent nat | PeriodicEvent nat

datatype timer_deferred = CancelTimeout nat

datatype command =
    ScheduleRepeatable bool nat | CancelRepeatable nat | RestartRepeatable bool nat
  | ScheduleTimeout bool nat | StopTimeout nat
  | SchedulePeriodic bool nat | CancelPeriodic nat
  | RegisterFd bool int u32 "timer_event option" string | UnregisterEvent ScheduledEvent
  | Interrupt | Compute

record timed_task =
  mTimer :: timer
  mEvent :: ScheduledEvent
  mCallback :: "command list option"
  callback_runs :: nat

type_synonym timer_scheduler = "(timer_event, timer_deferred, nat \<Rightarrow> timed_task) scheduler"

definition update_task :: "nat \<Rightarrow> (timed_task \<Rightarrow> timed_task) \<Rightarrow> timer_scheduler \<Rightarrow> timer_scheduler" where
  "update_task k f s = s\<lparr>program := (program s)(k := f (program s k))\<rparr>"

text \<open>\<^verbatim>\<open>ScheduledEvent::unregister\<close> on the event of a task.\<close>

definition unregister_task :: "nat \<Rightarrow> timer_scheduler \<Rightarrow> timer_scheduler" where
  "unregister_task k s =
     (let ev = mEvent (program s k)
      in if ev_valid ev
         then update_task k (\<lambda>t. t\<lparr>mEvent := ScheduledEvent 0xFFFF (ev_generation ev)\<rparr>) (unregister ev s)
         else s)"

definition arm_task :: "bool \<Rightarrow> nat \<Rightarrow> timer_scheduler \<Rightarrow> timer_scheduler" where
  "arm_task repeat k = update_task k (\<lambda>t. t\<lparr>mTimer := arm repeat (mTimer t)\<rparr>)"

definition disarm_task :: "nat \<Rightarrow> timer_scheduler \<Rightarrow> timer_scheduler" where
  "disarm_task k = update_task k (\<lambda>t. t\<lparr>mTimer := disarm (mTimer t)\<rparr>)"

definition register_task :: "bool \<Rightarrow> nat \<Rightarrow> timer_event \<Rightarrow> string \<Rightarrow> timer_scheduler \<Rightarrow> timer_scheduler" where
  "register_task ok k cb nm s =
     (let (ev, s) = register_fd ok (mTimerFd (mTimer (program s k))) EventInterest_Read (Some cb) nm s
      in update_task k (\<lambda>t. t\<lparr>mEvent := ev\<rparr>) s)"

definition timeout_schedule :: "bool \<Rightarrow> nat \<Rightarrow> timer_scheduler \<Rightarrow> timer_scheduler" where
  "timeout_schedule ok k s =
     (if ev_valid (mEvent (program s k)) \<or> mTimerFd (mTimer (program s k)) < 0 then s
      else register_task ok k (TimeoutEvent k) ''timeout'' (arm_task False k s))"

definition timeout_cancel :: "nat \<Rightarrow> timer_scheduler \<Rightarrow> timer_scheduler" where
  "timeout_cancel k s = disarm_task k (unregister_task k s)"

definition repeatable_schedule :: "bool \<Rightarrow> nat \<Rightarrow> timer_scheduler \<Rightarrow> timer_scheduler" where
  "repeatable_schedule ok k s =
     (if ev_valid (mEvent (program s k)) \<or> mTimerFd (mTimer (program s k)) < 0 then s
      else register_task ok k (RepeatableEvent k) ''repeatable-timeout'' (arm_task False k s))"

definition repeatable_cancel :: "nat \<Rightarrow> timer_scheduler \<Rightarrow> timer_scheduler" where
  "repeatable_cancel k s = disarm_task k (unregister_task k s)"

definition repeatable_restart :: "bool \<Rightarrow> nat \<Rightarrow> timer_scheduler \<Rightarrow> timer_scheduler" where
  "repeatable_restart ok k s =
     (if ev_valid (mEvent (program s k)) then arm_task False k s else repeatable_schedule ok k s)"

definition periodic_schedule :: "bool \<Rightarrow> nat \<Rightarrow> timer_scheduler \<Rightarrow> bool \<times> timer_scheduler" where
  "periodic_schedule ok k s =
     (if ev_valid (mEvent (program s k)) then (False, s)
      else if mTimerFd (mTimer (program s k)) < 0 then (False, s)
      else
        let s = register_task ok k (PeriodicEvent k) ''periodic'' (arm_task True k s)
        in if ev_valid (mEvent (program s k)) then (True, s) else (False, disarm_task k s))"

definition periodic_cancel :: "nat \<Rightarrow> timer_scheduler \<Rightarrow> bool \<times> timer_scheduler" where
  "periodic_cancel k s =
     (if \<not> ev_valid (mEvent (program s k)) then (False, s)
      else (True, disarm_task k (unregister_task k s)))"

section \<open>Callbacks\<close>

fun run_command :: "command \<Rightarrow> timer_scheduler \<Rightarrow> timer_scheduler" where
  "run_command (ScheduleRepeatable ok k) s = repeatable_schedule ok k s"
| "run_command (CancelRepeatable k) s = repeatable_cancel k s"
| "run_command (RestartRepeatable ok k) s = repeatable_restart ok k s"
| "run_command (ScheduleTimeout ok k) s = timeout_schedule ok k s"
| "run_command (StopTimeout k) s = timeout_cancel k s"
| "run_command (SchedulePeriodic ok k) s = snd (periodic_schedule ok k s)"
| "run_command (CancelPeriodic k) s = snd (periodic_cancel k s)"
| "run_command (RegisterFd ok fd i cb nm) s = snd (register_fd ok fd i cb nm s)"
| "run_command (UnregisterEvent ev) s = unregister ev s"
| "run_command Interrupt s = interrupt s"
| "run_command Compute s = s"

definition call_user :: "nat \<Rightarrow> timer_scheduler \<Rightarrow> timer_scheduler" where
  "call_user k s =
     (case mCallback (program s k) of None \<Rightarrow> s
      | Some commands \<Rightarrow> fold run_command commands
          (update_task k (\<lambda>t. t\<lparr>callback_runs := callback_runs t + 1\<rparr>) s))"

text \<open>The read of the expirations empties the descriptor; it has no other effect here.\<close>

fun run_timer :: "timer_event \<Rightarrow> u32 \<Rightarrow> timer_scheduler \<Rightarrow> timer_scheduler" where
  "run_timer (TimeoutEvent k) triggered s =
     (if \<not> has_interest triggered EventInterest_Read then s
      else sched_defer (CancelTimeout k) (call_user k s))"
| "run_timer (RepeatableEvent k) triggered s =
     (if \<not> has_interest triggered EventInterest_Read then s else call_user k s)"
| "run_timer (PeriodicEvent k) triggered s =
     (if \<not> has_interest triggered EventInterest_Read then s else call_user k s)"

fun run_timer_deferred :: "timer_deferred \<Rightarrow> timer_scheduler \<Rightarrow> timer_scheduler" where
  "run_timer_deferred (CancelTimeout k) s = timeout_cancel k s"

section \<open>The callbacks keep to the interface\<close>

lemma reaches_operations [intro]:
  assumes "reaches s t"
  shows "reaches s (snd (register_fd ok fd i cb nm t))" and "reaches s (unregister ev t)"
    and "reaches s (t\<lparr>mInterrupted := b\<rparr>)" and "reaches s (t\<lparr>mDeferredCallbacks := ds\<rparr>)"
    and "reaches s (t\<lparr>program := m\<rparr>)"
  using assms unfolding reaches_def by (blast intro: steps.intros)+

lemma reaches_update_task [intro]: "reaches s t \<Longrightarrow> reaches s (update_task k f t)"
  by (auto simp: update_task_def)

lemma reaches_arm [intro]:
  "reaches s t \<Longrightarrow> reaches s (arm_task b k t)" "reaches s t \<Longrightarrow> reaches s (disarm_task k t)"
  by (auto simp: arm_task_def disarm_task_def)

lemma reaches_unregister_task [intro]: "reaches s t \<Longrightarrow> reaches s (unregister_task k t)"
  by (auto simp: unregister_task_def Let_def)

lemma register_task_eq:
  "register_task ok k cb nm s =
     (let r = register_fd ok (mTimerFd (mTimer (program s k))) EventInterest_Read (Some cb) nm s
      in update_task k (\<lambda>t. t\<lparr>mEvent := fst r\<rparr>) (snd r))"
  by (simp add: register_task_def Let_def split: prod.split)

lemma reaches_register_task [intro]: "reaches s t \<Longrightarrow> reaches s (register_task ok k cb nm t)"
  by (auto simp: register_task_eq Let_def)

lemma reaches_tasks [intro]:
  assumes "reaches s t"
  shows "reaches s (timeout_schedule ok k t)" and "reaches s (timeout_cancel k t)"
    and "reaches s (repeatable_schedule ok k t)" and "reaches s (repeatable_cancel k t)"
    and "reaches s (repeatable_restart ok k t)"
    and "reaches s (snd (periodic_schedule ok k t))" and "reaches s (snd (periodic_cancel k t))"
  using assms
  unfolding timeout_schedule_def timeout_cancel_def repeatable_schedule_def repeatable_cancel_def
    repeatable_restart_def periodic_schedule_def periodic_cancel_def Let_def
  by auto

lemma reaches_command: "reaches s t \<Longrightarrow> reaches s (run_command c t)"
  by (cases c) (auto simp: interrupt_def)

lemma reaches_commands: "reaches s t \<Longrightarrow> reaches s (fold run_command cs t)"
  by (induction cs arbitrary: t) (auto intro: reaches_command)

lemma reaches_call_user [intro]: "reaches s t \<Longrightarrow> reaches s (call_user k t)"
  by (auto simp: call_user_def intro: reaches_commands split: option.split)

interpretation timers: event_callbacks run_timer run_timer_deferred
proof
  show "reaches s (run_timer cb i s)" for cb i s
    by (cases cb) (auto simp: sched_defer_def)
  show "reaches s (run_timer_deferred d s)" for d s
    by (cases d) auto
qed

text \<open>C34: the bookkeeping of the event loop is right whatever the system calls return and
  whatever the callbacks of the timers do: there are always 256 slots, a slot is never in use and
  waiting to be freed at once, a slot in use has a generation other than zero, and
  \<^verbatim>\<open>mEpollCount\<close> is the number of slots in use, so \<^verbatim>\<open>execute\<close> reports no work only
  when nothing is registered.\<close>

theorem event_loop_invariant:
  assumes "sched_ok s"
  shows "sched_ok (snd (execute run_timer run_timer_deferred waits s)) \<and>
    sched_ok (snd (execute_while condition run_timer run_timer_deferred waits s)) \<and>
    sched_ok (snd (execute_once run_timer run_timer_deferred waits s)) \<and>
    (fst (execute run_timer run_timer_deferred waits s) = Some NoWork \<longrightarrow>
     in_use_count (mEventPool (snd (execute run_timer run_timer_deferred waits s))) = 0)"
proof (intro conjI)
  show "fst (execute run_timer run_timer_deferred waits s) = Some NoWork \<longrightarrow>
     in_use_count (mEventPool (snd (execute run_timer run_timer_deferred waits s))) = 0"
    using timers.execute_loop_NoWork [OF _ sched_ok_reaches [OF timers.process_deferred_reaches assms]]
    by (auto simp: execute_def)
qed (use assms in \<open>rule timers.execute_ok\<close>)+

theorem event_loop_invariant_witness:
  "sched_ok (snd (execute run_timer run_timer_deferred [Eintr, Ready [(EPOLLIN, 65536)], Failed]
     (snd (register_fd True 5 EventInterest_Read (Some (TimeoutEvent 0)) [] (Scheduler_new 3 4
       (\<lambda>_. \<lparr>mTimer = \<lparr>mDuration = 1, mTimerFd = 5, timer_setting = (1, 0)\<rparr>,
          mEvent = ScheduledEvent 0 1, mCallback = Some [RestartRepeatable True 1], callback_runs = 0\<rparr>))))))"
  using event_loop_invariant [OF first_registration(1)] by blast

section \<open>A timeout fires once\<close>

lemma unregister_program [simp]: "program (unregister ev s) = program s"
  by (simp add: unregister_def Let_def set_slot_def epoll_ctl_def split: option.split)

lemma timeout_cancel_task:
  "\<not> ev_valid (mEvent (program (timeout_cancel k s) k))"
  "mTimerFd (mTimer (program s k)) \<ge> 0 \<Longrightarrow> timer_setting (mTimer (program (timeout_cancel k s) k)) = (0, 0)"
  by (simp_all add: timeout_cancel_def disarm_task_def unregister_task_def update_task_def disarm_def
      ev_valid_def Let_def)

definition timer_fds :: "timer_scheduler \<Rightarrow> nat \<Rightarrow> int" where
  "timer_fds s k = mTimerFd (mTimer (program s k))"

lemma register_program [simp]: "program (snd (register_fd ok fd i cb nm s)) = program s"
  by (simp add: register_fd_def Let_def set_slot_def epoll_ctl_def split: option.split)

lemma timer_fds_simps [simp]:
  "timer_fds (s\<lparr>mInterrupted := b\<rparr>) = timer_fds s" "timer_fds (s\<lparr>mDeferredCallbacks := ds\<rparr>) = timer_fds s"
  "timer_fds (unregister ev s) = timer_fds s" "timer_fds (snd (register_fd ok fd i cb nm s)) = timer_fds s"
  "timer_fds (reap_slots s) = timer_fds s"
  by (simp_all add: timer_fds_def fun_eq_iff reap_slots_def)

lemma timer_fds_update:
  "(\<And>t. mTimerFd (mTimer (f t)) = mTimerFd (mTimer t)) \<Longrightarrow> timer_fds (update_task k f s) = timer_fds s"
  by (simp add: timer_fds_def fun_eq_iff update_task_def)

lemma timer_fds_arm [simp]:
  "timer_fds (arm_task b k s) = timer_fds s" "timer_fds (disarm_task k s) = timer_fds s"
  "timer_fds (unregister_task k s) = timer_fds s" "timer_fds (register_task ok k cb nm s) = timer_fds s"
  by (simp_all add: arm_task_def disarm_task_def unregister_task_def register_task_eq Let_def
      timer_fds_update arm_def disarm_def)

lemma timer_fds_tasks [simp]:
  "timer_fds (timeout_schedule ok k s) = timer_fds s" "timer_fds (timeout_cancel k s) = timer_fds s"
  "timer_fds (repeatable_schedule ok k s) = timer_fds s" "timer_fds (repeatable_cancel k s) = timer_fds s"
  "timer_fds (repeatable_restart ok k s) = timer_fds s"
  "timer_fds (snd (periodic_schedule ok k s)) = timer_fds s"
  "timer_fds (snd (periodic_cancel k s)) = timer_fds s"
  by (simp_all add: timeout_schedule_def timeout_cancel_def repeatable_schedule_def
      repeatable_cancel_def repeatable_restart_def periodic_schedule_def periodic_cancel_def Let_def)

lemma timer_fds_call_user [simp]: "timer_fds (call_user k s) = timer_fds s"
proof -
  have "timer_fds (run_command c t) = timer_fds t" for c t
    by (cases c) (simp_all add: interrupt_def)
  then have "timer_fds (fold run_command cs t) = timer_fds t" for cs t
    by (induction cs arbitrary: t) simp_all
  then show ?thesis by (simp add: call_user_def timer_fds_update split: option.split)
qed

lemma timer_fds_deferred: "timer_fds (fold run_timer_deferred ds s) = timer_fds s"
proof (induction ds arbitrary: s)
  case (Cons d ds)
  then show ?case by (cases d) simp
qed simp

text \<open>A timeout fires at most once.  When the event of a \<^verbatim>\<open>TimeoutTask\<close> is processed,
  then after the following \<^verbatim>\<open>process_deferred\<close> the task is not scheduled any more and its
  timer is disarmed, whatever its callback and the other deferred callbacks did, a new
  \<^verbatim>\<open>schedule\<close> from the callback included.\<close>

theorem timeout_fires_once:
  assumes "get_slot s h = Some i" and "slot_callback (mEventPool s ! i) = Some (TimeoutEvent k)"
    and "e AND EPOLLIN \<noteq> 0" and "sint (ucast (encode_handle h) :: u32) \<noteq> mInterruptFd s"
    and "mTimerFd (mTimer (program s k)) \<ge> 0"
  defines "t \<equiv> process_deferred run_timer_deferred (process_event run_timer (e, encode_handle h) s)"
  shows "\<not> ev_valid (mEvent (program t k)) \<and> timer_setting (mTimer (program t k)) = (0, 0)"
proof -
  have "has_interest (epoll_to_interests e) EventInterest_Read"
    using assms(3)
    by (simp add: epoll_to_interests_def has_interest_def interest_defs Let_def)
  then have "process_event run_timer (e, encode_handle h) s =
      sched_defer (CancelTimeout k) (call_user k s)"
    using assms(1,2,4) by (simp add: process_event_def)
  then have "t = timeout_cancel k (fold run_timer_deferred (mDeferredCallbacks (call_user k s))
      ((reap_slots (call_user k s))\<lparr>mDeferredCallbacks := []\<rparr>))" (is "_ = timeout_cancel k ?u")
    by (simp add: t_def process_deferred_def sched_defer_def reap_slots_def Let_def)
  moreover have "timer_fds ?u = timer_fds s"
    by (simp add: timer_fds_deferred)
  then have "mTimerFd (mTimer (program ?u k)) \<ge> 0"
    using assms(5) by (simp add: timer_fds_def fun_eq_iff)
  ultimately show ?thesis using timeout_cancel_task by simp
qed

theorem timeout_fires_once_witness:
  "let s = snd (register_fd True 5 EventInterest_Read (Some (TimeoutEvent 7)) [] (Scheduler_new 3 4
       (\<lambda>_. \<lparr>mTimer = \<lparr>mDuration = 1, mTimerFd = 5, timer_setting = (1, 0)\<rparr>,
          mEvent = ScheduledEvent 0 1, mCallback = Some [ScheduleTimeout True 7], callback_runs = 0\<rparr>)));
       t = process_deferred run_timer_deferred
         (process_event run_timer (EPOLLIN, encode_handle (ScheduledEvent 0 1)) s)
   in timer_setting (mTimer (program t 7)) = (0, 0)"
  unfolding Let_def
  by (rule conjunct2 [OF timeout_fires_once [OF first_registration(2)]])
    (simp_all add: first_registration epoll_defs encode_handle_def del: register_program)

end
