(* ===== verification/Supl_Codec.thy ===== *)
theory Supl_Codec
  imports Prelude
begin

text \<open>
  The translation between the messages of a SUPL session and ULP PDUs (dependency/supl/encode.cpp,
  decode.cpp).  The structures that the ASN.1 compiler generates are data types here, with the
  components that the code reads or writes; the UPER encoder itself is a parameter.  The
  capabilities and the location of START and POSINIT are copied field by field by the code and
  are opaque (\<open>'c\<close>).  \<open>None\<close> is \<^verbatim>\<open>UNREACHABLE()\<close> or a failed assertion.
\<close>

section \<open>Data\<close>

datatype Identity =
  IdUNKNOWN | MSISDN u64 | IMSI u64 | IPV4 "u8 list" | IPV6 "u8 list" | FQDN "u8 list"

record SET =
  set_is_active :: bool
  set_session :: int
  set_identity :: Identity

record SLP =
  slp_is_active :: bool
  slp_session :: "u8 list"
  slp_identity :: Identity

datatype payload_type = NOTHING | TIA801 | RRC | RRLP | LPP

record Payload =
  payload_type :: payload_type
  payload_data :: "u8 list"

record POS =
  pos_payloads :: "Payload list"

text \<open>The ASN.1 structures.\<close>

datatype ip_address = IPAddress_PR_NOTHING | IPAddress_PR_ipv4Address "u8 list" | IPAddress_PR_ipv6Address "u8 list"

datatype set_id =
    SETId_PR_NOTHING | SETId_PR_msisdn "u8 list" | SETId_PR_mdn | SETId_PR_min
  | SETId_PR_imsi "u8 list" | SETId_PR_nai | SETId_PR_iPAddress ip_address

datatype slp_address =
  SLPAddress_PR_NOTHING "u8 list" | SLPAddress_PR_iPAddress ip_address | SLPAddress_PR_fQDN "u8 list"

record set_session_id =
  sessionId :: int
  setId :: set_id

record slp_session_id =
  slp_sessionID :: "u8 list"
  slpId :: slp_address

record ver2_payload =
  lPPPayload :: "u8 list list option"
  tIA801Payload :: "u8 list list option"

datatype pos_payload =
    PosPayLoad_PR_NOTHING | PosPayLoad_PR_tia801payload "u8 list" | PosPayLoad_PR_rrcPayload "u8 list"
  | PosPayLoad_PR_rrlpPayload "u8 list" | PosPayLoad_PR_ver2 ver2_payload

datatype 'c ulp_message =
    msSUPLSTART 'c | msSUPLPOSINIT 'c "pos_payload option" | msSUPLRESPONSE int
  | msSUPLPOS pos_payload | msSUPLEND | msOther nat

record 'c ulp_pdu =
  ulp_length :: int
  ulp_version :: "int \<times> int \<times> int"
  setSessionID :: "set_session_id option"
  slpSessionID :: "slp_session_id option"
  ulp_message :: "'c ulp_message"

section \<open>Encoding\<close>

definition create_message :: "'c ulp_message \<Rightarrow> int \<times> int \<times> int \<Rightarrow> 'c ulp_pdu" where
  "create_message present version =
     \<lparr>ulp_length = 0, ulp_version = version, setSessionID = None, slpSessionID = None,
      ulp_message = present\<rparr>"

text \<open>The number of decimal digits, zero for zero.\<close>

fun digit_count :: "nat \<Rightarrow> nat" where
  "digit_count data = (if data > 0 then digit_count (data div 10) + 1 else 0)"

declare digit_count.simps [simp del]

definition put_digit :: "nat \<Rightarrow> nat \<Rightarrow> u8 \<Rightarrow> u8 list \<Rightarrow> u8 list" where
  "put_digit max_length index v octet =
     (let byte_index = max_length - 1 - index div 2;
          b = octet ! byte_index
      in octet[byte_index :=
           (if index mod 2 = 1 then (b AND 0xF0) OR v else (b AND 0x0F) OR push_bit 4 v)])"

function put_digits :: "nat \<Rightarrow> nat \<Rightarrow> nat \<Rightarrow> u8 list \<Rightarrow> u8 list" where
  "put_digits max_length data index octet =
     (if data > 0 \<and> index < 2 * max_length
      then put_digits max_length (data div 10) (index + 1)
             (put_digit max_length index (of_nat (data mod 10) AND 0xF) octet)
      else octet)"
  by pat_completeness auto

termination by (relation "measure (\<lambda>(_, d, _, _). d)") auto

declare put_digits.simps [simp del]

text \<open>
  \<^verbatim>\<open>2 * max_length - length\<close> is a \<^verbatim>\<open>size_t\<close>: it wraps around for a number with more
  digits than fit, and nothing is written.
\<close>

definition binary_encoded_octet :: "nat \<Rightarrow> u64 \<Rightarrow> u8 list" where
  "binary_encoded_octet max_length from =
     (let len = digit_count (unat from);
          offset = (if len \<le> 2 * max_length then 2 * max_length - len
                    else 2 ^ 64 - (len - 2 * max_length))
      in put_digits max_length (unat from) offset (replicate max_length 0xFF))"

fun encode_ipaddress :: "Identity \<Rightarrow> ip_address option" where
  "encode_ipaddress (IPV4 d) = Some (IPAddress_PR_ipv4Address d)"
| "encode_ipaddress (IPV6 d) = Some (IPAddress_PR_ipv6Address d)"
| "encode_ipaddress _ = None"

fun encode_setid :: "Identity \<Rightarrow> set_id option" where
  "encode_setid (MSISDN n) = Some (SETId_PR_msisdn (binary_encoded_octet 8 n))"
| "encode_setid (IMSI n) = Some (SETId_PR_imsi (binary_encoded_octet 8 n))"
| "encode_setid (IPV6 d) = map_option SETId_PR_iPAddress (encode_ipaddress (IPV6 d))"
| "encode_setid (IPV4 d) = map_option SETId_PR_iPAddress (encode_ipaddress (IPV4 d))"
| "encode_setid IdUNKNOWN = None"
| "encode_setid (FQDN _) = None"

fun encode_slp_address :: "Identity \<Rightarrow> slp_address option" where
  "encode_slp_address (IPV6 d) = map_option SLPAddress_PR_iPAddress (encode_ipaddress (IPV6 d))"
| "encode_slp_address (IPV4 d) = map_option SLPAddress_PR_iPAddress (encode_ipaddress (IPV4 d))"
| "encode_slp_address (FQDN d) = Some (SLPAddress_PR_fQDN d)"
| "encode_slp_address IdUNKNOWN = None"
| "encode_slp_address (MSISDN _) = None"
| "encode_slp_address (IMSI _) = None"

definition encode_session :: "'c ulp_pdu \<Rightarrow> SET \<Rightarrow> SLP \<Rightarrow> 'c ulp_pdu option" where
  "encode_session pdu st slp =
     Option.bind
       (if set_is_active st
        then map_option (\<lambda>i. pdu\<lparr>setSessionID := Some \<lparr>sessionId = set_session st, setId = i\<rparr>\<rparr>)
               (encode_setid (set_identity st))
        else Some pdu)
       (\<lambda>pdu. if slp_is_active slp
        then map_option (\<lambda>i. pdu\<lparr>slpSessionID := Some \<lparr>slp_sessionID = slp_session slp, slpId = i\<rparr>\<rparr>)
               (encode_slp_address (slp_identity slp))
        else Some pdu)"

text \<open>Every payload goes into the list of LPP payloads, whatever its type.\<close>

definition encode_pospayload :: "Payload list \<Rightarrow> pos_payload" where
  "encode_pospayload payloads =
     PosPayLoad_PR_ver2 \<lparr>lPPPayload = Some (map payload_data payloads), tIA801Payload = None\<rparr>"

text \<open>
  \<open>uper pdu\<close>: the number of bits and the bytes that the UPER encoder produces, \<open>None\<close> when it
  fails.  A message of no bytes is how a failure is reported.
\<close>

definition encode_uper :: "('c ulp_pdu \<Rightarrow> (nat \<times> u8 list) option) \<Rightarrow> 'c ulp_pdu \<Rightarrow> u8 list" where
  "encode_uper uper pdu =
     (case uper pdu of None \<Rightarrow> []
      | Some (encoded, _) \<Rightarrow>
          let len = (encoded + 7) div 8
          in case uper (pdu\<lparr>ulp_length := int len\<rparr>) of None \<Rightarrow> []
             | Some (encoded, bytes) \<Rightarrow>
                 let new_length = (encoded + 7) div 8
                 in if len \<noteq> new_length then [] else take len bytes)"

text \<open>What \<^verbatim>\<open>Session::send\<close> can send.\<close>

datatype 'c outgoing = START 'c | POSINIT 'c "Payload list" | SendPOS POS

fun outgoing_message :: "'c outgoing \<Rightarrow> 'c ulp_message" where
  "outgoing_message (START c) = msSUPLSTART c"
| "outgoing_message (POSINIT c payloads) =
     msSUPLPOSINIT c (if length payloads > 0 then Some (encode_pospayload payloads) else None)"
| "outgoing_message (SendPOS pos) = msSUPLPOS (encode_pospayload (pos_payloads pos))"

definition ulp_encode ::
  "('c ulp_pdu \<Rightarrow> (nat \<times> u8 list) option) \<Rightarrow> int \<times> int \<times> int \<Rightarrow> SET \<Rightarrow> SLP \<Rightarrow> 'c outgoing \<Rightarrow>
   u8 list option" where
  "ulp_encode uper version st slp message =
     map_option (encode_uper uper)
       (encode_session (create_message (outgoing_message message) version) st slp)"

section \<open>Decoding\<close>

definition decode_ip_address :: "ip_address \<Rightarrow> Identity option" where
  "decode_ip_address ip =
     (case ip of
        IPAddress_PR_NOTHING \<Rightarrow> Some IdUNKNOWN
      | IPAddress_PR_ipv4Address d \<Rightarrow> if length d = 4 then Some (IPV4 d) else None
      | IPAddress_PR_ipv6Address d \<Rightarrow> if length d = 16 then Some (IPV6 d) else None)"

fun decode_bcd :: "u8 list \<Rightarrow> u64 \<Rightarrow> u64" where
  "decode_bcd [] number = number"
| "decode_bcd (byte # buf) number =
     (let first = ucast (drop_bit 0 byte AND 0xF) :: u64;
          second = ucast (drop_bit 4 byte AND 0xF) :: u64;
          number = (if first \<noteq> 0xF then 10 * number + first else number);
          number = (if second \<noteq> 0xF then 10 * number + second else number)
      in decode_bcd buf number)"

definition decode_setid :: "set_id \<Rightarrow> Identity option" where
  "decode_setid i =
     (case i of
        SETId_PR_msisdn d \<Rightarrow> if length d > 0 then Some (MSISDN (decode_bcd d 0)) else None
      | SETId_PR_imsi d \<Rightarrow> if length d > 0 then Some (IMSI (decode_bcd d 0)) else None
      | SETId_PR_iPAddress ip \<Rightarrow> decode_ip_address ip
      | _ \<Rightarrow> Some IdUNKNOWN)"

text \<open>A choice that is not present is read like a domain name, from the same union.\<close>

definition decode_slp_address :: "slp_address \<Rightarrow> Identity option" where
  "decode_slp_address a =
     (case a of
        SLPAddress_PR_NOTHING d \<Rightarrow> Some (FQDN d)
      | SLPAddress_PR_fQDN d \<Rightarrow> Some (FQDN d)
      | SLPAddress_PR_iPAddress ip \<Rightarrow> decode_ip_address ip)"

text \<open>\<open>Some None\<close>: the function returned false.\<close>

definition decode_session :: "'c ulp_pdu \<Rightarrow> (SET \<times> SLP) option option" where
  "decode_session pdu =
     (case (setSessionID pdu, slpSessionID pdu) of
        (Some a, Some b) \<Rightarrow>
          (case decode_setid (setId a) of None \<Rightarrow> None
           | Some i \<Rightarrow>
               if length (slp_sessionID b) \<noteq> 4 then None
               else case decode_slp_address (slpId b) of None \<Rightarrow> None
               | Some j \<Rightarrow> Some (Some
                   (\<lparr>set_is_active = True, set_session = sessionId a, set_identity = i\<rparr>,
                    \<lparr>slp_is_active = True, slp_session = slp_sessionID b, slp_identity = j\<rparr>)))
      | _ \<Rightarrow> Some None)"

definition decode_response :: "'c ulp_pdu \<Rightarrow> (SET \<times> SLP) option option" where
  "decode_response pdu =
     (case ulp_message pdu of msSUPLRESPONSE _ \<Rightarrow> decode_session pdu | _ \<Rightarrow> Some None)"

definition decode_end :: "'c ulp_pdu \<Rightarrow> (SET \<times> SLP) option option" where
  "decode_end pdu = (case ulp_message pdu of msSUPLEND \<Rightarrow> decode_session pdu | _ \<Rightarrow> Some None)"

definition decode_payload :: "payload_type \<Rightarrow> u8 list \<Rightarrow> Payload" where
  "decode_payload t data = \<lparr>payload_type = t, payload_data = data\<rparr>"

text \<open>The members of the union of payloads are all octet strings in the same place.\<close>

definition decode_pospayload :: "pos_payload \<Rightarrow> Payload list" where
  "decode_pospayload p =
     (case p of
        PosPayLoad_PR_NOTHING \<Rightarrow> []
      | PosPayLoad_PR_tia801payload d \<Rightarrow> [decode_payload TIA801 d]
      | PosPayLoad_PR_rrcPayload d \<Rightarrow> [decode_payload RRC d]
      | PosPayLoad_PR_rrlpPayload d \<Rightarrow> [decode_payload RRLP d]
      | PosPayLoad_PR_ver2 v \<Rightarrow>
          (case lPPPayload v of None \<Rightarrow> [] | Some ds \<Rightarrow> map (decode_payload LPP) ds) @
          (case tIA801Payload v of None \<Rightarrow> [] | Some ds \<Rightarrow> map (decode_payload TIA801) ds))"

definition decode_pos :: "'c ulp_pdu \<Rightarrow> (SET \<times> SLP \<times> POS) option option" where
  "decode_pos pdu =
     (case ulp_message pdu of
        msSUPLPOS p \<Rightarrow>
          map_option (map_option (\<lambda>(set, slp). (set, slp, \<lparr>pos_payloads = decode_pospayload p\<rparr>)))
            (decode_session pdu)
      | _ \<Rightarrow> Some None)"

section \<open>Numbers in binary coded decimal\<close>

text \<open>The half bytes of an octet string, in the order in which they are read.\<close>

definition nibbles :: "u8 list \<Rightarrow> nat list" where
  "nibbles octet = concat (map (\<lambda>b. [unat (b AND 0xF), unat (drop_bit 4 b)]) octet)"

lemma nibbles_simps [simp]:
  "nibbles [] = []" "nibbles (b # octet) = unat (b AND 0xF) # unat (drop_bit 4 b) # nibbles octet"
  by (simp_all add: nibbles_def)

lemma length_nibbles [simp]: "length (nibbles octet) = 2 * length octet"
  by (induction octet) simp_all

lemma nibbles_update:
  assumes "k < length octet"
  shows "nibbles (octet[k := b]) =
    (nibbles octet)[2 * k := unat (b AND 0xF), 2 * k + 1 := unat (drop_bit 4 b)]"
  using assms
proof (induction octet arbitrary: k)
  case (Cons a octet)
  then show ?case by (cases k) simp_all
qed simp

lemma nibbles_nth:
  "k < length octet \<Longrightarrow> nibbles octet ! (2 * k) = unat (octet ! k AND 0xF) \<and>
     nibbles octet ! (2 * k + 1) = unat (drop_bit 4 (octet ! k))"
proof (induction octet arbitrary: k)
  case (Cons a octet)
  then show ?case by (cases k) simp_all
qed simp

lemma high_bit: "bit b (4 + n) \<Longrightarrow> n < 4" for b :: u8
  using bit_imp_le_length [of b "4 + n"] by simp

lemma low_half_bit: "bit (0xF :: u8) n \<longleftrightarrow> n < 4"
proof -
  have m: "(0xF :: u8) = mask 4" by (simp add: mask_eq_exp_minus_1)
  show ?thesis unfolding m bit_mask_iff by auto
qed

lemma high_half: "drop_bit 4 b AND 0xF = drop_bit 4 b" for b :: u8
proof (rule bit_word_eqI)
  fix n
  show "bit (drop_bit 4 b AND 0xF) n = bit (drop_bit 4 b) n"
    using high_bit [of b n] by (auto simp: bit_and_iff bit_drop_bit_eq low_half_bit simp del: bit_numeral_word_iff)
qed

lemma set_low_half1: "((b AND 0xF0) OR v) AND 0xF = v AND 0xF" for b v :: u8
  by (simp add: bit.conj_disj_distrib2 and.assoc)

lemma set_low_half2: "drop_bit 4 ((b AND 0xF0) OR v) = drop_bit 4 b OR drop_bit 4 v" for b v :: u8
  by (simp add: high_half)

lemma set_high_half1: "((b AND 0x0F) OR push_bit 4 v) AND 0xF = b AND 0xF" for b v :: u8
proof -
  have "push_bit 4 v AND 0xF = 0"
    by (rule bit_word_eqI) (auto simp: bit_and_iff bit_push_bit_iff low_half_bit simp del: bit_numeral_word_iff)
  then show ?thesis by (simp add: bit.conj_disj_distrib2 and.assoc)
qed

lemma set_high_half2: "drop_bit 4 ((b AND 0x0F) OR push_bit 4 v) = v AND 0xF" for b v :: u8
proof (rule bit_word_eqI)
  fix n assume "n < LENGTH(8)"
  have "bit v n \<Longrightarrow> n < 8" using bit_imp_le_length [of v n] by simp
  then show "bit (drop_bit 4 ((b AND 0x0F) OR push_bit 4 v)) n = bit (v AND 0xF) n"
    by (auto simp: bit_drop_bit_eq bit_or_iff bit_and_iff bit_push_bit_iff low_half_bit simp del: bit_numeral_word_iff)
qed

text \<open>Digit number \<open>index\<close> is written to the half byte \<open>2 * m - 1 - index\<close>.\<close>

lemma nibbles_put_digit:
  assumes i: "index < 2 * m" and l: "length octet = m" and v: "v AND 0xF = v"
  shows "nibbles (put_digit m index v octet) = (nibbles octet)[2 * m - 1 - index := unat v]"
proof -
  define k where "k = m - 1 - index div 2"
  have k: "k < length octet" using i l by (simp add: k_def)
  let ?b = "octet ! k"
  note same = nibbles_nth [OF k]
  have pd: "put_digit m index v octet = octet[k :=
      if index mod 2 = 1 then (?b AND 0xF0) OR v else (?b AND 0x0F) OR push_bit 4 v]"
    by (simp only: put_digit_def Let_def k_def)
  have v': "drop_bit 4 v = 0"
  proof (rule bit_word_eqI)
    fix n
    have "bit v (4 + n) = bit (v AND 0xF) (4 + n)" using v by simp
    then show "bit (drop_bit 4 v) n = bit 0 n"
      by (simp add: bit_and_iff bit_drop_bit_eq low_half_bit del: bit_numeral_word_iff)
  qed
  show ?thesis
  proof (cases "index mod 2 = 1")
    case True
    let ?c = "(?b AND 0xF0) OR v"
    have c: "?c AND 0xF = v" "drop_bit 4 ?c = drop_bit 4 ?b"
      by (simp only: set_low_half1 v) (simp only: set_low_half2 v' or.right_neutral)
    have p: "2 * m - 1 - index = 2 * k"
      using True i mult_div_mod_eq [of 2 index] unfolding k_def by linarith
    have "nibbles (octet[k := ?c]) = (nibbles octet)[2 * k := unat v, 2 * k + 1 := unat (drop_bit 4 ?b)]"
      using k by (simp only: nibbles_update c)
    also have "\<dots> = (nibbles octet)[2 * k := unat v]"
      using same k by (intro nth_equalityI) (auto simp: nth_list_update)
    finally show ?thesis using True unfolding pd p by simp
  next
    case False
    let ?c = "(?b AND 0x0F) OR push_bit 4 v"
    have c: "?c AND 0xF = ?b AND 0xF" "drop_bit 4 ?c = v"
      by (simp only: set_high_half1) (simp only: set_high_half2 v)
    have p: "2 * m - 1 - index = 2 * k + 1"
      using False i mult_div_mod_eq [of 2 index] unfolding k_def by linarith
    have "nibbles (octet[k := ?c]) = (nibbles octet)[2 * k := unat (?b AND 0xF), 2 * k + 1 := unat v]"
      using k by (simp only: nibbles_update c)
    also have "\<dots> = (nibbles octet)[2 * k + 1 := unat v]"
      using same k by (intro nth_equalityI) (auto simp: nth_list_update)
    finally show ?thesis using False unfolding pd p by simp
  qed
qed

text \<open>The digits of a number, most significant first.\<close>

fun digits_of :: "nat \<Rightarrow> nat list" where
  "digits_of n = (if n = 0 then [] else digits_of (n div 10) @ [n mod 10])"

declare digits_of.simps [simp del]

lemma length_digits_of: "length (digits_of n) = digit_count n"
  by (induction n rule: digits_of.induct) (subst digits_of.simps, subst digit_count.simps, simp)

lemma digits_of_less: "d \<in> set (digits_of n) \<Longrightarrow> d < 10"
proof (induction n rule: digits_of.induct)
  case (1 n)
  then show ?case by (subst (asm) (2) digits_of.simps) (auto split: if_splits)
qed

lemma digit_count_less: "n < 10 ^ k \<Longrightarrow> digit_count n \<le> k"
proof (induction k arbitrary: n)
  case 0
  then show ?case by (subst digit_count.simps) simp
next
  case (Suc k)
  then have "n div 10 < 10 ^ k" by (simp add: less_mult_imp_div_less)
  then have "digit_count (n div 10) \<le> k" by (rule Suc.IH)
  then show ?case by (subst digit_count.simps) simp
qed

lemma foldl_digits_of: "foldl (\<lambda>a d. 10 * a + d) 0 (digits_of n) = n"
proof (induction n rule: digits_of.induct)
  case (1 n)
  then show ?case by (subst digits_of.simps) simp
qed

lemma length_put_digit [simp]: "length (put_digit m i v octet) = length octet"
  by (simp add: put_digit_def Let_def)

text \<open>Writing the digits from the last one on: they fill the half bytes before a position.\<close>

lemma nibbles_put_digits:
  assumes "index + digit_count data = 2 * m" and "length octet = m"
  shows "nibbles (put_digits m data index octet) =
    digits_of data @ drop (digit_count data) (nibbles octet)"
  using assms
proof (induction m data index octet rule: put_digits.induct)
  case (1 m data index octet)
  show ?case
  proof (cases "data > 0")
    case False
    then show ?thesis
      by (subst put_digits.simps, subst digits_of.simps, subst digit_count.simps) simp
  next
    case True
    have c: "digit_count data = digit_count (data div 10) + 1" using True by (subst digit_count.simps) simp
    have i: "index < 2 * m" using 1 c by simp
    let ?v = "of_nat (data mod 10) AND 0xF :: u8" and ?k = "digit_count (data div 10)"
    have v: "unat ?v = data mod 10"
    proof -
      have "data mod 10 < 10" by simp
      then have "data mod 10 \<in> set [0..<10]" by simp
      then show ?thesis by (auto simp: upt_rec)
    qed
    let ?o = "put_digit m index ?v octet"
    have p: "2 * m - Suc index = ?k" using 1 c by simp
    have n: "nibbles ?o = (nibbles octet)[?k := data mod 10]"
      using 1 i c v p by (subst nibbles_put_digit) (simp_all add: and.assoc)
    have "nibbles (put_digits m data index octet) = nibbles (put_digits m (data div 10) (index + 1) ?o)"
      using True i by (subst put_digits.simps) simp
    also have "\<dots> = digits_of (data div 10) @ drop ?k (nibbles ?o)"
      using 1 True i c by (intro "1.IH") simp_all
    also have "drop ?k (nibbles ?o) = data mod 10 # drop (Suc ?k) (nibbles octet)"
    proof -
      have l: "?k < length (nibbles octet)" using 1 c by simp
      then have "drop ?k (nibbles ?o) = nibbles ?o ! ?k # drop (Suc ?k) (nibbles ?o)"
        by (intro Cons_nth_drop_Suc [symmetric]) (simp add: n)
      then show ?thesis using l by (simp add: n)
    qed
    finally show ?thesis using True c by (subst digits_of.simps) simp
  qed
qed

lemma nibbles_filled: "nibbles (replicate m 0xFF) = replicate (2 * m) 15"
  by (induction m) simp_all

lemma nibbles_binary_encoded:
  assumes "unat n < 10 ^ (2 * m)"
  shows "nibbles (binary_encoded_octet m n) =
    digits_of (unat n) @ replicate (2 * m - digit_count (unat n)) 15"
proof -
  have "digit_count (unat n) \<le> 2 * m" using assms by (rule digit_count_less)
  then show ?thesis
    by (simp add: binary_encoded_octet_def Let_def nibbles_put_digits nibbles_filled)
qed

definition add_nibble :: "u64 \<Rightarrow> nat \<Rightarrow> u64" where
  "add_nibble a d = (if d \<noteq> 15 then 10 * a + of_nat d else a)"

lemma decode_bcd_nibbles: "decode_bcd octet a = foldl add_nibble a (nibbles octet)"
proof (induction octet arbitrary: a)
  case (Cons b octet)
  have eq: "ucast x = (of_nat (unat x) :: u64)" for x :: u8 by simp
  have f: "(of_nat (unat x) :: u64) = 0xF \<longleftrightarrow> unat x = 15" for x :: u8
  proof -
    have "unat (of_nat (unat x) :: u64) = unat x"
      by (simp only: eq [symmetric] unat_ucast_u8)
    then show ?thesis by (simp only: word_unat_eq_iff) simp
  qed
  have "decode_bcd (b # octet) a =
      decode_bcd octet (add_nibble (add_nibble a (unat (b AND 0xF))) (unat (drop_bit 4 b)))"
    by (simp only: decode_bcd.simps Let_def add_nibble_def eq f drop_bit_0 id_apply high_half)
  then show ?case by (simp only: Cons.IH nibbles_simps foldl_Cons)
qed simp

lemma decode_binary_encoded:
  assumes "unat n < 10 ^ (2 * m)"
  shows "decode_bcd (binary_encoded_octet m n) 0 = n"
proof -
  have skip: "foldl add_nibble a (replicate k 15) = a" for a k
    by (induction k) (simp_all add: add_nibble_def)
  have "foldl add_nibble (of_nat a) ds = of_nat (foldl (\<lambda>a d. 10 * a + d) a ds)"
    if "\<forall>d \<in> set ds. d < 10" for a ds
    using that
  proof (induction ds arbitrary: a)
    case (Cons d ds)
    have "add_nibble (of_nat a) d = of_nat (10 * a + d)" using Cons.prems by (simp add: add_nibble_def)
    then show ?case using Cons.IH [of "10 * a + d"] Cons.prems by (simp only: foldl_Cons) simp
  qed simp
  from this [of "digits_of (unat n)" 0]
  have "foldl add_nibble 0 (digits_of (unat n)) = n"
    using digits_of_less by (simp add: foldl_digits_of)
  then show ?thesis
    by (simp add: decode_bcd_nibbles nibbles_binary_encoded [OF assms] skip)
qed

section \<open>Sessions survive the encoding\<close>

text \<open>
  The identities that SUPL allows for a terminal and for a server, as far as the program uses them.
\<close>

fun set_identity_ok :: "Identity \<Rightarrow> bool" where
  "set_identity_ok (MSISDN n) = (unat n < 10 ^ 16)"
| "set_identity_ok (IMSI n) = (unat n < 10 ^ 16)"
| "set_identity_ok (IPV4 d) = (length d = 4)"
| "set_identity_ok (IPV6 d) = (length d = 16)"
| "set_identity_ok _ = False"

fun slp_identity_ok :: "Identity \<Rightarrow> bool" where
  "slp_identity_ok (FQDN d) = True"
| "slp_identity_ok (IPV4 d) = (length d = 4)"
| "slp_identity_ok (IPV6 d) = (length d = 16)"
| "slp_identity_ok _ = False"

lemma length_put_digits [simp]: "length (put_digits m d i octet) = length octet"
  by (induction m d i octet rule: put_digits.induct) (subst put_digits.simps, simp)

lemma length_binary_encoded [simp]: "length (binary_encoded_octet m n) = m"
  by (simp add: binary_encoded_octet_def Let_def)

lemma setid_roundtrip: "set_identity_ok i \<Longrightarrow> \<exists>x. encode_setid i = Some x \<and> decode_setid x = Some i"
  by (cases i) (simp_all add: decode_setid_def decode_ip_address_def decode_binary_encoded)

lemma slp_address_roundtrip:
  "slp_identity_ok i \<Longrightarrow> \<exists>x. encode_slp_address i = Some x \<and> decode_slp_address x = Some i"
  by (cases i) (simp_all add: decode_slp_address_def decode_ip_address_def)

definition sessions_ok :: "SET \<Rightarrow> SLP \<Rightarrow> bool" where
  "sessions_ok st slp \<longleftrightarrow> set_is_active st \<and> set_identity_ok (set_identity st) \<and>
     slp_is_active slp \<and> slp_identity_ok (slp_identity slp) \<and> length (slp_session slp) = 4"

text \<open>C38: what one side of a SUPL session writes about the session, the other side reads back:
  for a terminal known by a number of at most 16 digits or an address, and a server known by a
  name or an address, the session identifiers of a message decode to those it was encoded with,
  and the payloads of a POS message come back in order.\<close>

theorem supl_session_roundtrip:
  assumes "sessions_ok st slp"
    and "\<forall>p \<in> set (pos_payloads pos). payload_type p = LPP"
  shows "\<exists>pdu. encode_session (create_message (outgoing_message (SendPOS pos)) version) st slp = Some pdu \<and>
    decode_pos pdu = Some (Some (st, slp, pos))"
proof -
  obtain x y where xy: "encode_setid (set_identity st) = Some x" "decode_setid x = Some (set_identity st)"
      "encode_slp_address (slp_identity slp) = Some y" "decode_slp_address y = Some (slp_identity slp)"
    using assms(1) setid_roundtrip slp_address_roundtrip unfolding sessions_ok_def by metis
  have "map (decode_payload LPP) (map payload_data (pos_payloads pos)) = pos_payloads pos"
    using assms(2) by (intro map_idI [of "pos_payloads pos", THEN trans [rotated]])
      (auto simp: decode_payload_def)
  then show ?thesis
    using xy assms(1)
    by (simp add: encode_session_def create_message_def sessions_ok_def decode_pos_def
        decode_session_def encode_pospayload_def decode_pospayload_def comp_def)
qed

theorem supl_session_roundtrip_witness:
  "\<exists>pdu. encode_session (create_message (outgoing_message (SendPOS
      \<lparr>pos_payloads = [\<lparr>payload_type = LPP, payload_data = [1, 2]\<rparr>]\<rparr>)) (2, 1, 0))
      \<lparr>set_is_active = True, set_session = 1024, set_identity = IMSI 240070000000001\<rparr>
      \<lparr>slp_is_active = True, slp_session = [0, 0, 0, 7], slp_identity = FQDN [104, 46, 115]\<rparr> = Some pdu \<and>
    decode_pos pdu = Some (Some
      (\<lparr>set_is_active = True, set_session = 1024, set_identity = IMSI 240070000000001\<rparr>,
       \<lparr>slp_is_active = True, slp_session = [0, 0, 0, 7], slp_identity = FQDN [104, 46, 115]\<rparr>,
       \<lparr>pos_payloads = [\<lparr>payload_type = LPP, payload_data = [1, 2]\<rparr>]\<rparr>))"
  by (rule supl_session_roundtrip) (simp_all add: sessions_ok_def)

end
