(* ===== verification/Supl_Session.thy ===== *)
theory Supl_Session
  imports Supl_Codec Uper
begin

text \<open>
  The SUPL session (dependency/supl/session.cpp): its state, the receive buffer, the messages
  sent and received.  The TCP/TLS client below it talks to the operating system and is a
  parameter (\<open>'t tcp\<close>), as is the UPER codec of ULP PDUs (\<open>'c uper\<close>).  \<open>None\<close> in a result is a
  failed assertion or a loop that does not return.
\<close>

section \<open>What the session relies on\<close>

datatype connect_progress = Done | WantRead | WantWrite | Failed

datatype io_status = IoOk int | IoWantRead | IoWantWrite | IoClosed | IoError

datatype receive_status = RecvOk "u8 list" | RecvWantRead | RecvWantWrite | RecvClosed | RecvError

text \<open>\<open>PollReady\<close>: a positive result without an error flag.\<close>

datatype poll_result = PollFailed | PollTimeout | PollError | PollReady

record 't tcp =
  tcp_connect :: "'t \<Rightarrow> bool \<times> 't"
  tcp_handle_connection :: "'t \<Rightarrow> connect_progress \<times> 't"
  tcp_disconnect :: "'t \<Rightarrow> 't"
  tcp_is_connected :: "'t \<Rightarrow> bool"
  tcp_fd :: "'t \<Rightarrow> int"
  tcp_send :: "u8 list \<Rightarrow> 't \<Rightarrow> io_status \<times> 't"
  tcp_poll :: "io_status \<Rightarrow> 't \<Rightarrow> poll_result \<times> 't"
  tcp_receive :: "nat \<Rightarrow> 't \<Rightarrow> receive_status \<times> 't"
  tcp_has_pending :: "'t \<Rightarrow> bool"

record 'c uper =
  uper_encode :: "'c ulp_pdu \<Rightarrow> (nat \<times> u8 list) option"
  uper_decode :: "u8 list \<Rightarrow> 'c ulp_pdu decoded"

section \<open>Comparing sessions\<close>

text \<open>
  For addresses the code compares the first argument with itself: \<^verbatim>\<open>memcmp(a.data.ipv4, a.data.ipv4, 4)\<close>.
\<close>

fun identity_eq :: "Identity \<Rightarrow> Identity \<Rightarrow> bool" where
  "identity_eq (MSISDN a) (MSISDN b) = (a = b)"
| "identity_eq (IMSI a) (IMSI b) = (a = b)"
| "identity_eq (IPV4 a) (IPV4 b) = True"
| "identity_eq (IPV6 a) (IPV6 b) = True"
| "identity_eq (FQDN a) (FQDN b) = (a = b)"
| "identity_eq _ _ = False"

definition set_eq :: "SET \<Rightarrow> SET \<Rightarrow> bool" where
  "set_eq a b \<longleftrightarrow> set_session a = set_session b \<and> set_is_active a = set_is_active b \<and>
     identity_eq (set_identity a) (set_identity b)"

definition slp_eq :: "SLP \<Rightarrow> SLP \<Rightarrow> bool" where
  "slp_eq a b \<longleftrightarrow> slp_session a = slp_session b \<and> slp_is_active a = slp_is_active b \<and>
     identity_eq (slp_identity a) (slp_identity b)"

section \<open>State\<close>

datatype supl_state = UNKNOWN | CONNECTING | CONNECTED | WaitForHandshake | DISCONNECTED

datatype Received =
    ReceivedUNKNOWN | InvalidSession | UnableToDecode | SessionTerminated | NoData
  | ReceivedRESPONSE | ReceivedEND | ReceivedPOS POS

datatype Handshake = HandshakeOK | HandshakeERROR | HandshakeNoData

text \<open>\<open>mReceiveBuffer\<close>: the first \<^verbatim>\<open>mReceiveBufferOffset\<close> bytes of the buffer.\<close>

record 't supl_session =
  mVersion :: "int \<times> int \<times> int"
  mState :: supl_state
  mSETSession :: SET
  mSLPSession :: SLP
  mReceiveBuffer :: "u8 list"
  mTcpClient :: "'t option"

definition UPER_DECODE_BUFFER_SIZE :: nat where
  "UPER_DECODE_BUFFER_SIZE = 64 * 1024"

definition Session_new :: "int \<times> int \<times> int \<Rightarrow> Identity \<Rightarrow> 't supl_session" where
  "Session_new version identity =
     \<lparr>mVersion = version, mState = UNKNOWN,
      mSETSession = \<lparr>set_is_active = True, set_session = 1024, set_identity = identity\<rparr>,
      mSLPSession = \<lparr>slp_is_active = False, slp_session = [0, 0, 0, 0], slp_identity = IdUNKNOWN\<rparr>,
      mReceiveBuffer = [], mTcpClient = None\<rparr>"

definition activate :: "bool \<Rightarrow> 't supl_session \<Rightarrow> 't supl_session" where
  "activate b s = s\<lparr>mSETSession := (mSETSession s)\<lparr>set_is_active := b\<rparr>,
     mSLPSession := (mSLPSession s)\<lparr>slp_is_active := False\<rparr>\<rparr>"

section \<open>Connecting\<close>

text \<open>\<open>fresh\<close>: the new \<^verbatim>\<open>TcpClient\<close>.\<close>

definition supl_connect :: "'t tcp \<Rightarrow> 't \<Rightarrow> 't supl_session \<Rightarrow> bool \<times> 't supl_session" where
  "supl_connect tcp fresh s =
     (if mState s \<noteq> UNKNOWN then (False, s)
      else
        let (ok, t) = tcp_connect tcp fresh
        in if \<not> ok then (False, s\<lparr>mTcpClient := None\<rparr>)
           else (True, s\<lparr>mTcpClient := Some t, mState := CONNECTING\<rparr>))"

definition handle_connection :: "'t tcp \<Rightarrow> 't supl_session \<Rightarrow> connect_progress \<times> 't supl_session" where
  "handle_connection tcp s =
     (if mState s \<noteq> CONNECTING then (Failed, s)
      else case mTcpClient s of None \<Rightarrow> (Failed, s)
      | Some t \<Rightarrow>
          let (r, t) = tcp_handle_connection tcp t;
              s = s\<lparr>mTcpClient := Some t\<rparr>
          in case r of
               Done \<Rightarrow> (Done, activate True (s\<lparr>mState := CONNECTED\<rparr>))
             | WantRead \<Rightarrow> (WantRead, s)
             | WantWrite \<Rightarrow> (WantWrite, s)
             | Failed \<Rightarrow> (Failed, activate False (s\<lparr>mState := DISCONNECTED\<rparr>)))"

definition supl_disconnect :: "'t tcp \<Rightarrow> 't supl_session \<Rightarrow> 't supl_session" where
  "supl_disconnect tcp s =
     (case mTcpClient s of None \<Rightarrow> s
      | Some t \<Rightarrow> activate False (s\<lparr>mTcpClient := Some (tcp_disconnect tcp t)\<rparr>))"

definition is_connected :: "'t tcp \<Rightarrow> 't supl_session \<Rightarrow> bool" where
  "is_connected tcp s = (case mTcpClient s of None \<Rightarrow> False | Some t \<Rightarrow> tcp_is_connected tcp t)"

definition is_disconnected :: "'t supl_session \<Rightarrow> bool" where
  "is_disconnected s \<longleftrightarrow> mState s = DISCONNECTED"

definition supl_fd :: "'t tcp \<Rightarrow> 't supl_session \<Rightarrow> int" where
  "supl_fd tcp s = (case mTcpClient s of None \<Rightarrow> -1 | Some t \<Rightarrow> tcp_fd tcp t)"

section \<open>Sending\<close>

partial_function (option) send_all :: "'t tcp \<Rightarrow> u8 list \<Rightarrow> 't \<Rightarrow> (bool \<times> 't) option" where
  "send_all tcp cursor t =
     (if cursor = [] then Some (True, t)
      else case tcp_send tcp cursor t of (status, t) \<Rightarrow>
        (case status of
           IoOk n \<Rightarrow> if n \<le> 0 then Some (False, t) else send_all tcp (drop (nat n) cursor) t
         | IoWantRead \<Rightarrow>
             if tcp_fd tcp t < 0 then Some (False, t)
             else (case tcp_poll tcp status t of (pr, t) \<Rightarrow>
                     if pr = PollReady then send_all tcp cursor t else Some (False, t))
         | IoWantWrite \<Rightarrow>
             if tcp_fd tcp t < 0 then Some (False, t)
             else (case tcp_poll tcp status t of (pr, t) \<Rightarrow>
                     if pr = PollReady then send_all tcp cursor t else Some (False, t))
         | IoClosed \<Rightarrow> Some (False, t)
         | IoError \<Rightarrow> Some (False, t)))"

definition supl_send ::
  "'t tcp \<Rightarrow> 'c uper \<Rightarrow> 'c outgoing \<Rightarrow> 't supl_session \<Rightarrow> (bool \<times> 't supl_session) option" where
  "supl_send tcp uper message s =
     (case mTcpClient s of None \<Rightarrow> Some (False, s)
      | Some t \<Rightarrow>
          if \<not> tcp_is_connected tcp t then Some (False, s)
          else case ulp_encode (uper_encode uper) (mVersion s) (mSETSession s) (mSLPSession s) message of
            None \<Rightarrow> None
          | Some encoded_message \<Rightarrow>
              if length encoded_message = 0 then Some (False, s)
              else map_option (\<lambda>(ok, t). (ok, s\<lparr>mTcpClient := Some t\<rparr>)) (send_all tcp encoded_message t))"

definition handshake ::
  "'t tcp \<Rightarrow> 'c uper \<Rightarrow> 'c \<Rightarrow> 't supl_session \<Rightarrow> (bool \<times> 't supl_session) option" where
  "handshake tcp uper message s =
     (if mState s \<noteq> CONNECTED then Some (False, s)
      else map_option (\<lambda>(ok, s). if \<not> ok then (False, s) else (True, s\<lparr>mState := WaitForHandshake\<rparr>))
             (supl_send tcp uper (START message) s))"

section \<open>Receiving\<close>

definition rb_consume :: "nat \<Rightarrow> 't supl_session \<Rightarrow> 't supl_session" where
  "rb_consume bytes s =
     (if bytes \<ge> length (mReceiveBuffer s) then s\<lparr>mReceiveBuffer := []\<rparr>
      else s\<lparr>mReceiveBuffer := drop bytes (mReceiveBuffer s)\<rparr>)"

definition parse_receive_buffer :: "'c uper \<Rightarrow> 't supl_session \<Rightarrow> 'c ulp_pdu option \<times> 't supl_session" where
  "parse_receive_buffer uper s =
     (if length (mReceiveBuffer s) < 4 then (None, s)
      else case uper_decode uper (mReceiveBuffer s) of
        RC_FAIL consumed \<Rightarrow> (None, rb_consume consumed s)
      | RC_WMORE \<Rightarrow> (None, s)
      | RC_OK pdu consumed \<Rightarrow> (Some pdu, rb_consume consumed s))"

text \<open>What the client returns is cut to the space that it was given.\<close>

partial_function (option) fill_receive_buffer ::
  "'t tcp \<Rightarrow> 't supl_session \<Rightarrow> (bool \<times> 't supl_session) option" where
  "fill_receive_buffer tcp s =
     (case mTcpClient s of None \<Rightarrow> None
      | Some t \<Rightarrow>
          if UPER_DECODE_BUFFER_SIZE - length (mReceiveBuffer s) = 0 then Some (True, s)
          else case tcp_receive tcp (UPER_DECODE_BUFFER_SIZE - length (mReceiveBuffer s)) t of (r, t) \<Rightarrow>
            (case r of
               RecvOk bytes \<Rightarrow>
                 if tcp_has_pending tcp t
                 then fill_receive_buffer tcp (s\<lparr>mTcpClient := Some t, mReceiveBuffer := mReceiveBuffer s @
                        take (UPER_DECODE_BUFFER_SIZE - length (mReceiveBuffer s)) bytes\<rparr>)
                 else Some (True, s\<lparr>mTcpClient := Some t, mReceiveBuffer := mReceiveBuffer s @
                        take (UPER_DECODE_BUFFER_SIZE - length (mReceiveBuffer s)) bytes\<rparr>)
             | RecvWantRead \<Rightarrow> Some (True, s\<lparr>mTcpClient := Some t\<rparr>)
             | RecvWantWrite \<Rightarrow> Some (True, s\<lparr>mTcpClient := Some t\<rparr>)
             | RecvClosed \<Rightarrow> Some (False, s\<lparr>mTcpClient := Some t\<rparr>)
             | RecvError \<Rightarrow> Some (False, s\<lparr>mTcpClient := Some t\<rparr>)))"

text \<open>\<open>wanted\<close>: which of \<^verbatim>\<open>response\<close>, \<^verbatim>\<open>end\<close>, \<^verbatim>\<open>pos\<close> are not null.\<close>

record wanted =
  want_response :: bool
  want_end :: bool
  want_pos :: bool

definition decode_wanted :: "wanted \<Rightarrow> 'c ulp_pdu \<Rightarrow> (Received \<times> SET \<times> SLP) option option" where
  "decode_wanted w pdu =
     (case (if want_response w then decode_response pdu else Some None) of
        None \<Rightarrow> None
      | Some (Some (st, slp)) \<Rightarrow> Some (Some (ReceivedRESPONSE, st, slp))
      | Some None \<Rightarrow>
          (case (if want_end w then decode_end pdu else Some None) of
             None \<Rightarrow> None
           | Some (Some (st, slp)) \<Rightarrow> Some (Some (ReceivedEND, st, slp))
           | Some None \<Rightarrow>
               (case (if want_pos w then decode_pos pdu else Some None) of
                  None \<Rightarrow> None
                | Some (Some (st, slp, pos)) \<Rightarrow> Some (Some (ReceivedPOS pos, st, slp))
                | Some None \<Rightarrow> Some None)))"

definition parse_message ::
  "wanted \<Rightarrow> 'c ulp_pdu \<Rightarrow> 't supl_session \<Rightarrow> (Received \<times> 't supl_session) option" where
  "parse_message w pdu s =
     (case decode_wanted w pdu of
        None \<Rightarrow> None
      | Some None \<Rightarrow> Some (ReceivedUNKNOWN, s)
      | Some (Some (received, receive_set, receive_slp)) \<Rightarrow>
          if \<not> set_is_active (mSETSession s) then None
          else if \<not> set_eq receive_set (mSETSession s) then Some (InvalidSession, s)
          else if \<not> slp_is_active (mSLPSession s) then
            (if \<not> slp_is_active receive_slp then None
             else Some (received, s\<lparr>mSLPSession := receive_slp\<rparr>))
          else if \<not> slp_eq receive_slp (mSLPSession s) then Some (InvalidSession, s)
          else Some (received, s))"

definition try_receive ::
  "'t tcp \<Rightarrow> 'c uper \<Rightarrow> wanted \<Rightarrow> 't supl_session \<Rightarrow> (Received \<times> 't supl_session) option" where
  "try_receive tcp uper w s =
     (if \<not> is_connected tcp s then Some (SessionTerminated, s)
      else case parse_receive_buffer uper s of
        (None, s) \<Rightarrow> Some (NoData, s)
      | (Some pdu, s) \<Rightarrow> parse_message w pdu s)"

partial_function (option) wait_for_ulp_pdu ::
  "'t tcp \<Rightarrow> 'c uper \<Rightarrow> 't supl_session \<Rightarrow> ('c ulp_pdu option \<times> 't supl_session) option" where
  "wait_for_ulp_pdu tcp uper s =
     (case parse_receive_buffer uper s of
        (Some pdu, s) \<Rightarrow> Some (Some pdu, s)
      | (None, s) \<Rightarrow>
          (case fill_receive_buffer tcp s of None \<Rightarrow> None
           | Some (ok, s) \<Rightarrow> if \<not> ok then Some (None, s) else wait_for_ulp_pdu tcp uper s))"

definition block_receive ::
  "'t tcp \<Rightarrow> 'c uper \<Rightarrow> wanted \<Rightarrow> 't supl_session \<Rightarrow> (Received \<times> 't supl_session) option" where
  "block_receive tcp uper w s =
     (if \<not> is_connected tcp s then Some (SessionTerminated, s)
      else case wait_for_ulp_pdu tcp uper s of None \<Rightarrow> None
      | Some (None, s) \<Rightarrow> Some (UnableToDecode, s)
      | Some (Some pdu, s) \<Rightarrow> parse_message w pdu s)"

definition handle_handshake ::
  "'t tcp \<Rightarrow> 'c uper \<Rightarrow> 't supl_session \<Rightarrow> (Handshake \<times> 't supl_session) option" where
  "handle_handshake tcp uper s =
     (if mState s \<noteq> WaitForHandshake then Some (HandshakeERROR, s)
      else case fill_receive_buffer tcp s of None \<Rightarrow> None
      | Some (ok, s) \<Rightarrow>
          if \<not> ok then Some (HandshakeERROR, s)
          else case try_receive tcp uper \<lparr>want_response = True, want_end = True, want_pos = False\<rparr> s of
            None \<Rightarrow> None
          | Some (received, s) \<Rightarrow>
              if received = NoData then Some (HandshakeNoData, s)
              else if received \<noteq> ReceivedRESPONSE then Some (HandshakeERROR, s)
              else Some (HandshakeOK, s\<lparr>mState := CONNECTED\<rparr>))"

end
