(* ===== verification/Lpp_Session.thy ===== *)
theory Lpp_Session
  imports Supl_Session
begin

text \<open>
  The transactions of an LPP session (dependency/lpp/session.cpp, transaction.hpp): handles with a
  generation, the tables of live transactions, who has ended what, the numbering of messages, and
  the routing of received messages.  The callbacks of the session are a record of optional
  functions on the session; \<open>world\<close> is the state of the object they belong to.  An LPP message is
  its header and an opaque body; the UPER codec of LPP messages is a parameter.  The time spent
  in decoding is only logged by the code and not modelled.
\<close>

section \<open>Transactions\<close>

datatype Initiator = TargetDevice | LocationServer

type_synonym transaction_lookup = "int \<times> Initiator"

text \<open>\<open>th_valid\<close>: the pointer to the session is not null.\<close>

datatype transaction_handle =
  TransactionHandle (th_valid: bool) (th_id: int) (th_generation: int) (th_initiator: Initiator)

definition invalid_handle :: transaction_handle where
  "invalid_handle = TransactionHandle False 0 0 TargetDevice"

definition th_lookup :: "transaction_handle \<Rightarrow> transaction_lookup" where
  "th_lookup h = (th_id h, th_initiator h)"

record transaction_data =
  td_handle :: transaction_handle
  client_has_sent_end :: bool
  server_has_sent_end :: bool
  client_should_send_end :: bool
  single_side_endable :: bool

section \<open>Messages\<close>

text \<open>The members of \<^verbatim>\<open>LPP_Message\<close>; a transaction is an initiator and a number.\<close>

record 'b lpp_message =
  transactionID :: "(int \<times> int) option"
  endTransaction :: bool
  sequenceNumber :: "int option"
  lpp_MessageBody :: "'b option"

definition Initiator_locationServer :: int where "Initiator_locationServer = 0"
definition Initiator_targetDevice :: int where "Initiator_targetDevice = 1"

text \<open>The encoder reports the number of bits, -1 for a failure, and fills the buffer it is given.\<close>

record 'b lpp_uper =
  lpp_uper_encode :: "'b lpp_message \<Rightarrow> int \<times> u8 list"
  lpp_uper_decode :: "u8 list \<Rightarrow> 'b lpp_message option"

definition encode_lpp_message :: "'b lpp_uper \<Rightarrow> 'b lpp_message \<Rightarrow> u8 list" where
  "encode_lpp_message codec message =
     (let (encoded, buffer) = lpp_uper_encode codec message
      in if encoded = -1 then []
         else let pdu_len = nat ((encoded + 7) div 8)
              in take pdu_len (take (1024 * 16) buffer @ replicate pdu_len 0))"

definition decode_lpp_message :: "'b lpp_uper \<Rightarrow> u8 list \<Rightarrow> 'b lpp_message option" where
  "decode_lpp_message codec data = lpp_uper_decode codec data"

section \<open>State\<close>

datatype State =
    ST_UNKNOWN | ST_CONNECT | ST_CONNECTING | ST_CONNECTED | ConnectionFailed | ST_DISCONNECTED
  | SuplHandshakeSend | SuplHandshakeRecv | SuplPosinit | ESTABLISHED | MESSAGE | ERROR | EXIT

record ('t, 'w) lpp_session =
  lpp_state :: State
  supl :: "'t supl_session option"
  mTransacionLookup :: "transaction_lookup \<rightharpoonup> transaction_handle"
  mTransactions :: "transaction_handle \<rightharpoonup> transaction_data"
  mClientTransactions :: "int set"
  mPosQueue :: "POS list"
  mTransactionId :: int
  mGenerationId :: int
  mSequenceNumber :: int
  mNextReadState :: State
  mNextWriteState :: State
  mNextErrorState :: State
  mHackServerInitiatedPush :: bool
  world :: 'w

definition lpp_Session :: "'w \<Rightarrow> ('t, 'w) lpp_session" where
  "lpp_Session w =
     \<lparr>lpp_state = ST_UNKNOWN, supl = None, mTransacionLookup = Map.empty, mTransactions = Map.empty,
      mClientTransactions = {}, mPosQueue = [], mTransactionId = 1, mGenerationId = 1,
      mSequenceNumber = 0, mNextReadState = ST_UNKNOWN, mNextWriteState = ST_UNKNOWN,
      mNextErrorState = ST_UNKNOWN, mHackServerInitiatedPush = False, world = w\<rparr>"

text \<open>The callbacks; \<open>None\<close> is an empty \<^verbatim>\<open>std::function\<close>.\<close>

record ('t, 'b, 'w) handlers =
  on_begin_transaction :: "(transaction_handle \<Rightarrow> ('t, 'w) lpp_session \<Rightarrow> ('t, 'w) lpp_session) option"
  on_server_end_transaction :: "(transaction_handle \<Rightarrow> ('t, 'w) lpp_session \<Rightarrow> ('t, 'w) lpp_session) option"
  on_end_transaction :: "(transaction_handle \<Rightarrow> ('t, 'w) lpp_session \<Rightarrow> ('t, 'w) lpp_session) option"
  on_message ::
    "(transaction_handle \<Rightarrow> 'b lpp_message \<Rightarrow> ('t, 'w) lpp_session \<Rightarrow> ('t, 'w) lpp_session option) option"

definition call :: "('a \<Rightarrow> 's \<Rightarrow> 's) option \<Rightarrow> 'a \<Rightarrow> 's \<Rightarrow> 's" where
  "call f x s = (case f of None \<Rightarrow> s | Some g \<Rightarrow> g x s)"

text \<open>What the session uses outside of itself.\<close>

record ('t, 'c, 'b) environment =
  env_tcp :: "'t tcp"
  env_ulp :: "'c uper"
  env_lpp :: "'b lpp_uper"

section \<open>Looking up, creating and removing transactions\<close>

definition find_by_id :: "('t, 'w) lpp_session \<Rightarrow> int \<times> int \<Rightarrow> transaction_data option" where
  "find_by_id s transaction_id =
     (let initiator = (if fst transaction_id = Initiator_targetDevice then TargetDevice else LocationServer)
      in case mTransacionLookup s (snd transaction_id, initiator) of
           None \<Rightarrow> None | Some h \<Rightarrow> mTransactions s h)"

definition find_transaction :: "('t, 'w) lpp_session \<Rightarrow> transaction_handle \<Rightarrow> transaction_data option" where
  "find_transaction s h = mTransactions s h"

function free_id :: "int set \<Rightarrow> int \<Rightarrow> int \<Rightarrow> int option" where
  "free_id used start i =
     (if i < 255 then
        (let n = (start + i) mod 256
         in if n \<notin> used then Some n else free_id used start (i + 1))
      else None)"
  by pat_completeness auto

termination by (relation "measure (\<lambda>(_, _, i). nat (255 - i))") auto

declare free_id.simps [simp del]

definition allocate_transaction :: "('t, 'w) lpp_session \<Rightarrow> transaction_handle \<times> ('t, 'w) lpp_session" where
  "allocate_transaction s =
     (case free_id (mClientTransactions s) (mTransactionId s) 0 of
        None \<Rightarrow> (invalid_handle, s)
      | Some n \<Rightarrow> (TransactionHandle True n (mGenerationId s) TargetDevice,
          s\<lparr>mTransactionId := (n + 1) mod 256, mGenerationId := mGenerationId s + 1\<rparr>))"

definition add_transaction ::
  "('t, 'b, 'w) handlers \<Rightarrow> transaction_handle \<Rightarrow> bool \<Rightarrow> ('t, 'w) lpp_session \<Rightarrow> bool \<times> ('t, 'w) lpp_session" where
  "add_transaction hs h sse s =
     (if th_id h < 0 \<or> th_id h > 255 then (False, s)
      else if mTransactions s h \<noteq> None then (False, s)
      else
        let data = \<lparr>td_handle = h, client_has_sent_end = False, server_has_sent_end = False,
                    client_should_send_end = False, single_side_endable = sse\<rparr>;
            s = s\<lparr>mTransacionLookup := (mTransacionLookup s)(th_lookup h \<mapsto> h),
                  mTransactions := (mTransactions s)(h \<mapsto> data)\<rparr>
        in (True, call (on_begin_transaction hs) h s))"

definition remove_transaction ::
  "('t, 'b, 'w) handlers \<Rightarrow> transaction_handle \<Rightarrow> ('t, 'w) lpp_session \<Rightarrow> bool \<times> ('t, 'w) lpp_session" where
  "remove_transaction hs h s =
     (case mTransactions s h of None \<Rightarrow> (False, s)
      | Some data \<Rightarrow>
          let ended_by_both = client_has_sent_end data \<and> client_has_sent_end data;
              ended_by_someone = client_has_sent_end data \<or> server_has_sent_end data
          in if ended_by_both \<or> (single_side_endable data \<and> ended_by_someone) then
               let s = call (on_end_transaction hs) h s;
                   s = s\<lparr>mTransacionLookup := (mTransacionLookup s)(th_lookup h := None),
                         mTransactions := (mTransactions s)(h := None)\<rparr>;
                   s = (if th_initiator h = TargetDevice
                        then s\<lparr>mClientTransactions := mClientTransactions s - {th_id h}\<rparr> else s)
               in (True, s)
             else (False, s))"

definition server_end_transaction ::
  "('t, 'b, 'w) handlers \<Rightarrow> transaction_handle \<Rightarrow> ('t, 'w) lpp_session \<Rightarrow> ('t, 'w) lpp_session" where
  "server_end_transaction hs h s =
     (case mTransactions s h of None \<Rightarrow> s
      | Some data \<Rightarrow>
          let s = s\<lparr>mTransactions := (mTransactions s)(h \<mapsto> data\<lparr>server_has_sent_end := True\<rparr>)\<rparr>;
              s = (if single_side_endable data then call (on_server_end_transaction hs) h s else s)
          in snd (remove_transaction hs h s))"

definition client_end_transaction ::
  "('t, 'b, 'w) handlers \<Rightarrow> transaction_handle \<Rightarrow> ('t, 'w) lpp_session \<Rightarrow> ('t, 'w) lpp_session" where
  "client_end_transaction hs h s =
     (case mTransactions s h of None \<Rightarrow> s
      | Some data \<Rightarrow>
          snd (remove_transaction hs h
            (s\<lparr>mTransactions := (mTransactions s)(h \<mapsto> data\<lparr>client_has_sent_end := True\<rparr>)\<rparr>)))"

definition create_transaction ::
  "('t, 'b, 'w) handlers \<Rightarrow> bool \<Rightarrow> ('t, 'w) lpp_session \<Rightarrow> transaction_handle \<times> ('t, 'w) lpp_session" where
  "create_transaction hs sse s =
     (let (h, s) = allocate_transaction s
      in if \<not> th_valid h then (invalid_handle, s)
         else let (ok, s) = add_transaction hs h sse s
              in if \<not> ok then (invalid_handle, s) else (h, s))"

definition delete_transaction ::
  "('t, 'b, 'w) handlers \<Rightarrow> transaction_handle \<Rightarrow> ('t, 'w) lpp_session \<Rightarrow> ('t, 'w) lpp_session" where
  "delete_transaction hs h s = client_end_transaction hs h s"

section \<open>Sending\<close>

definition queue_pos :: "POS \<Rightarrow> ('t, 'w) lpp_session \<Rightarrow> ('t, 'w) lpp_session" where
  "queue_pos pos s =
     (let s = s\<lparr>mPosQueue := mPosQueue s @ [pos]\<rparr>
      in if length (mPosQueue s) > 16 then s\<lparr>mPosQueue := []\<rparr> else s)"

definition lpp_pos :: "u8 list \<Rightarrow> POS" where
  "lpp_pos lpp_message = \<lparr>pos_payloads = [\<lparr>payload_type = LPP, payload_data = lpp_message\<rparr>]\<rparr>"

text \<open>The message with the header that \<^verbatim>\<open>send\<close> fills in.\<close>

definition stamped :: "transaction_handle \<Rightarrow> transaction_data \<Rightarrow> int \<Rightarrow> 'b lpp_message \<Rightarrow> 'b lpp_message" where
  "stamped h transaction sequence message =
     message\<lparr>transactionID :=
         Some (if th_initiator h = TargetDevice then Initiator_targetDevice else Initiator_locationServer, th_id h),
       endTransaction := client_should_send_end transaction,
       sequenceNumber := Some (sequence mod 255)\<rparr>"

text \<open>The end of \<^verbatim>\<open>send\<close>, when the message has been sent or queued.\<close>

definition after_send ::
  "('t, 'b, 'w) handlers \<Rightarrow> transaction_handle \<Rightarrow> transaction_data \<Rightarrow> ('t, 'w) lpp_session \<Rightarrow> ('t, 'w) lpp_session" where
  "after_send hs h transaction s =
     (if client_should_send_end transaction
      then client_end_transaction hs h
        (s\<lparr>mTransactions := (mTransactions s)(h \<mapsto> transaction\<lparr>client_should_send_end := False\<rparr>)\<rparr>)
      else s)"

definition send ::
  "('t, 'c, 'b) environment \<Rightarrow> ('t, 'b, 'w) handlers \<Rightarrow> transaction_handle \<Rightarrow> 'b lpp_message \<Rightarrow>
   ('t, 'w) lpp_session \<Rightarrow> ('t, 'w) lpp_session option" where
  "send env hs h message s =
     (if transactionID message \<noteq> None \<or> endTransaction message \<or> sequenceNumber message \<noteq> None then Some s
      else case find_transaction s h of None \<Rightarrow> Some s
      | Some transaction \<Rightarrow>
          if client_has_sent_end transaction then Some s
          else
            let message = stamped h transaction (mSequenceNumber s) message;
                s = s\<lparr>mSequenceNumber := mSequenceNumber s + 1\<rparr>;
                lpp_message = encode_lpp_message (env_lpp env) message
            in if length lpp_message \<le> 0 then Some s
               else case supl s of
                 None \<Rightarrow> Some (after_send hs h transaction (queue_pos (lpp_pos lpp_message) s))
               | Some u \<Rightarrow>
                   (case supl_send (env_tcp env) (env_ulp env) (SendPOS (lpp_pos lpp_message)) u of
                      None \<Rightarrow> None
                    | Some (ok, u) \<Rightarrow>
                        if \<not> ok then Some (s\<lparr>supl := Some (supl_disconnect (env_tcp env) u)\<rparr>)
                        else Some (after_send hs h transaction (s\<lparr>supl := Some u\<rparr>))))"

definition send_with_end ::
  "('t, 'c, 'b) environment \<Rightarrow> ('t, 'b, 'w) handlers \<Rightarrow> transaction_handle \<Rightarrow> 'b lpp_message \<Rightarrow>
   ('t, 'w) lpp_session \<Rightarrow> ('t, 'w) lpp_session option" where
  "send_with_end env hs h message s =
     (case find_transaction s h of None \<Rightarrow> Some s
      | Some transaction \<Rightarrow>
          send env hs h message (s\<lparr>mTransactions :=
            (mTransactions s)(h \<mapsto> transaction\<lparr>client_should_send_end := True\<rparr>)\<rparr>))"

text \<open>\<open>body\<close>: the body that \<^verbatim>\<open>create_abort\<close> builds.\<close>

definition create_abort :: "'b \<Rightarrow> 'b lpp_message" where
  "create_abort body =
     \<lparr>transactionID = None, endTransaction = False, sequenceNumber = None, lpp_MessageBody = Some body\<rparr>"

definition abort ::
  "('t, 'c, 'b) environment \<Rightarrow> ('t, 'b, 'w) handlers \<Rightarrow> 'b \<Rightarrow> transaction_handle \<Rightarrow>
   ('t, 'w) lpp_session \<Rightarrow> ('t, 'w) lpp_session option" where
  "abort env hs body h s = send_with_end env hs h (create_abort body) s"

text \<open>The same through a handle, which may be invalid.\<close>

definition handle_send ::
  "('t, 'c, 'b) environment \<Rightarrow> ('t, 'b, 'w) handlers \<Rightarrow> transaction_handle \<Rightarrow> 'b lpp_message \<Rightarrow>
   ('t, 'w) lpp_session \<Rightarrow> ('t, 'w) lpp_session option" where
  "handle_send env hs h message s = (if th_valid h then send env hs h message s else Some s)"

definition handle_send_with_end ::
  "('t, 'c, 'b) environment \<Rightarrow> ('t, 'b, 'w) handlers \<Rightarrow> transaction_handle \<Rightarrow> 'b lpp_message \<Rightarrow>
   ('t, 'w) lpp_session \<Rightarrow> ('t, 'w) lpp_session option" where
  "handle_send_with_end env hs h message s =
     (if th_valid h then send_with_end env hs h message s else Some s)"

section \<open>Receiving\<close>

definition call_message ::
  "('t, 'b, 'w) handlers \<Rightarrow> transaction_handle \<Rightarrow> 'b lpp_message \<Rightarrow> ('t, 'w) lpp_session \<Rightarrow>
   ('t, 'w) lpp_session option" where
  "call_message hs h message s = (case on_message hs of None \<Rightarrow> Some s | Some f \<Rightarrow> f h message s)"

text \<open>The part of \<^verbatim>\<open>process_lpp_payload\<close> after the transaction has been found.\<close>

definition deliver ::
  "('t, 'b, 'w) handlers \<Rightarrow> transaction_data \<Rightarrow> 'b lpp_message \<Rightarrow> ('t, 'w) lpp_session \<Rightarrow>
   ('t, 'w) lpp_session option" where
  "deliver hs transaction message s =
     (let h = td_handle transaction
      in map_option (\<lambda>s. if endTransaction message then server_end_transaction hs h s else s)
           (call_message hs h message s))"

definition process_lpp_payload ::
  "('t, 'c, 'b) environment \<Rightarrow> ('t, 'b, 'w) handlers \<Rightarrow> u8 list \<Rightarrow>
   ('t, 'w) lpp_session \<Rightarrow> ('t, 'w) lpp_session option" where
  "process_lpp_payload env hs data s =
     (if supl s = None then None
      else case decode_lpp_message (env_lpp env) data of None \<Rightarrow> Some s
      | Some message \<Rightarrow>
          (case transactionID message of None \<Rightarrow> Some s
           | Some tid \<Rightarrow>
               if lpp_MessageBody message = None then Some s
               else case find_by_id s tid of
                 Some transaction \<Rightarrow> deliver hs transaction message s
               | None \<Rightarrow>
                   if fst tid = Initiator_targetDevice then
                     (if \<not> mHackServerInitiatedPush s then Some s
                      else call_message hs (TransactionHandle True (snd tid) 0 LocationServer) message s)
                   else
                     let h = TransactionHandle True (snd tid) (mGenerationId s) LocationServer;
                         s = s\<lparr>mGenerationId := mGenerationId s + 1\<rparr>;
                         s = snd (add_transaction hs h True s)
                     in case find_by_id s tid of None \<Rightarrow> Some s
                        | Some transaction \<Rightarrow> deliver hs transaction message s))"

fun process_payloads ::
  "('t, 'c, 'b) environment \<Rightarrow> ('t, 'b, 'w) handlers \<Rightarrow> Payload list \<Rightarrow>
   ('t, 'w) lpp_session \<Rightarrow> ('t, 'w) lpp_session option" where
  "process_payloads env hs [] s = Some s"
| "process_payloads env hs (p # ps) s =
     (if payload_type p = LPP
      then case process_lpp_payload env hs (payload_data p) s of None \<Rightarrow> None
           | Some s \<Rightarrow> process_payloads env hs ps s
      else process_payloads env hs ps s)"

definition process_supl_pos ::
  "('t, 'c, 'b) environment \<Rightarrow> ('t, 'b, 'w) handlers \<Rightarrow> POS \<Rightarrow>
   ('t, 'w) lpp_session \<Rightarrow> ('t, 'w) lpp_session option" where
  "process_supl_pos env hs pos s = process_payloads env hs (pos_payloads pos) s"

end
