(* ===== verification/Lpp_Transactions.thy ===== *)
theory Lpp_Transactions
  imports Lpp_Session
begin

text \<open>
  What the transactions of an LPP session guarantee: the tables agree, a handle that is dead stays
  dead, what goes out on the wire and when, and how long the number of a transaction is its own.
  The callbacks are only assumed to use the session through its operations (\<open>polite\<close>).
\<close>

section \<open>The invariant of the tables\<close>

definition tx_ok :: "('t, 'w) lpp_session \<Rightarrow> bool" where
  "tx_ok s \<longleftrightarrow>
     (\<forall>h d. mTransactions s h = Some d \<longrightarrow> td_handle d = h \<and> th_valid h \<and> 0 \<le> th_id h \<and>
        th_id h \<le> 255 \<and> th_generation h < mGenerationId s) \<and>
     (\<forall>l h. mTransacionLookup s l = Some h \<longrightarrow> th_lookup h = l \<and> mTransactions s h \<noteq> None) \<and>
     (\<forall>h h'. mTransactions s h \<noteq> None \<longrightarrow> mTransactions s h' \<noteq> None \<longrightarrow>
        th_generation h = th_generation h' \<longrightarrow> h = h') \<and>
     0 \<le> mTransactionId s \<and> mTransactionId s < 256 \<and> mClientTransactions s = {}"

text \<open>
  One state may follow another: the invariant is kept, generations grow, no handle of an old
  generation comes back, and what has been ended stays ended.
\<close>

definition flags_follow :: "transaction_data \<Rightarrow> transaction_data \<Rightarrow> bool" where
  "flags_follow d d' \<longleftrightarrow> td_handle d' = td_handle d \<and>
     single_side_endable d' = single_side_endable d \<and>
     (client_has_sent_end d \<longrightarrow> client_has_sent_end d') \<and> (server_has_sent_end d \<longrightarrow> server_has_sent_end d')"

lemma flags_follow_refl [simp, intro]: "flags_follow d d"
  by (simp add: flags_follow_def)

lemma flags_follow_trans: "flags_follow d d' \<Longrightarrow> flags_follow d' d'' \<Longrightarrow> flags_follow d d''"
  by (auto simp: flags_follow_def)

definition follows :: "('t, 'w) lpp_session \<Rightarrow> ('t, 'w) lpp_session \<Rightarrow> bool" where
  "follows s s' \<longleftrightarrow> (tx_ok s \<longrightarrow> tx_ok s' \<and> mGenerationId s \<le> mGenerationId s' \<and>
     (\<forall>h. th_generation h < mGenerationId s \<longrightarrow> mTransactions s h = None \<longrightarrow> mTransactions s' h = None) \<and>
     (\<forall>h d d'. mTransactions s h = Some d \<longrightarrow> mTransactions s' h = Some d' \<longrightarrow> flags_follow d d'))"

lemma follows_refl [simp, intro]: "follows s s"
  by (simp add: follows_def)

lemma live_generation: "tx_ok s \<Longrightarrow> mTransactions s h = Some d \<Longrightarrow> th_generation h < mGenerationId s"
  by (simp add: tx_ok_def)

lemma follows_trans [trans]: "follows s t \<Longrightarrow> follows t u \<Longrightarrow> follows s u"
proof -
  assume st: "follows s t" and tu: "follows t u"
  show "follows s u"
    unfolding follows_def
  proof (intro impI conjI allI)
    assume ok: "tx_ok s"
    have t: "tx_ok t" "mGenerationId s \<le> mGenerationId t" using st ok by (simp_all add: follows_def)
    show "tx_ok u" using tu t by (simp add: follows_def)
    show "mGenerationId s \<le> mGenerationId u" using tu t by (auto simp: follows_def)
    show "mTransactions u h = None" if "th_generation h < mGenerationId s" "mTransactions s h = None" for h
      using st tu t ok that by (auto simp: follows_def)
    show "flags_follow d d''"
      if a: "mTransactions s h = Some d" and b: "mTransactions u h = Some d''" for h d d''
    proof -
      have "th_generation h < mGenerationId t" using live_generation [OF ok a] t by simp
      then obtain d' where "mTransactions t h = Some d'"
        using tu t b by (cases "mTransactions t h") (auto simp: follows_def)
      then show ?thesis using st tu t ok a b flags_follow_trans unfolding follows_def by blast
    qed
  qed
qed

text \<open>A change that leaves the tables and the numbers alone.\<close>

definition same_tables :: "('t, 'w) lpp_session \<Rightarrow> ('t, 'w) lpp_session \<Rightarrow> bool" where
  "same_tables s s' \<longleftrightarrow> mTransacionLookup s' = mTransacionLookup s \<and>
     mTransactions s' = mTransactions s \<and> mClientTransactions s' = mClientTransactions s \<and>
     mTransactionId s' = mTransactionId s \<and> mGenerationId s' = mGenerationId s"

lemma same_tables_follows: "same_tables s s' \<Longrightarrow> follows s s'"
  by (simp add: same_tables_def follows_def tx_ok_def)

definition polite :: "('t, 'b, 'w) handlers \<Rightarrow> bool" where
  "polite hs \<longleftrightarrow>
     (\<forall>f h s. on_begin_transaction hs = Some f \<longrightarrow> follows s (f h s)) \<and>
     (\<forall>f h s. on_server_end_transaction hs = Some f \<longrightarrow> follows s (f h s)) \<and>
     (\<forall>f h s. on_end_transaction hs = Some f \<longrightarrow> follows s (f h s)) \<and>
     (\<forall>f h m s s'. on_message hs = Some f \<longrightarrow> f h m s = Some s' \<longrightarrow> follows s s')"

lemma polite_call:
  assumes "polite hs"
  shows "follows s (call (on_begin_transaction hs) h s)"
    and "follows s (call (on_server_end_transaction hs) h s)"
    and "follows s (call (on_end_transaction hs) h s)"
    and "call_message hs h m s = Some s' \<Longrightarrow> follows s s'"
  using assms by (auto simp: polite_def call_def call_message_def split: option.splits)

section \<open>The operations keep it\<close>

text \<open>A transaction that is live gets other flags.\<close>

lemma follows_flags:
  assumes "mTransactions s h = Some d" and "flags_follow d d'"
  shows "follows s (s\<lparr>mTransactions := (mTransactions s)(h \<mapsto> d')\<rparr>)"
  using assms unfolding follows_def tx_ok_def by (auto simp: flags_follow_def split: if_splits)

text \<open>A transaction with a new generation is entered.\<close>

lemma follows_enter:
  assumes "th_valid h" and "0 \<le> th_id h" and "th_id h \<le> 255" and "th_generation h = mGenerationId s"
    and "td_handle d = h" and "0 \<le> i" and "i < 256"
  shows "follows s (s\<lparr>mTransactionId := i, mGenerationId := mGenerationId s + 1,
    mTransacionLookup := (mTransacionLookup s)(th_lookup h \<mapsto> h),
    mTransactions := (mTransactions s)(h \<mapsto> d)\<rparr>)"
    (is "follows s ?s")
proof -
  have "tx_ok ?s \<and> (\<forall>h'. th_generation h' < mGenerationId s \<longrightarrow> mTransactions s h' = None \<longrightarrow>
      mTransactions ?s h' = None)" if ok: "tx_ok s"
  proof -
    have old: "th_generation h' < mGenerationId s" if "mTransactions s h' = Some d'" for h' d'
      using ok that by (simp add: tx_ok_def)
    have 1: "\<forall>h' d'. mTransactions ?s h' = Some d' \<longrightarrow> td_handle d' = h' \<and> th_valid h' \<and> 0 \<le> th_id h' \<and>
        th_id h' \<le> 255 \<and> th_generation h' < mGenerationId ?s"
      using ok assms by (auto simp: tx_ok_def dest: old)
    have 2: "\<forall>l h'. mTransacionLookup ?s l = Some h' \<longrightarrow> th_lookup h' = l \<and> mTransactions ?s h' \<noteq> None"
      using ok by (auto simp: tx_ok_def)
    have lt: "th_generation x < mGenerationId s" if "mTransactions ?s x \<noteq> None" "x \<noteq> h" for x
      using that old by auto
    have inj: "h1 = h2" if "mTransactions s h1 \<noteq> None" "mTransactions s h2 \<noteq> None"
        "th_generation h1 = th_generation h2" for h1 h2
      using ok that unfolding tx_ok_def by blast
    have 3: "h1 = h2" if x: "mTransactions ?s h1 \<noteq> None" "mTransactions ?s h2 \<noteq> None"
        and g: "th_generation h1 = th_generation h2" for h1 h2
    proof (rule ccontr)
      assume ne: "h1 \<noteq> h2"
      then consider "h1 = h" "h2 \<noteq> h" | "h1 \<noteq> h" "h2 = h" | "h1 \<noteq> h" "h2 \<noteq> h" by blast
      then show False
      proof cases
        case 1
        show False using lt [OF x(2) 1(2)] g assms(4) 1(1) by simp
      next
        case 2
        show False using lt [OF x(1) 2(1)] g assms(4) 2(2) by simp
      next
        case 3
        then have "mTransactions s h1 \<noteq> None" "mTransactions s h2 \<noteq> None" using x by simp_all
        then show False using inj g ne by blast
      qed
    qed
    have "\<forall>h1 h2. mTransactions ?s h1 \<noteq> None \<longrightarrow> mTransactions ?s h2 \<noteq> None \<longrightarrow>
        th_generation h1 = th_generation h2 \<longrightarrow> h1 = h2"
      using 3 by blast
    moreover have "0 \<le> mTransactionId ?s \<and> mTransactionId ?s < 256 \<and> mClientTransactions ?s = {}"
      using ok assms by (simp add: tx_ok_def)
    ultimately have "tx_ok ?s" unfolding tx_ok_def using 1 2 by blast
    moreover have "\<forall>h'. th_generation h' < mGenerationId s \<longrightarrow> mTransactions s h' = None \<longrightarrow>
        mTransactions ?s h' = None"
      using assms(4) by (auto simp: fun_upd_def)
    ultimately show ?thesis by blast
  qed
  moreover have "mTransactions s h = None" if "tx_ok s"
    using live_generation [OF that] assms(4) by fastforce
  ultimately show ?thesis by (simp add: follows_def)
qed

text \<open>A transaction is removed, with whatever entry its number has.\<close>

lemma follows_erase:
  "follows s (s\<lparr>mTransacionLookup := (mTransacionLookup s)(th_lookup h := None),
     mTransactions := (mTransactions s)(h := None)\<rparr>)"
  unfolding follows_def tx_ok_def by (auto split: if_splits)

lemma follows_client_transactions:
  "follows s (s\<lparr>mClientTransactions := mClientTransactions s - {x}\<rparr>)"
  unfolding follows_def tx_ok_def by auto

lemma follows_generation: "follows s (s\<lparr>mGenerationId := mGenerationId s + 1\<rparr>)"
  unfolding follows_def tx_ok_def by fastforce

text \<open>Now the operations of the session, one after the other.\<close>

lemma free_id_less: "free_id used start i = Some n \<Longrightarrow> 0 \<le> n \<and> n < 256 \<and> n \<notin> used"
  by (induction used start i rule: free_id.induct)
    (subst (asm) (2) free_id.simps, auto simp: Let_def split: if_splits)

lemma follows_remove:
  assumes "polite hs"
  shows "follows s (snd (remove_transaction hs h s))"
proof -
  have "follows s (snd (remove_transaction hs h s))" if "mTransactions s h = Some d" for d
  proof -
    let ?t = "call (on_end_transaction hs) h s"
    have "follows s ?t" using assms by (rule polite_call)
    also have "follows ?t (?t\<lparr>mTransacionLookup := (mTransacionLookup ?t)(th_lookup h := None),
        mTransactions := (mTransactions ?t)(h := None)\<rparr>)" (is "follows _ ?u")
      by (rule follows_erase)
    finally have 1: "follows s ?u" .
    have 2: "follows s (?u\<lparr>mClientTransactions := mClientTransactions ?u - {th_id h}\<rparr>)"
      by (rule follows_trans [OF 1 follows_client_transactions])
    show ?thesis using that 1 2 by (simp add: remove_transaction_def Let_def)
  qed
  then show ?thesis by (cases "mTransactions s h") (auto simp: remove_transaction_def)
qed

lemma follows_client_end:
  assumes "polite hs"
  shows "follows s (client_end_transaction hs h s)"
  unfolding client_end_transaction_def
  by (auto simp: flags_follow_def split: option.split
      intro!: follows_trans [OF follows_flags follows_remove [OF assms]])

lemma follows_server_end:
  assumes "polite hs"
  shows "follows s (server_end_transaction hs h s)"
proof (cases "mTransactions s h")
  case (Some data)
  let ?t = "s\<lparr>mTransactions := (mTransactions s)(h \<mapsto> data\<lparr>server_has_sent_end := True\<rparr>)\<rparr>"
  have t: "follows s ?t" by (rule follows_flags [OF Some]) (simp add: flags_follow_def)
  have u: "follows s (call (on_server_end_transaction hs) h ?t)"
    by (rule follows_trans [OF t polite_call(2) [OF assms]])
  show ?thesis
    using Some follows_trans [OF t follows_remove [OF assms]] follows_trans [OF u follows_remove [OF assms]]
    by (simp add: server_end_transaction_def Let_def)
qed (simp add: server_end_transaction_def)

lemma add_transaction_eq:
  "snd (add_transaction hs h sse s) =
     (if 0 \<le> th_id h \<and> th_id h \<le> 255 \<and> mTransactions s h = None
      then call (on_begin_transaction hs) h (s\<lparr>mTransacionLookup := (mTransacionLookup s)(th_lookup h \<mapsto> h),
        mTransactions := (mTransactions s)(h \<mapsto> \<lparr>td_handle = h, client_has_sent_end = False,
          server_has_sent_end = False, client_should_send_end = False, single_side_endable = sse\<rparr>)\<rparr>)
      else s)"
  by (auto simp: add_transaction_def Let_def)

text \<open>Entering a transaction under the next generation, from either side.\<close>

lemma follows_add:
  assumes "polite hs" and "0 \<le> i" and "i < 256"
  shows "follows s (snd (add_transaction hs (TransactionHandle True n (mGenerationId s) who) sse
    (s\<lparr>mTransactionId := i, mGenerationId := mGenerationId s + 1\<rparr>)))"
proof -
  let ?h = "TransactionHandle True n (mGenerationId s) who"
  let ?s = "s\<lparr>mTransactionId := i, mGenerationId := mGenerationId s + 1\<rparr>"
  have 1: "follows s ?s"
    using assms(2,3) unfolding follows_def tx_ok_def by fastforce
  show ?thesis
  proof (cases "0 \<le> n \<and> n \<le> 255 \<and> mTransactions s ?h = None")
    case True
    then show ?thesis
      using follows_enter [of ?h s "\<lparr>td_handle = ?h, client_has_sent_end = False,
          server_has_sent_end = False, client_should_send_end = False, single_side_endable = sse\<rparr>" i]
        assms
      by (simp add: add_transaction_eq follows_trans [OF _ polite_call(1) [OF assms(1)]])
  next
    case False
    then show ?thesis using 1 by (auto simp: add_transaction_eq)
  qed
qed

lemma follows_add_next:
  assumes "polite hs" and "tx_ok s"
  shows "follows s (snd (add_transaction hs (TransactionHandle True n (mGenerationId s) who) sse
    (s\<lparr>mGenerationId := mGenerationId s + 1\<rparr>)))"
proof -
  have "s\<lparr>mTransactionId := mTransactionId s, mGenerationId := mGenerationId s + 1\<rparr> =
      s\<lparr>mGenerationId := mGenerationId s + 1\<rparr>" by simp
  moreover have "0 \<le> mTransactionId s" "mTransactionId s < 256" using assms(2) by (simp_all add: tx_ok_def)
  ultimately show ?thesis using follows_add [OF assms(1)] by metis
qed

lemma create_transaction_eq:
  "snd (create_transaction hs sse s) =
     (case free_id (mClientTransactions s) (mTransactionId s) 0 of None \<Rightarrow> s
      | Some n \<Rightarrow> snd (add_transaction hs (TransactionHandle True n (mGenerationId s) TargetDevice) sse
          (s\<lparr>mTransactionId := (n + 1) mod 256, mGenerationId := mGenerationId s + 1\<rparr>)))"
  by (simp add: create_transaction_def allocate_transaction_def invalid_handle_def Let_def
      split: option.split prod.split)

lemma follows_create:
  assumes "polite hs"
  shows "follows s (snd (create_transaction hs sse s))"
  by (auto simp: create_transaction_eq split: option.split intro!: follows_add assms)

lemma follows_after_send:
  assumes "polite hs" and "mTransactions s h = Some d"
  shows "follows s (after_send hs h d s)"
proof -
  have "follows s (s\<lparr>mTransactions := (mTransactions s)(h \<mapsto> d\<lparr>client_should_send_end := False\<rparr>)\<rparr>)"
    by (rule follows_flags [OF assms(2)]) (simp add: flags_follow_def)
  then show ?thesis
    by (simp add: after_send_def follows_trans [OF _ follows_client_end [OF assms(1)]])
qed

text \<open>\<open>send\<close> changes the sequence number, the queue or the connection, and then the flags.\<close>

definition only_connection :: "('t, 'w) lpp_session \<Rightarrow> ('t, 'w) lpp_session \<Rightarrow> bool" where
  "only_connection s s' \<longleftrightarrow> same_tables s s' \<and> world s' = world s \<and>
     mHackServerInitiatedPush s' = mHackServerInitiatedPush s"

lemma send_cases_all:
  assumes "send env hs h message s = Some s'"
  obtains "only_connection s s'"
  | d t where "mTransactions s h = Some d" "only_connection s t" "s' = after_send hs h d t"
proof -
  let ?early = "transactionID message \<noteq> None \<or> endTransaction message \<or> sequenceNumber message \<noteq> None"
  show thesis
  proof (cases "?early \<or> mTransactions s h = None")
    case True
    then have "s' = s" using assms by (auto simp: send_def find_transaction_def split: if_splits)
    then show thesis by (intro that(1)) (simp add: only_connection_def same_tables_def)
  next
    case False
    then obtain d where d: "mTransactions s h = Some d" by auto
    let ?t = "s\<lparr>mSequenceNumber := mSequenceNumber s + 1\<rparr>"
    let ?l = "encode_lpp_message (env_lpp env) (stamped h d (mSequenceNumber s) message)"
    have t: "only_connection s ?t" by (simp add: only_connection_def same_tables_def)
    have e: "send env hs h message s =
        (if client_has_sent_end d then Some s else if length ?l \<le> 0 then Some ?t
         else case supl s of
            None \<Rightarrow> Some (after_send hs h d (queue_pos (lpp_pos ?l) ?t))
          | Some u \<Rightarrow> (case supl_send (env_tcp env) (env_ulp env) (SendPOS (lpp_pos ?l)) u of None \<Rightarrow> None
              | Some (ok, u) \<Rightarrow> if \<not> ok then Some (?t\<lparr>supl := Some (supl_disconnect (env_tcp env) u)\<rparr>)
                  else Some (after_send hs h d (?t\<lparr>supl := Some u\<rparr>))))"
      using False d by (simp add: send_def find_transaction_def Let_def)
    have q: "only_connection s (queue_pos pos ?t)" for pos
      by (simp add: only_connection_def same_tables_def queue_pos_def Let_def)
    have u: "only_connection s (?t\<lparr>supl := x\<rparr>)" for x by (simp add: only_connection_def same_tables_def)
    show thesis
    proof (cases "client_has_sent_end d \<or> length ?l \<le> 0")
      case True
      then show thesis using assms e t that(1) by (auto simp: only_connection_def same_tables_def split: if_splits)
    next
      case c: False
      show thesis
      proof (cases "supl s")
        case None
        then have "s' = after_send hs h d (queue_pos (lpp_pos ?l) ?t)" using assms e c by simp
        then show thesis by (rule that(2) [OF d q])
      next
        case (Some v)
        with assms e c obtain ok w where "supl_send (env_tcp env) (env_ulp env) (SendPOS (lpp_pos ?l)) v = Some (ok, w)"
          by (cases "supl_send (env_tcp env) (env_ulp env) (SendPOS (lpp_pos ?l)) v") auto
        then have "s' = (if \<not> ok then ?t\<lparr>supl := Some (supl_disconnect (env_tcp env) w)\<rparr>
            else after_send hs h d (?t\<lparr>supl := Some w\<rparr>))"
          using assms e c Some by (simp split: if_splits)
        moreover have "only_connection s (?t\<lparr>supl := Some x\<rparr>)" for x by (rule u)
        ultimately show thesis using that(1) that(2) [OF d] by (cases ok) auto
      qed
    qed
  qed
qed

lemma send_cases:
  assumes "send env hs h message s = Some s'"
  obtains "same_tables s s'"
  | d t where "mTransactions s h = Some d" "same_tables s t" "s' = after_send hs h d t"
  using assms by (cases rule: send_cases_all) (auto simp: only_connection_def)

lemma follows_send:
  assumes "polite hs" and "send env hs h message s = Some s'"
  shows "follows s s'"
  using assms(2)
proof (cases rule: send_cases)
  case 1
  then show ?thesis by (rule same_tables_follows)
next
  case (2 d t)
  then have "mTransactions t h = Some d" by (simp add: same_tables_def)
  then show ?thesis
    using 2 follows_trans [OF same_tables_follows follows_after_send [OF assms(1)]] by blast
qed

lemma follows_send_with_end:
  assumes "polite hs" and "send_with_end env hs h message s = Some s'"
  shows "follows s s'"
proof (cases "mTransactions s h")
  case (Some d)
  then have "follows s (s\<lparr>mTransactions := (mTransactions s)(h \<mapsto> d\<lparr>client_should_send_end := True\<rparr>)\<rparr>)"
    by (rule follows_flags) (simp add: flags_follow_def)
  also have "follows \<dots> s'"
    using assms Some by (simp add: send_with_end_def find_transaction_def follows_send)
  finally show ?thesis .
qed (use assms in \<open>simp add: send_with_end_def find_transaction_def\<close>)

lemma follows_deliver:
  assumes "polite hs" and "deliver hs d m s = Some s'"
  shows "follows s s'"
  using assms(2)
  by (auto simp: deliver_def Let_def dest!: polite_call(4) [OF assms(1)]
      intro: follows_trans [OF _ follows_server_end [OF assms(1)]])

lemma follows_payload:
  assumes "polite hs" and "process_lpp_payload env hs data s = Some s'"
  shows "follows s s'"
proof (cases "tx_ok s")
  case ok: True
  note new = follows_add_next [OF assms(1) ok]
  show ?thesis
    using assms(2)
    by (auto simp: process_lpp_payload_def Let_def split: if_splits option.splits
        dest: follows_deliver [OF assms(1)] polite_call(4) [OF assms(1)]
        intro: new follows_trans [OF new])
qed (simp add: follows_def)

lemma follows_pos:
  assumes "polite hs" and "process_payloads env hs ps s = Some s'"
  shows "follows s s'"
  using assms(2)
proof (induction ps arbitrary: s)
  case (Cons p ps)
  then show ?case
    by (auto split: if_splits option.splits intro: follows_trans [OF follows_payload [OF assms(1)]])
qed simp

section \<open>Runs of a session\<close>

text \<open>
  Everything that happens to the transactions of a session: calls of its operations, received
  messages, and changes of the connection, the state machine or the objects around it.
\<close>

inductive session_steps ::
  "('t, 'c, 'b) environment \<Rightarrow> ('t, 'b, 'w) handlers \<Rightarrow> ('t, 'w) lpp_session \<Rightarrow> ('t, 'w) lpp_session \<Rightarrow> bool"
  for env hs s where
  start: "session_steps env hs s s"
| creates: "session_steps env hs s t \<Longrightarrow> session_steps env hs s (snd (create_transaction hs sse t))"
| deletes: "session_steps env hs s t \<Longrightarrow> session_steps env hs s (delete_transaction hs h t)"
| sends: "session_steps env hs s t \<Longrightarrow> send env hs h m t = Some t' \<Longrightarrow> session_steps env hs s t'"
| ends: "session_steps env hs s t \<Longrightarrow> send_with_end env hs h m t = Some t' \<Longrightarrow> session_steps env hs s t'"
| receives: "session_steps env hs s t \<Longrightarrow> process_supl_pos env hs pos t = Some t' \<Longrightarrow> session_steps env hs s t'"
| otherwise: "session_steps env hs s t \<Longrightarrow> same_tables t t' \<Longrightarrow> session_steps env hs s t'"

lemma follows_steps:
  assumes "session_steps env hs s t" and "polite hs"
  shows "follows s t"
  using assms(1)
proof (induction rule: session_steps.induct)
  case (creates t sse)
  from creates(2) show ?case by (rule follows_trans) (rule follows_create [OF assms(2)])
next
  case (deletes t h)
  from deletes(2) show ?case
    unfolding delete_transaction_def by (rule follows_trans) (rule follows_client_end [OF assms(2)])
next
  case (sends t h m t')
  then show ?case using follows_send [OF assms(2)] follows_trans by blast
next
  case (ends t h m t')
  then show ?case using follows_send_with_end [OF assms(2)] follows_trans by blast
next
  case (receives t pos t')
  then show ?case using follows_pos [OF assms(2)] follows_trans unfolding process_supl_pos_def by blast
next
  case (otherwise t t')
  then show ?case using same_tables_follows follows_trans by blast
qed simp

lemma tx_ok_new: "tx_ok (lpp_Session w)"
  by (simp add: tx_ok_def lpp_Session_def)

lemma dead_operations:
  assumes "mTransactions s h = None"
  shows "send env hs h m s = Some s" and "send_with_end env hs h m s = Some s"
    and "delete_transaction hs h s = s" and "server_end_transaction hs h s = s"
  using assms
  by (simp_all add: send_def send_with_end_def find_transaction_def delete_transaction_def
      client_end_transaction_def server_end_transaction_def)

text \<open>C39: a handle of a transaction that is over is of no use any more, although the numbers of
  transactions are used again: after any further sequence of calls, received messages and
  callbacks the handle names no transaction, and sending or ending through it changes nothing
  and sends nothing.\<close>

theorem stale_handle_is_dead:
  assumes "polite hs" and "tx_ok s" and "th_generation h < mGenerationId s"
    and "mTransactions s h = None" and "session_steps env hs s t"
  shows "mTransactions t h = None \<and> send env hs h m t = Some t \<and>
    send_with_end env hs h m t = Some t \<and> delete_transaction hs h t = t"
proof -
  have "follows s t" by (rule follows_steps [OF assms(5,1)])
  then have "mTransactions t h = None" using assms(2-4) by (simp add: follows_def)
  then show ?thesis by (simp add: dead_operations)
qed

text \<open>C40: the tables of a session stay consistent whatever the server sends and the callbacks do:
  every live transaction has a number from 0 to 255 and a generation of its own, and every entry
  of the table by numbers leads to a live transaction with this number and initiator.\<close>

theorem transactions_consistent:
  assumes "polite hs" and "session_steps env hs (lpp_Session w) t"
  shows "tx_ok t"
  using follows_steps [OF assms(2,1)] by (simp add: follows_def tx_ok_new)

section \<open>Ending a transaction\<close>

lemma removed:
  "mTransactions s h = Some d \<Longrightarrow> client_has_sent_end d \<or> (single_side_endable d \<and> server_has_sent_end d) \<Longrightarrow>
   mTransactions (snd (remove_transaction hs h s)) h = None"
  by (auto simp: remove_transaction_def Let_def)

lemma follows_live:
  "follows s t \<Longrightarrow> tx_ok s \<Longrightarrow> mTransactions s h = Some d \<Longrightarrow> mTransactions t h = Some e \<Longrightarrow> flags_follow d e"
  unfolding follows_def by blast

lemma client_ended: "mTransactions (client_end_transaction hs h s) h = None"
proof (cases "mTransactions s h")
  case (Some d)
  then show ?thesis by (simp add: client_end_transaction_def removed)
qed (simp add: client_end_transaction_def)

lemma server_ended:
  assumes "polite hs" and "tx_ok s" and "mTransactions s h = Some d" and "single_side_endable d"
  shows "mTransactions (server_end_transaction hs h s) h = None"
proof -
  let ?d = "d\<lparr>server_has_sent_end := True\<rparr>"
  let ?t = "s\<lparr>mTransactions := (mTransactions s)(h \<mapsto> ?d)\<rparr>"
  let ?u = "call (on_server_end_transaction hs) h ?t"
  have "follows s ?t" by (rule follows_flags [OF assms(3)]) (simp add: flags_follow_def)
  then have t: "tx_ok ?t" using assms(2) by (simp add: follows_def)
  have u: "follows ?t ?u" by (rule polite_call(2) [OF assms(1)])
  have "mTransactions (snd (remove_transaction hs h ?u)) h = None"
  proof (cases "mTransactions ?u h")
    case (Some e)
    then have "flags_follow ?d e" by (intro follows_live [OF u t]) simp_all
    then show ?thesis using Some assms(4) by (intro removed [of _ _ e]) (auto simp: flags_follow_def)
  qed (simp add: remove_transaction_def)
  then show ?thesis using assms(3,4) by (simp add: server_end_transaction_def Let_def)
qed

text \<open>A message of the server that ends its transaction is delivered first and then ends it.
  For a live transaction that one side may end, the message is given to \<^verbatim>\<open>on_message\<close>
  with the handle of the transaction, and afterwards the transaction is gone, whatever the
  callbacks did.\<close>

theorem server_end_is_final:
  assumes "polite hs" and "tx_ok s" and "supl s \<noteq> None" and "decode_lpp_message (env_lpp env) data = Some m"
    and "transactionID m = Some tid" and "lpp_MessageBody m \<noteq> None" and "endTransaction m"
    and "find_by_id s tid = Some d" and "single_side_endable d"
    and "process_lpp_payload env hs data s = Some s'"
  shows "mTransactions s' (td_handle d) = None \<and>
    (\<exists>t. call_message hs (td_handle d) m s = Some t \<and> s' = server_end_transaction hs (td_handle d) t)"
proof -
  let ?h = "td_handle d"
  have live: "mTransactions s ?h = Some d"
    using assms(2,8) unfolding find_by_id_def Let_def tx_ok_def by (auto split: option.splits)
  have "process_lpp_payload env hs data s = deliver hs d m s"
    using assms(3-6,8) by (auto simp: process_lpp_payload_def)
  then obtain t where t: "call_message hs ?h m s = Some t" "s' = server_end_transaction hs ?h t"
    using assms(7,10) by (cases "call_message hs ?h m s") (auto simp: deliver_def Let_def)
  have f: "follows s t" using polite_call(4) [OF assms(1) t(1)] .
  then have ok: "tx_ok t" using assms(2) by (simp add: follows_def)
  have "mTransactions s' ?h = None"
  proof (cases "mTransactions t ?h")
    case None
    then show ?thesis using t(2) by (simp add: dead_operations)
  next
    case (Some e)
    then have "single_side_endable e"
      using follows_live [OF f assms(2) live] assms(9) by (simp add: flags_follow_def)
    then show ?thesis using server_ended [OF assms(1) ok Some] t(2) by simp
  qed
  then show ?thesis using t by blast
qed

text \<open>What ends a transaction on the client's side.  A message sent with \<^verbatim>\<open>send_with_end\<close>
  on a live transaction carries the number and the initiator of the transaction, the end flag and
  the next sequence number modulo 255; it goes out in one SUPL POS, and afterwards the
  transaction is gone, also one that is not to be ended by a single side: both operands of
  \<^verbatim>\<open>ended_by_both\<close> are the flag of the client.\<close>

theorem client_end_is_final:
  assumes "mTransactions s h = Some d" and "\<not> client_has_sent_end d"
    and "transactionID m = None" and "\<not> endTransaction m" and "sequenceNumber m = None"
    and "m' = m\<lparr>transactionID := Some (if th_initiator h = TargetDevice then 1 else 0, th_id h),
       endTransaction := True, sequenceNumber := Some (mSequenceNumber s mod 255)\<rparr>"
    and "encode_lpp_message (env_lpp env) m' \<noteq> []"
    and "supl s = Some u" and "supl_send (env_tcp env) (env_ulp env)
       (SendPOS (lpp_pos (encode_lpp_message (env_lpp env) m'))) u = Some (True, u')"
  shows "\<exists>s'. send_with_end env hs h m s = Some s' \<and> mTransactions s' h = None \<and>
    (\<exists>t. supl t = Some u' \<and> mSequenceNumber t = mSequenceNumber s + 1 \<and> s' = client_end_transaction hs h t)"
proof -
  let ?d = "d\<lparr>client_should_send_end := True\<rparr>"
  have st: "stamped h ?d (mSequenceNumber s) m = m'"
    by (simp add: stamped_def assms(6) Initiator_targetDevice_def Initiator_locationServer_def)
  let ?t = "s\<lparr>mSequenceNumber := mSequenceNumber s + 1, supl := Some u',
     mTransactions := (mTransactions s)(h \<mapsto> d\<lparr>client_should_send_end := False\<rparr>)\<rparr>"
  have "send_with_end env hs h m s = Some (client_end_transaction hs h ?t)"
    using assms st by (simp add: send_with_end_def send_def find_transaction_def Let_def after_send_def)
  moreover have "mTransactions (client_end_transaction hs h ?t) h = None" by (rule client_ended)
  moreover have "supl ?t = Some u'" "mSequenceNumber ?t = mSequenceNumber s + 1" by simp_all
  ultimately show ?thesis by blast
qed

section \<open>Numbers of transactions\<close>

lemma create_step:
  fixes s :: "('t, 'w) lpp_session"
  assumes "tx_ok s" and "on_begin_transaction hs = None"
  defines "h \<equiv> TransactionHandle True (mTransactionId s) (mGenerationId s) TargetDevice"
  shows "create_transaction hs sse s = (h, s\<lparr>mTransactionId := (mTransactionId s + 1) mod 256,
      mGenerationId := mGenerationId s + 1,
      mTransacionLookup := (mTransacionLookup s)(th_lookup h \<mapsto> h),
      mTransactions := (mTransactions s)(h \<mapsto> \<lparr>td_handle = h, client_has_sent_end = False,
        server_has_sent_end = False, client_should_send_end = False, single_side_endable = sse\<rparr>)\<rparr>)"
    and "tx_ok (snd (create_transaction hs sse s))"
proof -
  have i: "0 \<le> mTransactionId s" "mTransactionId s < 256" "mClientTransactions s = {}"
    using assms(1) by (simp_all add: tx_ok_def)
  have f: "free_id {} (mTransactionId s) 0 = Some (mTransactionId s)"
    using i by (subst free_id.simps) simp
  have new: "mTransactions s h = None"
    using live_generation [OF assms(1), of h] by (cases "mTransactions s h") (auto simp: h_def)
  show eq: "create_transaction hs sse s = (h, s\<lparr>mTransactionId := (mTransactionId s + 1) mod 256,
      mGenerationId := mGenerationId s + 1,
      mTransacionLookup := (mTransacionLookup s)(th_lookup h \<mapsto> h),
      mTransactions := (mTransactions s)(h \<mapsto> \<lparr>td_handle = h, client_has_sent_end = False,
        server_has_sent_end = False, client_should_send_end = False, single_side_endable = sse\<rparr>)\<rparr>)"
    using i f new assms(2)
    by (simp add: create_transaction_def allocate_transaction_def add_transaction_def Let_def call_def h_def)
  show "tx_ok (snd (create_transaction hs sse s))"
    using follows_enter [of h s "\<lparr>td_handle = h, client_has_sent_end = False, server_has_sent_end = False,
        client_should_send_end = False, single_side_endable = sse\<rparr>" "(mTransactionId s + 1) mod 256"] assms(1) i
    by (simp add: eq follows_def h_def)
qed

definition creates ::
  "('t, 'b, 'w) handlers \<Rightarrow> bool \<Rightarrow> nat \<Rightarrow> ('t, 'w) lpp_session \<Rightarrow> ('t, 'w) lpp_session" where
  "creates hs sse n s = ((\<lambda>s. snd (create_transaction hs sse s)) ^^ n) s"

lemma creates_state:
  assumes "tx_ok s" and "on_begin_transaction hs = None"
  shows "tx_ok (creates hs sse n s) \<and>
    mTransactionId (creates hs sse n s) = (mTransactionId s + int n) mod 256 \<and>
    (\<forall>h. mTransactions s h \<noteq> None \<longrightarrow> mTransactions (creates hs sse n s) h \<noteq> None)"
proof (induction n)
  case 0
  then show ?case using assms by (simp add: creates_def tx_ok_def)
next
  case (Suc n)
  let ?s = "creates hs sse n s"
  have eq: "creates hs sse (Suc n) s = snd (create_transaction hs sse ?s)" by (simp add: creates_def)
  note step = create_step [OF _ assms(2), of ?s sse]
  have "(mTransactionId s + int (Suc n)) mod 256 = ((mTransactionId s + int n) mod 256 + 1) mod 256"
    by (simp add: mod_simps algebra_simps)
  then show ?case using Suc step unfolding eq by simp
qed

text \<open>A client transaction is not alone with its number for long.  Nothing ever enters
  \<^verbatim>\<open>mClientTransactions\<close>, so the search for a free number always takes the next one: the
  transaction created 256 creations after a first one gets the first one's number although the
  first is still live, and takes over its entry in the table by which received messages are
  routed.\<close>

theorem transaction_numbers_repeat:
  fixes w :: 'w and hs :: "('t, 'b, 'w) handlers"
  assumes "on_begin_transaction hs = None"
  shows "let (h, s) = create_transaction hs sse (lpp_Session w);
             (h', s') = create_transaction hs sse (creates hs sse 255 s)
         in th_id h' = th_id h \<and> h' \<noteq> h \<and> mTransactions s' h \<noteq> None \<and>
            mTransacionLookup s' (th_lookup h) = Some h'"
proof -
  let ?new = "lpp_Session w :: ('t, 'w) lpp_session"
  let ?s = "snd (create_transaction hs sse ?new)"
  let ?h = "TransactionHandle True 1 1 TargetDevice"
  let ?t = "creates hs sse 255 ?s"
  have n: "mTransactionId ?new = 1" "mGenerationId ?new = 1" by (simp_all add: lpp_Session_def)
  have c: "create_transaction hs sse ?new = (?h, ?s)" "mTransactionId ?s = 2" "mTransactions ?s ?h \<noteq> None"
      "mGenerationId ?s = 2"
    by (simp_all add: create_step(1) [OF tx_ok_new assms] n)
  have s: "tx_ok ?s" by (rule create_step(2) [OF tx_ok_new assms])
  have t: "tx_ok ?t" "mTransactionId ?t = 1" "mTransactions ?t ?h \<noteq> None"
    using creates_state [OF s assms, of sse 255] c by simp_all
  let ?k = "TransactionHandle True 1 (mGenerationId ?t) TargetDevice"
  have g: "?k \<noteq> ?h"
    using live_generation [OF t(1), of ?h] t(3) by (cases "mTransactions ?t ?h") auto
  have "fst (create_transaction hs sse ?t) = ?k"
    "mTransactions (snd (create_transaction hs sse ?t)) ?h \<noteq> None"
    "mTransacionLookup (snd (create_transaction hs sse ?t)) (th_lookup ?h) = Some ?k"
    using t g by (simp_all add: create_step(1) [OF t(1) assms] th_lookup_def)
  moreover have "fst (create_transaction hs sse ?new) = ?h" using c(1) by (metis fst_conv)
  ultimately show ?thesis using g unfolding Let_def case_prod_beta by simp
qed

section \<open>Examples\<close>

text \<open>
  A session over a connection that takes everything, with a codec that writes the header of a
  message in three bytes.
\<close>

definition sample_tcp :: "unit tcp" where
  "sample_tcp = \<lparr>tcp_connect = (\<lambda>t. (True, t)), tcp_handle_connection = (\<lambda>t. (Done, t)),
     tcp_disconnect = (\<lambda>t. t), tcp_is_connected = (\<lambda>t. True), tcp_fd = (\<lambda>t. 3),
     tcp_send = (\<lambda>bytes t. (IoOk (int (length bytes)), t)), tcp_poll = (\<lambda>_ t. (PollReady, t)),
     tcp_receive = (\<lambda>n t. (RecvWantRead, t)), tcp_has_pending = (\<lambda>t. False)\<rparr>"

definition sample_ulp :: "unit uper" where
  "sample_ulp = \<lparr>uper_encode = (\<lambda>pdu. Some (8, [7])), uper_decode = (\<lambda>bytes. RC_WMORE)\<rparr>"

definition sample_lpp :: "unit lpp_uper" where
  "sample_lpp = \<lparr>lpp_uper_encode = (\<lambda>m. case transactionID m of None \<Rightarrow> (-1, [])
       | Some (who, n) \<Rightarrow> (24, [of_int who, of_int n, if endTransaction m then 1 else 0])),
     lpp_uper_decode = (\<lambda>data. case data of
         [who, n, e] \<Rightarrow> Some \<lparr>transactionID = Some (uint who, uint n), endTransaction = (e = 1),
                          sequenceNumber = None, lpp_MessageBody = Some ()\<rparr>
       | _ \<Rightarrow> None)\<rparr>"

definition sample_env :: "(unit, unit, unit) environment" where
  "sample_env = \<lparr>env_tcp = sample_tcp, env_ulp = sample_ulp, env_lpp = sample_lpp\<rparr>"

definition no_handlers :: "(unit, unit, unit) handlers" where
  "no_handlers = \<lparr>on_begin_transaction = None, on_server_end_transaction = None,
     on_end_transaction = None, on_message = None\<rparr>"

definition sample_supl :: "unit supl_session" where
  "sample_supl = (Session_new (2, 1, 0) (IMSI 1))\<lparr>mState := CONNECTED, mTcpClient := Some ()\<rparr>"

definition sample_session :: "(unit, unit) lpp_session" where
  "sample_session = (snd (create_transaction no_handlers True (lpp_Session ())))\<lparr>supl := Some sample_supl\<rparr>"

definition sample_message :: "unit lpp_message" where
  "sample_message = \<lparr>transactionID = None, endTransaction = False, sequenceNumber = None,
     lpp_MessageBody = Some ()\<rparr>"

definition sample_handle :: transaction_handle where
  "sample_handle = TransactionHandle True 1 1 TargetDevice"

lemma polite_no_handlers: "polite no_handlers"
  by (simp add: polite_def no_handlers_def)

lemma sample_session_eq: "sample_session = (lpp_Session ())\<lparr>supl := Some sample_supl, mTransactionId := 2,
    mGenerationId := 2, mTransacionLookup := [th_lookup sample_handle \<mapsto> sample_handle],
    mTransactions := [sample_handle \<mapsto> \<lparr>td_handle = sample_handle, client_has_sent_end = False,
      server_has_sent_end = False, client_should_send_end = False, single_side_endable = True\<rparr>]\<rparr>"
proof -
  have n: "on_begin_transaction no_handlers = None" by (simp add: no_handlers_def)
  show ?thesis
    unfolding sample_session_def create_step(1) [OF tx_ok_new n] sample_handle_def
    by (simp add: lpp_Session_def)
qed

lemma sample_session_ok: "tx_ok sample_session"
  unfolding sample_session_eq
  by (simp add: tx_ok_def lpp_Session_def sample_handle_def th_lookup_def)

lemma sample_send: "supl_send sample_tcp sample_ulp (SendPOS pos) sample_supl = Some (True, sample_supl)"
proof -
  have "ulp_encode (uper_encode sample_ulp) (2, 1, 0) (mSETSession sample_supl) (mSLPSession sample_supl)
      (SendPOS pos) = Some [7]"
    by (simp add: ulp_encode_def sample_ulp_def sample_supl_def Session_new_def encode_session_def encode_uper_def)
  moreover have "send_all sample_tcp [7] () = Some (True, ())"
    by (subst send_all.simps, simp add: sample_tcp_def, subst send_all.simps, simp)
  ultimately show ?thesis
    by (simp add: supl_send_def sample_supl_def Session_new_def sample_tcp_def)
qed

theorem stale_handle_is_dead_witness:
  "mTransactions (snd (create_transaction no_handlers True sample_session))
     (TransactionHandle True 2 1 TargetDevice) = None"
  by (rule conjunct1 [OF stale_handle_is_dead [OF polite_no_handlers sample_session_ok _ _
        session_steps.creates [OF session_steps.start]]])
    (simp_all add: sample_session_eq sample_handle_def lpp_Session_def)

theorem transactions_consistent_witness:
  "tx_ok (snd (create_transaction no_handlers True (lpp_Session ())))"
  by (rule transactions_consistent [OF polite_no_handlers session_steps.creates [OF session_steps.start]])

theorem server_end_is_final_witness:
  "\<exists>s'. process_lpp_payload sample_env no_handlers [1, 1, 1] sample_session = Some s' \<and>
     mTransactions s' sample_handle = None"
proof -
  let ?m = "\<lparr>transactionID = Some (1, 1), endTransaction = True, sequenceNumber = None, lpp_MessageBody = Some ()\<rparr>"
  let ?d = "\<lparr>td_handle = sample_handle, client_has_sent_end = False, server_has_sent_end = False,
    client_should_send_end = False, single_side_endable = True\<rparr>"
  have d: "decode_lpp_message (env_lpp sample_env) [1, 1, 1] = Some ?m"
    by (simp add: decode_lpp_message_def sample_env_def sample_lpp_def)
  have f: "find_by_id sample_session (1, 1) = Some ?d"
    by (simp add: find_by_id_def sample_session_eq Initiator_targetDevice_def th_lookup_def sample_handle_def)
  have u: "supl sample_session \<noteq> None" by (simp add: sample_session_eq)
  obtain s' where s': "process_lpp_payload sample_env no_handlers [1, 1, 1] sample_session = Some s'"
    using d f u by (auto simp: process_lpp_payload_def deliver_def call_message_def no_handlers_def)
  show ?thesis
    using server_end_is_final [OF polite_no_handlers sample_session_ok u d _ _ _ f _ s'] s' by simp
qed

theorem client_end_is_final_witness:
  "\<exists>s'. send_with_end sample_env no_handlers sample_handle sample_message sample_session = Some s' \<and>
     mTransactions s' sample_handle = None"
proof -
  let ?m = "sample_message\<lparr>transactionID := Some (1, 1), endTransaction := True, sequenceNumber := Some (0 mod 255)\<rparr>"
  let ?d = "\<lparr>td_handle = sample_handle, client_has_sent_end = False, server_has_sent_end = False,
    client_should_send_end = False, single_side_endable = True\<rparr>"
  have d: "mTransactions sample_session sample_handle = Some ?d" by (simp add: sample_session_eq)
  have e: "encode_lpp_message (env_lpp sample_env) ?m = [1, 1, 1]"
    by (simp add: encode_lpp_message_def sample_env_def sample_lpp_def)
  have "\<exists>s'. send_with_end sample_env no_handlers sample_handle sample_message sample_session = Some s' \<and>
      mTransactions s' sample_handle = None \<and> (\<exists>t. supl t = Some sample_supl \<and>
        mSequenceNumber t = mSequenceNumber sample_session + 1 \<and>
        s' = client_end_transaction no_handlers sample_handle t)"
    by (rule client_end_is_final [OF d, where m' = ?m and u = sample_supl])
      (simp_all add: e sample_send, simp_all add: sample_message_def sample_session_eq lpp_Session_def
        sample_handle_def sample_env_def sample_send encode_lpp_message_def sample_lpp_def)
  then show ?thesis by blast
qed

theorem transaction_numbers_repeat_witness:
  "let (h, s) = create_transaction no_handlers False (lpp_Session ());
       (h', s') = create_transaction no_handlers False (creates no_handlers False 255 s)
   in th_id h' = th_id h \<and> h' \<noteq> h \<and> mTransactions s' h \<noteq> None \<and>
      mTransacionLookup s' (th_lookup h) = Some h'"
  by (rule transaction_numbers_repeat) (simp add: no_handlers_def)

end
