(* ===== verification/Lpp_Machine.thy ===== *)
theory Lpp_Machine
  imports Lpp_Transactions
begin

text \<open>
  The connection of an LPP session (dependency/lpp/session.cpp): the state machine that connects,
  performs the SUPL handshake, sends POSINIT and receives messages.  A state of the machine
  says which state comes next at once, or which states come next when the socket is readable,
  writable or has an error.  What the machine defers to the event loop is a list of values.
  \<open>None\<close> is a failed assertion, \<^verbatim>\<open>UNREACHABLE\<close>, or a loop that does not return.
\<close>

section \<open>What a state answers\<close>

record next_state =
  read_state :: State
  write_state :: State
  error_state :: State
  follow_state :: State
  ns_schedule :: bool

definition ns_make :: next_state where
  "ns_make = \<lparr>read_state = ST_UNKNOWN, write_state = ST_UNKNOWN, error_state = ST_UNKNOWN,
     follow_state = ST_UNKNOWN, ns_schedule = False\<rparr>"

definition ns_read :: "State \<Rightarrow> next_state \<Rightarrow> next_state" where
  "ns_read st n = n\<lparr>read_state := st, ns_schedule := True\<rparr>"

definition ns_write :: "State \<Rightarrow> next_state \<Rightarrow> next_state" where
  "ns_write st n = n\<lparr>write_state := st, ns_schedule := True\<rparr>"

definition ns_error :: "State \<Rightarrow> next_state \<Rightarrow> next_state" where
  "ns_error st n = n\<lparr>error_state := st, ns_schedule := True\<rparr>"

definition ns_next :: "State \<Rightarrow> next_state \<Rightarrow> next_state" where
  "ns_next st n = n\<lparr>follow_state := st\<rparr>"

lemmas ns_defs = ns_make_def ns_read_def ns_write_def ns_error_def ns_next_def

text \<open>
  Callbacks deferred to the event loop: an update of the task, and what the client defers when it
  is told of the disconnection.
\<close>

datatype session_deferred = TaskUpdate int bool bool bool | CancelSession

text \<open>
  The rest of a session: its callbacks, the messages of the handshake (built from the capabilities,
  the cell and the accuracy), its identity, the TCP client that \<^verbatim>\<open>connect\<close> creates for the host
  of the session, and what the client throws away of its own when it is cancelled.
\<close>

record ('t, 'c, 'b, 'w) config =
  cfg_env :: "('t, 'c, 'b) environment"
  cfg_handlers :: "('t, 'b, 'w) handlers"
  on_established :: "(('t, 'w) lpp_session \<Rightarrow> (('t, 'w) lpp_session \<times> session_deferred list) option) option"
  on_disconnected :: "(('t, 'w) lpp_session \<Rightarrow> (('t, 'w) lpp_session \<times> session_deferred list) option) option"
  cfg_start :: 'c
  cfg_posinit :: 'c
  cfg_identity :: Identity
  cfg_client :: 't
  cfg_cleanup :: "'w \<Rightarrow> 'w"

definition VERSION_2_1 :: "int \<times> int \<times> int" where
  "VERSION_2_1 = (2, 1, 0)"

section \<open>The states\<close>

definition switch_state :: "State \<Rightarrow> ('t, 'w) lpp_session \<Rightarrow> ('t, 'w) lpp_session" where
  "switch_state st s = s\<lparr>lpp_state := st\<rparr>"

text \<open>\<^verbatim>\<open>connect\<close> on the session, with the connection parameters in \<^const>\<open>cfg_client\<close>.\<close>

definition lpp_connect :: "('t, 'w) lpp_session \<Rightarrow> ('t, 'w) lpp_session" where
  "lpp_connect s =
     (if lpp_state s \<noteq> ST_UNKNOWN \<and> lpp_state s \<noteq> EXIT then s else switch_state ST_CONNECT s)"

definition state_unknown :: "('t, 'w) lpp_session \<Rightarrow> (next_state \<times> ('t, 'w) lpp_session) option" where
  "state_unknown s = None"

definition state_connect ::
  "('t, 'c, 'b, 'w) config \<Rightarrow> ('t, 'w) lpp_session \<Rightarrow> (next_state \<times> ('t, 'w) lpp_session) option" where
  "state_connect cfg s =
     (if supl s \<noteq> None then Some (ns_next ST_DISCONNECTED ns_make, s)
      else
        let (ok, u) = supl_connect (env_tcp (cfg_env cfg)) (cfg_client cfg)
              (Session_new VERSION_2_1 (cfg_identity cfg));
            s = s\<lparr>supl := Some u\<rparr>
        in if \<not> ok then Some (ns_next ST_DISCONNECTED ns_make, s)
           else Some (ns_error ERROR (ns_write ST_CONNECTING (ns_read ST_CONNECTING ns_make)), s))"

definition state_connecting ::
  "('t, 'c, 'b, 'w) config \<Rightarrow> ('t, 'w) lpp_session \<Rightarrow> (next_state \<times> ('t, 'w) lpp_session) option" where
  "state_connecting cfg s =
     (case supl s of None \<Rightarrow> None
      | Some u \<Rightarrow>
          let (r, u) = handle_connection (env_tcp (cfg_env cfg)) u;
              s = s\<lparr>supl := Some u\<rparr>
          in Some (case r of
               Done \<Rightarrow> ns_next ST_CONNECTED ns_make
             | WantRead \<Rightarrow> ns_error ERROR (ns_read ST_CONNECTING ns_make)
             | WantWrite \<Rightarrow> ns_error ERROR (ns_write ST_CONNECTING ns_make)
             | Failed \<Rightarrow> ns_next ConnectionFailed ns_make, s))"

definition state_connection_failed ::
  "('t, 'w) lpp_session \<Rightarrow> (next_state \<times> ('t, 'w) lpp_session) option" where
  "state_connection_failed s = Some (ns_next ST_DISCONNECTED ns_make, s)"

definition state_error :: "('t, 'w) lpp_session \<Rightarrow> (next_state \<times> ('t, 'w) lpp_session) option" where
  "state_error s = Some (ns_next ST_DISCONNECTED ns_make, s)"

definition state_connected :: "('t, 'w) lpp_session \<Rightarrow> (next_state \<times> ('t, 'w) lpp_session) option" where
  "state_connected s = Some (ns_next SuplHandshakeSend ns_make, s)"

definition state_handshake_send ::
  "('t, 'c, 'b, 'w) config \<Rightarrow> ('t, 'w) lpp_session \<Rightarrow> (next_state \<times> ('t, 'w) lpp_session) option" where
  "state_handshake_send cfg s =
     (case supl s of None \<Rightarrow> None
      | Some u \<Rightarrow>
          (case handshake (env_tcp (cfg_env cfg)) (env_ulp (cfg_env cfg)) (cfg_start cfg) u of
             None \<Rightarrow> None
           | Some (ok, u) \<Rightarrow>
               let s = s\<lparr>supl := Some u\<rparr>
               in if \<not> ok then Some (ns_next ST_DISCONNECTED ns_make, s)
                  else Some (ns_error ST_DISCONNECTED (ns_read SuplHandshakeRecv ns_make), s)))"

definition state_handshake_recv ::
  "('t, 'c, 'b, 'w) config \<Rightarrow> ('t, 'w) lpp_session \<Rightarrow> (next_state \<times> ('t, 'w) lpp_session) option" where
  "state_handshake_recv cfg s =
     (case supl s of None \<Rightarrow> None
      | Some u \<Rightarrow>
          (case handle_handshake (env_tcp (cfg_env cfg)) (env_ulp (cfg_env cfg)) u of
             None \<Rightarrow> None
           | Some (r, u) \<Rightarrow>
               let s = s\<lparr>supl := Some u\<rparr>
               in if r = HandshakeNoData
                  then Some (ns_error ST_DISCONNECTED (ns_read SuplHandshakeRecv ns_make), s)
                  else if r = HandshakeERROR then Some (ns_error ST_DISCONNECTED ns_make, s)
                  else Some (ns_next SuplPosinit ns_make, s)))"

definition state_posinit ::
  "('t, 'c, 'b, 'w) config \<Rightarrow> ('t, 'w) lpp_session \<Rightarrow> (next_state \<times> ('t, 'w) lpp_session) option" where
  "state_posinit cfg s =
     (case supl s of None \<Rightarrow> None
      | Some u \<Rightarrow>
          let posinit = POSINIT (cfg_posinit cfg) (concat (map pos_payloads (mPosQueue s)));
              s = s\<lparr>mPosQueue := []\<rparr>
          in case supl_send (env_tcp (cfg_env cfg)) (env_ulp (cfg_env cfg)) posinit u of
               None \<Rightarrow> None
             | Some (ok, u) \<Rightarrow>
                 let s = s\<lparr>supl := Some u\<rparr>
                 in if \<not> ok then Some (ns_next ST_DISCONNECTED ns_make, s)
                    else Some (ns_next ESTABLISHED ns_make, s))"

text \<open>The loop of \<^verbatim>\<open>state_message\<close>.\<close>

partial_function (option) message_loop ::
  "('t, 'c, 'b) environment \<Rightarrow> ('t, 'b, 'w) handlers \<Rightarrow> ('t, 'w) lpp_session \<Rightarrow>
   (next_state \<times> ('t, 'w) lpp_session) option" where
  "message_loop env hs s =
     (case supl s of None \<Rightarrow> None
      | Some u \<Rightarrow>
          (case try_receive (env_tcp env) (env_ulp env)
                  \<lparr>want_response = False, want_end = True, want_pos = True\<rparr> u of
             None \<Rightarrow> None
           | Some (received, u) \<Rightarrow>
               (case received of
                  NoData \<Rightarrow> Some (ns_error ST_DISCONNECTED (ns_read MESSAGE ns_make), s\<lparr>supl := Some u\<rparr>)
                | ReceivedEND \<Rightarrow> Some (ns_next ST_DISCONNECTED ns_make, s\<lparr>supl := Some u\<rparr>)
                | ReceivedPOS pos \<Rightarrow>
                    (case process_supl_pos env hs pos (s\<lparr>supl := Some u\<rparr>) of None \<Rightarrow> None
                     | Some s \<Rightarrow> message_loop env hs s)
                | SessionTerminated \<Rightarrow> Some (ns_next ST_DISCONNECTED ns_make, s\<lparr>supl := Some u\<rparr>)
                | InvalidSession \<Rightarrow> Some (ns_next ST_DISCONNECTED ns_make, s\<lparr>supl := Some u\<rparr>)
                | ReceivedUNKNOWN \<Rightarrow> message_loop env hs (s\<lparr>supl := Some u\<rparr>)
                | UnableToDecode \<Rightarrow> message_loop env hs (s\<lparr>supl := Some u\<rparr>)
                | ReceivedRESPONSE \<Rightarrow> message_loop env hs (s\<lparr>supl := Some u\<rparr>))))"

definition state_message ::
  "('t, 'c, 'b, 'w) config \<Rightarrow> ('t, 'w) lpp_session \<Rightarrow> (next_state \<times> ('t, 'w) lpp_session) option" where
  "state_message cfg s =
     (case supl s of None \<Rightarrow> None
      | Some u \<Rightarrow>
          (case fill_receive_buffer (env_tcp (cfg_env cfg)) u of None \<Rightarrow> None
           | Some (ok, u) \<Rightarrow>
               if \<not> ok then Some (ns_next ST_DISCONNECTED ns_make, s\<lparr>supl := Some u\<rparr>)
               else message_loop (cfg_env cfg) (cfg_handlers cfg) (s\<lparr>supl := Some u\<rparr>)))"

text \<open>The two states that call the client.\<close>

definition state_established ::
  "('t, 'c, 'b, 'w) config \<Rightarrow> ('t, 'w) lpp_session \<Rightarrow>
   (next_state \<times> ('t, 'w) lpp_session \<times> session_deferred list) option" where
  "state_established cfg s =
     map_option (\<lambda>(s, ds). (ns_error ST_DISCONNECTED (ns_read MESSAGE ns_make), s, ds))
       (case on_established cfg of None \<Rightarrow> Some (s, []) | Some f \<Rightarrow> f s)"

definition state_disconnected ::
  "('t, 'c, 'b, 'w) config \<Rightarrow> ('t, 'w) lpp_session \<Rightarrow>
   (next_state \<times> ('t, 'w) lpp_session \<times> session_deferred list) option" where
  "state_disconnected cfg s =
     map_option (\<lambda>(s, ds). (ns_next EXIT ns_make, s, ds))
       (case on_disconnected cfg of None \<Rightarrow> Some (s, []) | Some f \<Rightarrow> f s)"

section \<open>The machine\<close>

definition no_deferred ::
  "(next_state \<times> ('t, 'w) lpp_session) option \<Rightarrow>
   (next_state \<times> ('t, 'w) lpp_session \<times> session_deferred list) option" where
  "no_deferred = map_option (\<lambda>(r, s). (r, s, []))"

text \<open>The \<^verbatim>\<open>switch\<close> of \<^verbatim>\<open>process\<close>.\<close>

definition run_state ::
  "('t, 'c, 'b, 'w) config \<Rightarrow> ('t, 'w) lpp_session \<Rightarrow>
   (next_state \<times> ('t, 'w) lpp_session \<times> session_deferred list) option" where
  "run_state cfg s =
     (case lpp_state s of
        ST_UNKNOWN \<Rightarrow> no_deferred (state_unknown s)
      | ST_CONNECT \<Rightarrow> no_deferred (state_connect cfg s)
      | ST_CONNECTING \<Rightarrow> no_deferred (state_connecting cfg s)
      | ConnectionFailed \<Rightarrow> no_deferred (state_connection_failed s)
      | ST_CONNECTED \<Rightarrow> no_deferred (state_connected s)
      | ST_DISCONNECTED \<Rightarrow> state_disconnected cfg s
      | ERROR \<Rightarrow> no_deferred (state_error s)
      | SuplHandshakeSend \<Rightarrow> no_deferred (state_handshake_send cfg s)
      | SuplHandshakeRecv \<Rightarrow> no_deferred (state_handshake_recv cfg s)
      | SuplPosinit \<Rightarrow> no_deferred (state_posinit cfg s)
      | ESTABLISHED \<Rightarrow> state_established cfg s
      | MESSAGE \<Rightarrow> no_deferred (state_message cfg s)
      | EXIT \<Rightarrow> None)"

text \<open>\<open>scheduled\<close>: the session has a scheduler.\<close>

definition wait_for ::
  "('t, 'c, 'b, 'w) config \<Rightarrow> bool \<Rightarrow> next_state \<Rightarrow> ('t, 'w) lpp_session \<Rightarrow>
   ('t, 'w) lpp_session \<times> session_deferred list" where
  "wait_for cfg scheduled r s =
     (case supl s of
        None \<Rightarrow> (switch_state ST_DISCONNECTED s, [])
      | Some u \<Rightarrow>
          if \<not> scheduled \<or> supl_fd (env_tcp (cfg_env cfg)) u < 0 \<or> is_disconnected u
          then (switch_state ST_DISCONNECTED s, [])
          else (s\<lparr>mNextReadState := read_state r, mNextWriteState := write_state r,
                   mNextErrorState := error_state r\<rparr>,
                [TaskUpdate (supl_fd (env_tcp (cfg_env cfg)) u) (read_state r \<noteq> ST_UNKNOWN)
                   (write_state r \<noteq> ST_UNKNOWN) (error_state r \<noteq> ST_UNKNOWN)]))"

partial_function (option) lpp_process ::
  "('t, 'c, 'b, 'w) config \<Rightarrow> bool \<Rightarrow> ('t, 'w) lpp_session \<Rightarrow>
   (('t, 'w) lpp_session \<times> session_deferred list) option" where
  "lpp_process cfg scheduled s =
     (if lpp_state s = EXIT then
        (if scheduled then Some (s, [TaskUpdate (-1) False False False]) else None)
      else case run_state cfg s of None \<Rightarrow> None
      | Some (r, s, ds) \<Rightarrow>
          (if \<not> ns_schedule r
           then Option.bind (lpp_process cfg scheduled (switch_state (follow_state r) s))
                  (\<lambda>(s, ds'). Some (s, ds @ ds'))
           else (case wait_for cfg scheduled r s of (s, ds') \<Rightarrow> Some (s, ds @ ds'))))"

definition process_read where
  "process_read cfg scheduled s = lpp_process cfg scheduled (switch_state (mNextReadState s) s)"

definition process_write where
  "process_write cfg scheduled s = lpp_process cfg scheduled (switch_state (mNextWriteState s) s)"

definition process_error where
  "process_error cfg scheduled s = lpp_process cfg scheduled (switch_state (mNextErrorState s) s)"

end
