(* ===== verification/Lpp_Receive.thy ===== *)
theory Lpp_Receive
  imports Lpp_Machine
begin

text \<open>
  What an established session does with the bytes of its connection: the PDUs of the stream are
  handed to \<^verbatim>\<open>process_supl_pos\<close> in order, however TCP cuts the stream; and what happens when the
  bytes are not a PDU.
\<close>

section \<open>Taking PDUs from the receive buffer\<close>

lemma rb_consume_drop: "rb_consume n u = u\<lparr>mReceiveBuffer := drop n (mReceiveBuffer u)\<rparr>"
  by (simp add: rb_consume_def)

lemma parse_receive_spec:
  "parse_receive_buffer ulp u =
     (case uper_spec 4 (uper_decode ulp) (mReceiveBuffer u) of (r, x) \<Rightarrow>
        (case r of Value pdu \<Rightarrow> Some pdu | _ \<Rightarrow> None, u\<lparr>mReceiveBuffer := x\<rparr>))"
  by (simp add: parse_receive_buffer_def uper_spec_def rb_consume_drop split: decoded.split)

lemma buffer_irrelevant [simp]:
  "is_connected tcp (u\<lparr>mReceiveBuffer := b\<rparr>) = is_connected tcp u"
  "supl_fd tcp (u\<lparr>mReceiveBuffer := b\<rparr>) = supl_fd tcp u"
  "is_disconnected (u\<lparr>mReceiveBuffer := b\<rparr>) = is_disconnected u"
  by (simp_all add: is_connected_def supl_fd_def is_disconnected_def)

text \<open>The PDU carries a position message for the session that is open.\<close>

definition pos_of_session :: "'t supl_session \<Rightarrow> 'c ulp_pdu \<Rightarrow> POS \<Rightarrow> bool" where
  "pos_of_session u pdu pos \<longleftrightarrow>
     (\<exists>st slp. decode_wanted \<lparr>want_response = False, want_end = True, want_pos = True\<rparr> pdu =
        Some (Some (ReceivedPOS pos, st, slp)) \<and>
        set_is_active (mSETSession u) \<and> set_eq st (mSETSession u) \<and>
        slp_is_active (mSLPSession u) \<and> slp_eq slp (mSLPSession u))"

lemma pos_received:
  assumes "pos_of_session u pdu pos"
  shows "parse_message \<lparr>want_response = False, want_end = True, want_pos = True\<rparr> pdu u = Some (ReceivedPOS pos, u)"
  using assms by (auto simp: pos_of_session_def parse_message_def)

text \<open>The receiving side of the session is as before.\<close>

definition same_receiver :: "'t tcp \<Rightarrow> 't supl_session \<Rightarrow> 't supl_session \<Rightarrow> bool" where
  "same_receiver tcp u u' \<longleftrightarrow> mState u' = mState u \<and> mSETSession u' = mSETSession u \<and>
     mSLPSession u' = mSLPSession u \<and> mReceiveBuffer u' = mReceiveBuffer u \<and>
     is_connected tcp u' = is_connected tcp u \<and> supl_fd tcp u' = supl_fd tcp u"

text \<open>
  The client's reaction to a message (its answers included) leaves the connection open and the
  received bytes alone.
\<close>

definition calm :: "('t, 'c, 'b) environment \<Rightarrow> ('t, 'b, 'w) handlers \<Rightarrow> bool" where
  "calm env hs \<longleftrightarrow> (\<forall>pos s u. supl s = Some u \<longrightarrow> is_connected (env_tcp env) u \<longrightarrow>
     (\<exists>s' u'. process_supl_pos env hs pos s = Some s' \<and> supl s' = Some u' \<and>
        same_receiver (env_tcp env) u u' \<and> lpp_state s' = lpp_state s))"

lemma calmD:
  assumes "calm env hs" and "supl s = Some u" and "is_connected (env_tcp env) u"
  obtains s' u' where "process_supl_pos env hs pos s = Some s'" and "supl s' = Some u'"
    and "same_receiver (env_tcp env) u u'" and "lpp_state s' = lpp_state s"
  using assms unfolding calm_def by blast

text \<open>The messages are processed one after the other, each when its bytes have been taken.\<close>

definition consumed :: "nat \<Rightarrow> ('t, 'w) lpp_session \<Rightarrow> ('t, 'w) lpp_session" where
  "consumed n s = s\<lparr>supl := map_option (rb_consume n) (supl s)\<rparr>"

fun deliver_pos ::
  "('t, 'c, 'b) environment \<Rightarrow> ('t, 'b, 'w) handlers \<Rightarrow> (POS \<times> u8 list) list \<Rightarrow>
   ('t, 'w) lpp_session \<Rightarrow> ('t, 'w) lpp_session option" where
  "deliver_pos env hs [] s = Some s"
| "deliver_pos env hs ((pos, e) # xs) s =
     Option.bind (process_supl_pos env hs pos (consumed (length e) s)) (deliver_pos env hs xs)"

lemma message_loop_delivers:
  assumes "calm env hs"
    and "list_all2 (\<lambda>pos e. \<exists>pdu. frame (uper_spec 4 (uper_decode (env_ulp env))) pdu e \<and> pos_of_session u pdu pos)
      poss es"
    and "supl s = Some u" and "is_connected (env_tcp env) u" and "mReceiveBuffer u = concat es @ p"
    and "uper_spec 4 (uper_decode (env_ulp env)) p = (Null, p)"
  shows "\<exists>s' u'. deliver_pos env hs (zip poss es) s = Some s' \<and>
    message_loop env hs s = Some (ns_error ST_DISCONNECTED (ns_read MESSAGE ns_make), s') \<and>
    supl s' = Some u' \<and> same_receiver (env_tcp env) (u\<lparr>mReceiveBuffer := p\<rparr>) u' \<and> lpp_state s' = lpp_state s"
  using assms(2-)
proof (induction poss arbitrary: es s u)
  case Nil
  then have "es = []" "mReceiveBuffer u = p" by simp_all
  then have "u\<lparr>mReceiveBuffer := p\<rparr> = u" "s\<lparr>supl := Some u\<rparr> = s" using Nil by simp_all
  then show ?case
    using Nil \<open>es = []\<close> \<open>mReceiveBuffer u = p\<close>
    by (simp add: message_loop.simps [of env hs s] try_receive_def parse_receive_spec same_receiver_def)
next
  case (Cons pos poss)
  obtain e es' pdu where es: "es = e # es'" and pdu: "frame (uper_spec 4 (uper_decode (env_ulp env))) pdu e"
    "pos_of_session u pdu pos"
    and tl: "list_all2 (\<lambda>pos e. \<exists>pdu. frame (uper_spec 4 (uper_decode (env_ulp env))) pdu e \<and> pos_of_session u pdu pos) poss es'"
    using Cons.prems(1) by (auto simp: list_all2_Cons1)
  let ?u = "u\<lparr>mReceiveBuffer := concat es' @ p\<rparr>"
  let ?s = "s\<lparr>supl := Some ?u\<rparr>"
  have "uper_spec 4 (uper_decode (env_ulp env)) (mReceiveBuffer u) = (Value pdu, concat es' @ p)"
    using frameD(2) [OF pdu(1)] Cons.prems(4) es by simp
  moreover have "pos_of_session ?u pdu pos" using pdu(2) by (simp add: pos_of_session_def)
  ultimately have recv: "try_receive (env_tcp env) (env_ulp env)
      \<lparr>want_response = False, want_end = True, want_pos = True\<rparr> u = Some (ReceivedPOS pos, ?u)"
    using Cons.prems(3) pos_received [of ?u pdu pos] by (simp add: try_receive_def parse_receive_spec)
  have consumed: "consumed (length e) s = ?s"
    using Cons.prems(2,4) es by (simp add: consumed_def rb_consume_drop)
  have "is_connected (env_tcp env) ?u" using Cons.prems(3) by (simp add: is_connected_def)
  from calmD [OF assms(1) _ this, of ?s pos] obtain s1 u1 where
    s1: "process_supl_pos env hs pos ?s = Some s1" "supl s1 = Some u1"
    and u1: "same_receiver (env_tcp env) ?u u1" "lpp_state s1 = lpp_state s" by auto
  have u1': "mSETSession u1 = mSETSession u" "mSLPSession u1 = mSLPSession u"
    "mReceiveBuffer u1 = concat es' @ p" "is_connected (env_tcp env) u1"
    using u1 Cons.prems(3) by (simp_all add: same_receiver_def is_connected_def)
  have "list_all2 (\<lambda>pos e. \<exists>pdu. frame (uper_spec 4 (uper_decode (env_ulp env))) pdu e \<and> pos_of_session u1 pdu pos) poss es'"
    using tl u1' by (simp add: pos_of_session_def)
  from Cons.IH [OF this s1(2) u1'(4) u1'(3) Cons.prems(5)] obtain s' u' where
    s': "deliver_pos env hs (zip poss es') s1 = Some s'"
    "message_loop env hs s1 = Some (ns_error ST_DISCONNECTED (ns_read MESSAGE ns_make), s')"
    "supl s' = Some u'" "same_receiver (env_tcp env) (u1\<lparr>mReceiveBuffer := p\<rparr>) u'" "lpp_state s' = lpp_state s1"
    by blast
  have "same_receiver (env_tcp env) (u\<lparr>mReceiveBuffer := p\<rparr>) u'"
    using s'(4) u1(1) by (simp add: same_receiver_def is_connected_def supl_fd_def)
  moreover have "message_loop env hs s = message_loop env hs s1"
    using Cons.prems(2) recv s1(1) by (subst message_loop.simps) simp
  ultimately show ?case
    using s' s1(1) consumed es u1(2) by simp
qed

section \<open>An event of the socket\<close>

text \<open>The socket delivers the bytes \<open>c\<close>, and nothing else is waiting in the TLS layer.\<close>

definition delivers :: "'t tcp \<Rightarrow> 't \<Rightarrow> u8 list \<Rightarrow> 't \<Rightarrow> bool" where
  "delivers tcp t c t' \<longleftrightarrow> (\<forall>n \<ge> length c. 0 < n \<longrightarrow> tcp_receive tcp n t = (RecvOk c, t')) \<and>
     \<not> tcp_has_pending tcp t' \<and> tcp_is_connected tcp t' \<and> 0 \<le> tcp_fd tcp t'"

lemma fill_delivers:
  assumes "delivers tcp t c t'" and "mTcpClient u = Some t"
    and "length (mReceiveBuffer u) + length c \<le> UPER_DECODE_BUFFER_SIZE"
    and "length (mReceiveBuffer u) < UPER_DECODE_BUFFER_SIZE"
  shows "fill_receive_buffer tcp u =
    Some (True, u\<lparr>mTcpClient := Some t', mReceiveBuffer := mReceiveBuffer u @ c\<rparr>)"
proof -
  let ?n = "UPER_DECODE_BUFFER_SIZE - length (mReceiveBuffer u)"
  have n: "length c \<le> ?n" "0 < ?n" using assms(3,4) by simp_all
  then have "tcp_receive tcp ?n t = (RecvOk c, t')" using assms(1) by (simp add: delivers_def)
  then show ?thesis
    using assms(1,2) n by (subst fill_receive_buffer.simps) (simp add: delivers_def)
qed

lemma process_waits:
  assumes "run_state cfg s = Some (r, s', ds)" and "ns_schedule r" and "lpp_state s \<noteq> EXIT"
    and "supl s' = Some u" and "0 \<le> supl_fd (env_tcp (cfg_env cfg)) u" and "\<not> is_disconnected u"
  shows "lpp_process cfg True s =
    Some (s'\<lparr>mNextReadState := read_state r, mNextWriteState := write_state r, mNextErrorState := error_state r\<rparr>,
      ds @ [TaskUpdate (supl_fd (env_tcp (cfg_env cfg)) u) (read_state r \<noteq> ST_UNKNOWN)
        (write_state r \<noteq> ST_UNKNOWN) (error_state r \<noteq> ST_UNKNOWN)])"
  using assms by (subst lpp_process.simps) (simp add: wait_for_def)

text \<open>The session goes on waiting for messages, as it is after every event that leaves it open.\<close>

definition waiting :: "('t, 'w) lpp_session \<Rightarrow> ('t, 'w) lpp_session" where
  "waiting s = s\<lparr>mNextReadState := MESSAGE, mNextWriteState := ST_UNKNOWN, mNextErrorState := ST_DISCONNECTED\<rparr>"

lemma message_event:
  assumes "lpp_state s = MESSAGE" and "supl s = Some u" and "mTcpClient u = Some t"
    and "fill_receive_buffer (env_tcp (cfg_env cfg)) u = Some (True, u1)"
    and "message_loop (cfg_env cfg) (cfg_handlers cfg) (s\<lparr>supl := Some u1\<rparr>) =
      Some (ns_error ST_DISCONNECTED (ns_read MESSAGE ns_make), s')"
    and "supl s' = Some u'" and "0 \<le> supl_fd (env_tcp (cfg_env cfg)) u'" and "\<not> is_disconnected u'"
  shows "lpp_process cfg True s =
    Some (waiting s', [TaskUpdate (supl_fd (env_tcp (cfg_env cfg)) u') True False True])"
proof -
  have "run_state cfg s = Some (ns_error ST_DISCONNECTED (ns_read MESSAGE ns_make), s', [])"
    using assms by (simp add: run_state_def no_deferred_def state_message_def)
  from process_waits [OF this] show ?thesis
    using assms by (simp add: ns_defs waiting_def)
qed

text \<open>C2: an established session delivers the position messages of the server in order and each exactly
  once, however TCP cuts the stream.  The bytes left over from before, the bytes \<open>c\<close> of this event and
  the \<open>rest\<close> that is still to come are the encodings of messages of this session.  Then the event
  hands the messages that are complete to \<^verbatim>\<open>process_supl_pos\<close>, keeps the beginning of the next one, and
  waits for the socket again; the state after it is again of this kind.\<close>

theorem session_stream_delivered:
  assumes "calm (cfg_env cfg) (cfg_handlers cfg)" and "lpp_state s = MESSAGE" and "supl s = Some u"
    and "mState u \<noteq> DISCONNECTED" and "mTcpClient u = Some t" and "delivers (env_tcp (cfg_env cfg)) t c t'"
    and "length (mReceiveBuffer u) + length c \<le> UPER_DECODE_BUFFER_SIZE"
    and "length (mReceiveBuffer u) < UPER_DECODE_BUFFER_SIZE"
    and "pdu_decoder (uper_decode (env_ulp (cfg_env cfg)))"
    and "list_all2 (\<lambda>(pdu, pos) e. encodes (uper_decode (env_ulp (cfg_env cfg))) pdu e \<and> 4 \<le> length e \<and>
      pos_of_session u pdu pos) ms es"
    and "mReceiveBuffer u @ c @ rest = concat es"
  shows "\<exists>n s' u'. deliver_pos (cfg_env cfg) (cfg_handlers cfg) (take n (zip (map snd ms) es))
        (s\<lparr>supl := Some (u\<lparr>mTcpClient := Some t', mReceiveBuffer := mReceiveBuffer u @ c\<rparr>)\<rparr>) = Some s' \<and>
      lpp_process cfg True s =
        Some (waiting s', [TaskUpdate (tcp_fd (env_tcp (cfg_env cfg)) t') True False True]) \<and>
      lpp_state (waiting s') = MESSAGE \<and> supl (waiting s') = Some u' \<and> mState u' = mState u \<and>
      mReceiveBuffer u' @ rest = concat (drop n es) \<and>
      (drop n es = [] \<or> length (mReceiveBuffer u') < length (hd (drop n es)))"
proof -
  let ?env = "cfg_env cfg" and ?spec = "uper_spec 4 (uper_decode (env_ulp (cfg_env cfg)))"
  let ?u = "u\<lparr>mTcpClient := Some t', mReceiveBuffer := mReceiveBuffer u @ c\<rparr>"
  have len: "length ms = length es" using assms(10) by (rule list_all2_lengthD)
  have fr: "list_all2 (\<lambda>m e. frame ?spec (fst m) e \<and> pos_of_session u (fst m) (snd m)) ms es"
    using assms(10) by (rule list_all2_mono) (auto intro: uper_frame [OF assms(9)])
  then have "list_all2 (frame ?spec) (map fst ms) es"
    by (simp add: list_all2_conv_all_nth)
  then obtain es1 es2 p where p: "es = es1 @ es2" "mReceiveBuffer u @ c = concat es1 @ p"
    "p @ rest = concat es2" "es2 = [] \<or> length p < length (hd es2)" and fr2: "\<exists>ms2. list_all2 (frame ?spec) ms2 es2"
  proof (rule split_stream [of ?spec "map fst ms" es "mReceiveBuffer u @ c" rest])
    show "(mReceiveBuffer u @ c) @ rest = concat es" using assms(11) by simp
  qed blast
  have null: "?spec p = (Null, p)"
  proof (cases es2)
    case Nil
    then show ?thesis using p(3) uper_spec_nil [OF assms(9)] by simp
  next
    case (Cons e es3)
    then obtain m where m: "frame ?spec m e" using fr2 by (auto simp: list_all2_Cons2)
    have "length p < length e" "p @ rest = e @ concat es3" using p(3,4) Cons by simp_all
    then obtain x where "p @ x = e" "x \<noteq> []" by (auto simp: append_eq_append_conv2)
    then show ?thesis by (rule frameD(3) [OF m])
  qed
  let ?n = "length es1"
  have "list_all2 (\<lambda>m e. frame ?spec (fst m) e \<and> pos_of_session u (fst m) (snd m)) (take ?n ms) es1"
    using list_all2_takeI [OF fr, of ?n] p(1) by simp
  then have "list_all2 (\<lambda>pos e. \<exists>pdu. frame ?spec pdu e \<and> pos_of_session ?u pdu pos) (map snd (take ?n ms)) es1"
    unfolding list_all2_map1 by (rule list_all2_mono) (auto simp: pos_of_session_def)
  moreover have conn: "is_connected (env_tcp ?env) ?u"
    using assms(6) by (simp add: delivers_def is_connected_def)
  ultimately obtain s' u' where s': "deliver_pos ?env (cfg_handlers cfg) (zip (map snd (take ?n ms)) es1) (s\<lparr>supl := Some ?u\<rparr>) = Some s'"
    "message_loop ?env (cfg_handlers cfg) (s\<lparr>supl := Some ?u\<rparr>) = Some (ns_error ST_DISCONNECTED (ns_read MESSAGE ns_make), s')"
    "supl s' = Some u'" "same_receiver (env_tcp ?env) (?u\<lparr>mReceiveBuffer := p\<rparr>) u'" "lpp_state s' = lpp_state s"
    using message_loop_delivers [OF assms(1) _ _ conn _ null, of "map snd (take ?n ms)" es1 "s\<lparr>supl := Some ?u\<rparr>"] p(2)
    by auto
  have fd: "supl_fd (env_tcp ?env) u' = tcp_fd (env_tcp ?env) t'" and st: "mState u' = mState u" "mReceiveBuffer u' = p"
    using s'(4) by (simp_all add: same_receiver_def supl_fd_def)
  have zip: "take ?n (zip (map snd ms) es) = zip (map snd (take ?n ms)) es1"
    using p(1) len by (simp add: take_zip take_map)
  have "0 \<le> tcp_fd (env_tcp ?env) t'" using assms(6) by (simp add: delivers_def)
  then have "lpp_process cfg True s = Some (waiting s', [TaskUpdate (tcp_fd (env_tcp ?env) t') True False True])"
    using message_event [OF assms(2,3,5) fill_delivers [OF assms(6,5,7,8)] s'(2,3)] fd st assms(4)
    by (simp add: is_disconnected_def)
  moreover have "lpp_state (waiting s') = MESSAGE" "supl (waiting s') = Some u'"
    using s'(3,5) assms(2) by (simp_all add: waiting_def)
  moreover have "mReceiveBuffer u' @ rest = concat (drop ?n es)"
    "drop ?n es = [] \<or> length (mReceiveBuffer u') < length (hd (drop ?n es))"
    using p st by simp_all
  ultimately show ?thesis using s'(1) st(1) zip by (intro exI [of _ ?n] exI [of _ s'] exI [of _ u']) simp
qed

section \<open>Bytes that are not a PDU\<close>

lemma message_loop_failure:
  assumes "pdu_decoder (uper_decode (env_ulp env))" and "uper_decode (env_ulp env) (mReceiveBuffer u) = RC_FAIL n"
    and "supl s = Some u" and "is_connected (env_tcp env) u"
  shows "message_loop env hs s = Some (ns_error ST_DISCONNECTED (ns_read MESSAGE ns_make), s)"
proof -
  have "uper_spec 4 (uper_decode (env_ulp env)) (mReceiveBuffer u) = (Null, mReceiveBuffer u)"
    using uper_failure [OF assms(1,2), of 4 "[]"] by simp
  then have "parse_receive_buffer (env_ulp env) u = (None, u)"
    by (simp add: parse_receive_spec)
  moreover have "s\<lparr>supl := Some u\<rparr> = s" using assms(3) by simp
  ultimately show ?thesis
    using assms(3,4) by (subst message_loop.simps) (simp add: try_receive_def)
qed

text \<open>Bytes that the decoder rejects are never got rid of.  The decoder consumes nothing when it
  fails, so once the buffer begins with such bytes no later message is delivered: whatever arrives is
  added to the buffer, which stays undecodable.  When the 64 KiB are full, \<^verbatim>\<open>fill_receive_buffer\<close>
  reports success without reading, so even the end of the connection goes unnoticed and the session
  waits on.\<close>

theorem undecodable_bytes_are_final:
  assumes "pdu_decoder (uper_decode (env_ulp (cfg_env cfg)))"
    and "uper_decode (env_ulp (cfg_env cfg)) (mReceiveBuffer u) = RC_FAIL n"
    and "lpp_state s = MESSAGE" and "supl s = Some u" and "mState u \<noteq> DISCONNECTED" and "mTcpClient u = Some t"
  shows "(length (mReceiveBuffer u) + length c \<le> UPER_DECODE_BUFFER_SIZE \<and>
      length (mReceiveBuffer u) < UPER_DECODE_BUFFER_SIZE \<and> delivers (env_tcp (cfg_env cfg)) t c t' \<longrightarrow>
      uper_decode (env_ulp (cfg_env cfg)) (mReceiveBuffer u @ c) = RC_FAIL 0 \<and>
      lpp_process cfg True s = Some (waiting (s\<lparr>supl := Some (u\<lparr>mTcpClient := Some t',
        mReceiveBuffer := mReceiveBuffer u @ c\<rparr>)\<rparr>), [TaskUpdate (tcp_fd (env_tcp (cfg_env cfg)) t') True False True])) \<and>
    (length (mReceiveBuffer u) = UPER_DECODE_BUFFER_SIZE \<and> tcp_is_connected (env_tcp (cfg_env cfg)) t \<and>
      0 \<le> tcp_fd (env_tcp (cfg_env cfg)) t \<longrightarrow>
      lpp_process cfg True s = Some (waiting s, [TaskUpdate (tcp_fd (env_tcp (cfg_env cfg)) t) True False True]))"
    (is "(?space \<longrightarrow> ?failed \<and> ?added) \<and> (?full \<longrightarrow> ?same)")
proof (intro conjI impI)
  let ?u = "u\<lparr>mTcpClient := Some t', mReceiveBuffer := mReceiveBuffer u @ c\<rparr>"
  show fail: ?failed by (rule decoder_FAIL(2) [OF assms(1,2)])
  assume sp: ?space
  then have d: "delivers (env_tcp (cfg_env cfg)) t c t'" by blast
  then have "is_connected (env_tcp (cfg_env cfg)) ?u" "0 \<le> supl_fd (env_tcp (cfg_env cfg)) ?u"
    "\<not> is_disconnected ?u"
    using assms(5) by (simp_all add: delivers_def is_connected_def supl_fd_def is_disconnected_def)
  then show ?added
    using message_event [OF assms(3,4,6) fill_delivers [OF d assms(6)]
        message_loop_failure [OF assms(1), of "?u" 0 "s\<lparr>supl := Some ?u\<rparr>"], of "?u"] sp fail
    by (simp add: supl_fd_def)
next
  assume full: ?full
  have same: "s\<lparr>supl := Some u\<rparr> = s" using assms(4) by simp
  have fill: "fill_receive_buffer (env_tcp (cfg_env cfg)) u = Some (True, u)"
    using full assms(6) by (subst fill_receive_buffer.simps) simp
  have u: "is_connected (env_tcp (cfg_env cfg)) u" "supl_fd (env_tcp (cfg_env cfg)) u = tcp_fd (env_tcp (cfg_env cfg)) t"
    "\<not> is_disconnected u"
    using full assms(5,6) by (simp_all add: is_connected_def supl_fd_def is_disconnected_def)
  have "message_loop (cfg_env cfg) (cfg_handlers cfg) (s\<lparr>supl := Some u\<rparr>) =
      Some (ns_error ST_DISCONNECTED (ns_read MESSAGE ns_make), s)"
    unfolding same by (rule message_loop_failure [OF assms(1,2,4) u(1)])
  from message_event [OF assms(3,4,6) fill this assms(4)] show ?same
    using u full by simp
qed

section \<open>A session without callbacks is calm\<close>

definition silent :: "('t, 'b, 'w) handlers \<Rightarrow> bool" where
  "silent hs \<longleftrightarrow> on_begin_transaction hs = None \<and> on_server_end_transaction hs = None \<and>
     on_end_transaction hs = None \<and> on_message hs = None"

definition same_connection :: "('t, 'w) lpp_session \<Rightarrow> ('t, 'w) lpp_session \<Rightarrow> bool" where
  "same_connection s s' \<longleftrightarrow> supl s' = supl s \<and> lpp_state s' = lpp_state s"

lemma silent_operations:
  assumes "silent hs"
  shows "same_connection s (snd (remove_transaction hs h s))"
    and "same_connection s (server_end_transaction hs h s)"
    and "same_connection s (snd (add_transaction hs h sse s))"
    and "call_message hs h m s = Some s"
  using assms
  by (auto simp: silent_def same_connection_def remove_transaction_def server_end_transaction_def
      add_transaction_def call_message_def call_def Let_def split: option.split)

lemma silent_deliver:
  assumes "silent hs"
  shows "\<exists>s'. deliver hs t m s = Some s' \<and> same_connection s s'"
  using silent_operations(2,4) [OF assms]
  by (simp add: deliver_def Let_def) (auto simp: same_connection_def)

lemma silent_payload:
  assumes "silent hs" and "supl s \<noteq> None"
  shows "\<exists>s'. process_lpp_payload env hs data s = Some s' \<and> same_connection s s'"
proof -
  have refl: "same_connection s s" by (simp add: same_connection_def)
  have new: "\<exists>s'. deliver hs t m (snd (add_transaction hs h True (s\<lparr>mGenerationId := g\<rparr>))) = Some s' \<and>
      same_connection s s'" for t m h g
    using silent_deliver [OF assms(1), of t m "snd (add_transaction hs h True (s\<lparr>mGenerationId := g\<rparr>))"]
      silent_operations(3) [OF assms(1), of "s\<lparr>mGenerationId := g\<rparr>" h True]
    by (auto simp: same_connection_def)
  have old: "same_connection s (snd (add_transaction hs h True (s\<lparr>mGenerationId := g\<rparr>)))" for h g
    using silent_operations(3) [OF assms(1), of "s\<lparr>mGenerationId := g\<rparr>" h True]
    by (auto simp: same_connection_def)
  show ?thesis
    using assms(2) refl new old silent_deliver [OF assms(1)] silent_operations(4) [OF assms(1)]
    by (auto simp: process_lpp_payload_def Let_def split: option.split)
qed

lemma silent_calm:
  fixes hs :: "('t, 'b, 'w) handlers"
  assumes "silent hs"
  shows "calm env hs"
proof -
  have all: "\<exists>s'. process_payloads env hs ps s = Some s' \<and> same_connection s s'" if "supl s \<noteq> None" for ps s
    using that
  proof (induction ps arbitrary: s)
    case (Cons p ps)
    obtain s1 where s1: "process_lpp_payload env hs (payload_data p) s = Some s1" "same_connection s s1"
      using silent_payload [OF assms Cons.prems] by blast
    then have "supl s1 \<noteq> None" using Cons.prems by (simp add: same_connection_def)
    then show ?case
      using s1 Cons.IH [of s1] Cons.IH [OF Cons.prems] by (auto simp: same_connection_def)
  qed (simp add: same_connection_def)
  show ?thesis
    unfolding calm_def process_supl_pos_def
  proof (intro allI impI)
    fix pos and s :: "('t, 'w) lpp_session" and u
    assume u: "supl s = Some u"
    then obtain s' where "process_payloads env hs (pos_payloads pos) s = Some s'" "same_connection s s'"
      using all [of s "pos_payloads pos"] by blast
    then show "\<exists>s' u'. process_payloads env hs (pos_payloads pos) s = Some s' \<and> supl s' = Some u' \<and>
        same_receiver (env_tcp env) u u' \<and> lpp_state s' = lpp_state s"
      using u by (intro exI [of _ s'] exI [of _ u]) (simp add: same_connection_def same_receiver_def)
  qed
qed

text \<open>A server that sends a position message with an LPP payload, three bytes at a time.\<close>

definition sample_pos :: "unit ulp_pdu" where
  "sample_pos = \<lparr>ulp_length = 0, ulp_version = (2, 1, 0),
     setSessionID = Some \<lparr>sessionId = 1024, setId = SETId_PR_imsi [0xF1]\<rparr>,
     slpSessionID = Some \<lparr>slp_sessionID = [0, 0, 0, 1], slpId = SLPAddress_PR_fQDN [104]\<rparr>,
     ulp_message = msSUPLPOS (PosPayLoad_PR_ver2 \<lparr>lPPPayload = Some [[0, 5, 0]], tIA801Payload = None\<rparr>)\<rparr>"

definition chunk_tcp :: "unit tcp" where
  "chunk_tcp = sample_tcp\<lparr>tcp_receive := \<lambda>n t. (RecvOk [1, 2, 3], t)\<rparr>"

definition sample_ulp_decode :: "u8 list \<Rightarrow> unit ulp_pdu decoded" where
  "sample_ulp_decode b = (if length b < 4 then RC_WMORE else RC_OK sample_pos 4)"

definition sample_cfg :: "(unit, unit, unit, unit) config" where
  "sample_cfg = \<lparr>cfg_env = \<lparr>env_tcp = chunk_tcp,
       env_ulp = sample_ulp\<lparr>uper_decode := sample_ulp_decode\<rparr>, env_lpp = sample_lpp\<rparr>,
     cfg_handlers = no_handlers, on_established = None, on_disconnected = None, cfg_start = (),
     cfg_posinit = (), cfg_identity = IMSI 1, cfg_client = (), cfg_cleanup = id\<rparr>"

definition open_supl :: "unit supl_session" where
  "open_supl = sample_supl\<lparr>mReceiveBuffer := [9, 9],
     mSLPSession := \<lparr>slp_is_active = True, slp_session = [0, 0, 0, 1], slp_identity = FQDN [104]\<rparr>\<rparr>"

definition open_session :: "(unit, unit) lpp_session" where
  "open_session = (lpp_Session ())\<lparr>lpp_state := MESSAGE, supl := Some open_supl\<rparr>"

lemma chunk_delivers: "delivers chunk_tcp () [1, 2, 3] ()"
  by (simp add: delivers_def chunk_tcp_def sample_tcp_def)

lemma sample_ulp_decoder: "pdu_decoder sample_ulp_decode"
  by (simp add: pdu_decoder_def sample_ulp_decode_def)

lemma sample_pos_of_session:
  "pos_of_session open_supl sample_pos \<lparr>pos_payloads = [decode_payload LPP [0, 5, 0]]\<rparr>"
proof -
  have "decode_wanted \<lparr>want_response = False, want_end = True, want_pos = True\<rparr> sample_pos =
     Some (Some (ReceivedPOS \<lparr>pos_payloads = [decode_payload LPP [0, 5, 0]]\<rparr>,
       \<lparr>set_is_active = True, set_session = 1024, set_identity = IMSI 1\<rparr>,
       \<lparr>slp_is_active = True, slp_session = [0, 0, 0, 1], slp_identity = FQDN [104]\<rparr>))"
    by (simp add: decode_wanted_def decode_end_def decode_pos_def decode_session_def sample_pos_def
        decode_setid_def decode_slp_address_def decode_pospayload_def)
  then show ?thesis
    by (simp add: pos_of_session_def open_supl_def sample_supl_def Session_new_def set_eq_def slp_eq_def)
qed

theorem session_stream_delivered_witness:
  "\<exists>n s' u'. deliver_pos (cfg_env sample_cfg) no_handlers
      (take n (zip [\<lparr>pos_payloads = [decode_payload LPP [0, 5, 0]]\<rparr>,
        \<lparr>pos_payloads = [decode_payload LPP [0, 5, 0]]\<rparr>] [[9, 9, 1, 2], [3, 4, 4, 4]]))
      (open_session\<lparr>supl := Some (open_supl\<lparr>mTcpClient := Some (), mReceiveBuffer := [9, 9, 1, 2, 3]\<rparr>)\<rparr>) = Some s' \<and>
    lpp_process sample_cfg True open_session = Some (waiting s', [TaskUpdate 3 True False True]) \<and>
    supl (waiting s') = Some u' \<and> mReceiveBuffer u' @ [4, 4, 4] = concat (drop n [[9, 9, 1, 2], [3, 4, 4, 4]])"
proof -
  let ?pos = "\<lparr>pos_payloads = [decode_payload LPP [0, 5, 0]]\<rparr>"
  have c: "calm (cfg_env sample_cfg) (cfg_handlers sample_cfg)"
    by (rule silent_calm) (simp add: silent_def sample_cfg_def no_handlers_def)
  have u: "supl open_session = Some open_supl" "lpp_state open_session = MESSAGE"
    "mState open_supl \<noteq> DISCONNECTED" "mTcpClient open_supl = Some ()" "mReceiveBuffer open_supl = [9, 9]"
    by (simp_all add: open_session_def open_supl_def sample_supl_def Session_new_def)
  have fd: "tcp_fd chunk_tcp () = 3" by (simp add: chunk_tcp_def sample_tcp_def)
  have cfg: "env_tcp (cfg_env sample_cfg) = chunk_tcp" "uper_decode (env_ulp (cfg_env sample_cfg)) = sample_ulp_decode"
    "cfg_handlers sample_cfg = no_handlers"
    by (simp_all add: sample_cfg_def sample_ulp_def)
  have ms: "list_all2 (\<lambda>(pdu, pos) e. encodes sample_ulp_decode pdu e \<and> 4 \<le> length e \<and> pos_of_session open_supl pdu pos)
      [(sample_pos, ?pos), (sample_pos, ?pos)] [[9, 9, 1, 2], [3, 4, 4, 4]]"
    using sample_pos_of_session by (simp add: encodes_def sample_ulp_decode_def)
  obtain n s' u' where "deliver_pos (cfg_env sample_cfg) no_handlers
      (take n (zip (map snd [(sample_pos, ?pos), (sample_pos, ?pos)]) [[9, 9, 1, 2], [3, 4, 4, 4]]))
      (open_session\<lparr>supl := Some (open_supl\<lparr>mTcpClient := Some (), mReceiveBuffer := [9, 9] @ [1, 2, 3]\<rparr>)\<rparr>) = Some s'"
    "lpp_process sample_cfg True open_session = Some (waiting s', [TaskUpdate (tcp_fd chunk_tcp ()) True False True])"
    "supl (waiting s') = Some u'" "mReceiveBuffer u' @ [4, 4, 4] = concat (drop n [[9, 9, 1, 2], [3, 4, 4, 4]])"
    using session_stream_delivered [of sample_cfg open_session open_supl "()" "[1, 2, 3]" "()", unfolded cfg u,
        OF c [unfolded cfg] refl refl u(3) refl chunk_delivers _ _ sample_ulp_decoder ms, of "[4, 4, 4]"]
    by (auto simp: UPER_DECODE_BUFFER_SIZE_def)
  then show ?thesis
    unfolding fd by (intro exI [of _ n] exI [of _ s'] exI [of _ u']) simp
qed

theorem undecodable_bytes_are_final_witness:
  "lpp_process (sample_cfg\<lparr>cfg_env := (cfg_env sample_cfg)\<lparr>env_ulp :=
      sample_ulp\<lparr>uper_decode := \<lambda>b. if b = [] then RC_WMORE else RC_FAIL 0\<rparr>\<rparr>\<rparr>) True open_session =
    Some (waiting (open_session\<lparr>supl := Some (open_supl\<lparr>mTcpClient := Some (), mReceiveBuffer := [9, 9] @ [1, 2, 3]\<rparr>)\<rparr>),
      [TaskUpdate 3 True False True])"
proof -
  let ?cfg = "sample_cfg\<lparr>cfg_env := (cfg_env sample_cfg)\<lparr>env_ulp :=
      sample_ulp\<lparr>uper_decode := \<lambda>b. if b = [] then RC_WMORE else RC_FAIL 0\<rparr>\<rparr>\<rparr>"
  have d: "pdu_decoder (uper_decode (env_ulp (cfg_env ?cfg)))"
    by (simp add: pdu_decoder_def)
  have u: "supl open_session = Some open_supl" "lpp_state open_session = MESSAGE"
    "mState open_supl \<noteq> DISCONNECTED" "mTcpClient open_supl = Some ()" "mReceiveBuffer open_supl = [9, 9]"
    by (simp_all add: open_session_def open_supl_def sample_supl_def Session_new_def)
  have t: "env_tcp (cfg_env ?cfg) = chunk_tcp" "tcp_fd chunk_tcp () = 3"
    by (simp_all add: sample_cfg_def chunk_tcp_def sample_tcp_def)
  have f: "uper_decode (env_ulp (cfg_env ?cfg)) (mReceiveBuffer open_supl) = RC_FAIL 0" by (simp add: u)
  from undecodable_bytes_are_final [OF d f u(2,1,3,4), of "[1, 2, 3]" "()"]
  show ?thesis unfolding t u using chunk_delivers by (simp add: UPER_DECODE_BUFFER_SIZE_def)
qed

end
