(* ===== verification/Lpp_Task.thy ===== *)
theory Lpp_Task
  imports Lpp_Receive Scheduler
begin

text \<open>
  The LPP session on the event loop: the task that watches its socket (\<^verbatim>\<open>SessionTask\<close> of
  dependency/lpp/session.cpp), \<^verbatim>\<open>schedule\<close> and \<^verbatim>\<open>cancel\<close> of the session and of the client
  around it (dependency/lpp/client.cpp), and the reconnect timer of the program
  (examples/client/main.cpp).  \<open>sys\<close> says which calls of \<^verbatim>\<open>epoll_ctl\<close> succeed, from the
  calls made before.  The program is \<open>None\<close> after a failed assertion.
\<close>

section \<open>State\<close>

text \<open>\<open>task_scheduled\<close>: the pointer to the scheduler is not null.\<close>

record session_task =
  mFd :: int
  task_event :: ScheduledEvent
  task_scheduled :: bool
  mReadEnabled :: bool
  mWriteEnabled :: bool
  mErrorEnabled :: bool

text \<open>\<^verbatim>\<open>SessionTask(this, -1)\<close>.\<close>

definition SessionTask :: session_task where
  "SessionTask = \<lparr>mFd = -1, task_event = ev_invalid, task_scheduled = False, mReadEnabled = False,
     mWriteEnabled = False, mErrorEnabled = False\<rparr>"

record ('t, 'w) machine =
  session :: "('t, 'w) lpp_session"
  session_scheduled :: bool
  session_task :: session_task
  client_scheduled :: bool
  program_disconnected :: bool

datatype session_event = SessionEvent | ReconnectTick

type_synonym ('t, 'w) loop = "(session_event, session_deferred, ('t, 'w) machine option) scheduler"

type_synonym kernel = "epoll_call list \<Rightarrow> bool"

section \<open>The task\<close>

definition task_interests :: "session_task \<Rightarrow> u32" where
  "task_interests t =
     (let interests = EventInterest_None;
          interests = (if mReadEnabled t then interests OR EventInterest_Read else interests);
          interests = (if mWriteEnabled t then interests OR EventInterest_Write else interests)
      in if mErrorEnabled t then interests OR EventInterest_Error else interests)"

definition task_schedule :: "kernel \<Rightarrow> session_task \<Rightarrow> ('t, 'w) loop \<Rightarrow> bool \<times> session_task \<times> ('t, 'w) loop" where
  "task_schedule sys t s =
     (if task_scheduled t then (False, t, s)
      else
        let (ev, s) = register_fd (sys (epoll_calls s)) (mFd t) (task_interests t) (Some SessionEvent)
              ''lpp-session'' s;
            t = t\<lparr>task_event := ev\<rparr>
        in if ev_valid ev then (True, t\<lparr>task_scheduled := True\<rparr>, s) else (False, t, s))"

definition task_cancel :: "session_task \<Rightarrow> ('t, 'w) loop \<Rightarrow> bool \<times> session_task \<times> ('t, 'w) loop" where
  "task_cancel t s =
     (if \<not> task_scheduled t then (False, t, s)
      else (True, t\<lparr>task_scheduled := False, task_event := ev_invalid\<rparr>, unregister (task_event t) s))"

text \<open>
  \<^verbatim>\<open>update\<close>: a new descriptor, then new interests; each cancels what is registered, and each says
  whether the task has to be scheduled again.
\<close>

definition maybe_cancel :: "session_task \<Rightarrow> ('t, 'w) loop \<Rightarrow> session_task \<times> ('t, 'w) loop" where
  "maybe_cancel t s = (if mFd t \<noteq> -1 \<and> task_scheduled t then snd (task_cancel t s) else (t, s))"

definition change_fd :: "int \<Rightarrow> session_task \<Rightarrow> ('t, 'w) loop \<Rightarrow> bool \<times> session_task \<times> ('t, 'w) loop" where
  "change_fd fd t s =
     (if mFd t \<noteq> fd then let (t, s) = maybe_cancel t s in (True, t\<lparr>mFd := fd\<rparr>, s) else (False, t, s))"

definition change_interests ::
  "bool \<Rightarrow> bool \<Rightarrow> bool \<Rightarrow> session_task \<Rightarrow> ('t, 'w) loop \<Rightarrow> bool \<times> session_task \<times> ('t, 'w) loop" where
  "change_interests read write error t s =
     (if mReadEnabled t \<noteq> read \<or> mWriteEnabled t \<noteq> write \<or> mErrorEnabled t \<noteq> error
      then (True, maybe_cancel (t\<lparr>mReadEnabled := read, mWriteEnabled := write, mErrorEnabled := error\<rparr>) s)
      else (False, t, s))"

definition task_update ::
  "kernel \<Rightarrow> int \<Rightarrow> bool \<Rightarrow> bool \<Rightarrow> bool \<Rightarrow> session_task \<Rightarrow> ('t, 'w) loop \<Rightarrow>
   bool \<times> session_task \<times> ('t, 'w) loop" where
  "task_update sys fd read write error t s =
     (let (new_fd, t, s) = change_fd fd t s;
          (new_interests, t, s) = change_interests read write error t s
      in if mFd t \<noteq> -1 \<and> (new_fd \<or> new_interests) then task_schedule sys t s else (True, t, s))"

section \<open>The session and its client\<close>

definition session_cancel :: "('t, 'w) machine \<Rightarrow> ('t, 'w) loop \<Rightarrow> (('t, 'w) machine \<times> ('t, 'w) loop) option" where
  "session_cancel m s =
     (if \<not> session_scheduled m then None
      else
        let m = m\<lparr>session := switch_state EXIT (session m)\<rparr>;
            (_, t, s) = (if task_scheduled (session_task m) then task_cancel (session_task m) s
                         else (True, session_task m, s))
        in Some (m\<lparr>session_task := t, session := (session m)\<lparr>supl := None\<rparr>, session_scheduled := False\<rparr>, s))"

definition client_cancel ::
  "('t, 'c, 'b, 'w) config \<Rightarrow> ('t, 'w) machine \<Rightarrow> ('t, 'w) loop \<Rightarrow> (('t, 'w) machine \<times> ('t, 'w) loop) option" where
  "client_cancel cfg m s =
     (if \<not> client_scheduled m then None
      else map_option (\<lambda>(m, s). (m\<lparr>client_scheduled := False,
             session := (session m)\<lparr>world := cfg_cleanup cfg (world (session m))\<rparr>\<rparr>, s)) (session_cancel m s))"

text \<open>What a call of \<^verbatim>\<open>process\<close> leaves behind.\<close>

definition finish ::
  "('t, 'w) machine \<Rightarrow> (('t, 'w) lpp_session \<times> session_deferred list) option \<Rightarrow>
   ('t, 'w) loop \<Rightarrow> ('t, 'w) loop" where
  "finish m result s =
     (case result of None \<Rightarrow> s\<lparr>program := None\<rparr>
      | Some (x, ds) \<Rightarrow> s\<lparr>program := Some (m\<lparr>session := x\<rparr>), mDeferredCallbacks := mDeferredCallbacks s @ ds\<rparr>)"

definition client_schedule ::
  "('t, 'c, 'b, 'w) config \<Rightarrow> ('t, 'w) machine \<Rightarrow> ('t, 'w) loop \<Rightarrow> ('t, 'w) loop" where
  "client_schedule cfg m s =
     (if client_scheduled m then s\<lparr>program := None\<rparr>
      else
        let m = m\<lparr>client_scheduled := True, session_scheduled := True\<rparr>
        in finish m (lpp_process cfg True (lpp_connect (session m))) s)"

section \<open>Callbacks on the event loop\<close>

fun run_session :: "('t, 'c, 'b, 'w) config \<Rightarrow> session_event \<Rightarrow> u32 \<Rightarrow> ('t, 'w) loop \<Rightarrow> ('t, 'w) loop" where
  "run_session cfg SessionEvent triggered s =
     (case program s of None \<Rightarrow> s
      | Some m \<Rightarrow>
          if has_interest triggered EventInterest_Read
          then finish m (process_read cfg (session_scheduled m) (session m)) s
          else if has_interest triggered EventInterest_Write
          then finish m (process_write cfg (session_scheduled m) (session m)) s
          else if has_interest triggered EventInterest_Error
          then finish m (process_error cfg (session_scheduled m) (session m)) s
          else s)"
| "run_session cfg ReconnectTick triggered s =
     (case program s of None \<Rightarrow> s
      | Some m \<Rightarrow>
          if program_disconnected m then client_schedule cfg (m\<lparr>program_disconnected := False\<rparr>) s else s)"

fun run_session_deferred ::
  "kernel \<Rightarrow> ('t, 'c, 'b, 'w) config \<Rightarrow> session_deferred \<Rightarrow> ('t, 'w) loop \<Rightarrow> ('t, 'w) loop" where
  "run_session_deferred sys cfg (TaskUpdate fd r w e) s =
     (case program s of None \<Rightarrow> s
      | Some m \<Rightarrow>
          let (ok, t, s) = task_update sys fd r w e (session_task m) s
          in s\<lparr>program := Some (m\<lparr>session_task := t\<rparr>)\<rparr>)"
| "run_session_deferred sys cfg CancelSession s =
     (case program s of None \<Rightarrow> s
      | Some m \<Rightarrow>
          (case client_cancel cfg m s of None \<Rightarrow> s\<lparr>program := None\<rparr>
           | Some (m, s) \<Rightarrow> s\<lparr>program := Some (m\<lparr>program_disconnected := True\<rparr>)\<rparr>))"

section \<open>The callbacks keep to the interface of the event loop\<close>

lemma reaches_ops [intro]:
  assumes "reaches s t"
  shows "reaches s (snd (register_fd ok fd i cb nm t))" and "reaches s (unregister ev t)"
    and "reaches s (t\<lparr>mDeferredCallbacks := ds\<rparr>)" and "reaches s (t\<lparr>program := m\<rparr>)"
  using assms unfolding reaches_def by (blast intro: steps.intros)+

lemma task_schedule_eq:
  "task_schedule sys t s =
     (if task_scheduled t then (False, t, s)
      else let r = register_fd (sys (epoll_calls s)) (mFd t) (task_interests t) (Some SessionEvent) ''lpp-session'' s
           in (ev_valid (fst r), t\<lparr>task_event := fst r, task_scheduled := ev_valid (fst r)\<rparr>, snd r))"
  by (cases t) (simp add: task_schedule_def Let_def split: prod.split)

lemma reaches_task_cancel [intro]: "reaches s t \<Longrightarrow> reaches s (snd (snd (task_cancel k t)))"
  by (auto simp: task_cancel_def)

lemma reaches_task_schedule [intro]: "reaches s t \<Longrightarrow> reaches s (snd (snd (task_schedule sys k t)))"
  by (auto simp: task_schedule_eq Let_def)

lemma reaches_maybe_cancel [intro]: "reaches s t \<Longrightarrow> reaches s (snd (maybe_cancel k t))"
  using reaches_task_cancel [of s t k] by (simp add: maybe_cancel_def)

lemma reaches_changes [intro]:
  "reaches s t \<Longrightarrow> reaches s (snd (snd (change_fd fd k t)))"
  "reaches s t \<Longrightarrow> reaches s (snd (snd (change_interests r w e k t)))"
  by (auto simp: change_fd_def change_interests_def case_prod_beta)

lemma reaches_task_update [intro]:
  "reaches s t \<Longrightarrow> reaches s (snd (snd (task_update sys fd r w e k t)))"
  by (auto simp: task_update_def Let_def case_prod_beta)

lemma session_cancel_eq:
  "session_cancel m s =
     (if \<not> session_scheduled m then None
      else
        let r = (if task_scheduled (session_task m) then snd (task_cancel (session_task m) s) else (session_task m, s))
        in Some (m\<lparr>session_task := fst r, session := (session m)\<lparr>lpp_state := EXIT, supl := None\<rparr>,
             session_scheduled := False\<rparr>, snd r))"
  by (simp add: session_cancel_def Let_def switch_state_def split: prod.split)

lemma reaches_client_cancel:
  assumes "client_cancel cfg m s = Some (m', s')"
  shows "reaches s s'"
  using assms reaches_task_cancel [OF reaches_refl]
  by (auto simp: client_cancel_def session_cancel_eq Let_def split: if_splits)

lemma reaches_finish [intro]: "reaches s t \<Longrightarrow> reaches s (finish m r t)"
proof -
  assume r: "reaches s t"
  have "reaches s (t\<lparr>program := p, mDeferredCallbacks := ds\<rparr>)" for p ds
    by (rule reaches_ops(3) [OF reaches_ops(4) [OF r]])
  then show ?thesis using r by (auto simp: finish_def split: option.split)
qed

interpretation session_loop: event_callbacks "run_session cfg" "run_session_deferred sys cfg"
  for sys :: "epoll_call list \<Rightarrow> bool" and cfg :: "('t, 'c, 'b, 'w) config"
proof
  fix s :: "('t, 'w) loop"
  show "reaches s (run_session cfg ev i s)" for ev i
    by (cases ev) (auto simp: client_schedule_def Let_def split: option.split)
  show "reaches s (run_session_deferred sys cfg d s)" for d
  proof (cases d)
    case (TaskUpdate fd r w e)
    then show ?thesis by (auto simp: Let_def case_prod_beta split: option.split)
  next
    case CancelSession
    then show ?thesis by (auto split: option.split dest: reaches_client_cancel)
  qed
qed

section \<open>What is watched\<close>

definition loop_ok :: "('cb, 'd, 'm) scheduler \<Rightarrow> bool" where
  "loop_ok s \<longleftrightarrow> sched_ok s \<and> mEpollFd s \<noteq> -1 \<and> mInterruptFd s \<noteq> -1"

text \<open>The slots of the event loop that call the session.\<close>

definition watchers :: "('t, 'w) loop \<Rightarrow> nat set" where
  "watchers s = {i. i < MAX_EVENT_SLOTS \<and> slot_in_use (mEventPool s ! i) \<and>
     slot_callback (mEventPool s ! i) = Some SessionEvent}"

text \<open>
  A task that is scheduled owns the only such slot, through a live handle, and its descriptor is
  the one of the task; otherwise there is none.
\<close>

definition watches :: "session_task \<Rightarrow> ('t, 'w) loop \<Rightarrow> bool" where
  "watches t s \<longleftrightarrow>
     (if task_scheduled t
      then \<exists>i. get_slot s (task_event t) = Some i \<and> watchers s = {i} \<and>
             slot_fd (mEventPool s ! i) = mFd t \<and> mFd t \<noteq> -1
      else watchers s = {})"

lemma sched_irrelevant [simp]:
  "loop_ok (s\<lparr>program := p\<rparr>) = loop_ok s" "loop_ok (s\<lparr>mDeferredCallbacks := ds\<rparr>) = loop_ok s"
  "watches t (s\<lparr>program := p\<rparr>) = watches t s" "watches t (s\<lparr>mDeferredCallbacks := ds\<rparr>) = watches t s"
  "loop_ok (s\<lparr>mInterrupted := b\<rparr>) = loop_ok s" "watches t (s\<lparr>mInterrupted := b\<rparr>) = watches t s"
  by (simp_all add: loop_ok_def sched_ok_def watches_def watchers_def get_slot_def)

lemma register_fd_eq:
  fixes cb nm fd
  assumes "mEpollFd s \<noteq> -1" and "mInterruptFd s \<noteq> -1" and "free_slot (mEventPool s) 0 = Some i"
  defines "slot \<equiv> (mEventPool s ! i)\<lparr>slot_callback := cb, slot_name := nm, slot_fd := fd, slot_in_use := True,
    slot_generation := next_generation (slot_generation (mEventPool s ! i))\<rparr>"
  shows "fst (register_fd ok fd ints cb nm s) =
      (if ok then ScheduledEvent (of_nat i) (slot_generation slot) else ev_invalid)"
    and "mEventPool (snd (register_fd ok fd ints cb nm s)) =
      (mEventPool s)[i := if ok then slot else slot\<lparr>slot_in_use := False, slot_callback := None,
         slot_name := [], slot_fd := -1\<rparr>]"
  using assms(1-3) by (simp_all add: register_fd_def set_slot_def epoll_ctl_def Let_def slot_def)

lemma register_result:
  assumes "loop_ok s"
  shows "loop_ok (snd (register_fd ok fd ints cb nm s))"
    and "ev_valid (fst (register_fd ok fd ints cb nm s)) \<Longrightarrow>
      \<exists>i < MAX_EVENT_SLOTS. \<not> slot_in_use (mEventPool s ! i) \<and>
        get_slot (snd (register_fd ok fd ints cb nm s)) (fst (register_fd ok fd ints cb nm s)) = Some i \<and>
        slot_fd (mEventPool (snd (register_fd ok fd ints cb nm s)) ! i) = fd \<and>
        slot_callback (mEventPool (snd (register_fd ok fd ints cb nm s)) ! i) = cb \<and>
        (\<forall>j. j \<noteq> i \<longrightarrow> mEventPool (snd (register_fd ok fd ints cb nm s)) ! j = mEventPool s ! j)"
    and "\<not> ev_valid (fst (register_fd ok fd ints cb nm s)) \<Longrightarrow>
      watchers (snd (register_fd ok fd ints cb nm s)) = watchers s"
proof -
  have s: "sched_ok s" "mEpollFd s \<noteq> -1" "mInterruptFd s \<noteq> -1" "length (mEventPool s) = MAX_EVENT_SLOTS"
    using assms by (simp_all add: loop_ok_def sched_ok_def)
  have "mEpollFd (snd (register_fd ok fd ints cb nm s)) = mEpollFd s"
    "mInterruptFd (snd (register_fd ok fd ints cb nm s)) = mInterruptFd s"
    by (simp_all add: register_fd_def set_slot_def epoll_ctl_def Let_def split: option.split)
  then show "loop_ok (snd (register_fd ok fd ints cb nm s))"
    using s sched_ok_register [OF s(1)] by (simp add: loop_ok_def)
  show "\<exists>i < MAX_EVENT_SLOTS. \<not> slot_in_use (mEventPool s ! i) \<and>
        get_slot (snd (register_fd ok fd ints cb nm s)) (fst (register_fd ok fd ints cb nm s)) = Some i \<and>
        slot_fd (mEventPool (snd (register_fd ok fd ints cb nm s)) ! i) = fd \<and>
        slot_callback (mEventPool (snd (register_fd ok fd ints cb nm s)) ! i) = cb \<and>
        (\<forall>j. j \<noteq> i \<longrightarrow> mEventPool (snd (register_fd ok fd ints cb nm s)) ! j = mEventPool s ! j)"
    if v: "ev_valid (fst (register_fd ok fd ints cb nm s))"
  proof (cases "free_slot (mEventPool s) 0")
    case (Some i)
    note f = free_slotD [OF Some]
    have ok: ok
      using v by (simp add: register_fd_eq(1) [OF s(2,3) Some] ev_valid_def ev_invalid_def split: if_splits)
    note e = register_fd_eq [OF s(2,3) Some, of True]
    have "unat (of_nat i :: u16) = i" using f(1) s(4) by (simp add: unat_of_nat MAX_EVENT_SLOTS_def)
    then show ?thesis
      using s(4) v f ok by (intro exI [of _ i]) (simp add: get_slot_Some e)
  qed (use s v in \<open>simp add: register_fd_def ev_valid_def ev_invalid_def\<close>)
  show "watchers (snd (register_fd ok fd ints cb nm s)) = watchers s"
    if v: "\<not> ev_valid (fst (register_fd ok fd ints cb nm s))"
  proof (cases "free_slot (mEventPool s) 0")
    case (Some i)
    note f = free_slotD [OF Some]
    have "unat (of_nat i :: u16) = i" using f(1) s(4) by (simp add: unat_of_nat MAX_EVENT_SLOTS_def)
    then have "(of_nat i :: u16) \<noteq> 0xFFFF" using f(1) s(4) by (auto simp: MAX_EVENT_SLOTS_def)
    then have ok: "\<not> ok" using v by (auto simp: register_fd_eq(1) [OF s(2,3) Some] ev_valid_def)
    show ?thesis
      using f s(4) by (auto simp: register_fd_eq(2) [OF s(2,3) Some] ok watchers_def nth_list_update)
  qed (use s in \<open>simp add: register_fd_def watchers_def\<close>)
qed

lemma watch_cancel:
  assumes "loop_ok s" and "watches t s" and "task_scheduled t"
  shows "loop_ok (snd (snd (task_cancel t s)))" and "watchers (snd (snd (task_cancel t s))) = {}"
proof -
  have s: "sched_ok s" "mEpollFd s \<noteq> -1" "mInterruptFd s \<noteq> -1" "length (mEventPool s) = MAX_EVENT_SLOTS"
    using assms by (simp_all add: loop_ok_def sched_ok_def)
  have c: "snd (snd (task_cancel t s)) = unregister (task_event t) s"
    using assms(3) by (simp add: task_cancel_def)
  have fds: "mEpollFd (unregister ev s) = mEpollFd s" "mInterruptFd (unregister ev s) = mInterruptFd s" for ev
    by (simp_all add: unregister_def set_slot_def epoll_ctl_def Let_def split: option.split)
  show "loop_ok (snd (snd (task_cancel t s)))"
    using s sched_ok_unregister [OF s(1)] by (simp add: c loop_ok_def fds)
  obtain i where i: "get_slot s (task_event t) = Some i" "watchers s = {i}"
    using assms(2,3) by (auto simp: watches_def)
  have "slot_in_use (mEventPool (unregister (task_event t) s) ! j) \<and>
      slot_callback (mEventPool (unregister (task_event t) s) ! j) = Some SessionEvent \<longleftrightarrow>
      j \<noteq> i \<and> j \<in> watchers s" if "j < MAX_EVENT_SLOTS" for j
    using that s i(1) by (auto simp: unregister_slot watchers_def)
  then show "watchers (snd (snd (task_cancel t s))) = {}"
    unfolding c using i(2) by (auto simp: watchers_def)
qed

lemma watch_schedule:
  assumes "loop_ok s" and "watches t s" and "mFd t \<noteq> -1"
  shows "loop_ok (snd (snd (task_schedule sys t s)))"
    and "watches (fst (snd (task_schedule sys t s))) (snd (snd (task_schedule sys t s)))"
proof -
  let ?r = "register_fd (sys (epoll_calls s)) (mFd t) (task_interests t) (Some SessionEvent) ''lpp-session'' s"
  note r = register_result [OF assms(1), of "sys (epoll_calls s)" "mFd t" "task_interests t" "Some SessionEvent" "''lpp-session''"]
  show "loop_ok (snd (snd (task_schedule sys t s)))"
    using assms(1) r(1) by (simp add: task_schedule_eq Let_def)
  show "watches (fst (snd (task_schedule sys t s))) (snd (snd (task_schedule sys t s)))"
  proof (cases "task_scheduled t")
    case True
    then show ?thesis using assms(2) by (simp add: task_schedule_eq)
  next
    case False
    then have none: "watchers s = {}" using assms(2) by (simp add: watches_def)
    show ?thesis
    proof (cases "ev_valid (fst ?r)")
      case True
      obtain i where i: "i < MAX_EVENT_SLOTS" "get_slot (snd ?r) (fst ?r) = Some i" "slot_fd (mEventPool (snd ?r) ! i) = mFd t"
        "slot_callback (mEventPool (snd ?r) ! i) = Some SessionEvent"
        "\<forall>j. j \<noteq> i \<longrightarrow> mEventPool (snd ?r) ! j = mEventPool s ! j" using r(2) [OF True] by blast
      have "watchers (snd ?r) = {i}"
        using i none by (auto simp: watchers_def get_slot_Some)
      then show ?thesis
        using i(2,3) False True assms(3) by (simp add: task_schedule_eq watches_def Let_def)
    next
      case noev: False
      then show ?thesis
        using r(3) [OF noev] none False by (simp add: task_schedule_eq watches_def Let_def)
    qed
  qed
qed

lemma watch_maybe_cancel:
  assumes "loop_ok s" and "watches t s"
  shows "loop_ok (snd (maybe_cancel t s)) \<and> watchers (snd (maybe_cancel t s)) = {} \<and>
    \<not> task_scheduled (fst (maybe_cancel t s)) \<and> mFd (fst (maybe_cancel t s)) = mFd t"
proof (cases "task_scheduled t")
  case True
  then have "mFd t \<noteq> -1" using assms(2) by (auto simp: watches_def)
  then show ?thesis
    using watch_cancel [OF assms True] True by (simp add: maybe_cancel_def) (simp add: task_cancel_def)
qed (use assms in \<open>simp add: maybe_cancel_def watches_def\<close>)

lemma watch_update:
  assumes "loop_ok s" and "watches t s"
  shows "loop_ok (snd (snd (task_update sys fd r w e t s)))"
    and "watches (fst (snd (task_update sys fd r w e t s))) (snd (snd (task_update sys fd r w e t s)))"
proof -
  have fd: "loop_ok (snd (snd (change_fd fd t s))) \<and> watches (fst (snd (change_fd fd t s))) (snd (snd (change_fd fd t s)))"
    using watch_maybe_cancel [OF assms] assms
    by (auto simp: change_fd_def case_prod_beta watches_def)
  have ints: "loop_ok (snd (snd (change_interests r w e t' s'))) \<and>
      watches (fst (snd (change_interests r w e t' s'))) (snd (snd (change_interests r w e t' s')))"
    if "loop_ok s'" "watches t' s'" for t' and s' :: "('a, 'b) loop"
  proof -
    have "watches (t'\<lparr>mReadEnabled := r, mWriteEnabled := w, mErrorEnabled := e\<rparr>) s'"
      using that by (simp add: watches_def)
    from watch_maybe_cancel [OF that(1) this] show ?thesis
      using that by (auto simp: change_interests_def watches_def)
  qed
  note both = ints [OF conjunct1 [OF fd] conjunct2 [OF fd]]
  show "loop_ok (snd (snd (task_update sys fd r w e t s)))"
    using both watch_schedule(1) [OF conjunct1 [OF both] conjunct2 [OF both]]
    by (auto simp: task_update_def case_prod_beta)
  show "watches (fst (snd (task_update sys fd r w e t s))) (snd (snd (task_update sys fd r w e t s)))"
    using both watch_schedule(2) [OF conjunct1 [OF both] conjunct2 [OF both]]
    by (auto simp: task_update_def case_prod_beta)
qed

definition machine_ok :: "('t, 'w) loop \<Rightarrow> bool" where
  "machine_ok s \<longleftrightarrow> loop_ok s \<and> (\<forall>m. program s = Some m \<longrightarrow> watches (session_task m) s)"

lemma machine_ok_stopped: "loop_ok s \<Longrightarrow> machine_ok (s\<lparr>program := None\<rparr>)"
  by (simp add: machine_ok_def)

lemma machine_ok_finish:
  assumes "loop_ok s" and "watches (session_task m) s"
  shows "machine_ok (finish m r s)"
  using assms by (simp add: finish_def machine_ok_def split: option.split)

lemma machine_ok_schedule:
  assumes "loop_ok s" and "watches (session_task m) s"
  shows "machine_ok (client_schedule cfg m s)"
  using machine_ok_finish [OF assms(1), of "m\<lparr>client_scheduled := True, session_scheduled := True\<rparr>"] assms
  by (simp add: client_schedule_def Let_def machine_ok_stopped)

lemma machine_ok_cancel:
  assumes "loop_ok s" and "watches (session_task m) s" and "client_cancel cfg m s = Some (m', s')"
  shows "loop_ok s'" and "watches (session_task m') s'"
proof -
  have r: "loop_ok (snd (snd (task_cancel (session_task m) s)))" "watchers (snd (snd (task_cancel (session_task m) s))) = {}"
    if "task_scheduled (session_task m)" using watch_cancel [OF assms(1,2) that] .
  show "loop_ok s'" "watches (session_task m') s'"
    using assms r
    by (auto simp: client_cancel_def session_cancel_eq Let_def watches_def task_cancel_def split: if_splits)
qed

interpretation session_invariant: loop_invariant "run_session cfg" "run_session_deferred sys cfg" machine_ok
  for sys :: "epoll_call list \<Rightarrow> bool" and cfg :: "('t, 'c, 'b, 'w) config"
proof
  fix s :: "('t, 'w) loop"
  assume ok: "machine_ok s"
  then have s: "loop_ok s" and t: "program s = Some m \<Longrightarrow> watches (session_task m) s" for m
    by (simp_all add: machine_ok_def)
  show "machine_ok (run_session cfg ev i s)" for ev i
    using ok s t
    by (cases ev) (auto intro: machine_ok_finish machine_ok_schedule split: option.split)
  show "machine_ok (run_session_deferred sys cfg d s)" for d
  proof (cases d)
    case (TaskUpdate fd r w e)
    then show ?thesis
      using ok watch_update [OF s t]
      by (auto simp: machine_ok_def case_prod_beta split: option.split)
  next
    case CancelSession
    have "loop_ok s' \<and> watches (session_task m') s'" if "program s = Some m" "client_cancel cfg m s = Some (m', s')"
      for m m' s' using machine_ok_cancel [OF s t [OF that(1)] that(2)] by blast
    then show ?thesis
      using ok s CancelSession by (auto simp: machine_ok_def split: option.split)
  qed
  show "machine_ok (s\<lparr>mInterrupted := True\<rparr>)"
    using ok by (simp add: machine_ok_def)
  have reaped: "slot_in_use (mEventPool (reap_slots s) ! i) = slot_in_use (mEventPool s ! i) \<and>
      (slot_in_use (mEventPool s ! i) \<longrightarrow> mEventPool (reap_slots s) ! i = mEventPool s ! i)" if "i < MAX_EVENT_SLOTS" for i
    using that s sched_ok_slot [of s i]
    by (auto simp: loop_ok_def sched_ok_def reap_slots_def reap_def slot_ok_def)
  then have "get_slot (reap_slots s) h = get_slot s h" for h
    by (auto simp: get_slot_def Let_def)
  moreover have "watchers (reap_slots s) = watchers s" using reaped by (auto simp: watchers_def)
  moreover have "loop_ok (reap_slots s)"
    using s sched_ok_reap [of s] by (simp add: loop_ok_def) (simp add: reap_slots_def)
  moreover have "watches t (reap_slots s)" if w: "watches t s" for t
  proof (cases "task_scheduled t")
    case True
    then obtain i where i: "get_slot s (task_event t) = Some i" "watchers s = {i}" "slot_fd (mEventPool s ! i) = mFd t" "mFd t \<noteq> -1"
      using w by (auto simp: watches_def)
    then have "i < MAX_EVENT_SLOTS" "slot_in_use (mEventPool s ! i)" by (auto simp: get_slot_Some)
    then show ?thesis
      using i reaped [of i] calculation True by (auto simp: watches_def)
  qed (use w calculation in \<open>simp add: watches_def\<close>)
  moreover have "program (reap_slots s) = program s" by (simp add: reap_slots_def)
  ultimately show "machine_ok ((reap_slots s)\<lparr>mDeferredCallbacks := []\<rparr>)"
    using ok by (simp add: machine_ok_def)
qed

text \<open>C11: the session is watched by the event loop through its task or not at all.  Whatever the system
  calls return and whatever happens to the session and its client, at most one slot of the event loop
  calls the session; there is one exactly when the task is scheduled, the task's handle is live and
  leads to it, and it watches the descriptor that the task believes it watches.\<close>

theorem session_watched:
  assumes "machine_ok s"
  shows "machine_ok (snd (execute (run_session cfg) (run_session_deferred sys cfg) waits s)) \<and>
    machine_ok (snd (execute_while condition (run_session cfg) (run_session_deferred sys cfg) waits s)) \<and>
    machine_ok (snd (execute_once (run_session cfg) (run_session_deferred sys cfg) waits s))"
  by (intro conjI session_invariant.execute_inv assms)

theorem session_watched_witness:
  "machine_ok (snd (execute (run_session sample_cfg) (run_session_deferred (\<lambda>_. True) sample_cfg)
     [Ready [(EPOLLIN, 65536)], Eintr, Failed]
     (Scheduler_new 3 4 (Some \<lparr>session = open_session, session_scheduled = True, session_task = SessionTask,
        client_scheduled = True, program_disconnected = False\<rparr>))))"
proof -
  let ?s = "Scheduler_new 3 4 (Some \<lparr>session = open_session, session_scheduled = True,
      session_task = SessionTask, client_scheduled = True, program_disconnected = False\<rparr>)"
  have "loop_ok ?s" using sched_ok_new by (auto simp: loop_ok_def) (simp_all add: Scheduler_new_def)
  moreover have "watchers ?s = {}"
    by (auto simp: watchers_def Scheduler_new_def EventSlot_def)
  moreover have "program ?s = Some m \<Longrightarrow> \<not> task_scheduled (session_task m)" for m
    by (auto simp: Scheduler_new_def SessionTask_def)
  ultimately have "machine_ok ?s" by (auto simp: machine_ok_def watches_def)
  then show ?thesis using session_watched by blast
qed

end
