(* ===== verification/Lpp_Connection.thy ===== *)
theory Lpp_Connection
  imports Lpp_Task
begin

text \<open>
  The life of a connection of the LPP session: how a lost one is reported and replaced, which failures
  leave the session stuck, and that messages are read only after the handshake.
\<close>

section \<open>Losing the connection\<close>

text \<open>The callback of the client: it defers its own cancellation.\<close>

definition client_callback :: "('t, 'c, 'b, 'w) config \<Rightarrow> bool" where
  "client_callback cfg \<longleftrightarrow> on_disconnected cfg = Some (\<lambda>x. Some (x, [CancelSession]))"

lemma process_disconnected:
  assumes "client_callback cfg" and "lpp_state x = ST_DISCONNECTED"
  shows "lpp_process cfg True x = Some (switch_state EXIT x, [CancelSession, TaskUpdate (-1) False False False])"
proof -
  have e: "lpp_process cfg True (switch_state EXIT x) = Some (switch_state EXIT x, [TaskUpdate (-1) False False False])"
    by (subst lpp_process.simps) (simp add: switch_state_def)
  have "run_state cfg x = Some (ns_next EXIT ns_make, x, [CancelSession])"
    using assms by (simp add: run_state_def state_disconnected_def client_callback_def)
  then show ?thesis
    using assms(2) e by (subst lpp_process.simps) (simp add: ns_defs)
qed

lemma process_ends:
  assumes "client_callback cfg" and "run_state cfg x = Some (ns_next ST_DISCONNECTED ns_make, x', [])"
    and "lpp_state x \<noteq> EXIT"
  shows "lpp_process cfg True x = Some (switch_state EXIT x', [CancelSession, TaskUpdate (-1) False False False])"
proof -
  have "switch_state EXIT (switch_state ST_DISCONNECTED x') = switch_state EXIT x'" by (simp add: switch_state_def)
  then show ?thesis
    using assms process_disconnected [OF assms(1), of "switch_state ST_DISCONNECTED x'"]
    by (subst lpp_process.simps) (simp add: ns_defs switch_state_def)
qed

text \<open>Without a task on the event loop, an update to no descriptor only clears the task.\<close>

lemma update_nothing:
  assumes "\<not> task_scheduled t"
  shows "task_update sys (-1) False False False t s =
    (True, t\<lparr>mFd := -1, mReadEnabled := False, mWriteEnabled := False, mErrorEnabled := False\<rparr>, s)"
  using assms by (cases t) (auto simp: task_update_def change_fd_def change_interests_def maybe_cancel_def Let_def)

lemma run_deferred_end:
  assumes "program s = Some m" and "session_scheduled m" and "client_scheduled m" and "watches (session_task m) s"
    and "loop_ok s"
  shows "\<exists>m' t. program (fold (run_session_deferred sys cfg) [CancelSession, TaskUpdate (-1) False False False] s) = Some m' \<and>
      session m' = (session m)\<lparr>lpp_state := EXIT, supl := None, world := cfg_cleanup cfg (world (session m))\<rparr> \<and>
      \<not> session_scheduled m' \<and> \<not> client_scheduled m' \<and> program_disconnected m' \<and>
      \<not> task_scheduled (session_task m') \<and> mFd (session_task m') = -1"
    (is "\<exists>m' t. program ?s = _ \<and> _")
proof -
  let ?r = "if task_scheduled (session_task m) then snd (task_cancel (session_task m) s) else (session_task m, s)"
  let ?m = "m\<lparr>session := (session m)\<lparr>lpp_state := EXIT, supl := None, world := cfg_cleanup cfg (world (session m))\<rparr>,
      session_task := fst ?r, session_scheduled := False, client_scheduled := False\<rparr>"
  have "client_cancel cfg m s = Some (?m, snd ?r)"
    using assms(2,3) by (simp add: client_cancel_def session_cancel_eq Let_def)
  then have c: "run_session_deferred sys cfg CancelSession s = (snd ?r)\<lparr>program := Some (?m\<lparr>program_disconnected := True\<rparr>)\<rparr>"
    using assms(1) by simp
  have "\<not> task_scheduled (fst ?r)" by (simp add: task_cancel_def)
  then show ?thesis
    by (simp del: run_session_deferred.simps(2) add: c update_nothing)
qed


definition closing_cfg :: "(unit, unit, unit, unit) config" where
  "closing_cfg = sample_cfg\<lparr>cfg_env := (cfg_env sample_cfg)\<lparr>env_tcp :=
      sample_tcp\<lparr>tcp_receive := \<lambda>n t. (RecvClosed, t), tcp_disconnect := id, tcp_fd := \<lambda>_. 5\<rparr>\<rparr>,
    on_disconnected := Some (\<lambda>x. Some (x, [CancelSession]))\<rparr>"

definition open_loop :: "(unit, unit) loop" where
  "open_loop = Scheduler_new 3 4 (Some \<lparr>session = open_session\<lparr>mNextReadState := MESSAGE\<rparr>, session_scheduled = True,
     session_task = SessionTask, client_scheduled = True, program_disconnected = False\<rparr>)"

lemma open_loop_ok: "machine_ok open_loop"
proof -
  have "loop_ok open_loop"
    using sched_ok_new by (auto simp: loop_ok_def open_loop_def) (simp_all add: Scheduler_new_def)
  moreover have "watchers open_loop = {}"
    by (auto simp: watchers_def open_loop_def Scheduler_new_def EventSlot_def)
  moreover have "program open_loop = Some m \<Longrightarrow> \<not> task_scheduled (session_task m)" for m
    by (auto simp: open_loop_def Scheduler_new_def SessionTask_def)
  ultimately show ?thesis by (auto simp: machine_ok_def watches_def)
qed


section \<open>Ways to be stuck\<close>

text \<open>A request that cannot be sent when the session is established is never noticed.
  \<^verbatim>\<open>send\<close> reacts to the failure by closing the socket and leaves the state alone.  When this happens in
  the callback for the established session, \<^verbatim>\<open>process\<close> finds no descriptor, goes to
  \<^verbatim>\<open>DISCONNECTED\<close> and returns without calling the client and without deferring anything: the
  reconnect timer does nothing, and a new connection would be refused.\<close>

theorem failed_send_is_silent:
  assumes "lpp_state x = ESTABLISHED" and "supl x = Some u"
    and "on_established cfg = Some (\<lambda>x. map_option (\<lambda>x. (x, [])) (send (cfg_env cfg) (cfg_handlers cfg) h message x))"
    and "transactionID message = None" and "\<not> endTransaction message" and "sequenceNumber message = None"
    and "find_transaction x h = Some transaction" and "\<not> client_has_sent_end transaction"
    and "lpp_message = encode_lpp_message (env_lpp (cfg_env cfg)) (stamped h transaction (mSequenceNumber x) message)"
    and "lpp_message \<noteq> []"
    and "supl_send (env_tcp (cfg_env cfg)) (env_ulp (cfg_env cfg)) (SendPOS (lpp_pos lpp_message)) u = Some (False, u')"
    and closes: "\<And>t. tcp_fd (env_tcp (cfg_env cfg)) (tcp_disconnect (env_tcp (cfg_env cfg)) t) < 0"
  shows "\<exists>x'. lpp_process cfg True x = Some (x', []) \<and> lpp_state x' = ST_DISCONNECTED \<and> lpp_connect x' = x' \<and>
    (\<forall>s i m. program s = Some m \<longrightarrow> \<not> program_disconnected m \<longrightarrow> run_session cfg ReconnectTick i s = s)"
proof -
  let ?u = "supl_disconnect (env_tcp (cfg_env cfg)) u'"
  let ?y = "x\<lparr>mSequenceNumber := mSequenceNumber x + 1, supl := Some ?u\<rparr>"
  have "supl_fd (env_tcp (cfg_env cfg)) ?u < 0"
    using closes by (simp add: supl_fd_def supl_disconnect_def activate_def split: option.split)
  moreover have "send (cfg_env cfg) (cfg_handlers cfg) h message x = Some ?y"
    using assms by (simp add: send_def Let_def)
  then have "run_state cfg x = Some (ns_error ST_DISCONNECTED (ns_read MESSAGE ns_make), ?y, [])"
    using assms(1,3) by (simp add: run_state_def state_established_def)
  ultimately have "lpp_process cfg True x = Some (switch_state ST_DISCONNECTED ?y, [])"
    using assms(1) by (subst lpp_process.simps) (simp add: ns_defs wait_for_def)
  then show ?thesis by (simp add: switch_state_def lpp_connect_def)
qed

theorem failed_send_is_silent_witness:
  "\<exists>x'. lpp_process (sample_cfg\<lparr>cfg_env := sample_env\<lparr>env_tcp := sample_tcp\<lparr>tcp_is_connected := \<lambda>_. False,
        tcp_fd := \<lambda>_. -1\<rparr>\<rparr>,
      on_established := Some (\<lambda>x. map_option (\<lambda>x. (x, [])) (send (sample_env\<lparr>env_tcp := sample_tcp\<lparr>tcp_is_connected := \<lambda>_. False,
        tcp_fd := \<lambda>_. -1\<rparr>\<rparr>) no_handlers sample_handle sample_message x))\<rparr>) True (sample_session\<lparr>lpp_state := ESTABLISHED\<rparr>) =
    Some (x', []) \<and> lpp_state x' = ST_DISCONNECTED"
proof -
  let ?env = "sample_env\<lparr>env_tcp := sample_tcp\<lparr>tcp_is_connected := \<lambda>_. False, tcp_fd := \<lambda>_. -1\<rparr>\<rparr>"
  let ?cfg = "sample_cfg\<lparr>cfg_env := ?env, on_established := Some (\<lambda>x. map_option (\<lambda>x. (x, []))
      (send ?env no_handlers sample_handle sample_message x))\<rparr>"
  let ?x = "sample_session\<lparr>lpp_state := ESTABLISHED\<rparr>"
  let ?d = "\<lparr>td_handle = sample_handle, client_has_sent_end = False,
      server_has_sent_end = False, client_should_send_end = False, single_side_endable = True\<rparr>"
  have x: "lpp_state ?x = ESTABLISHED" "supl ?x = Some sample_supl" "find_transaction ?x sample_handle = Some ?d"
    by (simp_all add: sample_session_eq find_transaction_def)
  have cfg: "on_established ?cfg = Some (\<lambda>x. map_option (\<lambda>x. (x, []))
      (send (cfg_env ?cfg) (cfg_handlers ?cfg) sample_handle sample_message x))"
    by (simp add: sample_cfg_def)
  have m: "transactionID sample_message = None" "\<not> endTransaction sample_message" "sequenceNumber sample_message = None"
    by (simp_all add: sample_message_def)
  have e: "encode_lpp_message (env_lpp (cfg_env ?cfg)) (stamped sample_handle ?d (mSequenceNumber ?x) sample_message) \<noteq> []"
    by (simp add: encode_lpp_message_def sample_env_def sample_lpp_def stamped_def sample_handle_def)
  have f: "supl_send (env_tcp (cfg_env ?cfg)) (env_ulp (cfg_env ?cfg)) (SendPOS pos) sample_supl = Some (False, sample_supl)" for pos
    by (simp add: supl_send_def sample_supl_def)
  have c: "tcp_fd (env_tcp (cfg_env ?cfg)) (tcp_disconnect (env_tcp (cfg_env ?cfg)) t) < 0" for t by simp
  have "\<not> client_has_sent_end ?d" by simp
  from failed_send_is_silent [OF x(1,2) cfg m x(3) this refl e f c] show ?thesis by blast
qed

text \<open>A handshake that fails leaves the session waiting for an error of the socket.  When the
  server answers START with something else than a RESPONSE or closes the connection, the session neither
  disconnects nor reads on: it asks for \<^verbatim>\<open>EPOLLERR\<close> alone, and every event without one of the bits
  for reading, writing or errors (such as the hang-up that the kernel reports unasked) is ignored.\<close>

theorem failed_handshake_waits:
  assumes "lpp_state x = SuplHandshakeRecv" and "supl x = Some u"
    and "handle_handshake (env_tcp (cfg_env cfg)) (env_ulp (cfg_env cfg)) u = Some (HandshakeERROR, u')"
    and "0 \<le> supl_fd (env_tcp (cfg_env cfg)) u'" and "\<not> is_disconnected u'"
  shows "\<exists>x'. lpp_process cfg True x = Some (x', [TaskUpdate (supl_fd (env_tcp (cfg_env cfg)) u') False False True]) \<and>
      lpp_state x' = SuplHandshakeRecv \<and> mNextErrorState x' = ST_DISCONNECTED \<and>
      (\<forall>t. \<not> mReadEnabled t \<and> \<not> mWriteEnabled t \<and> mErrorEnabled t \<longrightarrow>
         interests_to_epoll (task_interests t) = EPOLLERR) \<and>
      (\<forall>s e. e AND (EPOLLIN OR EPOLLOUT OR EPOLLERR) = 0 \<longrightarrow>
         run_session cfg SessionEvent (epoll_to_interests e) s = s)"
proof -
  have "run_state cfg x = Some (ns_error ST_DISCONNECTED ns_make, x\<lparr>supl := Some u'\<rparr>, [])"
    using assms by (simp add: run_state_def no_deferred_def state_handshake_recv_def)
  from process_waits [OF this] have p: "lpp_process cfg True x =
      Some (x\<lparr>supl := Some u', mNextReadState := ST_UNKNOWN, mNextWriteState := ST_UNKNOWN, mNextErrorState := ST_DISCONNECTED\<rparr>,
        [TaskUpdate (supl_fd (env_tcp (cfg_env cfg)) u') False False True])"
    using assms by (simp add: ns_defs)
  have i: "interests_to_epoll (task_interests t) = EPOLLERR"
    if "\<not> mReadEnabled t" "\<not> mWriteEnabled t" "mErrorEnabled t" for t
    using that by (simp add: task_interests_def interests_to_epoll_def has_interest_def interest_defs epoll_defs)
  have "e AND EPOLLIN = 0 \<and> e AND EPOLLOUT = 0 \<and> e AND EPOLLERR = 0"
    if "e AND (EPOLLIN OR EPOLLOUT OR EPOLLERR) = 0" for e
    using that by (simp add: bit.conj_disj_distrib or_eq_0_iff)
  then have "run_session cfg SessionEvent (epoll_to_interests e) s = s"
    if "e AND (EPOLLIN OR EPOLLOUT OR EPOLLERR) = 0" for e and s
    using that by (simp add: epoll_to_interests_def has_interest_def interest_defs split: option.split)
  then show ?thesis
    using p i assms(1) by (intro exI conjI allI impI) (assumption | simp)+
qed

theorem failed_handshake_waits_witness:
  "\<exists>x'. lpp_process closing_cfg True (open_session\<lparr>lpp_state := SuplHandshakeRecv,
      supl := Some (open_supl\<lparr>mState := WaitForHandshake\<rparr>)\<rparr>) = Some (x', [TaskUpdate 5 False False True])"
proof -
  let ?u = "open_supl\<lparr>mState := WaitForHandshake\<rparr>"
  let ?x = "open_session\<lparr>lpp_state := SuplHandshakeRecv, supl := Some ?u\<rparr>"
  have tcp: "tcp_receive (env_tcp (cfg_env closing_cfg)) n () = (RecvClosed, ())" for n
    by (simp add: closing_cfg_def)
  have "fill_receive_buffer (env_tcp (cfg_env closing_cfg)) ?u = Some (False, ?u\<lparr>mTcpClient := Some ()\<rparr>)"
    by (subst fill_receive_buffer.simps) (simp add: tcp open_supl_def sample_supl_def UPER_DECODE_BUFFER_SIZE_def)
  then have h: "handle_handshake (env_tcp (cfg_env closing_cfg)) (env_ulp (cfg_env closing_cfg)) ?u =
      Some (HandshakeERROR, ?u\<lparr>mTcpClient := Some ()\<rparr>)"
    by (simp add: handle_handshake_def)
  have fd: "supl_fd (env_tcp (cfg_env closing_cfg)) (?u\<lparr>mTcpClient := Some ()\<rparr>) = 5"
    by (simp add: supl_fd_def closing_cfg_def)
  have x: "lpp_state ?x = SuplHandshakeRecv" "supl ?x = Some ?u" "\<not> is_disconnected (?u\<lparr>mTcpClient := Some ()\<rparr>)"
    by (simp_all add: is_disconnected_def)
  show ?thesis
    using failed_handshake_waits [OF x(1,2) h _ x(3)] unfolding fd by auto
qed

section \<open>The order of the protocol\<close>

lemma fill_keeps_session:
  fixes tcp :: "'t tcp"
  assumes "fill_receive_buffer tcp u = Some r"
  shows "mSETSession (snd r) = mSETSession u"
proof (rule fill_receive_buffer.raw_induct [where P = "\<lambda>tcp u r. mSETSession (snd r) = mSETSession u", OF _ assms])
  fix fill :: "'t tcp \<Rightarrow> 't supl_session \<Rightarrow> (bool \<times> 't supl_session) option" and tcp u r
  assume ih: "\<And>tcp u r. fill tcp u = Some r \<Longrightarrow> mSETSession (snd r) = mSETSession u"
  assume "(case mTcpClient u of None \<Rightarrow> None
      | Some t \<Rightarrow>
          if UPER_DECODE_BUFFER_SIZE - length (mReceiveBuffer u) = 0 then Some (True, u)
          else case tcp_receive tcp (UPER_DECODE_BUFFER_SIZE - length (mReceiveBuffer u)) t of (r, t) \<Rightarrow>
            (case r of
               RecvOk bytes \<Rightarrow>
                 if tcp_has_pending tcp t
                 then fill tcp (u\<lparr>mTcpClient := Some t, mReceiveBuffer := mReceiveBuffer u @
                        take (UPER_DECODE_BUFFER_SIZE - length (mReceiveBuffer u)) bytes\<rparr>)
                 else Some (True, u\<lparr>mTcpClient := Some t, mReceiveBuffer := mReceiveBuffer u @
                        take (UPER_DECODE_BUFFER_SIZE - length (mReceiveBuffer u)) bytes\<rparr>)
             | RecvWantRead \<Rightarrow> Some (True, u\<lparr>mTcpClient := Some t\<rparr>)
             | RecvWantWrite \<Rightarrow> Some (True, u\<lparr>mTcpClient := Some t\<rparr>)
             | RecvClosed \<Rightarrow> Some (False, u\<lparr>mTcpClient := Some t\<rparr>)
             | RecvError \<Rightarrow> Some (False, u\<lparr>mTcpClient := Some t\<rparr>))) = Some r"
  then show "mSETSession (snd r) = mSETSession u"
    by (auto split: option.splits if_splits prod.splits receive_status.splits dest!: ih)
qed

lemma handshake_accepted:
  assumes "handle_handshake tcp ulp u = Some (HandshakeOK, u')"
  shows "\<exists>u1 pdu st slp. mState u = WaitForHandshake \<and> fill_receive_buffer tcp u = Some (True, u1) \<and>
    fst (parse_receive_buffer ulp u1) = Some pdu \<and> decode_response pdu = Some (Some (st, slp)) \<and>
    set_eq st (mSETSession u)"
proof -
  let ?w = "\<lparr>want_response = True, want_end = True, want_pos = False\<rparr>"
  obtain u1 u2 where u1: "mState u = WaitForHandshake" "fill_receive_buffer tcp u = Some (True, u1)"
    "try_receive tcp ulp ?w u1 = Some (ReceivedRESPONSE, u2)"
    using assms by (auto simp: handle_handshake_def split: if_splits option.splits prod.splits)
  obtain pdu u3 where u3: "parse_receive_buffer ulp u1 = (Some pdu, u3)" "parse_message ?w pdu u3 = Some (ReceivedRESPONSE, u2)"
    using u1(3) by (auto simp: try_receive_def split: if_splits prod.splits option.splits)
  have "mSETSession u3 = mSETSession u"
    using arg_cong [OF u3(1), of "\<lambda>x. mSETSession (snd x)"] fill_keeps_session [OF u1(2)]
    by (simp add: parse_receive_spec case_prod_beta)
  moreover obtain st slp where "decode_response pdu = Some (Some (st, slp))" "set_eq st (mSETSession u3)"
    using u3(2) by (auto simp: parse_message_def decode_wanted_def split: if_splits option.splits)
  ultimately show ?thesis using u1 u3(1) by auto
qed

text \<open>The callbacks of the client do not update the task of the session.\<close>

definition callbacks_defer :: "('t, 'c, 'b, 'w) config \<Rightarrow> bool" where
  "callbacks_defer cfg \<longleftrightarrow>
     (\<forall>f x x' ds. on_established cfg = Some f \<or> on_disconnected cfg = Some f \<longrightarrow> f x = Some (x', ds) \<longrightarrow>
        set ds \<subseteq> {CancelSession})"

text \<open>\<open>waits_for st s' ds\<close>: the call of \<^verbatim>\<open>process\<close> has left the session waiting to read in state \<open>st\<close>.\<close>

definition waits_for :: "State \<Rightarrow> ('t, 'w) lpp_session \<Rightarrow> session_deferred list \<Rightarrow> bool" where
  "waits_for st s' ds \<longleftrightarrow> (\<exists>fd r w e. TaskUpdate fd r w e \<in> set ds \<and> fd \<noteq> -1) \<and> mNextReadState s' = st"

lemma waits_for_append:
  "set ds \<subseteq> {CancelSession} \<Longrightarrow> waits_for st s' (ds @ ds') = waits_for st s' ds'"
  by (auto simp: waits_for_def)

lemma disconnected_never_waits:
  assumes "callbacks_defer cfg" and "lpp_process cfg b x = Some (s', ds)" and "lpp_state x = ST_DISCONNECTED"
  shows "\<not> waits_for st s' ds"
proof -
  let ?r = "case on_disconnected cfg of None \<Rightarrow> Some (x, []) | Some f \<Rightarrow> f x"
  have run: "run_state cfg x = map_option (\<lambda>(s, ds). (ns_next EXIT ns_make, s, ds)) ?r"
    using assms(3) by (simp add: run_state_def state_disconnected_def)
  have p: "lpp_process cfg b x = (case run_state cfg x of None \<Rightarrow> None
      | Some (r, s, ds) \<Rightarrow>
          (if \<not> ns_schedule r
           then Option.bind (lpp_process cfg b (switch_state (follow_state r) s)) (\<lambda>(s, ds'). Some (s, ds @ ds'))
           else (case wait_for cfg b r s of (s, ds') \<Rightarrow> Some (s, ds @ ds'))))"
    using assms(3) by (subst lpp_process.simps) simp
  show ?thesis
  proof (cases ?r)
    case None
    then show ?thesis using p run assms(2) by simp
  next
    case (Some q)
    obtain x1 ds1 where q: "q = (x1, ds1)" by (cases q)
    have "set ds1 \<subseteq> {CancelSession}"
      using Some q assms(1) by (fastforce simp: callbacks_defer_def split: option.splits)
    moreover have "lpp_process cfg b (switch_state EXIT x1) =
        (if b then Some (switch_state EXIT x1, [TaskUpdate (-1) False False False]) else None)"
      by (subst lpp_process.simps) (simp add: switch_state_def)
    then have "ds = ds1 @ [TaskUpdate (-1) False False False]"
      using p run Some q assms(2) by (simp add: ns_defs split: if_splits)
    ultimately show ?thesis by (auto simp: waits_for_def)
  qed
qed

text \<open>One step of \<^verbatim>\<open>process\<close> in a state that does not call the client.\<close>

lemma machine_step:
  assumes "lpp_process cfg b x = Some (s', ds)" and "run_state cfg x = no_deferred step" and "lpp_state x \<noteq> EXIT"
  obtains r y where "step = Some (r, y)"
    and "\<not> ns_schedule r \<Longrightarrow> lpp_process cfg b (switch_state (follow_state r) y) = Some (s', ds)"
    and "ns_schedule r \<Longrightarrow> wait_for cfg b r y = (s', ds)"
proof (cases step)
  case None
  then show thesis using assms by (subst (asm) lpp_process.simps) (simp add: no_deferred_def)
next
  case (Some p)
  obtain r y where p: "p = (r, y)" by (cases p)
  have "run_state cfg x = Some (r, y, [])" using assms(2) Some p by (simp add: no_deferred_def)
  then have e: "lpp_process cfg b x =
      (if \<not> ns_schedule r
       then Option.bind (lpp_process cfg b (switch_state (follow_state r) y)) (\<lambda>(s, ds'). Some (s, ds'))
       else Some (wait_for cfg b r y))"
    using assms(3) by (subst lpp_process.simps) (simp add: case_prod_beta)
  show thesis
  proof (rule that [of r y])
    show "lpp_process cfg b (switch_state (follow_state r) y) = Some (s', ds)" if "\<not> ns_schedule r"
      using e that assms(1) by (cases "lpp_process cfg b (switch_state (follow_state r) y)") auto
    show "wait_for cfg b r y = (s', ds)" if "ns_schedule r" using e that assms(1) by simp
  qed (simp add: Some p)
qed

lemma wait_for_reads:
  assumes "wait_for cfg b r y = (s', ds)" and "waits_for st s' ds"
  shows "read_state r = st"
  using assms by (auto simp: wait_for_def waits_for_def switch_state_def split: option.splits if_splits)

lemma ns_simps [simp]:
  "\<not> ns_schedule (ns_next st ns_make)" "follow_state (ns_next st ns_make) = st"
  "ns_schedule (ns_error st n)" "ns_schedule (ns_read st n)" "ns_schedule (ns_write st n)"
  "read_state (ns_error st n) = read_state n" "read_state (ns_read st n) = st"
  "read_state (ns_write st n) = read_state n" "read_state ns_make = ST_UNKNOWN"
  by (simp_all add: ns_defs)

lemma switch_simps [simp]: "lpp_state (switch_state st x) = st" "supl (switch_state st x) = supl x"
  by (simp_all add: switch_state_def)

text \<open>A state that goes to \<^verbatim>\<open>DISCONNECTED\<close> or waits to read in another state than \<open>MESSAGE\<close>.\<close>

lemma never_waits:
  assumes "callbacks_defer cfg" and "lpp_process cfg b x = Some (s', ds)"
    and "run_state cfg x = no_deferred step" and "lpp_state x \<noteq> EXIT"
    and harmless: "\<And>r y. step = Some (r, y) \<Longrightarrow>
      (\<not> ns_schedule r \<and> follow_state r = ST_DISCONNECTED) \<or> (ns_schedule r \<and> read_state r \<noteq> st)"
  shows "\<not> waits_for st s' ds"
proof (rule machine_step [OF assms(2-4)])
  fix r y
  assume r: "step = Some (r, y)"
    "\<not> ns_schedule r \<Longrightarrow> lpp_process cfg b (switch_state (follow_state r) y) = Some (s', ds)"
    "ns_schedule r \<Longrightarrow> wait_for cfg b r y = (s', ds)"
  show ?thesis
    using harmless [OF r(1)]
  proof (elim disjE conjE)
    assume "\<not> ns_schedule r" "follow_state r = ST_DISCONNECTED"
    then show ?thesis using disconnected_never_waits [OF assms(1) r(2)] by simp
  next
    assume "ns_schedule r" "read_state r \<noteq> st"
    then show ?thesis using wait_for_reads [OF r(3)] by blast
  qed
qed

lemma before_handshake:
  assumes "callbacks_defer cfg" and "lpp_process cfg b x = Some (s', ds)" and "waits_for MESSAGE s' ds"
  shows "lpp_state x \<notin> {ST_UNKNOWN, ST_CONNECT, ST_CONNECTING, ST_CONNECTED, ConnectionFailed, ST_DISCONNECTED,
    SuplHandshakeSend, ERROR, EXIT}"
proof -
  note never = never_waits [OF assms(1), where st = MESSAGE]
  have send: "\<not> waits_for MESSAGE s' ds" if "lpp_process cfg b x = Some (s', ds)" "lpp_state x = SuplHandshakeSend" for x
    by (rule never [OF that(1), of "state_handshake_send cfg x"])
      (use that(2) in \<open>auto simp: run_state_def state_handshake_send_def Let_def split: option.splits if_splits\<close>)
  have connected: "\<not> waits_for MESSAGE s' ds" if "lpp_process cfg b x = Some (s', ds)" "lpp_state x = ST_CONNECTED" for x
    by (rule machine_step [OF that(1), of "state_connected x"])
      (use that(2) send in \<open>auto simp: run_state_def state_connected_def\<close>)
  have failed: "\<not> waits_for MESSAGE s' ds" if "lpp_process cfg b x = Some (s', ds)" "lpp_state x = ConnectionFailed" for x
    by (rule never [OF that(1), of "state_connection_failed x"])
      (use that(2) in \<open>auto simp: run_state_def state_connection_failed_def\<close>)
  have "\<not> waits_for MESSAGE s' ds" if st: "lpp_state x = ST_CONNECTING"
  proof (rule machine_step [OF assms(2), of "state_connecting cfg x"])
    fix r y
    assume r: "state_connecting cfg x = Some (r, y)"
      "\<not> ns_schedule r \<Longrightarrow> lpp_process cfg b (switch_state (follow_state r) y) = Some (s', ds)"
      "ns_schedule r \<Longrightarrow> wait_for cfg b r y = (s', ds)"
    have "(\<not> ns_schedule r \<and> follow_state r \<in> {ST_CONNECTED, ConnectionFailed}) \<or> (ns_schedule r \<and> read_state r \<noteq> MESSAGE)"
      using r(1) by (auto simp: state_connecting_def Let_def split: option.splits prod.splits connect_progress.splits)
    then show ?thesis
      using connected [OF r(2)] failed [OF r(2)] wait_for_reads [OF r(3)] by auto
  qed (use st in \<open>simp_all add: run_state_def\<close>)
  moreover have "\<not> waits_for MESSAGE s' ds" if "lpp_state x = ST_CONNECT"
    by (rule never [OF assms(2), of "state_connect cfg x"])
      (use that in \<open>auto simp: run_state_def state_connect_def Let_def split: option.splits if_splits prod.splits\<close>)
  moreover have "\<not> waits_for MESSAGE s' ds" if "lpp_state x = ST_UNKNOWN"
    by (rule never [OF assms(2), of "state_unknown x"])
      (use that in \<open>auto simp: run_state_def state_unknown_def\<close>)
  moreover have "\<not> waits_for MESSAGE s' ds" if "lpp_state x = ERROR"
    by (rule never [OF assms(2), of "state_error x"])
      (use that in \<open>auto simp: run_state_def state_error_def\<close>)
  moreover have "\<not> waits_for MESSAGE s' ds" if "lpp_state x = EXIT"
    using assms(2) that by (subst (asm) lpp_process.simps) (auto simp: waits_for_def split: if_splits)
  ultimately show ?thesis
    using assms(3) send [OF assms(2)] connected [OF assms(2)] failed [OF assms(2)]
      disconnected_never_waits [OF assms(1,2)] by blast
qed

lemma posinit_sent:
  assumes "callbacks_defer cfg" and "lpp_process cfg b x = Some (s', ds)" and "waits_for MESSAGE s' ds"
    and "lpp_state x = SuplPosinit"
  shows "\<exists>u u'. supl_send (env_tcp (cfg_env cfg)) (env_ulp (cfg_env cfg))
    (POSINIT (cfg_posinit cfg) (concat (map pos_payloads (mPosQueue x)))) u = Some (True, u')"
proof (rule ccontr)
  assume no: "\<not> ?thesis"
  have "\<not> waits_for MESSAGE s' ds"
    by (rule never_waits [OF assms(1,2), of "state_posinit cfg x"])
      (use assms(4) no in \<open>auto simp: run_state_def state_posinit_def Let_def split: option.splits if_splits prod.splits\<close>)
  then show False using assms(3) by blast
qed

text \<open>C9: the session waits for messages only after the handshake.  When a call of \<^verbatim>\<open>process\<close>, in a state
  before the session is established, leaves the session waiting to read messages, then it was
  waiting for the answer to START, the bytes received begin with a RESPONSE that names the session of this
  client, and POSINIT has been sent with the messages that were queued.\<close>

theorem messages_only_after_response:
  assumes "callbacks_defer cfg" and "lpp_process cfg b x = Some (s', ds)" and "waits_for MESSAGE s' ds"
    and "lpp_state x \<notin> {SuplPosinit, ESTABLISHED, MESSAGE}"
  shows "lpp_state x = SuplHandshakeRecv \<and>
    (\<exists>u u1 pdu st slp. supl x = Some u \<and> mState u = WaitForHandshake \<and>
       fill_receive_buffer (env_tcp (cfg_env cfg)) u = Some (True, u1) \<and>
       fst (parse_receive_buffer (env_ulp (cfg_env cfg)) u1) = Some pdu \<and>
       decode_response pdu = Some (Some (st, slp)) \<and> set_eq st (mSETSession u)) \<and>
    (\<exists>u u'. supl_send (env_tcp (cfg_env cfg)) (env_ulp (cfg_env cfg))
       (POSINIT (cfg_posinit cfg) (concat (map pos_payloads (mPosQueue x)))) u = Some (True, u'))"
proof -
  have st: "lpp_state x = SuplHandshakeRecv"
    using before_handshake [OF assms(1-3)] assms(4) by (cases "lpp_state x") auto
  have "\<exists>u u'. supl x = Some u \<and>
      handle_handshake (env_tcp (cfg_env cfg)) (env_ulp (cfg_env cfg)) u = Some (HandshakeOK, u') \<and>
      lpp_process cfg b (switch_state SuplPosinit (x\<lparr>supl := Some u'\<rparr>)) = Some (s', ds)"
  proof (rule machine_step [OF assms(2), of "state_handshake_recv cfg x"])
    fix r y
    assume r: "state_handshake_recv cfg x = Some (r, y)"
      "\<not> ns_schedule r \<Longrightarrow> lpp_process cfg b (switch_state (follow_state r) y) = Some (s', ds)"
      "ns_schedule r \<Longrightarrow> wait_for cfg b r y = (s', ds)"
    have "\<not> (ns_schedule r \<and> read_state r \<noteq> MESSAGE)" using wait_for_reads [OF r(3) assms(3)] by blast
    moreover obtain u h u' where u: "supl x = Some u"
      "handle_handshake (env_tcp (cfg_env cfg)) (env_ulp (cfg_env cfg)) u = Some (h, u')"
      using r(1) by (auto simp: state_handshake_recv_def split: option.splits)
    ultimately show ?thesis
      using r by (cases h) (auto simp: state_handshake_recv_def)
  qed (use st in \<open>simp_all add: run_state_def\<close>)
  then obtain u u' where u: "supl x = Some u"
    "handle_handshake (env_tcp (cfg_env cfg)) (env_ulp (cfg_env cfg)) u = Some (HandshakeOK, u')"
    "lpp_process cfg b (switch_state SuplPosinit (x\<lparr>supl := Some u'\<rparr>)) = Some (s', ds)" by blast
  then show ?thesis
    using st handshake_accepted [OF u(2)] posinit_sent [OF assms(1) u(3) assms(3)]
    by (auto simp: switch_state_def)
qed

definition accepting_cfg :: "(unit, unit, unit, unit) config" where
  "accepting_cfg = sample_cfg\<lparr>cfg_env := (cfg_env sample_cfg)\<lparr>env_ulp := sample_ulp\<lparr>uper_decode :=
     \<lambda>b. if length b < 4 then RC_WMORE else RC_OK (sample_pos\<lparr>ulp_message := msSUPLRESPONSE 0\<rparr>) 4\<rparr>\<rparr>\<rparr>"

theorem messages_only_after_response_witness:
  "\<exists>s' ds. lpp_process accepting_cfg True (open_session\<lparr>lpp_state := SuplHandshakeRecv,
      supl := Some (sample_supl\<lparr>mState := WaitForHandshake\<rparr>\<lparr>mReceiveBuffer := [9]\<rparr>)\<rparr>) = Some (s', ds) \<and>
    waits_for MESSAGE s' ds \<and> (\<exists>u u'. supl_send chunk_tcp (env_ulp (cfg_env accepting_cfg)) (POSINIT () []) u = Some (True, u'))"
proof -
  let ?u = "sample_supl\<lparr>mState := WaitForHandshake\<rparr>\<lparr>mReceiveBuffer := [9]\<rparr>"
  let ?x = "open_session\<lparr>lpp_state := SuplHandshakeRecv, supl := Some ?u\<rparr>"
  let ?tcp = "env_tcp (cfg_env accepting_cfg)" and ?ulp = "env_ulp (cfg_env accepting_cfg)"
  have tcp: "?tcp = chunk_tcp" by (simp add: accepting_cfg_def sample_cfg_def)
  have fd: "tcp_fd chunk_tcp () = 3" "tcp_is_connected chunk_tcp ()" by (simp_all add: chunk_tcp_def sample_tcp_def)
  have cl: "mTcpClient sample_supl = Some ()" by (simp add: sample_supl_def)
  have "fill_receive_buffer chunk_tcp ?u = Some (True, ?u\<lparr>mTcpClient := Some (), mReceiveBuffer := [9, 1, 2, 3]\<rparr>)"
    using fill_delivers [OF chunk_delivers, of ?u] cl by (simp add: UPER_DECODE_BUFFER_SIZE_def)
  then have h: "handle_handshake ?tcp ?ulp ?u = Some (HandshakeOK, sample_supl\<lparr>mTcpClient := Some (), mReceiveBuffer := [],
      mSLPSession := \<lparr>slp_is_active = True, slp_session = [0, 0, 0, 1], slp_identity = FQDN [104]\<rparr>, mState := CONNECTED\<rparr>)"
    by (simp add: handle_handshake_def tcp try_receive_def is_connected_def fd parse_receive_buffer_def rb_consume_drop)
      (simp add: rb_consume_drop accepting_cfg_def sample_supl_def Session_new_def parse_message_def decode_wanted_def decode_response_def decode_session_def
        sample_pos_def decode_setid_def decode_slp_address_def set_eq_def)
  let ?v = "sample_supl\<lparr>mTcpClient := Some (), mReceiveBuffer := [],
      mSLPSession := \<lparr>slp_is_active = True, slp_session = [0, 0, 0, 1], slp_identity = FQDN [104]\<rparr>, mState := CONNECTED\<rparr>"
  have enc: "ulp_encode (uper_encode ?ulp) (mVersion ?v) (mSETSession ?v) (mSLPSession ?v) (POSINIT () []) = Some [7]"
    by (simp add: ulp_encode_def accepting_cfg_def sample_ulp_def sample_supl_def Session_new_def encode_session_def encode_uper_def)
  have "send_all chunk_tcp [7] () = Some (True, ())"
    by (subst send_all.simps, simp add: chunk_tcp_def sample_tcp_def, subst send_all.simps, simp)
  then have p: "supl_send ?tcp ?ulp (POSINIT () []) ?v = Some (True, ?v)"
    using enc by (simp add: supl_send_def tcp fd)
  have q: "mPosQueue open_session = []" by (simp add: open_session_def lpp_Session_def)
  have cfg: "cfg_posinit accepting_cfg = ()" "on_established accepting_cfg = None" "on_disconnected accepting_cfg = None"
    by simp_all (simp add: accepting_cfg_def sample_cfg_def)+
  let ?y = "switch_state SuplPosinit (?x\<lparr>supl := Some ?v\<rparr>)"
  let ?z = "switch_state ESTABLISHED (?y\<lparr>mPosQueue := [], supl := Some ?v\<rparr>)"
  have z: "run_state accepting_cfg ?z = Some (ns_error ST_DISCONNECTED (ns_read MESSAGE ns_make), ?z, [])"
    by (simp add: run_state_def state_established_def cfg)
  obtain s' where s': "lpp_process accepting_cfg True ?z = Some (s', [TaskUpdate 3 True False True])" "mNextReadState s' = MESSAGE"
    using process_waits [OF z] by (simp add: supl_fd_def tcp fd is_disconnected_def ns_defs)
  have "run_state accepting_cfg ?y = Some (ns_next ESTABLISHED ns_make, ?y\<lparr>mPosQueue := [], supl := Some ?v\<rparr>, [])"
    using p q cfg(1) by (simp add: run_state_def no_deferred_def state_posinit_def switch_state_def)
  then have y: "lpp_process accepting_cfg True ?y = Some (s', [TaskUpdate 3 True False True])"
    using s' by (subst lpp_process.simps) simp
  have "run_state accepting_cfg ?x = Some (ns_next SuplPosinit ns_make, ?x\<lparr>supl := Some ?v\<rparr>, [])"
    using h by (simp add: run_state_def no_deferred_def state_handshake_recv_def)
  then have r: "lpp_process accepting_cfg True ?x = Some (s', [TaskUpdate 3 True False True])"
    using y by (subst lpp_process.simps) simp
  have w: "waits_for MESSAGE s' [TaskUpdate 3 True False True]" using s'(2) unfolding waits_for_def by fastforce
  have c: "callbacks_defer accepting_cfg" by (simp add: callbacks_defer_def cfg)
  show ?thesis
    using messages_only_after_response [OF c r w] r w by (auto simp: tcp q)
qed

end
