(* ===== verification/Tbin.thy ===== *)
theory Tbin
  imports Ubx_Codec "HOL-Library.Multiset" "HOL-Library.Sublist"
begin

text \<open>
  The TBIN format, in which captured streams are kept with their time stamps (dependency/format/tbin),
  and the tool that merges such files by time (examples/tbin-merge/main.cpp).  A file is the list of
  its bytes; numbers are stored as on the little endian machine that runs the program.  Failures of the
  disk while writing are not modelled (the code does not look at them).
\<close>

section \<open>Reading and writing\<close>

fun from_le :: "u8 list \<Rightarrow> 'a::len word" where
  "from_le [] = 0"
| "from_le (b # bs) = ucast b OR push_bit 8 (from_le bs)"

record tbin_message =
  timestamp_us :: u64
  tbin_data :: "u8 list"

definition MAGIC :: "u8 list" where "MAGIC = [0x54, 0x42, 0x49, 0x4E]"

definition VERSION :: u8 where "VERSION = 1"

text \<open>\<open>None\<close>: no file is open.  A writer has the bytes written so far, a reader those not yet read.\<close>

record writer =
  written :: "u8 list option"

record reader =
  unread_bytes :: "u8 list option"
  mStreamId :: "u8 list"
  mEof :: bool

definition Writer :: writer where "Writer = \<lparr>written = None\<rparr>"

definition Reader :: reader where "Reader = \<lparr>unread_bytes = None, mStreamId = [], mEof = False\<rparr>"

text \<open>\<open>ok\<close>: the file could be created.\<close>

definition writer_open :: "bool \<Rightarrow> u8 list \<Rightarrow> writer \<Rightarrow> bool \<times> writer" where
  "writer_open ok stream_id w =
     (if \<not> ok then (False, w\<lparr>written := None\<rparr>)
      else
        let len = of_nat (length stream_id) :: u8
        in (True, w\<lparr>written := Some (MAGIC @ [VERSION] @ [len] @ take (unat len) stream_id)\<rparr>))"

definition writer_write :: "u64 \<Rightarrow> u8 list \<Rightarrow> u32 \<Rightarrow> writer \<Rightarrow> writer" where
  "writer_write timestamp data len w =
     (case written w of None \<Rightarrow> w
      | Some out \<Rightarrow> w\<lparr>written := Some (out @ le8 timestamp @ le4 len @ take (unat len) data)\<rparr>)"

text \<open>Closing leaves the file with what has been written.\<close>

definition writer_close :: "writer \<Rightarrow> u8 list option \<times> writer" where
  "writer_close w = (written w, w\<lparr>written := None\<rparr>)"

text \<open>\<open>file\<close>: what \<^verbatim>\<open>fopen\<close> finds.\<close>

definition reader_open :: "u8 list option \<Rightarrow> reader \<Rightarrow> bool \<times> reader" where
  "reader_open file r =
     (case file of None \<Rightarrow> (False, r\<lparr>unread_bytes := None\<rparr>)
      | Some f \<Rightarrow>
          if length f < 4 then (False, r\<lparr>unread_bytes := Some []\<rparr>)
          else
            let magic = take 4 f; f = drop 4 f
            in if magic \<noteq> [0x54, 0x42, 0x49, 0x4E] then (False, r\<lparr>unread_bytes := Some f\<rparr>)
               else case f of [] \<Rightarrow> (False, r\<lparr>unread_bytes := Some []\<rparr>)
               | version # f \<Rightarrow>
                   if version \<noteq> 1 then (False, r\<lparr>unread_bytes := Some f\<rparr>)
                   else case f of [] \<Rightarrow> (False, r\<lparr>unread_bytes := Some []\<rparr>)
                   | len # f \<Rightarrow>
                       let n = unat len; got = take n f
                       in (length got = n,
                           r\<lparr>unread_bytes := Some (drop n f), mStreamId := got @ replicate (n - length got) 0\<rparr>))"

text \<open>\<^verbatim>\<open>resize\<close> keeps what is there and fills up with zeros.\<close>

definition resize :: "nat \<Rightarrow> u8 list \<Rightarrow> u8 list" where
  "resize n xs = take n (xs @ replicate (n - length xs) 0)"

definition reader_next :: "tbin_message \<Rightarrow> reader \<Rightarrow> bool \<times> tbin_message \<times> reader" where
  "reader_next msg r =
     (case unread_bytes r of None \<Rightarrow> (False, msg, r)
      | Some f \<Rightarrow>
          if mEof r then (False, msg, r)
          else if length f < 8 then (False, msg, r\<lparr>unread_bytes := Some [], mEof := True\<rparr>)
          else
            let ts = from_le (take 8 f); f = drop 8 f
            in if length f < 4 then (False, msg, r\<lparr>unread_bytes := Some [], mEof := True\<rparr>)
               else
                 let len = from_le (take 4 f) :: u32; f = drop 4 f; n = unat len;
                     got = take n f; buffer = resize n (tbin_data msg);
                     msg = msg\<lparr>timestamp_us := ts, tbin_data := got @ drop (length got) buffer\<rparr>;
                     r = r\<lparr>unread_bytes := Some (drop n f)\<rparr>
                 in if length got \<noteq> n then (False, msg, r\<lparr>mEof := True\<rparr>) else (True, msg, r))"

definition reader_close :: "reader \<Rightarrow> reader" where
  "reader_close r = r\<lparr>unread_bytes := None\<rparr>"

section \<open>Reading what was written\<close>

lemma from_le_le: "from_le (le8 v) = v" "from_le (le4 w) = w"
proof -
  show "from_le (le8 v) = v"
    using join8 [of v] by (simp add: le8_def push_bit_or ac_simps)
  show "from_le (le4 w) = w"
    using join4 [of w] by (simp add: le4_def push_bit_or ac_simps)
qed

text \<open>A message in the file, and the writer's calls for a list of messages.\<close>

definition message_bytes :: "tbin_message \<Rightarrow> u8 list" where
  "message_bytes m = le8 (timestamp_us m) @ le4 (of_nat (length (tbin_data m))) @ tbin_data m"

definition storable :: "tbin_message \<Rightarrow> bool" where
  "storable m \<longleftrightarrow> length (tbin_data m) < 2 ^ 32"

definition write_message :: "tbin_message \<Rightarrow> writer \<Rightarrow> writer" where
  "write_message m = writer_write (timestamp_us m) (tbin_data m) (of_nat (length (tbin_data m)))"

lemma storable_length: "storable m \<Longrightarrow> unat (of_nat (length (tbin_data m)) :: u32) = length (tbin_data m)"
  by (simp add: storable_def unat_of_nat)

lemma write_message:
  "storable m \<Longrightarrow> written w = Some out \<Longrightarrow> write_message m w = w\<lparr>written := Some (out @ message_bytes m)\<rparr>"
  by (simp add: write_message_def writer_write_def message_bytes_def storable_length)

lemma write_messages:
  "\<forall>m \<in> set ms. storable m \<Longrightarrow> written w = Some out \<Longrightarrow>
     fold write_message ms w = w\<lparr>written := Some (out @ concat (map message_bytes ms))\<rparr>"
  by (induction ms arbitrary: w out) (simp_all add: write_message)

lemma length_message_bytes: "length (message_bytes m) = 12 + length (tbin_data m)"
  by (simp add: message_bytes_def)

text \<open>The loop of the programs: \<^verbatim>\<open>while (reader.next(msg))\<close>.\<close>

lemma reader_next_shorter:
  assumes "reader_next msg r = (True, msg', r')"
  shows "length (the (unread_bytes r')) < length (the (unread_bytes r))"
  using assms by (auto simp: reader_next_def Let_def not_less split: option.splits if_splits)

function read_all :: "tbin_message \<Rightarrow> reader \<Rightarrow> tbin_message list \<times> reader" where
  "read_all msg r =
     (let (ok, msg', r') = reader_next msg r
      in if ok then let (ms, r'') = read_all msg' r' in (msg' # ms, r'') else ([], r'))"
  by pat_completeness auto

termination
  by (relation "measure (\<lambda>(_, r). length (the (unread_bytes r)))")
    (auto dest: sym [THEN reader_next_shorter])

declare read_all.simps [simp del]

lemma next_message:
  assumes "unread_bytes r = Some (message_bytes m @ x)" and "\<not> mEof r" and "storable m"
  shows "reader_next msg r = (True, m, r\<lparr>unread_bytes := Some x\<rparr>)"
  using assms(1,2)
  by (simp add: reader_next_def message_bytes_def from_le_le storable_length [OF assms(3)] Let_def resize_def)

text \<open>A message that is cut is not delivered and ends the file.\<close>

lemma next_cut:
  assumes "unread_bytes r = Some b" and "\<not> mEof r" and "storable m" and "b @ x = message_bytes m" and "x \<noteq> []"
  shows "fst (reader_next msg r) = False \<and> mEof (snd (snd (reader_next msg r)))"
proof (cases "length b < 12")
  case True
  then show ?thesis using assms(1,2) by (auto simp: reader_next_def Let_def)
next
  case False
  let ?n = "length (tbin_data m)"
  have b: "take 8 b = le8 (timestamp_us m)" "take 4 (drop 8 b) = le4 (of_nat ?n)"
    using arg_cong [OF assms(4), of "take 8"] arg_cong [OF assms(4), of "\<lambda>y. take 4 (drop 8 y)"] False
    by (simp_all add: message_bytes_def)
  have "length b < 12 + ?n"
    using arg_cong [OF assms(4), of length] assms(5) by (cases x) (simp_all add: length_message_bytes)
  then show ?thesis
    using assms(1,2) False by (simp add: reader_next_def Let_def b from_le_le storable_length [OF assms(3)])
qed

definition tbin_header :: "u8 list \<Rightarrow> u8 list" where
  "tbin_header stream_id = MAGIC @ [VERSION] @ [of_nat (length stream_id)] @ take (length stream_id mod 256) stream_id"

lemma writer_open_header: "writer_open True sid w = (True, w\<lparr>written := Some (tbin_header sid)\<rparr>)"
  by (simp add: writer_open_def tbin_header_def unat_of_nat Let_def)

lemma reader_open_header:
  "reader_open (Some (tbin_header sid @ x)) r =
     (True, r\<lparr>unread_bytes := Some x, mStreamId := take (length sid mod 256) sid\<rparr>)"
proof -
  have "unat (of_nat (length sid) :: u8) = length (take (length sid mod 256) sid)"
    by (simp add: unat_of_nat)
  then show ?thesis
    by (simp add: reader_open_def tbin_header_def MAGIC_def VERSION_def)
qed

lemma read_all_prefix:
  assumes "unread_bytes r = Some b" and "\<not> mEof r" and "\<forall>m \<in> set ms. storable m"
    and "b @ x = concat (map message_bytes ms)"
  shows "\<exists>n. fst (read_all msg r) = take n ms \<and> mEof (snd (read_all msg r)) \<and> n \<le> length ms \<and>
    length (concat (map message_bytes (take n ms))) \<le> length b \<and>
    (n < length ms \<longrightarrow> length b < length (concat (map message_bytes (take (Suc n) ms))))"
  using assms
proof (induction ms arbitrary: b r msg)
  case Nil
  then have "reader_next msg r = (False, msg, r\<lparr>unread_bytes := Some [], mEof := True\<rparr>)"
    by (simp add: reader_next_def)
  then show ?case by (subst (1 2) read_all.simps) simp
next
  case (Cons m ms)
  show ?case
  proof (cases "length (message_bytes m) \<le> length b")
    case True
    define b' where "b' = drop (length (message_bytes m)) b"
    have b: "b = message_bytes m @ b'" "b' @ x = concat (map message_bytes ms)"
      using arg_cong [OF Cons.prems(4), of "take (length (message_bytes m))"]
        arg_cong [OF Cons.prems(4), of "drop (length (message_bytes m))"] True
        append_take_drop_id [of "length (message_bytes m)" b]
      by (simp_all add: b'_def)
    have "reader_next msg r = (True, m, r\<lparr>unread_bytes := Some b'\<rparr>)"
      using next_message Cons.prems(1-3) b(1) by simp
    then have r: "read_all msg r = (let (ms, r'') = read_all m (r\<lparr>unread_bytes := Some b'\<rparr>) in (m # ms, r''))"
      by (subst read_all.simps) simp
    obtain n where "fst (read_all m (r\<lparr>unread_bytes := Some b'\<rparr>)) = take n ms"
      "mEof (snd (read_all m (r\<lparr>unread_bytes := Some b'\<rparr>)))" "n \<le> length ms"
      "length (concat (map message_bytes (take n ms))) \<le> length b'"
      "n < length ms \<longrightarrow> length b' < length (concat (map message_bytes (take (Suc n) ms)))"
      using Cons.IH [of "r\<lparr>unread_bytes := Some b'\<rparr>" b' m] Cons.prems(2,3) b(2) by auto
    then show ?thesis
      by (intro exI [of _ "Suc n"]) (simp add: r b(1) case_prod_beta)
  next
    case False
    define y where "y = drop (length b) (message_bytes m)"
    have "b = take (length b) (message_bytes m)"
      using arg_cong [OF Cons.prems(4), of "take (length b)"] False by simp
    then have "b @ y = message_bytes m" unfolding y_def by (metis append_take_drop_id)
    moreover have "y \<noteq> []" using False by (simp add: y_def)
    ultimately have y: "b @ y = message_bytes m" "y \<noteq> []" by simp_all
    have "fst (reader_next msg r) = False \<and> mEof (snd (snd (reader_next msg r)))"
      using next_cut [OF Cons.prems(1,2) _ y] Cons.prems(3) by simp
    then show ?thesis
      using False by (subst (1 2) read_all.simps) (intro exI [of _ 0], simp add: case_prod_beta)
  qed
qed

text \<open>C18: What has been written to a TBIN file is read back, also when the file is cut.  The reader
  opens any file that begins with the header of the writer and gets the first (at most 255) bytes of the
  stream's name; reading to the end then gives exactly the messages whose bytes are all there, in
  order, for every length at which the rest of the file is missing, and reports the end of the file.\<close>

theorem tbin_read_written:
  assumes "\<forall>m \<in> set ms. storable m"
    and "tbin_header sid @ b @ rest = the (written (fold write_message ms (snd (writer_open True sid Writer))))"
  defines "r \<equiv> snd (reader_open (Some (tbin_header sid @ b)) Reader)"
  shows "fst (reader_open (Some (tbin_header sid @ b)) Reader) \<and> mStreamId r = take (length sid mod 256) sid \<and>
    mEof (snd (read_all msg r)) \<and>
    (\<exists>n. fst (read_all msg r) = take n ms \<and> (rest = [] \<longrightarrow> take n ms = ms) \<and>
       length (concat (map message_bytes (take n ms))) \<le> length b \<and>
       (n < length ms \<longrightarrow> length b < length (concat (map message_bytes (take (Suc n) ms)))))"
proof -
  have "the (written (fold write_message ms (snd (writer_open True sid Writer)))) =
      tbin_header sid @ concat (map message_bytes ms)"
    using write_messages [OF assms(1)] by (simp add: writer_open_header)
  then have b: "b @ rest = concat (map message_bytes ms)" using assms(2) by simp
  have r: "unread_bytes r = Some b" "\<not> mEof r" "mStreamId r = take (length sid mod 256) sid"
    by (simp_all add: r_def reader_open_header Reader_def)
  obtain n where n: "fst (read_all msg r) = take n ms" "mEof (snd (read_all msg r))" "n \<le> length ms"
    "length (concat (map message_bytes (take n ms))) \<le> length b"
    "n < length ms \<longrightarrow> length b < length (concat (map message_bytes (take (Suc n) ms)))"
    using read_all_prefix [OF r(1,2) assms(1) b] by blast
  have "take n ms = ms" if "rest = []"
  proof (rule ccontr)
    assume "take n ms \<noteq> ms"
    then have "n < length ms" using n(3) by (cases "n = length ms") auto
    then have "length b < length (concat (map message_bytes (take (Suc n) ms)))" using n(5) by simp
    also have "\<dots> \<le> length (concat (map message_bytes (take (Suc n) ms @ drop (Suc n) ms)))"
      by (simp only: map_append concat_append length_append le_add1)
    finally show False using b that by simp
  qed
  then show ?thesis using n r(3) by (auto simp: reader_open_header)
qed

theorem tbin_read_written_witness:
  "fst (read_all \<lparr>timestamp_us = 0, tbin_data = []\<rparr> (snd (reader_open (Some (tbin_header [117, 98, 120] @
      (le8 5 @ le4 2 @ [1, 2]) @ le8 6 @ [1])) Reader))) = [\<lparr>timestamp_us = 5, tbin_data = [1, 2]\<rparr>]"
proof -
  let ?ms = "[\<lparr>timestamp_us = 5, tbin_data = [1, 2]\<rparr>, \<lparr>timestamp_us = 6, tbin_data = [3]\<rparr>]"
  let ?b = "(le8 5 @ le4 2 @ [1, 2]) @ le8 6 @ [1]"
  have st: "\<forall>m \<in> set ?ms. storable m" by (simp add: storable_def)
  have written: "tbin_header [117, 98, 120] @ ?b @ [0, 0, 0, 3] =
      the (written (fold write_message ?ms (snd (writer_open True [117, 98, 120] Writer))))"
    using write_messages [OF st, of "snd (writer_open True [117, 98, 120] Writer)"]
    by (simp add: writer_open_header message_bytes_def le4_def)
  obtain n where n: "fst (read_all \<lparr>timestamp_us = 0, tbin_data = []\<rparr> (snd (reader_open (Some (tbin_header [117, 98, 120] @ ?b)) Reader))) = take n ?ms"
    "length (concat (map message_bytes (take n ?ms))) \<le> length ?b"
    "n < length ?ms \<longrightarrow> length ?b < length (concat (map message_bytes (take (Suc n) ?ms)))"
    using tbin_read_written [OF st written, of "\<lparr>timestamp_us = 0, tbin_data = []\<rparr>"] by blast
  have "n = 1"
    using n(2,3) by (cases n; cases "n - 1") (auto simp: length_message_bytes)
  then show ?thesis using n(1) by simp
qed

section \<open>Merging files by time\<close>

text \<open>
  The priority queue holds a time stamp and the number of an input for each input that is not at its
  end.  The standard only says that \<^verbatim>\<open>top\<close> is an entry that no other one precedes; which of
  several it is may depend on all that has happened, here on the number of messages \<open>k\<close> written so far.
\<close>

type_synonym entry = "u64 \<times> nat"

locale min_queue =
  fixes pick :: "nat \<Rightarrow> entry list \<Rightarrow> nat"
  assumes pick_law: "q \<noteq> [] \<Longrightarrow> pick k q < length q \<and> (\<forall>e \<in> set q. sint (fst (q ! pick k q)) \<le> sint (fst e))"

definition empty_message :: tbin_message where
  "empty_message = \<lparr>timestamp_us = 0, tbin_data = []\<rparr>"

text \<open>\<open>None\<close>: the program ends with an error.\<close>

fun open_inputs :: "nat \<Rightarrow> u8 list option list \<Rightarrow> (reader list \<times> tbin_message list \<times> entry list) option" where
  "open_inputs i [] = Some ([], [], [])"
| "open_inputs i (f # fs) =
     (let (ok, r) = reader_open f Reader
      in if \<not> ok then None
         else
           let (more, m, r) = reader_next empty_message r
           in map_option (\<lambda>(rs, ps, q). (r # rs, m # ps, (if more then (timestamp_us m, i) # q else q)))
                (open_inputs (i + 1) fs))"

definition without :: "nat \<Rightarrow> 'a list \<Rightarrow> 'a list" where
  "without j q = take j q @ drop (Suc j) q"

partial_function (option) merge_loop ::
  "(nat \<Rightarrow> entry list \<Rightarrow> nat) \<Rightarrow> nat \<Rightarrow> reader list \<Rightarrow> tbin_message list \<Rightarrow> entry list \<Rightarrow> writer \<Rightarrow> writer option" where
  "merge_loop pick k rs ps q w =
     (if q = [] then Some w
      else
        let i = snd (q ! pick k q); m = ps ! i;
            w = writer_write (timestamp_us m) (tbin_data m) (of_nat (length (tbin_data m))) w;
            (more, m, r) = reader_next m (rs ! i)
        in merge_loop pick (k + 1) (rs[i := r]) (ps[i := m])
             (if more then without (pick k q) q @ [(timestamp_us m, i)] else without (pick k q) q) w)"

definition tbin_merge :: "(nat \<Rightarrow> entry list \<Rightarrow> nat) \<Rightarrow> bool \<Rightarrow> u8 list option list \<Rightarrow> u8 list option" where
  "tbin_merge pick ok inputs =
     (if inputs = [] then None
      else case open_inputs 0 inputs of None \<Rightarrow> None
      | Some (rs, ps, q) \<Rightarrow>
          let (opened, w) = writer_open ok [0x6D, 0x65, 0x72, 0x67, 0x65, 0x64] Writer
          in if \<not> opened then None
             else Option.bind (merge_loop pick 0 rs ps q w) (\<lambda>w. fst (writer_close w)))"

text \<open>What merging means: take the head of a list that no other head precedes, until all are empty.\<close>

inductive merges :: "tbin_message list list \<Rightarrow> tbin_message list \<Rightarrow> bool" where
  all_empty: "\<forall>xs \<in> set xss. xs = [] \<Longrightarrow> merges xss []"
| take_head: "i < length xss \<Longrightarrow> xss ! i = m # ms \<Longrightarrow>
    \<forall>xs \<in> set xss. xs \<noteq> [] \<longrightarrow> sint (timestamp_us m) \<le> sint (timestamp_us (hd xs)) \<Longrightarrow>
    merges (xss[i := ms]) out \<Longrightarrow> merges xss (m # out)"

definition by_time :: "tbin_message list \<Rightarrow> bool" where
  "by_time = sorted_wrt (\<lambda>a b. sint (timestamp_us a) \<le> sint (timestamp_us b))"

lemma in_merged: "a \<in># sum_list (map mset xss) \<longleftrightarrow> (\<exists>xs \<in> set xss. a \<in> set xs)"
  by (induction xss) auto

lemma merges_all: "merges xss out \<Longrightarrow> mset out = sum_list (map mset xss)"
proof (induction rule: merges.induct)
  case (all_empty xss)
  then show ?case by (induction xss) auto
next
  case (take_head i xss m ms out)
  have xss: "xss = take i xss @ (m # ms) # drop (Suc i) xss" "xss[i := ms] = take i xss @ ms # drop (Suc i) xss"
    using take_head.hyps(1,2) id_take_nth_drop [of i xss] by (simp_all add: upd_conv_take_nth_drop)
  have "sum_list (map mset (take i xss @ (m # ms) # drop (Suc i) xss)) =
      add_mset m (sum_list (map mset (take i xss @ ms # drop (Suc i) xss)))" by simp
  then show ?case using take_head.IH unfolding xss(1)[symmetric] xss(2)[symmetric] by simp
qed

lemma merges_subseq: "merges xss out \<Longrightarrow> j < length xss \<Longrightarrow> subseq (xss ! j) out"
proof (induction arbitrary: j rule: merges.induct)
  case (take_head i xss m ms out)
  then have "subseq (xss[i := ms] ! j) out" by simp
  then show ?case using take_head.hyps(1,2) by (cases "j = i") (auto intro: list_emb_Cons)
qed (auto)

lemma merges_sorted:
  assumes "merges xss out" and "\<forall>xs \<in> set xss. by_time xs"
  shows "by_time out"
  using assms
proof (induction rule: merges.induct)
  case (take_head i xss m ms out)
  have "by_time (m # ms)" using take_head.hyps(1,2) take_head.prems nth_mem by fastforce
  then have ms: "by_time ms" by (simp add: by_time_def)
  have "by_time out"
    using take_head.prems ms by (intro take_head.IH) (auto dest: set_update_subset_insert [THEN subsetD])
  moreover have "sint (timestamp_us m) \<le> sint (timestamp_us a)" if "a \<in> set out" for a
  proof -
    have "a \<in># sum_list (map mset (xss[i := ms]))" using merges_all [OF take_head.hyps(4)] that by (metis set_mset_mset)
    then obtain xs where xs: "xs \<in> set (xss[i := ms])" "a \<in> set xs"
      by (auto simp: in_merged)
    show ?thesis
    proof (cases "xs \<in> set xss")
      case True
      then have "by_time xs" "sint (timestamp_us m) \<le> sint (timestamp_us (hd xs))"
        using take_head.prems take_head.hyps(3) xs(2) by auto
      then show ?thesis using xs(2) by (cases xs) (auto simp: by_time_def)
    next
      case False
      then have "xs = ms" using xs(1) set_update_subset_insert by fastforce
      then show ?thesis using \<open>by_time (m # ms)\<close> xs(2) by (simp add: by_time_def)
    qed
  qed
  ultimately show ?case by (simp add: by_time_def)
qed (simp add: by_time_def)

section \<open>The merging loop merges\<close>

text \<open>A reader with a message at hand, and the messages it has still to give.\<close>

definition at_hand :: "reader \<Rightarrow> tbin_message \<Rightarrow> tbin_message list \<Rightarrow> bool" where
  "at_hand r m xs \<longleftrightarrow> (\<forall>x rest. xs = x # rest \<longrightarrow> (\<forall>y \<in> set rest. storable y) \<and> m = x \<and>
     storable x \<and> \<not> mEof r \<and> unread_bytes r = Some (concat (map message_bytes rest)))"

lemma at_hand_Nil [simp]: "at_hand r m []" by (simp add: at_hand_def)

lemma next_at_hand:
  assumes "\<not> mEof r" and "unread_bytes r = Some (concat (map message_bytes xs))" and "\<forall>x \<in> set xs. storable x"
  shows "\<exists>m' r'. reader_next m r = (xs \<noteq> [], m', r') \<and> at_hand r' m' xs"
proof (cases xs)
  case Nil
  then show ?thesis using assms by (simp add: reader_next_def)
next
  case (Cons x rest)
  then show ?thesis
    using next_message [of r x "concat (map message_bytes rest)" m] assms by (simp add: at_hand_def)
qed

text \<open>The queue has one entry for each input with a message at hand, with the message's time.\<close>

definition queued :: "tbin_message list list \<Rightarrow> entry list \<Rightarrow> bool" where
  "queued xss q \<longleftrightarrow> distinct (map snd q) \<and>
     (\<forall>t i. (t, i) \<in> set q \<longleftrightarrow> i < length xss \<and> xss ! i \<noteq> [] \<and> t = timestamp_us (hd (xss ! i)))"

definition linked :: "tbin_message list list \<Rightarrow> reader list \<Rightarrow> tbin_message list \<Rightarrow> bool" where
  "linked xss rs ps \<longleftrightarrow> length rs = length xss \<and> length ps = length xss \<and>
     (\<forall>i < length xss. at_hand (rs ! i) (ps ! i) (xss ! i))"

lemma without_distinct:
  assumes "j < length q" and "distinct (map snd q)"
  shows "distinct (map snd (without j q)) \<and> set (without j q) = {e \<in> set q. snd e \<noteq> snd (q ! j)}"
proof -
  define e where "e = q ! j"
  obtain a b where q: "q = a @ e # b" and ab: "without j q = a @ b"
    using that id_take_nth_drop [OF assms(1)] unfolding without_def e_def by blast
  have "distinct (map snd a @ map snd b)" "\<forall>x \<in> set a \<union> set b. snd x \<noteq> snd e"
    using assms(2) unfolding q by (auto simp: image_iff)
  then show ?thesis unfolding ab e_def [symmetric] unfolding q by auto
qed

lemma queued_step:
  assumes "queued xss q" and "j < length q" and "snd (q ! j) = i" and "i < length xss"
  shows "queued (xss[i := rest])
    (if rest \<noteq> [] then without j q @ [(timestamp_us (hd rest), i)] else without j q)"
  using assms(1,3,4) without_distinct [OF assms(2)]
  by (auto simp: queued_def nth_list_update split: if_splits)

lemma linked_step:
  assumes "linked xss rs ps" and "i < length xss" and "at_hand r m rest"
  shows "linked (xss[i := rest]) (rs[i := r]) (ps[i := m])"
  using assms by (simp add: linked_def nth_list_update)

context min_queue begin

lemma head_minimal:
  assumes "queued xss q" and "q \<noteq> []" and "i = snd (q ! pick k q)"
  shows "i < length xss \<and> xss ! i \<noteq> [] \<and>
    (\<forall>xs \<in> set xss. xs \<noteq> [] \<longrightarrow> sint (timestamp_us (hd (xss ! i))) \<le> sint (timestamp_us (hd xs)))"
proof -
  obtain t where e: "q ! pick k q = (t, i)" using assms(3) by (cases "q ! pick k q") simp
  then have "(t, i) \<in> set q" using pick_law [OF assms(2)] nth_mem by metis
  then have i: "i < length xss" "xss ! i \<noteq> []" "t = timestamp_us (hd (xss ! i))"
    using assms(1) by (auto simp: queued_def)
  have "sint t \<le> sint (timestamp_us (hd xs))" if "xs \<in> set xss" "xs \<noteq> []" for xs
  proof -
    obtain l where "l < length xss" "xss ! l = xs" using \<open>xs \<in> set xss\<close> by (auto simp: in_set_conv_nth)
    then have "(timestamp_us (hd xs), l) \<in> set q" using assms(1) that(2) by (auto simp: queued_def)
    then show ?thesis using pick_law [OF assms(2), of k] e by force
  qed
  then show ?thesis using i by blast
qed

lemma merge_loop_merges:
  assumes "linked xss rs ps" and "queued xss q" and "written w = Some b"
  shows "\<exists>out. merge_loop pick k rs ps q w = Some (w\<lparr>written := Some (b @ concat (map message_bytes out))\<rparr>) \<and>
    merges xss out"
  using assms
proof (induction "sum_list (map length xss)" arbitrary: xss rs ps q w b k rule: less_induct)
  case less
  show ?case
  proof (cases "q = []")
    case True
    then have "xss ! l = []" if "l < length xss" for l
      using less.prems(2) that unfolding queued_def by fastforce
    then have "\<forall>xs \<in> set xss. xs = []" by (auto simp: in_set_conv_nth)
    then show ?thesis
      using True less.prems(3) by (subst merge_loop.simps) (auto intro!: exI [of _ "[]"] merges.all_empty)
  next
    case False
    define j where "j = pick k q"
    define i where "i = snd (q ! j)"
    have j: "j < length q" using pick_law [OF False] by (simp add: j_def)
    note hd_min = head_minimal [OF less.prems(2) False, of i k, unfolded j_def [symmetric], OF i_def]
    then obtain m rest where xs: "xss ! i = m # rest" and i: "i < length xss" by (cases "xss ! i") auto
    then have "at_hand (rs ! i) (ps ! i) (m # rest)" using less.prems(1) by (auto simp: linked_def)
    then have hand: "ps ! i = m" "storable m" "\<not> mEof (rs ! i)"
      "unread_bytes (rs ! i) = Some (concat (map message_bytes rest))" "\<forall>x \<in> set rest. storable x"
      by (simp_all add: at_hand_def)
    obtain m' r' where read: "reader_next m (rs ! i) = (rest \<noteq> [], m', r')" and hand': "at_hand r' m' rest"
      using next_at_hand [OF hand(3-5)] by blast
    have w: "writer_write (timestamp_us m) (tbin_data m) (of_nat (length (tbin_data m))) w =
        w\<lparr>written := Some (b @ message_bytes m)\<rparr>"
      using write_message [OF hand(2) less.prems(3)] by (simp add: write_message_def)
    define q' where "q' = (if rest \<noteq> [] then without j q @ [(timestamp_us m', i)] else without j q)"
    have "rest \<noteq> [] \<Longrightarrow> m' = hd rest" using hand' by (cases rest) (auto simp: at_hand_def)
    then have q': "queued (xss[i := rest]) q'"
      using queued_step [OF less.prems(2) j i_def [symmetric] i, of rest] by (auto simp: q'_def split: if_splits)
    have shorter: "sum_list (map length (xss[i := rest])) < sum_list (map length xss)"
      using sum_list_update [of i "map length xss" "length rest"] i xs
        elem_le_sum_list [of i "map length xss"]
      by (simp add: map_update)
    obtain out where out: "merge_loop pick (k + 1) (rs[i := r']) (ps[i := m']) q' (w\<lparr>written := Some (b @ message_bytes m)\<rparr>) =
        Some (w\<lparr>written := Some ((b @ message_bytes m) @ concat (map message_bytes out))\<rparr>)"
      and "merges (xss[i := rest]) out"
      using less.hyps [OF shorter linked_step [OF less.prems(1) i hand'] q', of "w\<lparr>written := Some (b @ message_bytes m)\<rparr>" "b @ message_bytes m" "k + 1"]
      by auto
    then have "merges xss (m # out)" using merges.take_head [OF i xs] hd_min xs by simp
    moreover have "merge_loop pick k rs ps q w =
        merge_loop pick (k + 1) (rs[i := r']) (ps[i := m']) q' (w\<lparr>written := Some (b @ message_bytes m)\<rparr>)"
      by (subst merge_loop.simps) (simp add: False j_def [symmetric] i_def [symmetric] hand(1) read w q'_def Let_def)
    ultimately show ?thesis using out by (intro exI [of _ "m # out"]) simp
  qed
qed

end

text \<open>Opening the inputs.\<close>

definition tbin_file :: "u8 list \<Rightarrow> tbin_message list \<Rightarrow> u8 list" where
  "tbin_file sid ms = the (written (fold write_message ms (snd (writer_open True sid Writer))))"

definition queued_from :: "nat \<Rightarrow> tbin_message list list \<Rightarrow> entry list \<Rightarrow> bool" where
  "queued_from c xss q \<longleftrightarrow> distinct (map snd q) \<and>
     (\<forall>t i. (t, i) \<in> set q \<longleftrightarrow>
        c \<le> i \<and> i - c < length xss \<and> xss ! (i - c) \<noteq> [] \<and> t = timestamp_us (hd (xss ! (i - c))))"

lemma queued_from_Cons:
  assumes "queued_from (Suc c) xss q"
  shows "queued_from c (xs # xss) (if xs \<noteq> [] then (timestamp_us (hd xs), c) # q else q)"
proof -
  have "c \<notin> set (map snd q)" using assms by (auto simp: queued_from_def)
  moreover have "(t, i) \<in> set (if xs \<noteq> [] then (timestamp_us (hd xs), c) # q else q) \<longleftrightarrow>
      c \<le> i \<and> i - c < length (xs # xss) \<and> (xs # xss) ! (i - c) \<noteq> [] \<and> t = timestamp_us (hd ((xs # xss) ! (i - c)))" for t i
    using assms by (cases "i - c") (auto simp: queued_from_def nth_Cons' Suc_le_eq diff_Suc split: nat.splits)
  ultimately show ?thesis using assms by (simp add: queued_from_def)
qed

lemma tbin_file: "\<forall>m \<in> set ms. storable m \<Longrightarrow> tbin_file sid ms = tbin_header sid @ concat (map message_bytes ms)"
  by (simp add: tbin_file_def writer_open_header write_messages)

lemma open_inputs_written:
  assumes "\<forall>(sid, ms) \<in> set ins. \<forall>m \<in> set ms. storable m"
  shows "\<exists>rs ps q. open_inputs c (map (\<lambda>(sid, ms). Some (tbin_file sid ms)) ins) = Some (rs, ps, q) \<and>
    linked (map snd ins) rs ps \<and> queued_from c (map snd ins) q"
  using assms
proof (induction ins arbitrary: c)
  case Nil
  then show ?case by (simp add: linked_def queued_from_def)
next
  case (Cons x ins)
  obtain sid ms where x: "x = (sid, ms)" by (cases x)
  have st: "\<forall>m \<in> set ms. storable m" using Cons.prems x by auto
  obtain rs ps q where IH: "open_inputs (Suc c) (map (\<lambda>(sid, ms). Some (tbin_file sid ms)) ins) = Some (rs, ps, q)"
    "linked (map snd ins) rs ps" "queued_from (Suc c) (map snd ins) q"
    using Cons.IH [of "Suc c"] Cons.prems by auto
  define r where "r = Reader\<lparr>unread_bytes := Some (concat (map message_bytes ms)), mStreamId := take (length sid mod 256) sid\<rparr>"
  have r: "reader_open (Some (tbin_file sid ms)) Reader = (True, r)"
    by (simp add: tbin_file [OF st] reader_open_header r_def)
  have "\<not> mEof r" "unread_bytes r = Some (concat (map message_bytes ms))" by (simp_all add: r_def Reader_def)
  then obtain m' r' where n: "reader_next empty_message r = (ms \<noteq> [], m', r')" "at_hand r' m' ms"
    using next_at_hand st by blast
  have "ms \<noteq> [] \<Longrightarrow> m' = hd ms" using n(2) by (cases ms) (auto simp: at_hand_def)
  then have "open_inputs c (map (\<lambda>(sid, ms). Some (tbin_file sid ms)) (x # ins)) =
      Some (r' # rs, m' # ps, if ms \<noteq> [] then (timestamp_us (hd ms), c) # q else q)"
    using IH(1) by (simp add: x r n(1))
  moreover have "linked (map snd (x # ins)) (r' # rs) (m' # ps)"
    using IH(2) n(2) by (auto simp: linked_def x nth_Cons')
  ultimately show ?case using queued_from_Cons [OF IH(3), of ms] by (auto simp: x)
qed

text \<open>A queue that takes the first of the least entries.\<close>

fun first_minimum :: "nat \<Rightarrow> entry list \<Rightarrow> nat" where
  "first_minimum k [] = 0"
| "first_minimum k [e] = 0"
| "first_minimum k (e # q) =
     (let j = first_minimum k q in if sint (fst e) \<le> sint (fst (q ! j)) then 0 else Suc j)"

lemma first_minimum_law:
  "q \<noteq> [] \<Longrightarrow> first_minimum k q < length q \<and> (\<forall>e \<in> set q. sint (fst (q ! first_minimum k q)) \<le> sint (fst e))"
  by (induction k q rule: first_minimum.induct) (auto simp: Let_def)

interpretation first_queue: min_queue first_minimum
  by unfold_locales (rule first_minimum_law)

text \<open>C19: The merging tool merges.  However the priority queue chooses between inputs with equal time
  stamps, for any number of files of the writer the tool ends, and its output is the writer's file of
  all their messages: none is lost, added or changed, those of each input are in their order (also if
  that is not the order of their times), and if each input is in the order of time, so is the output.\<close>

theorem tbin_merge_sorted:
  assumes "min_queue pick" and "ins \<noteq> []" and "\<forall>(sid, ms) \<in> set ins. \<forall>m \<in> set ms. storable m"
  shows "\<exists>out. tbin_merge pick True (map (\<lambda>(sid, ms). Some (tbin_file sid ms)) ins) =
      Some (tbin_file [0x6D, 0x65, 0x72, 0x67, 0x65, 0x64] out) \<and>
    mset out = (\<Sum>(sid, ms) \<leftarrow> ins. mset ms) \<and> (\<forall>(sid, ms) \<in> set ins. subseq ms out) \<and>
    ((\<forall>(sid, ms) \<in> set ins. by_time ms) \<longrightarrow> by_time out)"
proof -
  let ?merged = "[0x6D, 0x65, 0x72, 0x67, 0x65, 0x64] :: u8 list"
  obtain rs ps q where opened: "open_inputs 0 (map (\<lambda>(sid, ms). Some (tbin_file sid ms)) ins) = Some (rs, ps, q)"
    and l: "linked (map snd ins) rs ps" and "queued_from 0 (map snd ins) q"
    using open_inputs_written [OF assms(3)] by blast
  then have q: "queued (map snd ins) q" by (simp add: queued_def queued_from_def)
  obtain out where out: "merge_loop pick 0 rs ps q (Writer\<lparr>written := Some (tbin_header ?merged)\<rparr>) =
      Some (Writer\<lparr>written := Some (tbin_header ?merged @ concat (map message_bytes out))\<rparr>)"
    and m: "merges (map snd ins) out"
    using min_queue.merge_loop_merges [OF assms(1) l q, of "Writer\<lparr>written := Some (tbin_header ?merged)\<rparr>"]
    by auto
  have all: "mset out = (\<Sum>(sid, ms) \<leftarrow> ins. mset ms)"
    using merges_all [OF m] by (simp add: comp_def case_prod_beta')
  have "storable x" if "x \<in> set out" for x
    using that merges_all [OF m] in_merged [of x "map snd ins"] assms(3) by (force simp flip: set_mset_mset)
  then have "tbin_merge pick True (map (\<lambda>(sid, ms). Some (tbin_file sid ms)) ins) = Some (tbin_file ?merged out)"
    using assms(2) opened out by (simp add: tbin_merge_def writer_open_header tbin_file writer_close_def)
  moreover have "subseq ms out" if "(sid, ms) \<in> set ins" for sid ms
    using merges_subseq [OF m] that by (force simp: in_set_conv_nth)
  moreover have "by_time out" if "\<forall>(sid, ms) \<in> set ins. by_time ms"
    using merges_sorted [OF m] that by force
  ultimately show ?thesis using all by blast
qed

theorem tbin_merge_sorted_witness:
  "\<exists>out. tbin_merge first_minimum True
      [Some (tbin_file [] [\<lparr>timestamp_us = 3, tbin_data = [1]\<rparr>]), Some (tbin_file [] [\<lparr>timestamp_us = 2, tbin_data = [2]\<rparr>])] =
      Some (tbin_file [0x6D, 0x65, 0x72, 0x67, 0x65, 0x64] out) \<and>
    mset out = {#\<lparr>timestamp_us = 3, tbin_data = [1]\<rparr>, \<lparr>timestamp_us = 2, tbin_data = [2]\<rparr>#} \<and> by_time out"
  using tbin_merge_sorted [OF first_queue.min_queue_axioms,
      of "[([], [\<lparr>timestamp_us = 3, tbin_data = [1]\<rparr>]), ([], [\<lparr>timestamp_us = 2, tbin_data = [2]\<rparr>])]"]
  by (auto simp: storable_def by_time_def)

end
