(* ===== verification/Streamline.thy ===== *)
theory Streamline
  imports Scheduler "HOL-Library.Sublist"
begin

text \<open>
  The event system that connects the parts of the client (dependency/streamline): one queue with an
  \<^verbatim>\<open>eventfd\<close> for each type of message, inspectors and consumers for it, and the
  synchronous mode in which \<^verbatim>\<open>push\<close> calls them at once.  \<open>'ty\<close> are the types of
  messages, \<open>'a\<close> their values, \<open>'h\<close> the inspectors and consumers, \<open>'m\<close> the rest of the program.
  What a handler does is a list of commands: to change the program and to push messages.  Handlers
  that add or remove handlers are not modelled (the client has none).
\<close>

section \<open>Queues\<close>

text \<open>\<open>counter\<close> is the counter that the kernel keeps for \<^verbatim>\<open>mFd\<close>.\<close>

record 'i event_queue =
  mQueue :: "'i list"
  counter :: nat

definition EVENT_QUEUE_SIZE :: nat where "EVENT_QUEUE_SIZE = 4096"

definition EventQueue :: "'i event_queue" where
  "EventQueue = \<lparr>mQueue = [], counter = 0\<rparr>"

definition queue_push :: "'i \<Rightarrow> 'i event_queue \<Rightarrow> 'i event_queue" where
  "queue_push data q =
     (let q = q\<lparr>mQueue := mQueue q @ [data]\<rparr>
      in if length (mQueue q) > EVENT_QUEUE_SIZE then q\<lparr>mQueue := tl (mQueue q)\<rparr>
         else q\<lparr>counter := counter q + 1\<rparr>)"

text \<open>\<open>None\<close>: \<^verbatim>\<open>front\<close> of an empty queue is not defined.\<close>

definition queue_pop :: "'i event_queue \<Rightarrow> ('i \<times> 'i event_queue) option" where
  "queue_pop q = (case mQueue q of [] \<Rightarrow> None | x # xs \<Rightarrow> Some (x, q\<lparr>mQueue := xs\<rparr>))"

text \<open>\<open>None\<close>: nothing can be read, and the variable that is returned has no value.\<close>

definition poll_count :: "'i event_queue \<Rightarrow> (nat \<times> 'i event_queue) option" where
  "poll_count q = (if counter q = 0 then None else Some (counter q, q\<lparr>counter := 0\<rparr>))"

section \<open>Tasks and handlers\<close>

type_synonym 'a item = "u64 \<times> 'a"

record ('a, 'h) queue_task =
  task_queue :: "'a item event_queue"
  mConsumers :: "'h list"
  mInspectors :: "'h list"
  task_scheduled :: bool
  task_event :: ScheduledEvent

definition QueueTask :: "('a, 'h) queue_task" where
  "QueueTask = \<lparr>task_queue = EventQueue, mConsumers = [], mInspectors = [],
     task_scheduled = False, task_event = ev_invalid\<rparr>"

text \<open>\<open>ev\<close>: what \<^verbatim>\<open>register_fd\<close> returned.\<close>

definition queue_schedule :: "ScheduledEvent \<Rightarrow> ('a, 'h) queue_task \<Rightarrow> ('a, 'h) queue_task" where
  "queue_schedule ev t = t\<lparr>task_event := ev, task_scheduled := ev_valid ev\<rparr>"

definition queue_cancel :: "('a, 'h) queue_task \<Rightarrow> ScheduledEvent list \<times> ('a, 'h) queue_task" where
  "queue_cancel t =
     (if task_scheduled t then ([task_event t], t\<lparr>task_scheduled := False, task_event := ev_invalid\<rparr>) else ([], t))"

text \<open>
  \<open>clone\<close> is \<^verbatim>\<open>Clone<T>\<close>, \<open>None\<close> when it goes through a null pointer; \<open>moved\<close> is what
  \<^verbatim>\<open>std::move\<close> leaves behind.
\<close>

datatype ('ty, 'a, 'm) command =
    Work "'m \<Rightarrow> 'm"
  | Push 'ty 'a u64

record ('ty, 'a, 'h, 'm) handlers =
  accept :: "'h \<Rightarrow> u64 \<Rightarrow> bool"
  react :: "'h \<Rightarrow> 'a \<Rightarrow> u64 \<Rightarrow> 'm \<Rightarrow> ('ty, 'a, 'm) command list"
  clone :: "'a \<Rightarrow> 'a option"
  moved :: "'a \<Rightarrow> 'a"

text \<open>What the program has still to do: run a command, call a handler, handle an event of a queue, take
  the given number of items from a queue; \<open>Undefined\<close> has no defined behaviour.\<close>

datatype ('ty, 'a, 'h, 'm) action =
    Command "('ty, 'a, 'm) command"
  | Call 'h 'a u64
  | Event 'ty u32
  | Items 'ty nat
  | Undefined

definition inspector_calls ::
  "('ty, 'a, 'h, 'm) handlers \<Rightarrow> ('a, 'h) queue_task \<Rightarrow> 'a item \<Rightarrow> ('ty, 'a, 'h, 'm) action list" where
  "inspector_calls H t item = map (\<lambda>h. Call h (snd item) (fst item)) (filter (\<lambda>h. accept H h (fst item)) (mInspectors t))"

fun consumer_calls ::
  "('ty, 'a, 'h, 'm) handlers \<Rightarrow> 'h list \<Rightarrow> 'a item \<Rightarrow> ('ty, 'a, 'h, 'm) action list" where
  "consumer_calls H [] item = []"
| "consumer_calls H (consumer # next) (tag, data) =
     (if \<not> accept H consumer tag then consumer_calls H next (tag, data)
      else
        (if next \<noteq> [] then (case clone H data of None \<Rightarrow> Undefined | Some c \<Rightarrow> Call consumer c tag)
         else Call consumer data tag) #
        consumer_calls H next (tag, moved H data))"

text \<open>One consumer only, and no clone.\<close>

definition dispatch_sync ::
  "('ty, 'a, 'h, 'm) handlers \<Rightarrow> ('a, 'h) queue_task \<Rightarrow> 'a \<Rightarrow> u64 \<Rightarrow> ('ty, 'a, 'h, 'm) action list" where
  "dispatch_sync H t data tag =
     inspector_calls H t (tag, data) @
     (case filter (\<lambda>h. accept H h tag) (mConsumers t) of [] \<Rightarrow> [] | consumer # _ \<Rightarrow> [Call consumer data tag])"

section \<open>The system\<close>

record ('ty, 'a, 'h, 'm) system =
  has_scheduler :: bool
  mSyncMode :: bool
  mQueues :: "'ty \<Rightarrow> ('a, 'h) queue_task option"
  client_state :: 'm

definition System :: "bool \<Rightarrow> 'm \<Rightarrow> ('ty, 'a, 'h, 'm) system" where
  "System scheduler m = \<lparr>has_scheduler = scheduler, mSyncMode = False, mQueues = Map.empty, client_state = m\<rparr>"

definition set_sync_mode :: "bool \<Rightarrow> ('ty, 'a, 'h, 'm) system \<Rightarrow> ('ty, 'a, 'h, 'm) system" where
  "set_sync_mode enabled s = s\<lparr>mSyncMode := enabled\<rparr>"

definition update_queue ::
  "'ty \<Rightarrow> (('a, 'h) queue_task \<Rightarrow> ('a, 'h) queue_task) \<Rightarrow> ('ty, 'a, 'h, 'm) system \<Rightarrow> ('ty, 'a, 'h, 'm) system" where
  "update_queue ty f s =
     (case mQueues s ty of None \<Rightarrow> s | Some t \<Rightarrow> s\<lparr>mQueues := (mQueues s)(ty \<mapsto> f t)\<rparr>)"

definition get_or_create_queue ::
  "ScheduledEvent \<Rightarrow> 'ty \<Rightarrow> ('ty, 'a, 'h, 'm) system \<Rightarrow> ('ty, 'a, 'h, 'm) system" where
  "get_or_create_queue ev ty s =
     (case mQueues s ty of
        None \<Rightarrow>
          s\<lparr>mQueues := (mQueues s)(ty \<mapsto>
             (if has_scheduler s \<and> \<not> mSyncMode s then queue_schedule ev QueueTask else QueueTask))\<rparr>
      | Some t \<Rightarrow> s)"

definition add_consumer ::
  "ScheduledEvent \<Rightarrow> 'ty \<Rightarrow> 'h \<Rightarrow> ('ty, 'a, 'h, 'm) system \<Rightarrow> ('ty, 'a, 'h, 'm) system" where
  "add_consumer ev ty h s =
     (if \<not> has_scheduler s \<and> \<not> mSyncMode s then s
      else update_queue ty (\<lambda>t. t\<lparr>mConsumers := mConsumers t @ [h]\<rparr>) (get_or_create_queue ev ty s))"

definition add_inspector ::
  "ScheduledEvent \<Rightarrow> 'ty \<Rightarrow> 'h \<Rightarrow> ('ty, 'a, 'h, 'm) system \<Rightarrow> ('ty, 'a, 'h, 'm) system" where
  "add_inspector ev ty h s =
     (if \<not> has_scheduler s \<and> \<not> mSyncMode s then s
      else update_queue ty (\<lambda>t. t\<lparr>mInspectors := mInspectors t @ [h]\<rparr>) (get_or_create_queue ev ty s))"

definition system_cancel :: "('ty, 'a, 'h, 'm) system \<Rightarrow> ('ty, 'a, 'h, 'm) system" where
  "system_cancel s =
     s\<lparr>mQueues := \<lambda>ty. map_option (\<lambda>t. snd (queue_cancel t)) (mQueues s ty), has_scheduler := False\<rparr>"

text \<open>Move assignment: the new value of the left side and what is left of the right side.  The tasks go on
  handing the right side to their handlers, which is not expressed here.\<close>

definition system_assign ::
  "('ty, 'a, 'h, 'm) system \<Rightarrow> ('ty, 'a, 'h, 'm) system \<Rightarrow> ('ty, 'a, 'h, 'm) system \<times> ('ty, 'a, 'h, 'm) system" where
  "system_assign this other =
     ((system_cancel this)\<lparr>has_scheduler := has_scheduler other, mQueues := mQueues other\<rparr>,
      other\<lparr>has_scheduler := False, mQueues := Map.empty\<rparr>)"

definition push_item :: "'a item \<Rightarrow> ('a, 'h) queue_task \<Rightarrow> ('a, 'h) queue_task" where
  "push_item item t = t\<lparr>task_queue := queue_push item (task_queue t)\<rparr>"

definition system_push ::
  "('ty, 'a, 'h, 'm) handlers \<Rightarrow> 'ty \<Rightarrow> 'a \<Rightarrow> u64 \<Rightarrow> ('ty, 'a, 'h, 'm) system \<Rightarrow>
   ('ty, 'a, 'h, 'm) action list \<times> ('ty, 'a, 'h, 'm) system" where
  "system_push H ty data tag s =
     (if mSyncMode s
      then (case mQueues s ty of None \<Rightarrow> ([], s) | Some t \<Rightarrow> (dispatch_sync H t data tag, s))
      else if \<not> has_scheduler s then ([], s)
      else ([], update_queue ty (push_item (tag, data)) s))"

text \<open>\<^verbatim>\<open>QueueTask::event\<close> up to its loop; the loop is \<open>Items\<close>.\<close>

definition queue_event ::
  "'ty \<Rightarrow> u32 \<Rightarrow> ('ty, 'a, 'h, 'm) system \<Rightarrow>
   (('ty, 'a, 'h, 'm) action list \<times> ('ty, 'a, 'h, 'm) system) option" where
  "queue_event ty triggered s =
     (case mQueues s ty of None \<Rightarrow> Some ([], s)
      | Some t \<Rightarrow>
          if \<not> task_scheduled t then Some ([], s)
          else if \<not> has_interest triggered EventInterest_Read then Some ([], s)
          else case poll_count (task_queue t) of None \<Rightarrow> None
          | Some (count, q) \<Rightarrow> Some ([Items ty count], update_queue ty (\<lambda>t. t\<lparr>task_queue := q\<rparr>) s))"

definition take_item ::
  "('ty, 'a, 'h, 'm) handlers \<Rightarrow> 'ty \<Rightarrow> ('ty, 'a, 'h, 'm) system \<Rightarrow>
   (('ty, 'a, 'h, 'm) action list \<times> ('ty, 'a, 'h, 'm) system) option" where
  "take_item H ty s =
     (case mQueues s ty of None \<Rightarrow> None
      | Some t \<Rightarrow>
          (case queue_pop (task_queue t) of None \<Rightarrow> None
           | Some (item, q) \<Rightarrow>
               Some (inspector_calls H t item @ consumer_calls H (mConsumers t) item,
                     update_queue ty (\<lambda>t. t\<lparr>task_queue := q\<rparr>) s)))"

fun act ::
  "('ty, 'a, 'h, 'm) handlers \<Rightarrow> ('ty, 'a, 'h, 'm) action \<Rightarrow> ('ty, 'a, 'h, 'm) system \<Rightarrow>
   (('ty, 'a, 'h, 'm) action list \<times> ('ty, 'a, 'h, 'm) system) option" where
  "act H (Command (Work f)) s = Some ([], s\<lparr>client_state := f (client_state s)\<rparr>)"
| "act H (Command (Push ty data tag)) s = Some (system_push H ty data tag s)"
| "act H (Call h data tag) s = Some (map Command (react H h data tag (client_state s)), s)"
| "act H (Event ty triggered) s = queue_event ty triggered s"
| "act H (Items ty 0) s = Some ([], s)"
| "act H (Items ty (Suc n)) s = map_option (\<lambda>(calls, s). (calls @ [Items ty n], s)) (take_item H ty s)"
| "act H Undefined s = None"

text \<open>\<open>None\<close>: no defined behaviour, or no return (handlers that push to each other in synchronous mode).\<close>

partial_function (option) run_actions ::
  "('ty, 'a, 'h, 'm) handlers \<Rightarrow> ('ty, 'a, 'h, 'm) action list \<Rightarrow> ('ty, 'a, 'h, 'm) system \<Rightarrow>
   ('ty, 'a, 'h, 'm) system option" where
  "run_actions H actions s =
     (case actions of [] \<Rightarrow> Some s
      | a # actions \<Rightarrow> Option.bind (act H a s) (\<lambda>(first, s). run_actions H (first @ actions) s))"

section \<open>Runs of actions\<close>

declare run_actions.simps [code]

lemma run_actions_Nil [simp]: "run_actions H [] s = Some s"
  by (simp add: run_actions.simps)

lemma run_actions_Cons:
  "run_actions H (a # as) s = Option.bind (act H a s) (\<lambda>(first, s). run_actions H (first @ as) s)"
  by (subst run_actions.simps) simp

lemma run_actions_append:
  assumes "run_actions H as s = Some t"
  shows "run_actions H (as @ bs) s = run_actions H bs t"
proof (rule run_actions.raw_induct
    [where P = "\<lambda>H as s t. run_actions H (as @ bs) s = run_actions H bs t", OF _ assms])
  fix rec H as s t
  assume IH: "\<And>H as s t. rec H as s = Some t \<Longrightarrow> run_actions H (as @ bs) s = run_actions H bs t"
    and r: "(case as of [] \<Rightarrow> Some s
      | a # as \<Rightarrow> Option.bind (act H a s) (\<lambda>(first, s). rec H (first @ as) s)) = Some t"
  show "run_actions H (as @ bs) s = run_actions H bs t"
  proof (cases as)
    case Nil
    then show ?thesis using r by simp
  next
    case (Cons a rest)
    then obtain first s' where "act H a s = Some (first, s')" "rec H (first @ rest) s' = Some t"
      using r by (auto split: Option.bind_splits)
    then show ?thesis using Cons IH [of H "first @ rest" s' t] by (simp add: run_actions_Cons)
  qed
qed

text \<open>In the asynchronous mode commands and calls always return.\<close>

definition run_command ::
  "('ty, 'a, 'm) command \<Rightarrow> ('ty, 'a, 'h, 'm) system \<Rightarrow> ('ty, 'a, 'h, 'm) system" where
  "run_command c s =
     (case c of Work f \<Rightarrow> s\<lparr>client_state := f (client_state s)\<rparr>
      | Push ty data tag \<Rightarrow> if has_scheduler s then update_queue ty (push_item (tag, data)) s else s)"

definition run_call ::
  "('ty, 'a, 'h, 'm) handlers \<Rightarrow> 'h \<Rightarrow> 'a item \<Rightarrow> ('ty, 'a, 'h, 'm) system \<Rightarrow> ('ty, 'a, 'h, 'm) system" where
  "run_call H h item s = fold run_command (react H h (snd item) (fst item) (client_state s)) s"

lemma update_queue_simps [simp]:
  "mSyncMode (update_queue ty f s) = mSyncMode s" "has_scheduler (update_queue ty f s) = has_scheduler s"
  "client_state (update_queue ty f s) = client_state s"
  "mQueues (update_queue ty f s) ty' = (if ty' = ty then map_option f (mQueues s ty) else mQueues s ty')"
  by (simp_all add: update_queue_def split: option.split)

lemma run_command_simps [simp]:
  "mSyncMode (run_command c s) = mSyncMode s" "has_scheduler (run_command c s) = has_scheduler s"
  by (simp_all add: run_command_def split: command.split)

lemma fold_run_command_simps [simp]:
  "mSyncMode (fold run_command cs s) = mSyncMode s" "has_scheduler (fold run_command cs s) = has_scheduler s"
  by (induction cs arbitrary: s) simp_all

lemma run_call_simps [simp]:
  "mSyncMode (run_call H h item s) = mSyncMode s" "has_scheduler (run_call H h item s) = has_scheduler s"
  by (simp_all add: run_call_def)

lemma act_Command: "\<not> mSyncMode s \<Longrightarrow> act H (Command c) s = Some ([], run_command c s)"
  by (cases c) (simp_all add: run_command_def system_push_def)

lemma run_commands:
  "\<not> mSyncMode s \<Longrightarrow> run_actions H (map Command cs @ as) s = run_actions H as (fold run_command cs s)"
  by (induction cs arbitrary: s) (simp_all add: run_actions_Cons act_Command)

lemma run_calls:
  "\<not> mSyncMode s \<Longrightarrow>
    run_actions H (map (\<lambda>h. Call h (snd item) (fst item)) hs @ as) s =
    run_actions H as (fold (\<lambda>h. run_call H h item) hs s)"
proof (induction hs arbitrary: s)
  case (Cons h hs)
  then show ?case by (simp add: run_actions_Cons run_commands run_call_def)
qed simp

section \<open>An event delivers what is queued\<close>

definition deliver ::
  "('ty, 'a, 'h, 'm) handlers \<Rightarrow> ('a, 'h) queue_task \<Rightarrow> 'a item \<Rightarrow> ('ty, 'a, 'h, 'm) system \<Rightarrow> ('ty, 'a, 'h, 'm) system" where
  "deliver H t item s =
     fold (\<lambda>h. run_call H h item) (filter (\<lambda>h. accept H h (fst item)) (mInspectors t @ mConsumers t)) s"

lemma deliver_simps [simp]:
  "mSyncMode (deliver H t item s) = mSyncMode s" "has_scheduler (deliver H t item s) = has_scheduler s"
proof -
  have "mSyncMode (fold (\<lambda>h. run_call H h item) hs s) = mSyncMode s \<and>
      has_scheduler (fold (\<lambda>h. run_call H h item) hs s) = has_scheduler s" for hs
    by (induction hs arbitrary: s) simp_all
  then show "mSyncMode (deliver H t item s) = mSyncMode s" "has_scheduler (deliver H t item s) = has_scheduler s"
    unfolding deliver_def by blast+
qed

text \<open>At most the last consumer takes messages with this tag.\<close>

definition one_consumer :: "('ty, 'a, 'h, 'm) handlers \<Rightarrow> 'h list \<Rightarrow> u64 \<Rightarrow> bool" where
  "one_consumer H hs tag \<longleftrightarrow> (\<forall>h \<in> set (butlast hs). \<not> accept H h tag)"

lemma consumer_calls_one:
  "one_consumer H hs (fst item) \<Longrightarrow>
    consumer_calls H hs item = map (\<lambda>h. Call h (snd item) (fst item)) (filter (\<lambda>h. accept H h (fst item)) hs)"
  by (induction H hs item rule: consumer_calls.induct) (auto simp: one_consumer_def split: if_splits)

lemma run_delivery:
  assumes "\<not> mSyncMode s" and "one_consumer H (mConsumers t) (fst item)"
  shows "run_actions H (inspector_calls H t item @ consumer_calls H (mConsumers t) item @ as) s =
    run_actions H as (deliver H t item s)"
proof -
  have "run_actions H (map (\<lambda>h. Call h (snd item) (fst item)) (filter (\<lambda>h. accept H h (fst item)) (mInspectors t @ mConsumers t)) @ as) s =
      run_actions H as (deliver H t item s)"
    by (subst run_calls [OF assms(1)]) (simp add: deliver_def)
  then show ?thesis by (simp add: inspector_calls_def consumer_calls_one [OF assms(2)])
qed

text \<open>Handlers that push nothing to a queue leave it alone.\<close>

definition no_feedback :: "('ty, 'a, 'h, 'm) handlers \<Rightarrow> 'ty \<Rightarrow> bool" where
  "no_feedback H ty \<longleftrightarrow> (\<forall>h data tag m d g. Push ty d g \<notin> set (react H h data tag m))"

lemma run_command_other:
  assumes "\<And>d g. c \<noteq> Push ty d g"
  shows "mQueues (run_command c s) ty = mQueues s ty"
    and "run_command c (update_queue ty f s) = update_queue ty f (run_command c s)"
proof -
  show "mQueues (run_command c s) ty = mQueues s ty"
    using assms by (cases c) (auto simp: run_command_def)
  show "run_command c (update_queue ty f s) = update_queue ty f (run_command c s)"
  proof (cases c)
    case (Push ty' d g)
    then have "ty' \<noteq> ty" using assms by auto
    then show ?thesis
      using Push by (auto simp: run_command_def update_queue_def fun_upd_twist split: option.split)
  qed (simp add: run_command_def update_queue_def split: option.split)
qed

lemma run_commands_other:
  assumes "\<forall>d g. Push ty d g \<notin> set cs"
  shows "mQueues (fold run_command cs s) ty = mQueues s ty"
    and "fold run_command cs (update_queue ty f s) = update_queue ty f (fold run_command cs s)"
  using assms by (induction cs arbitrary: s) (simp_all add: run_command_other, metis run_command_other(1), metis run_command_other(2))

lemma deliver_other:
  assumes "no_feedback H ty"
  shows "mQueues (deliver H t item s) ty = mQueues s ty"
    and "deliver H t item (update_queue ty f s) = update_queue ty f (deliver H t item s)"
proof -
  have call: "mQueues (run_call H h item s) ty = mQueues s ty"
    "run_call H h item (update_queue ty f s) = update_queue ty f (run_call H h item s)" for h s
    using assms by (simp_all add: run_call_def no_feedback_def run_commands_other)
  have "mQueues (fold (\<lambda>h. run_call H h item) hs s) ty = mQueues s ty"
    "fold (\<lambda>h. run_call H h item) hs (update_queue ty f s) = update_queue ty f (fold (\<lambda>h. run_call H h item) hs s)" for hs
    by (induction hs arbitrary: s) (simp_all add: call)
  then show "mQueues (deliver H t item s) ty = mQueues s ty"
    "deliver H t item (update_queue ty f s) = update_queue ty f (deliver H t item s)"
    unfolding deliver_def by blast+
qed

lemma update_queue_twice:
  "update_queue ty f (update_queue ty g s) = update_queue ty (f \<circ> g) s"
  by (simp add: update_queue_def split: option.split)

lemma update_queue_id: "mQueues s ty = Some t \<Longrightarrow> f t = t \<Longrightarrow> update_queue ty f s = s"
  by (simp add: update_queue_def fun_upd_idem)

lemma update_queue_cong:
  "mQueues s ty = Some t \<Longrightarrow> f t = g t \<Longrightarrow> update_queue ty f s = update_queue ty g s"
  by (simp add: update_queue_def)

lemma run_items:
  fixes s :: "('ty, 'a, 'h, 'm) system"
  assumes "\<not> mSyncMode s" and "mQueues s ty = Some t" and "mQueue (task_queue t) = xs @ ys"
    and "\<forall>item \<in> set xs. one_consumer H (mConsumers t) (fst item)" and "no_feedback H ty"
  shows "run_actions H (Items ty (length xs) # as) s =
    run_actions H as (update_queue ty (\<lambda>t. t\<lparr>task_queue := (task_queue t)\<lparr>mQueue := ys\<rparr>\<rparr>) (fold (deliver H t) xs s))"
  using assms
proof (induction xs arbitrary: s t)
  case Nil
  then show ?case
    by (simp add: run_actions_Cons update_queue_def fun_upd_idem [of "mQueues s"])
next
  case (Cons x xs)
  define pop :: "('a, 'h) queue_task \<Rightarrow> ('a, 'h) queue_task" where
    "pop = (\<lambda>t. t\<lparr>task_queue := (task_queue t)\<lparr>mQueue := xs @ ys\<rparr>\<rparr>)"
  define s1 where "s1 = deliver H t x s"
  have t1: "mQueues s1 ty = Some t" using Cons.prems by (simp add: s1_def deliver_other)
  have "take_item H ty s = Some (inspector_calls H t x @ consumer_calls H (mConsumers t) x, update_queue ty pop s)"
    using Cons.prems(2,3) by (auto simp: take_item_def queue_pop_def pop_def intro!: update_queue_cong)
  then have "run_actions H (Items ty (length (x # xs)) # as) s =
      run_actions H (Items ty (length xs) # as) (update_queue ty pop s1)"
    using run_delivery [of "update_queue ty pop s" H t x "Items ty (length xs) # as"] Cons.prems
    by (simp add: run_actions_Cons [of H "Items ty (Suc _)"] deliver_other s1_def)
  also have "\<dots> = run_actions H as (update_queue ty (\<lambda>t. t\<lparr>task_queue := (task_queue t)\<lparr>mQueue := ys\<rparr>\<rparr>)
      (fold (deliver H (pop t)) xs (update_queue ty pop s1)))"
    using Cons.prems t1 by (intro Cons.IH) (simp_all add: pop_def s1_def)
  also have "fold (deliver H (pop t)) xs (update_queue ty pop s1) = update_queue ty pop (fold (deliver H t) xs s1)"
  proof -
    have "deliver H (pop t) = deliver H t" by (simp add: fun_eq_iff deliver_def pop_def)
    moreover have "fold (deliver H t) zs (update_queue ty pop u) = update_queue ty pop (fold (deliver H t) zs u)" for zs u
      by (induction zs arbitrary: u) (simp_all add: deliver_other [OF Cons.prems(5)])
    ultimately show ?thesis by simp
  qed
  finally show ?case by (simp add: update_queue_twice pop_def s1_def comp_def)
qed

text \<open>The queue and the counter of the kernel go together; \<open>n\<close> items have been announced and are
  still to be taken by the loop of an event.\<close>

definition queue_ok :: "nat \<Rightarrow> 'i event_queue \<Rightarrow> bool" where
  "queue_ok n q \<longleftrightarrow> length (mQueue q) = counter q + n \<and> length (mQueue q) \<le> EVENT_QUEUE_SIZE"

lemma queue_push_ok: "queue_ok n q \<Longrightarrow> queue_ok n (queue_push x q)"
  by (auto simp: queue_ok_def queue_push_def Let_def)

lemma queue_push_all:
  assumes "queue_ok 0 q"
  shows "fold queue_push xs q =
    \<lparr>mQueue = drop (length (mQueue q @ xs) - EVENT_QUEUE_SIZE) (mQueue q @ xs),
     counter = min EVENT_QUEUE_SIZE (length (mQueue q @ xs))\<rparr>"
  using assms
proof (induction xs arbitrary: q)
  case Nil
  then show ?case by (cases q) (simp add: queue_ok_def)
next
  case (Cons x xs)
  note IH = Cons.IH [OF queue_push_ok [OF Cons.prems, of x]]
  show ?case
  proof (cases "length (mQueue q) = EVENT_QUEUE_SIZE")
    case True
    then obtain y ys where q: "mQueue q = y # ys" "Suc (length ys) = EVENT_QUEUE_SIZE"
      by (cases "mQueue q") (auto simp: EVENT_QUEUE_SIZE_def)
    then have "queue_push x q = q\<lparr>mQueue := ys @ [x]\<rparr>"
      by (simp add: queue_push_def Let_def)
    moreover have "length ((ys @ [x]) @ xs) - EVENT_QUEUE_SIZE = length xs"
      "length ((y # ys) @ x # xs) - EVENT_QUEUE_SIZE = Suc (length xs)"
      "min EVENT_QUEUE_SIZE (length ((ys @ [x]) @ xs)) = EVENT_QUEUE_SIZE"
      "min EVENT_QUEUE_SIZE (length ((y # ys) @ x # xs)) = EVENT_QUEUE_SIZE"
      using q(2) by simp_all
    ultimately show ?thesis using IH q(1) by (simp del: length_append length_Cons)
  next
    case False
    then have "queue_push x q = q\<lparr>mQueue := mQueue q @ [x], counter := counter q + 1\<rparr>"
      using Cons.prems by (simp add: queue_push_def queue_ok_def Let_def)
    then show ?thesis using IH by simp
  qed
qed

lemma run_pushes:
  assumes "\<not> mSyncMode s" and "has_scheduler s"
  shows "run_actions H (map (\<lambda>item. Command (Push ty (snd item) (fst item))) items @ as) s =
    run_actions H as (update_queue ty (\<lambda>t. t\<lparr>task_queue := fold queue_push items (task_queue t)\<rparr>) s)"
  using assms
proof (induction items arbitrary: s)
  case Nil
  then show ?case by (simp add: update_queue_def fun_upd_idem [of "mQueues s"] split: option.split)
next
  case (Cons item items)
  then show ?case
    by (simp add: run_actions_Cons act_Command run_command_def push_item_def update_queue_twice comp_def
        del: act.simps(2))
qed

lemma run_event:
  assumes "\<not> mSyncMode s" and "mQueues s ty = Some t" and "task_scheduled t"
    and "has_interest triggered EventInterest_Read" and "queue_ok 0 (task_queue t)" and "mQueue (task_queue t) \<noteq> []"
    and "\<forall>item \<in> set (mQueue (task_queue t)). one_consumer H (mConsumers t) (fst item)" and "no_feedback H ty"
  shows "run_actions H (Event ty triggered # as) s =
    run_actions H as (update_queue ty (\<lambda>t. t\<lparr>task_queue := EventQueue\<rparr>) (fold (deliver H t) (mQueue (task_queue t)) s))"
proof -
  define polled where "polled = t\<lparr>task_queue := (task_queue t)\<lparr>counter := 0\<rparr>\<rparr>"
  define s1 where "s1 = update_queue ty (\<lambda>_. polled) s"
  have ok: "counter (task_queue t) = length (mQueue (task_queue t))" using assms(5) by (simp add: queue_ok_def)
  have "queue_event ty triggered s = Some ([Items ty (length (mQueue (task_queue t)))], s1)"
    using assms(2-4,6) ok
    by (auto simp: queue_event_def poll_count_def s1_def polled_def intro!: update_queue_cong)
  then have "run_actions H (Event ty triggered # as) s = run_actions H (Items ty (length (mQueue (task_queue t))) # as) s1"
    by (simp add: run_actions_Cons [of H "Event ty triggered"])
  also have "\<dots> = run_actions H as (update_queue ty (\<lambda>t. t\<lparr>task_queue := (task_queue t)\<lparr>mQueue := []\<rparr>\<rparr>)
      (fold (deliver H polled) (mQueue (task_queue t)) s1))"
    using assms by (intro run_items) (simp_all add: s1_def polled_def)
  also have "fold (deliver H polled) (mQueue (task_queue t)) s1 =
      update_queue ty (\<lambda>_. polled) (fold (deliver H t) (mQueue (task_queue t)) s)"
  proof -
    have "deliver H polled = deliver H t" by (simp add: fun_eq_iff deliver_def polled_def)
    moreover have "fold (deliver H t) zs (update_queue ty f u) = update_queue ty f (fold (deliver H t) zs u)" for zs u f
      by (induction zs arbitrary: u) (simp_all add: deliver_other [OF assms(8)])
    ultimately show ?thesis by (simp add: s1_def)
  qed
  also have "update_queue ty (\<lambda>t. t\<lparr>task_queue := (task_queue t)\<lparr>mQueue := []\<rparr>\<rparr>)
      (update_queue ty (\<lambda>_. polled) (fold (deliver H t) (mQueue (task_queue t)) s)) =
      update_queue ty (\<lambda>t. t\<lparr>task_queue := EventQueue\<rparr>) (fold (deliver H t) (mQueue (task_queue t)) s)"
  proof -
    have "mQueues (fold (deliver H t) zs u) ty = mQueues u ty" for zs u
      by (induction zs arbitrary: u) (simp_all add: deliver_other [OF assms(8)])
    then show ?thesis
      using assms(2) by (intro trans [OF update_queue_twice] update_queue_cong [of _ _ t])
        (simp_all add: polled_def EventQueue_def)
  qed
  finally show ?thesis .
qed

text \<open>A queue that waits for messages: scheduled, registered and empty.\<close>

definition waits :: "('ty, 'a, 'h, 'm) system \<Rightarrow> 'ty \<Rightarrow> ('a, 'h) queue_task \<Rightarrow> bool" where
  "waits s ty t \<longleftrightarrow> \<not> mSyncMode s \<and> has_scheduler s \<and> mQueues s ty = Some t \<and> task_scheduled t \<and> task_queue t = EventQueue"

definition push_items :: "'ty \<Rightarrow> 'a item list \<Rightarrow> ('ty, 'a, 'h, 'm) action list" where
  "push_items ty = map (\<lambda>item. Command (Push ty (snd item) (fst item)))"

text \<open>Two types of messages: an inspector of the first pushes the number that follows to the second.\<close>

definition example_handlers :: "(bool, nat, nat, nat list) handlers" where
  "example_handlers = \<lparr>accept = (\<lambda>h g. g \<noteq> 7),
     react = (\<lambda>h d g m. if h = 0 then [Push True (d + 1) g] else [Work (\<lambda>m. m @ [10 * h + d])]),
     clone = (\<lambda>d. if d = 99 then None else Some d), moved = (\<lambda>_. 99)\<rparr>"

definition example_system :: "(bool, nat, nat, nat list) system" where
  "example_system = add_consumer (ScheduledEvent 1 1) True 2 (add_inspector (ScheduledEvent 1 1) True 1
     (add_inspector (ScheduledEvent 0 1) False 0 (System True [])))"

lemmas example_defs = example_handlers_def example_system_def add_consumer_def add_inspector_def
  get_or_create_queue_def System_def queue_schedule_def QueueTask_def EventQueue_def ev_valid_def update_queue_def


lemma example_waits:
  "waits example_system False \<lparr>task_queue = EventQueue, mConsumers = [], mInspectors = [0],
     task_scheduled = True, task_event = ScheduledEvent 0 1\<rparr>"
  by (simp add: waits_def example_defs)


text \<open>The second consumer gets nothing.  The message is moved out of the item for the first consumer
  that accepts it, before it is cloned: of two consumers that accept, the first gets a clone and the
  last what \<^verbatim>\<open>std::move\<close> left behind, and with a third one that can only be
  cloned from a live pointer the program has no defined behaviour.\<close>

theorem second_consumer_gets_moved:
  assumes "\<not> mSyncMode s" and "mQueues s ty = Some t" and "mInspectors t = []"
    and "mQueue (task_queue t) = [(tag, data)]" and "mConsumers t = c1 # c2 # rest"
    and "accept H c1 tag" and "accept H c2 tag" and "clone H data = Some copy"
  shows "(rest = [] \<longrightarrow> run_actions H [Items ty 1] s = Some (run_call H c2 (tag, moved H data)
      (run_call H c1 (tag, copy) (update_queue ty (\<lambda>t. t\<lparr>task_queue := (task_queue t)\<lparr>mQueue := []\<rparr>\<rparr>) s)))) \<and>
    (rest \<noteq> [] \<longrightarrow> clone H (moved H data) = None \<longrightarrow> run_actions H [Items ty 1] s = None)"
proof -
  let ?s = "update_queue ty (\<lambda>t. t\<lparr>task_queue := (task_queue t)\<lparr>mQueue := []\<rparr>\<rparr>) s"
  have taken: "take_item H ty s = Some (consumer_calls H (c1 # c2 # rest) (tag, data), ?s)"
    using assms(2-5) by (auto simp: take_item_def queue_pop_def inspector_calls_def intro!: update_queue_cong)
  have step: "run_actions H (Call h d tag # as) u = run_actions H as (run_call H h (tag, d) u)"
    if "\<not> mSyncMode u" for h d as u
    using run_calls [OF that, of H "(tag, d)" "[h]" as] by simp
  have "run_actions H [Items ty 1] s = run_actions H (consumer_calls H (c1 # c2 # rest) (tag, data) @ [Items ty 0]) ?s"
    using taken by (simp add: run_actions_Cons [of H "Items ty (Suc 0)"])
  then show ?thesis
    using assms(1,6-8) by (auto simp: step run_actions_Cons [of H Undefined] run_actions_Cons [of H "Items ty 0"])
qed

section \<open>Every run of the event system\<close>

text \<open>What an action adds to and takes from the queue \<open>ty\<close>, and whether it makes the queue forget.\<close>

definition waiting :: "('ty, 'a, 'h, 'm) system \<Rightarrow> 'ty \<Rightarrow> 'a item list" where
  "waiting s ty = (case mQueues s ty of None \<Rightarrow> [] | Some t \<Rightarrow> mQueue (task_queue t))"

fun sends :: "'ty \<Rightarrow> ('ty, 'a, 'h, 'm) action \<Rightarrow> ('ty, 'a, 'h, 'm) system \<Rightarrow> 'a item list" where
  "sends ty (Command (Push ty' data tag)) s =
     (if ty' = ty \<and> \<not> mSyncMode s \<and> has_scheduler s \<and> mQueues s ty \<noteq> None then [(tag, data)] else [])"
| "sends ty _ s = []"

fun takes :: "'ty \<Rightarrow> ('ty, 'a, 'h, 'm) action \<Rightarrow> ('ty, 'a, 'h, 'm) system \<Rightarrow> 'a item list" where
  "takes ty (Items ty' (Suc n)) s = (if ty' = ty then take 1 (waiting s ty) else [])"
| "takes ty _ s = []"

definition forgets :: "'ty \<Rightarrow> ('ty, 'a, 'h, 'm) action \<Rightarrow> ('ty, 'a, 'h, 'm) system \<Rightarrow> nat" where
  "forgets ty a s = (if sends ty a s \<noteq> [] \<and> length (waiting s ty) = EVENT_QUEUE_SIZE then 1 else 0)"

text \<open>
  The runs: the program sets the system up, other parts of it run commands, and
  \<^verbatim>\<open>epoll\<close> reports queues whose counter is not zero; what has been begun is finished
  first.  \<open>history H ty P D n actions s\<close>: so far \<open>P\<close> has been pushed to the queue \<open>ty\<close>, \<open>D\<close> taken
  from it and \<open>n\<close> messages have been discarded; \<open>actions\<close> are still to be done.
\<close>

inductive history ::
  "('ty, 'a, 'h, 'm) handlers \<Rightarrow> 'ty \<Rightarrow> 'a item list \<Rightarrow> 'a item list \<Rightarrow> nat \<Rightarrow>
   ('ty, 'a, 'h, 'm) action list \<Rightarrow> ('ty, 'a, 'h, 'm) system \<Rightarrow> bool" for H ty where
  start: "history H ty [] [] 0 [] (System scheduler m)"
| sync: "history H ty P D n [] s \<Longrightarrow> history H ty P D n [] (set_sync_mode b s)"
| consumer: "history H ty P D n [] s \<Longrightarrow> history H ty P D n [] (add_consumer ev ty' h s)"
| inspector: "history H ty P D n [] s \<Longrightarrow> history H ty P D n [] (add_inspector ev ty' h s)"
| cancelled: "history H ty P D n [] s \<Longrightarrow> history H ty P D n [] (system_cancel s)"
| outside: "history H ty P D n [] s \<Longrightarrow> history H ty P D n [Command c] s"
| event: "history H ty P D n [] s \<Longrightarrow> \<forall>t. mQueues s ty' = Some t \<longrightarrow> counter (task_queue t) > 0 \<Longrightarrow>
    queue_event ty' triggered s = Some (as, s') \<Longrightarrow> history H ty P D n as s'"
| action: "history H ty P D n (a # as) s \<Longrightarrow> act H a s = Some (first, s') \<Longrightarrow>
    history H ty (P @ sends ty a s) (D @ takes ty a s) (n + forgets ty a s) (first @ as) s'"

fun pending :: "'ty \<Rightarrow> ('ty, 'a, 'h, 'm) action list \<Rightarrow> nat" where
  "pending ty [] = 0"
| "pending ty (Items ty' n # as) = (if ty' = ty then n else 0) + pending ty as"
| "pending ty (_ # as) = pending ty as"

lemma pending_append [simp]: "pending ty (as @ bs) = pending ty as + pending ty bs"
  by (induction ty as rule: pending.induct) simp_all

definition system_ok :: "('ty, 'a, 'h, 'm) action list \<Rightarrow> ('ty, 'a, 'h, 'm) system \<Rightarrow> bool" where
  "system_ok as s \<longleftrightarrow> (\<forall>ty tr. Event ty tr \<notin> set as) \<and>
     (\<forall>ty. mQueues s ty = None \<longrightarrow> pending ty as = 0) \<and>
     (\<forall>ty t. mQueues s ty = Some t \<longrightarrow> queue_ok (pending ty as) (task_queue t))"

text \<open>Actions without items announced and without events.\<close>

definition quiet :: "('ty, 'a, 'h, 'm) action list \<Rightarrow> bool" where
  "quiet as \<longleftrightarrow> (\<forall>ty. pending ty as = 0) \<and> (\<forall>ty tr. Event ty tr \<notin> set as)"

lemma quiet_simps [simp]:
  "quiet []" "quiet (Call h d g # as) = quiet as" "quiet (Command c # as) = quiet as"
  "quiet (Undefined # as) = quiet as"
  by (simp_all add: quiet_def)

lemma quiet_append [simp]: "quiet (as @ bs) \<longleftrightarrow> quiet as \<and> quiet bs"
  by (auto simp: quiet_def)

lemma quiet_map_Call: "quiet (map (\<lambda>h. Call h d g) hs)"
  by (induction hs) simp_all

lemma quiet_calls [simp]:
  "quiet (map Command cs)" "quiet (inspector_calls H t item)" "quiet (consumer_calls H hs item')"
  "quiet (dispatch_sync H t data tag)"
proof -
  show "quiet (map Command cs)" by (induction cs) simp_all
  show "quiet (inspector_calls H t item)" by (simp add: inspector_calls_def quiet_map_Call)
  show "quiet (consumer_calls H hs item')"
    by (induction H hs item' rule: consumer_calls.induct) (simp_all split: option.split)
  show "quiet (dispatch_sync H t data tag)"
    by (simp add: dispatch_sync_def inspector_calls_def quiet_map_Call split: list.split)
qed

lemma system_ok_quiet: "quiet first \<Longrightarrow> system_ok (first @ as) s = system_ok as s"
  by (simp add: system_ok_def quiet_def)

text \<open>No action but \<open>Undefined\<close> lacks a defined behaviour, and the queues stay in step with the kernel.\<close>

lemma act_ok:
  assumes "system_ok (a # as) s" and "a \<noteq> Undefined"
  shows "\<exists>first s'. act H a s = Some (first, s') \<and> system_ok (first @ as) s' \<and>
    waiting s ty @ sends ty a s =
      (if forgets ty a s = 1 then take 1 (waiting s ty) else takes ty a s) @ waiting s' ty"
proof -
  have ok: "\<And>ty. mQueues s ty = None \<longrightarrow> pending ty (a # as) = 0" "\<And>ty t. mQueues s ty = Some t \<longrightarrow> queue_ok (pending ty (a # as)) (task_queue t)"
    using assms(1) unfolding system_ok_def by blast+
  show ?thesis
  proof (cases a)
    case (Command c)
    show ?thesis
    proof (cases c)
      case (Work f)
      then show ?thesis using Command assms(1) by (simp add: system_ok_def forgets_def waiting_def)
    next
      case (Push ty' d g)
      show ?thesis
      proof (cases "mSyncMode s \<or> \<not> has_scheduler s \<or> mQueues s ty' = None")
        case True
        then have "\<exists>first. system_push H ty' d g s = (first, s) \<and> quiet first"
          by (cases "mQueues s ty'") (auto simp: system_push_def update_queue_def)
        then obtain first where first: "system_push H ty' d g s = (first, s)" "quiet first" by blast
        have "system_ok as s" using assms(1) Command system_ok_quiet [of "[a]" as s] by simp
        then have "system_ok (first @ as) s" using first(2) by (simp add: system_ok_quiet)
        moreover have "sends ty a s = []" using True Command Push by auto
        ultimately show ?thesis using Command Push first(1) by (simp add: forgets_def)
      next
        case False
        then obtain t where t: "mQueues s ty' = Some t" by blast
        have q: "queue_ok (pending ty' as) (task_queue t)" using ok(2) [of ty'] Command t by simp
        have "mQueue (task_queue t) @ [(g, d)] = (if length (mQueue (task_queue t)) = EVENT_QUEUE_SIZE
            then take 1 (mQueue (task_queue t)) else []) @ mQueue (queue_push (g, d) (task_queue t))"
          using q by (cases "mQueue (task_queue t)") (auto simp: queue_push_def queue_ok_def Let_def EVENT_QUEUE_SIZE_def)
        moreover have "system_ok as (update_queue ty' (push_item (g, d)) s)"
          using assms(1) Command t by (auto simp: system_ok_def push_item_def queue_push_ok)
        ultimately show ?thesis
          using False Command Push t
          by (auto simp: system_push_def forgets_def waiting_def push_item_def)
      qed
    qed
  next
    case (Call h d g)
    then show ?thesis using assms(1) by (simp add: system_ok_quiet forgets_def) (simp add: system_ok_def)
  next
    case (Event ty' tr)
    then show ?thesis using assms(1) by (auto simp: system_ok_def)
  next
    case (Items ty' n)
    show ?thesis
    proof (cases n)
      case 0
      then show ?thesis using Items assms(1) by (simp add: system_ok_def forgets_def)
    next
      case (Suc k)
      then obtain t where t: "mQueues s ty' = Some t" "queue_ok (Suc k + pending ty' as) (task_queue t)"
        using ok(1) [of ty'] ok(2) [of ty'] Items by (cases "mQueues s ty'") auto
      then obtain x xs where x: "mQueue (task_queue t) = x # xs" by (cases "mQueue (task_queue t)") (auto simp: queue_ok_def)
      define s' where "s' = update_queue ty' (\<lambda>t'. t'\<lparr>task_queue := (task_queue t)\<lparr>mQueue := xs\<rparr>\<rparr>) s"
      define calls where "calls = inspector_calls H t x @ consumer_calls H (mConsumers t) x"
      have "act H a s = Some (calls @ [Items ty' k], s')"
        using Items Suc t x by (simp add: take_item_def queue_pop_def s'_def calls_def)
      moreover have "queue_ok (k + pending ty' as) ((task_queue t)\<lparr>mQueue := xs\<rparr>)"
        using t(2) x by (auto simp: queue_ok_def)
      then have "system_ok (Items ty' k # as) s'"
      proof -
        have "mQueues s l = None \<Longrightarrow> l \<noteq> ty' \<Longrightarrow> pending l as = 0" for l
          using ok(1) [of l] Items by simp
        moreover have "mQueues s l = Some u \<Longrightarrow> l \<noteq> ty' \<Longrightarrow> queue_ok (pending l as) (task_queue u)" for l u
          using ok(2) [of l u] Items by simp
        moreover have "Event l tr \<notin> set as" for l tr using assms(1) by (simp add: system_ok_def)
        ultimately show ?thesis
          using t(1) \<open>queue_ok (k + pending ty' as) _\<close> by (auto simp: system_ok_def s'_def)
      qed
      then have "system_ok ((calls @ [Items ty' k]) @ as) s'" by (simp add: system_ok_quiet calls_def)
      moreover have "waiting s ty = takes ty a s @ waiting s' ty"
        using Items Suc t x by (cases "ty' = ty") (auto simp: waiting_def s'_def)
      ultimately show ?thesis using Items by (simp add: forgets_def)
    qed
  qed (use assms(2) in simp)
qed

lemma new_queue:
  "queue_ok 0 (task_queue QueueTask)" "queue_ok 0 (task_queue (queue_schedule ev QueueTask))"
  "mQueue (task_queue QueueTask) = []" "mQueue (task_queue (queue_schedule ev QueueTask)) = []"
  by (simp_all add: QueueTask_def queue_schedule_def EventQueue_def queue_ok_def)

lemma setup_ok:
  assumes "system_ok [] s"
  shows "system_ok [] (set_sync_mode b s)" "waiting (set_sync_mode b s) ty = waiting s ty"
    and "system_ok [] (add_consumer ev ty' h s)" "waiting (add_consumer ev ty' h s) ty = waiting s ty"
    and "system_ok [] (add_inspector ev ty' h s)" "waiting (add_inspector ev ty' h s) ty = waiting s ty"
    and "system_ok [] (system_cancel s)" "waiting (system_cancel s) ty = waiting s ty"
proof -
  show "system_ok [] (set_sync_mode b s)" "waiting (set_sync_mode b s) ty = waiting s ty"
    using assms by (simp_all add: system_ok_def set_sync_mode_def waiting_def)
  show "system_ok [] (add_consumer ev ty' h s)" "system_ok [] (add_inspector ev ty' h s)"
    using assms new_queue by (auto simp: system_ok_def add_consumer_def add_inspector_def get_or_create_queue_def split: option.splits)
  show "waiting (add_consumer ev ty' h s) ty = waiting s ty" "waiting (add_inspector ev ty' h s) ty = waiting s ty"
    by (simp_all add: new_queue waiting_def add_consumer_def add_inspector_def get_or_create_queue_def split: option.split)
  show "system_ok [] (system_cancel s)" "waiting (system_cancel s) ty = waiting s ty"
    using assms by (auto simp: system_ok_def system_cancel_def queue_cancel_def waiting_def split: option.split)
qed

lemma event_ok:
  assumes "system_ok [] s" and "\<forall>t. mQueues s ty' = Some t \<longrightarrow> counter (task_queue t) > 0"
  shows "\<exists>as s'. queue_event ty' triggered s = Some (as, s') \<and> system_ok as s' \<and> waiting s' ty = waiting s ty"
proof (cases "mQueues s ty'")
  case None
  then show ?thesis using assms(1) by (simp add: queue_event_def)
next
  case (Some t)
  have ok: "queue_ok 0 (task_queue t)" "counter (task_queue t) > 0" using assms Some by (auto simp: system_ok_def)
  show ?thesis
  proof (cases "task_scheduled t \<and> has_interest triggered EventInterest_Read")
    case False
    then show ?thesis using assms(1) Some by (auto simp: queue_event_def)
  next
    case True
    define q where "q = (task_queue t)\<lparr>counter := 0\<rparr>"
    define s' where "s' = update_queue ty' (\<lambda>t. t\<lparr>task_queue := q\<rparr>) s"
    have "queue_event ty' triggered s = Some ([Items ty' (counter (task_queue t))], s')"
      using True Some ok(2) by (simp add: queue_event_def poll_count_def q_def s'_def)
    moreover have "queue_ok (counter (task_queue t)) q" using ok(1) by (simp add: q_def queue_ok_def)
    then have "system_ok [Items ty' (counter (task_queue t))] s'"
      using assms(1) Some by (auto simp: system_ok_def s'_def)
    moreover have "waiting s' ty = waiting s ty" using Some by (simp add: waiting_def s'_def q_def)
    ultimately show ?thesis by blast
  qed
qed

lemma sends_takes: "sends ty a s \<noteq> [] \<Longrightarrow> takes ty a s = [] \<and> length (sends ty a s) = 1"
  by (cases "(ty, a, s)" rule: sends.cases) (auto split: if_splits)

lemma history_ok:
  assumes "history H ty P D n as s"
  shows "system_ok as s \<and> (n = 0 \<longrightarrow> D @ waiting s ty = P) \<and> subseq (D @ waiting s ty) P \<and>
    length P = length D + length (waiting s ty) + n"
  using assms
proof (induction rule: history.induct)
  case (start scheduler m)
  then show ?case by (simp add: System_def system_ok_def waiting_def)
next
  case (outside P D n s c)
  then show ?case by (simp add: system_ok_def)
next
  case (event P D n s ty' triggered as s')
  then show ?case using event_ok [of s ty' triggered ty] by auto
next
  case (action P D n a as s first s')
  have "a \<noteq> Undefined" using action.hyps(2) by auto
  then have ok: "system_ok (first @ as) s'"
    "waiting s ty @ sends ty a s = (if forgets ty a s = 1 then take 1 (waiting s ty) else takes ty a s) @ waiting s' ty"
    using act_ok [of a as s H ty] action by auto
  show ?case
  proof (cases "forgets ty a s = 1")
    case True
    then have full: "sends ty a s \<noteq> []" "length (waiting s ty) = EVENT_QUEUE_SIZE"
      by (simp_all add: forgets_def split: if_splits)
    then have "takes ty a s = []" "length (sends ty a s) = 1" "waiting s ty \<noteq> []"
      using sends_takes [of ty a s] by (auto simp: EVENT_QUEUE_SIZE_def)
    then obtain w ws where w: "waiting s ty = w # ws" by (cases "waiting s ty") simp_all
    then have ws: "waiting s' ty = ws @ sends ty a s" using ok(2) True by simp
    have "subseq (D @ ws) (D @ waiting s ty)"
      unfolding w by (intro list_emb_append_mono list_emb_Cons subseq_order.refl)
    then have "subseq (D @ ws) P" using action.IH by (blast intro: subseq_order.trans)
    then have "subseq ((D @ ws) @ sends ty a s) (P @ sends ty a s)"
      by (intro list_emb_append_mono) simp_all
    then show ?thesis
      using action.IH ok(1) True w ws \<open>takes ty a s = []\<close> \<open>length (sends ty a s) = 1\<close> by simp
  next
    case False
    then have f: "forgets ty a s = 0" by (simp add: forgets_def split: if_splits)
    then have e: "D @ waiting s ty @ sends ty a s = (D @ takes ty a s) @ waiting s' ty" using ok(2) by simp
    have "waiting s ty @ sends ty a s = takes ty a s @ waiting s' ty" using f ok(2) by simp
    from arg_cong [OF this, of length]
    have len: "length (waiting s ty) + length (sends ty a s) = length (takes ty a s) + length (waiting s' ty)" by simp
    have "subseq ((D @ waiting s ty) @ sends ty a s) (P @ sends ty a s)"
      using action.IH by (intro list_emb_append_mono) simp_all
    then have "subseq ((D @ takes ty a s) @ waiting s' ty) (P @ sends ty a s)" using e by simp
    then show ?thesis
      using action.IH ok(1) f e len by auto
  qed
qed (auto simp: setup_ok)

text \<open>C17: No message is lost, repeated or overtaken.  In every run of the event system, with handlers that
  push whatever they like to whatever queue, also to their own in the middle of its event: what has been
  taken from a queue followed by what waits there is what has been pushed, as long as nothing was
  discarded; otherwise it lacks exactly the discarded messages; the loop of an event never meets an empty queue,
  and only a clone of a moved message is not defined; and when nothing runs, the counter of the
  kernel is the number of messages that wait, at most 4096, so they are announced.\<close>

theorem event_system_consistent:
  assumes "history H ty P D n as s"
  shows "(n = 0 \<longrightarrow> D @ waiting s ty = P) \<and> subseq (D @ waiting s ty) P \<and>
    length P = length D + length (waiting s ty) + n \<and>
    (\<forall>a rest. as = a # rest \<longrightarrow> a \<noteq> Undefined \<longrightarrow> act H a s \<noteq> None) \<and>
    (as = [] \<longrightarrow> (\<forall>t. mQueues s ty = Some t \<longrightarrow>
       counter (task_queue t) = length (waiting s ty) \<and> length (waiting s ty) \<le> 4096))"
proof -
  have h: "system_ok as s" "(n = 0 \<longrightarrow> D @ waiting s ty = P) \<and> subseq (D @ waiting s ty) P \<and>
      length P = length D + length (waiting s ty) + n"
    using history_ok [OF assms] by simp_all
  have "act H a s \<noteq> None" if "as = a # rest" "a \<noteq> Undefined" for a rest
    using act_ok [of a rest s H ty] h(1) that by auto
  moreover have "counter (task_queue t) = length (waiting s ty) \<and> length (waiting s ty) \<le> 4096"
    if "as = []" "mQueues s ty = Some t" for t
  proof -
    have "queue_ok (pending ty []) (task_queue t)" using h(1) that by (simp add: system_ok_def)
    then show ?thesis using that(2) by (simp add: queue_ok_def EVENT_QUEUE_SIZE_def waiting_def)
  qed
  ultimately show ?thesis using h(2) by blast
qed

theorem event_system_consistent_witness:
  "history example_handlers True [(0, 5)] [] 0 [] (update_queue True (push_item (0, 5)) example_system) \<and>
    waiting (update_queue True (push_item (0, 5)) example_system) True = [(0, 5)]"
proof -
  have "history example_handlers True [] [] 0 [] example_system"
    unfolding example_system_def by (intro history.intros)
  then have h: "history example_handlers True [] [] 0 [Command (Push True 5 0)] example_system"
    by (rule history.outside)
  have ready: "\<not> mSyncMode example_system" "has_scheduler example_system" "mQueues example_system True \<noteq> None"
    "length (waiting example_system True) = 0"
    by (simp_all add: example_defs waiting_def)
  then have "history example_handlers True [(0, 5)] [] 0 [] (update_queue True (push_item (0, 5)) example_system)"
    using history.action [OF h, of "[]" "update_queue True (push_item (0, 5)) example_system"]
    by (simp add: system_push_def forgets_def EVENT_QUEUE_SIZE_def ready)
  then show ?thesis using event_system_consistent [of example_handlers True "[(0, 5)]" "[]" 0 "[]"] by simp
qed

theorem second_consumer_gets_moved_witness:
  "run_actions example_handlers [Items True 1]
      (update_queue True (\<lambda>t. t\<lparr>task_queue := \<lparr>mQueue = [(0, 4)], counter = 0\<rparr>, mInspectors := [], mConsumers := [1, 2]\<rparr>)
        example_system) =
    Some (update_queue True (\<lambda>t. t\<lparr>task_queue := \<lparr>mQueue = [], counter = 0\<rparr>, mInspectors := [], mConsumers := [1, 2]\<rparr>)
      (example_system\<lparr>client_state := [14, 119]\<rparr>))"
  using second_consumer_gets_moved [of "update_queue True (\<lambda>t. t\<lparr>task_queue := \<lparr>mQueue = [(0, 4)], counter = 0\<rparr>,
      mInspectors := [], mConsumers := [1, 2]\<rparr>) example_system" True _ 0 4 1 2 "[]" example_handlers 4]
  by (simp add: run_call_def run_command_def example_defs)

end
