(* ===== verification/Lpp_Message.thy ===== *)
theory Lpp_Message
  imports Lpp_Session
begin

text \<open>
  What the client looks at in a received LPP message (dependency/lpp/message.cpp): the kind of its body
  and, in assistance data and requests for location information, the fields that it reads.  The
  generated ASN.1 structures are records with the discriminants of their unions as numbers (the
  enumerations of the generated headers); everything else in a body is the opaque field \<open>content\<close>.
\<close>

section \<open>Bodies\<close>

definition LPP_MessageBody_PR_c1 :: int where "LPP_MessageBody_PR_c1 = 1"
definition PR_requestCapabilities :: int where "PR_requestCapabilities = 1"
definition PR_requestLocationInformation :: int where "PR_requestLocationInformation = 5"
definition PR_requestAssistanceData :: int where "PR_requestAssistanceData = 3"
definition PR_provideCapabilities :: int where "PR_provideCapabilities = 2"
definition PR_provideLocationInformation :: int where "PR_provideLocationInformation = 6"
definition PR_provideAssistanceData :: int where "PR_provideAssistanceData = 4"
definition PR_abort :: int where "PR_abort = 7"
definition PR_error :: int where "PR_error = 8"

lemmas PR_defs = LPP_MessageBody_PR_c1_def PR_requestCapabilities_def PR_requestLocationInformation_def PR_requestAssistanceData_def PR_provideCapabilities_def PR_provideLocationInformation_def PR_provideAssistanceData_def PR_abort_def PR_error_def

text \<open>The critical extensions of all kinds number their cases alike.\<close>

definition criticalExtensions_PR_c1 :: int where "criticalExtensions_PR_c1 = 1"
definition c1_PR_r9 :: int where "c1_PR_r9 = 1"
definition Error_PR_error_r9 :: int where "Error_PR_error_r9 = 1"

record PeriodicalReportingCriteria =
  reportingAmount :: "int option"
  reportingInterval :: int

record CommonIEsRequestLocationInformation =
  periodicalReporting :: "PeriodicalReportingCriteria option"

record PeriodicSessionID_r15 =
  periodicSessionInitiator_r15 :: int
  periodicSessionNumber_r15 :: int

record CommonIEsProvideAssistanceData_ext2 =
  periodicAssistanceData_r15 :: "PeriodicSessionID_r15 option"

record CommonIEsProvideAssistanceData =
  ext2 :: "CommonIEsProvideAssistanceData_ext2 option"

record 'x message_body =
  body_present :: int
  c1_present :: int
  outer_present :: int
  outer_c1_present :: int
  commonIEsRequestLocationInformation :: "CommonIEsRequestLocationInformation option"
  commonIEsProvideAssistanceData :: "CommonIEsProvideAssistanceData option"
  body_content :: 'x

type_synonym 'x message = "'x message_body lpp_message"

section \<open>Kinds\<close>

text \<open>A message is a pointer, \<open>None\<close> when null.\<close>

definition is_request_capabilities :: "'x message option \<Rightarrow> bool" where
  "is_request_capabilities message =
     (case message of None \<Rightarrow> False
      | Some m \<Rightarrow>
          (case lpp_MessageBody m of None \<Rightarrow> False
           | Some body \<Rightarrow>
               if body_present body \<noteq> LPP_MessageBody_PR_c1 then False
               else if c1_present body \<noteq> PR_requestCapabilities then False
               else if outer_present body \<noteq> criticalExtensions_PR_c1 then False
               else if outer_c1_present body \<noteq> c1_PR_r9 then False
               else True))"

definition is_request_location_information :: "'x message option \<Rightarrow> bool" where
  "is_request_location_information message =
     (case message of None \<Rightarrow> False
      | Some m \<Rightarrow>
          (case lpp_MessageBody m of None \<Rightarrow> False
           | Some body \<Rightarrow>
               if body_present body \<noteq> LPP_MessageBody_PR_c1 then False
               else if c1_present body \<noteq> PR_requestLocationInformation then False
               else if outer_present body \<noteq> criticalExtensions_PR_c1 then False
               else if outer_c1_present body \<noteq> c1_PR_r9 then False
               else True))"

definition is_request_assistance_data :: "'x message option \<Rightarrow> bool" where
  "is_request_assistance_data message =
     (case message of None \<Rightarrow> False
      | Some m \<Rightarrow>
          (case lpp_MessageBody m of None \<Rightarrow> False
           | Some body \<Rightarrow>
               if body_present body \<noteq> LPP_MessageBody_PR_c1 then False
               else if c1_present body \<noteq> PR_requestAssistanceData then False
               else if outer_present body \<noteq> criticalExtensions_PR_c1 then False
               else if outer_c1_present body \<noteq> c1_PR_r9 then False
               else True))"

definition is_provide_capabilities :: "'x message option \<Rightarrow> bool" where
  "is_provide_capabilities message =
     (case message of None \<Rightarrow> False
      | Some m \<Rightarrow>
          (case lpp_MessageBody m of None \<Rightarrow> False
           | Some body \<Rightarrow>
               if body_present body \<noteq> LPP_MessageBody_PR_c1 then False
               else if c1_present body \<noteq> PR_provideCapabilities then False
               else if outer_present body \<noteq> criticalExtensions_PR_c1 then False
               else if outer_c1_present body \<noteq> c1_PR_r9 then False
               else True))"

definition is_provide_location_information :: "'x message option \<Rightarrow> bool" where
  "is_provide_location_information message =
     (case message of None \<Rightarrow> False
      | Some m \<Rightarrow>
          (case lpp_MessageBody m of None \<Rightarrow> False
           | Some body \<Rightarrow>
               if body_present body \<noteq> LPP_MessageBody_PR_c1 then False
               else if c1_present body \<noteq> PR_provideLocationInformation then False
               else if outer_present body \<noteq> criticalExtensions_PR_c1 then False
               else if outer_c1_present body \<noteq> c1_PR_r9 then False
               else True))"

definition is_provide_assistance_data :: "'x message option \<Rightarrow> bool" where
  "is_provide_assistance_data message =
     (case message of None \<Rightarrow> False
      | Some m \<Rightarrow>
          (case lpp_MessageBody m of None \<Rightarrow> False
           | Some body \<Rightarrow>
               if body_present body \<noteq> LPP_MessageBody_PR_c1 then False
               else if c1_present body \<noteq> PR_provideAssistanceData then False
               else if outer_present body \<noteq> criticalExtensions_PR_c1 then False
               else if outer_c1_present body \<noteq> c1_PR_r9 then False
               else True))"

definition is_abort :: "'x message option \<Rightarrow> bool" where
  "is_abort message =
     (case message of None \<Rightarrow> False
      | Some m \<Rightarrow>
          (case lpp_MessageBody m of None \<Rightarrow> False
           | Some body \<Rightarrow>
               if body_present body \<noteq> LPP_MessageBody_PR_c1 then False
               else if c1_present body \<noteq> PR_abort then False
               else if outer_present body \<noteq> criticalExtensions_PR_c1 then False
               else if outer_c1_present body \<noteq> c1_PR_r9 then False
               else True))"

definition is_error :: "'x message option \<Rightarrow> bool" where
  "is_error message =
     (case message of None \<Rightarrow> False
      | Some m \<Rightarrow>
          (case lpp_MessageBody m of None \<Rightarrow> False
           | Some body \<Rightarrow>
               if body_present body \<noteq> LPP_MessageBody_PR_c1 then False
               else if c1_present body \<noteq> PR_error then False
               else if outer_present body \<noteq> Error_PR_error_r9 then False
               else True))"

definition get_provide_assistance_data :: "'x message option \<Rightarrow> 'x message_body option" where
  "get_provide_assistance_data message =
     (case message of None \<Rightarrow> None
      | Some m \<Rightarrow>
          (case lpp_MessageBody m of None \<Rightarrow> None
           | Some body \<Rightarrow>
               if body_present body \<noteq> LPP_MessageBody_PR_c1 then None
               else if c1_present body \<noteq> PR_provideAssistanceData then None
               else if outer_present body \<noteq> criticalExtensions_PR_c1 then None
               else if outer_c1_present body \<noteq> c1_PR_r9 then None
               else Some body))"

definition get_request_location_information :: "'x message option \<Rightarrow> 'x message_body option" where
  "get_request_location_information message =
     (case message of None \<Rightarrow> None
      | Some m \<Rightarrow>
          (case lpp_MessageBody m of None \<Rightarrow> None
           | Some body \<Rightarrow>
               if body_present body \<noteq> LPP_MessageBody_PR_c1 then None
               else if c1_present body \<noteq> PR_requestLocationInformation then None
               else if outer_present body \<noteq> criticalExtensions_PR_c1 then None
               else if outer_c1_present body \<noteq> c1_PR_r9 then None
               else Some body))"

section \<open>Periodic sessions\<close>

datatype PeriodicSessionHandle = PeriodicSessionHandle (ps_id: int) (ps_initiator: Initiator)

definition ps_invalid :: PeriodicSessionHandle where "ps_invalid = PeriodicSessionHandle (-1) TargetDevice"

definition ps_is_valid :: "PeriodicSessionHandle \<Rightarrow> bool" where
  "ps_is_valid h \<longleftrightarrow> ps_id h \<ge> 0 \<and> ps_id h \<le> 255"

definition PeriodicSessionID_r15_locationServer :: int where "PeriodicSessionID_r15_locationServer = 0"

definition get_periodic_session :: "'x message_body \<Rightarrow> PeriodicSessionHandle option" where
  "get_periodic_session inner =
     (case commonIEsProvideAssistanceData inner of None \<Rightarrow> None
      | Some common \<Rightarrow>
          (case ext2 common of None \<Rightarrow> None
           | Some ext \<Rightarrow>
               (case periodicAssistanceData_r15 ext of None \<Rightarrow> None
                | Some psid \<Rightarrow>
                    Some (PeriodicSessionHandle (periodicSessionNumber_r15 psid)
                      (if periodicSessionInitiator_r15 psid = PeriodicSessionID_r15_locationServer
                       then LocationServer else TargetDevice)))))"

section \<open>Requests for location information\<close>

record reporting =
  reporting_amount_unlimited :: bool
  reporting_amount :: int
  reporting_interval :: int  \<comment> \<open>in seconds\<close>

definition amount_of :: "int \<Rightarrow> int option" where
  "amount_of e =
     (if e = 0 then Some 1 else if e = 1 then Some 2 else if e = 2 then Some 4 else if e = 3 then Some 8
      else if e = 4 then Some 16 else if e = 5 then Some 32 else if e = 6 then Some 64
      else if e = 7 then Some 0 else None)"

definition interval_of :: "int \<Rightarrow> int option" where
  "interval_of e =
     (if e = 0 then None else if e = 1 then Some 1 else if e = 2 then Some 2 else if e = 3 then Some 4
      else if e = 4 then Some 8 else if e = 5 then Some 10 else if e = 6 then Some 16
      else if e = 7 then Some 20 else if e = 8 then Some 32 else if e = 9 then Some 64 else None)"

definition reporting_of :: "PeriodicalReportingCriteria \<Rightarrow> reporting option" where
  "reporting_of c =
     (let amount = (case reportingAmount c of None \<Rightarrow> 0 | Some e \<Rightarrow> e)
      in case amount_of amount of None \<Rightarrow> None
      | Some n \<Rightarrow>
          (case interval_of (reportingInterval c) of None \<Rightarrow> None
           | Some i \<Rightarrow>
               Some \<lparr>reporting_amount_unlimited = (amount = 7), reporting_amount = n, reporting_interval = i\<rparr>))"

section \<open>Facts\<close>

lemmas kind_defs = is_request_capabilities_def is_request_location_information_def is_request_assistance_data_def is_provide_capabilities_def is_provide_location_information_def is_provide_assistance_data_def is_abort_def is_error_def

lemma kind_iff:
  assumes "lpp_MessageBody m = Some b"
  shows "is_request_capabilities (Some m) \<longleftrightarrow> c1_present b = 1 \<and> body_present b = 1 \<and> outer_present b = 1 \<and> outer_c1_present b = 1"
    and "is_provide_capabilities (Some m) \<longleftrightarrow> c1_present b = 2 \<and> body_present b = 1 \<and> outer_present b = 1 \<and> outer_c1_present b = 1"
    and "is_request_assistance_data (Some m) \<longleftrightarrow> c1_present b = 3 \<and> body_present b = 1 \<and> outer_present b = 1 \<and> outer_c1_present b = 1"
    and "is_provide_assistance_data (Some m) \<longleftrightarrow> c1_present b = 4 \<and> body_present b = 1 \<and> outer_present b = 1 \<and> outer_c1_present b = 1"
    and "is_request_location_information (Some m) \<longleftrightarrow> c1_present b = 5 \<and> body_present b = 1 \<and> outer_present b = 1 \<and> outer_c1_present b = 1"
    and "is_provide_location_information (Some m) \<longleftrightarrow> c1_present b = 6 \<and> body_present b = 1 \<and> outer_present b = 1 \<and> outer_c1_present b = 1"
    and "is_abort (Some m) \<longleftrightarrow> c1_present b = 7 \<and> body_present b = 1 \<and> outer_present b = 1 \<and> outer_c1_present b = 1"
    and "is_error (Some m) \<longleftrightarrow> c1_present b = 8 \<and> body_present b = 1 \<and> outer_present b = 1"
  unfolding kind_defs PR_defs criticalExtensions_PR_c1_def c1_PR_r9_def Error_PR_error_r9_def using assms by simp_all

lemma get_inner:
  "get_provide_assistance_data m = (if is_provide_assistance_data m then lpp_MessageBody (the m) else None)"
  "get_request_location_information m = (if is_request_location_information m then lpp_MessageBody (the m) else None)"
  by (simp_all add: get_provide_assistance_data_def is_provide_assistance_data_def
      get_request_location_information_def is_request_location_information_def split: option.split)

text \<open>What the server asks for, in milliseconds (0.25, 0.5, 1, 2, 4, 8, 16, 32 and 64 seconds).\<close>

definition requested_interval :: "int \<Rightarrow> int" where
  "requested_interval e = 250 * 2 ^ nat (e - 1)"

text \<open>Reports come later than requested.  For each interval that the server can ask for the client
  takes a longer one, up to four times as long, except for the two longest.\<close>

theorem reporting_interval_too_long:
  assumes "1 \<le> reportingInterval c" and "reportingInterval c \<le> 9"
    and "reportingAmount c = None \<or> (\<exists>e. reportingAmount c = Some e \<and> 0 \<le> e \<and> e \<le> 7)"
  shows "\<exists>r. reporting_of c = Some r \<and>
    requested_interval (reportingInterval c) \<le> 1000 * reporting_interval r \<and>
    1000 * reporting_interval r \<le> 4 * requested_interval (reportingInterval c) \<and>
    (1000 * reporting_interval r = requested_interval (reportingInterval c) \<longleftrightarrow> reportingInterval c \<ge> 8)"
proof -
  have e: "reportingInterval c \<in> {1, 2, 3, 4, 5, 6, 7, 8, 9}" using assms(1,2) by auto
  obtain n where n: "amount_of (case reportingAmount c of None \<Rightarrow> 0 | Some e \<Rightarrow> e) = Some n"
  proof -
    have "e \<in> {0, 1, 2, 3, 4, 5, 6, 7}" if "0 \<le> e" "e \<le> 7" for e :: int using that by auto
    then have "(case reportingAmount c of None \<Rightarrow> 0 | Some e \<Rightarrow> e) \<in> {0, 1, 2, 3, 4, 5, 6, 7}"
      using assms(3) by (auto split: option.split)
    then show ?thesis using that unfolding amount_of_def by (elim insertE) simp_all
  qed
  obtain i where i: "interval_of (reportingInterval c) = Some i"
    "requested_interval (reportingInterval c) \<le> 1000 * i" "1000 * i \<le> 4 * requested_interval (reportingInterval c)"
    "1000 * i = requested_interval (reportingInterval c) \<longleftrightarrow> reportingInterval c \<ge> 8"
    using e that unfolding interval_of_def requested_interval_def by (elim insertE) simp_all
  show ?thesis using i by (simp add: reporting_of_def n Let_def)
qed

theorem reporting_interval_too_long_witness:
  "\<exists>r. reporting_of \<lparr>reportingAmount = None, reportingInterval = 3\<rparr> = Some r \<and> 1000 * reporting_interval r > requested_interval 3"
  using reporting_interval_too_long [of "\<lparr>reportingAmount = None, reportingInterval = 3\<rparr>"] by fastforce

end
