(* ===== verification/Lpp_Client.thy ===== *)
theory Lpp_Client
  imports Lpp_Message Lpp_Transactions
begin

text \<open>
  The LPP client (dependency/lpp/client.cpp): periodic sessions for assistance data
  (periodic_session/handler.cpp, periodic_session/assistance_data.cpp), single requests
  (single_session.cpp) and the delivery of location information
  (location_information_delivery.cpp).  The client is the field \<open>world\<close> of its LPP session, and
  its handlers are the callbacks of the session.  The callbacks of the user are recorded in
  \<open>calls\<close> (the latest last); those that return something are parameters.  The messages that the
  client builds are opaque bodies, time is a number of nanoseconds, and the order in which the code
  goes through an unordered map is an argument.
\<close>

section \<open>State\<close>

type_synonym time_point = int

definition five_seconds :: int where "five_seconds = 5000000000"

record 'd periodic_session =
  ps_handle :: PeriodicSessionHandle
  ps_periodic :: "transaction_handle list"
  ps_requests :: "(transaction_handle \<times> time_point) list"
  ps_bad_initiator :: bool
  ps_never_abort :: bool
  ps_scheduled :: bool
  ps_data :: 'd

record 'd single_session =
  ss_transaction :: transaction_handle
  ss_last_request :: time_point
  ss_never_abort :: bool
  ss_scheduled :: bool
  ss_data :: 'd

record delivery =
  dl_transaction :: transaction_handle
  dl_reporting :: reporting
  dl_scheduled :: bool

datatype 'x user_call =
    OnNonPeriodic PeriodicSessionHandle "'x message"
  | OnStarted PeriodicSessionHandle
  | OnPeriodic PeriodicSessionHandle "'x message"
  | OnEnded PeriodicSessionHandle
  | OnError PeriodicSessionHandle
  | OnSingleMessage transaction_handle "'x message"
  | OnSingleError transaction_handle
  | OnProvideCapabilities

datatype client_deferred = Deallocate PeriodicSessionHandle | RemoveSingle transaction_handle

record ('x, 'd) client =
  cl_scheduled :: bool
  bad_initiator :: bool
  never_abort :: bool
  mRequestTransactions :: "transaction_handle \<rightharpoonup> PeriodicSessionHandle"
  mPeriodicTransactions :: "transaction_handle \<rightharpoonup> PeriodicSessionHandle"
  mSingleSessions :: "transaction_handle \<rightharpoonup> 'd single_session"
  mSessions :: "PeriodicSessionHandle \<rightharpoonup> 'd periodic_session"
  mLocationInformationDeliveries :: "transaction_handle \<rightharpoonup> delivery"
  mNextSessionId :: int
  cl_deferred :: "client_deferred list"
  calls :: "'x user_call list"

definition Client :: "('x, 'd) client" where
  "Client = \<lparr>cl_scheduled = False, bad_initiator = False, never_abort = False,
     mRequestTransactions = Map.empty, mPeriodicTransactions = Map.empty, mSingleSessions = Map.empty,
     mSessions = Map.empty, mLocationInformationDeliveries = Map.empty, mNextSessionId = 1,
     cl_deferred = [], calls = []\<rparr>"

text \<open>
  What the client uses outside: the user's callbacks with a result (\<open>None\<close> is an empty function)
  and the bodies of the messages it builds (\<open>None\<close> for a null message).
\<close>

record ('x, 'd) user =
  on_capabilities :: "(transaction_handle \<Rightarrow> 'x message \<Rightarrow> bool) option"
  has_provide_capabilities :: bool
  on_request_location_information :: "(transaction_handle \<Rightarrow> 'x message \<Rightarrow> bool) option"
  on_provide_location_information_advanced :: "(delivery \<Rightarrow> bool) option"
  on_provide_location_information :: "(delivery \<Rightarrow> 'x message_body option) option"
  capabilities_body :: "'x message_body"
  no_location_body :: "'x message_body"
  abort_body :: "'x message_body"
  request_body :: "'d \<Rightarrow> PeriodicSessionHandle \<Rightarrow> 'x message_body option"

type_synonym ('t, 'x, 'd) state = "('t, ('x, 'd) client) lpp_session"

definition user_called :: "'x user_call \<Rightarrow> ('x, 'd) client \<Rightarrow> ('x, 'd) client" where
  "user_called c w = w\<lparr>calls := calls w @ [c]\<rparr>"

definition update_session ::
  "PeriodicSessionHandle \<Rightarrow> ('d periodic_session \<Rightarrow> 'd periodic_session) \<Rightarrow> ('x, 'd) client \<Rightarrow> ('x, 'd) client" where
  "update_session p f w =
     (case mSessions w p of None \<Rightarrow> w | Some ps \<Rightarrow> w\<lparr>mSessions := (mSessions w)(p \<mapsto> f ps)\<rparr>)"

definition new_message :: "'x message_body \<Rightarrow> 'x message" where
  "new_message body = \<lparr>transactionID = None, endTransaction = False, sequenceNumber = None, lpp_MessageBody = Some body\<rparr>"

section \<open>The tables of the client\<close>

definition find_by_request_transaction_handle :: "('x, 'd) client \<Rightarrow> transaction_handle \<Rightarrow> PeriodicSessionHandle option" where
  "find_by_request_transaction_handle w h =
     (case mRequestTransactions w h of None \<Rightarrow> None
      | Some p \<Rightarrow> if mSessions w p = None then None else Some p)"

definition find_by_periodic_transaction_handle :: "('x, 'd) client \<Rightarrow> transaction_handle \<Rightarrow> PeriodicSessionHandle option" where
  "find_by_periodic_transaction_handle w h =
     (case mPeriodicTransactions w h of None \<Rightarrow> None
      | Some p \<Rightarrow> if mSessions w p = None then None else Some p)"

definition unregister_request ::
  "PeriodicSessionHandle \<Rightarrow> transaction_handle \<Rightarrow> ('x, 'd) client \<Rightarrow> ('x, 'd) client" where
  "unregister_request p h w =
     (update_session p (\<lambda>ps. ps\<lparr>ps_requests := filter (\<lambda>r. fst r \<noteq> h) (ps_requests ps)\<rparr>) w)
       \<lparr>mRequestTransactions := (mRequestTransactions w)(h := None)\<rparr>"

definition register_request ::
  "PeriodicSessionHandle \<Rightarrow> transaction_handle \<Rightarrow> time_point \<Rightarrow> ('x, 'd) client \<Rightarrow> ('x, 'd) client" where
  "register_request p h now w =
     (update_session p (\<lambda>ps. ps\<lparr>ps_requests := filter (\<lambda>r. fst r \<noteq> h) (ps_requests ps) @ [(h, now)]\<rparr>) w)
       \<lparr>mRequestTransactions := (mRequestTransactions w)(h \<mapsto> p)\<rparr>"

definition handle_periodic_ended ::
  "PeriodicSessionHandle \<Rightarrow> transaction_handle \<Rightarrow> ('x, 'd) client \<Rightarrow> ('x, 'd) client" where
  "handle_periodic_ended p h w =
     user_called (OnEnded p)
       ((update_session p (\<lambda>ps. ps\<lparr>ps_periodic := remove1 h (ps_periodic ps)\<rparr>) w)
          \<lparr>mPeriodicTransactions := (mPeriodicTransactions w)(h := None)\<rparr>)"

definition periodic_end ::
  "PeriodicSessionHandle \<Rightarrow> transaction_handle \<Rightarrow> ('x, 'd) client \<Rightarrow> ('x, 'd) client" where
  "periodic_end p h w =
     (case mSessions w p of None \<Rightarrow> w
      | Some ps \<Rightarrow>
          if h \<in> fst ` set (ps_requests ps) then unregister_request p h w
          else if h \<in> set (ps_periodic ps) then handle_periodic_ended p h w
          else w)"

text \<open>Erasing a single session destroys it, which only stops its timer.\<close>

definition remove_single_session :: "transaction_handle \<Rightarrow> ('x, 'd) client \<Rightarrow> bool \<times> ('x, 'd) client" where
  "remove_single_session h w =
     (if \<not> th_valid h then (False, w) else (True, w\<lparr>mSingleSessions := (mSingleSessions w)(h := None)\<rparr>))"

definition process_end_transaction :: "transaction_handle \<Rightarrow> ('x, 'd) client \<Rightarrow> ('x, 'd) client" where
  "process_end_transaction h w =
     (let w = (case find_by_request_transaction_handle w h of None \<Rightarrow> w | Some p \<Rightarrow> periodic_end p h w);
          w = (case mSingleSessions w h of None \<Rightarrow> w | Some _ \<Rightarrow> snd (remove_single_session h w));
          w = (case find_by_periodic_transaction_handle w h of None \<Rightarrow> w | Some p \<Rightarrow> periodic_end p h w)
      in w\<lparr>mLocationInformationDeliveries := (mLocationInformationDeliveries w)(h := None)\<rparr>)"

text \<open>The callbacks of the session that sending can reach.\<close>

definition sending :: "('t, 'x message_body, ('x, 'd) client) handlers" where
  "sending =
     \<lparr>on_begin_transaction = Some (\<lambda>h s. s), on_server_end_transaction = None,
      on_end_transaction = Some (\<lambda>h s. s\<lparr>world := process_end_transaction h (world s)\<rparr>),
      on_message = None\<rparr>"

definition modify :: "(('x, 'd) client \<Rightarrow> ('x, 'd) client) \<Rightarrow> ('t, 'x, 'd) state \<Rightarrow> ('t, 'x, 'd) state" where
  "modify f s = s\<lparr>world := f (world s)\<rparr>"

section \<open>Periodic sessions\<close>

function free_session_id :: "(PeriodicSessionHandle \<rightharpoonup> 'p) \<Rightarrow> int \<Rightarrow> int \<Rightarrow> int option" where
  "free_session_id sessions start i =
     (if i < 256 then
        (let n = (start + i) mod 256
         in if sessions (PeriodicSessionHandle n TargetDevice) = None then Some n
            else free_session_id sessions start (i + 1))
      else None)"
  by pat_completeness auto

termination by (relation "measure (\<lambda>(_, _, i). nat (256 - i))") auto

declare free_session_id.simps [simp del]

definition allocate_periodic_session_handle ::
  "('x, 'd) client \<Rightarrow> PeriodicSessionHandle option \<times> ('x, 'd) client" where
  "allocate_periodic_session_handle w =
     (case free_session_id (mSessions w) (mNextSessionId w) 0 of
        None \<Rightarrow> (None, w)
      | Some n \<Rightarrow> (Some (PeriodicSessionHandle n TargetDevice), w\<lparr>mNextSessionId := n\<rparr>))"

text \<open>\<open>None\<close>: an assertion of the transport failed.  The result is the transaction of the request.\<close>

definition send_new_request ::
  "('t, 'c, 'x message_body) environment \<Rightarrow> 'x message_body \<Rightarrow> ('t, 'x, 'd) state \<Rightarrow>
   (transaction_handle option \<times> ('t, 'x, 'd) state) option" where
  "send_new_request env body s =
     (let (h, s) = create_transaction sending True s
      in if \<not> th_valid h then Some (None, s)
         else map_option (\<lambda>s. (Some h, s)) (handle_send env sending h (new_message body) s))"

definition PeriodicSession :: "PeriodicSessionHandle \<Rightarrow> 'd \<Rightarrow> ('x, 'd) client \<Rightarrow> 'd periodic_session" where
  "PeriodicSession p data w =
     \<lparr>ps_handle = p, ps_periodic = [], ps_requests = [], ps_bad_initiator = bad_initiator w,
      ps_never_abort = never_abort w, ps_scheduled = False, ps_data = data\<rparr>"

definition request_periodic_assistance_data ::
  "('t, 'c, 'x message_body) environment \<Rightarrow> ('x, 'd) user \<Rightarrow> time_point \<Rightarrow> 'd \<Rightarrow> ('t, 'x, 'd) state \<Rightarrow>
   (PeriodicSessionHandle \<times> ('t, 'x, 'd) state) option" where
  "request_periodic_assistance_data env u now data s =
     (case allocate_periodic_session_handle (world s) of
        (None, w) \<Rightarrow> Some (ps_invalid, s\<lparr>world := w\<rparr>)
      | (Some p, w) \<Rightarrow>
          let s = s\<lparr>world := w\<rparr>; ps = PeriodicSession p data w
          in case request_body u data p of None \<Rightarrow> Some (ps_invalid, s)
          | Some body \<Rightarrow>
              (case send_new_request env body s of
                 None \<Rightarrow> None
               | Some (None, s) \<Rightarrow> Some (ps_invalid, s)
               | Some (Some h, s) \<Rightarrow>
                   let ps = ps\<lparr>ps_requests := [(h, now)]\<rparr>
                   in Some (p, modify (\<lambda>w. w\<lparr>mRequestTransactions := (mRequestTransactions w)(h \<mapsto> p),
                        mSessions := (mSessions w)(p \<mapsto> ps)\<rparr>) s)))"

text \<open>\<open>data\<close>: the session's data with the new cell.\<close>

definition update_assistance_data ::
  "('t, 'c, 'x message_body) environment \<Rightarrow> ('x, 'd) user \<Rightarrow> time_point \<Rightarrow> PeriodicSessionHandle \<Rightarrow> ('d \<Rightarrow> 'd) \<Rightarrow>
   ('t, 'x, 'd) state \<Rightarrow> (bool \<times> ('t, 'x, 'd) state) option" where
  "update_assistance_data env u now p new_cell s =
     (case mSessions (world s) p of None \<Rightarrow> Some (False, s)
      | Some ps \<Rightarrow>
          (case request_body u (new_cell (ps_data ps)) (ps_handle ps) of None \<Rightarrow> Some (False, s)
           | Some body \<Rightarrow>
               (case send_new_request env body s of
                  None \<Rightarrow> None
                | Some (None, s) \<Rightarrow> Some (False, s)
                | Some (Some h, s) \<Rightarrow> Some (True, modify (register_request p h now) s))))"

definition is_periodic_session_valid :: "('x, 'd) client \<Rightarrow> PeriodicSessionHandle \<Rightarrow> bool" where
  "is_periodic_session_valid w p \<longleftrightarrow>
     (if \<not> ps_is_valid p then False
      else case mSessions w p of None \<Rightarrow> False | Some ps \<Rightarrow> ps_is_valid (ps_handle ps))"

text \<open>A received message.\<close>

definition handle_periodic_begin ::
  "PeriodicSessionHandle \<Rightarrow> transaction_handle \<Rightarrow> 'x message \<Rightarrow> ('x, 'd) client \<Rightarrow> ('x, 'd) client" where
  "handle_periodic_begin p h m w =
     user_called (OnPeriodic p m) (user_called (OnStarted p)
       ((update_session p (\<lambda>ps. ps\<lparr>ps_periodic := ps_periodic ps @ [h]\<rparr>) w)
          \<lparr>mPeriodicTransactions := (mPeriodicTransactions w)(h \<mapsto> p)\<rparr>))"

fun corrected_transaction :: "transaction_handle \<Rightarrow> (transaction_handle \<times> time_point) list \<Rightarrow> transaction_handle option" where
  "corrected_transaction h [] = None"
| "corrected_transaction h ((r, t) # rs) =
     (if th_initiator r = TargetDevice \<and> th_id r = th_id h then Some r else corrected_transaction h rs)"

definition periodic_message ::
  "PeriodicSessionHandle \<Rightarrow> transaction_handle \<Rightarrow> 'x message \<Rightarrow> ('x, 'd) client \<Rightarrow> ('x, 'd) client" where
  "periodic_message p h m w =
     (case mSessions w p of None \<Rightarrow> w
      | Some ps \<Rightarrow>
          (case (if ps_bad_initiator ps \<and> th_initiator h = LocationServer
                 then corrected_transaction h (ps_requests ps) else None) of
             Some r \<Rightarrow> periodic_end p r (user_called (OnNonPeriodic p m) w)
           | None \<Rightarrow>
               if h \<in> fst ` set (ps_requests ps) then user_called (OnNonPeriodic p m) w
               else if th_initiator h = TargetDevice then w
               else if h \<in> set (ps_periodic ps) then user_called (OnPeriodic p m) w
               else handle_periodic_begin p h m w))"

text \<open>Aborting transactions, one after the other; \<open>done\<close> is what follows each.\<close>

fun abort_all ::
  "('t, 'c, 'x message_body) environment \<Rightarrow> 'x message_body \<Rightarrow>
   (transaction_handle \<Rightarrow> ('x, 'd) client \<Rightarrow> ('x, 'd) client) \<Rightarrow> transaction_handle list \<Rightarrow>
   ('t, 'x, 'd) state \<Rightarrow> ('t, 'x, 'd) state option" where
  "abort_all env body after [] s = Some s"
| "abort_all env body after (h # hs) s =
     (case handle_send_with_end env sending h (create_abort body) s of None \<Rightarrow> None
      | Some s \<Rightarrow> abort_all env body after hs (modify (after h) s))"

definition want_to_be_destroyed :: "client_deferred \<Rightarrow> ('x, 'd) client \<Rightarrow> ('x, 'd) client" where
  "want_to_be_destroyed d w = (if cl_scheduled w then w\<lparr>cl_deferred := cl_deferred w @ [d]\<rparr> else w)"

definition stale_request :: "PeriodicSessionHandle \<Rightarrow> ('x, 'd) client \<Rightarrow> ('x, 'd) client" where
  "stale_request p w = want_to_be_destroyed (Deallocate p) (user_called (OnError p) w)"

text \<open>The timer of a periodic session.\<close>

definition check_active_requests ::
  "('t, 'c, 'x message_body) environment \<Rightarrow> ('x, 'd) user \<Rightarrow> time_point \<Rightarrow> PeriodicSessionHandle \<Rightarrow>
   ('t, 'x, 'd) state \<Rightarrow> ('t, 'x, 'd) state option" where
  "check_active_requests env u now p s =
     (case mSessions (world s) p of None \<Rightarrow> Some s
      | Some ps \<Rightarrow>
          let stale = filter (\<lambda>r. now - snd r > five_seconds) (ps_requests ps);
              fresh = filter (\<lambda>r. \<not> now - snd r > five_seconds) (ps_requests ps);
              s = modify (update_session p (\<lambda>ps. ps\<lparr>ps_requests := fresh\<rparr>)) s;
              s = modify (fold (\<lambda>r. stale_request p) stale) s
          in if ps_never_abort ps then Some s
             else abort_all env (abort_body u) (unregister_request p) (map fst stale) s)"

text \<open>
  The destructor of a session that is no longer in the table.  It runs in the destructor of the base
  class, where the virtual \<^verbatim>\<open>periodic_ended\<close> is the empty one of the base class.
\<close>

definition handle_periodic_ended_base :: "transaction_handle \<Rightarrow> ('x, 'd) client \<Rightarrow> ('x, 'd) client" where
  "handle_periodic_ended_base h w = w\<lparr>mPeriodicTransactions := (mPeriodicTransactions w)(h := None)\<rparr>"

definition destroy_session ::
  "('t, 'c, 'x message_body) environment \<Rightarrow> ('x, 'd) user \<Rightarrow> 'd periodic_session \<Rightarrow>
   ('t, 'x, 'd) state \<Rightarrow> ('t, 'x, 'd) state option" where
  "destroy_session env u ps s =
     (if ps_never_abort ps then Some s
      else Option.bind (abort_all env (abort_body u) (unregister_request (ps_handle ps)) (map fst (ps_requests ps)) s)
        (abort_all env (abort_body u) handle_periodic_ended_base (ps_periodic ps)))"

definition deallocate_periodic_session_handle ::
  "('t, 'c, 'x message_body) environment \<Rightarrow> ('x, 'd) user \<Rightarrow> PeriodicSessionHandle \<Rightarrow>
   ('t, 'x, 'd) state \<Rightarrow> ('t, 'x, 'd) state option" where
  "deallocate_periodic_session_handle env u p s =
     (if \<not> ps_is_valid p then Some s
      else case mSessions (world s) p of None \<Rightarrow> Some s
      | Some ps \<Rightarrow> destroy_session env u ps (modify (\<lambda>w. w\<lparr>mSessions := (mSessions w)(p := None)\<rparr>) s))"

section \<open>Single requests\<close>

definition SingleSession :: "transaction_handle \<Rightarrow> time_point \<Rightarrow> 'd \<Rightarrow> ('x, 'd) client \<Rightarrow> 'd single_session" where
  "SingleSession h now data w =
     \<lparr>ss_transaction = h, ss_last_request = now, ss_never_abort = never_abort w, ss_scheduled = False, ss_data = data\<rparr>"

text \<open>\<open>None\<close>: an assertion failed.\<close>

definition add_single_session :: "'d single_session \<Rightarrow> ('x, 'd) client \<Rightarrow> (bool \<times> ('x, 'd) client) option" where
  "add_single_session ss w =
     (if \<not> th_valid (ss_transaction ss) then None
      else Some (True, w\<lparr>mSingleSessions := (mSingleSessions w)(ss_transaction ss \<mapsto> ss)\<rparr>))"

definition request_single_assistance_data ::
  "('t, 'c, 'x message_body) environment \<Rightarrow> ('x, 'd) user \<Rightarrow> time_point \<Rightarrow> 'd \<Rightarrow> ('t, 'x, 'd) state \<Rightarrow>
   (bool \<times> ('t, 'x, 'd) state) option" where
  "request_single_assistance_data env u now data s =
     (case request_body u data ps_invalid of None \<Rightarrow> Some (False, s)
      | Some body \<Rightarrow>
          let (h, s) = create_transaction sending True s
          in if \<not> th_valid h then Some (False, s)
             else case handle_send env sending h (new_message body) s of None \<Rightarrow> None
             | Some s \<Rightarrow> map_option (\<lambda>(ok, w). (ok, s\<lparr>world := w\<rparr>))
                 (add_single_session (SingleSession h now data (world s)) (world s)))"

definition single_message :: "'d single_session \<Rightarrow> transaction_handle \<Rightarrow> 'x message \<Rightarrow> ('x, 'd) client \<Rightarrow> ('x, 'd) client" where
  "single_message ss h m w = (if h \<noteq> ss_transaction ss then w else user_called (OnSingleMessage h m) w)"

definition update_single ::
  "transaction_handle \<Rightarrow> ('d single_session \<Rightarrow> 'd single_session) \<Rightarrow> ('x, 'd) client \<Rightarrow> ('x, 'd) client" where
  "update_single h f w =
     (case mSingleSessions w h of None \<Rightarrow> w | Some ss \<Rightarrow> w\<lparr>mSingleSessions := (mSingleSessions w)(h \<mapsto> f ss)\<rparr>)"

definition single_try_destroy :: "transaction_handle \<Rightarrow> 'd single_session \<Rightarrow> ('x, 'd) client \<Rightarrow> ('x, 'd) client" where
  "single_try_destroy k ss w =
     (if th_valid (ss_transaction ss)
      then update_single k (\<lambda>ss. ss\<lparr>ss_transaction := invalid_handle\<rparr>)
             (want_to_be_destroyed (RemoveSingle (ss_transaction ss)) w)
      else w)"

text \<open>The timer of the single session in the table under \<open>k\<close>.\<close>

definition single_check_active_requests ::
  "('t, 'c, 'x message_body) environment \<Rightarrow> ('x, 'd) user \<Rightarrow> time_point \<Rightarrow> transaction_handle \<Rightarrow>
   ('t, 'x, 'd) state \<Rightarrow> ('t, 'x, 'd) state option" where
  "single_check_active_requests env u now k s =
     (case mSingleSessions (world s) k of None \<Rightarrow> Some s
      | Some ss \<Rightarrow>
          if now - ss_last_request ss > five_seconds then
            let s = modify (user_called (OnSingleError (ss_transaction ss))) s;
                s = modify (single_try_destroy k ss) s
            in if ss_never_abort ss then Some s
               else case mSingleSessions (world s) k of None \<Rightarrow> Some s
               | Some ss \<Rightarrow> handle_send_with_end env sending (ss_transaction ss) (create_abort (abort_body u)) s
          else Some s)"

text \<open>What has been deferred.\<close>

definition run_client_deferred ::
  "('t, 'c, 'x message_body) environment \<Rightarrow> ('x, 'd) user \<Rightarrow> client_deferred \<Rightarrow>
   ('t, 'x, 'd) state \<Rightarrow> ('t, 'x, 'd) state option" where
  "run_client_deferred env u d s =
     (case d of Deallocate p \<Rightarrow> deallocate_periodic_session_handle env u p s
      | RemoveSingle h \<Rightarrow> Some (modify (\<lambda>w. snd (remove_single_session h w)) s))"

section \<open>Location information\<close>

definition deliver_location ::
  "('t, 'c, 'x message_body) environment \<Rightarrow> ('x, 'd) user \<Rightarrow> delivery \<Rightarrow> ('t, 'x, 'd) state \<Rightarrow>
   ('t, 'x, 'd) state option" where
  "deliver_location env u d s =
     (if (case on_provide_location_information_advanced u of None \<Rightarrow> False | Some f \<Rightarrow> f d) then Some s
      else
        case (case on_provide_location_information u of None \<Rightarrow> None | Some f \<Rightarrow> f d) of
          Some body \<Rightarrow> handle_send env sending (dl_transaction d) (new_message body) s
        | None \<Rightarrow> handle_send env sending (dl_transaction d) (new_message (no_location_body u)) s)"

definition start_periodic_location_information ::
  "('t, 'c, 'x message_body) environment \<Rightarrow> ('x, 'd) user \<Rightarrow> transaction_handle \<Rightarrow> reporting \<Rightarrow>
   ('t, 'x, 'd) state \<Rightarrow> (bool \<times> ('t, 'x, 'd) state) option" where
  "start_periodic_location_information env u h r s =
     (if mLocationInformationDeliveries (world s) h \<noteq> None then Some (False, s)
      else
        let d = \<lparr>dl_transaction = h, dl_reporting = r, dl_scheduled = cl_scheduled (world s)\<rparr>
        in map_option (\<lambda>s. (True, modify (\<lambda>w. w\<lparr>mLocationInformationDeliveries :=
               (mLocationInformationDeliveries w)(h \<mapsto> d)\<rparr>) s))
             (deliver_location env u d s))"

definition start_unsolicited_location_information ::
  "('t, 'c, 'x message_body) environment \<Rightarrow> ('x, 'd) user \<Rightarrow> reporting \<Rightarrow> ('t, 'x, 'd) state \<Rightarrow>
   (transaction_handle \<times> ('t, 'x, 'd) state) option" where
  "start_unsolicited_location_information env u r s =
     (let (h, s) = create_transaction sending False s
      in map_option (\<lambda>(ok, s). (h, s)) (start_periodic_location_information env u h r s))"

text \<open>The timer of a delivery.\<close>

definition delivery_tick ::
  "('t, 'c, 'x message_body) environment \<Rightarrow> ('x, 'd) user \<Rightarrow> transaction_handle \<Rightarrow>
   ('t, 'x, 'd) state \<Rightarrow> ('t, 'x, 'd) state option" where
  "delivery_tick env u h s =
     (case mLocationInformationDeliveries (world s) h of None \<Rightarrow> Some s
      | Some d \<Rightarrow> if dl_scheduled d then deliver_location env u d s else Some s)"

section \<open>Received messages\<close>

definition process_request_capabilities ::
  "('t, 'c, 'x message_body) environment \<Rightarrow> ('x, 'd) user \<Rightarrow> transaction_handle \<Rightarrow> 'x message \<Rightarrow>
   ('t, 'x, 'd) state \<Rightarrow> ('t, 'x, 'd) state option" where
  "process_request_capabilities env u h m s =
     (let handled = (case on_capabilities u of None \<Rightarrow> False | Some f \<Rightarrow> f h m)
      in map_option (\<lambda>s. if has_provide_capabilities u then modify (user_called OnProvideCapabilities) s else s)
           (if \<not> handled then send_with_end env sending h (new_message (capabilities_body u)) s else Some s))"

definition process_request_location_information ::
  "('t, 'c, 'x message_body) environment \<Rightarrow> ('x, 'd) user \<Rightarrow> transaction_handle \<Rightarrow> 'x message \<Rightarrow>
   ('t, 'x, 'd) state \<Rightarrow> ('t, 'x, 'd) state option" where
  "process_request_location_information env u h m s =
     (if mLocationInformationDeliveries (world s) h \<noteq> None then Some s
      else if (case on_request_location_information u of None \<Rightarrow> False | Some f \<Rightarrow> f h m) then Some s
      else case get_request_location_information (Some m) of None \<Rightarrow> Some s
      | Some inner \<Rightarrow>
          (case commonIEsRequestLocationInformation inner of None \<Rightarrow> Some s
           | Some common \<Rightarrow>
               (case periodicalReporting common of None \<Rightarrow> Some s
                | Some criteria \<Rightarrow>
                    (case reporting_of criteria of None \<Rightarrow> Some s
                     | Some r \<Rightarrow> map_option snd (start_periodic_location_information env u h r s)))))"

definition process_provide_assistance_data ::
  "transaction_handle \<Rightarrow> 'x message \<Rightarrow> ('x, 'd) client \<Rightarrow> ('x, 'd) client" where
  "process_provide_assistance_data h m w =
     (case get_provide_assistance_data (Some m) of None \<Rightarrow> w
      | Some inner \<Rightarrow>
          (case find_by_request_transaction_handle w h of
             Some p \<Rightarrow> periodic_message p h m w
           | None \<Rightarrow>
               (case mSingleSessions w h of
                  Some ss \<Rightarrow> single_message ss h m w
                | None \<Rightarrow>
                    (case get_periodic_session inner of None \<Rightarrow> w
                     | Some p \<Rightarrow> periodic_message p h m w))))"

definition process_message ::
  "('t, 'c, 'x message_body) environment \<Rightarrow> ('x, 'd) user \<Rightarrow> transaction_handle \<Rightarrow> 'x message \<Rightarrow>
   ('t, 'x, 'd) state \<Rightarrow> ('t, 'x, 'd) state option" where
  "process_message env u h m s =
     (if is_request_capabilities (Some m) then process_request_capabilities env u h m s
      else if is_request_assistance_data (Some m) then Some s
      else if is_request_location_information (Some m) then process_request_location_information env u h m s
      else if is_provide_capabilities (Some m) then Some s
      else if is_provide_assistance_data (Some m) then Some (modify (process_provide_assistance_data h m) s)
      else Some s)"

text \<open>The callbacks that the client installs in its session; \<open>process_begin_transaction\<close> does nothing.\<close>

definition client_handlers ::
  "('t, 'c, 'x message_body) environment \<Rightarrow> ('x, 'd) user \<Rightarrow> ('t, 'x message_body, ('x, 'd) client) handlers" where
  "client_handlers env u = sending\<lparr>on_message := Some (process_message env u)\<rparr>"

section \<open>Scheduling\<close>

text \<open>\<open>ok\<close>: the timers that could be registered.  The connection itself is in \<open>Lpp_Task\<close>.\<close>

definition schedule_sessions ::
  "(PeriodicSessionHandle \<Rightarrow> bool) \<Rightarrow> (transaction_handle \<Rightarrow> bool) \<Rightarrow> ('x, 'd) client \<Rightarrow> ('x, 'd) client option" where
  "schedule_sessions ok ok' w =
     (if cl_scheduled w then None
      else Some (w\<lparr>mSessions := \<lambda>p. map_option (\<lambda>ps. ps\<lparr>ps_scheduled := ok p\<rparr>) (mSessions w p),
             mSingleSessions := \<lambda>h. map_option (\<lambda>ss. ss\<lparr>ss_scheduled := ok' h\<rparr>) (mSingleSessions w h),
             cl_scheduled := True\<rparr>))"

text \<open>\<open>order\<close>: the order of the table of sessions; \<^verbatim>\<open>mSession.cancel()\<close> drops the connection.\<close>

fun destroy_sessions ::
  "('t, 'c, 'x message_body) environment \<Rightarrow> ('x, 'd) user \<Rightarrow> PeriodicSessionHandle list \<Rightarrow>
   ('t, 'x, 'd) state \<Rightarrow> ('t, 'x, 'd) state option" where
  "destroy_sessions env u [] s = Some s"
| "destroy_sessions env u (p # ps) s =
     (case mSessions (world s) p of None \<Rightarrow> destroy_sessions env u ps s
      | Some session \<Rightarrow>
          (case destroy_session env u session (modify (\<lambda>w. w\<lparr>mSessions := (mSessions w)(p := None)\<rparr>) s) of
             None \<Rightarrow> None | Some s \<Rightarrow> destroy_sessions env u ps s))"

definition cancel_sessions ::
  "('t, 'c, 'x message_body) environment \<Rightarrow> ('x, 'd) user \<Rightarrow> PeriodicSessionHandle list \<Rightarrow>
   ('t, 'x, 'd) state \<Rightarrow> ('t, 'x, 'd) state option" where
  "cancel_sessions env u order s =
     (if \<not> cl_scheduled (world s) then None
      else
        let s = s\<lparr>lpp_state := EXIT, supl := None\<rparr>;
            s = modify (\<lambda>w. w\<lparr>mSessions := \<lambda>p. map_option (\<lambda>ps. ps\<lparr>ps_scheduled := False\<rparr>) (mSessions w p),
                  cl_scheduled := False\<rparr>) s
        in map_option (modify (\<lambda>w. w\<lparr>mRequestTransactions := Map.empty, mPeriodicTransactions := Map.empty,
               mSingleSessions := Map.empty, mLocationInformationDeliveries := Map.empty, mNextSessionId := 1\<rparr>))
             (destroy_sessions env u order s))"

end
