(* ===== verification/Lpp_Client_Tables.thy ===== *)
theory Lpp_Client_Tables
  imports Lpp_Client
begin

text \<open>
  The tables of the LPP client agree with its sessions and with the transactions of the LPP session,
  and the user is told of the begin and of the end of each periodic transaction.
\<close>

section \<open>What the session keeps of its user's state\<close>

text \<open>
  \<open>ok\<close> is a property of the live transactions and of the state of the callbacks.  The callback for an
  ended transaction must restore it for the transactions that are left, the one for messages (those
  that are \<open>proper\<close>) must keep it; then all operations of the session keep it.
\<close>

abbreviation live :: "('t, 'w) lpp_session \<Rightarrow> transaction_handle set" where
  "live s \<equiv> dom (mTransactions s)"

locale session_user =
  fixes hs :: "('t, 'b, 'w) handlers"
    and ended :: "transaction_handle \<Rightarrow> 'w \<Rightarrow> 'w"
    and ok :: "transaction_handle set \<Rightarrow> 'w \<Rightarrow> bool"
    and proper :: "transaction_handle \<Rightarrow> 'b lpp_message \<Rightarrow> 'w \<Rightarrow> bool"
  assumes begin_law: "call (on_begin_transaction hs) h s = s"
    and server_end_law: "call (on_server_end_transaction hs) h s = s"
    and end_law: "call (on_end_transaction hs) h s = s\<lparr>world := ended h (world s)\<rparr>"
    and ok_ended: "ok l w \<Longrightarrow> ok (l - {h}) (ended h w)"
    and ok_more: "ok l w \<Longrightarrow> l \<subseteq> l' \<Longrightarrow> ok l' w"
    and ok_message: "on_message hs = Some f \<Longrightarrow> f h m s = Some s' \<Longrightarrow> ok (live s) (world s) \<Longrightarrow>
      h \<in> live s \<Longrightarrow> proper h m (world s) \<Longrightarrow> \<not> mHackServerInitiatedPush s \<Longrightarrow>
      ok (live s') (world s') \<and> \<not> mHackServerInitiatedPush s'"
begin

definition good :: "('t, 'w) lpp_session \<Rightarrow> bool" where
  "good s \<longleftrightarrow> ok (live s) (world s) \<and> \<not> mHackServerInitiatedPush s"

lemma good_same:
  "good s \<Longrightarrow> live s \<subseteq> live s' \<Longrightarrow> world s' = world s \<Longrightarrow>
    mHackServerInitiatedPush s' = mHackServerInitiatedPush s \<Longrightarrow> good s'"
  using ok_more by (auto simp: good_def)

lemma good_remove: "good s \<Longrightarrow> good (snd (remove_transaction hs h s))"
  using ok_ended [of "live s" "world s" h]
  by (auto simp: remove_transaction_def good_def end_law Let_def split: option.splits)

lemma good_client_end: "good s \<Longrightarrow> good (client_end_transaction hs h s)"
  unfolding client_end_transaction_def
  by (auto split: option.split intro!: good_remove elim: good_same)

lemma good_server_end: "good s \<Longrightarrow> good (server_end_transaction hs h s)"
  unfolding server_end_transaction_def Let_def server_end_law
  by (auto split: option.split intro!: good_remove elim: good_same)

lemma good_add: "good s \<Longrightarrow> good (snd (add_transaction hs h sse s))"
  by (auto simp: add_transaction_eq begin_law elim: good_same)

lemma good_create: "good s \<Longrightarrow> good (snd (create_transaction hs sse s))"
  by (auto simp: create_transaction_eq split: option.split intro!: good_add elim: good_same)

lemma good_connection: "only_connection s s' \<Longrightarrow> good s \<Longrightarrow> good s'"
  by (auto simp: only_connection_def same_tables_def elim: good_same)

lemma good_send:
  assumes "good s" and "send env hs h message s = Some s'"
  shows "good s'"
  using assms(2)
proof (cases rule: send_cases_all)
  case 1
  then show ?thesis using assms(1) good_connection by blast
next
  case (2 d t)
  then have "good t" "mTransactions t h = Some d"
    using assms(1) good_connection by (auto simp: only_connection_def same_tables_def)
  then show ?thesis
    using 2(3) by (auto simp: after_send_def intro!: good_client_end elim: good_same)
qed

lemma good_send_with_end:
  assumes "good s" and "send_with_end env hs h message s = Some s'"
  shows "good s'"
proof (cases "mTransactions s h")
  case (Some d)
  then have "good (s\<lparr>mTransactions := (mTransactions s)(h \<mapsto> d\<lparr>client_should_send_end := True\<rparr>)\<rparr>)"
    using assms(1) by (auto elim: good_same)
  then show ?thesis using good_send assms(2) Some by (simp add: send_with_end_def find_transaction_def)
qed (use assms in \<open>simp add: send_with_end_def find_transaction_def\<close>)

lemma good_handle_send:
  "good s \<Longrightarrow> handle_send env hs h message s = Some s' \<Longrightarrow> good s'"
  "good s \<Longrightarrow> handle_send_with_end env hs h message s = Some s' \<Longrightarrow> good s'"
  by (auto simp: handle_send_def handle_send_with_end_def split: if_splits
      intro: good_send good_send_with_end)

lemma good_deliver:
  assumes "good s" and "td_handle d \<in> live s" and "proper (td_handle d) m (world s)" and "deliver hs d m s = Some s'"
  shows "good s'"
proof -
  obtain t where t: "call_message hs (td_handle d) m s = Some t"
    "s' = (if endTransaction m then server_end_transaction hs (td_handle d) t else t)"
    using assms(4) by (auto simp: deliver_def Let_def)
  have "good t"
    using t(1) ok_message [of _ "td_handle d" m s t] assms(1-3)
    by (auto simp: call_message_def good_def split: option.splits)
  then show ?thesis using t(2) good_server_end by simp
qed

lemma good_payload:
  assumes "good s" and "tx_ok s" and "process_lpp_payload env hs data s = Some s'"
    and "\<And>m h. decode_lpp_message (env_lpp env) data = Some m \<Longrightarrow> proper h m (world s)"
  shows "good s'"
proof -
  have found: "td_handle d \<in> live t" if "find_by_id t tid = Some d" "tx_ok t" for d t tid
    using that by (fastforce simp: find_by_id_def tx_ok_def Let_def split: option.splits)
  show ?thesis
  proof (cases "supl s = None \<or> decode_lpp_message (env_lpp env) data = None")
    case True
    then show ?thesis using assms(1,3) by (auto simp: process_lpp_payload_def split: if_splits)
  next
    case False
    then obtain m where m: "decode_lpp_message (env_lpp env) data = Some m" "supl s \<noteq> None" by auto
    have proper: "proper h m (world s)" for h using assms(4) m by simp
    show ?thesis
    proof (cases "transactionID m = None \<or> lpp_MessageBody m = None")
      case True
      then show ?thesis using assms(1,3) m by (auto simp: process_lpp_payload_def split: option.splits)
    next
      case False
      then obtain tid where tid: "transactionID m = Some tid" "lpp_MessageBody m \<noteq> None" by auto
      show ?thesis
      proof (cases "find_by_id s tid")
        case (Some d)
        then show ?thesis
          using good_deliver [OF assms(1) found [OF Some assms(2)] proper] assms(3) m tid
          by (simp add: process_lpp_payload_def)
      next
        case None
        let ?h = "TransactionHandle True (snd tid) (mGenerationId s) LocationServer"
        let ?t = "snd (add_transaction hs ?h True (s\<lparr>mGenerationId := mGenerationId s + 1\<rparr>))"
        have "good (s\<lparr>mGenerationId := mGenerationId s + 1\<rparr>)" using assms(1) by (auto elim: good_same)
        then have "good ?t" by (rule good_add)
        moreover have "world ?t = world s" by (simp add: add_transaction_eq begin_law)
        ultimately have t: "good ?t" "world ?t = world s" by simp_all
        have "tx_ok ?t"
        proof -
          let ?hs = "\<lparr>on_begin_transaction = on_begin_transaction hs, on_server_end_transaction = None,
            on_end_transaction = None, on_message = None\<rparr>"
          have "polite ?hs" using begin_law by (auto simp: polite_def call_def split: option.splits)
          from follows_add_next [OF this assms(2), of "snd tid" LocationServer True]
          have "follows s ?t" unfolding add_transaction_eq by (simp only: handlers.simps)
          then show ?thesis using assms(2) unfolding follows_def by blast
        qed
        show ?thesis
        proof (cases "fst tid = Initiator_targetDevice \<or> find_by_id ?t tid = None")
          case True
          then show ?thesis using assms(1,3) m tid None t
            by (auto simp: process_lpp_payload_def good_def Let_def split: if_splits)
        next
          case False
          then obtain d where d: "find_by_id ?t tid = Some d" by auto
          then have "deliver hs d m ?t = Some s'"
            using assms(3) m tid None False by (simp add: process_lpp_payload_def Let_def)
          moreover have "proper (td_handle d) m (world ?t)" unfolding t(2) by (rule proper)
          ultimately show ?thesis by (intro good_deliver [OF t(1) found [OF d \<open>tx_ok ?t\<close>]])
        qed
      qed
    qed
  qed
qed

end

section \<open>What the tables of the client say\<close>

definition session_ok :: "transaction_handle set \<Rightarrow> ('x, 'd) client \<Rightarrow> PeriodicSessionHandle \<Rightarrow> 'd periodic_session \<Rightarrow> bool" where
  "session_ok l w p ps \<longleftrightarrow> ps_handle ps = p \<and> \<not> ps_never_abort ps \<and> distinct (ps_periodic ps) \<and>
     (\<forall>h \<in> set (ps_periodic ps). h \<in> l \<and> mPeriodicTransactions w h = Some p \<and> th_initiator h = LocationServer) \<and>
     (\<forall>h \<in> fst ` set (ps_requests ps). h \<in> l \<and> mRequestTransactions w h = Some p \<and> th_initiator h = TargetDevice)"

definition open_transactions :: "('x, 'd) client \<Rightarrow> PeriodicSessionHandle \<Rightarrow> nat" where
  "open_transactions w p = (case mSessions w p of None \<Rightarrow> 0 | Some ps \<Rightarrow> length (ps_periodic ps))"

definition client_ok :: "transaction_handle set \<Rightarrow> ('x, 'd) client \<Rightarrow> bool" where
  "client_ok l w \<longleftrightarrow> \<not> never_abort w \<and>
     (\<forall>h p. mRequestTransactions w h = Some p \<longrightarrow> th_initiator h = TargetDevice) \<and>
     (\<forall>p ps. mSessions w p = Some ps \<longrightarrow> session_ok l w p ps) \<and>
     (\<forall>p. count_list (calls w) (OnEnded p) + open_transactions w p \<le> count_list (calls w) (OnStarted p))"

lemma client_okI:
  assumes "\<not> never_abort w" and "\<And>h p. mRequestTransactions w h = Some p \<Longrightarrow> th_initiator h = TargetDevice"
    and "\<And>p ps. mSessions w p = Some ps \<Longrightarrow> session_ok l w p ps"
    and "\<And>p. count_list (calls w) (OnEnded p) + open_transactions w p \<le> count_list (calls w) (OnStarted p)"
  shows "client_ok l w"
  using assms by (simp add: client_ok_def)

lemma told: "client_ok l w \<Longrightarrow> count_list (calls w) (OnEnded p) + open_transactions w p \<le> count_list (calls w) (OnStarted p)"
  by (simp add: client_ok_def)

lemma client_ok_more: "client_ok l w \<Longrightarrow> l \<subseteq> l' \<Longrightarrow> client_ok l' w"
  unfolding client_ok_def session_ok_def by blast

text \<open>Changes that do not touch the tables and the calls for periodic transactions.\<close>

lemma client_ok_same:
  assumes "client_ok l w" and "mSessions w' = mSessions w" and "mRequestTransactions w' = mRequestTransactions w"
    and "mPeriodicTransactions w' = mPeriodicTransactions w" and "never_abort w' = never_abort w"
    and "\<And>p. count_list (calls w') (OnStarted p) = count_list (calls w) (OnStarted p)"
    and "\<And>p. count_list (calls w') (OnEnded p) = count_list (calls w) (OnEnded p)"
  shows "client_ok l w'"
  using assms by (simp add: client_ok_def session_ok_def open_transactions_def)

lemma update_session_simps [simp]:
  "never_abort (update_session p f w) = never_abort w" "calls (update_session p f w) = calls w"
  "mRequestTransactions (update_session p f w) = mRequestTransactions w"
  "mPeriodicTransactions (update_session p f w) = mPeriodicTransactions w"
  "cl_scheduled (update_session p f w) = cl_scheduled w" "mSingleSessions (update_session p f w) = mSingleSessions w"
  "mSessions (update_session p f w) q = (if q = p then map_option f (mSessions w p) else mSessions w q)"
  by (simp_all add: update_session_def split: option.split)

lemma user_called_simps [simp]:
  "never_abort (user_called c w) = never_abort w" "mSessions (user_called c w) = mSessions w"
  "mRequestTransactions (user_called c w) = mRequestTransactions w"
  "mPeriodicTransactions (user_called c w) = mPeriodicTransactions w" "cl_scheduled (user_called c w) = cl_scheduled w"
  "mSingleSessions (user_called c w) = mSingleSessions w"
  "count_list (calls (user_called c w)) d = count_list (calls w) d + (if c = d then 1 else 0)"
  by (simp_all add: user_called_def)

lemma client_ok_called:
  "client_ok l w \<Longrightarrow> (\<And>p. c \<noteq> OnStarted p \<and> c \<noteq> OnEnded p) \<Longrightarrow> client_ok l (user_called c w)"
  by (erule client_ok_same) simp_all

text \<open>The session of a handle is the one that the tables name.\<close>

lemma session_of:
  assumes "client_ok l w" and "mSessions w q = Some ps"
  shows "h \<in> set (ps_periodic ps) \<Longrightarrow> find_by_periodic_transaction_handle w h = Some q"
    and "h \<in> fst ` set (ps_requests ps) \<Longrightarrow> find_by_request_transaction_handle w h = Some q"
proof -
  have "session_ok l w q ps" using assms by (simp add: client_ok_def)
  then have "h \<in> set (ps_periodic ps) \<Longrightarrow> mPeriodicTransactions w h = Some q"
    "h \<in> fst ` set (ps_requests ps) \<Longrightarrow> mRequestTransactions w h = Some q"
    unfolding session_ok_def by blast+
  then show "h \<in> set (ps_periodic ps) \<Longrightarrow> find_by_periodic_transaction_handle w h = Some q"
    "h \<in> fst ` set (ps_requests ps) \<Longrightarrow> find_by_request_transaction_handle w h = Some q"
    using assms(2)
    by (simp_all add: find_by_periodic_transaction_handle_def find_by_request_transaction_handle_def)
qed

lemma unregister_ok:
  assumes "client_ok l w" and "mRequestTransactions w h \<in> {None, Some p}"
  shows "client_ok l (unregister_request p h w)"
proof (rule client_okI)
  let ?w = "unregister_request p h w"
  show "\<not> never_abort ?w" using assms(1) by (simp add: client_ok_def unregister_request_def)
  show "th_initiator k = TargetDevice" if "mRequestTransactions ?w k = Some q" for k q
    using assms(1) that by (auto simp: client_ok_def unregister_request_def split: if_splits)
  show "session_ok l ?w q ps" if m: "mSessions ?w q = Some ps" for q ps
  proof -
    obtain old where old: "mSessions w q = Some old"
      "ps = (if q = p then old\<lparr>ps_requests := filter (\<lambda>r. fst r \<noteq> h) (ps_requests old)\<rparr> else old)"
      using m by (auto simp: unregister_request_def split: if_splits)
    then have "session_ok l w q old" using assms(1) by (simp add: client_ok_def)
    then show ?thesis
      using old(2) assms(2) by (auto simp: session_ok_def unregister_request_def split: if_splits)
  qed
  have "open_transactions ?w q = open_transactions w q" for q
    by (auto simp: open_transactions_def unregister_request_def split: option.split)
  moreover have "calls ?w = calls w" by (simp add: unregister_request_def)
  ultimately show "count_list (calls ?w) (OnEnded q) + open_transactions ?w q \<le> count_list (calls ?w) (OnStarted q)" for q
    using assms(1) by (simp add: client_ok_def)
qed

text \<open>Telling the end of a transaction, of a live session and of one that is being destroyed.\<close>

lemma periodic_ended_ok:
  assumes "client_ok l w" and "mSessions w p = Some ps" and "h \<in> set (ps_periodic ps)"
  shows "client_ok l (handle_periodic_ended p h w)"
proof (rule client_okI)
  let ?w = "handle_periodic_ended p h w"
  have p: "session_ok l w p ps" using assms(1,2) by (simp add: client_ok_def)
  then have h: "mPeriodicTransactions w h = Some p" using assms(3) by (simp add: session_ok_def)
  show "\<not> never_abort ?w" using assms(1) by (simp add: client_ok_def handle_periodic_ended_def)
  show "th_initiator k = TargetDevice" if "mRequestTransactions ?w k = Some q" for k q
    using assms(1) that by (simp add: client_ok_def handle_periodic_ended_def)
  show "session_ok l ?w q r" if m: "mSessions ?w q = Some r" for q r
  proof -
    obtain old where old: "mSessions w q = Some old"
      "r = (if q = p then old\<lparr>ps_periodic := remove1 h (ps_periodic old)\<rparr> else old)"
      using m by (auto simp: handle_periodic_ended_def split: if_splits)
    then have "session_ok l w q old" using assms(1) by (simp add: client_ok_def)
    then show ?thesis
      using old(2) h by (auto simp: session_ok_def handle_periodic_ended_def split: if_splits)
  qed
  have "open_transactions w p = Suc (open_transactions ?w p)"
    using assms(2,3) by (simp add: open_transactions_def handle_periodic_ended_def length_remove1)
      (metis length_pos_if_in_set Suc_pred)
  moreover have "open_transactions ?w q = open_transactions w q" if "q \<noteq> p" for q
    using that by (simp add: open_transactions_def handle_periodic_ended_def)
  moreover have "count_list (calls ?w) (OnEnded q) = count_list (calls w) (OnEnded q) + (if q = p then 1 else 0)"
    "count_list (calls ?w) (OnStarted q) = count_list (calls w) (OnStarted q)" for q
    by (simp_all add: handle_periodic_ended_def)
  ultimately show "count_list (calls ?w) (OnEnded q) + open_transactions ?w q \<le> count_list (calls ?w) (OnStarted q)" for q
    using told [OF assms(1), of q] by (cases "q = p") simp_all
qed

lemma destroyed_ended_ok:
  assumes "client_ok l w" and "mSessions w p = None" and "mPeriodicTransactions w h \<in> {None, Some p}"
  shows "client_ok l (handle_periodic_ended_base h w)"
  using assms by (auto simp: client_ok_def session_ok_def open_transactions_def handle_periodic_ended_base_def)

lemma periodic_end_ok:
  assumes "client_ok l w"
  shows "client_ok l (periodic_end p h w)"
proof (cases "mSessions w p")
  case (Some ps)
  then have "session_ok l w p ps" using assms by (simp add: client_ok_def)
  then show ?thesis
    using Some assms unregister_ok [OF assms] periodic_ended_ok [OF assms Some, of h]
    by (auto simp: periodic_end_def session_ok_def)
qed (use assms in \<open>simp add: periodic_end_def\<close>)

text \<open>After the callback for an ended transaction no session waits for it.\<close>

lemma periodic_end_gone:
  assumes "client_ok l w" and "mSessions w p = Some ps"
  shows "th_initiator h = TargetDevice \<Longrightarrow> mSessions (periodic_end p h w) p = Some r \<Longrightarrow> h \<notin> fst ` set (ps_requests r)"
    and "th_initiator h = LocationServer \<Longrightarrow> mSessions (periodic_end p h w) p = Some r \<Longrightarrow> h \<notin> set (ps_periodic r)"
proof -
  have p: "session_ok l w p ps" using assms by (simp add: client_ok_def)
  show "h \<notin> fst ` set (ps_requests r)" if "th_initiator h = TargetDevice" "mSessions (periodic_end p h w) p = Some r"
    using that assms(2) p
    by (auto simp: periodic_end_def session_ok_def unregister_request_def handle_periodic_ended_def split: if_splits)
  show "h \<notin> set (ps_periodic r)" if "th_initiator h = LocationServer" "mSessions (periodic_end p h w) p = Some r"
    using that assms(2) p
    by (fastforce simp: periodic_end_def session_ok_def unregister_request_def handle_periodic_ended_def split: if_splits)
qed

lemma periodic_end_less:
  assumes "mSessions (periodic_end p h w) q = Some r"
  shows "\<exists>old. mSessions w q = Some old \<and> set (ps_periodic r) \<subseteq> set (ps_periodic old) \<and>
    fst ` set (ps_requests r) \<subseteq> fst ` set (ps_requests old)"
  using assms set_remove1_subset [of h]
  by (fastforce simp: periodic_end_def unregister_request_def handle_periodic_ended_def split: option.splits if_splits)

lemma client_ok_forget:
  assumes "client_ok l w"
    and "\<And>q r. mSessions w q = Some r \<Longrightarrow> h \<notin> set (ps_periodic r) \<and> h \<notin> fst ` set (ps_requests r)"
  shows "client_ok (l - {h}) w"
proof (rule client_okI)
  show "session_ok (l - {h}) w q r" if "mSessions w q = Some r" for q r
  proof -
    have "session_ok l w q r" using assms(1) that by (simp add: client_ok_def)
    then show ?thesis using assms(2) [OF that] unfolding session_ok_def by blast
  qed
qed (use assms(1) in \<open>auto simp: client_ok_def\<close>)

lemma process_end_ok:
  assumes "client_ok l w"
  shows "client_ok (l - {h}) (process_end_transaction h w)"
proof -
  define w1 where "w1 = (case find_by_request_transaction_handle w h of None \<Rightarrow> w | Some p \<Rightarrow> periodic_end p h w)"
  define w2 where "w2 = (case mSingleSessions w1 h of None \<Rightarrow> w1 | Some _ \<Rightarrow> snd (remove_single_session h w1))"
  define w3 where "w3 = (case find_by_periodic_transaction_handle w2 h of None \<Rightarrow> w2 | Some p \<Rightarrow> periodic_end p h w2)"
  have ok1: "client_ok l w1" using assms by (auto simp: w1_def split: option.split intro: periodic_end_ok)
  have same2: "mSessions w2 = mSessions w1" by (simp add: w2_def remove_single_session_def split: option.split)
  have ok2: "client_ok l w2"
    using ok1 by (rule client_ok_same) (simp_all add: w2_def remove_single_session_def split: option.split)
  have ok3: "client_ok l w3" using ok2 by (auto simp: w3_def split: option.split intro: periodic_end_ok)
  have "h \<notin> set (ps_periodic r) \<and> h \<notin> fst ` set (ps_requests r)" if r: "mSessions w3 q = Some r" for q r
  proof
    obtain r2 where r2: "mSessions w2 q = Some r2" "set (ps_periodic r) \<subseteq> set (ps_periodic r2)"
      "fst ` set (ps_requests r) \<subseteq> fst ` set (ps_requests r2)"
    proof (cases "find_by_periodic_transaction_handle w2 h")
      case (Some p)
      then show ?thesis using r periodic_end_less [of p h w2 q r] that by (auto simp: w3_def)
    qed (use r that in \<open>simp add: w3_def\<close>)
    have s2: "session_ok l w2 q r2" using ok2 r2(1) by (simp add: client_ok_def)
    show "h \<notin> set (ps_periodic r)"
    proof
      assume h: "h \<in> set (ps_periodic r)"
      then have "find_by_periodic_transaction_handle w2 h = Some q" using r2 session_of(1) [OF ok2 r2(1)] by blast
      then have w3: "w3 = periodic_end q h w2" by (simp add: w3_def)
      have "th_initiator h = LocationServer" using s2 h r2(2) unfolding session_ok_def by blast
      then show False using periodic_end_gone(2) [OF ok2 r2(1)] r h unfolding w3 by blast
    qed
    have r1: "mSessions w1 q = Some r2" using r2(1) same2 by simp
    obtain r0 where r0: "mSessions w q = Some r0" "fst ` set (ps_requests r2) \<subseteq> fst ` set (ps_requests r0)"
    proof (cases "find_by_request_transaction_handle w h")
      case (Some p)
      then show ?thesis using r1 periodic_end_less [of p h w q r2] that by (auto simp: w1_def)
    qed (use r1 that in \<open>simp add: w1_def\<close>)
    show "h \<notin> fst ` set (ps_requests r)"
    proof
      assume h: "h \<in> fst ` set (ps_requests r)"
      then have "find_by_request_transaction_handle w h = Some q"
        using r2(3) r0(2) session_of(2) [OF assms r0(1)] by blast
      then have w1: "w1 = periodic_end q h w" by (simp add: w1_def)
      have "th_initiator h = TargetDevice" using s2 h r2(3) unfolding session_ok_def by blast
      then show False using periodic_end_gone(1) [OF assms r0(1)] r1 h r2(3) unfolding w1 by blast
    qed
  qed
  then have "client_ok (l - {h}) w3" by (rule client_ok_forget [OF ok3])
  moreover have "process_end_transaction h w = w3\<lparr>mLocationInformationDeliveries := (mLocationInformationDeliveries w3)(h := None)\<rparr>"
    unfolding process_end_transaction_def Let_def
    unfolding w1_def [symmetric] unfolding w2_def [symmetric] unfolding w3_def [symmetric] by (rule refl)
  ultimately show ?thesis by (auto elim: client_ok_same)
qed

lemma sending_calls [simp]:
  "call (on_begin_transaction sending) h s = s" "call (on_server_end_transaction sending) h s = s"
  "call (on_end_transaction sending) h s = s\<lparr>world := process_end_transaction h (world s)\<rparr>"
  "on_message sending = None"
  by (simp_all add: sending_def call_def)

interpretation client_sending:
  session_user sending process_end_transaction client_ok "\<lambda>_ _ _. True"
  by unfold_locales (simp_all add: process_end_ok client_ok_more)

section \<open>Aborts\<close>

text \<open>The tables only lose entries.\<close>

definition shrinks :: "('x, 'd) client \<Rightarrow> ('x, 'd) client \<Rightarrow> bool" where
  "shrinks w w' \<longleftrightarrow> (\<forall>h. mRequestTransactions w' h \<in> {None, mRequestTransactions w h}) \<and>
     (\<forall>h. mPeriodicTransactions w' h \<in> {None, mPeriodicTransactions w h}) \<and>
     (\<forall>p. mSessions w p = None \<longrightarrow> mSessions w' p = None)"

lemma shrinks_refl [simp]: "shrinks w w"
  by (simp add: shrinks_def)

lemma shrinks_trans [trans]: "shrinks w w' \<Longrightarrow> shrinks w' w'' \<Longrightarrow> shrinks w w''"
  unfolding shrinks_def by (metis insert_iff singletonD)

lemma shrinksD:
  assumes "shrinks w w'"
  shows "mRequestTransactions w h \<in> {None, x} \<Longrightarrow> mRequestTransactions w' h \<in> {None, x}"
    and "mPeriodicTransactions w h \<in> {None, y} \<Longrightarrow> mPeriodicTransactions w' h \<in> {None, y}"
    and "mSessions w p = None \<Longrightarrow> mSessions w' p = None"
proof -
  have "mRequestTransactions w' h \<in> {None, mRequestTransactions w h}" "mPeriodicTransactions w' h \<in> {None, mPeriodicTransactions w h}"
    "mSessions w p = None \<longrightarrow> mSessions w' p = None"
    using assms unfolding shrinks_def by blast+
  then show "mRequestTransactions w h \<in> {None, x} \<Longrightarrow> mRequestTransactions w' h \<in> {None, x}"
    "mPeriodicTransactions w h \<in> {None, y} \<Longrightarrow> mPeriodicTransactions w' h \<in> {None, y}"
    "mSessions w p = None \<Longrightarrow> mSessions w' p = None"
    by auto
qed

lemma shrinks_steps [simp]:
  "shrinks w (unregister_request p h w)" "shrinks w (handle_periodic_ended p h w)" "shrinks w (periodic_end p h w)"
  "shrinks w (handle_periodic_ended_base h w)"
  by (auto simp: shrinks_def handle_periodic_ended_base_def unregister_request_def handle_periodic_ended_def periodic_end_def split: option.split)

lemma shrinks_process_end: "shrinks w (process_end_transaction h w)"
proof -
  have 1: "shrinks w (case find_by_request_transaction_handle w h of None \<Rightarrow> w | Some p \<Rightarrow> periodic_end p h w)"
    (is "shrinks w ?w1") by (simp split: option.split)
  have 2: "shrinks w (case mSingleSessions ?w1 h of None \<Rightarrow> ?w1 | Some _ \<Rightarrow> snd (remove_single_session h ?w1))"
    (is "shrinks w ?w2") by (rule shrinks_trans [OF 1]) (simp add: shrinks_def remove_single_session_def split: option.split)
  have 3: "shrinks w (case find_by_periodic_transaction_handle ?w2 h of None \<Rightarrow> ?w2 | Some p \<Rightarrow> periodic_end p h ?w2)"
    (is "shrinks w ?w3") by (rule shrinks_trans [OF 2]) (simp split: option.split)
  have "shrinks ?w3 (?w3\<lparr>mLocationInformationDeliveries := (mLocationInformationDeliveries ?w3)(h := None)\<rparr>)"
    by (simp add: shrinks_def)
  with 3 show ?thesis unfolding process_end_transaction_def Let_def by (rule shrinks_trans)
qed

lemma world_client_end: "shrinks (world s) (world (client_end_transaction sending h s))"
  by (auto simp: client_end_transaction_def remove_transaction_def Let_def shrinks_process_end split: option.split)

lemma world_send:
  assumes "send env sending h message s = Some s'"
  shows "shrinks (world s) (world s')"
  using assms
proof (cases rule: send_cases_all)
  case (2 d t)
  let ?t = "t\<lparr>mTransactions := (mTransactions t)(h \<mapsto> d\<lparr>client_should_send_end := False\<rparr>)\<rparr>"
  have "world ?t = world s" using 2 by (simp add: only_connection_def)
  then show ?thesis using 2 world_client_end [of ?t h] by (auto simp: after_send_def only_connection_def)
qed (simp add: only_connection_def)

lemma world_send_with_end:
  assumes "handle_send_with_end env sending h message s = Some s'"
  shows "shrinks (world s) (world s')"
proof (cases "th_valid h")
  case True
  then have e: "send_with_end env sending h message s = Some s'" using assms by (simp add: handle_send_with_end_def)
  show ?thesis
  proof (cases "mTransactions s h")
    case (Some d)
    then show ?thesis using e world_send by (fastforce simp: send_with_end_def find_transaction_def)
  qed (use e in \<open>simp add: send_with_end_def find_transaction_def\<close>)
qed (use assms in \<open>simp add: handle_send_with_end_def\<close>)

lemma modify_simps [simp]: "world (modify f s) = f (world s)" "mTransactions (modify f s) = mTransactions s"
  "mHackServerInitiatedPush (modify f s) = mHackServerInitiatedPush s"
  by (simp_all add: modify_def)

lemma good_modify:
  "client_sending.good s \<Longrightarrow> client_ok (live s) (f (world s)) \<Longrightarrow> client_sending.good (modify f s)"
  by (simp add: client_sending.good_def)

text \<open>Of the end of a transaction that no session has as a periodic one, the user is not told.\<close>

definition not_periodic :: "transaction_handle \<Rightarrow> ('x, 'd) client \<Rightarrow> bool" where
  "not_periodic h w \<longleftrightarrow> (\<forall>p ps. mSessions w p = Some ps \<longrightarrow> h \<notin> set (ps_periodic ps))"

lemma not_periodic_end:
  assumes "not_periodic h w"
  shows "calls (periodic_end p h w) = calls w" and "not_periodic h (periodic_end p h w)"
proof -
  show "calls (periodic_end p h w) = calls w"
    using assms by (auto simp: not_periodic_def periodic_end_def unregister_request_def split: option.split)
  show "not_periodic h (periodic_end p h w)"
    using assms periodic_end_less [of p h w] unfolding not_periodic_def by blast
qed

lemma silent_process_end:
  assumes "not_periodic h w"
  shows "calls (process_end_transaction h w) = calls w"
proof -
  define w1 where "w1 = (case find_by_request_transaction_handle w h of None \<Rightarrow> w | Some p \<Rightarrow> periodic_end p h w)"
  define w2 where "w2 = (case mSingleSessions w1 h of None \<Rightarrow> w1 | Some _ \<Rightarrow> snd (remove_single_session h w1))"
  define w3 where "w3 = (case find_by_periodic_transaction_handle w2 h of None \<Rightarrow> w2 | Some p \<Rightarrow> periodic_end p h w2)"
  have 1: "calls w1 = calls w" "not_periodic h w1"
    using assms by (simp_all add: w1_def not_periodic_end split: option.split)
  then have 2: "calls w2 = calls w" "not_periodic h w2"
    by (cases "mSingleSessions w1 h"; simp add: w2_def not_periodic_def remove_single_session_def)+
  then have "calls w3 = calls w" by (simp add: w3_def not_periodic_end(1) split: option.split)
  then show ?thesis
    unfolding process_end_transaction_def Let_def w1_def [symmetric] w2_def [symmetric] w3_def [symmetric] by simp
qed

lemma silent_send_with_end:
  fixes s :: "('t, 'x, 'd) state"
  assumes "handle_send_with_end env sending h m s = Some s'" and "not_periodic h (world s)"
  shows "calls (world s') = calls (world s)"
proof -
  have e: "calls (world (client_end_transaction sending h t)) = calls (world t)" if "world t = world s" for t :: "('t, 'x, 'd) state"
    using that assms(2) silent_process_end
    by (auto simp: client_end_transaction_def remove_transaction_def Let_def split: option.split)
  have "calls (world t') = calls (world s)" if r: "send env sending h m t = Some t'" "world t = world s" for t t'
    using r(1)
  proof (cases rule: send_cases_all)
    case (2 d v)
    then show ?thesis using r(2) e by (auto simp: after_send_def only_connection_def)
  qed (use r(2) in \<open>simp add: only_connection_def\<close>)
  then show ?thesis
    using assms(1) by (auto simp: handle_send_with_end_def send_with_end_def split: if_splits option.splits)
qed

lemma good_not_periodic:
  assumes "client_sending.good s" 
    and "th_initiator h = TargetDevice \<or> mPeriodicTransactions (world s) h \<in> {None, Some p} \<and> mSessions (world s) p = None"
  shows "not_periodic h (world s)"
  unfolding not_periodic_def
proof (intro allI impI)
  fix q ps assume q: "mSessions (world s) q = Some ps"
  then have "session_ok (live s) (world s) q ps"
    using assms(1) by (simp add: client_sending.good_def client_ok_def)
  then show "h \<notin> set (ps_periodic ps)" using assms(2) q by (auto simp: session_ok_def)
qed

lemma abort_requests_ok:
  assumes "client_sending.good s" and "\<forall>h \<in> set hs. mRequestTransactions (world s) h \<in> {None, Some p}"
    and "abort_all env body (unregister_request p) hs s = Some s'"
  shows "client_sending.good s' \<and> shrinks (world s) (world s') \<and>
    ((\<forall>h \<in> set hs. th_initiator h = TargetDevice) \<longrightarrow> calls (world s') = calls (world s))"
  using assms
proof (induction hs arbitrary: s)
  case (Cons h hs)
  obtain t where t: "handle_send_with_end env sending h (create_abort body) s = Some t"
    "abort_all env body (unregister_request p) hs (modify (unregister_request p h) t) = Some s'"
    using Cons.prems(3) by (auto split: option.splits)
  have less: "shrinks (world s) (world t)" by (rule world_send_with_end [OF t(1)])
  then have "mRequestTransactions (world t) h \<in> {None, Some p}" using Cons.prems(2) by (auto simp: shrinks_def)
  moreover have good: "client_sending.good t" by (rule client_sending.good_handle_send(2) [OF Cons.prems(1) t(1)])
  ultimately have "client_sending.good (modify (unregister_request p h) t)"
    by (intro good_modify [OF good] unregister_ok) (simp_all add: client_sending.good_def)
  moreover have less': "shrinks (world s) (world (modify (unregister_request p h) t))"
    by (rule shrinks_trans [OF less]) simp
  have "mRequestTransactions (world (modify (unregister_request p h) t)) k \<in> {None, Some p}" if "k \<in> set hs" for k
    by (rule shrinksD(1) [OF less']) (use Cons.prems(2) that in simp)
  moreover have "calls (world (modify (unregister_request p h) t)) = calls (world s)" if "th_initiator h = TargetDevice"
    using silent_send_with_end [OF t(1) good_not_periodic [OF Cons.prems(1)]] that by (simp add: unregister_request_def)
  ultimately show ?case using Cons.IH [OF _ _ t(2)] shrinks_trans [OF less'] by simp
qed simp

lemma abort_periodic_ok:
  assumes "client_sending.good s" and "mSessions (world s) p = None"
    and "\<forall>h \<in> set hs. mPeriodicTransactions (world s) h \<in> {None, Some p}"
    and "abort_all env body handle_periodic_ended_base hs s = Some s'"
  shows "client_sending.good s' \<and> shrinks (world s) (world s') \<and> calls (world s') = calls (world s)"
  using assms
proof (induction hs arbitrary: s)
  case (Cons h hs)
  obtain t where t: "handle_send_with_end env sending h (create_abort body) s = Some t"
    "abort_all env body handle_periodic_ended_base hs (modify (handle_periodic_ended_base h) t) = Some s'"
    using Cons.prems(4) by (auto split: option.splits)
  have less: "shrinks (world s) (world t)" by (rule world_send_with_end [OF t(1)])
  then have "mPeriodicTransactions (world t) h \<in> {None, Some p}" "mSessions (world t) p = None"
    using Cons.prems(2,3) by (auto simp: shrinks_def)
  moreover have good: "client_sending.good t" by (rule client_sending.good_handle_send(2) [OF Cons.prems(1) t(1)])
  ultimately have "client_sending.good (modify (handle_periodic_ended_base h) t)"
    by (intro good_modify [OF good] destroyed_ended_ok [where p = p]) (simp_all add: client_sending.good_def)
  moreover have less': "shrinks (world s) (world (modify (handle_periodic_ended_base h) t))"
    by (rule shrinks_trans [OF less]) simp
  have "mPeriodicTransactions (world (modify (handle_periodic_ended_base h) t)) k \<in> {None, Some p}" if "k \<in> set hs" for k
    by (rule shrinksD(2) [OF less']) (use Cons.prems(3) that in simp)
  moreover have "mSessions (world (modify (handle_periodic_ended_base h) t)) p = None"
    by (rule shrinksD(3) [OF less' Cons.prems(2)])
  moreover have "calls (world (modify (handle_periodic_ended_base h) t)) = calls (world s)"
    using silent_send_with_end [OF t(1) good_not_periodic [OF Cons.prems(1), where p = p]] Cons.prems(2,3)
    by (simp add: handle_periodic_ended_base_def)
  ultimately show ?case using Cons.IH [OF _ _ _ t(2)] shrinks_trans [OF less'] by simp
qed simp

section \<open>The operations of the client\<close>

abbreviation good where "good \<equiv> client_sending.good"

lemma good_iff: "good s \<longleftrightarrow> client_ok (live s) (world s) \<and> \<not> mHackServerInitiatedPush s"
  by (simp add: client_sending.good_def)

lemma polite_sending: "polite sending"
  by (auto simp: polite_def sending_def same_tables_def intro!: same_tables_follows)

lemma client_ok_erase:
  assumes "client_ok l w" and "mSessions w p = Some ps"
  shows "client_ok l (w\<lparr>mSessions := (mSessions w)(p := None)\<rparr>)"
proof (rule client_okI)
  let ?w = "w\<lparr>mSessions := (mSessions w)(p := None)\<rparr>"
  show "session_ok l ?w q r" if "mSessions ?w q = Some r" for q r
    using assms(1) that by (auto simp: client_ok_def session_ok_def split: if_splits)
  have "open_transactions ?w q \<le> open_transactions w q" for q by (simp add: open_transactions_def)
  then show "count_list (calls ?w) (OnEnded q) + open_transactions ?w q \<le> count_list (calls ?w) (OnStarted q)" for q
    using assms(1) by (simp add: client_ok_def) (meson add_left_mono le_trans)
qed (use assms(1) in \<open>auto simp: client_ok_def\<close>)

lemma destroy_ok:
  assumes "good s" and "mSessions (world s) p = Some ps"
    and "destroy_session env u ps (modify (\<lambda>w. w\<lparr>mSessions := (mSessions w)(p := None)\<rparr>) s) = Some s'"
  shows "good s' \<and> (\<forall>q. mSessions (world s) q = None \<or> q = p \<longrightarrow> mSessions (world s') q = None) \<and>
    calls (world s') = calls (world s)"
proof -
  let ?f = "\<lambda>w. w\<lparr>mSessions := (mSessions w)(p := None)\<rparr>"
  let ?s = "modify ?f s"
  have ps: "session_ok (live s) (world s) p ps" using assms(1,2) by (simp add: good_iff client_ok_def)
  obtain t where t: "abort_all env (abort_body u) (unregister_request p) (map fst (ps_requests ps)) ?s = Some t"
    "abort_all env (abort_body u) handle_periodic_ended_base (ps_periodic ps) t = Some s'"
    using assms(3) ps by (auto simp: destroy_session_def session_ok_def split: bind_splits)
  have 0: "client_sending.good ?s"
    using client_ok_erase [OF _ assms(2), of "live s"] assms(1) by (simp add: client_sending.good_def)
  have "\<forall>h \<in> set (map fst (ps_requests ps)). mRequestTransactions (world ?s) h \<in> {None, Some p}"
    using ps by (auto simp: session_ok_def)
  from abort_requests_ok [OF 0 this t(1)]
  moreover have "\<forall>h \<in> set (map fst (ps_requests ps)). th_initiator h = TargetDevice"
    using ps by (auto simp: session_ok_def)
  ultimately have 1: "client_sending.good t" "shrinks (world ?s) (world t)" "calls (world t) = calls (world s)" by simp_all
  have "mSessions (world t) p = None" by (rule shrinksD(3) [OF 1(2)]) simp
  moreover have "mPeriodicTransactions (world t) h \<in> {None, Some p}" if "h \<in> set (ps_periodic ps)" for h
    by (rule shrinksD(2) [OF 1(2)]) (use ps that in \<open>auto simp: session_ok_def\<close>)
  ultimately have 2: "client_sending.good s'" "shrinks (world t) (world s')" "calls (world s') = calls (world t)"
    using abort_periodic_ok [OF 1(1) _ _ t(2)] by simp_all
  have "mSessions (world s') q = None" if "mSessions (world s) q = None \<or> q = p" for q
    by (rule shrinksD(3) [OF shrinks_trans [OF 1(2) 2(2)]]) (use that in auto)
  then show ?thesis using 2 1(3) by simp
qed

lemma deallocate_ok:
  "good s \<Longrightarrow> deallocate_periodic_session_handle env u p s = Some s' \<Longrightarrow> good s'"
  by (auto simp: deallocate_periodic_session_handle_def split: if_splits option.splits dest: destroy_ok)

lemma destroy_sessions_ok:
  "good s \<Longrightarrow> destroy_sessions env u order s = Some s' \<Longrightarrow>
    good s' \<and> (\<forall>q. mSessions (world s) q = None \<or> q \<in> set order \<longrightarrow> mSessions (world s') q = None)"
proof (induction order arbitrary: s)
  case (Cons p order)
  show ?case
  proof (cases "mSessions (world s) p")
    case (Some ps)
    then obtain t where t: "destroy_session env u ps (modify (\<lambda>w. w\<lparr>mSessions := (mSessions w)(p := None)\<rparr>) s) = Some t"
      "destroy_sessions env u order t = Some s'"
      using Cons.prems(2) by (auto split: option.splits)
    have "good t" "\<forall>q. mSessions (world s) q = None \<or> q = p \<longrightarrow> mSessions (world t) q = None"
      using destroy_ok [OF Cons.prems(1) Some t(1)] by simp_all
    then show ?thesis using Cons.IH [OF _ t(2)] by auto
  qed (use Cons in auto)
qed simp

text \<open>A new transaction is fresh, and sending its first message changes the connection only.\<close>

lemma new_transaction:
  assumes "tx_ok s" and "create_transaction sending sse s = (h, t)" and "th_valid h"
  shows "h \<notin> live s" and "th_initiator h = TargetDevice" and "world t = world s"
    and "\<exists>d. mTransactions t h = Some d \<and> \<not> client_should_send_end d" and "live t = insert h (live s)"
    and "mHackServerInitiatedPush t = mHackServerInitiatedPush s"
proof -
  obtain n where n: "free_id (mClientTransactions s) (mTransactionId s) 0 = Some n"
    and h: "h = TransactionHandle True n (mGenerationId s) TargetDevice"
    using assms(2,3) by (auto simp: create_transaction_def allocate_transaction_def invalid_handle_def Let_def
        split: option.splits prod.splits if_splits)
  have "th_generation h = mGenerationId s" using h by simp
  then show new: "h \<notin> live s" using live_generation [OF assms(1), of h] by (cases "mTransactions s h") auto
  show "th_initiator h = TargetDevice" using h by simp
  have "t = snd (create_transaction sending sse s)" using assms(2) by simp
  then have t: "t = snd (add_transaction sending h sse (s\<lparr>mTransactionId := (n + 1) mod 256, mGenerationId := mGenerationId s + 1\<rparr>))"
    by (simp add: create_transaction_eq n h)
  have "0 \<le> n" "n \<le> 255" using free_id_less [OF n] by auto
  moreover have "mTransactions s (TransactionHandle True n (mGenerationId s) TargetDevice) = None" using new h by auto
  ultimately show "world t = world s" "\<exists>d. mTransactions t h = Some d \<and> \<not> client_should_send_end d" "live t = insert h (live s)"
    "mHackServerInitiatedPush t = mHackServerInitiatedPush s"
    by (auto simp: t add_transaction_eq h)
qed

lemma first_send:
  assumes "mTransactions s h = Some d" and "\<not> client_should_send_end d" and "handle_send env sending h m s = Some s'"
  shows "only_connection s s'"
proof (cases "th_valid h")
  case True
  then have "send env sending h m s = Some s'" using assms(3) by (simp add: handle_send_def)
  then show ?thesis
    using assms(1,2) by (cases rule: send_cases_all) (auto simp: after_send_def)
qed (use assms(3) in \<open>simp add: handle_send_def only_connection_def same_tables_def\<close>)

lemma new_request:
  assumes "tx_ok s" and "good s" and "create_transaction sending sse s = (h, t)" and "th_valid h"
    and "handle_send env sending h m t = Some s'"
  shows "good s'" and "world s' = world s" and "h \<in> live s'" and "th_initiator h = TargetDevice"
    and "mSessions (world s) q = Some ps \<Longrightarrow> h \<notin> fst ` set (ps_requests ps)"
proof -
  note new = new_transaction [OF assms(1,3,4)]
  obtain d where "mTransactions t h = Some d" "\<not> client_should_send_end d" using new(4) by blast
  then have c: "only_connection t s'" using assms(5) by (rule first_send)
  then show "good s'" "world s' = world s" "h \<in> live s'"
    using assms(2) new(3,5,6) client_ok_more [of "live s" "world s" "live s'"]
    by (auto simp: good_iff only_connection_def same_tables_def)
  show "th_initiator h = TargetDevice" by (rule new(2))
  assume q: "mSessions (world s) q = Some ps"
  have "session_ok (live s) (world s) q ps" using q assms(2) by (simp add: good_iff client_ok_def)
  then show "h \<notin> fst ` set (ps_requests ps)" using new(1) unfolding session_ok_def by blast
qed

lemma free_session_id_free:
  "free_session_id sessions start i = Some n \<Longrightarrow> sessions (PeriodicSessionHandle n TargetDevice) = None"
  by (induction sessions start i rule: free_session_id.induct)
    (subst (asm) (2) free_session_id.simps, auto simp: Let_def split: if_splits)

lemma client_ok_new_session:
  assumes "client_ok l w" and "mSessions w p = None" and "h \<in> l" and "th_initiator h = TargetDevice"
    and "\<And>q r. mSessions w q = Some r \<Longrightarrow> h \<notin> fst ` set (ps_requests r)"
  shows "client_ok l (w\<lparr>mRequestTransactions := (mRequestTransactions w)(h \<mapsto> p),
    mSessions := (mSessions w)(p \<mapsto> (PeriodicSession p data w)\<lparr>ps_requests := [(h, now)]\<rparr>)\<rparr>)"
    (is "client_ok l ?w")
proof (rule client_okI)
  show "session_ok l ?w q r" if r: "mSessions ?w q = Some r" for q r
  proof (cases "q = p")
    case True
    then show ?thesis using r assms(1,3,4) by (auto simp: session_ok_def PeriodicSession_def client_ok_def)
  next
    case False
    then have old: "mSessions w q = Some r" using r by simp
    then have "session_ok l w q r" using assms(1) by (simp add: client_ok_def)
    then show ?thesis using assms(5) [OF old] by (auto simp: session_ok_def)
  qed
  show "count_list (calls ?w) (OnEnded q) + open_transactions ?w q \<le> count_list (calls ?w) (OnStarted q)" for q
    using told [OF assms(1), of q] assms(2) by (cases "q = p") (simp_all add: open_transactions_def PeriodicSession_def)
qed (use assms in \<open>auto simp: client_ok_def split: if_splits\<close>)

lemma periodic_request_ok:
  assumes "tx_ok s" and "good s" and "request_periodic_assistance_data env u now data s = Some (p, s')"
  shows "good s'"
proof (cases "free_session_id (mSessions (world s)) (mNextSessionId (world s)) 0")
  case None
  then show ?thesis using assms(2,3) by (simp add: request_periodic_assistance_data_def allocate_periodic_session_handle_def)
next
  case (Some n)
  let ?p = "PeriodicSessionHandle n TargetDevice"
  let ?w = "(world s)\<lparr>mNextSessionId := n\<rparr>"
  let ?s = "s\<lparr>world := ?w\<rparr>"
  have s: "tx_ok ?s" "good ?s"
    using assms(1,2) by (auto simp: tx_ok_def good_iff elim: client_ok_same)
  show ?thesis
  proof (cases "request_body u data ?p")
    case None
    then show ?thesis using s assms(3) Some
      by (simp add: request_periodic_assistance_data_def allocate_periodic_session_handle_def)
  next
    case body: (Some body)
    obtain h t where c: "create_transaction sending True ?s = (h, t)" by fastforce
    have t: "good t" using client_sending.good_create [OF s(2), of True] c by simp
    show ?thesis
    proof (cases "th_valid h")
      case False
      then show ?thesis using t assms(3) Some body c
        by (simp add: request_periodic_assistance_data_def allocate_periodic_session_handle_def send_new_request_def)
    next
      case True
      then obtain v where v: "handle_send env sending h (new_message body) t = Some v"
        using assms(3) Some body c
        by (auto simp: request_periodic_assistance_data_def allocate_periodic_session_handle_def send_new_request_def
            split: option.splits)
      note new = new_request [OF s c True v]
      have "s' = modify (\<lambda>w. w\<lparr>mRequestTransactions := (mRequestTransactions w)(h \<mapsto> ?p),
          mSessions := (mSessions w)(?p \<mapsto> (PeriodicSession ?p data ?w)\<lparr>ps_requests := [(h, now)]\<rparr>)\<rparr>) v"
        using assms(3) Some body c True v
        by (auto simp: request_periodic_assistance_data_def allocate_periodic_session_handle_def send_new_request_def)
      then show ?thesis
        using client_ok_new_session [where l = "live v" and w = ?w and p = ?p and h = h and data = data and now = now] new free_session_id_free [OF Some]
        by (simp add: good_iff)
    qed
  qed
qed

text \<open>A further request of a session.\<close>

lemma register_ok:
  assumes "client_ok l w" and "h \<in> l" and "th_initiator h = TargetDevice"
    and "\<And>q r. mSessions w q = Some r \<Longrightarrow> h \<notin> fst ` set (ps_requests r)"
  shows "client_ok l (register_request p h now w)"
proof (rule client_okI)
  let ?w = "register_request p h now w"
  show "session_ok l ?w q r" if r: "mSessions ?w q = Some r" for q r
  proof -
    obtain old where old: "mSessions w q = Some old"
      "r = (if q = p then old\<lparr>ps_requests := filter (\<lambda>r. fst r \<noteq> h) (ps_requests old) @ [(h, now)]\<rparr> else old)"
      using r by (auto simp: register_request_def split: if_splits)
    then have "session_ok l w q old" using assms(1) by (simp add: client_ok_def)
    then show ?thesis
      using old(2) assms(2,3) assms(4) [OF old(1)]
      by (cases "q = p") (auto simp: session_ok_def register_request_def)
  qed
  have "open_transactions ?w q = open_transactions w q" for q
    by (auto simp: open_transactions_def register_request_def split: option.split)
  moreover have "calls ?w = calls w" by (simp add: register_request_def)
  ultimately show "count_list (calls ?w) (OnEnded q) + open_transactions ?w q \<le> count_list (calls ?w) (OnStarted q)" for q
    using assms(1) by (simp add: client_ok_def)
qed (use assms in \<open>auto simp: client_ok_def register_request_def split: if_splits\<close>)

lemma periodic_begin_ok:
  assumes "client_ok l w" and "mSessions w p = Some ps" and "h \<in> l" and "th_initiator h = LocationServer"
    and "\<And>q r. mSessions w q = Some r \<Longrightarrow> h \<notin> set (ps_periodic r)"
  shows "client_ok l (handle_periodic_begin p h m w)"
proof (rule client_okI)
  let ?w = "handle_periodic_begin p h m w"
  show "session_ok l ?w q r" if r: "mSessions ?w q = Some r" for q r
  proof -
    obtain old where old: "mSessions w q = Some old"
      "r = (if q = p then old\<lparr>ps_periodic := ps_periodic old @ [h]\<rparr> else old)"
      using r by (auto simp: handle_periodic_begin_def split: if_splits)
    then have "session_ok l w q old" using assms(1) by (simp add: client_ok_def)
    then show ?thesis
      using old(2) assms(3,4) assms(5) [OF old(1)]
      by (cases "q = p") (auto simp: session_ok_def handle_periodic_begin_def)
  qed
  show "count_list (calls ?w) (OnEnded q) + open_transactions ?w q \<le> count_list (calls ?w) (OnStarted q)" for q
    using told [OF assms(1), of q] assms(2) by (cases "q = p") (simp_all add: open_transactions_def handle_periodic_begin_def)
qed (use assms(1) in \<open>auto simp: client_ok_def handle_periodic_begin_def\<close>)

text \<open>A server keeps to one periodic session for a transaction.\<close>

definition same_session :: "transaction_handle \<Rightarrow> 'x message \<Rightarrow> ('x, 'd) client \<Rightarrow> bool" where
  "same_session h m w \<longleftrightarrow> (\<forall>q ps inner p. mSessions w q = Some ps \<longrightarrow> h \<in> set (ps_periodic ps) \<longrightarrow>
     get_provide_assistance_data (Some m) = Some inner \<longrightarrow> get_periodic_session inner = Some p \<longrightarrow> p = q)"

lemma periodic_message_ok:
  assumes "client_ok l w" and "h \<in> l"
    and "th_initiator h = TargetDevice \<or> (\<forall>q r. mSessions w q = Some r \<longrightarrow> h \<in> set (ps_periodic r) \<longrightarrow> p = q)"
  shows "client_ok l (periodic_message p h m w)"
proof (cases "mSessions w p")
  case (Some ps)
  have called: "client_ok l (user_called (OnNonPeriodic p m) w)" "client_ok l (user_called (OnPeriodic p m) w)"
    using client_ok_called [OF assms(1)] by simp_all
  have begin_ok: "client_ok l (handle_periodic_begin p h m w)"
    if "th_initiator h \<noteq> TargetDevice" "h \<notin> set (ps_periodic ps)"
  proof (rule periodic_begin_ok [OF assms(1) Some assms(2)])
    show "th_initiator h = LocationServer" using that(1) by (cases "th_initiator h") auto
    show "h \<notin> set (ps_periodic r)" if r: "mSessions w q = Some r" for q r
      using assms(3) \<open>h \<notin> set (ps_periodic ps)\<close> \<open>th_initiator h \<noteq> TargetDevice\<close> r Some by fastforce
  qed
  show ?thesis
    using Some called begin_ok assms(1) periodic_end_ok [OF called(1)]
    by (auto simp: periodic_message_def split: option.split)
qed (use assms(1) in \<open>simp add: periodic_message_def\<close>)

lemma assistance_data_ok:
  assumes "client_ok l w" and "h \<in> l" and "same_session h m w"
  shows "client_ok l (process_provide_assistance_data h m w)"
proof (cases "get_provide_assistance_data (Some m)")
  case (Some inner)
  show ?thesis
  proof (cases "find_by_request_transaction_handle w h")
    case (Some p)
    then have "th_initiator h = TargetDevice"
      using assms(1) by (auto simp: find_by_request_transaction_handle_def client_ok_def split: option.splits if_splits)
    then show ?thesis
      using periodic_message_ok [OF assms(1,2)] Some \<open>get_provide_assistance_data (Some m) = Some inner\<close>
      by (simp add: process_provide_assistance_data_def)
  next
    case None
    have single: "client_ok l (single_message ss h m w)" for ss
      using client_ok_called [OF assms(1)] assms(1) by (simp add: single_message_def)
    have "client_ok l (periodic_message p h m w)" if "get_periodic_session inner = Some p" for p
      using assms(3) Some that by (intro periodic_message_ok [OF assms(1,2)]) (auto simp: same_session_def)
    then show ?thesis using None Some single assms(1)
      by (auto simp: process_provide_assistance_data_def split: option.split)
  qed
qed (use assms(1) in \<open>simp add: process_provide_assistance_data_def\<close>)

lemma deliver_location_ok:
  "good s \<Longrightarrow> deliver_location env u d s = Some s' \<Longrightarrow> good s'"
  by (auto simp: deliver_location_def split: if_splits option.splits intro: client_sending.good_handle_send)

lemma start_location_ok:
  assumes "good s" and "start_periodic_location_information env u h r s = Some (ok, s')"
  shows "good s'"
proof (cases "mLocationInformationDeliveries (world s) h")
  case None
  then obtain t where t: "deliver_location env u \<lparr>dl_transaction = h, dl_reporting = r, dl_scheduled = cl_scheduled (world s)\<rparr> s = Some t"
    "s' = modify (\<lambda>w. w\<lparr>mLocationInformationDeliveries := (mLocationInformationDeliveries w)
        (h \<mapsto> \<lparr>dl_transaction = h, dl_reporting = r, dl_scheduled = cl_scheduled (world s)\<rparr>)\<rparr>) t"
    using assms(2) by (auto simp: start_periodic_location_information_def Let_def)
  have "good t" by (rule deliver_location_ok [OF assms(1) t(1)])
  then show ?thesis by (auto simp: t(2) good_iff elim: client_ok_same)
qed (use assms in \<open>simp add: start_periodic_location_information_def\<close>)

lemma process_message_ok:
  assumes "process_message env u h m s = Some s'" and "client_ok (live s) (world s)" and "h \<in> live s"
    and "same_session h m (world s)" and "\<not> mHackServerInitiatedPush s"
  shows "client_ok (live s') (world s') \<and> \<not> mHackServerInitiatedPush s'"
proof -
  have s: "good s" using assms(2,5) by (simp add: good_iff)
  have "good s'" if r: "process_request_capabilities env u h m s = Some s'"
  proof -
    let ?handled = "case on_capabilities u of None \<Rightarrow> False | Some f \<Rightarrow> f h m"
    obtain t where t: "(if \<not> ?handled then send_with_end env sending h (new_message (capabilities_body u)) s else Some s) = Some t"
      "s' = (if has_provide_capabilities u then modify (user_called OnProvideCapabilities) t else t)"
      using r unfolding process_request_capabilities_def Let_def map_option_eq_Some by blast
    have "good t" using t(1) s client_sending.good_send_with_end [OF s] by (cases ?handled) auto
    then have "good t" "s' = (if has_provide_capabilities u then modify (user_called OnProvideCapabilities) t else t)"
      using t(2) by simp_all
    then show ?thesis by (auto intro: good_modify client_ok_called simp: good_iff)
  qed
  moreover have "good s'" if "process_request_location_information env u h m s = Some s'"
    using that s start_location_ok [OF s]
    by (auto simp: process_request_location_information_def split: if_splits option.splits)
  moreover have "good (modify (process_provide_assistance_data h m) s)"
    using good_modify [OF s] assistance_data_ok [OF assms(2-4)] by blast
  ultimately have "good s'" using assms(1) s by (auto simp: process_message_def split: if_splits)
  then show ?thesis by (simp add: good_iff)
qed

interpretation client_receiving:
  session_user "client_handlers env u" process_end_transaction client_ok same_session for env u
proof unfold_locales
  show "call (on_begin_transaction (client_handlers env u)) h s = s"
    "call (on_server_end_transaction (client_handlers env u)) h s = s"
    "call (on_end_transaction (client_handlers env u)) h s = s\<lparr>world := process_end_transaction h (world s)\<rparr>" for h s
    using sending_calls by (simp_all add: client_handlers_def)
  show "on_message (client_handlers env u) = Some f \<Longrightarrow> f h m s = Some s' \<Longrightarrow> client_ok (live s) (world s) \<Longrightarrow>
      h \<in> live s \<Longrightarrow> same_session h m (world s) \<Longrightarrow> \<not> mHackServerInitiatedPush s \<Longrightarrow>
      client_ok (live s') (world s') \<and> \<not> mHackServerInitiatedPush s'" for f h m s s'
    using process_message_ok [of env u h m s s'] by (simp add: client_handlers_def)
qed (simp_all add: process_end_ok client_ok_more)

section \<open>The transactions of the session are kept too\<close>

lemma follows_modify [simp]: "follows s (modify f s)"
  by (rule same_tables_follows) (simp add: same_tables_def modify_def)

lemma follows_world [simp]: "follows s (s\<lparr>world := w\<rparr>)"
  by (rule same_tables_follows) (simp add: same_tables_def)

lemma follows_handle:
  "handle_send env sending h m s = Some s' \<Longrightarrow> follows s s'"
  "handle_send_with_end env sending h m s = Some s' \<Longrightarrow> follows s s'"
  using follows_send [OF polite_sending] follows_send_with_end [OF polite_sending]
  by (auto simp: handle_send_def handle_send_with_end_def split: if_splits)

lemma follows_created:
  "create_transaction sending sse s = (h, t) \<Longrightarrow> follows s t"
  using follows_create [OF polite_sending, of s sse] by simp

lemma follows_new_request:
  assumes "send_new_request env body s = Some (r, s')"
  shows "follows s s'"
proof -
  obtain h t where t: "create_transaction sending True s = (h, t)" by fastforce
  then show ?thesis
    using assms follows_trans [OF follows_created [OF t] follows_handle(1)] follows_created [OF t]
    by (auto simp: send_new_request_def split: if_splits)
qed

lemma follows_periodic_request:
  assumes "request_periodic_assistance_data env u now data s = Some (p, s')"
  shows "follows s s'"
proof -
  obtain q w where w: "allocate_periodic_session_handle (world s) = (q, w)" by fastforce
  show ?thesis
    using assms follows_trans [OF follows_trans [OF follows_world [of s w] follows_new_request] follows_modify]
      follows_trans [OF follows_world [of s w] follows_new_request]
    by (auto simp: request_periodic_assistance_data_def w Let_def split: option.splits)
qed

lemma follows_aborts:
  "abort_all env body f hs s = Some s' \<Longrightarrow> follows s s'"
proof (induction hs arbitrary: s)
  case (Cons h hs)
  then obtain t where t: "handle_send_with_end env sending h (create_abort body) s = Some t"
    "abort_all env body f hs (modify (f h) t) = Some s'"
    by (auto split: option.splits)
  show ?case
    by (rule follows_trans [OF follows_trans [OF follows_handle(2) [OF t(1)] follows_modify] Cons.IH [OF t(2)]])
qed simp

lemma follows_destroy:
  "destroy_session env u ps s = Some s' \<Longrightarrow> follows s s'"
  by (auto simp: destroy_session_def split: if_splits bind_splits intro: follows_trans [OF follows_aborts follows_aborts])

lemma follows_deallocate:
  "deallocate_periodic_session_handle env u p s = Some s' \<Longrightarrow> follows s s'"
  by (auto simp: deallocate_periodic_session_handle_def split: if_splits option.splits
      intro: follows_trans [OF follows_modify follows_destroy])

lemma follows_destroy_sessions:
  "destroy_sessions env u order s = Some s' \<Longrightarrow> follows s s'"
proof (induction order arbitrary: s)
  case (Cons p order)
  show ?case
  proof (cases "mSessions (world s) p")
    case (Some ps)
    then obtain t where t: "destroy_session env u ps (modify (\<lambda>w. w\<lparr>mSessions := (mSessions w)(p := None)\<rparr>) s) = Some t"
      "destroy_sessions env u order t = Some s'"
      using Cons.prems by (auto split: option.splits)
    show ?thesis
      by (rule follows_trans [OF follows_trans [OF follows_modify follows_destroy [OF t(1)]] Cons.IH [OF t(2)]])
  qed (use Cons in simp)
qed simp

lemma follows_location:
  "deliver_location env u d s = Some s' \<Longrightarrow> follows s s'"
  "start_periodic_location_information env u h r s = Some (ok, s') \<Longrightarrow> follows s s'"
proof -
  show d: "deliver_location env u d s = Some s' \<Longrightarrow> follows s s'" for d s'
    by (auto simp: deliver_location_def split: if_splits option.splits intro: follows_handle)
  then show "start_periodic_location_information env u h r s = Some (ok, s') \<Longrightarrow> follows s s'"
    by (auto simp: start_periodic_location_information_def Let_def split: if_splits
        intro: follows_trans [OF d follows_modify])
qed

lemma follows_message:
  assumes "process_message env u h m s = Some s'"
  shows "follows s s'"
proof -
  have "follows s s'" if r: "process_request_capabilities env u h m s = Some s'"
  proof -
    let ?handled = "case on_capabilities u of None \<Rightarrow> False | Some f \<Rightarrow> f h m"
    obtain t where t: "(if \<not> ?handled then send_with_end env sending h (new_message (capabilities_body u)) s else Some s) = Some t"
      "s' = (if has_provide_capabilities u then modify (user_called OnProvideCapabilities) t else t)"
      using r unfolding process_request_capabilities_def Let_def map_option_eq_Some by blast
    have "follows s t" using t(1) follows_send_with_end [OF polite_sending] by (cases ?handled) auto
    then show ?thesis using t(2) follows_trans by (auto intro: follows_trans [OF _ follows_modify])
  qed
  moreover have "follows s s'" if "process_request_location_information env u h m s = Some s'"
    using that by (auto simp: process_request_location_information_def split: if_splits option.splits intro: follows_location)
  ultimately show ?thesis using assms by (auto simp: process_message_def split: if_splits)
qed

lemma polite_client: "polite (client_handlers env u)"
  using polite_sending follows_message by (auto simp: polite_def client_handlers_def sending_def)

end
