(* ===== verification/Lpp_Client_Runs.thy ===== *)
theory Lpp_Client_Runs
  imports Lpp_Client_Tables
begin

text \<open>
  Runs of the LPP client: requests of the program, received messages, timers, deferred destructions,
  connections and disconnections in any order, and what holds in all of them.
\<close>

section \<open>Runs\<close>

text \<open>\<open>may\<close> says when the program asks for periodic assistance data.\<close>

inductive client_run ::
  "('t, 'c, 'x message_body) environment \<Rightarrow> ('x, 'd) user \<Rightarrow> (('x, 'd) client \<Rightarrow> bool) \<Rightarrow>
   ('t, 'x, 'd) state \<Rightarrow> ('t, 'x, 'd) state \<Rightarrow> bool"
  for env u may s where
  start: "client_run env u may s s"
| request: "client_run env u may s t \<Longrightarrow> may (world t) \<Longrightarrow> request_periodic_assistance_data env u now data t = Some (p, t') \<Longrightarrow>
    client_run env u may s t'"
| update: "client_run env u may s t \<Longrightarrow> update_assistance_data env u now p new_cell t = Some (ok, t') \<Longrightarrow>
    client_run env u may s t'"
| single: "client_run env u may s t \<Longrightarrow> request_single_assistance_data env u now data t = Some (ok, t') \<Longrightarrow>
    client_run env u may s t'"
| location: "client_run env u may s t \<Longrightarrow> start_unsolicited_location_information env u r t = Some (h, t') \<Longrightarrow>
    client_run env u may s t'"
| receive: "client_run env u may s t \<Longrightarrow> process_lpp_payload env (client_handlers env u) bytes t = Some t' \<Longrightarrow>
    \<forall>m h. decode_lpp_message (env_lpp env) bytes = Some m \<longrightarrow> same_session h m (world t) \<Longrightarrow>
    client_run env u may s t'"
| session_timer: "client_run env u may s t \<Longrightarrow> mSessions (world t) p = Some ps \<Longrightarrow> ps_scheduled ps \<Longrightarrow>
    check_active_requests env u now p t = Some t' \<Longrightarrow> client_run env u may s t'"
| single_timer: "client_run env u may s t \<Longrightarrow> mSingleSessions (world t) k = Some ss \<Longrightarrow> ss_scheduled ss \<Longrightarrow>
    single_check_active_requests env u now k t = Some t' \<Longrightarrow> client_run env u may s t'"
| location_timer: "client_run env u may s t \<Longrightarrow> delivery_tick env u h t = Some t' \<Longrightarrow> client_run env u may s t'"
| deferred: "client_run env u may s t \<Longrightarrow> cl_deferred (world t) = d # ds \<Longrightarrow>
    run_client_deferred env u d (modify (\<lambda>w. w\<lparr>cl_deferred := ds\<rparr>) t) = Some t' \<Longrightarrow> client_run env u may s t'"
| schedule: "client_run env u may s t \<Longrightarrow> schedule_sessions ok ok' (world t) = Some w \<Longrightarrow> client_run env u may s (t\<lparr>world := w\<rparr>)"
| cancel: "client_run env u may s t \<Longrightarrow> set order = dom (mSessions (world t)) \<Longrightarrow>
    cancel_sessions env u order t = Some t' \<Longrightarrow> client_run env u may s t'"
| connection: "client_run env u may s t \<Longrightarrow> only_connection t t' \<Longrightarrow> client_run env u may s t'"

definition fine :: "('t, 'x, 'd) state \<Rightarrow> bool" where
  "fine s \<longleftrightarrow> good s \<and> tx_ok s"

lemma fine_step:
  "fine s \<Longrightarrow> follows s s' \<Longrightarrow> good s' \<Longrightarrow> fine s'"
  by (simp add: fine_def follows_def)

lemma update_ok:
  assumes "fine s" and "update_assistance_data env u now p new_cell s = Some (ok, s')"
  shows "fine s'"
proof (cases "mSessions (world s) p")
  case (Some ps)
  show ?thesis
  proof (cases "request_body u (new_cell (ps_data ps)) (ps_handle ps)")
    case body: (Some body)
    obtain h t where c: "create_transaction sending True s = (h, t)" by fastforce
    show ?thesis
    proof (cases "th_valid h")
      case False
      then have "s' = t" using assms(2) Some body c by (simp add: update_assistance_data_def send_new_request_def)
      then show ?thesis using assms(1) follows_created [OF c] client_sending.good_create [of s True] c
        by (auto simp: fine_def follows_def)
    next
      case True
      then obtain v where v: "handle_send env sending h (new_message body) t = Some v" "s' = modify (register_request p h now) v"
        using assms(2) Some body c by (auto simp: update_assistance_data_def send_new_request_def split: option.splits)
      have s: "tx_ok s" "good s" using assms(1) by (simp_all add: fine_def)
      note new = new_request [OF s c True v(1)]
      have "good s'"
        unfolding v(2) using new register_ok [of "live v" "world v" h p now] by (auto simp: good_iff)
      moreover have "follows s s'"
        unfolding v(2)
        by (rule follows_trans [OF follows_trans [OF follows_created [OF c] follows_handle(1) [OF v(1)]] follows_modify])
      ultimately show ?thesis using fine_step [OF assms(1)] by simp
    qed
  qed (use assms Some in \<open>simp add: update_assistance_data_def\<close>)
qed (use assms in \<open>simp add: update_assistance_data_def\<close>)

lemma single_request_ok:
  assumes "fine s" and "request_single_assistance_data env u now data s = Some (ok, s')"
  shows "fine s'"
proof (cases "request_body u data ps_invalid")
  case (Some body)
  obtain h t where c: "create_transaction sending True s = (h, t)" by fastforce
  show ?thesis
  proof (cases "th_valid h")
    case False
    then have "s' = t" using assms(2) Some c by (simp add: request_single_assistance_data_def)
    then show ?thesis using assms(1) follows_created [OF c] client_sending.good_create [of s True] c
      by (auto simp: fine_def follows_def)
  next
    case True
    then obtain v where v: "handle_send env sending h (new_message body) t = Some v"
      "s' = modify (\<lambda>w. w\<lparr>mSingleSessions := (mSingleSessions w)(h \<mapsto> SingleSession h now data w)\<rparr>) v"
      using assms(2) Some c
      by (auto simp: request_single_assistance_data_def add_single_session_def SingleSession_def modify_def
          split: option.splits)
    have s: "tx_ok s" "good s" using assms(1) by (simp_all add: fine_def)
    note new = new_request [OF s c True v(1)]
    have "good s'" unfolding v(2) using new(1) by (auto simp: good_iff elim: client_ok_same)
    moreover have "follows s s'"
      unfolding v(2)
      by (rule follows_trans [OF follows_trans [OF follows_created [OF c] follows_handle(1) [OF v(1)]] follows_modify])
    ultimately show ?thesis using fine_step [OF assms(1)] by simp
  qed
qed (use assms in \<open>simp add: request_single_assistance_data_def\<close>)

lemma stale_requests_ok:
  "client_ok l w \<Longrightarrow> client_ok l (fold (\<lambda>r. stale_request p) rs w)"
proof (induction rs arbitrary: w)
  case (Cons r rs)
  have "client_ok l (stale_request p w)"
    using Cons.prems by (auto simp: stale_request_def want_to_be_destroyed_def elim: client_ok_same intro: client_ok_called)
  then show ?case using Cons.IH by simp
qed simp

lemma stale_requests_tables [simp]:
  "mRequestTransactions (fold (\<lambda>r. stale_request p) rs w) = mRequestTransactions w"
  by (induction rs arbitrary: w) (simp_all add: stale_request_def want_to_be_destroyed_def)

lemma fewer_requests_ok:
  assumes "client_ok l w" and "\<And>ps. mSessions w p = Some ps \<Longrightarrow> set rs \<subseteq> set (ps_requests ps)"
  shows "client_ok l (update_session p (\<lambda>ps. ps\<lparr>ps_requests := rs\<rparr>) w)"
proof (rule client_okI)
  let ?w = "update_session p (\<lambda>ps. ps\<lparr>ps_requests := rs\<rparr>) w"
  show "session_ok l ?w q r" if r: "mSessions ?w q = Some r" for q r
  proof -
    obtain old where old: "mSessions w q = Some old" "r = (if q = p then old\<lparr>ps_requests := rs\<rparr> else old)"
      using r by (auto split: if_splits)
    then have "session_ok l w q old" using assms(1) by (simp add: client_ok_def)
    then show ?thesis using old assms(2) [of old] by (cases "q = p") (auto simp: session_ok_def)
  qed
  have "open_transactions ?w q = open_transactions w q" for q
    by (auto simp: open_transactions_def split: option.split)
  then show "count_list (calls ?w) (OnEnded q) + open_transactions ?w q \<le> count_list (calls ?w) (OnStarted q)" for q
    using assms(1) by (simp add: client_ok_def)
qed (use assms(1) in \<open>auto simp: client_ok_def\<close>)

lemma check_requests_ok:
  assumes "fine s" and "check_active_requests env u now p s = Some s'"
  shows "fine s'"
proof (cases "mSessions (world s) p")
  case (Some ps)
  let ?stale = "filter (\<lambda>r. now - snd r > five_seconds) (ps_requests ps)"
  let ?fresh = "filter (\<lambda>r. \<not> now - snd r > five_seconds) (ps_requests ps)"
  let ?t = "modify (fold (\<lambda>r. stale_request p) ?stale) (modify (update_session p (\<lambda>ps. ps\<lparr>ps_requests := ?fresh\<rparr>)) s)"
  have ps: "session_ok (live s) (world s) p ps" using assms(1) Some by (simp add: fine_def good_iff client_ok_def)
  then have a: "abort_all env (abort_body u) (unregister_request p) (map fst ?stale) ?t = Some s'"
    using assms(2) Some unfolding check_active_requests_def Let_def by (simp add: session_ok_def)
  have "client_ok (live s) (update_session p (\<lambda>ps. ps\<lparr>ps_requests := ?fresh\<rparr>) (world s))"
    using assms(1) Some by (intro fewer_requests_ok) (auto simp: fine_def good_iff)
  then have "good ?t"
    using assms(1) stale_requests_ok by (simp add: fine_def good_iff)
  moreover have "\<forall>h \<in> set (map fst ?stale). mRequestTransactions (world ?t) h \<in> {None, Some p}"
    using ps by (auto simp: session_ok_def)
  ultimately have "good s'" using abort_requests_ok [OF _ _ a] by blast
  moreover have "follows s s'"
    by (rule follows_trans [OF follows_trans [OF follows_modify follows_modify] follows_aborts [OF a]])
  ultimately show ?thesis using fine_step [OF assms(1)] by blast
qed (use assms in \<open>simp add: check_active_requests_def\<close>)

lemma fine_modify:
  assumes "fine s" and "client_ok (live s) (f (world s))"
  shows "fine (modify f s)"
  using assms fine_step [OF assms(1), of "modify f s"] by (simp add: fine_def good_iff)

lemma single_check_ok:
  assumes "fine s" and "single_check_active_requests env u now k s = Some s'"
  shows "fine s'"
proof (cases "mSingleSessions (world s) k")
  case (Some ss)
  let ?t = "modify (single_try_destroy k ss) (modify (user_called (OnSingleError (ss_transaction ss))) s)"
  have 1: "fine (modify (user_called (OnSingleError (ss_transaction ss))) s)"
    using assms(1) by (intro fine_modify client_ok_called) (simp_all add: fine_def good_iff)
  have sd: "client_ok l (single_try_destroy k ss w)" if "client_ok l w" for l w
    using that by (auto simp: single_try_destroy_def update_single_def want_to_be_destroyed_def
        split: option.split elim: client_ok_same)
  have t: "fine ?t"
    by (rule fine_modify [OF 1], rule sd) (use 1 in \<open>simp add: fine_def good_iff\<close>)
  have "fine v" if "handle_send_with_end env sending h m ?t = Some v" for h m v
    using t fine_step [OF t follows_handle(2) [OF that]] client_sending.good_handle_send(2) [OF _ that]
    by (simp add: fine_def)
  then show ?thesis
    using assms Some t by (auto simp: single_check_active_requests_def Let_def split: if_splits option.splits)
qed (use assms in \<open>simp add: single_check_active_requests_def\<close>)

lemma deferred_ok:
  assumes "fine s" and "run_client_deferred env u d s = Some s'"
  shows "fine s'"
proof (cases d)
  case (Deallocate p)
  then have d: "deallocate_periodic_session_handle env u p s = Some s'" using assms(2) by (simp add: run_client_deferred_def)
  have "good s" using assms(1) by (simp add: fine_def)
  then show ?thesis by (rule fine_step [OF assms(1) follows_deallocate [OF d] deallocate_ok [OF _ d]])
next
  case (RemoveSingle h)
  then have "s' = modify (\<lambda>w. snd (remove_single_session h w)) s" using assms(2) by (simp add: run_client_deferred_def)
  moreover have "fine (modify (\<lambda>w. snd (remove_single_session h w)) s)"
    by (rule fine_modify [OF assms(1)])
      (use assms(1) in \<open>auto simp: remove_single_session_def fine_def good_iff elim: client_ok_same\<close>)
  ultimately show ?thesis by simp
qed

lemma rescheduled_ok:
  assumes "client_ok l w" and "mSessions w' = (\<lambda>p. map_option (\<lambda>ps. ps\<lparr>ps_scheduled := f p\<rparr>) (mSessions w p))"
    and "mRequestTransactions w' = mRequestTransactions w" and "mPeriodicTransactions w' = mPeriodicTransactions w"
    and "never_abort w' = never_abort w" and "calls w' = calls w"
  shows "client_ok l w'"
proof (rule client_okI)
  show "session_ok l w' q r" if r: "mSessions w' q = Some r" for q r
  proof -
    obtain old where old: "mSessions w q = Some old" "r = old\<lparr>ps_scheduled := f q\<rparr>" using r assms(2) by auto
    then have "session_ok l w q old" using assms(1) by (simp add: client_ok_def)
    then show ?thesis by (simp add: session_ok_def old(2) assms(3,4))
  qed
  have "open_transactions w' q = open_transactions w q" for q
    by (simp add: open_transactions_def assms(2) split: option.split)
  then show "count_list (calls w') (OnEnded q) + open_transactions w' q \<le> count_list (calls w') (OnStarted q)" for q
    using assms(1) by (simp add: client_ok_def assms(6))
qed (use assms(1) in \<open>auto simp: client_ok_def assms(3,5)\<close>)

lemma schedule_ok:
  assumes "fine s" and "schedule_sessions ok ok' (world s) = Some w"
  shows "fine (s\<lparr>world := w\<rparr>)"
proof -
  have w: "client_ok (live s) (world s)" using assms(1) by (simp add: fine_def good_iff)
  have "client_ok (live s) w"
    by (rule rescheduled_ok [OF w, of _ ok]) (use assms(2) in \<open>auto simp: schedule_sessions_def split: if_splits\<close>)
  then show ?thesis using assms(1) fine_step [OF assms(1) follows_world] by (simp add: fine_def good_iff)
qed

lemma cancel_ok:
  assumes "fine s" and "set order = dom (mSessions (world s))" and "cancel_sessions env u order s = Some s'"
  shows "fine s' \<and> mSessions (world s') = Map.empty"
proof -
  let ?f = "\<lambda>w. w\<lparr>mSessions := \<lambda>p. map_option (\<lambda>ps. ps\<lparr>ps_scheduled := False\<rparr>) (mSessions w p), cl_scheduled := False\<rparr>"
  let ?s = "modify ?f (s\<lparr>lpp_state := EXIT, supl := None\<rparr>)"
  let ?g = "\<lambda>w. w\<lparr>mRequestTransactions := Map.empty, mPeriodicTransactions := Map.empty, mSingleSessions := Map.empty,
    mLocationInformationDeliveries := Map.empty, mNextSessionId := 1\<rparr>"
  obtain t where t: "destroy_sessions env u order ?s = Some t" and s': "s' = modify ?g t"
    using assms(3) by (auto simp: cancel_sessions_def Let_def split: if_splits)
  have w: "client_ok (live s) (world s)" using assms(1) by (simp add: fine_def good_iff)
  have "client_ok (live s) (?f (world s))"
    by (rule rescheduled_ok [OF w, of _ "\<lambda>_. False"]) simp_all
  then have "good ?s" using assms(1) by (simp add: fine_def good_iff modify_def)
  then have g: "good t" "\<forall>q. mSessions (world ?s) q = None \<or> q \<in> set order \<longrightarrow> mSessions (world t) q = None"
    using destroy_sessions_ok [OF _ t] by simp_all
  have none: "mSessions (world t) = Map.empty"
  proof
    fix q show "mSessions (world t) q = None"
      using g(2) assms(2) by (cases "mSessions (world s) q") (auto simp: modify_def)
  qed
  have "client_ok (live t) (?g (world t))"
    using g(1) none by (auto simp: good_iff client_ok_def open_transactions_def)
  then have "good s'" using g(1) by (simp add: s' good_iff)
  moreover have "follows s s'"
  proof -
    have "follows s ?s" by (rule same_tables_follows) (simp add: same_tables_def modify_def)
    then show ?thesis unfolding s' by (rule follows_trans [OF follows_trans [OF _ follows_destroy_sessions [OF t]] follows_modify])
  qed
  ultimately show ?thesis using fine_step [OF assms(1)] none by (simp add: s')
qed

lemma location_ok:
  assumes "fine s" and "start_unsolicited_location_information env u r s = Some (h, s')"
  shows "fine s'"
proof -
  obtain k t where c: "create_transaction sending False s = (k, t)" by fastforce
  then obtain ok where o: "start_periodic_location_information env u k r t = Some (ok, s')"
    using assms(2) by (auto simp: start_unsolicited_location_information_def)
  have "good t" using assms(1) client_sending.good_create [of s False] c by (simp add: fine_def)
  then show ?thesis
    using fine_step [OF assms(1) follows_trans [OF follows_created [OF c] follows_location(2) [OF o]]]
      start_location_ok [OF _ o] by blast
qed

lemma tick_ok:
  assumes "fine s" and "delivery_tick env u h s = Some s'"
  shows "fine s'"
proof (cases "s' = s")
  case False
  then obtain d where d: "deliver_location env u d s = Some s'"
    using assms(2) by (auto simp: delivery_tick_def split: option.splits if_splits)
  have "good s" using assms(1) by (simp add: fine_def)
  then show ?thesis by (rule fine_step [OF assms(1) follows_location(1) [OF d] deliver_location_ok [OF _ d]])
qed (use assms(1) in simp)

lemma receive_ok:
  assumes "fine s" and "process_lpp_payload env (client_handlers env u) bytes s = Some s'"
    and "\<forall>m h. decode_lpp_message (env_lpp env) bytes = Some m \<longrightarrow> same_session h m (world s)"
  shows "fine s'"
proof -
  have "client_receiving.good s'"
    using assms(1) client_receiving.good_payload [OF _ _ assms(2)] assms(3)
    by (simp add: fine_def good_iff client_receiving.good_def)
  then have "good s'" by (simp add: good_iff client_receiving.good_def)
  then show ?thesis using fine_step [OF assms(1) follows_payload [OF polite_client assms(2)]] by blast
qed

lemma run_fine:
  assumes "client_run env u may s t" and "fine s"
  shows "fine t"
  using assms
proof (induction rule: client_run.induct)
  case (request t now data p t')
  then have t: "tx_ok t" "good t" "fine t" by (simp_all add: fine_def)
  show ?case
    by (rule fine_step [OF t(3) follows_periodic_request [OF request.hyps(3)] periodic_request_ok [OF t(1,2) request.hyps(3)]])
next
  case (deferred t d ds t')
  have "fine (modify (\<lambda>w. w\<lparr>cl_deferred := ds\<rparr>) t)"
    using deferred by (intro fine_modify) (auto simp: fine_def good_iff elim: client_ok_same)
  then show ?case using deferred_ok deferred.hyps(3) by blast
next
  case (connection t t')
  then show ?case
    using fine_step [of t t'] same_tables_follows [of t t'] client_sending.good_connection [of t t']
    by (simp add: fine_def only_connection_def)
next
  case (update t now p new_cell ok t')
  show ?case by (rule update_ok [OF update.IH [OF update.prems] update.hyps(2)])
next
  case (single t now data ok t')
  show ?case by (rule single_request_ok [OF single.IH [OF single.prems] single.hyps(2)])
next
  case (location t r h t')
  show ?case by (rule location_ok [OF location.IH [OF location.prems] location.hyps(2)])
next
  case (receive t bytes t')
  show ?case by (rule receive_ok [OF receive.IH [OF receive.prems] receive.hyps(2,3)])
next
  case (session_timer t p ps now t')
  show ?case by (rule check_requests_ok [OF session_timer.IH [OF session_timer.prems] session_timer.hyps(4)])
next
  case (single_timer t k ss now t')
  show ?case by (rule single_check_ok [OF single_timer.IH [OF single_timer.prems] single_timer.hyps(4)])
next
  case (location_timer t h t')
  show ?case by (rule tick_ok [OF location_timer.IH [OF location_timer.prems] location_timer.hyps(2)])
next
  case (schedule t ok ok' w)
  show ?case by (rule schedule_ok [OF schedule.IH [OF schedule.prems] schedule.hyps(2)])
next
  case (cancel t order t')
  show ?case using cancel_ok [OF cancel.IH [OF cancel.prems] cancel.hyps(2,3)] by simp
qed

lemma fine_start: "fine (lpp_Session Client)"
  using tx_ok_new [of Client]
  by (simp add: fine_def good_iff client_ok_def Client_def lpp_Session_def open_transactions_def)


section \<open>A run\<close>

definition sample_body :: "unit message_body" where
  "sample_body = \<lparr>body_present = LPP_MessageBody_PR_c1, c1_present = PR_requestAssistanceData,
     outer_present = criticalExtensions_PR_c1, outer_c1_present = c1_PR_r9,
     commonIEsRequestLocationInformation = None, commonIEsProvideAssistanceData = None, body_content = ()\<rparr>"

definition sample_user :: "(unit, unit) user" where
  "sample_user = \<lparr>on_capabilities = None, has_provide_capabilities = False, on_request_location_information = None,
     on_provide_location_information_advanced = None, on_provide_location_information = None,
     capabilities_body = sample_body, no_location_body = sample_body, abort_body = sample_body,
     request_body = \<lambda>_ _. Some sample_body\<rparr>"

definition sample_client_env :: "(unit, unit, unit message_body) environment" where
  "sample_client_env = \<lparr>env_tcp = sample_tcp, env_ulp = sample_ulp,
     env_lpp = \<lparr>lpp_uper_encode = \<lambda>m. (8, [1]), lpp_uper_decode = \<lambda>bytes. None\<rparr>\<rparr>"

text \<open>The client is scheduled and asks for periodic assistance data before it is connected.\<close>

definition sample_scheduled :: "(unit, unit, unit) state" where
  "sample_scheduled = (lpp_Session Client)\<lparr>world := Client\<lparr>cl_scheduled := True\<rparr>\<rparr>"

definition sample_requested :: "(unit, unit, unit) state" where
  "sample_requested =
     (case request_periodic_assistance_data sample_client_env sample_user 0 () sample_scheduled of
        None \<Rightarrow> sample_scheduled | Some (_, s) \<Rightarrow> s)"

lemma sample_request:
  "\<exists>s. request_periodic_assistance_data sample_client_env sample_user 0 () sample_scheduled =
     Some (PeriodicSessionHandle 1 TargetDevice, s) \<and> mSessions (world s) (PeriodicSessionHandle 1 TargetDevice) \<noteq> None"
  by (simp add: request_periodic_assistance_data_def allocate_periodic_session_handle_def free_session_id.simps
      sample_scheduled_def lpp_Session_def Client_def sample_user_def send_new_request_def create_transaction_def
      allocate_transaction_def free_id.simps add_transaction_def sending_def call_def handle_send_def send_def
      find_transaction_def new_message_def stamped_def sample_client_env_def encode_lpp_message_def invalid_handle_def
      queue_pos_def lpp_pos_def after_send_def Let_def modify_def)

lemma sample_run:
  "client_run sample_client_env sample_user cl_scheduled (lpp_Session Client) sample_requested"
  "mSessions (world sample_requested) (PeriodicSessionHandle 1 TargetDevice) \<noteq> None"
proof -
  obtain s where s: "request_periodic_assistance_data sample_client_env sample_user 0 () sample_scheduled =
      Some (PeriodicSessionHandle 1 TargetDevice, s)" "mSessions (world s) (PeriodicSessionHandle 1 TargetDevice) \<noteq> None"
    using sample_request by blast
  have "schedule_sessions (\<lambda>_. True) (\<lambda>_. True) (world (lpp_Session Client :: (unit, unit, unit) state)) = Some (Client\<lparr>cl_scheduled := True\<rparr>)"
    by (simp add: schedule_sessions_def lpp_Session_def Client_def)
  then have "client_run sample_client_env sample_user cl_scheduled (lpp_Session Client) sample_scheduled"
    using client_run.schedule [OF client_run.start] unfolding sample_scheduled_def by blast
  moreover have "cl_scheduled (world sample_scheduled)" by (simp add: sample_scheduled_def)
  ultimately have "client_run sample_client_env sample_user cl_scheduled (lpp_Session Client) s"
    using s(1) by (rule client_run.request)
  then show "client_run sample_client_env sample_user cl_scheduled (lpp_Session Client) sample_requested"
    "mSessions (world sample_requested) (PeriodicSessionHandle 1 TargetDevice) \<noteq> None"
    using s by (simp_all add: sample_requested_def)
qed


end
