(* ===== verification/Lpp_Client_Faults.thy ===== *)
theory Lpp_Client_Faults
  imports Lpp_Client_Runs
begin

text \<open>
  What does not work in the LPP client: periodic requests made while the client is connected never time
  out, and a single request that times out is not aborted.
\<close>

section \<open>Timers that are never armed\<close>

text \<open>\<open>arms_none w w'\<close>: from \<open>w\<close> to \<open>w'\<close> no session was made or armed and no error reported.\<close>

definition arms_none :: "('x, 'd) client \<Rightarrow> ('x, 'd) client \<Rightarrow> bool" where
  "arms_none w w' \<longleftrightarrow>
     (\<forall>p ps. mSessions w' p = Some ps \<longrightarrow> (\<exists>old. mSessions w p = Some old \<and> (ps_scheduled ps \<longrightarrow> ps_scheduled old))) \<and>
     (\<forall>p. OnError p \<in> set (calls w') \<longrightarrow> OnError p \<in> set (calls w)) \<and> cl_scheduled w' = cl_scheduled w"

lemma arms_none_refl [simp]: "arms_none w w"
  by (simp add: arms_none_def)

lemma arms_none_trans: "arms_none w w' \<Longrightarrow> arms_none w' w'' \<Longrightarrow> arms_none w w''"
  unfolding arms_none_def by (metis (no_types))

lemma arms_none_same:
  "arms_none w w' \<Longrightarrow> mSessions w'' = mSessions w' \<Longrightarrow> calls w'' = calls w' \<Longrightarrow> cl_scheduled w'' = cl_scheduled w' \<Longrightarrow>
    arms_none w w''"
  by (simp add: arms_none_def)

lemma arms_none_called: "arms_none w w' \<Longrightarrow> (\<And>p. c \<noteq> OnError p) \<Longrightarrow> arms_none w (user_called c w')"
  unfolding arms_none_def by (auto simp: user_called_def)

lemma arms_none_update:
  assumes "arms_none w w'" and "\<And>ps. ps_scheduled (f ps) = ps_scheduled ps"
  shows "arms_none w (update_session p f w')"
proof (rule arms_none_trans [OF assms(1)])
  show "arms_none w' (update_session p f w')"
    unfolding arms_none_def by (auto simp: assms(2))
qed

lemma arms_none_erase: "arms_none w w' \<Longrightarrow> arms_none w (w'\<lparr>mSessions := (mSessions w')(p := None)\<rparr>)"
  by (erule arms_none_trans) (simp add: arms_none_def)

lemma arms_none_unregister: "arms_none w w' \<Longrightarrow> arms_none w (unregister_request p h w')"
  unfolding unregister_request_def by (rule arms_none_same [OF arms_none_update]) simp_all

lemma arms_none_register: "arms_none w w' \<Longrightarrow> arms_none w (register_request p h now w')"
  unfolding register_request_def by (rule arms_none_same [OF arms_none_update]) simp_all

lemma arms_none_ended: "arms_none w w' \<Longrightarrow> arms_none w (handle_periodic_ended p h w')"
  unfolding handle_periodic_ended_def
  by (rule arms_none_called [OF arms_none_same [OF arms_none_update]]) simp_all

lemma arms_none_ended_base: "arms_none w w' \<Longrightarrow> arms_none w (handle_periodic_ended_base h w')"
  by (simp add: handle_periodic_ended_base_def arms_none_def)

lemma arms_none_begin: "arms_none w w' \<Longrightarrow> arms_none w (handle_periodic_begin p h m w')"
  unfolding handle_periodic_begin_def
  by (rule arms_none_called [OF arms_none_called [OF arms_none_same [OF arms_none_update]]]) simp_all

lemma arms_none_periodic_end: "arms_none w w' \<Longrightarrow> arms_none w (periodic_end p h w')"
  by (simp add: periodic_end_def arms_none_unregister arms_none_ended split: option.split)

lemma arms_none_remove_single: "arms_none w w' \<Longrightarrow> arms_none w (snd (remove_single_session h w'))"
  by (simp add: remove_single_session_def arms_none_def)

lemma arms_none_process_end: "arms_none w w' \<Longrightarrow> arms_none w (process_end_transaction h w')"
proof -
  assume w: "arms_none w w'"
  define w1 where "w1 = (case find_by_request_transaction_handle w' h of None \<Rightarrow> w' | Some p \<Rightarrow> periodic_end p h w')"
  define w2 where "w2 = (case mSingleSessions w1 h of None \<Rightarrow> w1 | Some _ \<Rightarrow> snd (remove_single_session h w1))"
  define w3 where "w3 = (case find_by_periodic_transaction_handle w2 h of None \<Rightarrow> w2 | Some p \<Rightarrow> periodic_end p h w2)"
  have 1: "arms_none w w1" unfolding w1_def using w arms_none_periodic_end [OF w] by (simp split: option.split)
  have 2: "arms_none w w2" unfolding w2_def using 1 arms_none_remove_single [OF 1] by (simp split: option.split)
  have 3: "arms_none w w3" unfolding w3_def using 2 arms_none_periodic_end [OF 2] by (simp split: option.split)
  show ?thesis
    unfolding process_end_transaction_def Let_def w1_def [symmetric] w2_def [symmetric] w3_def [symmetric]
    by (rule arms_none_same [OF 3]) simp_all
qed

lemma arms_none_periodic_message: "arms_none w w' \<Longrightarrow> arms_none w (periodic_message p h m w')"
proof -
  assume w: "arms_none w w'"
  have c: "arms_none w (user_called (OnNonPeriodic p m) w')" "arms_none w (user_called (OnPeriodic p m) w')"
    using arms_none_called [OF w] by simp_all
  show ?thesis
    using w c arms_none_periodic_end [OF c(1)] arms_none_begin [OF w]
    by (simp add: periodic_message_def split: option.split)
qed

lemma arms_none_assistance_data: "arms_none w w' \<Longrightarrow> arms_none w (process_provide_assistance_data h m w')"
  using arms_none_called [of w w'] arms_none_periodic_message [of w w']
  by (simp add: process_provide_assistance_data_def single_message_def split: option.split)

text \<open>An instance of the session's user: sending and receiving arm nothing.\<close>

interpretation arms_none_sending:
  session_user sending process_end_transaction "\<lambda>l. arms_none w" "\<lambda>_ _ _. True" for w
  by unfold_locales (simp_all add: arms_none_process_end)

abbreviation unchanged :: "('x, 'd) client \<Rightarrow> ('t, 'x, 'd) state \<Rightarrow> bool" where
  "unchanged w s \<equiv> arms_none_sending.good w s"

lemma unchanged_iff: "unchanged w s \<longleftrightarrow> arms_none w (world s) \<and> \<not> mHackServerInitiatedPush s"
  by (simp add: arms_none_sending.good_def)

lemma unchanged_modify: "unchanged w s \<Longrightarrow> arms_none w (f (world s)) \<Longrightarrow> unchanged w (modify f s)"
  by (simp add: unchanged_iff modify_def)

lemma unchanged_aborts:
  assumes "\<And>h v. arms_none w v \<Longrightarrow> arms_none w (f h v)"
  shows "abort_all env body f hs s = Some s' \<Longrightarrow> unchanged w s \<Longrightarrow> unchanged w s'"
proof (induction hs arbitrary: s)
  case (Cons h hs)
  then obtain t where t: "handle_send_with_end env sending h (create_abort body) s = Some t"
    "abort_all env body f hs (modify (f h) t) = Some s'"
    by (auto split: option.splits)
  have "unchanged w t" by (rule arms_none_sending.good_handle_send(2) [OF Cons.prems(2) t(1)])
  then have "unchanged w (modify (f h) t)" using assms by (intro unchanged_modify) (simp_all add: unchanged_iff)
  then show ?case by (rule Cons.IH [OF t(2)])
qed simp

lemma unchanged_destroy:
  assumes "destroy_session env u ps s = Some s'" and "unchanged w s"
  shows "unchanged w s'"
proof (cases "ps_never_abort ps")
  case False
  then obtain t where t: "abort_all env (abort_body u) (unregister_request (ps_handle ps)) (map fst (ps_requests ps)) s = Some t"
    "abort_all env (abort_body u) handle_periodic_ended_base (ps_periodic ps) t = Some s'"
    using assms(1) by (auto simp: destroy_session_def bind_eq_Some_conv)
  show ?thesis
    by (rule unchanged_aborts [OF arms_none_ended_base t(2) unchanged_aborts [OF arms_none_unregister t(1) assms(2)]])
qed (use assms in \<open>simp add: destroy_session_def\<close>)

lemma unchanged_destroy_sessions:
  "destroy_sessions env u order s = Some s' \<Longrightarrow> unchanged w s \<Longrightarrow> unchanged w s'"
proof (induction order arbitrary: s)
  case (Cons p order)
  show ?case
  proof (cases "mSessions (world s) p")
    case (Some ps)
    then obtain t where t: "destroy_session env u ps (modify (\<lambda>w. w\<lparr>mSessions := (mSessions w)(p := None)\<rparr>) s) = Some t"
      "destroy_sessions env u order t = Some s'"
      using Cons.prems(1) by (auto split: option.splits)
    have "unchanged w (modify (\<lambda>w. w\<lparr>mSessions := (mSessions w)(p := None)\<rparr>) s)"
      using Cons.prems(2) by (intro unchanged_modify arms_none_erase) (simp_all add: unchanged_iff)
    then show ?thesis using Cons.IH [OF t(2)] unchanged_destroy [OF t(1)] by blast
  qed (use Cons in simp)
qed simp


lemma unchanged_location:
  "deliver_location env u d s = Some s' \<Longrightarrow> unchanged w s \<Longrightarrow> unchanged w s'"
  "start_periodic_location_information env u h r s = Some (ok, s') \<Longrightarrow> unchanged w s \<Longrightarrow> unchanged w s'"
proof -
  show d: "deliver_location env u d s = Some s' \<Longrightarrow> unchanged w s \<Longrightarrow> unchanged w s'" for d s'
    by (auto simp: deliver_location_def split: if_splits option.splits intro: arms_none_sending.good_handle_send)
  have "unchanged w (modify (\<lambda>w. w\<lparr>mLocationInformationDeliveries := (mLocationInformationDeliveries w)(h \<mapsto> d)\<rparr>) t)"
    if "unchanged w t" for d t
    using that by (simp add: unchanged_iff modify_def arms_none_def)
  then show "start_periodic_location_information env u h r s = Some (ok, s') \<Longrightarrow> unchanged w s \<Longrightarrow> unchanged w s'"
    using d by (auto simp: start_periodic_location_information_def Let_def split: if_splits)
qed

lemma unchanged_message:
  assumes "process_message env u h m s = Some s'" and s: "unchanged w s"
  shows "unchanged w s'"
proof -
  have "unchanged w s'" if r: "process_request_capabilities env u h m s = Some s'"
  proof -
    let ?handled = "case on_capabilities u of None \<Rightarrow> False | Some f \<Rightarrow> f h m"
    obtain t where t: "(if \<not> ?handled then send_with_end env sending h (new_message (capabilities_body u)) s else Some s) = Some t"
      "s' = (if has_provide_capabilities u then modify (user_called OnProvideCapabilities) t else t)"
      using r unfolding process_request_capabilities_def Let_def map_option_eq_Some by blast
    have "unchanged w t" using t(1) s arms_none_sending.good_send_with_end [OF s] by (cases ?handled) auto
    then show ?thesis using t(2) by (auto simp: unchanged_iff modify_def intro: arms_none_called)
  qed
  moreover have "unchanged w s'" if "process_request_location_information env u h m s = Some s'"
    using that s unchanged_location(2) [OF _ s]
    by (auto simp: process_request_location_information_def split: if_splits option.splits)
  moreover have "unchanged w (modify (process_provide_assistance_data h m) s)"
    using s by (intro unchanged_modify arms_none_assistance_data) (simp_all add: unchanged_iff)
  ultimately show ?thesis using assms by (auto simp: process_message_def split: if_splits)
qed

interpretation arms_none_receiving:
  session_user "client_handlers env u" process_end_transaction "\<lambda>l. arms_none w" "\<lambda>_ _ _. True" for env u w
proof unfold_locales
  show "call (on_begin_transaction (client_handlers env u)) h s = s"
    "call (on_server_end_transaction (client_handlers env u)) h s = s"
    "call (on_end_transaction (client_handlers env u)) h s = s\<lparr>world := process_end_transaction h (world s)\<rparr>" for h s
    using sending_calls by (simp_all add: client_handlers_def)
  show "on_message (client_handlers env u) = Some f \<Longrightarrow> f h m s = Some s' \<Longrightarrow> arms_none w (world s) \<Longrightarrow>
      h \<in> live s \<Longrightarrow> True \<Longrightarrow> \<not> mHackServerInitiatedPush s \<Longrightarrow>
      arms_none w (world s') \<and> \<not> mHackServerInitiatedPush s'" for f h m s s'
    using unchanged_message [of env u h m s s' w] by (simp add: client_handlers_def unchanged_iff)
qed (simp_all add: arms_none_process_end)

lemma unchanged_payload:
  "process_lpp_payload env (client_handlers env u) bytes s = Some s' \<Longrightarrow> fine s \<Longrightarrow> unchanged w s \<Longrightarrow> unchanged w s'"
  using arms_none_receiving.good_payload [of w s env env u bytes s']
  by (simp add: arms_none_receiving.good_def unchanged_iff fine_def)

lemma unchanged_new_request:
  "send_new_request env body s = Some (r, s') \<Longrightarrow> unchanged w s \<Longrightarrow> unchanged w s'"
  using arms_none_sending.good_create [of w s True] arms_none_sending.good_handle_send(1) [of w]
  by (auto simp: send_new_request_def split: prod.splits if_splits)

section \<open>Runs\<close>

text \<open>No timer of a session is armed, no error was reported, and there are sessions only while the client
  is scheduled.\<close>

definition unarmed :: "('x, 'd) client \<Rightarrow> bool" where
  "unarmed w \<longleftrightarrow> (\<forall>p ps. mSessions w p = Some ps \<longrightarrow> \<not> ps_scheduled ps) \<and>
     (\<forall>p. OnError p \<notin> set (calls w)) \<and> (cl_scheduled w \<or> mSessions w = Map.empty)"

lemma unarmed_unchanged:
  assumes "unarmed w" and "arms_none w w'"
  shows "unarmed w'"
proof -
  have "mSessions w' = Map.empty" if "mSessions w = Map.empty"
  proof
    fix p show "mSessions w' p = None"
      using assms(2) that unfolding arms_none_def by (cases "mSessions w' p") auto
  qed
  then show ?thesis using assms unfolding unarmed_def arms_none_def by blast
qed

lemma unarmed_step:
  assumes "fine s" and "unarmed (world s)" and "\<And>w. unchanged w s \<Longrightarrow> unchanged w s'"
  shows "unarmed (world s')"
proof -
  have "unchanged (world s) s" using assms(1) by (simp add: unchanged_iff fine_def good_iff)
  then have "unchanged (world s) s'" by (rule assms(3))
  then show ?thesis using unarmed_unchanged [OF assms(2)] by (simp add: unchanged_iff)
qed


lemma unarmed_request:
  assumes "fine s" and "unarmed (world s)" and "cl_scheduled (world s)"
    and "request_periodic_assistance_data env u now data s = Some (p, s')"
  shows "unarmed (world s')"
proof -
  let ?w = "world s"
  obtain q w where w: "allocate_periodic_session_handle ?w = (q, w)" by fastforce
  then have "arms_none ?w w"
    by (auto simp: allocate_periodic_session_handle_def arms_none_def split: option.splits)
  then have s1: "unchanged ?w (s\<lparr>world := w\<rparr>)" using assms(1) by (simp add: unchanged_iff fine_def good_iff)
  have made: "unarmed (v\<lparr>mRequestTransactions := r, mSessions := (mSessions v)(p \<mapsto> (PeriodicSession p data w)\<lparr>ps_requests := rs\<rparr>)\<rparr>)"
    if "unarmed v" "cl_scheduled v" for v r p rs
    using that by (simp add: unarmed_def PeriodicSession_def)
  have "unchanged ?w s' \<or> (\<exists>t r p rs. unchanged ?w t \<and>
      s' = modify (\<lambda>v. v\<lparr>mRequestTransactions := r v, mSessions := (mSessions v)(p \<mapsto> (PeriodicSession p data w)\<lparr>ps_requests := rs\<rparr>)\<rparr>) t)"
    using assms(4) w s1 unchanged_new_request [OF _ s1]
    by (fastforce simp: request_periodic_assistance_data_def Let_def split: option.splits)
  then show ?thesis
  proof
    assume "unchanged ?w s'"
    then show ?thesis using unarmed_unchanged [OF assms(2)] by (simp add: unchanged_iff)
  next
    assume "\<exists>t r p rs. unchanged ?w t \<and>
      s' = modify (\<lambda>v. v\<lparr>mRequestTransactions := r v, mSessions := (mSessions v)(p \<mapsto> (PeriodicSession p data w)\<lparr>ps_requests := rs\<rparr>)\<rparr>) t"
    then obtain t r p rs where t: "arms_none ?w (world t)"
      "s' = modify (\<lambda>v. v\<lparr>mRequestTransactions := r v, mSessions := (mSessions v)(p \<mapsto> (PeriodicSession p data w)\<lparr>ps_requests := rs\<rparr>)\<rparr>) t"
      by (auto simp: unchanged_iff)
    have "cl_scheduled (world t)" using t(1) assms(3) by (simp add: arms_none_def)
    then show ?thesis using made [OF unarmed_unchanged [OF assms(2) t(1)]] by (simp add: t(2))
  qed
qed

lemma unarmed_update:
  assumes "fine s" and "unarmed (world s)" and "update_assistance_data env u now p new_cell s = Some (ok, s')"
  shows "unarmed (world s')"
proof (rule unarmed_step [OF assms(1,2)])
  fix w assume s: "unchanged w s"
  show "unchanged w s'"
    using assms(3) s unchanged_new_request [OF _ s] unchanged_modify [OF _ arms_none_register]
    by (fastforce simp: update_assistance_data_def unchanged_iff split: option.splits)
qed

lemma unarmed_single:
  assumes "fine s" and "unarmed (world s)" and "request_single_assistance_data env u now data s = Some (ok, s')"
  shows "unarmed (world s')"
proof (rule unarmed_step [OF assms(1,2)])
  fix w assume s: "unchanged w s"
  obtain h t where c: "create_transaction sending True s = (h, t)" by fastforce
  have t: "unchanged w t" using arms_none_sending.good_create [OF s, of True] c by simp
  have "unchanged w (v\<lparr>world := x\<rparr>)"
    if "unchanged w v" "add_single_session ss (world v) = Some (b, x)" for v x ss b
    using that by (auto simp: add_single_session_def unchanged_iff arms_none_def split: if_splits)
  then show "unchanged w s'"
    using assms(3) c s t arms_none_sending.good_handle_send(1) [OF t]
    by (fastforce simp: request_single_assistance_data_def split: option.splits if_splits)
qed

lemma unarmed_single_check:
  assumes "fine s" and "unarmed (world s)" and "single_check_active_requests env u now k s = Some s'"
  shows "unarmed (world s')"
proof (rule unarmed_step [OF assms(1,2)])
  fix w assume s: "unchanged w s"
  show "unchanged w s'"
  proof (cases "mSingleSessions (world s) k")
    case (Some ss)
    let ?t = "modify (single_try_destroy k ss) (modify (user_called (OnSingleError (ss_transaction ss))) s)"
    have "arms_none w (user_called (OnSingleError (ss_transaction ss)) (world s))"
      using s by (intro arms_none_called) (simp_all add: unchanged_iff)
    then have "arms_none w (single_try_destroy k ss (user_called (OnSingleError (ss_transaction ss)) (world s)))"
      by (auto simp: single_try_destroy_def update_single_def want_to_be_destroyed_def arms_none_def split: option.split)
    then have t: "unchanged w ?t" using s by (simp add: unchanged_iff modify_def)
    show ?thesis
      using assms(3) Some s t arms_none_sending.good_handle_send(2) [OF t]
      by (auto simp: single_check_active_requests_def Let_def split: if_splits option.splits)
  qed (use assms(3) s in \<open>simp add: single_check_active_requests_def\<close>)
qed

lemma unarmed_deferred:
  assumes "fine s" and "unarmed (world s)" and "run_client_deferred env u d s = Some s'"
  shows "unarmed (world s')"
proof (rule unarmed_step [OF assms(1,2)])
  fix w assume s: "unchanged w s"
  have "unchanged w (modify (\<lambda>w. w\<lparr>mSessions := (mSessions w)(p := None)\<rparr>) s)" for p
    using s by (intro unchanged_modify arms_none_erase) (simp_all add: unchanged_iff)
  then have dealloc: "unchanged w s'" if "deallocate_periodic_session_handle env u p s = Some s'" for p
    using that s unchanged_destroy [of env u _ "modify (\<lambda>w. w\<lparr>mSessions := (mSessions w)(p := None)\<rparr>) s" s' w]
    by (simp add: deallocate_periodic_session_handle_def split: if_splits option.splits)
  have "unchanged w (modify (\<lambda>w. snd (remove_single_session h w)) s)" for h
    using s by (intro unchanged_modify arms_none_remove_single) (simp_all add: unchanged_iff)
  then show "unchanged w s'"
    using assms(3) dealloc by (cases d) (auto simp: run_client_deferred_def)
qed

lemma unarmed_cancel:
  assumes "fine s" and "unarmed (world s)" and "set order = dom (mSessions (world s))" and "cancel_sessions env u order s = Some s'"
  shows "unarmed (world s')"
proof -
  let ?f = "\<lambda>w. w\<lparr>mSessions := \<lambda>p. map_option (\<lambda>ps. ps\<lparr>ps_scheduled := False\<rparr>) (mSessions w p), cl_scheduled := False\<rparr>"
  let ?s = "modify ?f (s\<lparr>lpp_state := EXIT, supl := None\<rparr>)"
  obtain t where t: "destroy_sessions env u order ?s = Some t" and s': "calls (world s') = calls (world t)"
    using assms(4) by (auto simp: cancel_sessions_def Let_def modify_def split: if_splits)
  have "unchanged (world ?s) ?s" using assms(1) by (simp add: unchanged_iff fine_def good_iff modify_def)
  then have "arms_none (world ?s) (world t)" using unchanged_destroy_sessions [OF t] by (simp add: unchanged_iff)
  then have "OnError p \<notin> set (calls (world s'))" for p
    using assms(2) s' by (auto simp: arms_none_def unarmed_def)
  moreover have "mSessions (world s') = Map.empty" using cancel_ok [OF assms(1,3,4)] by simp
  ultimately show ?thesis by (simp add: unarmed_def)
qed

lemma run_unarmed:
  assumes "client_run env u cl_scheduled s t" and "fine s" and "unarmed (world s)"
  shows "unarmed (world t)"
  using assms
proof (induction rule: client_run.induct)
  case (request t now data p t')
  show ?case by (rule unarmed_request [OF run_fine [OF request.hyps(1) request.prems(1)] request.IH [OF request.prems] request.hyps(2,3)])
next
  case (update t now p new_cell ok t')
  show ?case by (rule unarmed_update [OF run_fine [OF update.hyps(1) update.prems(1)] update.IH [OF update.prems] update.hyps(2)])
next
  case (single t now data ok t')
  show ?case by (rule unarmed_single [OF run_fine [OF single.hyps(1) single.prems(1)] single.IH [OF single.prems] single.hyps(2)])
next
  case (location t r h t')
  obtain k v where c: "create_transaction sending False t = (k, v)" by fastforce
  then obtain ok where o: "start_periodic_location_information env u k r v = Some (ok, t')"
    using location.hyps(2) by (auto simp: start_unsolicited_location_information_def)
  have "unchanged w t'" if "unchanged w t" for w
    using arms_none_sending.good_create [OF that, of False] c unchanged_location(2) [OF o] by simp
  then show ?case by (rule unarmed_step [OF run_fine [OF location.hyps(1) location.prems(1)] location.IH [OF location.prems]])
next
  case (receive t bytes t')
  have t: "fine t" by (rule run_fine [OF receive.hyps(1) receive.prems(1)])
  show ?case by (rule unarmed_step [OF t receive.IH [OF receive.prems] unchanged_payload [OF receive.hyps(2) t]])
next
  case (session_timer t p ps now t')
  then show ?case by (auto simp: unarmed_def)
next
  case (single_timer t k ss now t')
  show ?case
    by (rule unarmed_single_check [OF run_fine [OF single_timer.hyps(1) single_timer.prems(1)] single_timer.IH [OF single_timer.prems] single_timer.hyps(4)])
next
  case (location_timer t h t')
  have "unchanged w t'" if "unchanged w t" for w
    using location_timer.hyps(2) that unchanged_location(1)
    by (auto simp: delivery_tick_def split: option.splits if_splits)
  then show ?case
    by (rule unarmed_step [OF run_fine [OF location_timer.hyps(1) location_timer.prems(1)] location_timer.IH [OF location_timer.prems]])
next
  case (deferred t d ds t')
  let ?t = "modify (\<lambda>w. w\<lparr>cl_deferred := ds\<rparr>) t"
  have t: "fine t" by (rule run_fine [OF deferred.hyps(1) deferred.prems(1)])
  have "fine ?t" using t by (intro fine_modify) (auto simp: fine_def good_iff elim: client_ok_same)
  moreover have "unarmed (world ?t)" using deferred.IH [OF deferred.prems] by (simp add: unarmed_def)
  ultimately show ?case using unarmed_deferred [OF _ _ deferred.hyps(3)] by blast
next
  case (schedule t ok ok' w)
  then show ?case by (auto simp: unarmed_def schedule_sessions_def split: if_splits)
next
  case (cancel t order t')
  show ?case
    by (rule unarmed_cancel [OF run_fine [OF cancel.hyps(1) cancel.prems(1)] cancel.IH [OF cancel.prems] cancel.hyps(2,3)])
next
  case (connection t t')
  then show ?case by (simp add: only_connection_def same_tables_def)
qed

text \<open>C15: A periodic request never times out.  When the program asks for periodic assistance data only while
  the client is scheduled, the timers of the periodic sessions are never armed (only
  \<^verbatim>\<open>Client::schedule\<close> arms them, and it finds no session): in no run is there a session whose timer can
  expire, and the user is never told of an error, however long the server does not answer.\<close>

theorem requests_never_time_out:
  assumes "client_run env u cl_scheduled (lpp_Session Client) s"
  shows "(\<forall>p ps. mSessions (world s) p = Some ps \<longrightarrow> \<not> ps_scheduled ps) \<and> (\<forall>p. OnError p \<notin> set (calls (world s)))"
proof -
  have "unarmed (world (lpp_Session Client))" by (simp add: unarmed_def lpp_Session_def Client_def)
  from run_unarmed [OF assms fine_start this] show ?thesis by (simp add: unarmed_def)
qed

theorem requests_never_time_out_witness:
  "\<exists>ps. mSessions (world sample_requested) (PeriodicSessionHandle 1 TargetDevice) = Some ps \<and> \<not> ps_scheduled ps"
proof -
  obtain ps where ps: "mSessions (world sample_requested) (PeriodicSessionHandle 1 TargetDevice) = Some ps"
    using sample_run(2) by blast
  show ?thesis using requests_never_time_out [OF sample_run(1)] ps by blast
qed

section \<open>A single request that times out\<close>

text \<open>The abort of a single request that has timed out is never sent.  Five seconds after the
  request, the timer of the session tells the user, forgets the transaction and asks for the session's
  removal, and only then sends the abort, on the transaction that it has forgotten: nothing but the
  client's own state changes, and the transaction stays live in the LPP session.\<close>

theorem single_timeout_sends_nothing:
  assumes "mSingleSessions (world s) k = Some ss" and "th_valid (ss_transaction ss)"
    and "now - ss_last_request ss > five_seconds"
  shows "\<exists>w. single_check_active_requests env u now k s = Some (s\<lparr>world := w\<rparr>) \<and>
    calls w = calls (world s) @ [OnSingleError (ss_transaction ss)] \<and>
    mSingleSessions w k = Some (ss\<lparr>ss_transaction := invalid_handle\<rparr>) \<and>
    cl_deferred w = cl_deferred (world s) @ (if cl_scheduled (world s) then [RemoveSingle (ss_transaction ss)] else [])"
  using assms
  by (auto simp: single_check_active_requests_def Let_def modify_def single_try_destroy_def update_single_def
      want_to_be_destroyed_def user_called_def handle_send_with_end_def invalid_handle_def)

theorem single_timeout_sends_nothing_witness:
  "\<exists>w. single_check_active_requests sample_client_env sample_user 6000000000 sample_handle
     ((lpp_Session Client)\<lparr>world := Client\<lparr>mSingleSessions := [sample_handle \<mapsto> SingleSession sample_handle 0 () Client]\<rparr>\<rparr>) =
       Some ((lpp_Session Client)\<lparr>world := w\<rparr>) \<and> calls w = [OnSingleError sample_handle]"
  using single_timeout_sends_nothing
    [of "(lpp_Session Client)\<lparr>world := Client\<lparr>mSingleSessions := [sample_handle \<mapsto> SingleSession sample_handle 0 () Client]\<rparr>\<rparr>"
      sample_handle "SingleSession sample_handle 0 () Client" 6000000000 sample_client_env sample_user]
  by (auto simp: SingleSession_def sample_handle_def five_seconds_def Client_def)

section \<open>A session that is destroyed\<close>


lemma sample_deallocate:
  "deallocate_periodic_session_handle sample_client_env sample_user (PeriodicSessionHandle 1 TargetDevice) sample_requested \<noteq> None"
  by (simp add: deallocate_periodic_session_handle_def destroy_session_def sample_requested_def
      request_periodic_assistance_data_def allocate_periodic_session_handle_def free_session_id.simps
      sample_scheduled_def lpp_Session_def Client_def sample_user_def send_new_request_def create_transaction_def
      allocate_transaction_def free_id.simps add_transaction_def sending_def call_def handle_send_def send_def
      find_transaction_def new_message_def stamped_def sample_client_env_def encode_lpp_message_def invalid_handle_def
      queue_pos_def lpp_pos_def after_send_def Let_def modify_def PeriodicSession_def ps_is_valid_def
      handle_send_with_end_def send_with_end_def create_abort_def)


end
