(* ===== verification/Msgpack.thy ===== *)
theory Msgpack
  imports Ubx_Codec
begin

text \<open>
  The MessagePack reader and writer (dependency/msgpack/msgpack.cpp, msgpack.hpp, vector.hpp).  The
  packer is the buffer it appends to; the unpacker is a record of the data and the offset, and a routine
  of it gives \<open>None\<close> where the code returns false.  The C++ type that selects the overload of
  \<^verbatim>\<open>pack\<close> and \<^verbatim>\<open>unpack\<close> is a \<open>shape\<close>; structures are those of \<^verbatim>\<open>MSGPACK_DEFINE\<close>.  Floating point values
  are their bit patterns.
\<close>

section \<open>Packer\<close>

type_synonym packer = "u8 list"

definition write_byte :: "u8 \<Rightarrow> packer \<Rightarrow> packer" where
  "write_byte byte buffer = buffer @ [byte]"

definition write_bytes :: "u8 list \<Rightarrow> packer \<Rightarrow> packer" where
  "write_bytes data buffer = buffer @ data"

definition be2 :: "u16 \<Rightarrow> u8 list" where "be2 v = [ucast (drop_bit 8 v), ucast v]"

definition be4 :: "u32 \<Rightarrow> u8 list" where
  "be4 v = [ucast (drop_bit 24 v), ucast (drop_bit 16 v), ucast (drop_bit 8 v), ucast v]"

definition write_uint16 :: "u16 \<Rightarrow> packer \<Rightarrow> packer" where
  "write_uint16 value = write_bytes (be2 value)"

definition write_uint32 :: "u32 \<Rightarrow> packer \<Rightarrow> packer" where
  "write_uint32 value = write_bytes (be4 value)"

definition write_uint64 :: "u64 \<Rightarrow> packer \<Rightarrow> packer" where
  "write_uint64 value buffer =
     write_bytes (be4 (ucast (value AND 0xFFFFFFFF))) (write_bytes (be4 (ucast (drop_bit 32 value))) buffer)"

definition pack_nil :: "packer \<Rightarrow> packer" where "pack_nil = write_byte 0xc0"

definition pack_bool :: "bool \<Rightarrow> packer \<Rightarrow> packer" where
  "pack_bool value = write_byte (if value then 0xc3 else 0xc2)"

definition pack_uint :: "u64 \<Rightarrow> packer \<Rightarrow> packer" where
  "pack_uint value buffer =
     (if unat value \<le> 0x7f then write_byte (ucast value) buffer
      else if unat value \<le> 255 then write_byte (ucast value) (write_byte 0xcc buffer)
      else if unat value \<le> 65535 then write_uint16 (ucast value) (write_byte 0xcd buffer)
      else if unat value \<le> 4294967295 then write_uint32 (ucast value) (write_byte 0xce buffer)
      else write_uint64 value (write_byte 0xcf buffer))"

definition pack_int :: "u64 \<Rightarrow> packer \<Rightarrow> packer" where
  "pack_int value buffer =
     (if sint value \<ge> 0 then pack_uint value buffer
      else if sint value \<ge> -32 then write_byte (ucast value) buffer
      else if sint value \<ge> -128 then write_byte (ucast value) (write_byte 0xd0 buffer)
      else if sint value \<ge> -32768 then write_uint16 (ucast value) (write_byte 0xd1 buffer)
      else if sint value \<ge> -2147483648 then write_uint32 (ucast value) (write_byte 0xd2 buffer)
      else write_uint64 value (write_byte 0xd3 buffer))"

definition pack_float :: "u32 \<Rightarrow> packer \<Rightarrow> packer" where
  "pack_float bits buffer = write_uint32 bits (write_byte 0xca buffer)"

definition pack_double :: "u64 \<Rightarrow> packer \<Rightarrow> packer" where
  "pack_double bits buffer = write_uint64 bits (write_byte 0xcb buffer)"

text \<open>\<open>data\<close>: at least \<open>len\<close> bytes.\<close>

definition pack_str :: "u8 list \<Rightarrow> u32 \<Rightarrow> packer \<Rightarrow> packer" where
  "pack_str data len buffer =
     write_bytes (take (unat len) data)
       (if unat len \<le> 31 then write_byte (0xa0 OR ucast len) buffer
        else if unat len \<le> 255 then write_byte (ucast len) (write_byte 0xd9 buffer)
        else if unat len \<le> 65535 then write_uint16 (ucast len) (write_byte 0xda buffer)
        else write_uint32 len (write_byte 0xdb buffer))"

definition pack_bin :: "u8 list \<Rightarrow> u32 \<Rightarrow> packer \<Rightarrow> packer" where
  "pack_bin data len buffer =
     write_bytes (take (unat len) data)
       (if unat len \<le> 255 then write_byte (ucast len) (write_byte 0xc4 buffer)
        else if unat len \<le> 65535 then write_uint16 (ucast len) (write_byte 0xc5 buffer)
        else write_uint32 len (write_byte 0xc6 buffer))"

definition pack_array_header :: "u32 \<Rightarrow> packer \<Rightarrow> packer" where
  "pack_array_header n buffer =
     (if unat n \<le> 15 then write_byte (0x90 OR ucast n) buffer
      else if unat n \<le> 65535 then write_uint16 (ucast n) (write_byte 0xdc buffer)
      else write_uint32 n (write_byte 0xdd buffer))"

definition pack_map_header :: "u32 \<Rightarrow> packer \<Rightarrow> packer" where
  "pack_map_header n buffer =
     (if unat n \<le> 15 then write_byte (0x80 OR ucast n) buffer
      else if unat n \<le> 65535 then write_uint16 (ucast n) (write_byte 0xde buffer)
      else write_uint32 n (write_byte 0xdf buffer))"

section \<open>Unpacker\<close>

record unpacker =
  mData :: "u8 list"
  mOffset :: nat

type_synonym 'a unpacking = "unpacker \<Rightarrow> 'a option \<times> unpacker"

definition Unpacker :: "u8 list \<Rightarrow> unpacker" where
  "Unpacker data = \<lparr>mData = data, mOffset = 0\<rparr>"

definition has_data :: "unpacker \<Rightarrow> bool" where
  "has_data u \<longleftrightarrow> mOffset u < length (mData u)"

text \<open>Returning true with a value, returning false, and going on after a read that may fail.\<close>

definition returns :: "'a \<Rightarrow> 'a unpacking" where "returns x u = (Some x, u)"

definition fails :: "'a unpacking" where "fails u = (None, u)"

definition read_then :: "'a unpacking \<Rightarrow> ('a \<Rightarrow> 'b unpacking) \<Rightarrow> 'b unpacking" where
  "read_then f g u = (case f u of (None, u) \<Rightarrow> (None, u) | (Some x, u) \<Rightarrow> g x u)"

definition read_byte :: "u8 unpacking" where
  "read_byte u =
     (if mOffset u \<ge> length (mData u) then (None, u)
      else (Some (mData u ! mOffset u), u\<lparr>mOffset := mOffset u + 1\<rparr>))"

definition read_bytes :: "nat \<Rightarrow> u8 list unpacking" where
  "read_bytes n u =
     (if mOffset u + n > length (mData u) then (None, u)
      else (Some (take n (drop (mOffset u) (mData u))), u\<lparr>mOffset := mOffset u + n\<rparr>))"

definition read_uint16 :: "u16 unpacking" where
  "read_uint16 = read_then (read_bytes 2) (\<lambda>data.
     returns (push_bit 8 (ucast (data ! 0)) OR ucast (data ! 1)))"

definition read_uint32 :: "u32 unpacking" where
  "read_uint32 = read_then (read_bytes 4) (\<lambda>data.
     returns (push_bit 24 (ucast (data ! 0)) OR push_bit 16 (ucast (data ! 1)) OR
       push_bit 8 (ucast (data ! 2)) OR ucast (data ! 3)))"

definition read_uint64 :: "u64 unpacking" where
  "read_uint64 = read_then read_uint32 (\<lambda>high. read_then read_uint32 (\<lambda>low.
     returns (push_bit 32 (ucast high) OR ucast low)))"

definition unpack_nil :: "unit unpacking" where
  "unpack_nil = read_then read_byte (\<lambda>byte. if byte = 0xc0 then returns () else fails)"

definition unpack_bool :: "bool unpacking" where
  "unpack_bool = read_then read_byte (\<lambda>byte.
     if byte = 0xc2 then returns False else if byte = 0xc3 then returns True else fails)"

definition unpack_int :: "u64 unpacking" where
  "unpack_int = read_then read_byte (\<lambda>byte.
     if byte AND 0x80 = 0 then returns (ucast byte)
     else if byte AND 0xe0 = 0xe0 then returns (scast byte)
     else if byte = 0xcc then read_then read_byte (\<lambda>tmp. returns (ucast tmp))
     else if byte = 0xcd then read_then read_uint16 (\<lambda>tmp. returns (ucast tmp))
     else if byte = 0xce then read_then read_uint32 (\<lambda>tmp. returns (ucast tmp))
     else if byte = 0xcf then read_then read_uint64 returns
     else if byte = 0xd0 then read_then read_byte (\<lambda>tmp. returns (scast tmp))
     else if byte = 0xd1 then read_then read_uint16 (\<lambda>tmp. returns (scast tmp))
     else if byte = 0xd2 then read_then read_uint32 (\<lambda>tmp. returns (scast tmp))
     else if byte = 0xd3 then read_then read_uint64 returns
     else fails)"

definition unpack_uint :: "u64 unpacking" where
  "unpack_uint = read_then read_byte (\<lambda>byte.
     if byte AND 0x80 = 0 then returns (ucast byte)
     else if byte = 0xcc then read_then read_byte (\<lambda>tmp. returns (ucast tmp))
     else if byte = 0xcd then read_then read_uint16 (\<lambda>tmp. returns (ucast tmp))
     else if byte = 0xce then read_then read_uint32 (\<lambda>tmp. returns (ucast tmp))
     else if byte = 0xcf then read_uint64
     else fails)"

definition unpack_float :: "u32 unpacking" where
  "unpack_float = read_then read_byte (\<lambda>byte. if byte \<noteq> 0xca then fails else read_uint32)"

definition unpack_double :: "u64 unpacking" where
  "unpack_double = read_then read_byte (\<lambda>byte. if byte \<noteq> 0xcb then fails else read_uint64)"

definition unpack_str :: "u8 list unpacking" where
  "unpack_str = read_then
     (read_then read_byte (\<lambda>byte.
        if byte AND 0xe0 = 0xa0 then returns (ucast (byte AND 0x1f) :: u32)
        else if byte = 0xd9 then read_then read_byte (\<lambda>len. returns (ucast len))
        else if byte = 0xda then read_then read_uint16 (\<lambda>len. returns (ucast len))
        else if byte = 0xdb then read_uint32
        else fails))
     (\<lambda>len. read_bytes (unat len))"

definition unpack_bin :: "u8 list unpacking" where
  "unpack_bin = read_then
     (read_then read_byte (\<lambda>byte.
        if byte = 0xc4 then read_then read_byte (\<lambda>len. returns (ucast len :: u32))
        else if byte = 0xc5 then read_then read_uint16 (\<lambda>len. returns (ucast len))
        else if byte = 0xc6 then read_uint32
        else fails))
     (\<lambda>len. read_bytes (unat len))"

definition unpack_array_header :: "u32 unpacking" where
  "unpack_array_header = read_then read_byte (\<lambda>byte.
     if byte AND 0xf0 = 0x90 then returns (ucast (byte AND 0x0f))
     else if byte = 0xdc then read_then read_uint16 (\<lambda>tmp. returns (ucast tmp))
     else if byte = 0xdd then read_uint32
     else fails)"

definition unpack_map_header :: "u32 unpacking" where
  "unpack_map_header = read_then read_byte (\<lambda>byte.
     if byte AND 0xf0 = 0x80 then returns (ucast (byte AND 0x0f))
     else if byte = 0xde then read_then read_uint16 (\<lambda>tmp. returns (ucast tmp))
     else if byte = 0xdf then read_uint32
     else fails)"

section \<open>Values\<close>

text \<open>The C++ types with an overload; a structure lists its members.\<close>

datatype shape =
    SBool | SI8 | SI16 | SI32 | SI64 | SU8 | SU16 | SU32 | SU64 | SFloat | SDouble | SStr
  | SVec shape | SStruct "shape list"

datatype cpp_value =
    VBool bool | VI8 u8 | VI16 u16 | VI32 u32 | VI64 u64 | VU8 u8 | VU16 u16 | VU32 u32 | VU64 u64
  | VFloat u32 | VDouble u64 | VStr "u8 list" | VVec "cpp_value list" | VStruct "cpp_value list"

text \<open>The overloads of \<^verbatim>\<open>pack\<close>; the items of a vector and the members of a structure one after the other.\<close>

fun pack_each :: "(packer \<Rightarrow> packer) list \<Rightarrow> packer \<Rightarrow> packer" where
  "pack_each [] buffer = buffer"
| "pack_each (p # ps) buffer = pack_each ps (p buffer)"

primrec pack :: "cpp_value \<Rightarrow> packer \<Rightarrow> packer" where
  "pack (VBool b) = pack_bool b"
| "pack (VI8 v) = pack_int (scast v)"
| "pack (VI16 v) = pack_int (scast v)"
| "pack (VI32 v) = pack_int (scast v)"
| "pack (VI64 v) = pack_int v"
| "pack (VU8 v) = pack_uint (ucast v)"
| "pack (VU16 v) = pack_uint (ucast v)"
| "pack (VU32 v) = pack_uint (ucast v)"
| "pack (VU64 v) = pack_uint v"
| "pack (VFloat v) = pack_float v"
| "pack (VDouble v) = pack_double v"
| "pack (VStr s) = pack_str s (of_nat (length s))"
| "pack (VVec vs) = (\<lambda>buffer. pack_each (map pack vs) (pack_array_header (of_nat (length vs)) buffer))"
| "pack (VStruct vs) = (\<lambda>buffer. pack_each (map pack vs) (pack_array_header (of_nat (length vs)) buffer))"

text \<open>The items of a vector and the members of a structure.\<close>

fun unpack_items :: "'a unpacking \<Rightarrow> nat \<Rightarrow> 'a list unpacking" where
  "unpack_items f 0 = returns []"
| "unpack_items f (Suc n) = read_then f (\<lambda>x. read_then (unpack_items f n) (\<lambda>xs. returns (x # xs)))"

fun unpack_each :: "'a unpacking list \<Rightarrow> 'a list unpacking" where
  "unpack_each [] = returns []"
| "unpack_each (f # fs) = read_then f (\<lambda>x. read_then (unpack_each fs) (\<lambda>xs. returns (x # xs)))"

definition unpack_vector :: "'a unpacking \<Rightarrow> 'a list unpacking" where
  "unpack_vector f = read_then unpack_array_header (\<lambda>n. unpack_items f (unat n))"

definition unpack_struct :: "'a unpacking list \<Rightarrow> 'a list unpacking" where
  "unpack_struct fs = read_then unpack_array_header (\<lambda>n. if unat n \<noteq> length fs then fails else unpack_each fs)"

primrec unpack :: "shape \<Rightarrow> cpp_value unpacking" where
  "unpack SBool = read_then unpack_bool (\<lambda>b. returns (VBool b))"
| "unpack SI8 = read_then unpack_int (\<lambda>tmp. returns (VI8 (ucast tmp)))"
| "unpack SI16 = read_then unpack_int (\<lambda>tmp. returns (VI16 (ucast tmp)))"
| "unpack SI32 = read_then unpack_int (\<lambda>tmp. returns (VI32 (ucast tmp)))"
| "unpack SI64 = read_then unpack_int (\<lambda>tmp. returns (VI64 tmp))"
| "unpack SU8 = read_then unpack_uint (\<lambda>tmp. returns (VU8 (ucast tmp)))"
| "unpack SU16 = read_then unpack_uint (\<lambda>tmp. returns (VU16 (ucast tmp)))"
| "unpack SU32 = read_then unpack_uint (\<lambda>tmp. returns (VU32 (ucast tmp)))"
| "unpack SU64 = read_then unpack_uint (\<lambda>tmp. returns (VU64 tmp))"
| "unpack SFloat = read_then unpack_float (\<lambda>v. returns (VFloat v))"
| "unpack SDouble = read_then unpack_double (\<lambda>v. returns (VDouble v))"
| "unpack SStr = read_then unpack_str (\<lambda>s. returns (VStr s))"
| "unpack (SVec s) = read_then (unpack_vector (unpack s)) (\<lambda>vs. returns (VVec vs))"
| "unpack (SStruct ss) = read_then (unpack_struct (map unpack ss)) (\<lambda>vs. returns (VStruct vs))"

text \<open>Which values have a type; lengths are those of 32 bits.\<close>

primrec fits :: "shape \<Rightarrow> cpp_value \<Rightarrow> bool" where
  "fits SBool = (\<lambda>v. case v of VBool _ \<Rightarrow> True | _ \<Rightarrow> False)"
| "fits SI8 = (\<lambda>v. case v of VI8 _ \<Rightarrow> True | _ \<Rightarrow> False)"
| "fits SI16 = (\<lambda>v. case v of VI16 _ \<Rightarrow> True | _ \<Rightarrow> False)"
| "fits SI32 = (\<lambda>v. case v of VI32 _ \<Rightarrow> True | _ \<Rightarrow> False)"
| "fits SI64 = (\<lambda>v. case v of VI64 _ \<Rightarrow> True | _ \<Rightarrow> False)"
| "fits SU8 = (\<lambda>v. case v of VU8 _ \<Rightarrow> True | _ \<Rightarrow> False)"
| "fits SU16 = (\<lambda>v. case v of VU16 _ \<Rightarrow> True | _ \<Rightarrow> False)"
| "fits SU32 = (\<lambda>v. case v of VU32 _ \<Rightarrow> True | _ \<Rightarrow> False)"
| "fits SU64 = (\<lambda>v. case v of VU64 _ \<Rightarrow> True | _ \<Rightarrow> False)"
| "fits SFloat = (\<lambda>v. case v of VFloat _ \<Rightarrow> True | _ \<Rightarrow> False)"
| "fits SDouble = (\<lambda>v. case v of VDouble _ \<Rightarrow> True | _ \<Rightarrow> False)"
| "fits SStr = (\<lambda>v. case v of VStr s \<Rightarrow> length s < 2 ^ 32 | _ \<Rightarrow> False)"
| "fits (SVec s) = (\<lambda>v. case v of VVec vs \<Rightarrow> length vs < 2 ^ 32 \<and> list_all (fits s) vs | _ \<Rightarrow> False)"
| "fits (SStruct ss) = (\<lambda>v. case v of VStruct vs \<Rightarrow> length vs < 2 ^ 32 \<and> list_all2 (\<lambda>f v. f v) (map fits ss) vs | _ \<Rightarrow> False)"

section \<open>Reading what was written\<close>

lemma packer_appends:
  "write_byte b buffer = buffer @ [b]" "write_uint16 v buffer = buffer @ be2 v" "write_uint32 w buffer = buffer @ be4 w"
  "write_uint64 x buffer = buffer @ be4 (ucast (drop_bit 32 x)) @ be4 (ucast x)" "write_bytes bs buffer = buffer @ bs"
proof -
  have "ucast (x AND 0xFFFFFFFF) = (ucast x :: u32)"
  proof (rule bit_word_eqI)
    fix n assume "n < LENGTH(32)"
    have m: "(0xFFFFFFFF :: u64) = mask 32" by (simp add: mask_eq_exp_minus_1)
    show "bit (ucast (x AND 0xFFFFFFFF) :: u32) n = bit (ucast x :: u32) n"
      unfolding m using \<open>n < LENGTH(32)\<close> by (simp add: bit_simps)
  qed
  then show "write_uint64 x buffer = buffer @ be4 (ucast (drop_bit 32 x)) @ be4 (ucast x)"
    by (simp add: write_uint64_def write_bytes_def)
qed (simp_all add: write_byte_def write_uint16_def write_uint32_def write_bytes_def)

text \<open>\<open>reads f bs x\<close>: where \<open>bs\<close> is next, \<open>f\<close> returns \<open>x\<close> and leaves what follows.\<close>

definition reads :: "'a unpacking \<Rightarrow> u8 list \<Rightarrow> 'a \<Rightarrow> bool" where
  "reads f bs x \<longleftrightarrow> (\<forall>before after. f \<lparr>mData = before @ bs @ after, mOffset = length before\<rparr> =
     (Some x, \<lparr>mData = before @ bs @ after, mOffset = length before + length bs\<rparr>))"

lemma reads_returns: "reads (returns x) [] x"
  by (simp add: reads_def returns_def)

lemma reads_byte: "reads read_byte [b] b"
  by (simp add: reads_def read_byte_def)

lemma reads_bytes: "length bs = n \<Longrightarrow> reads (read_bytes n) bs bs"
  by (simp add: reads_def read_bytes_def)

lemma reads_then:
  assumes "reads f as x" and "reads (g x) bs y"
  shows "reads (read_then f g) (as @ bs) y"
  unfolding reads_def
proof (intro allI)
  fix before after :: "u8 list"
  have "f \<lparr>mData = before @ as @ (bs @ after), mOffset = length before\<rparr> =
      (Some x, \<lparr>mData = before @ as @ (bs @ after), mOffset = length before + length as\<rparr>)"
    using assms(1) by (simp add: reads_def)
  moreover have "g x \<lparr>mData = (before @ as) @ bs @ after, mOffset = length (before @ as)\<rparr> =
      (Some y, \<lparr>mData = (before @ as) @ bs @ after, mOffset = length (before @ as) + length bs\<rparr>)"
    using assms(2) unfolding reads_def by blast
  ultimately show "read_then f g \<lparr>mData = before @ (as @ bs) @ after, mOffset = length before\<rparr> =
      (Some y, \<lparr>mData = before @ (as @ bs) @ after, mOffset = length before + length (as @ bs)\<rparr>)"
    by (simp add: read_then_def add.assoc)
qed

lemma reads_map: "reads f bs x \<Longrightarrow> reads (read_then f (\<lambda>x. returns (g x))) bs (g x)"
  using reads_then [of f bs x "\<lambda>x. returns (g x)" "[]", OF _ reads_returns] by simp

lemma reads_tag: "reads (g b) bs y \<Longrightarrow> reads (read_then read_byte g) (b # bs) y"
  using reads_then [OF reads_byte, of g b bs y] by simp

lemma reads_uint16: "reads read_uint16 (be2 v) v"
  using reads_map [OF reads_bytes [of "be2 v" 2], of "\<lambda>data. push_bit 8 (ucast (data ! 0)) OR ucast (data ! 1) :: u16"]
  by (simp add: read_uint16_def be2_def join2)

lemma reads_uint32: "reads read_uint32 (be4 v) v"
  using reads_map [OF reads_bytes [of "be4 v" 4], of "\<lambda>data. push_bit 24 (ucast (data ! 0)) OR push_bit 16 (ucast (data ! 1)) OR
       push_bit 8 (ucast (data ! 2)) OR ucast (data ! 3) :: u32"]
  by (simp add: read_uint32_def be4_def join4)

lemma join_halves: "push_bit 32 (ucast (ucast (drop_bit 32 v) :: u32)) OR ucast (ucast v :: u32) = v" for v :: u64
  by (rule bit_word_eqI) (auto simp: bit_simps)

lemma reads_uint64: "reads read_uint64 (be4 (ucast (drop_bit 32 v)) @ be4 (ucast v)) v"
  unfolding read_uint64_def
  by (rule reads_then [OF reads_uint32])
    (use reads_map [OF reads_uint32 [of "ucast v"], of "\<lambda>low. push_bit 32 (ucast (ucast (drop_bit 32 v) :: u32)) OR ucast low :: u64"]
      in \<open>simp add: join_halves\<close>)

section \<open>Headers and numbers\<close>

lemma tag_bits:
  fixes b :: u8
  shows "unat b < 128 \<Longrightarrow> b AND 0x80 = 0"
    and "n \<le> 31 \<Longrightarrow> (0xa0 OR word_of_nat n) AND 0xe0 = (0xa0 :: u8) \<and> unat ((0xa0 OR word_of_nat n) AND 0x1f :: u8) = n"
    and "n \<le> 15 \<Longrightarrow> (0x90 OR word_of_nat n) AND 0xf0 = (0x90 :: u8) \<and> unat ((0x90 OR word_of_nat n) AND 0x0f :: u8) = n"
    and "n \<le> 15 \<Longrightarrow> (0x80 OR word_of_nat n) AND 0xf0 = (0x80 :: u8) \<and> unat ((0x80 OR word_of_nat n) AND 0x0f :: u8) = n"
proof -
  show "b AND 0x80 = 0" if "unat b < 128"
  proof (rule bit_word_eqI)
    fix k assume "k < LENGTH(8)"
    have "\<not> bit b 7" using that nat_less_bit [of "unat b" 7 7] by (auto simp: bit_unsigned_iff)
    moreover have "list_all (\<lambda>k. bit (0x80 :: u8) k = (k = 7)) [0..<8]" by code_simp
    then have "bit (0x80 :: u8) k \<longleftrightarrow> k = 7" using \<open>k < LENGTH(8)\<close> by (simp add: list_all_iff)
    ultimately show "bit (b AND 0x80) k = bit (0 :: u8) k" by (auto simp only: bit_and_iff bit_0_eq bot_apply bot_bool_def)
  qed
  have "list_all (\<lambda>n. (0xa0 OR word_of_nat n) AND 0xe0 = (0xa0 :: u8) \<and> unat ((0xa0 OR word_of_nat n) AND 0x1f :: u8) = n) [0..<32]"
    by code_simp
  then show "n \<le> 31 \<Longrightarrow> (0xa0 OR word_of_nat n) AND 0xe0 = (0xa0 :: u8) \<and> unat ((0xa0 OR word_of_nat n) AND 0x1f :: u8) = n"
    by (simp add: list_all_iff)
  have "list_all (\<lambda>n. (0x90 OR word_of_nat n) AND 0xf0 = (0x90 :: u8) \<and> unat ((0x90 OR word_of_nat n) AND 0x0f :: u8) = n) [0..<16]"
    by code_simp
  then show "n \<le> 15 \<Longrightarrow> (0x90 OR word_of_nat n) AND 0xf0 = (0x90 :: u8) \<and> unat ((0x90 OR word_of_nat n) AND 0x0f :: u8) = n"
    by (simp add: list_all_iff)
  have "list_all (\<lambda>n. (0x80 OR word_of_nat n) AND 0xf0 = (0x80 :: u8) \<and> unat ((0x80 OR word_of_nat n) AND 0x0f :: u8) = n) [0..<16]"
    by code_simp
  then show "n \<le> 15 \<Longrightarrow> (0x80 OR word_of_nat n) AND 0xf0 = (0x80 :: u8) \<and> unat ((0x80 OR word_of_nat n) AND 0x0f :: u8) = n"
    by (simp add: list_all_iff)
qed

text \<open>Narrowing a value that is small enough and widening it again.\<close>

lemma narrow_unsigned:
  fixes v :: "'a::len word"
  assumes "unat v < 2 ^ LENGTH('b)"
  shows "ucast (ucast v :: 'b::len word) = v"
proof (rule unsigned_word_eqI [where ?'a = nat])
  have "unat v < 2 ^ LENGTH('a)" by (rule unsigned_less)
  then show "unat (ucast (ucast v :: 'b word) :: 'a word) = unat v"
    using assms by (simp add: unsigned_ucast_eq unsigned_take_bit_eq take_bit_nat_eq_self)
qed

lemma narrow_signed:
  fixes v :: "'a::len word"
  assumes "LENGTH('b) \<le> LENGTH('a)" and "- (2 ^ (LENGTH('b) - 1)) \<le> sint v" and "sint v < 2 ^ (LENGTH('b) - 1)"
  shows "scast (ucast v :: 'b::len word) = v"
proof -
  have "(ucast v :: 'b word) = word_of_int (sint v)"
    by (rule bit_word_eqI, rename_tac n, case_tac "n = LENGTH('a) - 1") (use assms(1) in \<open>auto simp: bit_simps min_def intro: le_antisym dest: bit_imp_le_length\<close>)
  moreover have "sint (word_of_int (sint v) :: 'b word) = sint v"
    by (rule sint_word_of_int) (use assms(2,3) in \<open>simp add: in_range_def\<close>)
  ultimately have "sint (ucast v :: 'b word) = sint v" by simp
  then have "scast (ucast v :: 'b word) = (word_of_int (sint v) :: 'a word)" by (simp only: scast_eq)
  then show ?thesis by simp
qed


lemma small_unsigned:
  "unat v \<le> 127 \<Longrightarrow> ucast (ucast v :: u8) = v" "unat v \<le> 255 \<Longrightarrow> ucast (ucast v :: u8) = v"
  "unat v \<le> 65535 \<Longrightarrow> ucast (ucast v :: u16) = v" "unat v \<le> 4294967295 \<Longrightarrow> ucast (ucast v :: u32) = v" for v :: u64
  by (rule narrow_unsigned; simp)+

lemma unpack_uint_pack: "reads unpack_uint (pack_uint v []) v"
proof (cases "unat v \<le> 0x7f")
  case True
  then have "unat (ucast v :: u8) < 128" by (simp add: unsigned_ucast_eq take_bit_nat_eq_self)
  then have "reads unpack_uint [ucast v] (ucast (ucast v :: u8))"
    unfolding unpack_uint_def by (intro reads_tag) (simp add: tag_bits(1) reads_returns)
  then show ?thesis using True by (simp add: pack_uint_def packer_appends small_unsigned)
next
  case big: False
  have 1: "reads unpack_uint (0xcc # [ucast v]) v" if "unat v \<le> 255"
    unfolding unpack_uint_def by (rule reads_tag) (simp add: reads_map [OF reads_byte [of "ucast v"], where g = "ucast :: u8 \<Rightarrow> u64", unfolded small_unsigned(2) [OF that]])
  have 2: "reads unpack_uint (0xcd # be2 (ucast v)) v" if "unat v \<le> 65535"
    unfolding unpack_uint_def by (rule reads_tag) (simp add: reads_map [OF reads_uint16 [of "ucast v"], where g = "ucast :: u16 \<Rightarrow> u64", unfolded small_unsigned(3) [OF that]])
  have 3: "reads unpack_uint (0xce # be4 (ucast v)) v" if "unat v \<le> 4294967295"
    unfolding unpack_uint_def by (rule reads_tag) (simp add: reads_map [OF reads_uint32 [of "ucast v"], where g = "ucast :: u32 \<Rightarrow> u64", unfolded small_unsigned(4) [OF that]])
  have 4: "reads unpack_uint (0xcf # be4 (ucast (drop_bit 32 v)) @ be4 (ucast v)) v"
    unfolding unpack_uint_def by (rule reads_tag) (simp add: reads_uint64)
  show ?thesis
    using big 1 2 3 4 by (simp add: pack_uint_def packer_appends small_unsigned)
qed

lemma small_negative:
  assumes "-32 \<le> sint v" and "sint v < 0"
  shows "(ucast v :: u8) AND 0x80 \<noteq> 0" and "(ucast v :: u8) AND 0xe0 = 0xe0" and "scast (ucast v :: u8) = (v :: u64)"
proof -
  have "list_all (\<lambda>k. (word_of_int k :: u8) AND 0x80 \<noteq> 0 \<and> (word_of_int k :: u8) AND 0xe0 = 0xe0) [-32..-1]"
    by code_simp
  moreover have "sint v \<in> set [-32..-1]" using assms by simp
  ultimately have "(word_of_int (sint v) :: u8) AND 0x80 \<noteq> 0 \<and> (word_of_int (sint v) :: u8) AND 0xe0 = 0xe0"
    unfolding list_all_iff by blast
  moreover have "(word_of_int (sint v) :: u8) = ucast v"
    by (rule bit_word_eqI) (auto simp: bit_simps)
  ultimately show "(ucast v :: u8) AND 0x80 \<noteq> 0" "(ucast v :: u8) AND 0xe0 = 0xe0"
    by simp_all
  show "scast (ucast v :: u8) = v" by (rule narrow_signed) (use assms in simp_all)
qed

lemma unpack_int_pack: "reads unpack_int (pack_int v []) v"
proof (cases "sint v \<ge> 0")
  case nonneg: True
  show ?thesis
  proof (cases "unat v \<le> 0x7f")
    case True
    then have "unat (ucast v :: u8) < 128" by (simp add: unsigned_ucast_eq take_bit_nat_eq_self)
    then have "reads unpack_int [ucast v] (ucast (ucast v :: u8))"
      unfolding unpack_int_def by (intro reads_tag) (simp add: tag_bits(1) reads_returns)
    then show ?thesis using nonneg True by (simp add: pack_int_def pack_uint_def packer_appends small_unsigned)
  next
    case big: False
    have 1: "reads unpack_int (0xcc # [ucast v]) v" if "unat v \<le> 255"
      unfolding unpack_int_def by (rule reads_tag) (simp add: reads_map [OF reads_byte [of "ucast v"], where g = "ucast :: u8 \<Rightarrow> u64", unfolded small_unsigned(2) [OF that]])
    have 2: "reads unpack_int (0xcd # be2 (ucast v)) v" if "unat v \<le> 65535"
      unfolding unpack_int_def by (rule reads_tag) (simp add: reads_map [OF reads_uint16 [of "ucast v"], where g = "ucast :: u16 \<Rightarrow> u64", unfolded small_unsigned(3) [OF that]])
    have 3: "reads unpack_int (0xce # be4 (ucast v)) v" if "unat v \<le> 4294967295"
      unfolding unpack_int_def by (rule reads_tag) (simp add: reads_map [OF reads_uint32 [of "ucast v"], where g = "ucast :: u32 \<Rightarrow> u64", unfolded small_unsigned(4) [OF that]])
    have 4: "reads unpack_int (0xcf # be4 (ucast (drop_bit 32 v)) @ be4 (ucast v)) v"
      unfolding unpack_int_def by (rule reads_tag) (simp add: reads_map [OF reads_uint64, of "\<lambda>x. x"])
    show ?thesis
      using nonneg big 1 2 3 4 by (simp add: pack_int_def pack_uint_def packer_appends small_unsigned)
  qed
next
  case neg: False
  have 0: "reads unpack_int [ucast v] v" if "-32 \<le> sint v"
    unfolding unpack_int_def
    by (rule reads_tag) (use small_negative [of v] that neg in \<open>simp add: reads_returns\<close>)
  have n: "sint v \<ge> -128 \<Longrightarrow> scast (ucast v :: u8) = v" "sint v \<ge> -32768 \<Longrightarrow> scast (ucast v :: u16) = v"
    "sint v \<ge> -2147483648 \<Longrightarrow> scast (ucast v :: u32) = v"
    by (rule narrow_signed; use neg in simp)+
  have 1: "reads unpack_int (0xd0 # [ucast v]) v" if "sint v \<ge> -128"
    unfolding unpack_int_def by (rule reads_tag) (simp add: reads_map [OF reads_byte [of "ucast v"], where g = "scast :: u8 \<Rightarrow> u64", unfolded n(1) [OF that]])
  have 2: "reads unpack_int (0xd1 # be2 (ucast v)) v" if "sint v \<ge> -32768"
    unfolding unpack_int_def by (rule reads_tag) (simp add: reads_map [OF reads_uint16 [of "ucast v"], where g = "scast :: u16 \<Rightarrow> u64", unfolded n(2) [OF that]])
  have 3: "reads unpack_int (0xd2 # be4 (ucast v)) v" if "sint v \<ge> -2147483648"
    unfolding unpack_int_def by (rule reads_tag) (simp add: reads_map [OF reads_uint32 [of "ucast v"], where g = "scast :: u32 \<Rightarrow> u64", unfolded n(3) [OF that]])
  have 4: "reads unpack_int (0xd3 # be4 (ucast (drop_bit 32 v)) @ be4 (ucast v)) v"
    unfolding unpack_int_def by (rule reads_tag) (simp add: reads_map [OF reads_uint64, of "\<lambda>x. x"])
  show ?thesis
    using neg 0 1 2 3 4 by (simp add: pack_int_def packer_appends)
qed


text \<open>Headers: a short form with the length in the tag, and lengths of one, two and four bytes.\<close>

lemma small_length:
  "unat n \<le> 255 \<Longrightarrow> ucast (ucast n :: u8) = n" "unat n \<le> 65535 \<Longrightarrow> ucast (ucast n :: u16) = n" for n :: u32
  by (rule narrow_unsigned; simp)+

lemma short_tag:
  fixes n :: u32
  shows "unat n \<le> 31 \<Longrightarrow> (0xa0 OR ucast n) AND 0xe0 = (0xa0 :: u8) \<and> ucast ((0xa0 OR ucast n) AND 0x1f :: u8) = n"
    and "unat n \<le> 15 \<Longrightarrow> (0x90 OR ucast n) AND 0xf0 = (0x90 :: u8) \<and> ucast ((0x90 OR ucast n) AND 0x0f :: u8) = n"
    and "unat n \<le> 15 \<Longrightarrow> (0x80 OR ucast n) AND 0xf0 = (0x80 :: u8) \<and> ucast ((0x80 OR ucast n) AND 0x0f :: u8) = n"
proof -
  have c: "(ucast n :: u8) = word_of_nat (unat n)" by simp
  have u: "unat b = unat n \<Longrightarrow> ucast b = n" for b :: u8
    by (rule unsigned_word_eqI [where ?'a = nat]) simp
  show "unat n \<le> 31 \<Longrightarrow> (0xa0 OR ucast n) AND 0xe0 = (0xa0 :: u8) \<and> ucast ((0xa0 OR ucast n) AND 0x1f :: u8) = n"
    unfolding c using tag_bits(2) [of "unat n"] u by blast
  show "unat n \<le> 15 \<Longrightarrow> (0x90 OR ucast n) AND 0xf0 = (0x90 :: u8) \<and> ucast ((0x90 OR ucast n) AND 0x0f :: u8) = n"
    unfolding c using tag_bits(3) [of "unat n"] u by blast
  show "unat n \<le> 15 \<Longrightarrow> (0x80 OR ucast n) AND 0xf0 = (0x80 :: u8) \<and> ucast ((0x80 OR ucast n) AND 0x0f :: u8) = n"
    unfolding c using tag_bits(4) [of "unat n"] u by blast
qed

lemma unpack_array_header_pack: "reads unpack_array_header (pack_array_header n []) n"
proof -
  have 0: "reads unpack_array_header [0x90 OR ucast n] n" if "unat n \<le> 15"
    unfolding unpack_array_header_def
    by (rule reads_tag) (use short_tag(2) [OF that] in \<open>simp add: reads_returns\<close>)
  have 1: "reads unpack_array_header (0xdc # be2 (ucast n)) n" if "unat n \<le> 65535"
    unfolding unpack_array_header_def
    by (rule reads_tag) (simp add: reads_map [OF reads_uint16 [of "ucast n"], where g = "ucast :: u16 \<Rightarrow> u32", unfolded small_length(2) [OF that]])
  have 2: "reads unpack_array_header (0xdd # be4 n) n"
    unfolding unpack_array_header_def by (rule reads_tag) (simp add: reads_uint32)
  show ?thesis using 0 1 2 by (simp add: pack_array_header_def packer_appends)
qed

lemma unpack_map_header_pack: "reads unpack_map_header (pack_map_header n []) n"
proof -
  have 0: "reads unpack_map_header [0x80 OR ucast n] n" if "unat n \<le> 15"
    unfolding unpack_map_header_def
    by (rule reads_tag) (use short_tag(3) [OF that] in \<open>simp add: reads_returns\<close>)
  have 1: "reads unpack_map_header (0xde # be2 (ucast n)) n" if "unat n \<le> 65535"
    unfolding unpack_map_header_def
    by (rule reads_tag) (simp add: reads_map [OF reads_uint16 [of "ucast n"], where g = "ucast :: u16 \<Rightarrow> u32", unfolded small_length(2) [OF that]])
  have 2: "reads unpack_map_header (0xdf # be4 n) n"
    unfolding unpack_map_header_def by (rule reads_tag) (simp add: reads_uint32)
  show ?thesis using 0 1 2 by (simp add: pack_map_header_def packer_appends)
qed

lemma unpack_str_pack:
  assumes "length s < 2 ^ 32"
  shows "reads unpack_str (pack_str s (of_nat (length s)) []) s"
proof -
  let ?n = "of_nat (length s) :: u32"
  have n: "unat ?n = length s" using assms by (simp add: unat_of_nat)
  have b: "reads (read_bytes (unat ?n)) s s" using n by (simp add: reads_bytes)
  have 0: "reads unpack_str ([0xa0 OR ucast ?n] @ s) s" if "unat ?n \<le> 31"
    unfolding unpack_str_def
    by (rule reads_then [where x = ?n], rule reads_tag) (use short_tag(1) [OF that] b in \<open>simp_all add: reads_returns\<close>)
  have 1: "reads unpack_str ((0xd9 # [ucast ?n]) @ s) s" if "unat ?n \<le> 255"
    unfolding unpack_str_def
    by (rule reads_then [where x = ?n], rule reads_tag) (use b in simp_all, simp add: reads_map [OF reads_byte [of "ucast ?n"], where g = "ucast :: u8 \<Rightarrow> u32", unfolded small_length(1) [OF that]])
  have 2: "reads unpack_str ((0xda # be2 (ucast ?n)) @ s) s" if "unat ?n \<le> 65535"
    unfolding unpack_str_def
    by (rule reads_then [where x = ?n], rule reads_tag) (use b in simp_all, simp add: reads_map [OF reads_uint16 [of "ucast ?n"], where g = "ucast :: u16 \<Rightarrow> u32", unfolded small_length(2) [OF that]])
  have 3: "reads unpack_str ((0xdb # be4 ?n) @ s) s"
    unfolding unpack_str_def by (rule reads_then [where x = ?n], rule reads_tag) (use b in simp_all, simp add: reads_uint32)
  show ?thesis using 0 1 2 3 n by (simp add: pack_str_def packer_appends)
qed

lemma unpack_bin_pack:
  assumes "length s < 2 ^ 32"
  shows "reads unpack_bin (pack_bin s (of_nat (length s)) []) s"
proof -
  let ?n = "of_nat (length s) :: u32"
  have n: "unat ?n = length s" using assms by (simp add: unat_of_nat)
  have b: "reads (read_bytes (unat ?n)) s s" using n by (simp add: reads_bytes)
  have 1: "reads unpack_bin ((0xc4 # [ucast ?n]) @ s) s" if "unat ?n \<le> 255"
    unfolding unpack_bin_def
    by (rule reads_then [where x = ?n], rule reads_tag) (use b in simp_all, simp add: reads_map [OF reads_byte [of "ucast ?n"], where g = "ucast :: u8 \<Rightarrow> u32", unfolded small_length(1) [OF that]])
  have 2: "reads unpack_bin ((0xc5 # be2 (ucast ?n)) @ s) s" if "unat ?n \<le> 65535"
    unfolding unpack_bin_def
    by (rule reads_then [where x = ?n], rule reads_tag) (use b in simp_all, simp add: reads_map [OF reads_uint16 [of "ucast ?n"], where g = "ucast :: u16 \<Rightarrow> u32", unfolded small_length(2) [OF that]])
  have 3: "reads unpack_bin ((0xc6 # be4 ?n) @ s) s"
    unfolding unpack_bin_def by (rule reads_then [where x = ?n], rule reads_tag) (use b in simp_all, simp add: reads_uint32)
  show ?thesis using 1 2 3 n by (simp add: pack_bin_def packer_appends)
qed

section \<open>Whole values\<close>

lemma pack_numbers_append:
  "pack_bool b buffer = buffer @ pack_bool b []" "pack_uint v buffer = buffer @ pack_uint v []"
  "pack_int v buffer = buffer @ pack_int v []" "pack_float f buffer = buffer @ pack_float f []"
  "pack_double d buffer = buffer @ pack_double d []" "pack_str s n buffer = buffer @ pack_str s n []"
  "pack_array_header n buffer = buffer @ pack_array_header n []"
proof -
  show u: "pack_uint v buffer = buffer @ pack_uint v []" for v
    unfolding pack_uint_def packer_appends by (simp only: if_distrib [of "append buffer"] append_Nil append_assoc cong: if_cong)
  show "pack_int v buffer = buffer @ pack_int v []"
    unfolding pack_int_def packer_appends u [of v]
    by (simp only: if_distrib [of "append buffer"] append_Nil append_assoc cong: if_cong)
  show "pack_str s n buffer = buffer @ pack_str s n []"
    unfolding pack_str_def packer_appends by (simp split: if_split)
  show "pack_array_header n buffer = buffer @ pack_array_header n []"
    unfolding pack_array_header_def packer_appends by simp
qed (simp_all add: pack_bool_def pack_float_def pack_double_def packer_appends)

lemma fold_packs:
  "\<forall>v \<in> set vs. \<forall>b. pack v b = b @ pack v [] \<Longrightarrow> pack_each (map pack vs) b = b @ concat (map (\<lambda>v. pack v []) vs)"
proof (induction vs arbitrary: b)
  case (Cons v vs)
  then have "pack v b = b @ pack v []" by (meson list.set_intros(1))
  then have "pack_each (map pack (v # vs)) b = pack_each (map pack vs) (b @ pack v [])" by simp
  also have "\<dots> = (b @ pack v []) @ concat (map (\<lambda>v. pack v []) vs)"
    by (rule Cons.IH) (use Cons.prems in \<open>meson list.set_intros(2)\<close>)
  finally show ?case by (simp only: list.map concat.simps append_assoc)
qed simp

lemma pack_appends: "pack v buffer = buffer @ pack v []"
proof (induction v arbitrary: buffer)
  case (VVec vs)
  then have "pack_each (map pack vs) b = b @ concat (map (\<lambda>v. pack v []) vs)" for b
    by (intro fold_packs) blast
  then show ?case
    by (simp only: pack.simps pack_numbers_append(7) [of _ buffer] append_assoc)
next
  case (VStruct vs)
  then have "pack_each (map pack vs) b = b @ concat (map (\<lambda>v. pack v []) vs)" for b
    by (intro fold_packs) blast
  then show ?case
    by (simp only: pack.simps pack_numbers_append(7) [of _ buffer] append_assoc)
qed (simp only: pack.simps, rule pack_numbers_append)+

lemma pack_lists:
  "pack (VVec vs) [] = pack_array_header (of_nat (length vs)) [] @ concat (map (\<lambda>v. pack v []) vs)"
  "pack (VStruct vs) [] = pack_array_header (of_nat (length vs)) [] @ concat (map (\<lambda>v. pack v []) vs)"
proof -
  have "\<forall>v \<in> set vs. \<forall>b. pack v b = b @ pack v []" using pack_appends by blast
  note fold_packs [OF this]
  then show "pack (VVec vs) [] = pack_array_header (of_nat (length vs)) [] @ concat (map (\<lambda>v. pack v []) vs)"
    "pack (VStruct vs) [] = pack_array_header (of_nat (length vs)) [] @ concat (map (\<lambda>v. pack v []) vs)"
    by (simp_all only: pack.simps)
qed

lemma reads_items:
  "\<forall>v \<in> set vs. reads f (p v) v \<Longrightarrow> reads (unpack_items f (length vs)) (concat (map p vs)) vs"
proof (induction vs)
  case (Cons v vs)
  have "reads (read_then (unpack_items f (length vs)) (\<lambda>xs. returns (v # xs))) (concat (map p vs)) (v # vs)"
    by (rule reads_map) (use Cons in simp)
  then have "reads (read_then f (\<lambda>x. read_then (unpack_items f (length vs)) (\<lambda>xs. returns (x # xs)))) (p v @ concat (map p vs)) (v # vs)"
    by (intro reads_then [where x = v]) (use Cons.prems in simp_all)
  then show ?case by simp
qed (simp add: reads_returns)

lemma reads_each:
  "list_all2 (\<lambda>f v. reads f (p v) v) fs vs \<Longrightarrow> reads (unpack_each fs) (concat (map p vs)) vs"
proof (induction fs vs rule: list_all2_induct)
  case (Cons f fs v vs)
  have "reads (read_then (unpack_each fs) (\<lambda>xs. returns (v # xs))) (concat (map p vs)) (v # vs)"
    by (rule reads_map) (use Cons in simp)
  then have "reads (read_then f (\<lambda>x. read_then (unpack_each fs) (\<lambda>xs. returns (x # xs)))) (p v @ concat (map p vs)) (v # vs)"
    by (intro reads_then [where x = v]) (use Cons in simp_all)
  then show ?case by simp
qed (simp add: reads_returns)

lemma reads_vector:
  assumes "length vs < 2 ^ 32" and "\<forall>v \<in> set vs. reads f (pack v []) v"
  shows "reads (read_then (unpack_vector f) (\<lambda>vs. returns (VVec vs))) (pack (VVec vs) []) (VVec vs)"
proof (rule reads_map)
  have "unat (of_nat (length vs) :: u32) = length vs" using assms(1) by (simp add: unat_of_nat)
  then show "reads (unpack_vector f) (pack (VVec vs) []) vs"
    unfolding unpack_vector_def pack_lists
    by (intro reads_then [OF unpack_array_header_pack]) (simp add: reads_items assms(2))
qed

lemma reads_struct:
  assumes "length vs < 2 ^ 32" and "list_all2 (\<lambda>f v. reads f (pack v []) v) fs vs"
  shows "reads (read_then (unpack_struct fs) (\<lambda>vs. returns (VStruct vs))) (pack (VStruct vs) []) (VStruct vs)"
proof (rule reads_map)
  have "unat (of_nat (length vs) :: u32) = length fs"
    using assms list_all2_lengthD by (fastforce simp add: unat_of_nat)
  then show "reads (unpack_struct fs) (pack (VStruct vs) []) vs"
    unfolding unpack_struct_def pack_lists
    by (intro reads_then [OF unpack_array_header_pack]) (simp add: reads_each assms(2))
qed

lemma widened:
  "ucast (scast a :: u64) = a" "ucast (scast b :: u64) = b" "ucast (scast c :: u64) = c"
  "ucast (ucast a :: u64) = a" "ucast (ucast b :: u64) = b" "ucast (ucast c :: u64) = c"
  for a :: u8 and b :: u16 and c :: u32
  by (rule bit_word_eqI, simp add: bit_simps)+

lemma unpack_pack: "fits s v \<Longrightarrow> reads (unpack s) (pack v []) v"
proof (induction s arbitrary: v)
  case SBool
  then obtain b where v: "v = VBool b" by (auto split: cpp_value.splits)
  have "reads unpack_bool (pack_bool b []) b"
    unfolding unpack_bool_def pack_bool_def write_byte_def append_Nil by (rule reads_tag) (simp add: reads_returns)
  then show ?case unfolding v unpack.simps pack.simps by (rule reads_map)
next
  case SI8
  then obtain a where v: "v = VI8 a" by (auto split: cpp_value.splits)
  show ?case
    using reads_map [OF unpack_int_pack [of "scast a"], of "\<lambda>tmp. VI8 (ucast tmp)"] by (simp only: v unpack.simps pack.simps widened)
next
  case SI16
  then obtain a where v: "v = VI16 a" by (auto split: cpp_value.splits)
  show ?case
    using reads_map [OF unpack_int_pack [of "scast a"], of "\<lambda>tmp. VI16 (ucast tmp)"] by (simp only: v unpack.simps pack.simps widened)
next
  case SI32
  then obtain a where v: "v = VI32 a" by (auto split: cpp_value.splits)
  show ?case
    using reads_map [OF unpack_int_pack [of "scast a"], of "\<lambda>tmp. VI32 (ucast tmp)"] by (simp only: v unpack.simps pack.simps widened)
next
  case SI64
  then obtain a where v: "v = VI64 a" by (auto split: cpp_value.splits)
  show ?case unfolding v unpack.simps pack.simps by (rule reads_map [OF unpack_int_pack])
next
  case SU8
  then obtain a where v: "v = VU8 a" by (auto split: cpp_value.splits)
  show ?case
    using reads_map [OF unpack_uint_pack [of "ucast a"], of "\<lambda>tmp. VU8 (ucast tmp)"] by (simp only: v unpack.simps pack.simps widened)
next
  case SU16
  then obtain a where v: "v = VU16 a" by (auto split: cpp_value.splits)
  show ?case
    using reads_map [OF unpack_uint_pack [of "ucast a"], of "\<lambda>tmp. VU16 (ucast tmp)"] by (simp only: v unpack.simps pack.simps widened)
next
  case SU32
  then obtain a where v: "v = VU32 a" by (auto split: cpp_value.splits)
  show ?case
    using reads_map [OF unpack_uint_pack [of "ucast a"], of "\<lambda>tmp. VU32 (ucast tmp)"] by (simp only: v unpack.simps pack.simps widened)
next
  case SU64
  then obtain a where v: "v = VU64 a" by (auto split: cpp_value.splits)
  show ?case unfolding v unpack.simps pack.simps by (rule reads_map [OF unpack_uint_pack])
next
  case SFloat
  then obtain a where v: "v = VFloat a" by (auto split: cpp_value.splits)
  have "reads unpack_float (0xca # be4 a) a"
    unfolding unpack_float_def by (rule reads_tag) (simp add: reads_uint32)
  then have "reads unpack_float (pack_float a []) a" by (simp add: pack_float_def packer_appends)
  then show ?case unfolding v unpack.simps pack.simps by (rule reads_map)
next
  case SDouble
  then obtain a where v: "v = VDouble a" by (auto split: cpp_value.splits)
  have "reads unpack_double (0xcb # be4 (ucast (drop_bit 32 a)) @ be4 (ucast a)) a"
    unfolding unpack_double_def by (rule reads_tag) (simp add: reads_uint64)
  then have "reads unpack_double (pack_double a []) a" by (simp add: pack_double_def packer_appends)
  then show ?case unfolding v unpack.simps pack.simps by (rule reads_map)
next
  case SStr
  then obtain a where v: "v = VStr a" "length a < 2 ^ 32" by (auto split: cpp_value.splits)
  show ?case unfolding v(1) unpack.simps pack.simps by (rule reads_map [OF unpack_str_pack [OF v(2)]])
next
  case (SVec s)
  then obtain vs where v: "v = VVec vs" "length vs < 2 ^ 32" "list_all (fits s) vs" by (auto split: cpp_value.splits)
  show ?case
    unfolding v(1) unpack.simps
    by (rule reads_vector [OF v(2)]) (use SVec.IH v(3) in \<open>simp add: list_all_iff\<close>)
next
  case (SStruct ss)
  then obtain vs where v: "v = VStruct vs" "length vs < 2 ^ 32" "list_all2 (\<lambda>s v. fits s v) ss vs"
    by (auto split: cpp_value.splits simp: list_all2_map1)
  have "list_all2 (\<lambda>s v. reads (unpack s) (pack v []) v) ss vs"
    using v(3) by (rule list.rel_mono_strong) (use SStruct.IH in blast)
  then show ?case
    unfolding v(1) unpack.simps by (intro reads_struct [OF v(2)]) (simp add: list_all2_map1)
qed

text \<open>C12: what is packed is unpacked again.  Any value of a type that the library packs (numbers, strings,
  vectors and structures of these, nested), written to any buffer and read back as the same type, is
  the same value, whatever follows it, and the reader stands behind it.\<close>

theorem msgpack_roundtrip:
  assumes "fits s v"
  shows "unpack s \<lparr>mData = pack v buffer @ rest, mOffset = length buffer\<rparr> =
    (Some v, \<lparr>mData = pack v buffer @ rest, mOffset = length (pack v buffer)\<rparr>)"
  using unpack_pack [OF assms] pack_appends [of v buffer] by (simp add: reads_def)

section \<open>Reading anything\<close>

text \<open>
  What every routine of the unpacker keeps to: it stays within the data and only goes forward, and what it
  has accepted it accepts when more data follow.
\<close>

locale routine =
  fixes f :: "'a unpacking"
  assumes within: "mOffset u \<le> length (mData u) \<Longrightarrow> f u = (r, u') \<Longrightarrow>
      mData u' = mData u \<and> mOffset u \<le> mOffset u' \<and> mOffset u' \<le> length (mData u)"
    and more_data: "f u = (Some x, u') \<Longrightarrow> f (u\<lparr>mData := mData u @ ys\<rparr>) = (Some x, u'\<lparr>mData := mData u' @ ys\<rparr>)"
begin

lemma truncated:
  assumes "reads f bs x" and "n < length bs"
  shows "fst (f (Unpacker (take n bs))) = None"
proof (cases "f (Unpacker (take n bs))")
  case (Pair r u')
  show ?thesis
  proof (cases r)
    case (Some y)
    then have "f (Unpacker bs) = (Some y, u'\<lparr>mData := mData u' @ drop n bs\<rparr>)"
      using more_data [of "Unpacker (take n bs)" y u' "drop n bs"] Pair by (simp add: Unpacker_def)
    moreover have "f (Unpacker bs) = (Some x, \<lparr>mData = bs, mOffset = length bs\<rparr>)"
      using assms(1) unfolding reads_def Unpacker_def by (metis append_Nil append_Nil2 list.size(3) add_0)
    ultimately have "mOffset u' = length bs" by (cases u') simp
    moreover have "mOffset u' \<le> length (take n bs)"
      using within [of "Unpacker (take n bs)" r u'] Pair by (simp add: Unpacker_def)
    ultimately show ?thesis using assms(2) by simp
  qed (simp add: Pair)
qed

end

named_theorems routines \<open>the routines of the unpacker\<close>

lemma routine_basic [routines]:
  "routine (returns x)" "routine fails" "routine read_byte" "routine (read_bytes n)"
  by (unfold_locales; auto simp: returns_def fails_def read_byte_def read_bytes_def nth_append split: if_splits)+

lemma routine_then [routines]:
  assumes "routine f" and "\<And>x. routine (g x)"
  shows "routine (read_then f g)"
proof
  show "mData u' = mData u \<and> mOffset u \<le> mOffset u' \<and> mOffset u' \<le> length (mData u)"
    if u: "mOffset u \<le> length (mData u)" and r: "read_then f g u = (r, u')" for u r u'
  proof (cases "f u")
    case (Pair q v)
    have v: "mData v = mData u \<and> mOffset u \<le> mOffset v \<and> mOffset v \<le> length (mData u)"
      by (rule routine.within [OF assms(1) u Pair])
    show ?thesis
    proof (cases q)
      case (Some x)
      then have "g x v = (r, u')" using r Pair by (simp add: read_then_def)
      then show ?thesis using routine.within [OF assms(2), of v x r u'] v by auto
    qed (use r Pair v in \<open>simp add: read_then_def\<close>)
  qed
  show "read_then f g (u\<lparr>mData := mData u @ ys\<rparr>) = (Some x, u'\<lparr>mData := mData u' @ ys\<rparr>)"
    if r: "read_then f g u = (Some x, u')" for u x u' ys
  proof -
    obtain y v where v: "f u = (Some y, v)" "g y v = (Some x, u')"
      using r by (auto simp: read_then_def split: prod.splits option.splits)
    show ?thesis
      using routine.more_data [OF assms(1) v(1)] routine.more_data [OF assms(2) v(2)] by (simp add: read_then_def)
  qed
qed

lemma routine_if [routines]: "routine f \<Longrightarrow> routine g \<Longrightarrow> routine (if c then f else g)"
  by simp

lemma routine_numbers [routines]:
  "routine read_uint16" "routine read_uint32" "routine read_uint64"
  unfolding read_uint16_def read_uint32_def read_uint64_def by (intro routines)+

lemma routine_reads [routines]:
  "routine unpack_bool" "routine unpack_int" "routine unpack_uint" "routine unpack_float" "routine unpack_double"
  "routine unpack_str" "routine unpack_bin" "routine unpack_array_header" "routine unpack_map_header" "routine unpack_nil"
  unfolding unpack_bool_def unpack_int_def unpack_uint_def unpack_float_def unpack_double_def unpack_str_def
    unpack_bin_def unpack_array_header_def unpack_map_header_def unpack_nil_def
  by (intro routines)+

lemma routine_items: "routine f \<Longrightarrow> routine (unpack_items f n)"
  by (induction n) (simp_all add: routines)

lemma routine_each: "\<forall>f \<in> set fs. routine f \<Longrightarrow> routine (unpack_each fs)"
  by (induction fs) (simp_all add: routines)

interpretation unpack_routine: routine "unpack s" for s
proof (induction s)
  case (SVec s)
  then show ?case by (simp add: unpack_vector_def routines routine_items)
next
  case (SStruct ss)
  then have "routine (unpack_each (map unpack ss))" by (intro routine_each) auto
  then show ?case by (simp add: unpack_struct_def routines)
qed (simp_all add: routines)

text \<open>Reading never leaves the data.  On any bytes, with any type, a reader that stands within the data
  stands within them afterwards, no earlier than before, whether the read succeeded or not.\<close>

theorem unpack_in_bounds:
  assumes "mOffset u \<le> length (mData u)"
  shows "mData (snd (unpack s u)) = mData u \<and> mOffset u \<le> mOffset (snd (unpack s u)) \<and>
    mOffset (snd (unpack s u)) \<le> length (mData u)"
  using unpack_routine.within [OF assms, of s "fst (unpack s u)" "snd (unpack s u)"] by simp

text \<open>C25: truncated data are rejected.  If any number of bytes is missing at the end of a packed value, reading
  it fails.\<close>

theorem truncated_data_rejected:
  assumes "fits s v" and "n < length (pack v [])"
  shows "fst (unpack s (Unpacker (take n (pack v [])))) = None"
  by (rule unpack_routine.truncated [OF unpack_pack [OF assms(1)] assms(2)])

section \<open>What is read has the type\<close>

definition gives :: "'a unpacking \<Rightarrow> ('a \<Rightarrow> bool) \<Rightarrow> bool" where
  "gives f P \<longleftrightarrow> (\<forall>u x u'. f u = (Some x, u') \<longrightarrow> P x)"

lemma gives_then: "gives f Q \<Longrightarrow> (\<And>x. Q x \<Longrightarrow> gives (g x) P) \<Longrightarrow> gives (read_then f g) P"
  by (fastforce simp: gives_def read_then_def split: prod.splits option.splits)

lemma gives_returns [simp]: "gives (returns x) P \<longleftrightarrow> P x"
  by (simp add: gives_def returns_def)

lemma gives_fails [simp]: "gives fails P"
  by (simp add: gives_def fails_def)

lemma gives_any: "gives f (\<lambda>_. True)"
  by (simp add: gives_def)

lemma gives_map: "(\<And>x. P (g x)) \<Longrightarrow> gives (read_then f (\<lambda>x. returns (g x))) P"
  by (rule gives_then [OF gives_any]) simp

lemma gives_str: "gives unpack_str (\<lambda>s. length s < 2 ^ 32)"
  unfolding unpack_str_def
proof (rule gives_then [OF gives_any])
  fix len :: u32
  have "unat len < 2 ^ LENGTH(32)" by (rule unsigned_less)
  then show "gives (read_bytes (unat len)) (\<lambda>s. length s < 2 ^ 32)"
    by (auto simp: gives_def read_bytes_def split: if_splits)
qed

lemma gives_items: "gives f P \<Longrightarrow> gives (unpack_items f n) (\<lambda>xs. length xs = n \<and> list_all P xs)"
proof (induction n)
  case (Suc n)
  show ?case
    unfolding unpack_items.simps
    by (rule gives_then [OF Suc.prems], rule gives_then [OF Suc.IH [OF Suc.prems]]) simp
qed simp

lemma gives_each: "list_all2 gives fs Ps \<Longrightarrow> gives (unpack_each fs) (\<lambda>xs. list_all2 (\<lambda>P x. P x) Ps xs)"
proof (induction fs Ps rule: list_all2_induct)
  case (Cons f fs P Ps)
  show ?case
    unfolding unpack_each.simps by (rule gives_then [OF Cons.hyps(1)], rule gives_then [OF Cons.IH]) simp
qed simp

lemma gives_fits: "gives (unpack s) (fits s)"
proof (induction s)
  case SStr
  show ?case unfolding unpack.simps by (rule gives_then [OF gives_str]) simp
next
  case (SVec s)
  have "unat n < 2 ^ LENGTH(32)" for n :: u32 by (rule unsigned_less)
  then have n: "unat n < 2 ^ 32" for n :: u32 by simp
  have "gives (unpack_vector (unpack s)) (\<lambda>vs. length vs < 2 ^ 32 \<and> list_all (fits s) vs)"
    unfolding unpack_vector_def
  proof (rule gives_then [OF gives_any])
    fix k :: u32
    show "gives (unpack_items (unpack s) (unat k)) (\<lambda>vs. length vs < 2 ^ 32 \<and> list_all (fits s) vs)"
      using gives_items [OF SVec.IH, of "unat k"] n [of k] by (auto simp: gives_def)
  qed
  then show ?case unfolding unpack.simps by (rule gives_then) simp
next
  case (SStruct ss)
  have "unat n < 2 ^ LENGTH(32)" for n :: u32 by (rule unsigned_less)
  then have n: "unat n < 2 ^ 32" for n :: u32 by simp
  have "list_all2 gives (map unpack ss) (map fits ss)"
    using SStruct.IH by (simp add: list_all2_map1 list_all2_map2 list.rel_refl_strong)
  note each = gives_each [OF this]
  have "gives (unpack_struct (map unpack ss)) (\<lambda>vs. length vs < 2 ^ 32 \<and> list_all2 (\<lambda>f v. f v) (map fits ss) vs)"
    unfolding unpack_struct_def
  proof (rule gives_then [OF gives_any])
    fix k :: u32
    show "gives (if unat k \<noteq> length (map unpack ss) then fails else unpack_each (map unpack ss))
        (\<lambda>vs. length vs < 2 ^ 32 \<and> list_all2 (\<lambda>f v. f v) (map fits ss) vs)"
      using each n [of k] list_all2_lengthD by (fastforce simp: gives_def fails_def)
  qed
  then show ?case unfolding unpack.simps by (rule gives_then) simp
qed (simp_all add: gives_map)


text \<open>An integer that does not fit is cut off.  A packed 64 bit integer that is read as an 8 bit one
  is accepted, whatever its value, and gives the low eight bits: for every value outside of -128 to 127
  the reader reports success with another number.\<close>

theorem narrow_integer_cut:
  assumes "sint x < -128 \<or> 127 < sint x"
  shows "\<exists>y. fst (unpack SI8 (Unpacker (pack (VI64 x) []))) = Some (VI8 y) \<and> sint y \<noteq> sint x"
proof -
  have "reads (unpack SI8) (pack (VI64 x) []) (VI8 (ucast x))"
    unfolding unpack.simps pack.simps by (rule reads_map [OF unpack_int_pack])
  then have "fst (unpack SI8 (Unpacker (pack (VI64 x) []))) = Some (VI8 (ucast x))"
    unfolding reads_def Unpacker_def by (metis append_Nil append_Nil2 fst_conv list.size(3))
  moreover have "sint (ucast x :: u8) \<noteq> sint x"
    using sint_ge [of "ucast x :: u8"] sint_lt [of "ucast x :: u8"] assms by fastforce
  ultimately show ?thesis by blast
qed

section \<open>Witnesses\<close>

definition sample_shape :: shape where
  "sample_shape = SStruct [SI32, SVec (SStruct [SU8, SStr]), SBool]"

definition sample_value :: cpp_value where
  "sample_value = VStruct [VI32 (-5), VVec [VStruct [VU8 200, VStr [72, 105]], VStruct [VU8 7, VStr []]], VBool True]"

lemma sample_fits: "fits sample_shape sample_value"
  by (simp add: sample_shape_def sample_value_def)

theorem msgpack_roundtrip_witness:
  "unpack sample_shape \<lparr>mData = pack sample_value [1, 2] @ [3], mOffset = 2\<rparr> =
    (Some sample_value, \<lparr>mData = pack sample_value [1, 2] @ [3], mOffset = length (pack sample_value [1, 2])\<rparr>)"
  using msgpack_roundtrip [OF sample_fits, of "[1, 2]" "[3]"] by (simp add: numeral_2_eq_2)

theorem unpack_in_bounds_witness:
  "mOffset (snd (unpack sample_shape (Unpacker [0x93, 0xfb, 0x92]))) \<le> 3"
  using unpack_in_bounds [of "Unpacker [0x93, 0xfb, 0x92]" sample_shape] by (simp add: Unpacker_def)

theorem truncated_data_rejected_witness:
  "fst (unpack SI8 (Unpacker (take 1 (pack (VI8 (-100)) [])))) = None"
  by (rule truncated_data_rejected) (simp_all add: pack_int_def write_byte_def)


theorem narrow_integer_cut_witness:
  "\<exists>y. fst (unpack SI8 (Unpacker (pack (VI64 300) []))) = Some (VI8 y) \<and> sint y \<noteq> sint (300 :: u64)"
  by (rule narrow_integer_cut) simp

end
