(* ===== verification/Gnss_Ids.thy ===== *)
theory Gnss_Ids
  imports Text_Lib Complex_Main
begin

text \<open>
  Names of satellites and signals (dependency/gnss/satellite_id.cpp, signal_id.cpp and their headers).
  Both classes hold a constellation and the 0-based number that LPP uses; the tables give names, RTCM
  numbers and frequencies.  A failed assertion and \<^verbatim>\<open>CORE_UNREACHABLE\<close> are \<open>Undefined\<close>, an empty \<^verbatim>\<open>Maybe\<close>
  is \<open>None\<close> (\<open>Null\<close> where both occur).
\<close>

section \<open>Satellites\<close>

text \<open>\<^verbatim>\<open>SatelliteId::Gnss\<close> and \<^verbatim>\<open>SignalId::Gnss\<close> have the same values.\<close>

datatype Gnss = UNKNOWN | GPS | GLONASS | GALILEO | BEIDOU | QZSS

primrec gnss_value :: "Gnss \<Rightarrow> nat" where
  "gnss_value UNKNOWN = 0"
| "gnss_value GPS = 1"
| "gnss_value GLONASS = 2"
| "gnss_value GALILEO = 3"
| "gnss_value BEIDOU = 4"
| "gnss_value QZSS = 5"

datatype SatelliteId = SatelliteId (sat_gnss: Gnss) (sat_lpp_id: int)

text \<open>\<^verbatim>\<open>static_cast<int32_t>\<close> of a \<^verbatim>\<open>long\<close>.\<close>

definition int32 :: "int \<Rightarrow> int" where
  "int32 i = sint (word_of_int i :: u32)"

definition LPP_SATELLITE_ID_LIMIT :: int where "LPP_SATELLITE_ID_LIMIT = 64"

definition invalid :: SatelliteId where "invalid = SatelliteId UNKNOWN (- 1)"

definition from_lpp :: "Gnss \<Rightarrow> int \<Rightarrow> SatelliteId" where
  "from_lpp gnss n =
     (if n \<ge> LPP_SATELLITE_ID_LIMIT then invalid else SatelliteId gnss (int32 n))"

definition from_gps_prn :: "u8 \<Rightarrow> SatelliteId" where
  "from_gps_prn prn = (if prn \<ge> 1 \<and> prn \<le> 32 then SatelliteId GPS (int (unat prn) - 1) else invalid)"

definition from_gal_prn :: "u8 \<Rightarrow> SatelliteId" where
  "from_gal_prn prn = (if prn \<ge> 1 \<and> prn \<le> 36 then SatelliteId GALILEO (int (unat prn) - 1) else invalid)"

definition from_bds_prn :: "u8 \<Rightarrow> SatelliteId" where
  "from_bds_prn prn = (if prn \<ge> 1 \<and> prn \<le> 63 then SatelliteId BEIDOU (int (unat prn) - 1) else invalid)"

definition from_qzs_prn :: "u8 \<Rightarrow> SatelliteId" where
  "from_qzs_prn prn =
     (if prn \<ge> 193 \<and> prn \<le> 202 then SatelliteId QZSS (int (unat prn) - 193) else invalid)"

text \<open>\<^verbatim>\<open>strtol\<close> in base 10: the number and what follows it; without digits nothing is consumed.\<close>

definition strtol :: "bytes \<Rightarrow> int \<times> bytes" where
  "strtol s =
     (let t = dropWhile is_space s;
          negative = (t \<noteq> [] \<and> hd t = 0x2D);
          d = (if t \<noteq> [] \<and> (hd t = 0x2D \<or> hd t = 0x2B) then tl t else t);
          ds = takeWhile (is_digit 10) d;
          n = (if negative then - int (number_value 10 ds) else int (number_value 10 ds))
      in if ds = [] then (0, s) else (max (- (2 ^ 63)) (min (2 ^ 63 - 1) n), drop (length ds) d))"

definition from_string :: "bytes \<Rightarrow> SatelliteId" where
  "from_string s =
     (if length s < 3 then invalid
      else
        let gnss = (if s ! 0 = 0x47 then GPS else if s ! 0 = 0x52 then GLONASS
                    else if s ! 0 = 0x45 then GALILEO else if s ! 0 = 0x43 then BEIDOU
                    else if s ! 0 = 0x4A then QZSS else UNKNOWN)
        in if gnss = UNKNOWN then invalid
           else case strtol (tl s) of (lpp_id, rest) \<Rightarrow>
             if rest \<noteq> [] then invalid
             else if lpp_id < 1 then invalid
             else from_lpp gnss (lpp_id - 1))"

definition sat_lpp :: "SatelliteId \<Rightarrow> int option" where
  "sat_lpp s =
     (if sat_lpp_id s \<ge> 0 \<and> sat_lpp_id s < LPP_SATELLITE_ID_LIMIT then Some (sat_lpp_id s) else None)"

definition as_df009 :: "SatelliteId \<Rightarrow> int option" where
  "as_df009 s =
     (if sat_gnss s = GPS \<and> sat_lpp_id s \<ge> 0 \<and> sat_lpp_id s < LPP_SATELLITE_ID_LIMIT
      then Some (sat_lpp_id s + 1) else None)"

definition as_df038 :: "SatelliteId \<Rightarrow> int option" where
  "as_df038 s =
     (if sat_gnss s = GLONASS \<and> sat_lpp_id s \<ge> 0 \<and> sat_lpp_id s < LPP_SATELLITE_ID_LIMIT
      then Some (sat_lpp_id s + 1) else None)"

definition sat_as_msm :: "SatelliteId \<Rightarrow> int option" where
  "sat_as_msm s =
     (if sat_lpp_id s \<ge> 0 \<and> sat_lpp_id s < LPP_SATELLITE_ID_LIMIT then Some (sat_lpp_id s + 1) else None)"

definition prn :: "SatelliteId \<Rightarrow> u8 option" where
  "prn s =
     (if sat_lpp_id s \<ge> 0 \<and> sat_lpp_id s < LPP_SATELLITE_ID_LIMIT
      then Some (word_of_int (sat_lpp_id s + 1)) else None)"

definition GPS_ABS_COUNT :: int where "GPS_ABS_COUNT = 32"
definition GLO_ABS_COUNT :: int where "GLO_ABS_COUNT = 24"
definition GAL_ABS_COUNT :: int where "GAL_ABS_COUNT = 36"
definition BDS_ABS_COUNT :: int where "BDS_ABS_COUNT = 63"
definition QZS_ABS_COUNT :: int where "QZS_ABS_COUNT = 10"

definition GPS_ABS_MIN :: int where "GPS_ABS_MIN = 0"
definition GLO_ABS_MIN :: int where "GLO_ABS_MIN = (GPS_ABS_MIN + GPS_ABS_COUNT - 1) + 1"
definition GAL_ABS_MIN :: int where "GAL_ABS_MIN = (GLO_ABS_MIN + GLO_ABS_COUNT - 1) + 1"
definition BDS_ABS_MIN :: int where "BDS_ABS_MIN = (GAL_ABS_MIN + GAL_ABS_COUNT - 1) + 1"
definition QZS_ABS_MIN :: int where "QZS_ABS_MIN = (BDS_ABS_MIN + BDS_ABS_COUNT - 1) + 1"
definition SATELLITE_ID_MAX :: int where "SATELLITE_ID_MAX = (QZS_ABS_MIN + QZS_ABS_COUNT - 1) + 1"

definition absolute_id :: "SatelliteId \<Rightarrow> int" where
  "absolute_id s =
     (case sat_gnss s of
        GPS \<Rightarrow> GPS_ABS_MIN + sat_lpp_id s
      | GLONASS \<Rightarrow> GLO_ABS_MIN + sat_lpp_id s
      | GALILEO \<Rightarrow> GAL_ABS_MIN + sat_lpp_id s
      | BEIDOU \<Rightarrow> BDS_ABS_MIN + sat_lpp_id s
      | QZSS \<Rightarrow> QZS_ABS_MIN + sat_lpp_id s
      | UNKNOWN \<Rightarrow> - 1)"

definition sat_is_valid :: "SatelliteId \<Rightarrow> bool" where
  "sat_is_valid s \<longleftrightarrow> sat_gnss s \<noteq> UNKNOWN \<and> sat_lpp_id s \<noteq> - 1"

text \<open>The conversion \<^verbatim>\<open>%02d\<close> of \<^verbatim>\<open>snprintf\<close>.\<close>

definition two_digits :: "int \<Rightarrow> bytes" where
  "two_digits i =
     (if i < 0 then 0x2D # decimal (nat (- i))
      else if i < 10 then 0x30 # decimal (nat i) else decimal (nat i))"

definition sat_to_string :: "SatelliteId \<Rightarrow> bytes" where
  "sat_to_string s =
     (case sat_gnss s of
        GPS \<Rightarrow> 0x47 | GLONASS \<Rightarrow> 0x52 | GALILEO \<Rightarrow> 0x45 | BEIDOU \<Rightarrow> 0x43 | QZSS \<Rightarrow> 0x4A | UNKNOWN \<Rightarrow> 0x55)
      # two_digits (sat_lpp_id s)"

definition gGpsSatelliteNames :: "string list" where
  "gGpsSatelliteNames = [
     ''G01'', ''G02'', ''G03'', ''G04'', ''G05'', ''G06'', ''G07'', ''G08'', ''G09'', ''G10'', ''G11'',
     ''G12'', ''G13'', ''G14'', ''G15'', ''G16'', ''G17'', ''G18'', ''G19'', ''G20'', ''G21'', ''G22'',
     ''G23'', ''G24'', ''G25'', ''G26'', ''G27'', ''G28'', ''G29'', ''G30'', ''G31'', ''G32'']"

definition gGloSatelliteNames :: "string list" where
  "gGloSatelliteNames = [
     ''R01'', ''R02'', ''R03'', ''R04'', ''R05'', ''R06'', ''R07'', ''R08'', ''R09'', ''R10'', ''R11'',
     ''R12'', ''R13'', ''R14'', ''R15'', ''R16'', ''R17'', ''R18'', ''R19'', ''R20'', ''R21'', ''R22'',
     ''R23'', ''R24'']"

definition gGalSatelliteNames :: "string list" where
  "gGalSatelliteNames = [
     ''E01'', ''E02'', ''E03'', ''E04'', ''E05'', ''E06'', ''E07'', ''E08'', ''E09'', ''E10'', ''E11'',
     ''E12'', ''E13'', ''E14'', ''E15'', ''E16'', ''E17'', ''E18'', ''E19'', ''E20'', ''E21'', ''E22'',
     ''E23'', ''E24'', ''E25'', ''E26'', ''E27'', ''E28'', ''E29'', ''E30'', ''E31'', ''E32'', ''E33'',
     ''E34'', ''E35'', ''E36'']"

definition gBdsSatelliteNames :: "string list" where
  "gBdsSatelliteNames = [
     ''C01'', ''C02'', ''C03'', ''C04'', ''C05'', ''C06'', ''C07'', ''C08'', ''C09'', ''C10'', ''C11'',
     ''C12'', ''C13'', ''C14'', ''C15'', ''C16'', ''C17'', ''C18'', ''C19'', ''C20'', ''C21'', ''C22'',
     ''C23'', ''C24'', ''C25'', ''C26'', ''C27'', ''C28'', ''C29'', ''C30'', ''C31'', ''C32'', ''C33'',
     ''C34'', ''C35'', ''C36'', ''C37'', ''C38'', ''C39'', ''C40'', ''C41'', ''C42'', ''C43'', ''C44'',
     ''C45'', ''C46'', ''C47'', ''C48'', ''C49'', ''C50'', ''C51'', ''C52'', ''C53'', ''C54'', ''C55'',
     ''C56'', ''C57'', ''C58'', ''C59'', ''C60'', ''C61'', ''C62'', ''C63'']"

definition gQzsSatelliteNames :: "string list" where
  "gQzsSatelliteNames = [
     ''J01'', ''J02'', ''J03'', ''J04'', ''J05'', ''J06'', ''J07'', ''J08'', ''J09'', ''J10'']"

definition sat_name :: "SatelliteId \<Rightarrow> bytes" where
  "sat_name s =
     (let n = sat_lpp_id s in
      str (if \<not> sat_is_valid s then ''X--'' else
        case sat_gnss s of
          GPS \<Rightarrow> if n \<ge> 0 \<and> n < 32 then gGpsSatelliteNames ! nat n else ''G--''
        | GLONASS \<Rightarrow> if n \<ge> 0 \<and> n < 24 then gGloSatelliteNames ! nat n else ''R--''
        | GALILEO \<Rightarrow> if n \<ge> 0 \<and> n < 36 then gGalSatelliteNames ! nat n else ''E--''
        | BEIDOU \<Rightarrow> if n \<ge> 0 \<and> n < 63 then gBdsSatelliteNames ! nat n else ''C--''
        | QZSS \<Rightarrow> if n \<ge> 0 \<and> n < 10 then gQzsSatelliteNames ! nat n else ''J--''
        | UNKNOWN \<Rightarrow> ''U--''))"

text \<open>The operators.\<close>

definition satellite_less :: "SatelliteId \<Rightarrow> SatelliteId \<Rightarrow> bool" where
  "satellite_less a b \<longleftrightarrow>
     (if gnss_value (sat_gnss a) < gnss_value (sat_gnss b) then True
      else if gnss_value (sat_gnss a) > gnss_value (sat_gnss b) then False
      else sat_lpp_id a < sat_lpp_id b)"

definition satellite_greater :: "SatelliteId \<Rightarrow> SatelliteId \<Rightarrow> bool" where
  "satellite_greater a b \<longleftrightarrow>
     (if gnss_value (sat_gnss a) > gnss_value (sat_gnss b) then True
      else if gnss_value (sat_gnss a) < gnss_value (sat_gnss b) then False
      else sat_lpp_id a > sat_lpp_id b)"

lemma gnss_value_inject: "gnss_value a = gnss_value b \<longleftrightarrow> a = b"
  by (cases a; cases b) simp_all

instantiation SatelliteId :: linorder
begin

definition less_SatelliteId :: "SatelliteId \<Rightarrow> SatelliteId \<Rightarrow> bool" where
  "less_SatelliteId = satellite_less"

definition less_eq_SatelliteId :: "SatelliteId \<Rightarrow> SatelliteId \<Rightarrow> bool" where
  "less_eq_SatelliteId a b \<longleftrightarrow> a < b \<or> a = (b :: SatelliteId)"

instance
proof
  fix x y z :: SatelliteId
  show "x < y \<longleftrightarrow> x \<le> y \<and> \<not> y \<le> x" "x \<le> x" "x \<le> y \<Longrightarrow> y \<le> z \<Longrightarrow> x \<le> z"
    "x \<le> y \<Longrightarrow> y \<le> x \<Longrightarrow> x = y"
    by (auto simp: less_SatelliteId_def satellite_less_def less_eq_SatelliteId_def split: if_splits)
  show "x \<le> y \<or> y \<le> x"
    by (cases x; cases y)
      (auto simp: less_SatelliteId_def satellite_less_def less_eq_SatelliteId_def gnss_value_inject)
qed

end

lemma satellite_greater_less: "satellite_greater a b \<longleftrightarrow> b < a"
  by (auto simp: satellite_greater_def less_SatelliteId_def satellite_less_def)

section \<open>Signals\<close>

datatype FrequencyType =
    FT_UNKNOWN | FT_L1 | FT_L2 | FT_L5 | FT_L6 | FT_E1 | FT_E5a | FT_E5b | FT_E5 | FT_E6
  | FT_B1 | FT_B2 | FT_B2a | FT_B2b | FT_B2ab | FT_B3 | FT_G1 | FT_G2 | FT_G3

datatype SignalId = SignalId (sig_gnss: Gnss) (sig_lpp_id: int)

text \<open>The named signals that the routines below mention.\<close>

definition GPS_L1C :: SignalId where "GPS_L1C = SignalId GPS 1"
definition GPS_L2C :: SignalId where "GPS_L2C = SignalId GPS 2"
definition GPS_L2_P :: SignalId where "GPS_L2_P = SignalId GPS 7"
definition GPS_L2_L2C_M :: SignalId where "GPS_L2_L2C_M = SignalId GPS 9"
definition GPS_L2_L2C_L :: SignalId where "GPS_L2_L2C_L = SignalId GPS 10"
definition GPS_L2_L2C_M_L :: SignalId where "GPS_L2_L2C_M_L = SignalId GPS 11"
definition GPS_L5_I :: SignalId where "GPS_L5_I = SignalId GPS 12"
definition GLONASS_G1_CA :: SignalId where "GLONASS_G1_CA = SignalId GLONASS 0"
definition GLONASS_G2_CA :: SignalId where "GLONASS_G2_CA = SignalId GLONASS 1"
definition GALILEO_E1_B_I_NAV_OS_CS_SOL :: SignalId where "GALILEO_E1_B_I_NAV_OS_CS_SOL = SignalId GALILEO 7"
definition GALILEO_E6_B :: SignalId where "GALILEO_E6_B = SignalId GALILEO 12"
definition GALILEO_E5B_I :: SignalId where "GALILEO_E5B_I = SignalId GALILEO 15"
definition GALILEO_E5_A_B_I :: SignalId where "GALILEO_E5_A_B_I = SignalId GALILEO 18"
definition GALILEO_E5A_I :: SignalId where "GALILEO_E5A_I = SignalId GALILEO 21"
definition BEIDOU_B1_I :: SignalId where "BEIDOU_B1_I = SignalId BEIDOU 0"
definition BEIDOU_B3_I :: SignalId where "BEIDOU_B3_I = SignalId BEIDOU 3"
definition BEIDOU_B2_I :: SignalId where "BEIDOU_B2_I = SignalId BEIDOU 6"
definition BEIDOU_B1C_D :: SignalId where "BEIDOU_B1C_D = SignalId BEIDOU 9"
definition BEIDOU_B1C_P :: SignalId where "BEIDOU_B1C_P = SignalId BEIDOU 10"
definition BEIDOU_B1C_D_P :: SignalId where "BEIDOU_B1C_D_P = SignalId BEIDOU 11"
definition BEIDOU_B2A_D :: SignalId where "BEIDOU_B2A_D = SignalId BEIDOU 12"
definition QZSS_L1C_D :: SignalId where "QZSS_L1C_D = SignalId QZSS 1"
definition QZSS_L2C_M :: SignalId where "QZSS_L2C_M = SignalId QZSS 4"
definition QZSS_L2C_L :: SignalId where "QZSS_L2C_L = SignalId QZSS 5"
definition QZSS_L2C_M_L :: SignalId where "QZSS_L2C_M_L = SignalId QZSS 6"
definition QZSS_L5_I :: SignalId where "QZSS_L5_I = SignalId QZSS 7"

text \<open>The tables; frequencies are in kHz.\<close>

definition gGpsNames :: "string list" where
  "gGpsNames = [
     ''L1 C/A'', ''L1C'', ''L2C'', ''L5'', ''L1 P'', ''L1 Z-tracking'', ''L2 C/A'', ''L2 P'',
     ''L2 Z-tracking'', ''L2 L2C(M)'', ''L2 L2C(L)'', ''L2 L2C(M+L)'', ''L5 I'', ''L5 Q'', ''L5 I+Q'',
     ''L1 L1C(D)'', ''L1 L1C(P)'', ''L1 L1C(D+P)'', ''Reserved'', ''Reserved'', ''Reserved'',
     ''Reserved'', ''Reserved'', ''Reserved'']"

definition gGpsRinexNames :: "string list" where
  "gGpsRinexNames = [
     ''1C'', ''??'', ''??'', ''??'', ''1P'', ''1W'', ''2C'', ''2P'', ''2W'', ''2S'', ''2L'', ''2X'',
     ''5I'', ''5Q'', ''5X'', ''1S'', ''1L'', ''1X'', ''??'', ''??'', ''??'', ''??'', ''??'', ''??'']"

definition gGlonassNames :: "string list" where
  "gGlonassNames = [
     ''G1 C/A'', ''G2 C/A'', ''G3'', ''G1 P'', ''G2 P'', ''G1a(D)'', ''G1a(P)'', ''G1a (D+P)'',
     ''G2a(I)'', ''G2a(P)'', ''G2a(I+P)'', ''G3 I'', ''G3 Q'', ''G3 I+Q'', ''Reserved'', ''Reserved'',
     ''Reserved'', ''Reserved'', ''Reserved'', ''Reserved'', ''Reserved'', ''Reserved'', ''Reserved'',
     ''Reserved'']"

definition gGlonassRinexNames :: "string list" where
  "gGlonassRinexNames = [
     ''1C'', ''2C'', ''??'', ''1P'', ''2P'', ''4A'', ''4B'', ''4X'', ''6A'', ''6B'', ''6X'', ''3I'',
     ''3Q'', ''3X'', ''??'', ''??'', ''??'', ''??'', ''??'', ''??'', ''??'', ''??'', ''??'', ''??'']"

definition gGalileoNames :: "string list" where
  "gGalileoNames = [
     ''E1'', ''E5A'', ''E5B'', ''E6'', ''E5A + E5B'', ''E1 C No data'', ''E1 A'',
     ''E1 B I/NAV OS/CS/SoL'', ''E1 B+C'', ''E1 A+B+C'', ''E6 C'', ''E6 A'', ''E6 B'', ''E6 B+C'',
     ''E6 A+B+C'', ''E5B I'', ''E5B Q'', ''E5B I+Q'', ''E5(A+B) I'', ''E5(A+B) Q'', ''E5(A+B) I+Q'',
     ''E5A I'', ''E5A Q'', ''E5A I+Q'']"

definition gGalileoRinexNames :: "string list" where
  "gGalileoRinexNames = [
     ''??'', ''??'', ''??'', ''??'', ''??'', ''1C'', ''1A'', ''1B'', ''1X'', ''1Z'', ''6C'', ''6A'',
     ''6B'', ''6X'', ''6Z'', ''7I'', ''7Q'', ''7X'', ''8I'', ''8Q'', ''8X'', ''5I'', ''5Q'', ''5X'']"

definition gBdsNames :: "string list" where
  "gBdsNames = [
     ''B1 I'', ''B1 Q'', ''B1 I+Q'', ''B3 I'', ''B3 Q'', ''B3 I+Q'', ''B2 I'', ''B2 Q'', ''B2 I+Q'',
     ''B1C(D)'', ''B1C(P)'', ''B1C(D+P)'', ''B2a(D)'', ''B2a(P)'', ''B2a(D+P)'', ''Reserved'',
     ''Reserved'', ''Reserved'', ''Reserved'', ''Reserved'', ''Reserved'', ''Reserved'', ''Reserved'',
     ''Reserved'']"

definition gBdsRinexNames :: "string list" where
  "gBdsRinexNames = [
     ''2I'', ''2Q'', ''2X'', ''6I'', ''6Q'', ''6X'', ''7I'', ''7Q'', ''7X'', ''1D'', ''1P'', ''1X'',
     ''5D'', ''5P'', ''5X'', ''??'', ''??'', ''??'', ''??'', ''??'', ''??'', ''??'', ''??'', ''??'']"

definition GPS_LPP_TO_RTCM :: "int list" where
  "GPS_LPP_TO_RTCM = [
     2, -1, -1, -1, 3, 4, 8, 9, 10, 15, 16, 17, 22, 23, 24, 30, 31, 32, -1, -1, -1, -1, -1, -1]"

definition GLONASS_LPP_TO_RTCM :: "int list" where
  "GLONASS_LPP_TO_RTCM = [
     2, 8, -1, 3, 9, -1, -1, -1, -1, -1, -1, -1, -1, -1, -1, -1, -1, -1, -1, -1, -1, -1, -1, -1]"

definition GALILEO_LPP_TO_RTCM :: "int list" where
  "GALILEO_LPP_TO_RTCM = [
     -1, -1, -1, -1, -1, 2, 3, 4, 5, 6, 8, 9, 10, 11, 12, 14, 15, 16, 18, 19, 20, 22, 23, 24]"

definition BDS_LPP_TO_RTCM :: "int list" where
  "BDS_LPP_TO_RTCM = [
     2, 3, 4, 8, 9, 10, 14, 15, 16, 30, 31, 32, 22, 23, 24, -1, -1, -1, -1, -1, -1, -1, -1, -1]"

definition GPS_L1_FREQ :: rat where "GPS_L1_FREQ = 1575420"
definition GPS_L2_FREQ :: rat where "GPS_L2_FREQ = 1227600"
definition GPS_L5_FREQ :: rat where "GPS_L5_FREQ = 1176450"
definition GLONASS_G1_FREQ :: rat where "GLONASS_G1_FREQ = 1602000"
definition GLONASS_G2_FREQ :: rat where "GLONASS_G2_FREQ = 1246000"
definition GLONASS_G3_FREQ :: rat where "GLONASS_G3_FREQ = 1202025"
definition GALILEO_E1_FREQ :: rat where "GALILEO_E1_FREQ = 1575420"
definition GALILEO_E5A_FREQ :: rat where "GALILEO_E5A_FREQ = 1176450"
definition GALILEO_E5B_FREQ :: rat where "GALILEO_E5B_FREQ = 1207140"
definition GALILEO_E6_FREQ :: rat where "GALILEO_E6_FREQ = 1278750"
definition GALILEO_E5A_E5B_FREQ :: rat where "GALILEO_E5A_E5B_FREQ = 1191795"
definition BEIDOU_B1_FREQ :: rat where "BEIDOU_B1_FREQ = 1561098"
definition BEIDOU_B2_FREQ :: rat where "BEIDOU_B2_FREQ = 1207140"
definition BEIDOU_B3_FREQ :: rat where "BEIDOU_B3_FREQ = 1268520"
definition BEIDOU_B2A_FREQ :: rat where "BEIDOU_B2A_FREQ = 1176450"
definition BEIDOU_B1C_FREQ :: rat where "BEIDOU_B1C_FREQ = 1575420"
definition QZSS_L1_FREQ :: rat where "QZSS_L1_FREQ = 1575420"
definition QZSS_L2_FREQ :: rat where "QZSS_L2_FREQ = 1227600"
definition QZSS_L5_FREQ :: rat where "QZSS_L5_FREQ = 1176450"
definition QZSS_L6_FREQ :: rat where "QZSS_L6_FREQ = 1278750"

definition gGpsFreq :: "rat list" where
  "gGpsFreq = [
     GPS_L1_FREQ, GPS_L1_FREQ, GPS_L2_FREQ, GPS_L5_FREQ, GPS_L1_FREQ, GPS_L1_FREQ, GPS_L2_FREQ,
     GPS_L2_FREQ, GPS_L2_FREQ, GPS_L2_FREQ, GPS_L2_FREQ, GPS_L2_FREQ, GPS_L5_FREQ, GPS_L5_FREQ,
     GPS_L5_FREQ, GPS_L1_FREQ, GPS_L1_FREQ, GPS_L1_FREQ, 0, 0, 0, 0, 0, 0]"

definition gGpsFreqType :: "FrequencyType list" where
  "gGpsFreqType = [
     FT_L1, FT_L1, FT_L2, FT_L5, FT_L1, FT_L1, FT_L2, FT_L2, FT_L2, FT_L2, FT_L2, FT_L2, FT_L5, FT_L5,
     FT_L5, FT_L1, FT_L1, FT_L1, FT_UNKNOWN, FT_UNKNOWN, FT_UNKNOWN, FT_UNKNOWN, FT_UNKNOWN, FT_UNKNOWN]"

definition gGlonassFreq :: "rat list" where
  "gGlonassFreq = [
     GLONASS_G1_FREQ, GLONASS_G2_FREQ, GLONASS_G3_FREQ, GLONASS_G1_FREQ, GLONASS_G2_FREQ,
     GLONASS_G1_FREQ, GLONASS_G1_FREQ, GLONASS_G1_FREQ, GLONASS_G2_FREQ, GLONASS_G2_FREQ,
     GLONASS_G2_FREQ, GLONASS_G3_FREQ, GLONASS_G3_FREQ, GLONASS_G3_FREQ, 0, 0, 0, 0, 0, 0, 0, 0, 0, 0]"

definition gGlonassFreqType :: "FrequencyType list" where
  "gGlonassFreqType = [
     FT_G1, FT_G2, FT_G3, FT_G1, FT_G2, FT_G1, FT_G1, FT_G1, FT_G2, FT_G2, FT_G2, FT_G3, FT_G3, FT_G3,
     FT_UNKNOWN, FT_UNKNOWN, FT_UNKNOWN, FT_UNKNOWN, FT_UNKNOWN, FT_UNKNOWN, FT_UNKNOWN, FT_UNKNOWN,
     FT_UNKNOWN, FT_UNKNOWN]"

definition gGalileoFreq :: "rat list" where
  "gGalileoFreq = [
     GALILEO_E1_FREQ, GALILEO_E5A_FREQ, GALILEO_E5B_FREQ, GALILEO_E6_FREQ, GALILEO_E5A_E5B_FREQ,
     GALILEO_E1_FREQ, GALILEO_E1_FREQ, GALILEO_E1_FREQ, GALILEO_E1_FREQ, GALILEO_E1_FREQ,
     GALILEO_E6_FREQ, GALILEO_E6_FREQ, GALILEO_E6_FREQ, GALILEO_E6_FREQ, GALILEO_E6_FREQ,
     GALILEO_E5B_FREQ, GALILEO_E5B_FREQ, GALILEO_E5B_FREQ, GALILEO_E5A_E5B_FREQ, GALILEO_E5A_E5B_FREQ,
     GALILEO_E5A_E5B_FREQ, GALILEO_E5A_FREQ, GALILEO_E5A_FREQ, GALILEO_E5A_FREQ]"

definition gGalileoFreqType :: "FrequencyType list" where
  "gGalileoFreqType = [
     FT_E1, FT_E5a, FT_E5b, FT_E6, FT_E5, FT_E1, FT_E1, FT_E1, FT_E1, FT_E1, FT_E6, FT_E6, FT_E6, FT_E6,
     FT_E6, FT_E5b, FT_E5b, FT_E5b, FT_E5, FT_E5, FT_E5, FT_E5a, FT_E5a, FT_E5a]"

definition gBdsFreq :: "rat list" where
  "gBdsFreq = [
     BEIDOU_B1_FREQ, BEIDOU_B1_FREQ, BEIDOU_B1_FREQ, BEIDOU_B3_FREQ, BEIDOU_B3_FREQ, BEIDOU_B3_FREQ,
     BEIDOU_B2_FREQ, BEIDOU_B2_FREQ, BEIDOU_B2_FREQ, BEIDOU_B1C_FREQ, BEIDOU_B1C_FREQ, BEIDOU_B1C_FREQ,
     BEIDOU_B2A_FREQ, BEIDOU_B2A_FREQ, BEIDOU_B2A_FREQ, 0, 0, 0, 0, 0, 0, 0, 0, 0]"

definition gBdsFreqType :: "FrequencyType list" where
  "gBdsFreqType = [
     FT_B1, FT_B1, FT_B1, FT_B3, FT_B3, FT_B3, FT_B2, FT_B2, FT_B2, FT_B1, FT_B1, FT_B1, FT_B2a, FT_B2a,
     FT_B2a, FT_UNKNOWN, FT_UNKNOWN, FT_UNKNOWN, FT_UNKNOWN, FT_UNKNOWN, FT_UNKNOWN, FT_UNKNOWN,
     FT_UNKNOWN, FT_UNKNOWN]"

definition gQzssFreq :: "rat list" where
  "gQzssFreq = [
     QZSS_L1_FREQ, QZSS_L1_FREQ, QZSS_L1_FREQ, QZSS_L1_FREQ, QZSS_L2_FREQ, QZSS_L2_FREQ, QZSS_L2_FREQ,
     QZSS_L5_FREQ, QZSS_L5_FREQ, QZSS_L5_FREQ, QZSS_L6_FREQ, QZSS_L6_FREQ, 0, 0, 0, 0, 0, 0, 0, 0, 0, 0,
     0, 0]"

definition gQzssFreqType :: "FrequencyType list" where
  "gQzssFreqType = [
     FT_L1, FT_L1, FT_L1, FT_L1, FT_L2, FT_L2, FT_L2, FT_L5, FT_L5, FT_L5, FT_L6, FT_L6, FT_UNKNOWN,
     FT_UNKNOWN, FT_UNKNOWN, FT_UNKNOWN, FT_UNKNOWN, FT_UNKNOWN, FT_UNKNOWN, FT_UNKNOWN, FT_UNKNOWN,
     FT_UNKNOWN, FT_UNKNOWN, FT_UNKNOWN]"

definition sig_from_lpp :: "Gnss \<Rightarrow> int \<Rightarrow> SignalId outcome" where
  "sig_from_lpp gnss n =
     (if n \<ge> 24 then Value (SignalId UNKNOWN (- 1))
      else if gnss = UNKNOWN then Undefined
      else Value (SignalId gnss (int32 n)))"

definition sig_lpp :: "SignalId \<Rightarrow> int outcome" where
  "sig_lpp s = (if sig_lpp_id s \<ge> 0 \<and> sig_lpp_id s < 24 then Value (sig_lpp_id s) else Undefined)"

text \<open>Reading a table of the constellation, if it has one.\<close>

definition lookup :: "(Gnss \<Rightarrow> 'a list option) \<Rightarrow> SignalId \<Rightarrow> 'a outcome" where
  "lookup table s =
     (case sig_lpp s of Value n \<Rightarrow>
        (case table (sig_gnss s) of Some entries \<Rightarrow> Value (entries ! nat n) | None \<Rightarrow> Undefined)
      | _ \<Rightarrow> Undefined)"

definition sig_to_string :: "SignalId \<Rightarrow> string outcome" where
  "sig_to_string = lookup (\<lambda>g. case g of GPS \<Rightarrow> Some gGpsNames | GLONASS \<Rightarrow> Some gGlonassNames
     | GALILEO \<Rightarrow> Some gGalileoNames | BEIDOU \<Rightarrow> Some gBdsNames | _ \<Rightarrow> None)"

definition sig_to_rinex :: "SignalId \<Rightarrow> string outcome" where
  "sig_to_rinex = lookup (\<lambda>g. case g of GPS \<Rightarrow> Some gGpsRinexNames | GLONASS \<Rightarrow> Some gGlonassRinexNames
     | GALILEO \<Rightarrow> Some gGalileoRinexNames | BEIDOU \<Rightarrow> Some gBdsRinexNames | _ \<Rightarrow> None)"

definition sig_name :: "SignalId \<Rightarrow> string outcome" where
  "sig_name = lookup (\<lambda>g. case g of GPS \<Rightarrow> Some gGpsNames | GLONASS \<Rightarrow> Some gGlonassNames
     | GALILEO \<Rightarrow> Some gGalileoNames | BEIDOU \<Rightarrow> Some gBdsNames | _ \<Rightarrow> None)"

definition sig_frequency :: "SignalId \<Rightarrow> rat outcome" where
  "sig_frequency = lookup (\<lambda>g. case g of GPS \<Rightarrow> Some gGpsFreq | GLONASS \<Rightarrow> Some gGlonassFreq
     | GALILEO \<Rightarrow> Some gGalileoFreq | BEIDOU \<Rightarrow> Some gBdsFreq | QZSS \<Rightarrow> Some gQzssFreq | _ \<Rightarrow> None)"

definition frequency_type :: "SignalId \<Rightarrow> FrequencyType outcome" where
  "frequency_type = lookup (\<lambda>g. case g of GPS \<Rightarrow> Some gGpsFreqType | GLONASS \<Rightarrow> Some gGlonassFreqType
     | GALILEO \<Rightarrow> Some gGalileoFreqType | BEIDOU \<Rightarrow> Some gBdsFreqType | QZSS \<Rightarrow> Some gQzssFreqType | _ \<Rightarrow> None)"

definition sig_as_msm :: "SignalId \<Rightarrow> int outcome" where
  "sig_as_msm s =
     (let n = sig_lpp_id s in
      if n < 0 \<or> n \<ge> 24 then Null
      else
        let result = (case sig_gnss s of GPS \<Rightarrow> Value (GPS_LPP_TO_RTCM ! nat n)
           | GLONASS \<Rightarrow> Value (GLONASS_LPP_TO_RTCM ! nat n) | GALILEO \<Rightarrow> Value (GALILEO_LPP_TO_RTCM ! nat n)
           | BEIDOU \<Rightarrow> Value (BDS_LPP_TO_RTCM ! nat n) | _ \<Rightarrow> Undefined)
        in case result of Value r \<Rightarrow> (if r < 0 then Null else Value r) | _ \<Rightarrow> Undefined)"

definition SIGNAL_ABS_COUNT :: int where "SIGNAL_ABS_COUNT = 24"

definition sig_absolute_id :: "SignalId \<Rightarrow> int" where
  "sig_absolute_id s = (if sig_lpp_id s \<ge> SIGNAL_ABS_COUNT then - 1 else sig_lpp_id s)"

definition sig_is_valid :: "SignalId \<Rightarrow> bool" where
  "sig_is_valid s \<longleftrightarrow> sig_gnss s \<noteq> UNKNOWN \<and> sig_lpp_id s \<noteq> - 1"

definition phase_alignment_shift :: "SignalId \<Rightarrow> rat outcome" where
  "phase_alignment_shift s =
     (case frequency_type s of Value freq_type \<Rightarrow>
        Value
          (if sig_gnss s = GPS \<and> freq_type = FT_L2 then
             (if s \<in> {GPS_L2_L2C_M, GPS_L2_L2C_L, GPS_L2_L2C_M_L, GPS_L2C} then 1 / 4 else 0)
           else if sig_gnss s = QZSS \<and> freq_type = FT_L2 then
             (if s \<in> {QZSS_L2C_M, QZSS_L2C_L, QZSS_L2C_M_L} then 1 / 4 else 0)
           else 0)
      | _ \<Rightarrow> Undefined)"

definition reference_signal :: "SignalId \<Rightarrow> SignalId outcome" where
  "reference_signal s =
     (case frequency_type s of Value freq \<Rightarrow>
        Value (case sig_gnss s of
          GPS \<Rightarrow> if freq = FT_L1 then GPS_L1C else if freq = FT_L2 then GPS_L2_P
                 else if freq = FT_L5 then GPS_L5_I else s
        | GLONASS \<Rightarrow> if freq = FT_G1 then GLONASS_G1_CA else if freq = FT_G2 then GLONASS_G2_CA else s
        | GALILEO \<Rightarrow> if freq = FT_E1 then GALILEO_E1_B_I_NAV_OS_CS_SOL
                 else if freq = FT_E5a then GALILEO_E5A_I else if freq = FT_E5b then GALILEO_E5B_I
                 else if freq = FT_E5 then GALILEO_E5_A_B_I else if freq = FT_E6 then GALILEO_E6_B else s
        | QZSS \<Rightarrow> if freq = FT_L1 then QZSS_L1C_D else if freq = FT_L2 then QZSS_L2C_M
                 else if freq = FT_L5 then QZSS_L5_I else s
        | BEIDOU \<Rightarrow> if freq = FT_B1 then
                   (if s \<in> {BEIDOU_B1C_D, BEIDOU_B1C_P, BEIDOU_B1C_D_P} then BEIDOU_B1C_D else BEIDOU_B1_I)
                 else if freq = FT_B2 then BEIDOU_B2_I else if freq = FT_B3 then BEIDOU_B3_I
                 else if freq = FT_B2a then BEIDOU_B2A_D else s
        | UNKNOWN \<Rightarrow> s)
      | _ \<Rightarrow> Undefined)"

section \<open>Properties of the identifiers\<close>

definition sat_count :: "Gnss \<Rightarrow> int" where
  "sat_count g = (case g of GPS \<Rightarrow> GPS_ABS_COUNT | GLONASS \<Rightarrow> GLO_ABS_COUNT | GALILEO \<Rightarrow> GAL_ABS_COUNT
     | BEIDOU \<Rightarrow> BDS_ABS_COUNT | QZSS \<Rightarrow> QZS_ABS_COUNT | UNKNOWN \<Rightarrow> 0)"

text \<open>The satellites of the name tables, and those that \<^verbatim>\<open>from_lpp\<close> gives for the numbers of LPP.\<close>

definition in_table :: "SatelliteId \<Rightarrow> bool" where
  "in_table s \<longleftrightarrow> 0 \<le> sat_lpp_id s \<and> sat_lpp_id s < sat_count (sat_gnss s)"

definition lpp_satellite :: "SatelliteId \<Rightarrow> bool" where
  "lpp_satellite s \<longleftrightarrow> sat_gnss s \<noteq> UNKNOWN \<and> 0 \<le> sat_lpp_id s \<and> sat_lpp_id s < LPP_SATELLITE_ID_LIMIT"

lemmas abs_counts = GPS_ABS_COUNT_def GLO_ABS_COUNT_def GAL_ABS_COUNT_def BDS_ABS_COUNT_def QZS_ABS_COUNT_def
lemmas abs_mins = GPS_ABS_MIN_def GLO_ABS_MIN_def GAL_ABS_MIN_def BDS_ABS_MIN_def QZS_ABS_MIN_def
  SATELLITE_ID_MAX_def

lemma int32_small: "- (2 ^ 31) \<le> i \<Longrightarrow> i < 2 ^ 31 \<Longrightarrow> int32 i = i"
  by (simp add: int32_def sint_sbintrunc' signed_take_bit_int_eq_self)

lemma from_lpp_satellite:
  "g \<noteq> UNKNOWN \<Longrightarrow> 0 \<le> n \<Longrightarrow> n < 64 \<Longrightarrow> from_lpp g n = SatelliteId g n \<and> lpp_satellite (from_lpp g n)"
  by (simp add: from_lpp_def LPP_SATELLITE_ID_LIMIT_def lpp_satellite_def int32_small)

lemma in_table_lpp: "in_table s \<Longrightarrow> lpp_satellite s"
  by (cases "sat_gnss s")
    (auto simp: in_table_def lpp_satellite_def sat_count_def abs_counts LPP_SATELLITE_ID_LIMIT_def)

text \<open>The texts.\<close>

primrec letter :: "Gnss \<Rightarrow> u8" where
  "letter UNKNOWN = 0x55"
| "letter GPS = 0x47"
| "letter GLONASS = 0x52"
| "letter GALILEO = 0x45"
| "letter BEIDOU = 0x43"
| "letter QZSS = 0x4A"

lemma name_tables:
  "map str gGpsSatelliteNames = map (\<lambda>k. 0x47 # two_digits (int k + 1)) [0..<32]"
  "map str gGloSatelliteNames = map (\<lambda>k. 0x52 # two_digits (int k + 1)) [0..<24]"
  "map str gGalSatelliteNames = map (\<lambda>k. 0x45 # two_digits (int k + 1)) [0..<36]"
  "map str gBdsSatelliteNames = map (\<lambda>k. 0x43 # two_digits (int k + 1)) [0..<63]"
  "map str gQzsSatelliteNames = map (\<lambda>k. 0x4A # two_digits (int k + 1)) [0..<10]"
  unfolding gGpsSatelliteNames_def gGloSatelliteNames_def gGalSatelliteNames_def gBdsSatelliteNames_def
    gQzsSatelliteNames_def
  by (simp_all add: upt_rec two_digits_def decimal.simps nat_add_distrib)

lemma nth_table: "map str t = map f [0..<m] \<Longrightarrow> k < m \<Longrightarrow> str (t ! k) = f k"
proof -
  assume "map str t = map f [0..<m]" "k < m"
  then show "str (t ! k) = f k" by (metis add_0 length_map length_upt minus_nat.diff_0 nth_map nth_upt)
qed

lemma sat_name_text:
  assumes "in_table s"
  shows "sat_name s = letter (sat_gnss s) # two_digits (sat_lpp_id s + 1)"
  using assms name_tables [THEN nth_table, of "nat (sat_lpp_id s)"]
  by (cases "sat_gnss s") (auto simp: in_table_def sat_count_def abs_counts sat_name_def sat_is_valid_def)

lemma strtol_digits:
  assumes "ds \<noteq> []" and "\<And>c. c \<in> set ds \<Longrightarrow> \<exists>k < 10. c = of_nat (0x30 + k)" and "number_value 10 ds < 2 ^ 63"
  shows "strtol ds = (int (number_value 10 ds), [])"
proof -
  obtain c cs where ds: "ds = c # cs" using assms(1) by (cases ds) auto
  have d: "is_digit 10 b \<and> \<not> is_space b \<and> b \<noteq> 0x2D \<and> b \<noteq> 0x2B" if b: "b \<in> set ds" for b
  proof -
    obtain k where "k < 10" "b = of_nat (0x30 + k)" using assms(2) [OF b] by blast
    then show ?thesis using digit_value_digit [of k] digit_not_special [of k] by (simp add: is_digit_def)
  qed
  have "takeWhile (is_digit 10) cs = cs" using d by (simp add: ds takeWhile_eq_all_conv)
  then show ?thesis
    using d [of c] assms(3) by (simp add: strtol_def ds Let_def del: takeWhile_eq_all_conv)
qed

lemma strtol_two_digits:
  assumes "0 \<le> i" and "i < 2 ^ 63"
  shows "strtol (two_digits i) = (i, [])" and "2 \<le> length (two_digits i)"
proof -
  have n: "number_value 10 (two_digits i) = nat i"
    using assms number_value_decimal [of "nat i"] by (simp add: two_digits_def number_value_def digit_value_def)
  have "\<exists>k < 10. c = of_nat (0x30 + k)" if "c \<in> set (two_digits i)" for c
  proof -
    have "c = of_nat (0x30 + 0) \<or> c \<in> set (decimal (nat i))"
      using that assms(1) by (auto simp: two_digits_def split: if_splits)
    moreover have "(0 :: nat) < 10" by simp
    ultimately show ?thesis using decimal_set by blast
  qed
  moreover have "two_digits i \<noteq> []" using assms by (simp add: two_digits_def)
  ultimately show "strtol (two_digits i) = (i, [])"
    using strtol_digits [of "two_digits i"] n assms by (simp add: nat_less_iff)
  have "1 \<le> length (decimal (nat i div 10))" "1 \<le> length (decimal (nat i))" by (simp_all add: Suc_le_eq)
  moreover have "decimal (nat i) = decimal (nat i div 10) @ [of_nat (0x30 + nat i mod 10)]" if "\<not> i < 10"
    using that by (subst decimal.simps) simp
  ultimately show "2 \<le> length (two_digits i)" using assms by (auto simp: two_digits_def)
qed

lemma from_string_text:
  assumes "g \<noteq> UNKNOWN" and "0 \<le> i" and "i < 2 ^ 63"
  shows "from_string (letter g # two_digits i) = (if i < 1 then invalid else from_lpp g (i - 1))"
  using assms(1) strtol_two_digits [OF assms(2,3)] by (cases g) (simp_all add: from_string_def)

text \<open>C36: the names of the satellites are read back.  The name that a satellite of the tables has
  (constellation letter and number from 1) is read by \<^verbatim>\<open>from_string\<close> as that satellite.\<close>

theorem satellite_name_read:
  assumes "in_table s"
  shows "from_string (sat_name s) = s"
proof -
  have s: "lpp_satellite s" by (rule in_table_lpp [OF assms])
  then have b: "sat_gnss s \<noteq> UNKNOWN" "0 \<le> sat_lpp_id s" "sat_lpp_id s < 64"
    by (simp_all add: lpp_satellite_def LPP_SATELLITE_ID_LIMIT_def)
  then show ?thesis
    using from_string_text [of "sat_gnss s" "sat_lpp_id s + 1"] from_lpp_satellite [OF b]
    by (simp add: sat_name_text [OF assms])
qed

text \<open>The text that \<^verbatim>\<open>to_string\<close> gives names another satellite.  It carries the number from 0, so \<^verbatim>\<open>from_string\<close>
  reads it as the satellite before, and rejects it for the first satellite of a constellation.\<close>

theorem satellite_text_misread:
  assumes "lpp_satellite s"
  shows "from_string (sat_to_string s) =
    (if sat_lpp_id s = 0 then invalid else SatelliteId (sat_gnss s) (sat_lpp_id s - 1))"
proof -
  have b: "sat_gnss s \<noteq> UNKNOWN" "0 \<le> sat_lpp_id s" "sat_lpp_id s < 64"
    using assms by (simp_all add: lpp_satellite_def LPP_SATELLITE_ID_LIMIT_def)
  have "sat_to_string s = letter (sat_gnss s) # two_digits (sat_lpp_id s)"
    by (cases "sat_gnss s") (simp_all add: sat_to_string_def)
  then show ?thesis
    using from_string_text [of "sat_gnss s" "sat_lpp_id s"] b
      from_lpp_satellite [OF b(1), of "sat_lpp_id s - 1"] by simp
qed

text \<open>The numbers of the satellites are a bijection for the satellites of the tables: they lie below
  \<^verbatim>\<open>SATELLITE_ID_MAX\<close> and differ for different satellites.  Every other satellite that LPP can name has the
  number of a satellite of the tables or, for QZSS, a number that is out of range.\<close>

theorem satellite_numbers:
  assumes "lpp_satellite s"
  shows "if in_table s
    then 0 \<le> absolute_id s \<and> absolute_id s < SATELLITE_ID_MAX \<and>
      (\<forall>t. in_table t \<and> absolute_id t = absolute_id s \<longrightarrow> t = s)
    else if sat_gnss s = QZSS then SATELLITE_ID_MAX \<le> absolute_id s
    else \<exists>t. in_table t \<and> t \<noteq> s \<and> absolute_id t = absolute_id s"
proof -
  obtain g n where s: "s = SatelliteId g n" by (cases s)
  have b: "g \<noteq> UNKNOWN" "0 \<le> n" "n < 64"
    using assms by (simp_all add: s lpp_satellite_def LPP_SATELLITE_ID_LIMIT_def)
  note defs = in_table_def sat_count_def absolute_id_def abs_counts abs_mins
  show ?thesis
  proof (cases "in_table s")
    case True
    have "t = s" if "in_table t" "absolute_id t = absolute_id s" for t
      using that True b by (cases t; cases "sat_gnss t"; cases g) (auto simp: s defs)
    then show ?thesis using True b by (cases g) (auto simp: s defs)
  next
    case False
    have "\<exists>t. in_table t \<and> t \<noteq> s \<and> absolute_id t = absolute_id s" if "g \<noteq> QZSS"
    proof -
      define t where "t =
        (let a = absolute_id s
         in if a < 56 then SatelliteId GLONASS (a - 32) else if a < 92 then SatelliteId GALILEO (a - 56)
            else if a < 155 then SatelliteId BEIDOU (a - 92) else SatelliteId QZSS (a - 155))"
      have "in_table t \<and> t \<noteq> s \<and> absolute_id t = absolute_id s"
        using False b that by (cases g) (auto simp: t_def s defs Let_def)
      then show ?thesis by blast
    qed
    then show ?thesis using False b by (cases g) (auto simp: s defs)
  qed
qed

section \<open>Properties of the signals\<close>

definition lpp_signal :: "SignalId \<Rightarrow> bool" where
  "lpp_signal s \<longleftrightarrow> sig_gnss s \<noteq> UNKNOWN \<and> 0 \<le> sig_lpp_id s \<and> sig_lpp_id s < 24"

definition gnss_list :: "Gnss list" where "gnss_list = [GPS, GLONASS, GALILEO, BEIDOU, QZSS]"

definition all_signals :: "SignalId list" where
  "all_signals = concat (map (\<lambda>g. map (SignalId g) [0..23]) gnss_list)"

lemma lpp_signal_in: "lpp_signal s \<Longrightarrow> s \<in> set all_signals"
  by (cases s; cases "sig_gnss s") (auto simp: lpp_signal_def all_signals_def gnss_list_def)

lemma signals_check:
  assumes "list_all P all_signals" and "lpp_signal s"
  shows "P s"
  using assms lpp_signal_in [of s] by (simp add: list_all_iff)

lemma msm_number_of:
  assumes "lpp_signal s" and "sig_as_msm s = Value r"
  shows "2 \<le> r \<and> r \<le> 32"
proof -
  have "list_all (\<lambda>s. case sig_as_msm s of Value r \<Rightarrow> 2 \<le> r \<and> r \<le> 32 | _ \<Rightarrow> True) all_signals" by code_simp
  from signals_check [OF this assms(1)] show ?thesis by (simp add: assms(2))
qed

lemma filter_distinct_nth:
  "distinct (filter P xs) \<Longrightarrow> i < length xs \<Longrightarrow> j < length xs \<Longrightarrow> P (xs ! i) \<Longrightarrow> xs ! i = xs ! j \<Longrightarrow> i = j"
proof (induction xs arbitrary: i j)
  case (Cons x xs)
  have tl: "distinct (filter P xs)" using Cons.prems(1) by (simp split: if_splits)
  have x: "P x \<Longrightarrow> x \<notin> set xs" using Cons.prems(1) by simp
  show ?case
    using Cons.prems(2-) Cons.IH [OF tl, of "i - 1" "j - 1"] x by (cases i; cases j) auto
qed simp

definition rtcm_numbers :: "Gnss \<Rightarrow> int list" where
  "rtcm_numbers g = (case g of GPS \<Rightarrow> GPS_LPP_TO_RTCM | GLONASS \<Rightarrow> GLONASS_LPP_TO_RTCM
     | GALILEO \<Rightarrow> GALILEO_LPP_TO_RTCM | BEIDOU \<Rightarrow> BDS_LPP_TO_RTCM | _ \<Rightarrow> [])"

lemmas rtcm_tables = GPS_LPP_TO_RTCM_def GLONASS_LPP_TO_RTCM_def GALILEO_LPP_TO_RTCM_def BDS_LPP_TO_RTCM_def

lemma rtcm_numbers_table:
  "distinct (filter (\<lambda>r. 0 \<le> r) (rtcm_numbers g))" "g \<in> {GPS, GLONASS, GALILEO, BEIDOU} \<Longrightarrow> length (rtcm_numbers g) = 24"
  by (cases g; simp add: rtcm_numbers_def rtcm_tables)+

lemma sig_as_msm_table:
  assumes "lpp_signal s" and "sig_as_msm s = Value r"
  shows "rtcm_numbers (sig_gnss s) ! nat (sig_lpp_id s) = r \<and> 0 \<le> r \<and> sig_gnss s \<in> {GPS, GLONASS, GALILEO, BEIDOU}"
  using assms by (cases "sig_gnss s")
    (auto simp: lpp_signal_def sig_as_msm_def rtcm_numbers_def Let_def split: if_splits)

lemma msm_number_inject:
  assumes "lpp_signal s" and "lpp_signal t" and "sig_gnss t = sig_gnss s"
    and "sig_as_msm s = Value r" and "sig_as_msm t = Value r"
  shows "t = s"
proof -
  have "nat (sig_lpp_id s) = nat (sig_lpp_id t)"
    by (rule filter_distinct_nth [OF rtcm_numbers_table(1) [of "sig_gnss s"]])
      (use assms sig_as_msm_table [OF assms(1,4)] sig_as_msm_table [OF assms(2,5)] rtcm_numbers_table(2) [of "sig_gnss s"]
        in \<open>auto simp: lpp_signal_def\<close>)
  then show ?thesis using assms(1-3) by (cases s; cases t) (auto simp: lpp_signal_def)
qed

text \<open>The RTCM number of a signal determines it: two signals of one constellation that RTCM can carry
  have different numbers, between 2 and 32.\<close>

theorem signal_numbers:
  assumes "lpp_signal s" and "sig_as_msm s = Value r"
  shows "2 \<le> r \<and> r \<le> 32 \<and>
    (\<forall>t. lpp_signal t \<and> sig_gnss t = sig_gnss s \<and> sig_as_msm t = Value r \<longrightarrow> t = s)"
  using msm_number_of [OF assms] msm_number_inject [OF assms(1) _ _ assms(2)] by blast

text \<open>The signal that stands for the frequency of another one has its frequency and stands for itself.\<close>

lemma reference_signal_idempotent:
  assumes "lpp_signal s"
  shows "\<exists>r. reference_signal s = Value r \<and> reference_signal r = Value r \<and> lpp_signal r \<and>
    sig_gnss r = sig_gnss s \<and> sig_frequency r = sig_frequency s"
proof -
  have "list_all (\<lambda>s. case reference_signal s of Value r \<Rightarrow>
      reference_signal r = Value r \<and> lpp_signal r \<and> sig_gnss r = sig_gnss s \<and> sig_frequency r = sig_frequency s
    | _ \<Rightarrow> False) all_signals" by code_simp
  from signals_check [OF this assms] show ?thesis by (cases "reference_signal s") simp_all
qed

text \<open>QZSS signals have a frequency, but no name and no RTCM number.\<close>

lemma qzss_has_no_name:
  assumes "lpp_signal s" and "sig_gnss s = QZSS"
  shows "sig_name s = Undefined \<and> sig_to_rinex s = Undefined \<and> sig_as_msm s = Undefined \<and>
    (\<exists>f. sig_frequency s = Value f)"
  using assms by (cases s) (auto simp: lpp_signal_def sig_name_def sig_to_rinex_def sig_as_msm_def
      sig_frequency_def lookup_def sig_lpp_def Let_def)

section \<open>Witnesses\<close>

theorem satellite_name_read_witness: "from_string (str ''E07'') = SatelliteId GALILEO 6"
  using satellite_name_read [of "SatelliteId GALILEO 6"]
  by (simp add: in_table_def sat_count_def abs_counts sat_name_def sat_is_valid_def gGalSatelliteNames_def)

theorem satellite_text_misread_witness:
  "from_string (sat_to_string (SatelliteId GPS 11)) = SatelliteId GPS 10 \<and>
   from_string (sat_to_string (SatelliteId GPS 0)) = invalid"
  using satellite_text_misread [of "SatelliteId GPS 11"] satellite_text_misread [of "SatelliteId GPS 0"]
  by (simp add: lpp_satellite_def LPP_SATELLITE_ID_LIMIT_def)

theorem satellite_numbers_witness:
  "\<exists>t. in_table t \<and> t \<noteq> SatelliteId GLONASS 24 \<and> absolute_id t = 56"
  using satellite_numbers [of "SatelliteId GLONASS 24"]
  by (simp add: lpp_satellite_def LPP_SATELLITE_ID_LIMIT_def in_table_def sat_count_def abs_counts
      absolute_id_def abs_mins)

theorem signal_numbers_witness: "sig_as_msm (SignalId GPS 17) = Value 32 \<and>
    (\<forall>t. lpp_signal t \<and> sig_gnss t = GPS \<and> sig_as_msm t = Value 32 \<longrightarrow> t = SignalId GPS 17)"
proof -
  have "sig_as_msm (SignalId GPS 17) = Value 32" by code_simp
  then show ?thesis using signal_numbers [of "SignalId GPS 17" 32] by (simp add: lpp_signal_def)
qed

end
