(* ===== verification/Doubles.thy ===== *)
theory Doubles
  imports Prelude Complex_Main "HOL-Library.Log_Nat"
begin

text \<open>
  Floating point numbers of C++: a \<^verbatim>\<open>double\<close> is the rational number it stands for, and an arithmetic
  operation is the exact one followed by rounding to 53 bits, ties to even.  Overflow, subnormal numbers,
  infinities and NaN do not occur in the code that uses this theory: its values are integers of at most 40
  bits, scaled by powers of two or by the constants of the RTCM data fields.
\<close>

section \<open>Rounding\<close>

text \<open>The exponent of a positive number: the \<open>e\<close> with \<open>2 ^ e \<le> x < 2 ^ (e + 1)\<close>.\<close>

definition exponent :: "rat \<Rightarrow> int" where
  "exponent x =
     (let (p, q) = quotient_of x; e = bitlen p - bitlen q in if 2 powi e \<le> x then e else e - 1)"

definition half_even :: "rat \<Rightarrow> int" where
  "half_even y =
     (let n = \<lfloor>y\<rfloor>; r = y - of_int n
      in if r < 1 / 2 then n else if r > 1 / 2 then n + 1 else if even n then n else n + 1)"

definition rnd :: "rat \<Rightarrow> rat" where
  "rnd x = (if x = 0 then 0
     else let ulp = 2 powi (exponent \<bar>x\<bar> - 52) in of_int (half_even (x / ulp)) * ulp)"

section \<open>Laws\<close>

lemma half_even_of_int [simp]: "half_even (of_int n) = n"
  by (simp add: half_even_def)

lemma half_even_error: "\<bar>of_int (half_even y) - y\<bar> \<le> 1 / 2"
proof -
  have "of_int \<lfloor>y\<rfloor> \<le> y" "y < of_int \<lfloor>y\<rfloor> + 1" by linarith+
  then show ?thesis by (auto simp: half_even_def Let_def abs_le_iff)
qed

lemma bitlen_powi:
  assumes "0 < n"
  shows "(2 :: rat) powi (bitlen n - 1) \<le> of_int n" and "(of_int n :: rat) < 2 powi bitlen n"
proof -
  have "bitlen n \<ge> 1" using assms by (simp add: bitlen_ge_iff_power)
  then have e: "(2 :: rat) powi (bitlen n - 1) = of_int (2 ^ nat (bitlen n - 1))"
      "(2 :: rat) powi bitlen n = of_int (2 ^ nat (bitlen n))"
    by (simp_all add: power_int_def)
  show "(2 :: rat) powi (bitlen n - 1) \<le> of_int n" "(of_int n :: rat) < 2 powi bitlen n"
    unfolding e using bitlen_bounds [OF assms] by (simp_all only: of_int_le_iff of_int_less_iff)
qed

lemma exponent_bounds:
  assumes "0 < x"
  shows "2 powi exponent x \<le> x" and "x < 2 powi (exponent x + 1)"
proof -
  obtain p q where pq: "quotient_of x = (p, q)" by (cases "quotient_of x")
  have q: "0 < q" using quotient_of_denom_pos [OF pq] .
  have x: "x = of_int p / of_int q" using quotient_of_div [OF pq] .
  have p: "0 < p" using assms q unfolding x by (simp add: zero_less_divide_iff)
  define e where "e = bitlen p - bitlen q"
  have split: "(2 :: rat) powi (bitlen p - 1) = 2 powi (e - 1) * 2 powi bitlen q"
      "(2 :: rat) powi bitlen p = 2 powi (e + 1) * 2 powi (bitlen q - 1)"
    by (simp_all add: e_def flip: power_int_add)
  have "2 powi (e - 1) * of_int q \<le> 2 powi (e - 1) * (2 powi bitlen q :: rat)"
    using bitlen_powi(2) [OF q] by simp
  also have "\<dots> \<le> of_int p" using bitlen_powi(1) [OF p] split by simp
  finally have low: "2 powi (e - 1) \<le> x" using q unfolding x by (simp add: pos_le_divide_eq)
  have "of_int p < (2 powi (e + 1) * 2 powi (bitlen q - 1) :: rat)" using bitlen_powi(2) [OF p] split by simp
  also have "\<dots> \<le> 2 powi (e + 1) * of_int q" using bitlen_powi(1) [OF q] by simp
  finally have up: "x < 2 powi (e + 1)" using q unfolding x by (simp add: pos_divide_less_eq)
  have "exponent x = (if 2 powi e \<le> x then e else e - 1)" by (simp add: exponent_def pq e_def)
  then show "2 powi exponent x \<le> x" "x < 2 powi (exponent x + 1)" using low up by auto
qed

lemma rnd_zero [simp]: "rnd 0 = 0"
  by (simp add: rnd_def)

text \<open>Every number of 53 bits, scaled by a power of two, is represented.\<close>

lemma rnd_exact:
  assumes "x = of_int m * 2 powi k" and "\<bar>m\<bar> < 2 ^ 53"
  shows "rnd x = x"
proof (cases "x = 0")
  case False
  let ?e = "exponent \<bar>x\<bar>"
  have "2 powi ?e \<le> \<bar>x\<bar>" using False by (intro exponent_bounds(1)) simp
  also have "\<bar>x\<bar> = of_int \<bar>m\<bar> * 2 powi k" by (simp add: assms(1) abs_mult)
  also have "(of_int \<bar>m\<bar> :: rat) < 2 ^ 53" using assms(2) by (metis of_int_less_iff of_int_numeral of_int_power)
  finally have "(2 :: rat) powi ?e < 2 powi (53 + k)" by (simp add: power_int_add)
  then have "?e < 53 + k"
    using power_int_increasing [of "53 + k" ?e "2 :: rat"] by (meson linorder_not_le one_le_numeral)
  then obtain j where j: "k = ?e - 52 + int j" using zle_iff_zadd [of "?e - 52" k] by auto
  have "x / 2 powi (?e - 52) = of_int (m * 2 ^ j)"
  proof -
    have "x = of_int m * (2 powi (?e - 52) * 2 ^ j)" by (subst assms(1), subst j) (simp add: power_int_add)
    then show ?thesis by (simp add: field_simps)
  qed
  then have "of_int (half_even (x / 2 powi (?e - 52))) * 2 powi (?e - 52) = x"
    by (metis half_even_of_int nonzero_eq_divide_eq power_int_not_zero zero_neq_numeral)
  then show ?thesis using False by (simp add: rnd_def Let_def)
qed simp

lemma rnd_int [simp]: "\<bar>m\<bar> < 2 ^ 53 \<Longrightarrow> rnd (of_int m) = of_int m"
  by (rule rnd_exact [of _ m 0]) simp_all

lemma rnd_error: "\<bar>rnd x - x\<bar> \<le> \<bar>x\<bar> / 2 ^ 53"
proof (cases "x = 0")
  case False
  let ?u = "2 powi (exponent \<bar>x\<bar> - 52) :: rat"
  have "rnd x - x = (of_int (half_even (x / ?u)) - x / ?u) * ?u"
    using False by (simp add: rnd_def Let_def left_diff_distrib)
  then have "\<bar>rnd x - x\<bar> \<le> 1 / 2 * ?u"
    using half_even_error [of "x / ?u"] by (simp add: abs_mult)
  also have "?u = 2 powi exponent \<bar>x\<bar> / 2 ^ 52" by (simp add: power_int_diff)
  also have "\<dots> \<le> \<bar>x\<bar> / 2 ^ 52"
    using exponent_bounds(1) [of "\<bar>x\<bar>"] False by (intro divide_right_mono) simp_all
  finally show ?thesis by simp
qed simp

text \<open>The product of a small integer with a constant, and the quotient by the same constant.\<close>

lemma quotient_near:
  fixes c :: rat
  assumes "0 < c"
  shows "\<bar>rnd (rnd (of_int n * c) / c) - of_int n\<bar> \<le> of_int \<bar>n\<bar> / 2 ^ 51"
proof -
  let ?n = "of_int n :: rat"
  let ?q = "rnd (?n * c) / c"
  have q: "\<bar>?q - ?n\<bar> \<le> \<bar>?n\<bar> / 2 ^ 53"
  proof -
    have "?q - ?n = (rnd (?n * c) - ?n * c) / c" using assms by (simp add: diff_divide_distrib)
    then have "\<bar>?q - ?n\<bar> = \<bar>rnd (?n * c) - ?n * c\<bar> / c" using assms by simp
    also have "\<dots> \<le> (\<bar>?n * c\<bar> / 2 ^ 53) / c" using assms by (intro divide_right_mono rnd_error) simp
    finally show ?thesis using assms by (simp add: abs_mult)
  qed
  have "\<bar>?q\<bar> \<le> \<bar>?q - ?n\<bar> + \<bar>?n\<bar>" using abs_triangle_ineq [of "?q - ?n" ?n] by simp
  also have "\<dots> \<le> 2 * \<bar>?n\<bar>"
  proof -
    have "\<bar>?n\<bar> / 2 ^ 53 \<le> \<bar>?n\<bar>" by simp
    with q have "\<bar>?q - ?n\<bar> \<le> \<bar>?n\<bar>" by (rule order_trans)
    then show ?thesis by simp
  qed
  finally have "\<bar>?q\<bar> \<le> 2 * \<bar>?n\<bar>" .
  then have "\<bar>rnd ?q - ?q\<bar> \<le> 2 * \<bar>?n\<bar> / 2 ^ 53" using rnd_error [of ?q] by simp
  then have "\<bar>rnd ?q - ?n\<bar> \<le> 2 * \<bar>?n\<bar> / 2 ^ 53 + \<bar>?n\<bar> / 2 ^ 53"
    using abs_triangle_ineq [of "rnd ?q - ?q" "?q - ?n"] q by simp
  also have "\<dots> \<le> \<bar>?n\<bar> / 2 ^ 51" by (simp add: field_simps)
  finally show ?thesis by simp
qed

section \<open>Scaling, order and thousandths\<close>

lemma exponentI:
  assumes "2 powi e \<le> x" and "x < 2 powi (e + 1)"
  shows "exponent x = e"
proof -
  have "0 < x" using assms(1) by (rule less_le_trans [rotated]) simp
  note b = exponent_bounds [OF this]
  have "(2 :: rat) powi exponent x < 2 powi (e + 1)" "(2 :: rat) powi e < 2 powi (exponent x + 1)"
    using b assms by (simp_all only: order_le_less_trans order_trans)
  then have "exponent x < e + 1" "e < exponent x + 1"
    by (meson linorder_not_le one_le_numeral power_int_increasing)+
  then show ?thesis by simp
qed

lemma rnd_scale: "rnd (x * 2 powi k) = rnd x * 2 powi k"
proof (cases "x = 0")
  case False
  let ?e = "exponent \<bar>x\<bar>"
  have e: "2 powi ?e \<le> \<bar>x\<bar>" "\<bar>x\<bar> < 2 powi (?e + 1)"
    using False exponent_bounds [of "\<bar>x\<bar>"] by simp_all
  have abs: "\<bar>x * 2 powi k\<bar> = \<bar>x\<bar> * 2 powi k" by (simp add: abs_mult)
  have "exponent \<bar>x * 2 powi k\<bar> = ?e + k"
  proof (rule exponentI)
    show "2 powi (?e + k) \<le> \<bar>x * 2 powi k\<bar>" unfolding abs using e(1) by (simp add: power_int_add)
    have "\<bar>x\<bar> * 2 powi k < 2 powi (?e + 1) * 2 powi k" using e(2) by (rule mult_strict_right_mono) simp
    then show "\<bar>x * 2 powi k\<bar> < 2 powi (?e + k + 1)"
      unfolding abs by (simp add: power_int_add [symmetric] add_ac)
  qed
  moreover have "(2 :: rat) powi (?e + k - 52) = 2 powi (?e - 52) * 2 powi k"
    by (simp add: power_int_add [symmetric] algebra_simps)
  ultimately show ?thesis using False by (simp add: rnd_def Let_def)
qed simp

lemma half_even_near:
  assumes "\<bar>y - of_int n\<bar> < 1 / 2"
  shows "half_even y = n"
proof -
  have "\<bar>of_int (half_even y) - of_int n :: rat\<bar> < 1" using half_even_error [of y] assms by linarith
  then show ?thesis by linarith
qed

lemma rnd_eqI:
  assumes "2 powi e \<le> x" and "x < 2 powi (e + 1)" and "\<bar>x / 2 powi (e - 52) - of_int n\<bar> < 1 / 2"
  shows "rnd x = of_int n * 2 powi (e - 52)"
proof -
  have "0 < x" using assms(1) by (rule less_le_trans [rotated]) simp
  then show ?thesis using exponentI [OF assms(1,2)] half_even_near [OF assms(3)] by (simp add: rnd_def Let_def)
qed

lemma rnd_error_ulp:
  assumes "2 powi e \<le> x" and "x < 2 powi (e + 1)"
  shows "\<bar>rnd x - x\<bar> \<le> 2 powi (e - 52) / 2"
proof -
  let ?u = "2 powi (e - 52) :: rat"
  have "0 < x" using assms(1) by (rule less_le_trans [rotated]) simp
  then have "rnd x - x = (of_int (half_even (x / ?u)) - x / ?u) * ?u"
    using exponentI [OF assms] by (simp add: rnd_def Let_def left_diff_distrib)
  then show ?thesis using half_even_error [of "x / ?u"] by (simp add: abs_mult)
qed

lemma thousandths_large:
  assumes "33 \<le> m" and "m \<le> 62"
  shows "rnd (rnd (of_int m / 1000) * 1000) = of_int m"
proof -
  let ?m = "of_int m :: rat"
  have m: "33 \<le> ?m" "?m \<le> 62" using assms by simp_all
  let ?r = "rnd (?m / 1000)"
  have "\<bar>?r - ?m / 1000\<bar> \<le> 2 powi (- 5 - 52) / 2"
    by (rule rnd_error_ulp) (use m in \<open>simp_all add: power_int_def power_one_over field_simps\<close>)
  then have near: "\<bar>?r * 1000 - ?m\<bar> < 1 / 2 ^ 48" by (simp add: power_int_def field_simps abs_le_iff abs_less_iff)
  have wide: "?m - 1 < ?r * 1000" "?r * 1000 < ?m + 1 / 2"
    using near unfolding abs_less_iff by simp_all
  have "rnd (?r * 1000) = of_int (m * 2 ^ 47) * 2 powi (5 - 52)"
  proof (rule rnd_eqI)
    show "\<bar>?r * 1000 / 2 powi (5 - 52) - of_int (m * 2 ^ 47)\<bar> < 1 / 2"
      using near unfolding abs_less_iff by (simp add: power_int_def field_simps)
  qed (use wide m in \<open>simp_all add: power_int_def\<close>)
  then show ?thesis by (simp add: power_int_def power_one_over)
qed

lemma thousandths_scaled:
  assumes "rnd (rnd (of_int m / 1000) * 1000) = of_int m"
  shows "rnd (rnd (of_int m * 2 powi k / 1000) * 1000) = of_int m * 2 powi k"
  using assms rnd_scale [of "of_int m / 1000" k] rnd_scale [of "rnd (of_int m / 1000) * 1000" k]
  by (simp add: mult_ac)

lemma thousandths_one: "rnd (rnd (1 / 1000) * 1000) = 1" "rnd (rnd (63 / 1000) * 1000) = 63"
  by code_simp+

lemma thousandths:
  assumes "0 \<le> m" and "m < 64"
  shows "rnd (rnd (of_int m / 1000) * 1000) = of_int m"
proof -
  have up: ?thesis if "33 \<le> m * 2 ^ k" "m * 2 ^ k \<le> 62" for k :: nat
    using thousandths_scaled [OF thousandths_large [OF that], of "- int k"]
    by (simp add: power_int_minus mult.assoc)
  have pow: ?thesis if "m = 2 ^ k" for k :: nat
    using thousandths_scaled [of 1 "int k"] thousandths_one that by simp
  have "m = 0 \<or> m \<in> {1, 2, 4, 8, 16, 32} \<or> m \<in> {3, 5, 6, 7} \<union> {9..15} \<union> {17..31} \<or> 33 \<le> m \<and> m \<le> 62 \<or> m = 63"
    using assms unfolding insert_iff Un_iff atLeastAtMost_iff empty_iff by presburger
  then consider "m = 0" | "m \<in> {1, 2, 4, 8, 16, 32}" | "m \<in> {3, 5, 6, 7} \<union> {9..15} \<union> {17..31}"
    | "33 \<le> m" "m \<le> 62" | "m = 63" by blast
  then show ?thesis
  proof cases
    case 2
    then show ?thesis using pow [of 0] pow [of 1] pow [of 2] pow [of 3] pow [of 4] pow [of 5] by auto
  next
    case 3
    then show ?thesis using up [of 4] up [of 3] up [of 2] up [of 1] by auto
  next
    case 4
    then show ?thesis by (rule thousandths_large)
  qed (simp_all add: thousandths_one)
qed

text \<open>Quotients of integers by a thousand keep their order.\<close>

lemma thousandth_less_iff:
  assumes "0 \<le> s" and "s < 2 ^ 40" and "0 \<le> t" and "t < 2 ^ 40"
  shows "rnd (of_int s / 1000) < rnd (of_int t / 1000) \<longleftrightarrow> s < t"
proof -
  have less: "rnd (of_int s / 1000) < rnd (of_int t / 1000)"
    if "0 \<le> s" "s < t" "t < 2 ^ 40" for s t :: int
  proof -
    let ?s = "of_int s :: rat" and ?t = "of_int t :: rat"
    have "?t \<le> of_int (2 ^ 40)" "?s \<le> of_int (2 ^ 40)" using that by (simp_all only: of_int_le_iff)
    moreover have "?s + 1 \<le> ?t" using that by linarith
    moreover have "0 \<le> ?s" using that by simp
    ultimately show ?thesis
      using rnd_error [of "?s / 1000"] rnd_error [of "?t / 1000"]
      unfolding abs_le_iff by (simp add: field_simps)
  qed
  show ?thesis using less [of s t] less [of t s] assms by (cases s t rule: linorder_cases) auto
qed

end
