(* ===== verification/Rtcm_Msm.thy ===== *)
theory Rtcm_Msm
  imports Rtcm_Encoder Time_Scales Gnss_Ids Doubles "HOL-Library.Product_Lexorder"
begin

text \<open>
  The multiple signal messages of the RTCM generator (generator/rtcm/messages/msm.cpp, msm.hpp, helper.hpp,
  with the structures of rtk_data.hpp).  Measurements are doubles in the sense of \<open>Doubles\<close>; an empty
  \<^verbatim>\<open>Maybe\<close> has the value 0.  A failed assertion and the use of an uninitialised entry are \<open>Undefined\<close>.
  \<^verbatim>\<open>std::sort\<close> is the stable sort; the theorems are about lists without equal keys, where every sort agrees.
\<close>

section \<open>Data\<close>

datatype GenericGnssId = Gen_GPS | Gen_GLONASS | Gen_GALILEO | Gen_BEIDOU

record CommonObservationInfo =
  ci_reference_station_id :: u32
  clock_steering :: int
  external_clock :: int
  smooth_indicator :: int
  smooth_interval :: int

record Signal =
  sg_id :: SignalId
  sg_satellite :: SatelliteId
  fine_phase_range :: "rat option"
  fine_pseudo_range :: "rat option"
  fine_phase_range_rate :: "rat option"
  carrier_to_noise_ratio :: "rat option"
  lock_time :: "rat option"
  half_cycle_ambiguity :: bool
  require_phase_alignment :: bool

record Satellite =
  st_id :: SatelliteId
  integer_ms :: "int option"
  rough_range :: "rat option"
  rough_phase_range_rate :: "rat option"
  frequency_channel :: "int option"

record Observations =
  ob_time :: timestamp
  ob_signals :: "Signal list"
  ob_satellites :: "Satellite list"

text \<open>\<^verbatim>\<open>Maybe::valid\<close> and \<^verbatim>\<open>Maybe::value\<close>.\<close>

definition valid :: "'a option \<Rightarrow> bool" where "valid m \<longleftrightarrow> m \<noteq> None"

definition val :: "'a::zero option \<Rightarrow> 'a" where
  "val m = (case m of None \<Rightarrow> 0 | Some x \<Rightarrow> x)"

lemma valid_simps [simp]: "valid (Some x)" "\<not> valid None" "val (Some y) = y" "val None = 0"
  by (simp_all add: valid_def val_def)

section \<open>Helpers\<close>

definition rtcm_round :: "rat \<Rightarrow> int" where
  "rtcm_round v = \<lfloor>rnd (v + 1 / 2)\<rfloor>"

text \<open>The thresholds in ms with the offset and divisor of the values below them.\<close>

definition lock_ranges :: "(int \<times> int \<times> int) list" where
  "lock_ranges =
    [(64, 0, 1), (128, 64, 2), (256, 256, 4), (512, 768, 8), (1024, 2048, 16), (2048, 5120, 32),
     (4096, 12288, 64), (8192, 28672, 128), (16384, 65536, 256), (32768, 147456, 512),
     (65536, 327680, 1024), (131072, 720896, 2048), (262144, 1572864, 4096), (524288, 3407872, 8192),
     (1048576, 7340032, 16384), (2097152, 15728640, 32768), (4194304, 33554432, 65536),
     (8388608, 71303168, 131072), (16777216, 150994944, 262144), (33554432, 318767104, 524288),
     (67108864, 671088640, 1048576)]"

definition to_msm_lock_ex :: "rat \<Rightarrow> int" where
  "to_msm_lock_ex lock =
     (let lock_ms = trunc (rnd (lock * 1000))
      in if lock < 0 then 0
         else case find (\<lambda>(limit, offset, divisor). lock < rnd (of_int limit / 1000)) lock_ranges of
           Some (limit, offset, divisor) \<Rightarrow> (lock_ms + offset) div divisor
         | None \<Rightarrow> 704)"

definition lock_limits :: "int list" where
  "lock_limits = [32, 64, 128, 256, 512, 1024, 2048, 4096, 8192, 16384, 32768, 65536, 131072, 262144, 524288]"

definition to_msm_lock :: "rat \<Rightarrow> int" where
  "to_msm_lock lock =
     (case find (\<lambda>i. lock < rnd (of_int (lock_limits ! i) / 1000)) [0..<15] of Some i \<Rightarrow> int i | None \<Rightarrow> 15)"

definition K_MLT2_TABLE :: "int list" where
  "K_MLT2_TABLE = [0, 32, 64, 128, 256, 512, 1024, 2048, 4096, 8192, 16384, 32768, 65536, 131072, 262144, 524288]"

definition from_msm_lock :: "int \<Rightarrow> rat" where
  "from_msm_lock v =
     (if v < 0 then 0 else if v > 15 then rnd (of_int (K_MLT2_TABLE ! 15) / 1000)
      else rnd (of_int (K_MLT2_TABLE ! nat v) / 1000))"

definition K_MLT_SIZE :: nat where "K_MLT_SIZE = 22"

definition K_MLT_COEFFICIENT :: "int list" where
  "K_MLT_COEFFICIENT =
    [1, 2, 4, 8, 16, 32, 64, 128, 256, 512, 1024,
     2048, 4096, 8192, 16384, 32768, 65536, 131072, 262144, 524288, 1048576, 2097152]"

definition K_MLT_OFFSET :: "int list" where
  "K_MLT_OFFSET =
    [0, 64, 256, 768, 2048, 5120, 12288, 28672, 65536, 147456, 327680, 720896, 1572864, 3407872, 7340032,
     15728640, 33554432, 71303168, 150994944, 318767104, 671088640, 1409286144]"

definition K_MLT_BASE :: "int list" where
  "K_MLT_BASE =
    [0, 64, 96, 128, 160, 192, 224, 256, 288, 320, 352, 384, 416, 448, 480, 512, 544, 576, 608, 640, 672, 704]"

text \<open>\<open>input_value\<close> is not negative.\<close>

definition from_msm_lock_ex :: "int \<Rightarrow> rat" where
  "from_msm_lock_ex v =
     (if v \<ge> K_MLT_BASE ! (K_MLT_SIZE - 1) then rnd (67108864 / 1000)
      else case find (\<lambda>i. v \<ge> K_MLT_BASE ! i \<and> v < K_MLT_BASE ! (i + 1)) [0..<K_MLT_SIZE - 1] of
        Some i \<Rightarrow> rnd (of_int (K_MLT_COEFFICIENT ! i * v - K_MLT_OFFSET ! i) / 1000)
      | None \<Rightarrow> 0)"

section \<open>Data fields\<close>

definition epoch_milliseconds :: "timestamp \<Rightarrow> u32" where
  "epoch_milliseconds t =
     word_of_int (trunc (rnd (rnd (of_int (ts_seconds t) + ts_fraction t) * 1000)))"

definition epoch_time :: "timestamp \<Rightarrow> GenericGnssId \<Rightarrow> encoder \<Rightarrow> encoder" where
  "epoch_time time gnss e =
     (case gnss of
        Gen_GPS \<Rightarrow> enc_u32 30 (epoch_milliseconds (time_of_week (convert_scale TAI scale.GPS time))) e
      | Gen_GLONASS \<Rightarrow>
          (let glo = convert_scale TAI GLO time
           in enc_u32 27 (epoch_milliseconds (time_of_day glo)) (enc_u8 3 (word_of_int (day_of_week glo)) e))
      | Gen_GALILEO \<Rightarrow> enc_u32 30 (epoch_milliseconds (time_of_week (convert_scale TAI GST time))) e
      | Gen_BEIDOU \<Rightarrow> enc_u32 30 (epoch_milliseconds (time_of_week (convert_scale TAI BDT time))) e)"

definition msm_message_id :: "u32 \<Rightarrow> GenericGnssId \<Rightarrow> u16" where
  "msm_message_id msm gnss =
     (case gnss of Gen_GPS \<Rightarrow> 1070 | Gen_GLONASS \<Rightarrow> 1080 | Gen_GALILEO \<Rightarrow> 1090 | Gen_BEIDOU \<Rightarrow> 1120) + ucast msm"

definition df397 :: "Satellite \<Rightarrow> encoder \<Rightarrow> encoder" where
  "df397 s =
     (if valid (integer_ms s) \<and> val (integer_ms s) \<ge> 0 \<and> val (integer_ms s) \<le> 254
      then enc_u8 8 (word_of_int (val (integer_ms s))) else enc_u8 8 0xFF)"

definition df398 :: "Satellite \<Rightarrow> encoder \<Rightarrow> encoder" where
  "df398 s =
     (let v = rtcm_round (rnd (val (rough_range s) * 2 ^ 10))
      in if valid (rough_range s) \<and> v \<ge> 0 \<and> v \<le> 1023 then enc_u16 10 (word_of_int v) else enc_u16 10 0x3FF)"

definition df399 :: "Satellite \<Rightarrow> encoder \<Rightarrow> encoder" where
  "df399 s =
     (let v = rtcm_round (val (rough_phase_range_rate s))
      in if valid (rough_phase_range_rate s) \<and> v \<ge> - 8191 \<and> v \<le> 8191 then enc_i16 14 (word_of_int v)
         else enc_u16 14 0x2000)"

definition df419 :: "Satellite \<Rightarrow> encoder \<Rightarrow> encoder" where
  "df419 s =
     (let channel = val (frequency_channel s) + 7
      in if valid (frequency_channel s) \<and> channel \<ge> 0 \<and> channel \<le> 14 then enc_u8 4 (word_of_int channel)
         else enc_u8 4 0xF)"

definition df_ext :: "Satellite \<Rightarrow> encoder \<Rightarrow> encoder" where
  "df_ext s = (if sat_gnss (st_id s) = GLONASS then df419 s else enc_u8 4 0xF)"

definition df400 :: "Signal \<Rightarrow> encoder \<Rightarrow> encoder" where
  "df400 s =
     (let v = rtcm_round (rnd (val (fine_pseudo_range s) * 2 ^ 24))
      in if valid (fine_phase_range s) then enc_i16 15 (word_of_int v) else enc_u16 15 0x4000)"

definition df401 :: "Signal \<Rightarrow> encoder \<Rightarrow> encoder" where
  "df401 s =
     (let v = rtcm_round (rnd (val (fine_phase_range s) * 2 ^ 29))
      in if valid (fine_pseudo_range s) then enc_i32 22 (word_of_int v) else enc_u32 22 0x200000)"

definition df402 :: "Signal \<Rightarrow> encoder \<Rightarrow> encoder" where
  "df402 s =
     (let v = to_msm_lock (val (lock_time s))
      in if valid (lock_time s) \<and> v \<ge> 0 \<and> v \<le> 15 then enc_u8 4 (word_of_int v) else enc_u8 4 0)"

definition df403 :: "Signal \<Rightarrow> encoder \<Rightarrow> encoder" where
  "df403 s =
     (let v = rtcm_round (val (carrier_to_noise_ratio s))
      in if valid (carrier_to_noise_ratio s) \<and> v \<ge> 1 \<and> v \<le> 63 then enc_u8 6 (word_of_int v) else enc_u8 6 0)"

definition df404 :: "Signal \<Rightarrow> encoder \<Rightarrow> encoder" where
  "df404 s =
     (let v = rtcm_round (rnd (val (fine_phase_range_rate s) / rnd (1 / 10000)))
      in if valid (fine_phase_range_rate s) \<and> v > - 16384 \<and> v \<le> 16383 then enc_i16 15 (word_of_int v)
         else enc_u16 15 0x4000)"

definition df405 :: "Signal \<Rightarrow> encoder \<Rightarrow> encoder" where
  "df405 s =
     (let v = rtcm_round (rnd (val (fine_pseudo_range s) * 2 ^ 29))
      in if valid (fine_phase_range s) then enc_i32 20 (word_of_int v) else enc_u32 20 0x80000)"

definition df406 :: "Signal \<Rightarrow> encoder \<Rightarrow> encoder" where
  "df406 s =
     (let v = rtcm_round (rnd (val (fine_phase_range s) * 2 ^ 31))
      in if valid (fine_phase_range s) then enc_i32 24 (word_of_int v) else enc_u32 24 0x800000)"

definition df407 :: "Signal \<Rightarrow> encoder \<Rightarrow> encoder" where
  "df407 s =
     (let v = to_msm_lock_ex (val (lock_time s))
      in if valid (lock_time s) \<and> v \<ge> 0 \<and> v \<le> 704 then enc_u16 10 (word_of_int v) else enc_u16 10 0)"

definition df408 :: "Signal \<Rightarrow> encoder \<Rightarrow> encoder" where
  "df408 s =
     (let v = rtcm_round (rnd (val (carrier_to_noise_ratio s) / (1 / 16)))
      in if valid (carrier_to_noise_ratio s) \<and> v \<ge> 1 \<and> v \<le> 1023 then enc_u16 10 (word_of_int v) else enc_u16 10 0)"

definition df420 :: "Signal \<Rightarrow> encoder \<Rightarrow> encoder" where
  "df420 s = enc_b (half_cycle_ambiguity s)"

text \<open>The macros \<^verbatim>\<open>FOR_EACH_SAT\<close> and \<^verbatim>\<open>FOR_EACH_SIG\<close>.\<close>

definition for_each :: "('a \<Rightarrow> encoder \<Rightarrow> encoder) \<Rightarrow> 'a list \<Rightarrow> encoder \<Rightarrow> encoder" where
  "for_each f xs e = foldl (\<lambda>e x. f x e) e xs"

definition generate_msm4_satellites :: "Satellite list \<Rightarrow> encoder \<Rightarrow> encoder" where
  "generate_msm4_satellites ss e = for_each df398 ss (for_each df397 ss e)"

definition generate_msm5_satellites :: "Satellite list \<Rightarrow> encoder \<Rightarrow> encoder" where
  "generate_msm5_satellites ss e =
     for_each df399 ss (for_each df398 ss (for_each df_ext ss (for_each df397 ss e)))"

definition generate_msm6_satellites :: "Satellite list \<Rightarrow> encoder \<Rightarrow> encoder" where
  "generate_msm6_satellites ss e = for_each df398 ss (for_each df397 ss e)"

definition generate_msm7_satellites :: "Satellite list \<Rightarrow> encoder \<Rightarrow> encoder" where
  "generate_msm7_satellites ss e =
     for_each df399 ss (for_each df398 ss (for_each df_ext ss (for_each df397 ss e)))"

definition generate_msm_satellites :: "u32 \<Rightarrow> Satellite list \<Rightarrow> encoder \<Rightarrow> encoder" where
  "generate_msm_satellites msm ss e =
     (if msm = 4 then generate_msm4_satellites ss e
      else if msm = 5 then generate_msm5_satellites ss e
      else if msm = 6 then generate_msm6_satellites ss e
      else if msm = 7 then generate_msm7_satellites ss e else e)"

definition generate_msm4_signals :: "Signal list \<Rightarrow> encoder \<Rightarrow> encoder" where
  "generate_msm4_signals ss e =
     for_each df403 ss (for_each df420 ss (for_each df402 ss (for_each df401 ss (for_each df400 ss e))))"

definition generate_msm5_signals :: "Signal list \<Rightarrow> encoder \<Rightarrow> encoder" where
  "generate_msm5_signals ss e =
     for_each df404 ss (for_each df403 ss (for_each df420 ss (for_each df402 ss (for_each df401 ss
       (for_each df400 ss e)))))"

definition generate_msm6_signals :: "Signal list \<Rightarrow> encoder \<Rightarrow> encoder" where
  "generate_msm6_signals ss e =
     for_each df408 ss (for_each df420 ss (for_each df407 ss (for_each df406 ss (for_each df405 ss e))))"

definition generate_msm7_signals :: "Signal list \<Rightarrow> encoder \<Rightarrow> encoder" where
  "generate_msm7_signals ss e =
     for_each df404 ss (for_each df408 ss (for_each df420 ss (for_each df407 ss (for_each df406 ss
       (for_each df405 ss e)))))"

definition generate_msm_signals :: "u32 \<Rightarrow> Signal list \<Rightarrow> encoder \<Rightarrow> encoder" where
  "generate_msm_signals msm ss e =
     (if msm = 4 then generate_msm4_signals ss e
      else if msm = 5 then generate_msm5_signals ss e
      else if msm = 6 then generate_msm6_signals ss e
      else if msm = 7 then generate_msm7_signals ss e else e)"

section \<open>The message\<close>

text \<open>The MSM number of a satellite and of a signal, where they are valid.\<close>

definition msm_sat :: "SatelliteId \<Rightarrow> nat" where
  "msm_sat s = nat (val (sat_as_msm s))"

definition msm_sig :: "SignalId \<Rightarrow> nat" where
  "msm_sig s = (case sig_as_msm s of Value r \<Rightarrow> nat r | _ \<Rightarrow> 0)"

definition sat_carried :: "SatelliteId \<Rightarrow> bool" where
  "sat_carried s \<longleftrightarrow> (case sat_as_msm s of Some n \<Rightarrow> n \<ge> 1 \<and> n \<le> 64 | None \<Rightarrow> False)"

definition sig_carried :: "SignalId \<Rightarrow> bool" where
  "sig_carried s \<longleftrightarrow> (case sig_as_msm s of Value r \<Rightarrow> r \<ge> 1 \<and> r \<le> 32 | _ \<Rightarrow> False)"

text \<open>The satellites and signals that are sent, sorted.\<close>

definition msm_satellites :: "Observations \<Rightarrow> Satellite list" where
  "msm_satellites obs = sort_key (\<lambda>s. msm_sat (st_id s)) (filter (\<lambda>s. sat_carried (st_id s)) (ob_satellites obs))"

definition signal_key :: "Signal \<Rightarrow> nat \<times> nat" where
  "signal_key s = (msm_sat (sg_satellite s), msm_sig (sg_id s))"

definition msm_signals :: "Observations \<Rightarrow> Signal list" where
  "msm_signals obs =
     sort_key signal_key
       (filter (\<lambda>s. sig_carried (sg_id s) \<and> sat_carried (sg_satellite s)) (ob_signals obs))"

text \<open>The masks: bit \<open>63 - index\<close> (\<open>31 - index\<close>) for the number \<open>index + 1\<close>.\<close>

definition satellite_mask :: "Satellite list \<Rightarrow> u64" where
  "satellite_mask ss = foldl (\<lambda>m s. m OR push_bit (63 - (msm_sat (st_id s) - 1)) 1) 0 ss"

definition signal_mask :: "Signal list \<Rightarrow> u32" where
  "signal_mask ss = foldl (\<lambda>m s. m OR push_bit (31 - (msm_sig (sg_id s) - 1)) 1) 0 ss"

text \<open>The tables of positions, with uninitialised entries, and the number of bits that are set.\<close>

fun lookup_loop :: "bool list \<Rightarrow> nat \<Rightarrow> nat option list \<times> nat" where
  "lookup_loop [] count = ([], count)"
| "lookup_loop (b # bs) count =
     (if b then (let (l, n) = lookup_loop bs (count + 1) in (Some count # l, n))
      else (let (l, n) = lookup_loop bs count in (None # l, n)))"

fun cell_loop :: "nat option list \<Rightarrow> nat option list \<Rightarrow> nat \<Rightarrow> Signal list \<Rightarrow> bool list \<Rightarrow> bool list option" where
  "cell_loop satellite_lookup signal_lookup signal_count [] cells = Some cells"
| "cell_loop satellite_lookup signal_lookup signal_count (s # ss) cells =
     (case (satellite_lookup ! (msm_sat (sg_satellite s) - 1), signal_lookup ! (msm_sig (sg_id s) - 1)) of
        (Some i, Some j) \<Rightarrow>
          let cell_index = i * signal_count + j
          in if cell_index \<ge> 64 then cell_loop satellite_lookup signal_lookup signal_count ss cells
             else cell_loop satellite_lookup signal_lookup signal_count ss (cells[cell_index := True])
      | _ \<Rightarrow> None)"

definition msm_header :: "u32 \<Rightarrow> bool \<Rightarrow> GenericGnssId \<Rightarrow> CommonObservationInfo \<Rightarrow> timestamp \<Rightarrow> encoder" where
  "msm_header msm last_msm gnss common time =
     (let e = enc_u16 12 (msm_message_id msm gnss) Encoder;
          e = enc_u16 12 (ucast (ci_reference_station_id common)) e;
          e = epoch_time time gnss e;
          e = enc_b (\<not> last_msm) e;
          e = enc_u8 3 0 e;
          e = enc_reserve 7 e;
          e = enc_u8 2 (word_of_int (clock_steering common)) e;
          e = enc_u8 2 (word_of_int (external_clock common)) e;
          e = enc_u8 1 (word_of_int (smooth_indicator common)) e
      in enc_u8 3 (word_of_int (smooth_interval common)) e)"

definition generate_msm ::
  "u32 \<Rightarrow> bool \<Rightarrow> GenericGnssId \<Rightarrow> CommonObservationInfo \<Rightarrow> Observations \<Rightarrow> (u16 \<times> u8 list) outcome" where
  "generate_msm msm last_msm gnss common obs =
     (if \<exists>s \<in> set (ob_signals obs). sig_as_msm (sg_id s) = Undefined then Undefined
      else
        let e = msm_header msm last_msm gnss common (ob_time obs);
            satellites = msm_satellites obs;
            signals = msm_signals obs;
            satellite_ids = satellite_mask satellites;
            (satellite_lookup, satellite_count) = lookup_loop (map (\<lambda>i. bit satellite_ids (63 - i)) [0..<64]) 0;
            signal_ids = signal_mask signals;
            (signal_lookup, signal_count) = lookup_loop (map (\<lambda>i. bit signal_ids (31 - i)) [0..<32]) 0;
            e = enc_u64 64 satellite_ids e;
            e = enc_u32 32 signal_ids e;
            cell_count = min 64 (satellite_count * signal_count)
        in case cell_loop satellite_lookup signal_lookup signal_count signals (replicate 64 False) of
             None \<Rightarrow> Undefined
           | Some cell_data \<Rightarrow>
               let e = for_each enc_b (take cell_count cell_data) e;
                   e = generate_msm_satellites msm satellites e;
                   e = generate_msm_signals msm signals e
               in Value (msm_message_id msm gnss, frame_message (enc_mBuffer e)))"

end
