(* ===== verification/Rtcm_Masks.thy ===== *)
theory Rtcm_Masks
  imports Rtcm_Msm
begin

text \<open>
  What an MSM message says: the satellite, signal and cell masks that \<^verbatim>\<open>generate_msm\<close> writes, read as the RTCM
  standard lays them out, name exactly the satellites and signals of the observations, in the order in which
  their data follow.
\<close>

section \<open>What an operation of the encoder appends\<close>

definition puts :: "(encoder \<Rightarrow> encoder) \<Rightarrow> bool list \<Rightarrow> bool" where
  "puts f bs \<longleftrightarrow> (\<forall>e. enc_ok e \<longrightarrow> enc_ok (f e) \<and> enc_bits (f e) = enc_bits e @ bs)"

named_theorems put_laws \<open>what the operations of the encoder append\<close>

lemma putsD: "puts f bs \<Longrightarrow> enc_ok e \<Longrightarrow> enc_ok (f e) \<and> enc_bits (f e) = enc_bits e @ bs"
  by (simp add: puts_def)

lemma puts_basic [put_laws]:
  "puts (enc_u64 n d) (bits_of n (unat d))"
  "puts (enc_u8 n a) (bits_of n (unat a))"
  "puts (enc_u16 n b) (bits_of n (unat b))"
  "puts (enc_u32 n c) (bits_of n (unat c))"
  "puts (enc_b x) [x]"
  "puts (enc_reserve n) (bits_of n 0)"
  by (simp_all add: puts_def enc_small_laws enc_u64_law enc_b_def enc_reserve_def bits_of_Suc bit_0)

lemma puts_for_each [put_laws]:
  assumes "\<And>x. x \<in> set xs \<Longrightarrow> puts (f x) (g x)"
  shows "puts (for_each f xs) (concat (map g xs))"
  using assms
proof (induction xs)
  case Nil
  then show ?case by (simp add: puts_def for_each_def)
next
  case (Cons x xs)
  have "puts (for_each f xs) (concat (map g xs))" by (rule Cons.IH) (simp add: Cons.prems)
  then show ?case using Cons.prems [of x] by (simp add: puts_def for_each_def)
qed

section \<open>Masks\<close>

definition mask_ids :: "bool list \<Rightarrow> nat list" where
  "mask_ids bs = map Suc (filter (\<lambda>i. bs ! i) [0..<length bs])"

definition rank :: "bool list \<Rightarrow> nat \<Rightarrow> nat" where
  "rank bs i = length (filter id (take i bs))"

lemma lookup_loop_spec:
  "lookup_loop bs count = (map (\<lambda>i. if bs ! i then Some (count + rank bs i) else None) [0..<length bs],
     count + length (filter id bs))"
proof (induction bs arbitrary: count)
  case (Cons b bs)
  have "[0..<length (b # bs)] = 0 # map Suc [0..<length bs]"
    by (simp add: upt_conv_Cons map_Suc_upt del: upt_Suc)
  then show ?case by (simp add: Cons.IH rank_def comp_def)
qed simp

lemma mask_ids_Cons: "mask_ids (b # bs) = (if b then [1] else []) @ map Suc (mask_ids bs)"
  by (simp add: mask_ids_def upt_conv_Cons filter_map comp_def del: upt_Suc flip: map_Suc_upt)

lemma mask_ids_rank:
  assumes "i < length bs" and "bs ! i"
  shows "rank bs i < length (mask_ids bs) \<and> mask_ids bs ! rank bs i = Suc i"
  using assms
proof (induction bs arbitrary: i)
  case (Cons b bs)
  show ?case
    using Cons.prems Cons.IH [of "i - 1"] by (cases i) (auto simp: mask_ids_Cons rank_def)
qed simp

lemma length_mask_ids: "length (mask_ids bs) = length (filter id bs)"
proof (induction bs)
  case (Cons b bs)
  show ?case using Cons.IH by (simp add: mask_ids_Cons)
qed (simp add: mask_ids_def)

lemma mask_ids_sorted: "sorted (mask_ids bs)" "distinct (mask_ids bs)"
  by (simp_all add: mask_ids_def sorted_map distinct_map sorted_filter [of id, simplified] sorted_wrt_map)

lemma set_mask_ids: "set (mask_ids bs) = {Suc i | i. i < length bs \<and> bs ! i}"
  by (auto simp: mask_ids_def)

section \<open>The masks of a message\<close>

definition carried :: "Signal \<Rightarrow> bool" where
  "carried s \<longleftrightarrow> sig_carried (sg_id s) \<and> sat_carried (sg_satellite s)"

lemma msm_sat_range: "sat_carried s \<Longrightarrow> 1 \<le> msm_sat s \<and> msm_sat s \<le> 64"
  by (auto simp: sat_carried_def msm_sat_def split: option.splits)

lemma msm_sig_range: "sig_carried s \<Longrightarrow> 1 \<le> msm_sig s \<and> msm_sig s \<le> 32"
  by (auto simp: sig_carried_def msm_sig_def split: outcome.splits)

lemma bit_foldl_or:
  fixes f :: "'a \<Rightarrow> nat" and m :: "'b::len word"
  shows "bit (foldl (\<lambda>m x. m OR push_bit (f x) 1) m xs) k \<longleftrightarrow> bit m k \<or> (k < LENGTH('b) \<and> (\<exists>x \<in> set xs. f x = k))"
proof (induction xs arbitrary: m)
  case (Cons x xs)
  show ?case unfolding foldl.simps Cons.IH by (auto simp: bit_or_iff bit_exp_iff)
qed simp

definition sat_bits :: "Satellite list \<Rightarrow> bool list" where
  "sat_bits ss = map (\<lambda>i. Suc i \<in> (\<lambda>s. msm_sat (st_id s)) ` set ss) [0..<64]"

definition sig_bits :: "Signal list \<Rightarrow> bool list" where
  "sig_bits ss = map (\<lambda>i. Suc i \<in> (\<lambda>s. msm_sig (sg_id s)) ` set ss) [0..<32]"

lemma satellite_mask_bits:
  assumes "\<And>s. s \<in> set ss \<Longrightarrow> sat_carried (st_id s)"
  shows "map (\<lambda>i. bit (satellite_mask ss) (63 - i)) [0..<64] = sat_bits ss"
  unfolding sat_bits_def
proof (rule map_cong [OF refl])
  fix i assume "i \<in> set [0..<64 :: nat]"
  then have i: "i < 64" by simp
  have "63 - (msm_sat (st_id s) - 1) = 63 - i \<longleftrightarrow> Suc i = msm_sat (st_id s)" if "s \<in> set ss" for s
    using msm_sat_range [OF assms [OF that]] i by linarith
  then show "bit (satellite_mask ss) (63 - i) = (Suc i \<in> (\<lambda>s. msm_sat (st_id s)) ` set ss)"
    unfolding satellite_mask_def bit_foldl_or by auto
qed

lemma signal_mask_bits:
  assumes "\<And>s. s \<in> set ss \<Longrightarrow> sig_carried (sg_id s)"
  shows "map (\<lambda>i. bit (signal_mask ss) (31 - i)) [0..<32] = sig_bits ss"
  unfolding sig_bits_def
proof (rule map_cong [OF refl])
  fix i assume "i \<in> set [0..<32 :: nat]"
  then have i: "i < 32" by simp
  have "31 - (msm_sig (sg_id s) - 1) = 31 - i \<longleftrightarrow> Suc i = msm_sig (sg_id s)" if "s \<in> set ss" for s
    using msm_sig_range [OF assms [OF that]] i by linarith
  then show "bit (signal_mask ss) (31 - i) = (Suc i \<in> (\<lambda>s. msm_sig (sg_id s)) ` set ss)"
    unfolding signal_mask_def bit_foldl_or by auto
qed

lemma mask_ids_sat_bits:
  assumes "\<And>s. s \<in> set ss \<Longrightarrow> sat_carried (st_id s)"
  shows "mask_ids (sat_bits ss) = sorted_list_of_set ((\<lambda>s. msm_sat (st_id s)) ` set ss)"
proof -
  have "set (mask_ids (sat_bits ss)) = (\<lambda>s. msm_sat (st_id s)) ` set ss"
    using msm_sat_range [OF assms] by (force simp: set_mask_ids sat_bits_def image_iff dest!: Suc_le_D)
  then show ?thesis
    using mask_ids_sorted [of "sat_bits ss"] by (metis sorted_list_of_set.idem_if_sorted_distinct)
qed

lemma mask_ids_sig_bits:
  assumes "\<And>s. s \<in> set ss \<Longrightarrow> sig_carried (sg_id s)"
  shows "mask_ids (sig_bits ss) = sorted_list_of_set ((\<lambda>s. msm_sig (sg_id s)) ` set ss)"
proof -
  have "set (mask_ids (sig_bits ss)) = (\<lambda>s. msm_sig (sg_id s)) ` set ss"
    using msm_sig_range [OF assms] by (force simp: set_mask_ids sig_bits_def image_iff dest!: Suc_le_D)
  then show ?thesis
    using mask_ids_sorted [of "sig_bits ss"] by (metis sorted_list_of_set.idem_if_sorted_distinct)
qed

lemma word_bits_mask: "bits_of 64 (unat (v :: u64)) = map (\<lambda>i. bit v (63 - i)) [0..<64]"
  "bits_of 32 (unat (w :: u32)) = map (\<lambda>i. bit w (31 - i)) [0..<32]"
  by (simp_all add: bits_of_def bit_unsigned_iff)

section \<open>Cells\<close>

lemma cell_loop_spec:
  assumes "\<And>s. s \<in> set ss \<Longrightarrow> sl ! (msm_sat (sg_satellite s) - 1) = Some (i s) \<and> gl ! (msm_sig (sg_id s) - 1) = Some (j s)"
    and "length cells = 64"
  shows "cell_loop sl gl m ss cells
    = Some (map (\<lambda>k. cells ! k \<or> (\<exists>s \<in> set ss. i s * m + j s = k)) [0..<64])"
  using assms
proof (induction ss arbitrary: cells)
  case Nil
  then show ?case using map_nth [of cells] by simp
next
  case (Cons s ss)
  have ih: "cell_loop sl gl m ss c = Some (map (\<lambda>k. c ! k \<or> (\<exists>s \<in> set ss. i s * m + j s = k)) [0..<64])"
    if "length c = 64" for c
    using Cons.IH [OF _ that] Cons.prems(1) by simp
  have s: "sl ! (msm_sat (sg_satellite s) - 1) = Some (i s)" "gl ! (msm_sig (sg_id s) - 1) = Some (j s)"
    using Cons.prems(1) [of s] by simp_all
  show ?case
    unfolding cell_loop.simps s using Cons.prems(2) ih
    by (auto simp: Let_def nth_list_update intro!: map_cong [OF refl])
qed

lemma sorted_product: "sorted xs \<Longrightarrow> distinct xs \<Longrightarrow> sorted ys \<Longrightarrow> sorted (List.product xs ys)"
  for xs ys :: "nat list"
proof (induction xs)
  case (Cons x xs)
  have "sorted (map (Pair x) ys)"
    using Cons.prems(3) by (induction ys) auto
  moreover have "x < x'" if "x' \<in> set xs" for x'
    using Cons.prems(1,2) that by (auto simp: order_le_less)
  ultimately show ?case using Cons by (auto simp: sorted_append)
qed simp

lemma sorted_same: "sorted xs \<Longrightarrow> distinct xs \<Longrightarrow> sorted ys \<Longrightarrow> distinct ys \<Longrightarrow> set xs = set ys \<Longrightarrow> xs = ys"
  for xs ys :: "'a::linorder list"
  by (metis sorted_distinct_set_unique)

lemma cells_read:
  fixes A B :: "nat list"
  assumes A: "sorted A" "distinct A" and B: "sorted B" "distinct B"
    and ks: "sorted ks" "distinct ks" "set ks \<subseteq> set A \<times> set B"
    and cells: "cells = map (\<lambda>p. p \<in> set ks) (List.product A B)"
  shows "map fst (filter snd (zip (List.product A B) cells)) = ks"
proof -
  have "map fst (filter snd (zip ps (map (\<lambda>p. p \<in> K) ps))) = filter (\<lambda>p. p \<in> K) ps" for ps and K :: "(nat \<times> nat) set"
    by (induction ps) auto
  then have "map fst (filter snd (zip (List.product A B) cells)) = filter (\<lambda>p. p \<in> set ks) (List.product A B)"
    by (simp add: cells)
  also have "\<dots> = ks"
    by (rule sorted_same) (use A B ks in \<open>auto simp: sorted_wrt_filter sorted_product distinct_product\<close>)
  finally show ?thesis .
qed

section \<open>The bits of a message\<close>

text \<open>The bits that an operation writes, wherever it is used.\<close>

definition written :: "(encoder \<Rightarrow> encoder) \<Rightarrow> bool list" where
  "written f = enc_bits (f Encoder)"

lemma puts_written: "puts f bs \<Longrightarrow> written f = bs"
  using enc_ok_Encoder enc_bits_Encoder by (simp add: puts_def written_def)

definition writes :: "(encoder \<Rightarrow> encoder) \<Rightarrow> bool" where
  "writes f \<longleftrightarrow> puts f (written f)"

named_theorems writes_intros \<open>operations that only append\<close>

lemma writesI: "puts f bs \<Longrightarrow> writes f"
  using puts_written [of f bs] by (simp add: writes_def)

lemma writes_basic [writes_intros]:
  "writes (enc_u64 n a)" "writes (enc_u8 n b)" "writes (enc_u16 n c)" "writes (enc_u32 n d)" "writes (enc_b x)"
  "writes (enc_i16 n c)" "writes (enc_i32 n d)"
  using puts_basic by (blast intro: writesI | simp add: enc_i16_def enc_i32_def enc_i64_def)+

lemma writes_if [writes_intros]: "writes f \<Longrightarrow> writes g \<Longrightarrow> writes (if c then f else g)"
  by simp

lemma writes_comp:
  assumes "writes f" and "writes g"
  shows "writes (g \<circ> f) \<and> written (g \<circ> f) = written f @ written g"
proof -
  have "puts (g \<circ> f) (written f @ written g)" using assms by (simp add: writes_def puts_def)
  then show ?thesis using writesI puts_written by blast
qed

lemma writes_each:
  assumes "\<And>x. writes (f x)"
  shows "writes (for_each f xs) \<and> written (for_each f xs) = concat (map (\<lambda>x. written (f x)) xs)"
proof -
  have "puts (for_each f xs) (concat (map (\<lambda>x. written (f x)) xs))"
    by (rule puts_for_each) (use assms in \<open>simp add: writes_def\<close>)
  then show ?thesis using writesI puts_written by blast
qed

lemma writes_fields:
  "writes (df397 s)" "writes (df398 s)" "writes (df399 s)" "writes (df_ext s)"
  "writes (df400 g)" "writes (df401 g)" "writes (df402 g)" "writes (df403 g)" "writes (df404 g)"
  "writes (df405 g)" "writes (df406 g)" "writes (df407 g)" "writes (df408 g)" "writes (df420 g)"
  unfolding df397_def df398_def df399_def df_ext_def df419_def df400_def df401_def df402_def df403_def
    df404_def df405_def df406_def df407_def df408_def df420_def Let_def
  by (intro writes_intros)+

lemmas each_field = writes_fields [THEN writes_each]

lemma satellite_parts:
  "generate_msm4_satellites ss = for_each df398 ss \<circ> for_each df397 ss"
  "generate_msm5_satellites ss = for_each df399 ss \<circ> (for_each df398 ss \<circ> (for_each df_ext ss \<circ> for_each df397 ss))"
  "generate_msm6_satellites ss = for_each df398 ss \<circ> for_each df397 ss"
  "generate_msm7_satellites ss = for_each df399 ss \<circ> (for_each df398 ss \<circ> (for_each df_ext ss \<circ> for_each df397 ss))"
  by (simp_all add: fun_eq_iff generate_msm4_satellites_def generate_msm5_satellites_def
      generate_msm6_satellites_def generate_msm7_satellites_def)

lemma signal_parts:
  "generate_msm4_signals gs = for_each df403 gs \<circ> (for_each df420 gs \<circ> (for_each df402 gs \<circ>
     (for_each df401 gs \<circ> for_each df400 gs)))"
  "generate_msm5_signals gs = for_each df404 gs \<circ> (for_each df403 gs \<circ> (for_each df420 gs \<circ> (for_each df402 gs \<circ>
     (for_each df401 gs \<circ> for_each df400 gs))))"
  "generate_msm6_signals gs = for_each df408 gs \<circ> (for_each df420 gs \<circ> (for_each df407 gs \<circ>
     (for_each df406 gs \<circ> for_each df405 gs)))"
  "generate_msm7_signals gs = for_each df404 gs \<circ> (for_each df408 gs \<circ> (for_each df420 gs \<circ> (for_each df407 gs \<circ>
     (for_each df406 gs \<circ> for_each df405 gs))))"
  by (simp_all add: fun_eq_iff generate_msm4_signals_def generate_msm5_signals_def
      generate_msm6_signals_def generate_msm7_signals_def)

lemma writes_data: "writes (generate_msm_satellites msm ss)" "writes (generate_msm_signals msm gs)"
proof -
  have "generate_msm_satellites msm ss = (if msm = 4 then generate_msm4_satellites ss
      else if msm = 5 then generate_msm5_satellites ss else if msm = 6 then generate_msm6_satellites ss
      else if msm = 7 then generate_msm7_satellites ss else id)"
    by (simp add: fun_eq_iff generate_msm_satellites_def)
  moreover have "generate_msm_signals msm gs = (if msm = 4 then generate_msm4_signals gs
      else if msm = 5 then generate_msm5_signals gs else if msm = 6 then generate_msm6_signals gs
      else if msm = 7 then generate_msm7_signals gs else id)"
    by (simp add: fun_eq_iff generate_msm_signals_def)
  moreover have "writes id" by (simp add: writes_def puts_def written_def)
  ultimately show "writes (generate_msm_satellites msm ss)" "writes (generate_msm_signals msm gs)"
    by (simp_all add: satellite_parts signal_parts writes_comp each_field)
qed

text \<open>The part before the masks has 73 bits for every constellation.\<close>

lemma epoch_bits: "enc_ok e \<Longrightarrow> enc_ok (epoch_time t g e) \<and> length (enc_bits (epoch_time t g e)) = length (enc_bits e) + 30"
  by (cases g) (simp_all add: epoch_time_def Let_def enc_small_laws)

lemma header_bits: "enc_ok (msm_header msm l g c t) \<and> length (enc_bits (msm_header msm l g c t)) = 73"
proof -
  let ?e = "epoch_time t g (enc_u16 12 (ucast (ci_reference_station_id c)) (enc_u16 12 (msm_message_id msm g) Encoder))"
  have e: "enc_ok ?e" "length (enc_bits ?e) = 54"
    using epoch_bits by (simp_all add: enc_small_laws)
  then show ?thesis
    by (simp add: msm_header_def enc_small_laws enc_b_def enc_reserve_def enc_u64_law)
qed

section \<open>Observations that fit a message\<close>

definition sat_ids :: "Observations \<Rightarrow> nat set" where
  "sat_ids obs = (\<lambda>s. msm_sat (st_id s)) ` {s \<in> set (ob_satellites obs). sat_carried (st_id s)}"

definition cell_ids :: "Observations \<Rightarrow> (nat \<times> nat) set" where
  "cell_ids obs = signal_key ` {s \<in> set (ob_signals obs). carried s}"

text \<open>
  Every signal's satellite is among the satellites, and no signal is one that RTCM numbers do not exist for;
  no satellite and no signal of a satellite occurs twice; the satellites and signals span at most 64 cells.
\<close>

definition msm_known :: "Observations \<Rightarrow> bool" where
  "msm_known obs \<longleftrightarrow> fst ` cell_ids obs \<subseteq> sat_ids obs \<and>
     (\<forall>s \<in> set (ob_signals obs). sig_as_msm (sg_id s) \<noteq> Undefined)"

definition msm_distinct :: "Observations \<Rightarrow> bool" where
  "msm_distinct obs \<longleftrightarrow>
     distinct (map (\<lambda>s. msm_sat (st_id s)) (filter (\<lambda>s. sat_carried (st_id s)) (ob_satellites obs))) \<and>
     distinct (map signal_key (filter carried (ob_signals obs)))"

definition msm_fits :: "Observations \<Rightarrow> bool" where
  "msm_fits obs \<longleftrightarrow> card (sat_ids obs) * card (snd ` cell_ids obs) \<le> 64"

lemma carried_filter:
  "filter (\<lambda>s. sig_carried (sg_id s) \<and> sat_carried (sg_satellite s)) xs = filter carried xs"
  by (rule filter_cong) (simp_all add: carried_def)

lemma sort_key_list_of_set:
  assumes "distinct (map f xs)"
  shows "map f (sort_key f xs) = sorted_list_of_set (f ` set xs)"
proof (rule sorted_same)
  show "distinct (map f (sort_key f xs))"
    using assms by (metis distinct_map distinct_sort set_sort)
qed (use assms in \<open>auto simp: distinct_map\<close>)

lemma satellites_sorted:
  assumes "msm_distinct obs"
  shows "map (\<lambda>s. msm_sat (st_id s)) (msm_satellites obs) = sorted_list_of_set (sat_ids obs)"
  using assms sort_key_list_of_set [of "\<lambda>s. msm_sat (st_id s)" "filter (\<lambda>s. sat_carried (st_id s)) (ob_satellites obs)"]
  by (simp add: msm_distinct_def msm_satellites_def sat_ids_def)

lemma signals_sorted:
  assumes "msm_distinct obs"
  shows "map signal_key (msm_signals obs) = sorted_list_of_set (cell_ids obs)"
  using assms sort_key_list_of_set [of signal_key "filter carried (ob_signals obs)"]
  by (simp add: msm_distinct_def msm_signals_def carried_filter cell_ids_def)

lemma finite_ids [simp]: "finite (sat_ids obs)" "finite (cell_ids obs)"
  by (simp_all add: sat_ids_def cell_ids_def)

lemma set_msm_signals: "set (msm_signals obs) = {s \<in> set (ob_signals obs). carried s}"
  and set_msm_satellites: "set (msm_satellites obs) = {s \<in> set (ob_satellites obs). sat_carried (st_id s)}"
  by (auto simp: msm_signals_def msm_satellites_def carried_def)

section \<open>The cells of a message\<close>

lemma mask_entry:
  assumes "1 \<le> n" and "n \<le> length bs" and "bs = map (\<lambda>i. Suc i \<in> S) [0..<length bs]" and "n \<in> S"
  shows "fst (lookup_loop bs 0) ! (n - 1) = Some (rank bs (n - 1)) \<and> rank bs (n - 1) < length (mask_ids bs) \<and>
    mask_ids bs ! rank bs (n - 1) = n"
proof -
  have n: "n - 1 < length bs" using assms by linarith
  then have b: "bs ! (n - 1)" using assms(1,4) by (subst assms(3)) simp
  show ?thesis using mask_ids_rank [OF n b] n b assms(1) by (simp add: lookup_loop_spec)
qed

lemma index_split: "j < m \<Longrightarrow> i * m + j = k \<longleftrightarrow> i = k div m \<and> j = k mod m" for i j k m :: nat
proof
  assume "j < m" "i * m + j = k"
  moreover from this have "0 < m" by simp
  ultimately show "i = k div m \<and> j = k mod m" by auto
qed auto

lemma msm_cells:
  fixes obs
  defines "A \<equiv> sat_bits (msm_satellites obs)" and "B \<equiv> sig_bits (msm_signals obs)"
  assumes ok: "msm_known obs"
  shows "\<exists>cells. cell_loop (fst (lookup_loop A 0)) (fst (lookup_loop B 0)) (length (mask_ids B)) (msm_signals obs)
      (replicate 64 False) = Some cells \<and> length cells = 64 \<and>
    (msm_fits obs \<longrightarrow> take (min 64 (length (mask_ids A) * length (mask_ids B))) cells =
      map (\<lambda>p. p \<in> cell_ids obs) (List.product (mask_ids A) (mask_ids B)))"
proof -
  let ?ss = "msm_signals obs" and ?m = "length (mask_ids B)" and ?n = "length (mask_ids A)"
  have carr: "sig_carried (sg_id s)" "sat_carried (sg_satellite s)" if "s \<in> set ?ss" for s
    using that by (simp_all add: set_msm_signals carried_def)
  have A: "A = map (\<lambda>i. Suc i \<in> sat_ids obs) [0..<length A]"
    by (simp add: A_def sat_bits_def sat_ids_def set_msm_satellites)
  have B: "B = map (\<lambda>i. Suc i \<in> (\<lambda>s. msm_sig (sg_id s)) ` set ?ss) [0..<length B]"
    by (simp add: B_def sig_bits_def)
  have len: "length A = 64" "length B = 32" by (simp_all add: A_def B_def sat_bits_def sig_bits_def)
  let ?i = "\<lambda>s. rank A (msm_sat (sg_satellite s) - 1)" and ?j = "\<lambda>s. rank B (msm_sig (sg_id s) - 1)"
  have sat: "fst (lookup_loop A 0) ! (msm_sat (sg_satellite s) - 1) = Some (?i s) \<and> ?i s < ?n \<and>
      mask_ids A ! ?i s = msm_sat (sg_satellite s)" if "s \<in> set ?ss" for s
  proof (rule mask_entry [OF _ _ A])
    show "1 \<le> msm_sat (sg_satellite s)" "msm_sat (sg_satellite s) \<le> length A"
      using msm_sat_range [OF carr(2) [OF that]] len by simp_all
    have "signal_key s \<in> cell_ids obs" using that by (simp add: cell_ids_def set_msm_signals)
    then have "fst (signal_key s) \<in> sat_ids obs" using ok by (auto simp: msm_known_def)
    then show "msm_sat (sg_satellite s) \<in> sat_ids obs" by (simp add: signal_key_def)
  qed
  have sig: "fst (lookup_loop B 0) ! (msm_sig (sg_id s) - 1) = Some (?j s) \<and> ?j s < ?m \<and>
      mask_ids B ! ?j s = msm_sig (sg_id s)" if "s \<in> set ?ss" for s
    by (rule mask_entry [OF _ _ B]) (use msm_sig_range [OF carr(1) [OF that]] len that in auto)
  have loop: "cell_loop (fst (lookup_loop A 0)) (fst (lookup_loop B 0)) ?m ?ss (replicate 64 False)
      = Some (map (\<lambda>k. \<exists>s \<in> set ?ss. ?i s * ?m + ?j s = k) [0..<64])"
    using cell_loop_spec [of ?ss _ ?i _ ?j "replicate 64 False" ?m] sat sig by simp
  have cell: "(\<exists>s \<in> set ?ss. ?i s * ?m + ?j s = k) \<longleftrightarrow> List.product (mask_ids A) (mask_ids B) ! k \<in> cell_ids obs"
    if k: "k < ?n * ?m" for k
  proof -
    have m: "0 < ?m" using k by (cases ?m) auto
    have div: "k div ?m < ?n" "k mod ?m < ?m" using k m by (simp_all add: less_mult_imp_div_less)
    have p: "List.product (mask_ids A) (mask_ids B) ! k = (mask_ids A ! (k div ?m), mask_ids B ! (k mod ?m))"
      using k by (rule product_nth)
    have "?i s * ?m + ?j s = k \<longleftrightarrow> signal_key s = List.product (mask_ids A) (mask_ids B) ! k" if s: "s \<in> set ?ss" for s
    proof -
      have "?i s * ?m + ?j s = k \<longleftrightarrow> ?i s = k div ?m \<and> ?j s = k mod ?m"
        by (rule index_split) (use sig [OF s] in simp)
      also have "\<dots> \<longleftrightarrow> mask_ids A ! ?i s = mask_ids A ! (k div ?m) \<and> mask_ids B ! ?j s = mask_ids B ! (k mod ?m)"
        using nth_eq_iff_index_eq [OF mask_ids_sorted(2) [of A], of "?i s" "k div ?m"]
          nth_eq_iff_index_eq [OF mask_ids_sorted(2) [of B], of "?j s" "k mod ?m"] sat [OF s] sig [OF s] div
        by blast
      finally show ?thesis using sat [OF s] sig [OF s] by (simp add: p signal_key_def)
    qed
    then have "(\<exists>s \<in> set ?ss. ?i s * ?m + ?j s = k) \<longleftrightarrow>
        (\<exists>s \<in> set ?ss. signal_key s = List.product (mask_ids A) (mask_ids B) ! k)" by blast
    moreover have "cell_ids obs = signal_key ` set ?ss" by (simp add: cell_ids_def set_msm_signals)
    ultimately show ?thesis by (metis (no_types, lifting) image_iff)
  qed
  have small: "?n * ?m \<le> 64" if "msm_fits obs"
  proof -
    have "mask_ids A = sorted_list_of_set (sat_ids obs)"
      unfolding A_def by (subst mask_ids_sat_bits) (auto simp: set_msm_satellites sat_ids_def)
    moreover have "mask_ids B = sorted_list_of_set (snd ` cell_ids obs)"
      unfolding B_def by (subst mask_ids_sig_bits)
        (auto simp: set_msm_signals carried_def cell_ids_def signal_key_def image_image)
    ultimately show ?thesis using that by (simp add: msm_fits_def)
  qed
  have "take (min 64 (?n * ?m)) (map (\<lambda>k. \<exists>s \<in> set ?ss. ?i s * ?m + ?j s = k) [0..<64]) =
      map (\<lambda>p. p \<in> cell_ids obs) (List.product (mask_ids A) (mask_ids B))" if "msm_fits obs"
    using small [OF that] cell by (intro nth_equalityI) (auto simp: min_def)
  then show ?thesis using loop by auto
qed

section \<open>Reading a message\<close>

text \<open>
  The masks as the standard has them: 64 bits for the satellites, 32 for the signals, and a bit for each pair,
  satellite by satellite.  The result is the numbers of the satellites and the pairs that are present.
\<close>

definition msm_read :: "bool list \<Rightarrow> nat list \<times> (nat \<times> nat) list" where
  "msm_read bits =
     (let sats = mask_ids (take 64 (drop 73 bits));
          sigs = mask_ids (take 32 (drop 137 bits));
          cells = take (length sats * length sigs) (drop 169 bits)
      in (sats, map fst (filter snd (zip (List.product sats sigs) cells))))"

definition msm_data :: "bool list \<Rightarrow> bool list" where
  "msm_data bits = drop (169 + length (mask_ids (take 64 (drop 73 bits))) * length (mask_ids (take 32 (drop 137 bits)))) bits"

lemma puts_cells: "puts (for_each enc_b xs) xs"
  using puts_for_each [of xs enc_b "\<lambda>x. [x]"] by (simp add: put_laws)

lemma masks_of:
  shows "mask_ids (sat_bits (msm_satellites obs)) = sorted_list_of_set (sat_ids obs)"
    and "mask_ids (sig_bits (msm_signals obs)) = sorted_list_of_set (snd ` cell_ids obs)"
  by (subst mask_ids_sat_bits; auto simp: set_msm_satellites sat_ids_def)
    (subst mask_ids_sig_bits; auto simp: set_msm_signals carried_def cell_ids_def signal_key_def image_image)

lemma generate_msm_bits:
  assumes ok: "msm_known obs"
  obtains e cells where
    "generate_msm msm l g c obs = Value (msm_message_id msm g, frame_message (enc_mBuffer e))"
    "enc_ok e"
    "enc_bits e = enc_bits (msm_header msm l g c (ob_time obs)) @
       sat_bits (msm_satellites obs) @ sig_bits (msm_signals obs) @
       cells @
       written (generate_msm_satellites msm (msm_satellites obs)) @
       written (generate_msm_signals msm (msm_signals obs))"
    "length cells = min 64 (length (mask_ids (sat_bits (msm_satellites obs))) * length (mask_ids (sig_bits (msm_signals obs))))"
    "msm_fits obs \<Longrightarrow> cells = map (\<lambda>p. p \<in> cell_ids obs)
       (List.product (mask_ids (sat_bits (msm_satellites obs))) (mask_ids (sig_bits (msm_signals obs))))"
proof -
  let ?A = "sat_bits (msm_satellites obs)" and ?B = "sig_bits (msm_signals obs)"
  let ?p = "List.product (mask_ids ?A) (mask_ids ?B)"
  have A: "map (\<lambda>i. bit (satellite_mask (msm_satellites obs)) (63 - i)) [0..<64] = ?A"
    by (rule satellite_mask_bits) (simp add: set_msm_satellites)
  have B: "map (\<lambda>i. bit (signal_mask (msm_signals obs)) (31 - i)) [0..<32] = ?B"
    by (rule signal_mask_bits) (simp add: set_msm_signals carried_def)
  obtain cells where cells: "cell_loop (fst (lookup_loop ?A 0)) (fst (lookup_loop ?B 0)) (length (mask_ids ?B))
      (msm_signals obs) (replicate 64 False) = Some cells" "length cells = 64"
    "msm_fits obs \<Longrightarrow> take (min 64 (length (mask_ids ?A) * length (mask_ids ?B))) cells = map (\<lambda>p. p \<in> cell_ids obs) ?p"
    using msm_cells [OF ok] by blast
  define cs where "cs = take (min 64 (length (mask_ids ?A) * length (mask_ids ?B))) cells"
  have count: "snd (lookup_loop ?A 0) = length (mask_ids ?A)" "snd (lookup_loop ?B 0) = length (mask_ids ?B)"
    by (simp_all add: lookup_loop_spec length_mask_ids)
  define e0 where "e0 = enc_u32 32 (signal_mask (msm_signals obs)) (enc_u64 64 (satellite_mask (msm_satellites obs))
    (msm_header msm l g c (ob_time obs)))"
  define e where "e = generate_msm_signals msm (msm_signals obs) (generate_msm_satellites msm (msm_satellites obs)
    (for_each enc_b cs e0))"
  have e0: "enc_ok e0" "enc_bits e0 = enc_bits (msm_header msm l g c (ob_time obs)) @ ?A @ ?B"
    using header_bits [of msm l g c "ob_time obs"] enc_u64_law enc_small_laws(3)
    by (simp_all add: e0_def word_bits_mask A B)
  have e: "enc_ok e" "enc_bits e = enc_bits e0 @ cs @
       written (generate_msm_satellites msm (msm_satellites obs)) @ written (generate_msm_signals msm (msm_signals obs))"
    using e0(1) writes_data(1) [of msm "msm_satellites obs"] writes_data(2) [of msm "msm_signals obs"] puts_cells
    by (simp_all add: e_def writes_def puts_def)
  have "\<not> (\<exists>s \<in> set (ob_signals obs). sig_as_msm (sg_id s) = Undefined)" using ok by (simp add: msm_known_def)
  then have "generate_msm msm l g c obs = Value (msm_message_id msm g, frame_message (enc_mBuffer e))"
    using cells count by (simp add: generate_msm_def Let_def A B e_def e0_def cs_def split_beta)
  then show ?thesis using that [of e cs] e e0 cells by (simp add: cs_def)
qed

lemma message_bits_read:
  assumes bits: "bits = h @ sat_bits ss @ sig_bits gs @ cells @ data" and "length h = 73"
    and "length cells = min 64 (length (mask_ids (sat_bits ss)) * length (mask_ids (sig_bits gs)))"
    and "length (mask_ids (sat_bits ss)) * length (mask_ids (sig_bits gs)) \<le> 64"
  shows "msm_read bits = (mask_ids (sat_bits ss),
      map fst (filter snd (zip (List.product (mask_ids (sat_bits ss)) (mask_ids (sig_bits gs))) cells))) \<and>
    msm_data bits = data"
proof -
  have len: "length (sat_bits ss) = 64" "length (sig_bits gs) = 32" by (simp_all add: sat_bits_def sig_bits_def)
  have a: "take 64 (drop 73 bits) = sat_bits ss" and b: "take 32 (drop 137 bits) = sig_bits gs"
    using assms(2) len by (simp_all add: bits)
  have c: "length cells = length (mask_ids (sat_bits ss)) * length (mask_ids (sig_bits gs))"
    using assms(3,4) by simp
  then have "take (length (mask_ids (sat_bits ss)) * length (mask_ids (sig_bits gs))) (drop 169 bits) = cells"
    using assms(2) len by (simp add: bits)
  moreover have "drop (169 + length (mask_ids (sat_bits ss)) * length (mask_ids (sig_bits gs))) bits = data"
    using assms(2) len c by (simp add: bits)
  ultimately show ?thesis by (simp add: msm_read_def msm_data_def a b Let_def)
qed

text \<open>C6: an MSM message says which signals it carries.  For observations without duplicates whose satellites
  and signals span at most 64 cells, \<^verbatim>\<open>generate_msm\<close> returns a frame; the masks in its payload, read as the
  standard has them, give the satellites of the observations and the pairs of satellite and signal,
  each in the order in which the satellite and signal data follow behind the masks.\<close>

theorem msm_masks_read:
  assumes "msm_known obs" and "msm_distinct obs" and "msm_fits obs"
  shows "\<exists>payload pad. generate_msm msm l g c obs = Value (msm_message_id msm g, frame_message payload) \<and>
    msm_read (concat (map byte_bits payload)) =
      (map (\<lambda>s. msm_sat (st_id s)) (msm_satellites obs), map signal_key (msm_signals obs)) \<and>
    msm_data (concat (map byte_bits payload)) =
      written (generate_msm_satellites msm (msm_satellites obs)) @
      written (generate_msm_signals msm (msm_signals obs)) @ pad \<and>
    set (msm_satellites obs) = {s \<in> set (ob_satellites obs). sat_carried (st_id s)} \<and>
    set (msm_signals obs) = {s \<in> set (ob_signals obs). carried s}"
proof -
  let ?A = "sat_bits (msm_satellites obs)" and ?B = "sig_bits (msm_signals obs)"
  obtain e cells where e: "generate_msm msm l g c obs = Value (msm_message_id msm g, frame_message (enc_mBuffer e))"
      "enc_ok e" "enc_bits e = enc_bits (msm_header msm l g c (ob_time obs)) @ ?A @ ?B @ cells @
        written (generate_msm_satellites msm (msm_satellites obs)) @ written (generate_msm_signals msm (msm_signals obs))"
      "length cells = min 64 (length (mask_ids ?A) * length (mask_ids ?B))"
      "cells = map (\<lambda>p. p \<in> cell_ids obs) (List.product (mask_ids ?A) (mask_ids ?B))"
    using generate_msm_bits [OF assms(1)] assms(3) by metis
  obtain pad where pad: "concat (map byte_bits (enc_mBuffer e)) = enc_bits e @ pad" using enc_bits_prefix by blast
  have keys: "set (map signal_key (msm_signals obs)) = cell_ids obs" by (simp add: cell_ids_def set_msm_signals)
  have fits: "length (mask_ids ?A) * length (mask_ids ?B) \<le> 64"
    using assms(3) by (simp add: masks_of msm_fits_def)
  have sub: "cell_ids obs \<subseteq> set (mask_ids ?A) \<times> set (mask_ids ?B)"
  proof
    fix p assume p: "p \<in> cell_ids obs"
    then have "fst p \<in> sat_ids obs" using assms(1) by (auto simp: msm_known_def)
    then show "p \<in> set (mask_ids ?A) \<times> set (mask_ids ?B)" using p by (cases p) (force simp: masks_of)
  qed
  have read: "map fst (filter snd (zip (List.product (mask_ids ?A) (mask_ids ?B)) cells)) = map signal_key (msm_signals obs)"
    by (rule cells_read)
      (use e(5) sub in \<open>auto simp: mask_ids_sorted keys [unfolded set_map] signals_sorted [OF assms(2)]\<close>)
  show ?thesis
    using message_bits_read [OF _ _ e(4) fits, of _ "enc_bits (msm_header msm l g c (ob_time obs))"]
      header_bits [of msm l g c "ob_time obs"] e(1,3) pad read satellites_sorted [OF assms(2)]
    by (intro exI [of _ "enc_mBuffer e"] exI [of _ pad])
      (simp add: masks_of(1) set_msm_satellites set_msm_signals)
qed

section \<open>The size of a message\<close>

lemma written_basic [simp]:
  "written (enc_u64 n a) = bits_of n (unat a)" "written (enc_u8 n b) = bits_of n (unat b)"
  "written (enc_u16 n c) = bits_of n (unat c)" "written (enc_u32 n d) = bits_of n (unat d)"
  "written (enc_b x) = [x]"
  by (rule puts_written, rule put_laws)+

lemma length_written_signed [simp]: "length (written (enc_i16 n c)) = n" "length (written (enc_i32 n d)) = n"
  by (simp_all add: enc_i16_def enc_i32_def enc_i64_def)

lemma length_fields:
  "length (written (df397 s)) = 8" "length (written (df398 s)) = 10" "length (written (df399 s)) = 14"
  "length (written (df_ext s)) = 4" "length (written (df400 g)) = 15" "length (written (df401 g)) = 22"
  "length (written (df402 g)) = 4" "length (written (df403 g)) = 6" "length (written (df404 g)) = 15"
  "length (written (df405 g)) = 20" "length (written (df406 g)) = 24" "length (written (df407 g)) = 10"
  "length (written (df408 g)) = 10" "length (written (df420 g)) = 1"
  by (simp_all add: df397_def df398_def df399_def df_ext_def df419_def df400_def df401_def df402_def df403_def
      df404_def df405_def df406_def df407_def df408_def df420_def Let_def)

lemma length_each: "(\<And>x. length (f x) = n) \<Longrightarrow> length (concat (map f xs)) = n * length xs"
  by (induction xs) auto

lemma length_data:
  "length (written (generate_msm_satellites msm ss)) \<le> 36 * length ss"
  "length (written (generate_msm_signals msm gs)) \<le> 80 * length gs"
proof -
  have "generate_msm_satellites msm ss = (if msm = 4 then generate_msm4_satellites ss
      else if msm = 5 then generate_msm5_satellites ss else if msm = 6 then generate_msm6_satellites ss
      else if msm = 7 then generate_msm7_satellites ss else id)"
    by (simp add: fun_eq_iff generate_msm_satellites_def)
  moreover have "generate_msm_signals msm gs = (if msm = 4 then generate_msm4_signals gs
      else if msm = 5 then generate_msm5_signals gs else if msm = 6 then generate_msm6_signals gs
      else if msm = 7 then generate_msm7_signals gs else id)"
    by (simp add: fun_eq_iff generate_msm_signals_def)
  moreover have "written id = []" by (simp add: written_def)
  ultimately show "length (written (generate_msm_satellites msm ss)) \<le> 36 * length ss"
      "length (written (generate_msm_signals msm gs)) \<le> 80 * length gs"
    by (simp_all add: satellite_parts signal_parts writes_comp each_field length_each [OF length_fields(1)]
        length_each [OF length_fields(2)] length_each [OF length_fields(3)] length_each [OF length_fields(4)]
        length_each [OF length_fields(5)] length_each [OF length_fields(6)] length_each [OF length_fields(7)]
        length_each [OF length_fields(8)] length_each [OF length_fields(9)] length_each [OF length_fields(10)]
        length_each [OF length_fields(11)] length_each [OF length_fields(12)] length_each [OF length_fields(13)]
        length_each [OF length_fields(14)])
qed

lemma buffer_size: "enc_ok e \<Longrightarrow> 8 * length (enc_mBuffer e) < length (enc_bits e) + 8"
  by (auto simp: enc_ok_def enc_bits_def Let_def)

lemma msm_id_range:
  assumes "msm \<in> {4, 5, 6, 7}"
  shows "1074 \<le> unat (msm_message_id msm g) \<and> unat (msm_message_id msm g) \<le> 1127"
  using assms by (cases g) (auto simp: msm_message_id_def)

lemma header_id: "\<exists>r. enc_bits (msm_header msm l g c t) = bits_of 12 (unat (msm_message_id msm g)) @ r \<and> length r = 61"
proof -
  let ?e = "enc_u16 12 (ucast (ci_reference_station_id c)) (enc_u16 12 (msm_message_id msm g) Encoder)"
  have "\<exists>r. enc_bits (epoch_time t g e) = enc_bits e @ r" if "enc_ok e" for e
    using that by (cases g) (auto simp: epoch_time_def Let_def enc_small_laws)
  then obtain r where "enc_bits (epoch_time t g ?e) = enc_bits ?e @ r" by (meson enc_ok_Encoder enc_small_laws(2))
  moreover have "enc_ok (epoch_time t g ?e)" using epoch_bits by (simp add: enc_small_laws)
  ultimately obtain r where r: "enc_bits (msm_header msm l g c t) = bits_of 12 (unat (msm_message_id msm g)) @ r"
    by (simp add: msm_header_def enc_small_laws enc_b_def enc_reserve_def enc_u64_law)
  then show ?thesis using arg_cong [OF r, of length] header_bits [of msm l g c t] by simp
qed

lemma cell_counts:
  assumes "msm_known obs" and "msm_distinct obs" and "msm_fits obs"
  shows "length (msm_satellites obs) \<le> 64" and "length (msm_signals obs) \<le> 64"
proof -
  have "length (msm_satellites obs) = card (sat_ids obs)"
    using arg_cong [OF satellites_sorted [OF assms(2)], of length] by simp
  moreover have "sat_ids obs \<subseteq> {1..64}" using msm_sat_range by (auto simp: sat_ids_def)
  then have "card (sat_ids obs) \<le> card {1..64 :: nat}" by (intro card_mono) auto
  ultimately show "length (msm_satellites obs) \<le> 64" by simp
  have "length (msm_signals obs) = card (cell_ids obs)"
    using arg_cong [OF signals_sorted [OF assms(2)], of length] by simp
  also have "\<dots> \<le> card (sat_ids obs \<times> snd ` cell_ids obs)"
    using assms(1) by (intro card_mono) (auto simp: msm_known_def image_iff, force)
  also have "\<dots> \<le> 64" using assms(3) by (simp add: msm_fits_def card_cartesian_product)
  finally show "length (msm_signals obs) \<le> 64" .
qed

lemma msm_framed:
  assumes "msm_known obs" and "msm_distinct obs" and "msm_fits obs" and "msm \<in> {4, 5, 6, 7}"
    and "generate_msm msm l g c obs = Value (n, f)"
  shows "well_framed f \<and> length f \<le> 1029 \<and> rtcm_dispatch f = UnsupportedMessage (unat (msm_message_id msm g)) f"
proof -
  obtain e cells where e: "generate_msm msm l g c obs = Value (msm_message_id msm g, frame_message (enc_mBuffer e))"
      "enc_ok e" "enc_bits e = enc_bits (msm_header msm l g c (ob_time obs)) @
        sat_bits (msm_satellites obs) @ sig_bits (msm_signals obs) @ cells @
        written (generate_msm_satellites msm (msm_satellites obs)) @ written (generate_msm_signals msm (msm_signals obs))"
      "length cells \<le> 64"
    using generate_msm_bits [OF assms(1)] by (metis min.cobounded1)
  have f: "f = frame_message (enc_mBuffer e)" using e(1) assms(5) by simp
  have "length (enc_bits e) \<le> 233 + 36 * 64 + 80 * 64"
    using length_data(1) [of msm "msm_satellites obs"] length_data(2) [of msm "msm_signals obs"]
      cell_counts [OF assms(1-3)] header_bits [of msm l g c "ob_time obs"] e(4)
    by (simp add: e(3) sat_bits_def sig_bits_def)
  then have len: "length (enc_mBuffer e) \<le> 1023" using buffer_size [OF e(2)] by linarith
  then have framed: "well_framed f \<and> length f \<le> 1029"
    unfolding f using frame_message_well_framed [OF len] by (simp add: frame_message_eq)
  obtain r where r: "enc_bits (msm_header msm l g c (ob_time obs)) = bits_of 12 (unat (msm_message_id msm g)) @ r"
      "length r = 61" using header_id by blast
  obtain b0 b1 bs where b: "enc_mBuffer e = b0 # b1 # bs" "message_type b0 b1 = unat (msm_message_id msm g)"
    using message_type_head [of e "unat (msm_message_id msm g)"] r msm_id_range [OF assms(4), of g] by (auto simp: e(3))
  have "message_type b0 b1 \<notin> {1019, 1042, 1046}" using b(2) msm_id_range [OF assms(4), of g] by auto
  then have "rtcm_dispatch f = UnsupportedMessage (unat (msm_message_id msm g)) f"
    using rtcm_dispatch_frame [OF b(1)] b(2) by (simp add: f)
  then show ?thesis using framed by simp
qed

text \<open>C8: the frames of the generator are accepted by the repository's own RTCM parser.  For observations that
  fit a message, the frame of an MSM 4 to 7 message at the head of the unread bytes is delivered with
  its message number, and exactly its bytes are consumed.\<close>

theorem msm_frame_accepted:
  assumes "msm_known obs" and "msm_distinct obs" and "msm_fits obs" and "msm \<in> {4, 5, 6, 7}"
    and "generate_msm msm l g c obs = Value (n, f)" and "ring_ok p" and "contents p = f @ rest"
  shows "\<exists>p'. rtcm_try_parse p = Some (Value (UnsupportedMessage (unat (msm_message_id msm g)) f), p') \<and>
    ring_ok p' \<and> contents p' = rest"
  using msm_framed [OF assms(1-5)] rtcm_delivered [OF assms(6,7)] by auto


section \<open>Witnesses\<close>

text \<open>GPS satellites with the signals L1 C/A, L1 P and L1 Z.\<close>

definition sample_satellite :: "nat \<Rightarrow> Satellite" where
  "sample_satellite n = \<lparr>st_id = SatelliteId GPS (int n), integer_ms = Some 70, rough_range = Some (1 / 4),
     rough_phase_range_rate = None, frequency_channel = None\<rparr>"

definition sample_signal :: "nat \<Rightarrow> int \<Rightarrow> Signal" where
  "sample_signal n k = \<lparr>sg_id = SignalId GPS k, sg_satellite = SatelliteId GPS (int n),
     fine_phase_range = Some 0, fine_pseudo_range = Some 0, fine_phase_range_rate = None,
     carrier_to_noise_ratio = Some 45, lock_time = Some 1, half_cycle_ambiguity = False,
     require_phase_alignment = False\<rparr>"

definition sample_obs :: "nat list \<Rightarrow> int list \<Rightarrow> Observations" where
  "sample_obs ns ks = \<lparr>ob_time = Timestamp 0 0,
     ob_signals = concat (map (\<lambda>n. map (sample_signal n) ks) ns), ob_satellites = map sample_satellite ns\<rparr>"

definition sample_common :: CommonObservationInfo where
  "sample_common = \<lparr>ci_reference_station_id = 7, clock_steering = 0, external_clock = 0,
     smooth_indicator = 0, smooth_interval = 0\<rparr>"

lemma sample_msm_sig: "sig_as_msm (SignalId GPS 0) = Value 2" "sig_as_msm (SignalId GPS 4) = Value 3"
  "sig_as_msm (SignalId GPS 5) = Value 4"
  by code_simp+

lemma sample_signal_key:
  "n < 64 \<Longrightarrow> k \<in> {0, 4, 5} \<Longrightarrow> carried (sample_signal n k) \<and> sig_as_msm (sg_id (sample_signal n k)) \<noteq> Undefined \<and>
    signal_key (sample_signal n k) = (Suc n, if k = 0 then 2 else if k = 4 then 3 else 4)"
  by (auto simp: carried_def sig_carried_def sat_carried_def sample_signal_def sample_msm_sig sat_as_msm_def
      LPP_SATELLITE_ID_LIMIT_def signal_key_def msm_sat_def msm_sig_def nat_add_distrib)

lemma sample_satellite_id:
  "n < 64 \<Longrightarrow> sat_carried (st_id (sample_satellite n)) \<and> msm_sat (st_id (sample_satellite n)) = Suc n"
  by (simp add: sat_carried_def sample_satellite_def sat_as_msm_def LPP_SATELLITE_ID_LIMIT_def msm_sat_def nat_add_distrib)

lemma sample_keys:
  assumes "\<forall>n \<in> set ns. n < 64" and "set ks \<subseteq> {0, 4, 5}"
  shows "map signal_key (filter carried (ob_signals (sample_obs ns ks))) =
    List.product (map Suc ns) (map (\<lambda>k. if k = 0 then 2 else if k = 4 then 3 else 4) ks)"
  using assms(1)
proof (induction ns)
  case (Cons n ns)
  have "map signal_key (filter carried (map (sample_signal n) ks')) =
      map (Pair (Suc n)) (map (\<lambda>k. if k = 0 then 2 else if k = 4 then 3 else 4) ks')"
    if "set ks' \<subseteq> {0, 4, 5}" for ks'
    using that Cons.prems by (induction ks') (auto simp: sample_signal_key)
  then show ?case using Cons assms(2) by (simp add: sample_obs_def)
qed (simp add: sample_obs_def)

lemma sample_known:
  assumes "\<forall>n \<in> set ns. n < 64" and "distinct ns" and "set ks \<subseteq> {0, 4, 5}" and "distinct ks"
  shows "msm_known (sample_obs ns ks) \<and> msm_distinct (sample_obs ns ks) \<and>
    cell_ids (sample_obs ns ks) = set (List.product (map Suc ns) (map (\<lambda>k. if k = 0 then 2 else if k = 4 then 3 else 4) ks)) \<and>
    sat_ids (sample_obs ns ks) = Suc ` set ns"
proof -
  let ?f = "\<lambda>k :: int. if k = 0 then 2 else if k = 4 then 3 else 4 :: nat"
  have cells: "cell_ids (sample_obs ns ks) = set (List.product (map Suc ns) (map ?f ks))"
    using arg_cong [OF sample_keys [OF assms(1,3)], of set] by (simp add: cell_ids_def)
  have sats: "filter (\<lambda>s. sat_carried (st_id s)) (ob_satellites (sample_obs ns ks)) = map sample_satellite ns"
    using assms(1) by (auto simp: sample_obs_def filter_map comp_def sample_satellite_id intro!: filter_True)
  then have ids: "sat_ids (sample_obs ns ks) = Suc ` set ns"
    using assms(1) by (auto simp: sat_ids_def sample_satellite_id image_iff simp flip: set_filter)
  have inj: "inj_on ?f (set ks)" using assms(3) by (auto simp: inj_on_def)
  have "msm_distinct (sample_obs ns ks)"
    unfolding msm_distinct_def sats sample_keys [OF assms(1,3)]
    using assms(1,2,4) inj sample_satellite_id
    by (auto simp: comp_def distinct_map distinct_product inj_on_def)
  moreover have "msm_known (sample_obs ns ks)"
    using assms(1,3) sample_signal_key unfolding msm_known_def cells ids by (auto simp: sample_obs_def)
  ultimately show ?thesis using cells ids by blast
qed

lemma sample_ready:
  "msm_known (sample_obs [4, 9] [0, 4])" "msm_distinct (sample_obs [4, 9] [0, 4])" "msm_fits (sample_obs [4, 9] [0, 4])"
  using sample_known [of "[4, 9]" "[0, 4]"] by (auto simp: msm_fits_def card_insert_if)

theorem msm_masks_read_witness:
  "\<exists>payload. generate_msm 4 True Gen_GPS sample_common (sample_obs [4, 9] [0, 4]) =
      Value (1074, frame_message payload) \<and>
    snd (msm_read (concat (map byte_bits payload))) = [(5, 2), (5, 3), (10, 2), (10, 3)]"
proof -
  have "signal_key ` {s \<in> set (ob_signals (sample_obs [4, 9] [0, 4])). carried s} = {(5, 2), (5, 3), (10, 2), (10, 3)}"
    using sample_known [of "[4, 9]" "[0, 4]"] by (auto simp: cell_ids_def)
  moreover have "sorted_list_of_set (set [(5, 2), (5, 3), (10, 2), (10, 3)]) = [(5, 2), (5, 3), (10, 2), (10 :: nat, 3 :: nat)]"
    by (rule sorted_list_of_set.idem_if_sorted_distinct) (simp_all add: less_eq_prod_def)
  ultimately have "map signal_key (msm_signals (sample_obs [4, 9] [0, 4])) = [(5, 2), (5, 3), (10, 2), (10, 3)]"
    using signals_sorted [OF sample_ready(2)] by (simp add: cell_ids_def)
  then show ?thesis
    using msm_masks_read [OF sample_ready, of 4 True Gen_GPS sample_common] by (auto simp: msm_message_id_def)
qed

theorem msm_frame_accepted_witness:
  "\<exists>f p'. generate_msm 7 True Gen_GPS sample_common (sample_obs [4, 9] [0, 4]) = Value (1077, f) \<and>
    rtcm_try_parse (snd (append ring_new f)) = Some (Value (UnsupportedMessage 1077 f), p') \<and> contents p' = []"
proof -
  obtain payload where g: "generate_msm 7 True Gen_GPS sample_common (sample_obs [4, 9] [0, 4])
      = Value (1077, frame_message payload)"
    using msm_masks_read [OF sample_ready, of 7 True Gen_GPS sample_common] by (auto simp: msm_message_id_def)
  let ?f = "frame_message payload"
  have "length ?f < 131072" using msm_framed [OF sample_ready _ g] by simp
  from append_new [OF this] have "ring_ok (snd (append ring_new ?f))" "contents (snd (append ring_new ?f)) = ?f @ []"
    by simp_all
  from msm_frame_accepted [OF sample_ready _ g this] show ?thesis
    using g by (auto simp: msm_message_id_def)
qed


end
