(* ===== verification/Rtcm_Messages.thy ===== *)
theory Rtcm_Messages
  imports Rtcm_Masks
begin

text \<open>
  The other messages of the RTCM generator: reference stations (messages/reference_station.cpp), GLONASS biases
  (1230.cpp) and residuals (residuals.cpp), with the extraction of their contents from LPP
  (generator/rtcm/extract).  The numbers of LPP are scaled to doubles and back; which of these ways
  lose nothing is shown in the arithmetic of \<open>Doubles\<close>.
\<close>

section \<open>Contents of the messages\<close>

record ReferenceStation =
  rs_reference_station_id :: u32
  rs_x :: rat
  rs_y :: rat
  rs_z :: rat
  antenna_height :: "rat option"
  is_physical_reference_station :: bool

record PhysicalReferenceStation =
  ps_reference_station_id :: u32
  ps_x :: rat
  ps_y :: rat
  ps_z :: rat

record BiasInformation =
  bi_reference_station_id :: u32
  bi_mask :: u8
  l1_ca :: "rat option"
  l1_p :: "rat option"
  l2_ca :: "rat option"
  l2_p :: "rat option"
  indicator :: bool

record Residuals_Satellite =
  rsat_id :: SatelliteId
  s_oc :: rat
  s_od :: rat
  s_oh :: rat
  s_lc :: rat
  s_ld :: rat

record Residuals =
  rd_time :: timestamp
  rd_reference_station_id :: u32
  n_refs :: u32
  rd_satellites :: "Residuals_Satellite list"

section \<open>Reference stations\<close>

definition df02x :: "rat \<Rightarrow> encoder \<Rightarrow> encoder" where
  "df02x v = enc_i64 38 (word_of_int (rtcm_round (rnd (v / rnd (1 / 10000)))))"

definition df025 :: "rat \<Rightarrow> encoder \<Rightarrow> encoder" where "df025 = df02x"
definition df026 :: "rat \<Rightarrow> encoder \<Rightarrow> encoder" where "df026 = df02x"
definition df027 :: "rat \<Rightarrow> encoder \<Rightarrow> encoder" where "df027 = df02x"

definition df028 :: "rat \<Rightarrow> encoder \<Rightarrow> encoder" where
  "df028 v = enc_u16 16 (word_of_int (rtcm_round (rnd (v / rnd (1 / 10000)))))"

definition encode_1005 :: "ReferenceStation \<Rightarrow> bool \<Rightarrow> bool \<Rightarrow> bool \<Rightarrow> encoder" where
  "encode_1005 r gps_indicator glonass_indicator galileo_indicator =
     (let e = enc_u16 12 1005 Encoder;
          e = enc_u16 12 (ucast (rs_reference_station_id r)) e;
          e = enc_reserve 6 e;
          e = enc_b gps_indicator e;
          e = enc_b glonass_indicator e;
          e = enc_b galileo_indicator e;
          e = enc_b (\<not> is_physical_reference_station r) e;
          e = df025 (rs_x r) e;
          e = enc_u8 1 0 e;
          e = enc_reserve 1 e;
          e = df026 (rs_y r) e;
          e = enc_u8 2 0 e
      in df027 (rs_z r) e)"

definition generate_1005 :: "ReferenceStation \<Rightarrow> bool \<Rightarrow> bool \<Rightarrow> bool \<Rightarrow> u16 \<times> u8 list" where
  "generate_1005 r gps glo gal = (1005, frame_message (enc_mBuffer (encode_1005 r gps glo gal)))"

definition encode_1006 :: "ReferenceStation \<Rightarrow> bool \<Rightarrow> bool \<Rightarrow> bool \<Rightarrow> encoder" where
  "encode_1006 r gps_indicator glonass_indicator galileo_indicator =
     (let e = enc_u16 12 1006 Encoder;
          e = enc_u16 12 (ucast (rs_reference_station_id r)) e;
          e = enc_reserve 6 e;
          e = enc_b gps_indicator e;
          e = enc_b glonass_indicator e;
          e = enc_b galileo_indicator e;
          e = enc_b (\<not> is_physical_reference_station r) e;
          e = df025 (rs_x r) e;
          e = enc_u8 1 0 e;
          e = enc_reserve 1 e;
          e = df026 (rs_y r) e;
          e = enc_u8 2 0 e;
          e = df027 (rs_z r) e
      in if valid (antenna_height r) then df028 (val (antenna_height r)) e else df028 0 e)"

definition generate_1006 :: "ReferenceStation \<Rightarrow> bool \<Rightarrow> bool \<Rightarrow> bool \<Rightarrow> u16 \<times> u8 list" where
  "generate_1006 r gps glo gal = (1006, frame_message (enc_mBuffer (encode_1006 r gps glo gal)))"

definition encode_1032 :: "ReferenceStation \<Rightarrow> PhysicalReferenceStation \<Rightarrow> encoder" where
  "encode_1032 r p =
     (let e = enc_u16 12 1032 Encoder;
          e = enc_u16 12 (ucast (rs_reference_station_id r)) e;
          e = enc_u16 12 (ucast (ps_reference_station_id p)) e;
          e = enc_reserve 6 e;
          e = df025 (ps_x p) e;
          e = df026 (ps_y p) e
      in df027 (ps_z p) e)"

definition generate_1032 :: "ReferenceStation \<Rightarrow> PhysicalReferenceStation \<Rightarrow> u16 \<times> u8 list" where
  "generate_1032 r p = (1032, frame_message (enc_mBuffer (encode_1032 r p)))"

section \<open>Biases and residuals\<close>

text \<open>\<open>static_cast<int64_t>\<close> of a double truncates.\<close>

definition df42x :: "u8 \<Rightarrow> u8 \<Rightarrow> rat \<Rightarrow> encoder \<Rightarrow> encoder" where
  "df42x b m v e =
     (if b AND m = 0 then e else enc_i16 16 (word_of_int (trunc (rnd (v / rnd (2 / 100))))) e)"

definition df423 :: "u8 \<Rightarrow> u8 \<Rightarrow> rat \<Rightarrow> encoder \<Rightarrow> encoder" where "df423 = df42x"
definition df424 :: "u8 \<Rightarrow> u8 \<Rightarrow> rat \<Rightarrow> encoder \<Rightarrow> encoder" where "df424 = df42x"
definition df425 :: "u8 \<Rightarrow> u8 \<Rightarrow> rat \<Rightarrow> encoder \<Rightarrow> encoder" where "df425 = df42x"
definition df426 :: "u8 \<Rightarrow> u8 \<Rightarrow> rat \<Rightarrow> encoder \<Rightarrow> encoder" where "df426 = df42x"

definition encode_1230 :: "BiasInformation \<Rightarrow> encoder" where
  "encode_1230 b =
     (let e = enc_u16 12 1230 Encoder;
          e = enc_u16 12 (ucast (bi_reference_station_id b)) e;
          e = enc_b (indicator b) e;
          e = enc_reserve 3 e;
          e = enc_u8 4 (bi_mask b) e;
          e = df423 1 (bi_mask b) (val (l1_ca b)) e;
          e = df424 2 (bi_mask b) (val (l1_p b)) e;
          e = df425 4 (bi_mask b) (val (l2_ca b)) e
      in df426 8 (bi_mask b) (val (l2_p b)) e)"

definition generate_1230 :: "BiasInformation \<Rightarrow> u16 \<times> u8 list" where
  "generate_1230 b = (1230, frame_message (enc_mBuffer (encode_1230 b)))"

text \<open>\<open>static_cast<uint32_t>(v / unit)\<close>, for values that are not negative.\<close>

definition residual_units :: "rat \<Rightarrow> rat \<Rightarrow> u32" where
  "residual_units v unit = word_of_int (trunc (rnd (v / rnd unit)))"

definition residual_fields :: "u8 \<Rightarrow> Residuals_Satellite \<Rightarrow> encoder \<Rightarrow> encoder" where
  "residual_fields number s e =
     (let e = enc_u8 6 number e;
          e = enc_u32 8 (residual_units (s_oc s) (1 / 2)) e;
          e = enc_u32 9 (residual_units (s_od s) (1 / 100)) e;
          e = enc_u32 6 (residual_units (s_oh s) (1 / 10)) e;
          e = enc_u32 10 (residual_units (s_lc s) (1 / 2)) e
      in enc_u32 10 (residual_units (s_ld s) (1 / 100)) e)"

definition encode_1030 :: "Residuals \<Rightarrow> encoder" where
  "encode_1030 r =
     (let time = ts_seconds (time_of_week (convert_scale TAI scale.GPS (rd_time r)));
          sats = filter (\<lambda>s. sat_gnss (rsat_id s) = GPS \<and> valid (as_df009 (rsat_id s))) (rd_satellites r);
          e = enc_u16 12 1030 Encoder;
          e = enc_u32 20 (word_of_int time) e;
          e = enc_u16 12 (ucast (rd_reference_station_id r)) e;
          e = enc_u8 7 (ucast (n_refs r)) e;
          e = enc_u8 5 (word_of_nat (length sats)) e
      in for_each (\<lambda>s. residual_fields (word_of_int (val (as_df009 (rsat_id s)))) s) sats e)"

definition generate_1030 :: "Residuals \<Rightarrow> u16 \<times> u8 list" where
  "generate_1030 r = (1030, frame_message (enc_mBuffer (encode_1030 r)))"

definition encode_1031 :: "Residuals \<Rightarrow> encoder" where
  "encode_1031 r =
     (let time = ts_seconds (time_of_day (convert_scale TAI GLO (rd_time r)));
          sats = filter (\<lambda>s. sat_gnss (rsat_id s) = GLONASS \<and> valid (as_df038 (rsat_id s))) (rd_satellites r);
          e = enc_u16 12 1031 Encoder;
          e = enc_u32 17 (word_of_int time) e;
          e = enc_u16 12 (ucast (rd_reference_station_id r)) e;
          e = enc_u8 7 (ucast (n_refs r)) e;
          e = enc_u8 5 (word_of_nat (length sats)) e
      in for_each (\<lambda>s. residual_fields (word_of_int (val (as_df038 (rsat_id s)))) s) sats e)"

definition generate_1031 :: "Residuals \<Rightarrow> u16 \<times> u8 list" where
  "generate_1031 r = (1031, frame_message (enc_mBuffer (encode_1031 r)))"

section \<open>Extraction\<close>

text \<open>The system of an LPP element.\<close>

definition gnss_of :: "GenericGnssId \<Rightarrow> Gnss" where
  "gnss_of g = (case g of Gen_GPS \<Rightarrow> GPS | Gen_GLONASS \<Rightarrow> GLONASS | Gen_GALILEO \<Rightarrow> GALILEO | Gen_BEIDOU \<Rightarrow> BEIDOU)"

record GNSS_RTK_ReferenceStationInfo =
  lr_referenceStationID :: int
  lr_physical :: bool
  lr_ecef_x :: int
  lr_ecef_y :: int
  lr_ecef_z :: int
  lr_antennaHeight :: "int option"
  lr_physical_info :: "(int \<times> int \<times> int \<times> int) option"

definition reference_point :: "int \<Rightarrow> rat" where
  "reference_point n = rnd (rnd (of_int n) * rnd (1 / 10000))"

definition extract_reference_station :: "GNSS_RTK_ReferenceStationInfo \<Rightarrow> ReferenceStation" where
  "extract_reference_station src =
     \<lparr>rs_reference_station_id = word_of_int (lr_referenceStationID src),
      rs_x = reference_point (lr_ecef_x src), rs_y = reference_point (lr_ecef_y src),
      rs_z = reference_point (lr_ecef_z src),
      antenna_height = map_option reference_point (lr_antennaHeight src),
      is_physical_reference_station = lr_physical src\<rparr>"

definition extract_physical_reference_station :: "int \<times> int \<times> int \<times> int \<Rightarrow> PhysicalReferenceStation" where
  "extract_physical_reference_station src =
     (case src of (n, x, y, z) \<Rightarrow>
        \<lparr>ps_reference_station_id = word_of_int n, ps_x = reference_point x, ps_y = reference_point y,
         ps_z = reference_point z\<rparr>)"

record GLO_RTK_BiasInformation =
  lb_referenceStationID :: int
  lb_cpbIndicator :: bool
  lb_l1_ca :: "int option"
  lb_l1_p :: "int option"
  lb_l2_ca :: "int option"
  lb_l2_p :: "int option"

definition bias_mask :: "GLO_RTK_BiasInformation \<Rightarrow> u8" where
  "bias_mask src = (if valid (lb_l1_ca src) then 1 else 0) OR (if valid (lb_l1_p src) then 2 else 0) OR
     (if valid (lb_l2_ca src) then 4 else 0) OR (if valid (lb_l2_p src) then 8 else 0)"

definition bias :: "int \<Rightarrow> rat" where
  "bias n = rnd (rnd (of_int n) * rnd (2 / 100))"

definition extract_bias_information :: "GLO_RTK_BiasInformation \<Rightarrow> BiasInformation" where
  "extract_bias_information src =
     \<lparr>bi_reference_station_id = word_of_int (lb_referenceStationID src), bi_mask = bias_mask src,
      l1_ca = map_option bias (lb_l1_ca src), l1_p = map_option bias (lb_l1_p src),
      l2_ca = map_option bias (lb_l2_ca src), l2_p = map_option bias (lb_l2_p src),
      indicator = lb_cpbIndicator src\<rparr>"

record RTK_Residuals_Element =
  le_satellite_id :: int
  le_s_oc :: int
  le_s_od :: int
  le_s_oh :: int
  le_s_lc :: int
  le_s_ld :: int

definition residual :: "rat \<Rightarrow> int \<Rightarrow> rat" where
  "residual unit n = rnd (rnd (of_int n) * rnd unit)"

definition extract_residual :: "GenericGnssId \<Rightarrow> RTK_Residuals_Element \<Rightarrow> Residuals_Satellite" where
  "extract_residual g e =
     \<lparr>rsat_id = from_lpp (gnss_of g) (le_satellite_id e), s_oc = residual (1 / 2) (le_s_oc e),
      s_od = residual (1 / 100) (le_s_od e), s_oh = residual (1 / 10) (le_s_oh e),
      s_lc = residual (1 / 2) (le_s_lc e), s_ld = residual (1 / 100) (le_s_ld e)\<rparr>"

section \<open>Scaled numbers\<close>

text \<open>A number is recovered by rounding when the error of the way to a double and back is relatively small.\<close>

lemma rtcm_round_near:
  assumes "\<bar>v - of_int n\<bar> \<le> of_int \<bar>n\<bar> / 2 ^ 51" and "\<bar>n\<bar> < 2 ^ 40"
  shows "rtcm_round v = n"
proof -
  have n: "of_int \<bar>n\<bar> \<le> (2 ^ 40 :: rat)"
    using assms(2) by (metis of_int_le_iff of_int_numeral of_int_power order_less_imp_le)
  have "of_int \<bar>n\<bar> / 2 ^ 51 \<le> (2 ^ 40 / 2 ^ 51 :: rat)" using n by (intro divide_right_mono) simp_all
  with assms(1) have v: "\<bar>v - of_int n\<bar> \<le> 1 / 2048" by simp
  have "\<bar>v + 1 / 2\<bar> \<le> \<bar>v - of_int n\<bar> + \<bar>of_int n :: rat\<bar> + 1 / 2" by linarith
  also have "\<dots> \<le> 1 / 2048 + 2 ^ 40 + 1 / 2" using v n by (simp only: of_int_abs add_mono)
  also have "\<dots> \<le> 2 ^ 41" by simp
  finally have "\<bar>v + 1 / 2\<bar> / 2 ^ 53 \<le> (2 ^ 41 / 2 ^ 53 :: rat)" by (intro divide_right_mono) simp_all
  with rnd_error [of "v + 1 / 2"] have w: "\<bar>rnd (v + 1 / 2) - (v + 1 / 2)\<bar> \<le> 1 / 4096" by simp
  have "of_int n \<le> rnd (v + 1 / 2)" "rnd (v + 1 / 2) < of_int n + 1"
    using v w unfolding abs_le_iff by linarith+
  then show ?thesis by (simp add: rtcm_round_def floor_unique)
qed

lemma rnd_of_int40: "\<bar>n\<bar> < 2 ^ 40 \<Longrightarrow> rnd (of_int n) = of_int n"
  by (rule rnd_int) simp

lemma rnd_unit: "0 < c \<Longrightarrow> 0 < rnd c"
proof -
  assume c: "0 < c"
  then have "c / 2 ^ 53 < c" by simp
  then show "0 < rnd c" using rnd_error [of c] c unfolding abs_le_iff by linarith
qed

lemma point_kept:
  assumes "\<bar>n\<bar> < 2 ^ 40"
  shows "rtcm_round (rnd (reference_point n / rnd (1 / 10000))) = n"
  unfolding reference_point_def rnd_of_int40 [OF assms]
  by (rule rtcm_round_near [OF _ assms]) (rule quotient_near, rule rnd_unit, simp)

section \<open>Signed fields\<close>

text \<open>The two's complement of a number in \<open>n\<close> bits.\<close>

definition twos :: "nat \<Rightarrow> int \<Rightarrow> bool list" where
  "twos n i = bits_of n (nat (take_bit n i))"

lemma twos_bits: "twos n i = map (\<lambda>k. bit i (n - 1 - k)) [0..<n]"
  by (auto simp: twos_def bits_of_def bit_nat_iff bit_take_bit_iff)

lemma bit_top:
  assumes "- (2 ^ (n - 1)) \<le> i" and "i < 2 ^ (n - 1)"
  shows "bit i (n - 1) \<longleftrightarrow> i < (0 :: int)"
proof (cases "i < 0")
  case True
  have "(i + 2 ^ (n - 1)) div 2 ^ (n - 1) = 0" using True assms(1) by (intro div_pos_pos_trivial) simp_all
  then have "i div 2 ^ (n - 1) = - 1" by simp
  then show ?thesis using True by (simp add: bit_iff_odd)
next
  case False
  then show ?thesis using assms(2) by (simp add: bit_iff_odd)
qed

lemma written_i64:
  assumes "0 < n" and "n \<le> 64" and "- (2 ^ (n - 1)) \<le> i" and "i < 2 ^ (n - 1)"
  shows "written (enc_i64 n (word_of_int i)) = twos n i"
proof -
  have pow: "(2 :: int) ^ (n - 1) \<le> 2 ^ 63" using assms(2) by (intro power_increasing) simp_all
  have "sint (word_of_int i :: u64) = i"
    using assms(3,4) pow by (simp add: sint_sbintrunc' signed_take_bit_int_eq_self)
  then have neg: "(word_of_int i :: u64) <s 0 \<longleftrightarrow> i < 0" by (simp add: word_sless_alt)
  have "bit (if (word_of_int i :: u64) <s 0 then word_of_int i OR push_bit (n - 1) 1
      else word_of_int i AND NOT (push_bit (n - 1) 1) :: u64) k = bit i k" if "k < n" for k
    using that assms(2) bit_top [OF assms(3,4)] neg
    by (cases "k = n - 1") (auto simp: bit_simps)
  then show ?thesis
    by (simp add: enc_i64_def twos_bits bits_of_def bit_unsigned_iff)
qed

lemma writes_law: "writes f \<Longrightarrow> enc_ok e \<Longrightarrow> enc_ok (f e) \<and> enc_bits (f e) = enc_bits e @ written f"
  by (simp add: writes_def puts_def)

lemma writes_i64 [writes_intros]: "writes (enc_i64 n a)"
  by (simp add: enc_i64_def writes_intros)

lemma coordinate_law:
  assumes "\<bar>n\<bar> < 2 ^ 37" and "enc_ok e"
  shows "enc_ok (df02x (reference_point n) e) \<and> enc_bits (df02x (reference_point n) e) = enc_bits e @ twos 38 n"
  using writes_law [OF writes_i64 assms(2)] written_i64 [of 38 n] point_kept [of n] assms(1)
  by (simp add: df02x_def abs_less_iff)

lemma height_law:
  assumes "0 \<le> n" and "n < 2 ^ 16" and "enc_ok e"
  shows "enc_ok (df028 (reference_point n) e) \<and> enc_bits (df028 (reference_point n) e) = enc_bits e @ bits_of 16 (nat n)"
proof -
  have "unat (word_of_int n :: u16) = nat n"
    using assms(1,2) by (simp add: unsigned_of_int take_bit_int_eq_self)
  then show ?thesis using point_kept [of n] assms by (simp add: df028_def enc_small_laws)
qed

lemma put_law: "enc_ok e \<Longrightarrow> enc_ok (enc_b x e) \<and> enc_bits (enc_b x e) = enc_bits e @ [x]"
  "enc_ok e \<Longrightarrow> enc_ok (enc_reserve n e) \<and> enc_bits (enc_reserve n e) = enc_bits e @ bits_of n 0"
  using puts_basic(5,6) by (simp_all add: puts_def)

text \<open>The station messages, as the standard lays them out.\<close>

definition station_bits :: "nat \<Rightarrow> GNSS_RTK_ReferenceStationInfo \<Rightarrow> bool \<Rightarrow> bool \<Rightarrow> bool \<Rightarrow> bool list" where
  "station_bits number src gps glo gal =
     bits_of 12 number @ bits_of 12 (nat (lr_referenceStationID src)) @ bits_of 6 0 @
     [gps, glo, gal, \<not> lr_physical src] @ twos 38 (lr_ecef_x src) @ [False, False] @
     twos 38 (lr_ecef_y src) @ [False, False] @ twos 38 (lr_ecef_z src)"

definition station_ok :: "GNSS_RTK_ReferenceStationInfo \<Rightarrow> bool" where
  "station_ok src \<longleftrightarrow> 0 \<le> lr_referenceStationID src \<and> lr_referenceStationID src < 4096 \<and>
     \<bar>lr_ecef_x src\<bar> < 2 ^ 37 \<and> \<bar>lr_ecef_y src\<bar> < 2 ^ 37 \<and> \<bar>lr_ecef_z src\<bar> < 2 ^ 37 \<and>
     (\<forall>h. lr_antennaHeight src = Some h \<longrightarrow> 0 \<le> h \<and> h < 2 ^ 16)"

lemma station_id:
  assumes "station_ok src"
  shows "unat (ucast (word_of_int (lr_referenceStationID src) :: u32) :: u16) = nat (lr_referenceStationID src)"
proof -
  have "unat (word_of_int (lr_referenceStationID src) :: u32) = nat (lr_referenceStationID src)"
    using assms by (simp add: station_ok_def unsigned_of_int take_bit_int_eq_self nat_less_iff)
  moreover have "nat (lr_referenceStationID src) < 4096" using assms by (simp add: station_ok_def nat_less_iff)
  ultimately show ?thesis by (simp add: unsigned_ucast_eq take_bit_nat_eq_self)
qed

lemma encode_1005_bits:
  assumes "station_ok src"
  shows "enc_ok (encode_1005 (extract_reference_station src) gps glo gal) \<and>
    enc_bits (encode_1005 (extract_reference_station src) gps glo gal) = station_bits 1005 src gps glo gal"
proof -
  note laws = enc_small_laws put_law coordinate_law
  have z: "bits_of (Suc 0) 0 = [False]" "bits_of 2 0 = [False, False]" by (simp_all add: bits_of_Suc numeral_2_eq_2)
  show ?thesis
    using assms station_id [OF assms]
    by (simp add: encode_1005_def Let_def extract_reference_station_def df025_def df026_def df027_def
        laws station_ok_def station_bits_def z)
qed

lemma encode_1006_bits:
  assumes "station_ok src"
  shows "enc_ok (encode_1006 (extract_reference_station src) gps glo gal) \<and>
    enc_bits (encode_1006 (extract_reference_station src) gps glo gal) = station_bits 1006 src gps glo gal @
      bits_of 16 (case lr_antennaHeight src of None \<Rightarrow> 0 | Some h \<Rightarrow> nat h)"
proof -
  note laws = enc_small_laws put_law coordinate_law height_law
  have z: "bits_of (Suc 0) 0 = [False]" "bits_of 2 0 = [False, False]" by (simp_all add: bits_of_Suc numeral_2_eq_2)
  have "reference_point 0 = 0" by (simp add: reference_point_def)
  then have zero: "df028 0 e = df028 (reference_point 0) e" for e by simp
  show ?thesis
    using assms station_id [OF assms]
    by (cases "lr_antennaHeight src")
      (simp_all add: encode_1006_def Let_def extract_reference_station_def df025_def df026_def df027_def
        laws station_ok_def station_bits_def z zero)
qed

lemma encoded_bytes:
  assumes "enc_ok e" and "enc_bits e = bits" and "length bits mod 8 = 0"
  shows "concat (map byte_bits (enc_mBuffer e)) = bits"
proof -
  have "enc_mBitIndex e = 0" by (rule enc_bytes [OF assms(1)]) (simp only: assms(2,3))
  then show ?thesis using assms(2) by (simp add: enc_bits_def)
qed

text \<open>C21: the coordinates of a reference station reach the receiver unchanged.  Coordinates in tenths of a
  millimetre that LPP carries as integers of 38 bits are scaled to doubles when they are extracted
  and rounded back when they are encoded; the payload of message 1006 has exactly the integers of LPP (and the
  antenna height) in their places, and the payload of 1005 has the same layout without the height.\<close>

theorem station_coordinates_kept:
  assumes "station_ok src"
  shows "\<exists>p5 p6. generate_1005 (extract_reference_station src) gps glo gal = (1005, frame_message p5) \<and>
    concat (map byte_bits p5) = station_bits 1005 src gps glo gal \<and>
    generate_1006 (extract_reference_station src) gps glo gal = (1006, frame_message p6) \<and>
    concat (map byte_bits p6) = station_bits 1006 src gps glo gal @
      bits_of 16 (case lr_antennaHeight src of None \<Rightarrow> 0 | Some h \<Rightarrow> nat h)"
proof -
  have len: "length (station_bits n src gps glo gal) = 152" for n by (simp add: station_bits_def twos_def)
  show ?thesis
    by (rule exI [of _ "enc_mBuffer (encode_1005 (extract_reference_station src) gps glo gal)"],
        rule exI [of _ "enc_mBuffer (encode_1006 (extract_reference_station src) gps glo gal)"])
      (use encode_1005_bits [OF assms, of gps glo gal] encode_1006_bits [OF assms, of gps glo gal] len
        in \<open>simp add: generate_1005_def generate_1006_def encoded_bytes\<close>)
qed

text \<open>Residuals lose a unit.  A residual that LPP carries as an integer is scaled to a double and divided by
  the unit again, but truncated instead of rounded: the integer written is the one of LPP or the
  one below it, and for the GPS ionospheric residual 29 (of hundredths) it is 28.\<close>

theorem residual_loses_unit:
  assumes "0 \<le> n" and "n < 2 ^ 31" and "0 < unit"
  shows "residual_units (residual unit n) unit \<in> {word_of_int n, word_of_int (n - 1)} \<and>
    residual_units (residual (1 / 100) 29) (1 / 100) = 28"
proof
  let ?q = "rnd (rnd (of_int n * rnd unit) / rnd unit)"
  have n: "of_int n \<le> (2 ^ 31 :: rat)" using assms(2) by (metis of_int_le_iff of_int_numeral of_int_power order_less_imp_le)
  have "\<bar>?q - of_int n\<bar> \<le> of_int \<bar>n\<bar> / 2 ^ 51" by (rule quotient_near [OF rnd_unit [OF assms(3)]])
  also have "\<dots> \<le> 2 ^ 31 / 2 ^ 51" using n assms(1) by (intro divide_right_mono) simp_all
  also have "\<dots> \<le> 1 / 2" by simp
  finally have q: "of_int n - 1 / 2 \<le> ?q" "?q \<le> of_int n + 1 / 2" unfolding abs_le_iff by linarith+
  have "trunc ?q = n \<or> trunc ?q = n - 1"
  proof (cases "of_int n \<le> ?q")
    case True
    have "\<lfloor>?q\<rfloor> = n" by (rule floor_unique) (use True q in linarith)+
    moreover have "0 \<le> ?q" using True assms(1) by (metis of_int_0_le_iff order_trans)
    ultimately show ?thesis by (simp add: trunc_def)
  next
    case False
    show ?thesis
    proof (cases "n = 0")
      case True
      then show ?thesis by (simp add: trunc_def)
    next
      case False
      have "\<lfloor>?q\<rfloor> = n - 1" by (rule floor_unique) (use \<open>\<not> of_int n \<le> ?q\<close> q in linarith)+
      moreover have "(1 :: rat) \<le> of_int n" using False assms(1) by simp
      then have "0 \<le> ?q" using q(1) by linarith
      ultimately show ?thesis by (simp add: trunc_def)
    qed
  qed
  moreover have "rnd (of_int n) = of_int n" using assms by (intro rnd_of_int40) simp
  ultimately show "residual_units (residual unit n) unit \<in> {word_of_int n, word_of_int (n - 1)}"
    by (auto simp: residual_units_def residual_def)
  show "residual_units (residual (1 / 100) 29) (1 / 100) = 28" by code_simp
qed

section \<open>Witnesses\<close>

definition sample_station :: GNSS_RTK_ReferenceStationInfo where
  "sample_station = \<lparr>lr_referenceStationID = 12, lr_physical = False, lr_ecef_x = 33320001234, lr_ecef_y = 9230050017,
     lr_ecef_z = -53510004321, lr_antennaHeight = Some 15000, lr_physical_info = None\<rparr>"

theorem station_coordinates_kept_witness:
  "\<exists>payload. generate_1006 (extract_reference_station sample_station) True True False = (1006, frame_message payload) \<and>
    take 38 (drop 34 (concat (map byte_bits payload))) = twos 38 33320001234"
proof -
  have "station_ok sample_station" by (simp add: station_ok_def sample_station_def)
  from station_coordinates_kept [OF this, of True True False] show ?thesis
    by (auto simp: station_bits_def sample_station_def twos_def)
qed

theorem residual_loses_unit_witness:
  "residual_units (residual (1 / 10) 43) (1 / 10) \<in> {43, 42}"
  using residual_loses_unit [of 43 "1 / 10"] by simp

end
