(* ===== verification/Rtcm_Generator.thy ===== *)
theory Rtcm_Generator
  imports Rtcm_Messages
begin

text \<open>
  The RTCM generator (generator/rtcm/generator.cpp, lowest_msm.cpp, extract/): from the assistance data
  of an LPP message to a sequence of RTCM messages.  The generated ASN.1 structures are records of the
  members that are read; a null pointer in a list is \<open>None\<close>, a bit string of which one bit is read is that
  bit, and one that is read whole is its number.  The unordered map of observations is a function, since only
  look-ups and maxima are taken of it.  The tracing of observations (DATA_TRACING) is left out.
\<close>

section \<open>Observations\<close>

record GNSS_RTK_SatelliteSignalDataElement =
  gnss_SignalID :: int
  gnss_SignalID_Ext :: "int option"
  lpp_fine_PseudoRange :: int
  lpp_fine_PhaseRange :: int
  lpp_lockTimeIndicator :: int
  lpp_halfCycleAmbiguity :: bool
  lpp_carrier_to_noise_ratio :: "int option"
  lpp_fine_PhaseRangeRate :: "int option"

record GNSS_RTK_SatelliteDataElement =
  lpp_svID :: int
  lpp_integer_ms :: "int option"
  lpp_rough_range :: int
  lpp_rough_phase_range_rate :: "int option"
  lpp_signals :: "GNSS_RTK_SatelliteSignalDataElement option list"

definition extract_signal_id :: "GenericGnssId \<Rightarrow> GNSS_RTK_SatelliteSignalDataElement \<Rightarrow> SignalId" where
  "extract_signal_id g src =
     (let n = (case gnss_SignalID_Ext src of Some n \<Rightarrow> n | None \<Rightarrow> gnss_SignalID src)
      in case sig_from_lpp (gnss_of g) n of Value s \<Rightarrow> s | _ \<Rightarrow> SignalId UNKNOWN (- 1))"

definition LOCK_TIME_SIZE :: nat where "LOCK_TIME_SIZE = 22"

definition LOCK_TIME_COEFF :: "int list" where
  "LOCK_TIME_COEFF =
    [1, 2, 4, 8, 16, 32, 64, 128, 256, 512, 1024,
     2048, 4096, 8192, 16384, 32768, 65536, 131072, 262144, 524288, 1048576, 2097152]"

definition LOCK_TIME_OFFSET :: "int list" where
  "LOCK_TIME_OFFSET =
    [0, 64, 256, 768, 2048, 5120, 12288, 28672, 65536, 147456, 327680, 720896, 1572864, 3407872, 7340032,
     15728640, 33554432, 71303168, 150994944, 318767104, 671088640, 1409286144]"

definition LOCK_TIME_BASE :: "int list" where
  "LOCK_TIME_BASE =
    [0, 64, 96, 128, 160, 192, 224, 256, 288, 320, 352, 384, 416, 448, 480, 512, 544, 576, 608, 640, 672, 704]"

text \<open>The indicator as an unsigned number.\<close>

definition extract_lock_time :: "int \<Rightarrow> rat option" where
  "extract_lock_time n =
     (let v = n mod 2 ^ 64 in
      if v \<ge> LOCK_TIME_BASE ! (LOCK_TIME_SIZE - 1) then Some (rnd (67108864 / 1000))
      else case find (\<lambda>i. v \<ge> LOCK_TIME_BASE ! i \<and> v < LOCK_TIME_BASE ! (i + 1)) [0..<LOCK_TIME_SIZE - 1] of
        Some i \<Rightarrow> Some (rnd (of_int (LOCK_TIME_COEFF ! i * v - LOCK_TIME_OFFSET ! i) / 1000))
      | None \<Rightarrow> None)"

definition extract_signal :: "GenericGnssId \<Rightarrow> SatelliteId \<Rightarrow> GNSS_RTK_SatelliteSignalDataElement \<Rightarrow> Signal" where
  "extract_signal g satellite src =
     \<lparr>sg_id = extract_signal_id g src, sg_satellite = satellite,
      fine_phase_range = Some (rnd (rnd (of_int (lpp_fine_PhaseRange src)) / 2 ^ 31)),
      fine_pseudo_range = Some (rnd (rnd (of_int (lpp_fine_PseudoRange src)) / 2 ^ 29)),
      fine_phase_range_rate =
        map_option (\<lambda>n. rnd (rnd (of_int n) * rnd (1 / 10000))) (lpp_fine_PhaseRangeRate src),
      carrier_to_noise_ratio = map_option (\<lambda>n. rnd (rnd (of_int n) / 2 ^ 4)) (lpp_carrier_to_noise_ratio src),
      lock_time = extract_lock_time (lpp_lockTimeIndicator src),
      half_cycle_ambiguity = lpp_halfCycleAmbiguity src, require_phase_alignment = False\<rparr>"

definition extract_satellite :: "GenericGnssId \<Rightarrow> GNSS_RTK_SatelliteDataElement \<Rightarrow> Observations \<Rightarrow> Observations" where
  "extract_satellite g src obs =
     (let satellite = \<lparr>st_id = from_lpp (gnss_of g) (lpp_svID src),
            integer_ms = map_option int32 (lpp_integer_ms src),
            rough_range = Some (rnd (rnd (of_int (lpp_rough_range src)) / 2 ^ 10)),
            rough_phase_range_rate = map_option (\<lambda>n. rnd (of_int n)) (lpp_rough_phase_range_rate src),
            frequency_channel = None\<rparr>
      in obs\<lparr>ob_signals := ob_signals obs @
               map (extract_signal g (st_id satellite)) (map the (filter valid (lpp_signals src))),
             ob_satellites := ob_satellites obs @ [satellite]\<rparr>)"

record GNSS_SystemTime =
  gnss_TimeID :: GenericGnssId
  gnss_DayNumber :: int
  gnss_TimeOfDay :: int
  gnss_TimeOfDayFrac_msec :: "int option"

text \<open>A system time of another constellation is \<open>UNREACHABLE\<close> in the code and not a value here.\<close>

definition extract_epoch_time :: "GNSS_SystemTime \<Rightarrow> timestamp" where
  "extract_epoch_time src =
     (let tod = (case gnss_TimeOfDayFrac_msec src of None \<Rightarrow> rnd (of_int (gnss_TimeOfDay src))
            | Some ms \<Rightarrow> rnd (rnd (of_int (gnss_TimeOfDay src)) + rnd (rnd (of_int ms) / 1000)));
          scale = (case gnss_TimeID src of Gen_GPS \<Rightarrow> scale.GPS | Gen_GLONASS \<Rightarrow> GLO
            | Gen_GALILEO \<Rightarrow> GST | Gen_BEIDOU \<Rightarrow> BDT)
      in convert_scale scale TAI (from_day_tod (gnss_DayNumber src) tod))"

record GNSS_RTK_Observations =
  lpp_epochTime :: GNSS_SystemTime
  lpp_observations :: "GNSS_RTK_SatelliteDataElement option list"

definition extract_observations :: "GenericGnssId \<Rightarrow> GNSS_RTK_Observations \<Rightarrow> Observations" where
  "extract_observations g src =
     foldl (\<lambda>obs s. extract_satellite g s obs)
       \<lparr>ob_time = extract_epoch_time (lpp_epochTime src), ob_signals = [], ob_satellites = []\<rparr>
       (map the (filter valid (lpp_observations src)))"

section \<open>The lowest MSM\<close>

text \<open>\<^verbatim>\<open>round\<close> of the standard library: to the nearest integer, halves away from zero.\<close>

definition round_away :: "rat \<Rightarrow> int" where
  "round_away q = (if q \<ge> 0 then \<lfloor>q + 1 / 2\<rfloor> else \<lceil>q - 1 / 2\<rceil>)"

text \<open>Whether a value is the same with both resolutions.\<close>

definition same_at :: "nat \<Rightarrow> nat \<Rightarrow> rat \<Rightarrow> bool" where
  "same_at a b v \<longleftrightarrow>
     \<not> \<bar>rnd (rnd (of_int (round_away (rnd (v / (1 / 2 ^ a))) ) * (1 / 2 ^ a)) -
        rnd (of_int (round_away (rnd (v / (1 / 2 ^ b)))) * (1 / 2 ^ b)))\<bar> > 0"

definition signal_can_be_encoded :: "Signal \<Rightarrow> nat \<Rightarrow> bool" where
  "signal_can_be_encoded s msm_version =
     (if \<not> valid (lock_time s) then False
      else if (msm_version = 4 \<or> msm_version = 6) \<and> valid (fine_phase_range_rate s) then False
      else
        let low = (msm_version = 4 \<or> msm_version = 5) in
        if \<not> same_at 24 29 (val (fine_pseudo_range s)) \<and> low then False
        else if \<not> same_at 29 31 (val (fine_phase_range s)) \<and> low then False
        else if \<bar>rnd (from_msm_lock (to_msm_lock (val (lock_time s))) - val (lock_time s))\<bar> > rnd (1 / 10000) \<and> low
          then False
        else if valid (carrier_to_noise_ratio s) \<and>
            \<bar>rnd (rnd (of_int (round_away (val (carrier_to_noise_ratio s)))) -
               rnd (of_int (round_away (rnd (val (carrier_to_noise_ratio s) / (1 / 16)))) * (1 / 16)))\<bar> > rnd (1 / 10000) \<and> low
          then False
        else True)"

text \<open>The first of 4 to 7 that is possible, or 0.\<close>

definition first_version :: "(nat \<Rightarrow> bool) \<Rightarrow> nat" where
  "first_version possible = (case find possible [4, 5, 6, 7] of Some i \<Rightarrow> i | None \<Rightarrow> 0)"

definition signal_lowest_msm :: "Signal \<Rightarrow> nat" where
  "signal_lowest_msm s = first_version (signal_can_be_encoded s)"

definition satellite_can_be_encoded :: "Satellite \<Rightarrow> nat \<Rightarrow> bool" where
  "satellite_can_be_encoded s msm_version =
     (if \<not> valid (rough_range s) then False
      else if (msm_version = 4 \<or> msm_version = 6) \<and> sat_gnss (st_id s) = GLONASS \<and> valid (frequency_channel s) then False
      else if (msm_version = 4 \<or> msm_version = 6) \<and> valid (rough_phase_range_rate s) then False
      else True)"

definition satellite_lowest_msm :: "Satellite \<Rightarrow> nat" where
  "satellite_lowest_msm s = first_version (satellite_can_be_encoded s)"

text \<open>The maximum of the versions, or 0 when one of them is 0.\<close>

fun highest_version :: "nat list \<Rightarrow> nat \<Rightarrow> nat" where
  "highest_version [] msm = msm"
| "highest_version (v # vs) msm = (if v = 0 then 0 else highest_version vs (if v > msm then v else msm))"

definition lowest_msm_version :: "Observations \<Rightarrow> nat" where
  "lowest_msm_version obs =
     highest_version (map satellite_lowest_msm (ob_satellites obs) @ map signal_lowest_msm (ob_signals obs)) 0"

section \<open>Assistance data\<close>

text \<open>\<open>GNSS_ID\<close> of an element; \<open>GNSS_ID_other\<close>: SBAS, QZSS and NavIC.\<close>

datatype GNSS_ID = GNSS_ID_gps | GNSS_ID_glonass | GNSS_ID_galileo | GNSS_ID_bds | GNSS_ID_other

record GNSS_RTK_Residuals =
  lpp_residuals_epochTime :: GNSS_SystemTime
  lpp_residuals_referenceStationID :: int
  n_Refs :: int
  lpp_residuals :: "RTK_Residuals_Element option list"

text \<open>The GLONASS satellites with their channel numbers, where the auxiliary information has them.\<close>

record GNSS_GenericAssistDataElement =
  ge_gnss_ID :: GNSS_ID
  ge_auxiliary :: "(int \<times> int option) option list option"
  ge_observations :: "GNSS_RTK_Observations option"
  ge_bias :: "GLO_RTK_BiasInformation option"
  ge_residuals :: "GNSS_RTK_Residuals option"

record GNSS_RTK_CommonObservationInfo =
  lo_referenceStationID :: int
  lo_clockSteeringIndicator :: int
  lo_externalClockIndicator :: int
  lo_smoothingIndicator :: bool
  lo_smoothingInterval :: int

definition extract_common_observation_info :: "GNSS_RTK_CommonObservationInfo \<Rightarrow> CommonObservationInfo" where
  "extract_common_observation_info src =
     \<lparr>ci_reference_station_id = word_of_int (lo_referenceStationID src),
      clock_steering = lo_clockSteeringIndicator src, external_clock = lo_externalClockIndicator src,
      smooth_indicator = of_bool (lo_smoothingIndicator src), smooth_interval = lo_smoothingInterval src\<rparr>"

record GNSS_CommonAssistData =
  gc_observation_info :: "GNSS_RTK_CommonObservationInfo option"
  gc_reference_station :: "GNSS_RTK_ReferenceStationInfo option"

text \<open>What the chain of pointers of a provide-assistance-data message leads to.\<close>

record A_GNSS_ProvideAssistanceData =
  ag_common :: "GNSS_CommonAssistData option"
  ag_generic :: "GNSS_GenericAssistDataElement option list option"

record RtkData =
  rk_common_observation_info :: "CommonObservationInfo option"
  rk_reference_station :: "ReferenceStation option"
  rk_physical_reference_station :: "PhysicalReferenceStation option"
  rk_observations :: "GenericGnssId \<Rightarrow> Observations option"
  rk_bias_information :: "BiasInformation option"
  rk_gps_residuals :: "Residuals option"
  rk_glonass_residuals :: "Residuals option"
  rk_auxiliary :: "(SatelliteId \<Rightarrow> int option option) option"

definition RtkData :: RtkData where
  "RtkData = \<lparr>rk_common_observation_info = None, rk_reference_station = None,
     rk_physical_reference_station = None, rk_observations = (\<lambda>_. None), rk_bias_information = None,
     rk_gps_residuals = None, rk_glonass_residuals = None, rk_auxiliary = None\<rparr>"

definition extract_any_residuals :: "GenericGnssId \<Rightarrow> GNSS_RTK_Residuals \<Rightarrow> Residuals" where
  "extract_any_residuals g src =
     \<lparr>rd_time = extract_epoch_time (lpp_residuals_epochTime src),
      rd_reference_station_id = word_of_int (lpp_residuals_referenceStationID src),
      n_refs = word_of_int (n_Refs src),
      rd_satellites = map (extract_residual g) (map the (filter valid (lpp_residuals src)))\<rparr>"

definition extract_residuals :: "GenericGnssId \<Rightarrow> GNSS_RTK_Residuals \<Rightarrow> RtkData \<Rightarrow> RtkData" where
  "extract_residuals g src data =
     (if g = Gen_GPS then data\<lparr>rk_gps_residuals := Some (extract_any_residuals g src)\<rparr>
      else if g = Gen_GLONASS then data\<lparr>rk_glonass_residuals := Some (extract_any_residuals g src)\<rparr>
      else data)"

definition extract_glonass_auxiliary :: "(int \<times> int option) option list \<Rightarrow> SatelliteId \<Rightarrow> int option option" where
  "extract_glonass_auxiliary src =
     foldl (\<lambda>m e. m(from_lpp GLONASS (fst e) \<mapsto> map_option int32 (snd e))) (\<lambda>_. None) (map the (filter valid src))"

definition extract_reference_station_info :: "GNSS_RTK_ReferenceStationInfo \<Rightarrow> RtkData \<Rightarrow> RtkData" where
  "extract_reference_station_info src data =
     (let data = data\<lparr>rk_reference_station := Some (extract_reference_station src)\<rparr>
      in case lr_physical_info src of
           Some p \<Rightarrow> data\<lparr>rk_physical_reference_station := Some (extract_physical_reference_station p)\<rparr>
         | None \<Rightarrow> data)"

definition extract_common_assist_data :: "GNSS_CommonAssistData \<Rightarrow> RtkData \<Rightarrow> RtkData" where
  "extract_common_assist_data src data =
     (let data = (case gc_observation_info src of
            Some info \<Rightarrow> data\<lparr>rk_common_observation_info := Some (extract_common_observation_info info)\<rparr> | None \<Rightarrow> data)
      in case gc_reference_station src of Some r \<Rightarrow> extract_reference_station_info r data | None \<Rightarrow> data)"

definition extract_generic_element_data :: "GNSS_GenericAssistDataElement \<Rightarrow> RtkData \<Rightarrow> RtkData" where
  "extract_generic_element_data src data =
     (let element = (\<lambda>g.
        let data = (case ge_auxiliary src of
               Some aux \<Rightarrow> data\<lparr>rk_auxiliary := Some (extract_glonass_auxiliary aux)\<rparr> | None \<Rightarrow> data);
            data = (case ge_observations src of
               Some obs \<Rightarrow> data\<lparr>rk_observations := (rk_observations data)(g \<mapsto> extract_observations g obs)\<rparr>
             | None \<Rightarrow> data);
            data = (case ge_bias src of
               Some b \<Rightarrow> (if g = Gen_GLONASS then data\<lparr>rk_bias_information := Some (extract_bias_information b)\<rparr> else data)
             | None \<Rightarrow> data)
        in case ge_residuals src of Some r \<Rightarrow> extract_residuals g r data | None \<Rightarrow> data)
      in case ge_gnss_ID src of
           GNSS_ID_gps \<Rightarrow> element Gen_GPS
         | GNSS_ID_glonass \<Rightarrow> element Gen_GLONASS
         | GNSS_ID_galileo \<Rightarrow> element Gen_GALILEO
         | GNSS_ID_bds \<Rightarrow> element Gen_BEIDOU
         | GNSS_ID_other \<Rightarrow> data)"

definition extract_generic_assist_data :: "GNSS_GenericAssistDataElement option list \<Rightarrow> RtkData \<Rightarrow> RtkData" where
  "extract_generic_assist_data src data =
     foldl (\<lambda>data e. extract_generic_element_data e data) data (map the (filter valid src))"

definition extract_rtk_data :: "A_GNSS_ProvideAssistanceData option \<Rightarrow> RtkData option" where
  "extract_rtk_data src =
     (case src of None \<Rightarrow> None
      | Some a \<Rightarrow>
          let data = RtkData;
              data = (case ag_common a of Some c \<Rightarrow> extract_common_assist_data c data | None \<Rightarrow> data)
          in Some (case ag_generic a of Some g \<Rightarrow> extract_generic_assist_data g data | None \<Rightarrow> data))"

section \<open>The generator\<close>

record MessageFilter =
  systems_gps :: bool
  systems_glonass :: bool
  systems_galileo :: bool
  systems_beidou :: bool
  msm4 :: bool
  msm5 :: bool
  msm6 :: bool
  msm7 :: bool
  force_msm4 :: bool
  force_msm5 :: bool
  force_msm6 :: bool
  force_msm7 :: bool
  mt1005 :: bool
  mt1006 :: bool
  mt1032 :: bool
  include_every_nth_generation :: u32
  mt1030 :: bool
  mt1031 :: bool
  mt1230 :: bool

record Generator =
  mGenerationIndex :: u32
  mReferenceStation :: "ReferenceStation option"
  mPhysicalReferenceStation :: "PhysicalReferenceStation option"

definition gMsmGnssMessageOrder :: "GenericGnssId list" where
  "gMsmGnssMessageOrder = [Gen_GPS, Gen_GLONASS, Gen_GALILEO, Gen_BEIDOU]"

text \<open>Frequency channels, then the systems and MSM that the filter leaves.\<close>

definition add_channels :: "RtkData \<Rightarrow> RtkData" where
  "add_channels data =
     (case rk_auxiliary data of None \<Rightarrow> data
      | Some aux \<Rightarrow>
          data\<lparr>rk_observations := (\<lambda>g. map_option (\<lambda>obs. obs\<lparr>ob_satellites :=
            map (\<lambda>s. case aux (st_id s) of Some c \<Rightarrow> s\<lparr>frequency_channel := c\<rparr> | None \<Rightarrow> s) (ob_satellites obs)\<rparr>)
            (rk_observations data g))\<rparr>)"

definition purge :: "MessageFilter \<Rightarrow> RtkData \<Rightarrow> RtkData" where
  "purge f data =
     (let keep = (\<lambda>g. (case g of Gen_GPS \<Rightarrow> systems_gps f | Gen_GLONASS \<Rightarrow> systems_glonass f
            | Gen_GALILEO \<Rightarrow> systems_galileo f | Gen_BEIDOU \<Rightarrow> systems_beidou f));
          any_msm = (msm4 f \<or> msm5 f \<or> msm6 f \<or> msm7 f);
          any_force_msm = (force_msm4 f \<or> force_msm5 f \<or> force_msm6 f \<or> force_msm7 f)
      in data\<lparr>rk_observations := (\<lambda>g. if keep g \<and> (any_msm \<or> any_force_msm) then rk_observations data g else None)\<rparr>)"

definition choose_msm :: "MessageFilter \<Rightarrow> nat \<Rightarrow> nat" where
  "choose_msm f lowest =
     (let m = (if lowest = 4 \<and> \<not> msm4 f then 5 else lowest);
          m = (if m = 5 \<and> \<not> msm5 f then 6 else m);
          m = (if m = 6 \<and> \<not> msm6 f then 7 else m);
          m = (if m = 7 \<and> \<not> msm7 f then 0 else m);
          m = (if force_msm4 f then 4 else m);
          m = (if force_msm5 f then 5 else m);
          m = (if force_msm6 f then 6 else m);
          m = (if force_msm7 f then 7 else m)
      in if m = 0 then 4 else m)"

definition station_messages :: "Generator \<Rightarrow> MessageFilter \<Rightarrow> RtkData \<Rightarrow> (u16 \<times> u8 list) list" where
  "station_messages gen f data =
     (let should_include = (valid (rk_reference_station data) \<or>
            include_every_nth_generation f > 0 \<and> mGenerationIndex gen mod include_every_nth_generation f = 0);
          has = (\<lambda>g. valid (rk_observations data g));
          station = (if valid (rk_reference_station data) then rk_reference_station data else mReferenceStation gen);
          physical = (if valid (rk_physical_reference_station data) then rk_physical_reference_station data
            else mPhysicalReferenceStation gen)
      in if \<not> should_include then []
         else case station of None \<Rightarrow> []
         | Some r \<Rightarrow>
             (if mt1006 f \<and> valid (antenna_height r) then [generate_1006 r (has Gen_GPS) (has Gen_GLONASS) (has Gen_GALILEO)]
              else if mt1005 f then [generate_1005 r (has Gen_GPS) (has Gen_GLONASS) (has Gen_GALILEO)]
              else []) @
             (case physical of Some p \<Rightarrow> (if mt1032 f then [generate_1032 r p] else []) | None \<Rightarrow> []))"

fun msm_messages ::
  "u32 \<Rightarrow> CommonObservationInfo \<Rightarrow> (GenericGnssId \<times> Observations) list \<Rightarrow> (u16 \<times> u8 list) list outcome" where
  "msm_messages msm common [] = Value []"
| "msm_messages msm common ((g, obs) # rest) =
     (case generate_msm msm (rest = []) g common obs of
        Value m \<Rightarrow> (case msm_messages msm common rest of Value ms \<Rightarrow> Value (m # ms) | _ \<Rightarrow> Undefined)
      | _ \<Rightarrow> Undefined)"

definition present_systems :: "RtkData \<Rightarrow> (GenericGnssId \<times> Observations) list" where
  "present_systems data =
     map (\<lambda>g. (g, the (rk_observations data g))) (filter (\<lambda>g. valid (rk_observations data g)) gMsmGnssMessageOrder)"

definition generate ::
  "A_GNSS_ProvideAssistanceData option \<Rightarrow> MessageFilter \<Rightarrow> Generator \<Rightarrow> ((u16 \<times> u8 list) list \<times> Generator) outcome" where
  "generate src f gen =
     (case extract_rtk_data src of None \<Rightarrow> Value ([], gen)
      | Some data \<Rightarrow>
          let data = purge f (add_channels data);
              lowest = foldl (\<lambda>m (g, obs). max m (lowest_msm_version obs)) 0 (present_systems data);
              msm = choose_msm f lowest;
              msms = (case rk_common_observation_info data of None \<Rightarrow> Value []
                | Some common \<Rightarrow> msm_messages (word_of_nat msm) common (present_systems data))
          in case msms of
               Value ms \<Rightarrow>
                 Value (station_messages gen f data @ ms @
                     (case rk_bias_information data of Some b \<Rightarrow> [generate_1230 b] | None \<Rightarrow> []) @
                     (case rk_gps_residuals data of Some r \<Rightarrow> [generate_1030 r] | None \<Rightarrow> []) @
                     (case rk_glonass_residuals data of Some r \<Rightarrow> [generate_1031 r] | None \<Rightarrow> []),
                   gen\<lparr>mReferenceStation := (if valid (rk_reference_station data) then rk_reference_station data
                         else mReferenceStation gen),
                       mPhysicalReferenceStation := (if valid (rk_physical_reference_station data)
                         then rk_physical_reference_station data else mPhysicalReferenceStation gen),
                       mGenerationIndex := mGenerationIndex gen + 1\<rparr>)
             | _ \<Rightarrow> Undefined)"

section \<open>Nothing is lost in MSM 7\<close>

text \<open>The ranges that the ASN.1 definition gives the members.\<close>

definition lpp_signal_ok :: "GNSS_RTK_SatelliteSignalDataElement \<Rightarrow> bool" where
  "lpp_signal_ok e \<longleftrightarrow>
     - (2 ^ 19) \<le> lpp_fine_PseudoRange e \<and> lpp_fine_PseudoRange e < 2 ^ 19 \<and>
     - (2 ^ 23) \<le> lpp_fine_PhaseRange e \<and> lpp_fine_PhaseRange e < 2 ^ 23 \<and>
     0 \<le> lpp_lockTimeIndicator e \<and> lpp_lockTimeIndicator e < 1024 \<and>
     (\<forall>n. lpp_carrier_to_noise_ratio e = Some n \<longrightarrow> 0 \<le> n \<and> n < 1024) \<and>
     (\<forall>n. lpp_fine_PhaseRangeRate e = Some n \<longrightarrow> - (2 ^ 14) \<le> n \<and> n < 2 ^ 14)"

lemma scaled_exact:
  assumes "\<bar>n\<bar> < 2 ^ 40"
  shows "rtcm_round (rnd (rnd (rnd (of_int n) / 2 ^ k) * 2 ^ k)) = n"
proof -
  have "rnd (of_int n / 2 ^ k) = of_int n / 2 ^ k"
    by (rule rnd_exact [of _ n "- int k"]) (use assms in \<open>simp_all add: power_int_minus divide_inverse\<close>)
  then have "rnd (rnd (rnd (of_int n) / 2 ^ k) * 2 ^ k) = of_int n" using assms by (simp add: rnd_of_int40)
  then show ?thesis by (simp add: rtcm_round_near [OF _ assms])
qed

lemma written_i32:
  assumes "0 < n" and "n \<le> 32" and "- (2 ^ (n - 1)) \<le> i" and "i < 2 ^ (n - 1)"
  shows "written (enc_i32 n (word_of_int i)) = twos n i"
proof -
  have pow: "(2 :: int) ^ (n - 1) \<le> 2 ^ 31" using assms(2) by (intro power_increasing) simp_all
  have "sint (word_of_int i :: u32) = i"
    using assms(3,4) pow by (simp add: sint_sbintrunc' signed_take_bit_int_eq_self)
  then have "scast (word_of_int i :: u32) = (word_of_int i :: u64)" by (simp add: scast_eq)
  then show ?thesis using written_i64 [of n i] assms by (simp add: enc_i32_def)
qed

lemma written_i16:
  assumes "0 < n" and "n \<le> 16" and "- (2 ^ (n - 1)) \<le> i" and "i < 2 ^ (n - 1)"
  shows "written (enc_i16 n (word_of_int i)) = twos n i"
proof -
  have pow: "(2 :: int) ^ (n - 1) \<le> 2 ^ 15" using assms(2) by (intro power_increasing) simp_all
  have "sint (word_of_int i :: u16) = i"
    using assms(3,4) pow by (simp add: sint_sbintrunc' signed_take_bit_int_eq_self)
  then have "scast (word_of_int i :: u16) = (word_of_int i :: u64)" by (simp add: scast_eq)
  then show ?thesis using written_i64 [of n i] assms by (simp add: enc_i16_def)
qed

lemma unat_small16: "0 \<le> n \<Longrightarrow> n < 2 ^ 16 \<Longrightarrow> unat (word_of_int n :: u16) = nat n"
  by (simp add: unsigned_of_int take_bit_int_eq_self)

lemma lock_tables:
  assumes "i < 21"
  shows "LOCK_TIME_COEFF ! i = 2 ^ i" and "LOCK_TIME_OFFSET ! i = 2 ^ i * (32 * int i)"
    and "LOCK_TIME_BASE ! i = (if i = 0 then 0 else 32 * (int i + 1))"
    and "LOCK_TIME_BASE ! (i + 1) = 32 * (int i + 2)"
proof -
  have "\<forall>i < 21. LOCK_TIME_COEFF ! i = 2 ^ i \<and> LOCK_TIME_OFFSET ! i = 2 ^ i * (32 * int i) \<and>
      LOCK_TIME_BASE ! i = (if i = 0 then 0 else 32 * (int i + 1)) \<and> LOCK_TIME_BASE ! (i + 1) = 32 * (int i + 2)"
    by code_simp
  with assms show "LOCK_TIME_COEFF ! i = 2 ^ i" "LOCK_TIME_OFFSET ! i = 2 ^ i * (32 * int i)"
    "LOCK_TIME_BASE ! i = (if i = 0 then 0 else 32 * (int i + 1))" "LOCK_TIME_BASE ! (i + 1) = 32 * (int i + 2)"
    by blast+
qed

lemma lock_ranges_table: "lock_ranges = map (\<lambda>i. (2 ^ (i + 6), 2 ^ i * (32 * int i), 2 ^ i)) [0..<21]"
  by code_simp

lemma find_map: "find P (map f xs) = map_option f (find (\<lambda>x. P (f x)) xs)"
  by (induction xs) simp_all

text \<open>The row of an indicator, its milliseconds and the indicator of these milliseconds.\<close>

lemma lock_row:
  assumes "0 \<le> n" and "n < 704"
  obtains i where "i < 21" and "LOCK_TIME_BASE ! i \<le> n" and "n < 32 * (int i + 2)"
proof (cases "n < 64")
  case True
  then show ?thesis using that [of 0] assms lock_tables [of 0] by simp
next
  case False
  define i where "i = nat (n div 32 - 1)"
  have i: "int i = n div 32 - 1" using False by (simp add: i_def)
  then have "i < 21" "0 < i" using assms False by linarith+
  then show ?thesis using that [of i] lock_tables [of i] i by simp
qed

lemma lock_time_row:
  assumes "i < 21" and "LOCK_TIME_BASE ! i \<le> n" and "n < 32 * (int i + 2)"
  shows "extract_lock_time n = Some (rnd (of_int (2 ^ i * (n - 32 * int i)) / 1000))"
proof -
  have "0 \<le> n" "n < 704" using assms lock_tables [of i] by (simp_all split: if_splits)
  moreover have "LOCK_TIME_BASE ! 21 = 704" by code_simp
  moreover have "find (\<lambda>i. n \<ge> LOCK_TIME_BASE ! i \<and> n < LOCK_TIME_BASE ! (i + 1)) [0..<21] = Some i"
  proof (rule find_upt_SomeI)
    fix j assume "j < i"
    then show "\<not> (LOCK_TIME_BASE ! j \<le> n \<and> n < LOCK_TIME_BASE ! (j + 1))"
      using assms lock_tables [of i] lock_tables [of j] by simp
  qed (use assms lock_tables [of i] in simp_all)
  ultimately show ?thesis
    using assms(1) lock_tables [of i] by (simp add: extract_lock_time_def LOCK_TIME_SIZE_def algebra_simps)
qed

lemma thousandth_not_negative: "0 \<le> t \<Longrightarrow> \<not> rnd (of_int t / 1000) < 0"
  using rnd_error [of "of_int t / 1000"] unfolding abs_le_iff by (simp add: field_simps)

lemma to_msm_lock_ex_row:
  assumes "i < 21" and "LOCK_TIME_BASE ! i \<le> n" and "n < 32 * (int i + 2)"
  shows "to_msm_lock_ex (rnd (of_int (2 ^ i * (n - 32 * int i)) / 1000)) = n"
proof -
  define m where "m = n - 32 * int i"
  let ?t = "2 ^ i * m"
  let ?lock = "rnd (of_int ?t / 1000)"
  have m: "0 \<le> m" "m < 64" "i \<noteq> 0 \<Longrightarrow> 32 \<le> m"
    using assms lock_tables [of i] by (auto simp: m_def split: if_splits)
  have pow: "(2 :: int) ^ j \<le> 2 ^ 20" if "j \<le> i" for j using that assms(1) by (intro power_increasing) simp_all
  have t: "0 \<le> ?t" "?t < 2 ^ (i + 6)" using m by (simp_all add: power_add)
  have small: "(2 :: int) ^ (j + 6) < 2 ^ 40" if "j \<le> i" for j
    using that assms(1) by (intro power_strict_increasing) simp_all
  have less: "?lock < rnd (of_int (2 ^ (j + 6)) / 1000) \<longleftrightarrow> ?t < 2 ^ (j + 6)" if "j \<le> i" for j
    using t small [of i] small [OF that] by (intro thousandth_less_iff) simp_all
  have "find (\<lambda>j. ?lock < rnd (of_int (2 ^ (j + 6)) / 1000)) [0..<21] = Some i"
  proof (rule find_upt_SomeI)
    show "?lock < rnd (of_int (2 ^ (i + 6)) / 1000)" using less [of i] t by simp
    fix j assume j: "j < i"
    have "(2 :: int) ^ (j + 6) \<le> 2 ^ (i + 5)" using j by (intro power_increasing) simp_all
    also have "\<dots> \<le> ?t" using m(3) j by (simp add: power_add)
    finally show "\<not> ?lock < rnd (of_int (2 ^ (j + 6)) / 1000)" using less [of j] j by simp
  qed (use assms in simp_all)
  moreover have "trunc (rnd (?lock * 1000)) = ?t"
  proof -
    have "rnd (?lock * 1000) = of_int ?t"
      using thousandths_scaled [OF thousandths [OF m(1,2)], of "int i"] by (simp add: mult.commute)
    then show ?thesis by (simp only: trunc_def floor_of_int ceiling_of_int if_cancel)
  qed
  moreover have "\<not> ?lock < 0" using t by (intro thousandth_not_negative)
  moreover have "(?t + 2 ^ i * (32 * int i)) div 2 ^ i = n" by (simp add: m_def flip: distrib_left)
  ultimately show ?thesis
    unfolding m_def [symmetric] by (simp add: to_msm_lock_ex_def lock_ranges_table find_map)
qed

lemma to_msm_lock_ex_last: "to_msm_lock_ex (rnd (67108864 / 1000)) = 704"
proof -
  have "\<not> rnd (67108864 / 1000) < rnd (of_int (2 ^ (j + 6)) / 1000)" if "j < 21" for j
  proof -
    have "(2 :: int) ^ (j + 6) \<le> 2 ^ 26" using that by (intro power_increasing) simp_all
    then show ?thesis using thousandth_less_iff [of 67108864 "2 ^ (j + 6)"] by simp
  qed
  then have "find (\<lambda>j. rnd (67108864 / 1000) < rnd (of_int (2 ^ (j + 6)) / 1000)) [0..<21] = None"
    by (simp add: find_None_iff)
  moreover have "\<not> rnd (67108864 / 1000) < 0" using thousandth_not_negative [of 67108864] by simp
  ultimately show ?thesis by (simp add: to_msm_lock_ex_def lock_ranges_table find_map)
qed

text \<open>Every value of the lock time indicator survives the way to seconds and back.\<close>

lemma lock_time_kept:
  assumes "0 \<le> n" and "n < 1024"
  obtains t where "extract_lock_time n = Some t" and "to_msm_lock_ex t = min n 704"
proof (cases "n < 704")
  case True
  from lock_row [OF assms(1) True] obtain i where
    "i < 21" "LOCK_TIME_BASE ! i \<le> n" "n < 32 * (int i + 2)" .
  from lock_time_row [OF this] to_msm_lock_ex_row [OF this] True show ?thesis by (intro that) simp_all
next
  case False
  have "LOCK_TIME_BASE ! 21 = 704" by code_simp
  then have "extract_lock_time n = Some (rnd (67108864 / 1000))"
    using False assms by (simp add: extract_lock_time_def LOCK_TIME_SIZE_def)
  moreover have "to_msm_lock_ex (rnd (67108864 / 1000)) = 704" by (rule to_msm_lock_ex_last)
  ultimately show ?thesis using False by (intro that) simp_all
qed

text \<open>The fields of an element, as MSM 7 has them.\<close>

definition msm7_fields :: "GNSS_RTK_SatelliteSignalDataElement list \<Rightarrow> bool list" where
  "msm7_fields xs =
     concat (map (\<lambda>x. twos 20 (lpp_fine_PseudoRange x)) xs) @
     concat (map (\<lambda>x. twos 24 (lpp_fine_PhaseRange x)) xs) @
     concat (map (\<lambda>x. bits_of 10 (nat (min (lpp_lockTimeIndicator x) 704))) xs) @
     map lpp_halfCycleAmbiguity xs @
     concat (map (\<lambda>x. bits_of 10 (case lpp_carrier_to_noise_ratio x of Some n \<Rightarrow> nat n | None \<Rightarrow> 0)) xs) @
     concat (map (\<lambda>x. twos 15 (case lpp_fine_PhaseRangeRate x of Some n \<Rightarrow> n | None \<Rightarrow> - (2 ^ 14))) xs)"

lemma signal_fields:
  assumes "lpp_signal_ok x"
  shows "written (df405 (extract_signal g sat x)) = twos 20 (lpp_fine_PseudoRange x)"
    and "written (df406 (extract_signal g sat x)) = twos 24 (lpp_fine_PhaseRange x)"
    and "written (df407 (extract_signal g sat x)) = bits_of 10 (nat (min (lpp_lockTimeIndicator x) 704))"
    and "written (df420 (extract_signal g sat x)) = [lpp_halfCycleAmbiguity x]"
    and "written (df408 (extract_signal g sat x)) =
      bits_of 10 (case lpp_carrier_to_noise_ratio x of Some n \<Rightarrow> nat n | None \<Rightarrow> 0)"
    and "written (df404 (extract_signal g sat x)) =
      twos 15 (case lpp_fine_PhaseRangeRate x of Some n \<Rightarrow> n | None \<Rightarrow> - (2 ^ 14))"
proof -
  show "written (df405 (extract_signal g sat x)) = twos 20 (lpp_fine_PseudoRange x)"
    using scaled_exact [of "lpp_fine_PseudoRange x" 29] assms
    by (simp add: df405_def extract_signal_def lpp_signal_ok_def abs_less_iff written_i32)
  show "written (df406 (extract_signal g sat x)) = twos 24 (lpp_fine_PhaseRange x)"
    using scaled_exact [of "lpp_fine_PhaseRange x" 31] assms
    by (simp add: df406_def extract_signal_def lpp_signal_ok_def abs_less_iff written_i32)
  have "0 \<le> lpp_lockTimeIndicator x" "lpp_lockTimeIndicator x < 1024" using assms by (simp_all add: lpp_signal_ok_def)
  from lock_time_kept [OF this] obtain t where t: "extract_lock_time (lpp_lockTimeIndicator x) = Some t"
    "to_msm_lock_ex t = min (lpp_lockTimeIndicator x) 704" .
  then show "written (df407 (extract_signal g sat x)) = bits_of 10 (nat (min (lpp_lockTimeIndicator x) 704))"
    using assms by (simp add: df407_def extract_signal_def lpp_signal_ok_def written_basic unat_small16)
  show "written (df420 (extract_signal g sat x)) = [lpp_halfCycleAmbiguity x]"
    by (simp add: df420_def extract_signal_def written_basic)
  show "written (df408 (extract_signal g sat x)) =
      bits_of 10 (case lpp_carrier_to_noise_ratio x of Some n \<Rightarrow> nat n | None \<Rightarrow> 0)"
  proof (cases "lpp_carrier_to_noise_ratio x")
    case (Some n)
    then have n: "0 \<le> n" "n < 1024" using assms by (simp_all add: lpp_signal_ok_def)
    then have "rtcm_round (rnd (rnd (rnd (of_int n) / 2 ^ 4) / (1 / 16))) = n"
      using scaled_exact [of n 4] by simp
    then show ?thesis using Some n
      by (cases "n = 0") (simp_all add: df408_def extract_signal_def written_basic unat_small16)
  qed (simp add: df408_def extract_signal_def written_basic)
  show "written (df404 (extract_signal g sat x)) =
      twos 15 (case lpp_fine_PhaseRangeRate x of Some n \<Rightarrow> n | None \<Rightarrow> - (2 ^ 14))"
  proof (cases "lpp_fine_PhaseRangeRate x")
    case (Some n)
    then have n: "- (2 ^ 14) \<le> n" "n < 2 ^ 14" using assms by (simp_all add: lpp_signal_ok_def)
    have "rtcm_round (rnd (rnd (rnd (of_int n) * rnd (1 / 10000)) / rnd (1 / 10000))) = n"
    proof -
      have small: "\<bar>n\<bar> < 2 ^ 40" using n by (simp add: abs_less_iff)
      show ?thesis unfolding rnd_of_int40 [OF small]
        by (rule rtcm_round_near [OF quotient_near small], rule rnd_unit, simp)
    qed
    then show ?thesis using Some n
      by (cases "n = - (2 ^ 14)")
        (simp_all add: df404_def extract_signal_def written_basic written_i16 twos_def take_bit_eq_mod)
  qed (simp add: df404_def extract_signal_def written_basic twos_def take_bit_eq_mod)
qed

text \<open>C7: MSM 7 loses nothing.  For any signals of a GNSS whose members are in the ranges of the ASN.1
  definition, the signal data of the MSM 7 message are the members themselves, field by field: the fine pseudo
  ranges, the fine phase ranges, the lock time indicators (those of the last range as its first), the half cycle
  flags, the carrier to noise ratios (0 where there is none) and the fine phase range rates (the invalid value
  where there is none), although between the two they are doubles in ms, seconds and metres per second.\<close>

theorem msm7_lossless:
  assumes "\<forall>(sat, x) \<in> set xs. lpp_signal_ok x"
  shows "enc_bits (generate_msm7_signals (map (\<lambda>(sat, x). extract_signal g sat x) xs) Encoder) =
    msm7_fields (map snd xs)"
proof -
  let ?gs = "map (\<lambda>(sat, x). extract_signal g sat x) xs"
  have cell: "concat (map (\<lambda>s. written (f s)) ?gs) = concat (map h (map snd xs))"
    if "\<And>sat x. lpp_signal_ok x \<Longrightarrow> written (f (extract_signal g sat x)) = h x" for f h
    using assms that by (induction xs) auto
  have "enc_bits (generate_msm7_signals ?gs Encoder) = written (generate_msm7_signals ?gs)"
    by (simp add: written_def)
  also have "\<dots> = concat (map (\<lambda>s. written (df405 s)) ?gs) @ concat (map (\<lambda>s. written (df406 s)) ?gs) @
      concat (map (\<lambda>s. written (df407 s)) ?gs) @ concat (map (\<lambda>s. written (df420 s)) ?gs) @
      concat (map (\<lambda>s. written (df408 s)) ?gs) @ concat (map (\<lambda>s. written (df404 s)) ?gs)"
    unfolding signal_parts by (simp add: writes_comp each_field)
  also have "\<dots> = msm7_fields (map snd xs)"
    unfolding msm7_fields_def concat_map_singleton [of lpp_halfCycleAmbiguity, symmetric]
    by ((rule arg_cong2 [where f = "(@)"], rule cell, erule signal_fields)+, rule cell, erule signal_fields)
  finally show ?thesis .
qed

definition sample_element :: GNSS_RTK_SatelliteSignalDataElement where
  "sample_element = \<lparr>gnss_SignalID = 0, gnss_SignalID_Ext = None, lpp_fine_PseudoRange = - 1234,
     lpp_fine_PhaseRange = 77777, lpp_lockTimeIndicator = 601, lpp_halfCycleAmbiguity = True,
     lpp_carrier_to_noise_ratio = Some 700, lpp_fine_PhaseRangeRate = Some (- 3)\<rparr>"

theorem msm7_lossless_witness:
  "enc_bits (generate_msm7_signals [extract_signal Gen_GPS (from_lpp GPS 4) sample_element] Encoder) =
    twos 20 (- 1234) @ twos 24 77777 @ bits_of 10 601 @ [True] @ bits_of 10 700 @ twos 15 (- 3)"
  using msm7_lossless [of "[(from_lpp GPS 4, sample_element)]" Gen_GPS]
  by (simp add: lpp_signal_ok_def sample_element_def msm7_fields_def)

section \<open>The version that is chosen\<close>

lemma highest_version_spec:
  "highest_version vs m \<noteq> 0 \<Longrightarrow> m \<le> highest_version vs m \<and> (\<forall>v \<in> set vs. v \<noteq> 0 \<and> v \<le> highest_version vs m)"
  by (induction vs arbitrary: m) (fastforce split: if_splits)+

lemma first_version_cases:
  "first_version p = (if p 4 then 4 else if p 5 then 5 else if p 6 then 6 else if p 7 then 7 else 0)"
  by (simp add: first_version_def)

text \<open>What a version cannot encode: the coarse ones a fine value, the versions 4 and 6 a rate.\<close>

lemma signal_versions:
  "signal_can_be_encoded s 7 \<longleftrightarrow> valid (lock_time s)"
  "signal_can_be_encoded s 6 \<longleftrightarrow> valid (lock_time s) \<and> \<not> valid (fine_phase_range_rate s)"
  "signal_can_be_encoded s 4 \<longleftrightarrow> signal_can_be_encoded s 5 \<and> \<not> valid (fine_phase_range_rate s)"
  "signal_can_be_encoded s 5 \<Longrightarrow> valid (lock_time s)"
  by (auto simp: signal_can_be_encoded_def Let_def split: if_splits)

lemma satellite_versions:
  "satellite_can_be_encoded s 7 \<longleftrightarrow> valid (rough_range s)"
  "satellite_can_be_encoded s 5 \<longleftrightarrow> valid (rough_range s)"
  "satellite_can_be_encoded s 4 \<longleftrightarrow> satellite_can_be_encoded s 6"
  "satellite_can_be_encoded s 6 \<Longrightarrow> valid (rough_range s)"
  by (auto simp: satellite_can_be_encoded_def Let_def split: if_splits)

lemma signal_at:
  assumes "signal_lowest_msm s \<noteq> 0" and "signal_lowest_msm s \<le> v" and "v \<in> {4, 5, 6, 7}"
  shows "signal_can_be_encoded s v \<longleftrightarrow> \<not> (v = 6 \<and> signal_lowest_msm s = 5)"
  using assms signal_versions [of s]
  by (auto simp: signal_lowest_msm_def first_version_cases split: if_splits)

lemma satellite_at:
  assumes "satellite_lowest_msm s \<noteq> 0" and "satellite_lowest_msm s \<le> v" and "v \<in> {4, 5, 6, 7}"
  shows "satellite_can_be_encoded s v \<longleftrightarrow> \<not> (v = 6 \<and> satellite_lowest_msm s = 5)"
  using assms satellite_versions [of s]
  by (auto simp: satellite_lowest_msm_def first_version_cases split: if_splits)

lemma highest_version_in: "highest_version vs m \<in> insert m (insert 0 (set vs))"
  by (induction vs arbitrary: m) (fastforce split: if_splits)+

lemma lowest_version_range: "lowest_msm_version obs \<noteq> 0 \<Longrightarrow> lowest_msm_version obs \<in> {4, 5, 6, 7}"
  using highest_version_in [of "map satellite_lowest_msm (ob_satellites obs) @ map signal_lowest_msm (ob_signals obs)" 0]
  by (auto simp: lowest_msm_version_def satellite_lowest_msm_def signal_lowest_msm_def first_version_cases
      split: if_splits)


definition rate_signal :: Signal where
  "rate_signal = \<lparr>sg_id = SignalId GPS 0, sg_satellite = from_lpp GPS 4, fine_phase_range = None,
     fine_pseudo_range = None, fine_phase_range_rate = Some 0, carrier_to_noise_ratio = None,
     lock_time = Some 0, half_cycle_ambiguity = False, require_phase_alignment = False\<rparr>"

definition fine_signal :: Signal where
  "fine_signal = rate_signal\<lparr>fine_pseudo_range := Some (1 / 2 ^ 29), fine_phase_range_rate := None\<rparr>"


section \<open>The messages of a generation\<close>

lemma header_prefix:
  "take 24 (enc_bits (msm_header msm l g c t)) =
     bits_of 12 (unat (msm_message_id msm g)) @ bits_of 12 (unat (ucast (ci_reference_station_id c) :: u16))"
  "enc_bits (msm_header msm l g c t) ! 54 \<longleftrightarrow> \<not> l"
proof -
  let ?e = "enc_u16 12 (ucast (ci_reference_station_id c)) (enc_u16 12 (msm_message_id msm g) Encoder)"
  let ?id = "bits_of 12 (unat (msm_message_id msm g)) @ bits_of 12 (unat (ucast (ci_reference_station_id c) :: u16))"
  have e: "enc_ok ?e" "enc_bits ?e = ?id" by (simp_all add: enc_small_laws)
  have "writes (epoch_time t g)" unfolding epoch_time_def
    by (cases g) (simp_all add: Let_def writes_intros writes_comp [unfolded comp_def])
  then have t: "enc_ok (epoch_time t g ?e)" "enc_bits (epoch_time t g ?e) = ?id @ written (epoch_time t g)"
    using writes_law e by simp_all
  have len: "length (written (epoch_time t g)) = 30"
    using epoch_bits [OF enc_ok_Encoder, of t g] by (simp add: written_def)
  show "take 24 (enc_bits (msm_header msm l g c t)) = ?id" "enc_bits (msm_header msm l g c t) ! 54 \<longleftrightarrow> \<not> l"
    using t len by (simp_all add: msm_header_def enc_small_laws enc_b_def enc_reserve_def enc_u64_law
        nth_append bits_of_def bit_Suc_0_iff)
qed

lemma generate_msm_header:
  assumes "generate_msm msm l g c obs = Value m"
  obtains payload rest where "m = (msm_message_id msm g, frame_message payload)"
    and "concat (map byte_bits payload) = enc_bits (msm_header msm l g c (ob_time obs)) @ rest"
proof -
  let ?h = "msm_header msm l g c (ob_time obs)"
  let ?e = "\<lambda>cs. generate_msm_signals msm (msm_signals obs) (generate_msm_satellites msm (msm_satellites obs)
    (for_each enc_b cs (enc_u32 32 (signal_mask (msm_signals obs)) (enc_u64 64 (satellite_mask (msm_satellites obs)) ?h))))"
  from assms obtain cs where m: "m = (msm_message_id msm g, frame_message (enc_mBuffer (?e cs)))"
    by (auto simp: generate_msm_def Let_def split_beta split: if_splits option.splits)
  have "enc_ok ?h" using header_bits by blast
  then have "\<exists>rest. enc_bits (?e cs) = enc_bits ?h @ rest"
    using writes_data(1) [of msm "msm_satellites obs"] writes_data(2) [of msm "msm_signals obs"] puts_cells [of cs]
    by (simp add: writes_def puts_def enc_small_laws enc_u64_law)
  then obtain rest where "enc_bits (?e cs) = enc_bits ?h @ rest" ..
  moreover obtain pad where "concat (map byte_bits (enc_mBuffer (?e cs))) = enc_bits (?e cs) @ pad"
    using enc_bits_prefix by blast
  ultimately show ?thesis using that [OF m] by simp
qed

text \<open>C20: the MSM of a generation.  There is one message for each GNSS with observations, in the order of the
  list; each is a frame whose payload starts with the number of the MSM of that GNSS and the station id, and its
  multiple message bit is set in every message except the last.\<close>

theorem last_msm_is_marked:
  assumes "msm_messages msm common systems = Value ms"
  shows "length ms = length systems \<and>
    (\<forall>i < length ms. \<exists>payload bits. ms ! i = (msm_message_id msm (fst (systems ! i)), frame_message payload) \<and>
       bits = concat (map byte_bits payload) \<and>
       take 24 bits = bits_of 12 (unat (msm_message_id msm (fst (systems ! i)))) @
         bits_of 12 (unat (ucast (ci_reference_station_id common) :: u16)) \<and>
       (bits ! 54 \<longleftrightarrow> i + 1 < length ms))"
  using assms
proof (induction systems arbitrary: ms)
  case (Cons x rest)
  obtain g obs where x: "x = (g, obs)" by (cases x)
  from Cons.prems x obtain m ms' where m: "generate_msm msm (rest = []) g common obs = Value m"
    and ms': "msm_messages msm common rest = Value ms'" "ms = m # ms'"
    by (auto split: outcome.splits)
  from generate_msm_header [OF m] obtain payload r where p: "m = (msm_message_id msm g, frame_message payload)"
    "concat (map byte_bits payload) = enc_bits (msm_header msm (rest = []) g common (ob_time obs)) @ r" .
  have len: "length (enc_bits (msm_header msm (rest = []) g common (ob_time obs))) = 73" using header_bits by blast
  note IH = Cons.IH [OF ms'(1)]
  show ?case
  proof (intro conjI allI impI)
    fix i assume i: "i < length ms"
    show "\<exists>payload bits. ms ! i = (msm_message_id msm (fst ((x # rest) ! i)), frame_message payload) \<and>
       bits = concat (map byte_bits payload) \<and>
       take 24 bits = bits_of 12 (unat (msm_message_id msm (fst ((x # rest) ! i)))) @
         bits_of 12 (unat (ucast (ci_reference_station_id common) :: u16)) \<and>
       (bits ! 54 \<longleftrightarrow> i + 1 < length ms)"
    proof (cases i)
      case 0
      then show ?thesis using p len header_prefix [of msm "rest = []" g common "ob_time obs"] IH x ms'(2)
        by (auto simp: nth_append)
    next
      case (Suc j)
      then show ?thesis using IH i ms'(2) by auto
    qed
  qed (use IH ms'(2) in simp)
qed simp

theorem last_msm_is_marked_witness:
  "\<exists>p1 p2. msm_messages 4 sample_common [(Gen_GPS, sample_obs [3] [0]), (Gen_GALILEO, sample_obs [] [])] =
      Value [(1074, frame_message p1), (1094, frame_message p2)] \<and>
    concat (map byte_bits p1) ! 54 \<and> \<not> concat (map byte_bits p2) ! 54"
proof -
  let ?xs = "[(Gen_GPS, sample_obs [3] [0]), (Gen_GALILEO, sample_obs [] [])]"
  have "msm_known (sample_obs [3] [0])" "msm_known (sample_obs [] [])" using sample_known by simp_all
  then obtain m1 m2 where "generate_msm 4 False Gen_GPS sample_common (sample_obs [3] [0]) = Value m1"
      "generate_msm 4 True Gen_GALILEO sample_common (sample_obs [] []) = Value m2"
    by (metis generate_msm_bits)
  then obtain ms where ms: "msm_messages 4 sample_common ?xs = Value ms" by simp
  from last_msm_is_marked [OF this] have "length ms = 2" by simp
  with last_msm_is_marked [OF ms] have *: "\<And>i. i < 2 \<Longrightarrow> \<exists>payload. ms ! i = (msm_message_id 4 (fst (?xs ! i)), frame_message payload) \<and>
      (concat (map byte_bits payload) ! 54 \<longleftrightarrow> i + 1 < 2)" by metis
  from *[of 0] *[of 1] obtain p1 p2 where "ms ! 0 = (1074, frame_message p1)" "concat (map byte_bits p1) ! 54"
      "ms ! 1 = (1094, frame_message p2)" "\<not> concat (map byte_bits p2) ! 54"
    by (auto simp: msm_message_id_def)
  moreover from \<open>length ms = 2\<close> have "ms = [ms ! 0, ms ! 1]"
    by (auto simp: list_eq_iff_nth_eq less_Suc_eq numeral_2_eq_2)
  ultimately show ?thesis using ms by metis
qed

end
