(* ===== verification/Spec2Isabelle.thy ===== *)
theory Spec2Isabelle
  imports Client_Input Rtcm_Encoder Time_Scales Timers Lpp_Connection Tbin Streamline Lpp_Client_Faults Msgpack
    Rtcm_Generator
begin

text \<open>
  The SUPL 3GPP LPP client receives assistance data for a GNSS receiver from a location server
  and passes it on in the formats that receivers understand; what the receiver says (positions,
  measurements, the cell of the modem) goes back to the server.  The libraries under
  src/dependency do the work and the programs under src/examples wire them together.  This
  development models the byte level of these libraries: the framing parsers of every stream the
  client reads, the decoders behind them, the writer of the RTCM streams and the time library.

  \<^bold>\<open>Bytes in.\<close>  Every framing parser is a class over \<^verbatim>\<open>format::helper::Parser\<close>, a ring buffer
  that a reader fills with \<^verbatim>\<open>append\<close> and a parser empties with \<^verbatim>\<open>peek\<close>, \<^verbatim>\<open>skip\<close> and
  \<^verbatim>\<open>copy_to_buffer\<close>; \<^verbatim>\<open>try_parse\<close> is called until it returns a null pointer.
  \<^item> \<open>Ring_Buffer\<close> (format/helper/parser.cpp) is the ring as a record of its three members;
    \<open>contents\<close> is the abstraction to the sequence of unread bytes.  It is shown to be a bounded
    queue, and to provide the interface \<open>byte_source\<close> of \<open>Byte_Source\<close>, in which the search for
    the start of a frame is proved to return on the suffix the reference search finds.
  \<^item> \<open>Rtcm_Parser\<close> (format/rtcm/parser.cpp) with \<open>Rtcm_Crc\<close> (the CRC-24Q table in the same file)
    and \<open>Rtcm_Fields\<close> (format/rtcm/datafields.cpp and format/rtcm/messages).
  \<^item> \<open>Ubx_Parser\<close> (format/ubx/parser.cpp) with \<open>Ubx_Codec\<close> (decoder.cpp, encoder.cpp),
    \<open>Ubx_Messages\<close> (format/ubx/messages, cfg.cpp) and \<open>Ubx_Layout\<close>, the layout of the payloads
    that the receiver's interface description fixes, as the reference of the decoders.
  \<^item> \<open>Nmea_Parser\<close> (format/nmea/parser.cpp) with \<open>Nmea_Messages\<close> (format/nmea/messages).
  \<^item> \<open>Ctrl_Parser\<close> (format/ctrl) and \<open>At_Parser\<close> (format/at/parser.cpp), two line protocols.
  \<^item> \<open>Lpp_Uper\<close> (format/lpp/uper_parser.cpp) reads LPP messages off the ring, with the generated
    decoder as a parameter; \<open>Uper\<close> states what the decoder promises (\<open>pdu_decoder\<close>).
  \<^item> \<open>Framing\<close> has the loop around \<^verbatim>\<open>try_parse\<close> and the locale \<open>framing_parser\<close>, interpreted for
    all five parsers: if a frame is recognised from its own bytes, then a stream of frames is
    delivered however it was cut into chunks.  \<open>Client_Input\<close> (\<^verbatim>\<open>process_input\<close> of
    examples/client/main.cpp) puts the parsers together and draws the conclusion for the client.
  \<^item> \<open>Text_Lib\<close> has the routines of the C++ library on text which these use.
  For each parser the definitions follow the code on the ring; a specification states the same
  on the sequence of unread bytes, and the theorems \<open>..._try_parse_refines\<close> connect the two:
  on every well-formed ring the routine returns, keeps the ring well formed, and its result and
  the bytes left are the specified ones.  The other theorems about a parser rest on this one:
  what is delivered for a well-formed frame, what is rejected, what a delivered message says
  about the bytes consumed.

  \<^bold>\<open>Bytes out.\<close>  \<open>Rtcm_Encoder\<close> (generator/rtcm/encoder.cpp, generator.cpp) is the bit encoder
  and the framing of LPP data as RTCM messages; it meets the RTCM parser in a round trip.
  The RTCM generator turns the assistance data of LPP into RTCM messages:
  \<^item> \<open>Gnss_Ids\<close> (gnss/satellite_id.cpp, signal_id.cpp) has the names and numbers of satellites and signals.
  \<^item> \<open>Doubles\<close> is the arithmetic of the generator: a \<^verbatim>\<open>double\<close> is a rational number and each operation is
    rounded to 53 bits (\<open>rnd\<close>).  Its lemmas say when scaling a number to a double and back loses nothing.
  \<^item> \<open>Rtcm_Msm\<close> (generator/rtcm/messages/msm.cpp, msm.hpp) has the multiple signal messages; \<open>Rtcm_Masks\<close>
    shows that their masks can be read and that their frames are accepted by the RTCM parser.
  \<^item> \<open>Rtcm_Messages\<close> (messages/reference_station.cpp, 1230.cpp, residuals.cpp) has the other messages.
  \<^item> \<open>Rtcm_Generator\<close> (generator.cpp, lowest_msm.cpp, extract/) has the extraction of the observations, the
    choice of the MSM version and \<^verbatim>\<open>generate\<close>; the way of a signal from LPP to MSM 7 is shown to lose nothing.
  \<open>Msgpack\<close> (msgpack/msgpack.cpp, msgpack.hpp, vector.hpp) is the MessagePack format of recorded data.  The
  overloads of \<^verbatim>\<open>pack\<close> and \<^verbatim>\<open>unpack\<close> are functions on values with a \<open>shape\<close> for the C++ type, and the locale
  \<open>routine\<close> says what each routine of the decoder promises: it stays within the data.

  \<^bold>\<open>Time.\<close>  \<open>Time_Lib\<close> (time/timestamp.cpp), \<open>Calendar\<close> (time/utc.cpp) and \<open>Time_Scales\<close>
  (time/tai.cpp, gps.cpp, gst.cpp, bdt.cpp, glo.cpp).  A scale is a shift of UTC: the locale
  \<open>time_scale\<close> is interpreted for each of the five classes, and \<open>two_scales\<close> for each pair.

  \<^bold>\<open>Event loop.\<close>  \<open>Scheduler\<close> (scheduler/scheduler.cpp) has the slots, the handles with their
  generations and the loops around \<^verbatim>\<open>epoll_pwait\<close>; the results of the system calls are arguments.
  Callbacks are values and the locale \<open>event_callbacks\<close> says what running one may do.  \<open>Timers\<close>
  (scheduler/timeout.cpp, periodic.cpp) are its instance.

  \<^bold>\<open>Sessions.\<close>  \<open>Supl_Codec\<close> (supl/encode.cpp, decode.cpp) translates between messages and the
  generated ASN.1 structures, with the UPER codec as a parameter; \<open>Supl_Session\<close> (supl/session.cpp)
  is the session over a TCP client that is a parameter; \<open>Lpp_Session\<close> (lpp/session.cpp,
  transaction.hpp) has the transactions of the LPP session on top.  \<open>Lpp_Transactions\<close> shows the
  invariant of its tables under all operations, with callbacks that are arbitrary as long as
  they keep the tables by the operations of the session (\<open>polite\<close>).  \<open>Lpp_Machine\<close> is the
  state machine of the connection (\<^verbatim>\<open>process\<close> and the states, as a partial function), \<open>Lpp_Receive\<close>
  what it does with received bytes, \<open>Lpp_Task\<close> the task that watches its socket on the event loop,
  with the invariant of its registration (locale \<open>loop_invariant\<close> of \<open>Scheduler\<close>), and
  \<open>Lpp_Connection\<close> the life of a connection: loss and reconnection, the order of the handshake, and the
  failures that leave the session stuck.

  \<^bold>\<open>Client.\<close>  \<open>Lpp_Message\<close> (lpp/message.cpp) has the kinds of messages and the fields that the client
  reads; \<open>Lpp_Client\<close> (lpp/client.cpp, periodic_session/handler.cpp, single_session.cpp,
  location_information_delivery.cpp) is the client as the user of an LPP session: its tables are the
  field \<open>world\<close> of the session, its handlers the callbacks, and the callbacks of the program are
  recorded.  \<open>Lpp_Client_Tables\<close> shows that the tables agree with the sessions and with the live
  transactions under each operation (locale \<open>session_user\<close>: what a session keeps of its user's state),
  \<open>Lpp_Client_Runs\<close> draws the conclusion for all runs (\<open>client_run\<close>), and \<open>Lpp_Client_Faults\<close> shows
  what does not work: time-outs of periodic requests, aborts of single requests, and the end of sessions
  that are destroyed.

  \<^bold>\<open>Between the parts.\<close>  \<open>Streamline\<close> (streamline/task.hpp, system.hpp, queue.hpp) is the event
  system through which the client's inputs reach its processors: tasks with a queue for each type
  of message, consumers and inspectors.  Handlers are lists of actions on the system, and a run is a
  partial function, since handlers may push to each other for ever.  \<open>Tbin\<close> (format/tbin, examples/tbin-merge)
  is the file format of recorded inputs, with the merge of recordings over the interface \<open>min_queue\<close>
  of a priority queue.

  \<^bold>\<open>Conventions.\<close>  Machine integers are words of their width; where the code computes with
  signed values that are small by construction, \<open>int\<close> is used and the reason is given at the
  definition.  A routine that returns a possibly null pointer has an \<open>outcome\<close> (\<open>Prelude\<close>):
  \<open>Value\<close>, \<open>Null\<close>, or \<open>Undefined\<close> where the code would write outside a buffer.  A C++ exception
  that the code catches is \<open>None\<close> of an option.  Loops that always return are recursive
  functions with their termination proof; \<^verbatim>\<open>process\<close> of the AT parser and the searches of the
  framing parsers are \<open>partial_function\<close> or \<open>while_option\<close>, and that they return is a theorem.
  No fuel is used.  A \<^verbatim>\<open>double\<close> is a rational number (with infinities and NaN where
  \<^verbatim>\<open>std::stod\<close> can return them) in the NMEA messages and the time library, so rounding is not
  modelled there; in the RTCM generator every operation is rounded (\<open>Doubles\<close>).  UBX and MessagePack floating
  point values are their bit patterns; the scale factors of RTCM data fields that are read stay symbolic.
  Log output, \<^verbatim>\<open>print\<close> methods and allocation failure are not modelled.

  \<^bold>\<open>Not modelled.\<close>  The Tokoro VRS generator, Idokeido, the ephemeris and coordinate libraries and the SPARTN
  generator are floating point numerics: what is right there is a question of numerical error.  The
  decoders of broadcast navigation messages (format/nav) only feed the first two of these.  The contents of
  LPP capabilities and location reports are copied field by field into generated structures.  RINEX and ANTEX
  are text for other tools.  The ASN.1 codecs are generated code; sockets, files and logging are calls of
  the system.
\<close>

end
